(* ===== verification/Prelude.thy ===== *)
theory Prelude
  imports Main "HOL-Library.Word" "HOL-Library.AList"
begin

unbundle bit_operations_syntax

text \<open>
  Shared vocabulary of the development: the machine integers of the source and their
  saturating operations, byte buffers with slices and in-place writes, the big-endian
  byte order of \<open>to_be_bytes\<close> and \<open>from_be_bytes\<close>, hash maps as association lists with
  distinct keys, and the results of code that may panic.  The collections \<open>wire_simps\<close>
  (buffers and byte order), \<open>sat_simps\<close> (saturating arithmetic) and \<open>hm_simps\<close> (hash maps)
  carry the component proofs.

  Conventions used everywhere: \<open>usize\<close> values are \<open>nat\<close> (buffer lengths and indices, which
  the target's 64-bit \<open>usize\<close> cannot overflow for buffers that fit in memory); an arithmetic
  operator without an explicit policy wraps, as in a release build; a value of type
  \<open>'a may_panic\<close> is \<open>None\<close> where the code panics.
\<close>

named_theorems wire_simps \<open>byte order, slices and buffer writes\<close>
named_theorems sat_simps \<open>saturating machine arithmetic\<close>
named_theorems hm_simps \<open>hash maps\<close>

section \<open>Machine integers\<close>

lemma unat_bound: "unat (x :: 'a::len word) < 2 ^ LENGTH('a)"
  by (rule unsigned_less)

type_synonym u8 = "8 word"
type_synonym u16 = "16 word"
type_synonym u32 = "32 word"
type_synonym u64 = "64 word"
type_synonym bytes = "u8 list"
type_synonym 'a may_panic = "'a option"

definition sat_add :: "'a::len word \<Rightarrow> 'a word \<Rightarrow> 'a word" where
  "sat_add a b = (if unat a + unat b < 2 ^ LENGTH('a) then a + b else - 1)"

definition sat_sub :: "'a::len word \<Rightarrow> 'a word \<Rightarrow> 'a word" where
  "sat_sub a b = (if a < b then 0 else a - b)"

lemma unat_sat_add [sat_simps]:
  "unat (sat_add a (b::'a::len word)) = min (unat a + unat b) (2 ^ LENGTH('a) - 1)"
proof (cases "unat a + unat b < 2 ^ LENGTH('a)")
  case True
  then show ?thesis by (simp add: sat_add_def unat_word_ariths)
next
  case False
  moreover have "unat (- 1 :: 'a word) = 2 ^ LENGTH('a) - 1"
    by (simp add: unsigned_minus_1_eq_mask mask_eq_exp_minus_1)
  ultimately show ?thesis by (simp add: sat_add_def)
qed

lemma unat_sat_sub [sat_simps]: "unat (sat_sub a (b::'a::len word)) = unat a - unat b"
  by (auto simp: sat_sub_def word_less_nat_alt unat_sub word_le_nat_alt)

lemma sat_add_ge: "a \<le> sat_add a (b::'a::len word)"
proof -
  have "unat a \<le> 2 ^ LENGTH('a) - 1"
    using unat_bound [of a] by linarith
  then show ?thesis by (simp add: word_le_nat_alt unat_sat_add)
qed

lemma unat_min_word [sat_simps]: "unat (min a (b::'a::len word)) = min (unat a) (unat b)"
  by (auto simp: min_def word_le_nat_alt)

lemma unat_max_word [sat_simps]: "unat (max a (b::'a::len word)) = max (unat a) (unat b)"
  by (auto simp: max_def word_le_nat_alt)

lemma unat_and_mask16: "unat (s AND (0xFFFF :: 'a::len word)) = unat s mod 65536" if "16 < LENGTH('a)"
proof -
  have m: "(0xFFFF :: 'a word) = mask 16"
    by (simp add: mask_eq_exp_minus_1)
  show ?thesis
    unfolding m take_bit_eq_mask [symmetric] unsigned_take_bit_eq
    by (simp add: take_bit_eq_mod)
qed

lemma unat_drop_bit_word: "unat (drop_bit n (s :: 'a::len word)) = unat s div 2 ^ n"
  unfolding unat_drop_bit_eq by (rule drop_bit_eq_div)

lemma unat_ucast_up:
  "LENGTH('a::len) \<le> LENGTH('b::len) \<Longrightarrow> unat (ucast (x::'a word) :: 'b word) = unat x"
  by (simp add: unsigned_ucast_eq take_bit_nat_eq_self_iff)
     (meson less_le_trans one_le_numeral power_increasing unsigned_less)

text \<open>Masks and flag tests on words as bit operations.\<close>

lemma and_mask_take_bit:
  "m = mask n \<Longrightarrow> (x :: 'a::len word) AND m = take_bit n x"
  by (simp add: take_bit_eq_mask)

lemma and_flag_bit:
  "f = 2 ^ n \<Longrightarrow> (x :: 'a::len word) AND f \<noteq> 0 \<longleftrightarrow> bit x n"
  by (simp add: and_exp_eq_0_iff_not_bit)

lemma or_flag_set_bit:
  "f = 2 ^ n \<Longrightarrow> (x :: 'a::len word) OR f = set_bit n x"
  by (simp add: set_bit_eq_or push_bit_of_1)

section \<open>Big-endian byte order\<close>

definition u16_to_be :: "u16 \<Rightarrow> bytes" where
  "u16_to_be w = [ucast (drop_bit 8 w), ucast w]"

definition u16_from_be :: "u8 \<Rightarrow> u8 \<Rightarrow> u16" where
  "u16_from_be a b = push_bit 8 (ucast a) OR ucast b"

definition u32_to_be :: "u32 \<Rightarrow> bytes" where
  "u32_to_be w = [ucast (drop_bit 24 w), ucast (drop_bit 16 w), ucast (drop_bit 8 w), ucast w]"

definition u32_from_be :: "u8 \<Rightarrow> u8 \<Rightarrow> u8 \<Rightarrow> u8 \<Rightarrow> u32" where
  "u32_from_be a b c d =
     push_bit 24 (ucast a) OR push_bit 16 (ucast b) OR push_bit 8 (ucast c) OR ucast d"

definition u64_to_be :: "u64 \<Rightarrow> bytes" where
  "u64_to_be w = map (\<lambda>i. ucast (drop_bit (8 * (7 - i)) w)) [0..<8]"

lemma length_u16_to_be [simp, wire_simps]: "length (u16_to_be w) = 2"
  by (simp add: u16_to_be_def)

lemma length_u32_to_be [simp, wire_simps]: "length (u32_to_be w) = 4"
  by (simp add: u32_to_be_def)

lemma u8_bit_beyond: "8 \<le> n \<Longrightarrow> \<not> bit (b :: u8) n"
  using bit_imp_le_length [of b n] by auto

lemma u16_from_to_be [simp, wire_simps]:
  "u16_from_be (ucast (drop_bit 8 w)) (ucast w) = w"
  by (rule bit_word_eqI) (auto simp: u16_from_be_def bit_simps not_less)

lemma u16_to_from_be [simp, wire_simps]: "u16_to_be (u16_from_be a b) = [a, b]"
  unfolding u16_to_be_def u16_from_be_def
  by (auto intro!: bit_word_eqI simp: bit_simps u8_bit_beyond)

lemma u32_from_to_be [simp, wire_simps]:
  "u32_from_be (ucast (drop_bit 24 w)) (ucast (drop_bit 16 w)) (ucast (drop_bit 8 w)) (ucast w) = w"
proof (rule bit_word_eqI)
  fix n assume "n < LENGTH(32)"
  then consider "n < 8" | "8 \<le> n" "n < 16" | "16 \<le> n" "n < 24" | "24 \<le> n" "n < 32"
    by fastforce
  then show "bit (u32_from_be (ucast (drop_bit 24 w)) (ucast (drop_bit 16 w)) (ucast (drop_bit 8 w))
      (ucast w)) n = bit w n"
    by cases (auto simp: u32_from_be_def bit_simps)
qed

lemma u32_to_from_be [simp, wire_simps]: "u32_to_be (u32_from_be a b c d) = [a, b, c, d]"
  unfolding u32_to_be_def u32_from_be_def
  by (auto intro!: bit_word_eqI simp: bit_simps u8_bit_beyond)

lemma unat_u16_from_be: "unat (u16_from_be a b) = unat a * 256 + unat b"
proof -
  have "u16_from_be a b = push_bit 8 (ucast a) + ucast b"
    unfolding u16_from_be_def
    by (rule disjunctive_add_eq_or [symmetric], rule bit_word_eqI)
       (auto simp: bit_simps u8_bit_beyond)
  moreover have "unat (push_bit 8 (ucast a :: u16)) = unat a * 256"
  proof -
    have "push_bit 8 (ucast a :: u16) = ucast a * 256"
      by (simp add: push_bit_eq_mult)
    moreover have "unat a * 256 < 2 ^ 16"
      using unat_bound [of a] by simp
    ultimately show ?thesis
      by (simp add: unat_word_ariths unat_ucast_up)
  qed
  moreover have "unat a * 256 + unat b < 2 ^ 16"
    using unat_bound [of a] unat_bound [of b] by simp
  ultimately show ?thesis
    by (simp add: unat_word_ariths unat_ucast_up)
qed

section \<open>Buffers\<close>

text \<open>\<open>subslice lo hi xs\<close> is \<open>&xs[lo..hi]\<close>; \<open>write_at lo ys xs\<close> is
  \<open>xs[lo..lo + ys.len()].copy_from_slice(&ys)\<close>.\<close>

definition subslice :: "nat \<Rightarrow> nat \<Rightarrow> 'a list \<Rightarrow> 'a list" where
  "subslice lo hi xs = take (hi - lo) (drop lo xs)"

definition write_at :: "nat \<Rightarrow> 'a list \<Rightarrow> 'a list \<Rightarrow> 'a list" where
  "write_at lo ys xs = take lo xs @ ys @ drop (lo + length ys) xs"

lemma length_subslice [simp, wire_simps]: "length (subslice lo hi xs) = min (hi - lo) (length xs - lo)"
  by (simp add: subslice_def)

lemma length_write_at [simp, wire_simps]:
  "lo + length ys \<le> length xs \<Longrightarrow> length (write_at lo ys xs) = length xs"
  by (simp add: write_at_def)

lemma nth_write_at:
  "lo + length ys \<le> length xs \<Longrightarrow>
   write_at lo ys xs ! i =
     (if lo \<le> i \<and> i < lo + length ys then ys ! (i - lo) else xs ! i)"
proof -
  assume len: "lo + length ys \<le> length xs"
  consider "i < lo" | "lo \<le> i" "i < lo + length ys" | "lo + length ys \<le> i"
    by linarith
  then show ?thesis
  proof cases
    case 1 then show ?thesis using len by (simp add: write_at_def nth_append)
  next
    case 2
    then have "i - lo < length ys" by linarith
    with 2 len show ?thesis by (simp add: write_at_def nth_append)
  next
    case 3
    then have "i - lo - length ys + (lo + length ys) = i" by simp
    with 3 len show ?thesis
      by (cases "i < length xs") (auto simp: write_at_def nth_append add.commute)
  qed
qed

lemma take_write_at:
  "lo + length ys \<le> n \<Longrightarrow> n \<le> length xs \<Longrightarrow> take n (write_at lo ys xs) = write_at lo ys (take n xs)"
  by (rule nth_equalityI) (auto simp: nth_write_at)

lemma nth_subslice: "i < hi - lo \<Longrightarrow> lo + i < length xs \<Longrightarrow> subslice lo hi xs ! i = xs ! (lo + i)"
  by (simp add: subslice_def)

lemma take_eq_map_nth: "n \<le> length xs \<Longrightarrow> take n xs = map ((!) xs) [0..<n]"
  by (rule nth_equalityI) auto

text \<open>The fixed arrays \<open>[u8; 4]\<close> and \<open>[u8; 6]\<close>, and how they are read from and written to a buffer.\<close>

datatype octets4 = O4 u8 u8 u8 u8
datatype octets6 = O6 u8 u8 u8 u8 u8 u8

fun bytes4 :: "octets4 \<Rightarrow> bytes" where
  "bytes4 (O4 a b c d) = [a, b, c, d]"

fun bytes6 :: "octets6 \<Rightarrow> bytes" where
  "bytes6 (O6 a b c d e f) = [a, b, c, d, e, f]"

definition read4 :: "nat \<Rightarrow> bytes \<Rightarrow> octets4" where
  "read4 i xs = O4 (xs ! i) (xs ! (i + 1)) (xs ! (i + 2)) (xs ! (i + 3))"

definition read6 :: "nat \<Rightarrow> bytes \<Rightarrow> octets6" where
  "read6 i xs = O6 (xs ! i) (xs ! (i + 1)) (xs ! (i + 2)) (xs ! (i + 3)) (xs ! (i + 4)) (xs ! (i + 5))"

definition read_u16 :: "nat \<Rightarrow> bytes \<Rightarrow> u16" where
  "read_u16 i xs = u16_from_be (xs ! i) (xs ! (i + 1))"

definition read_u32 :: "nat \<Rightarrow> bytes \<Rightarrow> u32" where
  "read_u32 i xs = u32_from_be (xs ! i) (xs ! (i + 1)) (xs ! (i + 2)) (xs ! (i + 3))"

lemma length_bytes4 [simp, wire_simps]: "length (bytes4 x) = 4"
  by (cases x) simp

lemma length_bytes6 [simp, wire_simps]: "length (bytes6 x) = 6"
  by (cases x) simp

lemma take_Suc_drop:
  "i < length xs \<Longrightarrow> take (Suc n) (drop i xs) = xs ! i # take n (drop (Suc i) xs)"
  by (metis Cons_nth_drop_Suc take_Suc_Cons)

lemma bytes_of_read:
  "i + 4 \<le> length d \<Longrightarrow> bytes4 (read4 i d) = take 4 (drop i d)"
  "i + 6 \<le> length d \<Longrightarrow> bytes6 (read6 i d) = take 6 (drop i d)"
  "i + 2 \<le> length d \<Longrightarrow> u16_to_be (read_u16 i d) = take 2 (drop i d)"
  "i + 4 \<le> length d \<Longrightarrow> u32_to_be (read_u32 i d) = take 4 (drop i d)"
  by (simp_all add: read4_def read6_def read_u16_def read_u32_def numeral_eq_Suc take_Suc_drop)

lemma take_drop_join: "j = i + n \<Longrightarrow> take n (drop i d) @ drop j d = drop i d"
  by (metis add.commute append_take_drop_id drop_drop)

lemma take_join:
  "take i d @ take n (drop i d) @ r = take (i + n) d @ r"
  "take i d @ take n (drop i d) = take (i + n) d"
  by (simp_all add: take_add)

section \<open>Hash maps\<close>

text \<open>
  A \<open>HashMap\<close> is an association list with at most one entry per key; the list order stands
  for the unspecified iteration order.
\<close>

type_synonym ('k, 'v) hash_map = "('k \<times> 'v) list"

definition hm_wf :: "('k, 'v) hash_map \<Rightarrow> bool" where
  "hm_wf m \<longleftrightarrow> distinct (map fst m)"

abbreviation hm_get :: "('k, 'v) hash_map \<Rightarrow> 'k \<Rightarrow> 'v option" where
  "hm_get \<equiv> map_of"

abbreviation hm_insert :: "'k \<Rightarrow> 'v \<Rightarrow> ('k, 'v) hash_map \<Rightarrow> ('k, 'v) hash_map" where
  "hm_insert \<equiv> AList.update"

abbreviation hm_remove :: "'k \<Rightarrow> ('k, 'v) hash_map \<Rightarrow> ('k, 'v) hash_map" where
  "hm_remove \<equiv> AList.delete"

definition hm_contains :: "('k, 'v) hash_map \<Rightarrow> 'k \<Rightarrow> bool" where
  "hm_contains m k = (hm_get m k \<noteq> None)"

lemma hm_wf_Nil [simp, hm_simps]: "hm_wf []"
  by (simp add: hm_wf_def)

lemma hm_wf_insert [simp, hm_simps]: "hm_wf m \<Longrightarrow> hm_wf (hm_insert k v m)"
  by (simp add: hm_wf_def distinct_update)

lemma hm_wf_remove [simp, hm_simps]: "hm_wf m \<Longrightarrow> hm_wf (hm_remove k m)"
  by (simp add: hm_wf_def distinct_delete)

lemma hm_get_insert [hm_simps]: "hm_get (hm_insert k v m) = (hm_get m)(k \<mapsto> v)"
  by (simp add: update_conv')

lemma hm_get_remove [hm_simps]: "hm_get (hm_remove k m) = (hm_get m)(k := None)"
  by (simp add: delete_conv')

lemma hm_get_eq_Some: "hm_wf m \<Longrightarrow> hm_get m k = Some v \<longleftrightarrow> (k, v) \<in> set m"
  by (simp add: hm_wf_def)

lemma hm_contains_iff: "hm_contains m k \<longleftrightarrow> k \<in> fst ` set m"
  by (simp add: hm_contains_def map_of_eq_None_iff)

lemma set_hm_remove: "set (hm_remove k m) \<subseteq> set m"
  by (auto simp: AList.delete_eq)

lemma set_hm_insert: "hm_wf m \<Longrightarrow> set (hm_insert k v m) = insert (k, v) (set (hm_remove k m))"
proof -
  assume wf: "hm_wf m"
  have "x \<in> set (hm_insert k v m) \<longleftrightarrow> x \<in> insert (k, v) (set (hm_remove k m))" for x
  proof -
    have "x \<in> set (hm_insert k v m) \<longleftrightarrow> hm_get (hm_insert k v m) (fst x) = Some (snd x)"
      using wf hm_get_eq_Some [of "hm_insert k v m" "fst x" "snd x"] by simp
    also have "\<dots> \<longleftrightarrow> x = (k, v) \<or> hm_get (hm_remove k m) (fst x) = Some (snd x)"
      by (cases x) (auto simp: hm_simps)
    also have "\<dots> \<longleftrightarrow> x \<in> insert (k, v) (set (hm_remove k m))"
      using wf hm_get_eq_Some [of "hm_remove k m" "fst x" "snd x"] by auto
    finally show ?thesis .
  qed
  then show ?thesis by blast
qed

lemma length_hm_insert:
  "length (hm_insert k v m) = (if k \<in> fst ` set m then length m else Suc (length m))"
  by (induction m) auto

lemma length_hm_remove: "length (hm_remove k m) \<le> length m"
  by (simp add: AList.delete_eq)

end
