(* ===== verification/Interfaces.thy ===== *)
theory Interfaces
  imports Prelude
begin

text \<open>
  The contracts the components of the stack rely on, as locales.  Each is interpreted on the
  model's own definitions by the theory that provides them:
  \<^item> \<open>tag_codec\<close>: the numeric tags of a header field (EtherType, ARP opcode, IP protocol,
    ICMP type, TCP flags) and their decoded form;
  \<^item> \<open>wire_codec\<close>: a serializer and the parser that reads its output back;
  \<^item> \<open>checksum_seal\<close>: a checksum field that is zeroed, computed over and written back;
  \<^item> \<open>kv_store\<close>: a keyed table (hash map, ARP cache, UDP socket table);
  \<^item> \<open>stepper\<close>: a component whose every operation keeps an invariant, run over a list of
    operations.
\<close>

section \<open>Tags\<close>

locale tag_codec =
  fixes dec :: "'n \<Rightarrow> 't" and enc :: "'t \<Rightarrow> 'n"
  assumes enc_dec: "enc (dec v) = v"
begin

lemma dec_inj: "dec v = dec w \<longleftrightarrow> v = w"
  by (metis enc_dec)

lemma dec_enc_iff: "dec (enc t) = t \<longleftrightarrow> t \<in> range dec"
  by (metis enc_dec image_iff rangeI)

lemma enc_surj: "range enc = UNIV"
  by (metis enc_dec surjI)

end

section \<open>Wire formats\<close>

locale wire_codec =
  fixes valid :: "'a \<Rightarrow> bool" and ser :: "'a \<Rightarrow> bytes"
    and par :: "bytes \<Rightarrow> 'e + 'd" and view :: "'d \<Rightarrow> 'a"
  assumes roundtrip: "valid x \<Longrightarrow> \<exists>d. par (ser x) = Inr d \<and> view d = x"
begin

lemma ser_inj: "valid x \<Longrightarrow> valid y \<Longrightarrow> ser x = ser y \<Longrightarrow> x = y"
  by (metis roundtrip sum.inject(2))

lemma never_rejects_own_output: "valid x \<Longrightarrow> \<not> isl (par (ser x))"
  using roundtrip by fastforce

end

section \<open>Checksum fields\<close>

locale checksum_seal =
  fixes compute :: "bytes \<Rightarrow> u16" and verify :: "bytes \<Rightarrow> bool"
    and off :: nat and limit :: nat
  assumes seal_verifies:
    "even off \<Longrightarrow> off + 2 \<le> length b \<Longrightarrow> length b \<le> limit \<Longrightarrow> b ! off = 0 \<Longrightarrow> b ! (off + 1) = 0 \<Longrightarrow>
     verify (write_at off (u16_to_be (compute b)) b)"
begin

lemma reseal_verifies:
  assumes "even off" "off + 2 \<le> length b" "length b \<le> limit"
  shows "verify (write_at off (u16_to_be (compute (write_at off [0, 0] b))) (write_at off [0, 0] b))"
  by (rule seal_verifies) (use assms in \<open>auto simp: nth_write_at\<close>)

end

section \<open>Keyed tables\<close>

locale kv_store =
  fixes empty :: 's and get :: "'s \<Rightarrow> 'k \<Rightarrow> 'v option"
    and put :: "'k \<Rightarrow> 'v \<Rightarrow> 's \<Rightarrow> 's" and del :: "'k \<Rightarrow> 's \<Rightarrow> 's" and inv :: "'s \<Rightarrow> bool"
  assumes get_empty: "get empty k = None"
    and get_put: "inv s \<Longrightarrow> get (put k v s) k' = (if k' = k then Some v else get s k')"
    and get_del: "inv s \<Longrightarrow> get (del k s) k' = (if k' = k then None else get s k')"
    and inv_empty: "inv empty"
    and inv_put: "inv s \<Longrightarrow> inv (put k v s)"
    and inv_del: "inv s \<Longrightarrow> inv (del k s)"
begin

lemma put_overwrites: "inv s \<Longrightarrow> get (put k v (put k w s)) = get (put k v s)"
  by (simp add: fun_eq_iff get_put inv_put)

lemma put_commutes: "inv s \<Longrightarrow> k \<noteq> k' \<Longrightarrow> get (put k v (put k' w s)) = get (put k' w (put k v s))"
  by (simp add: fun_eq_iff get_put inv_put)

lemma del_put: "inv s \<Longrightarrow> get (del k (put k v s)) = get (del k s)"
  by (simp add: fun_eq_iff get_put get_del inv_put)

end

interpretation hm: kv_store "[]" hm_get hm_insert hm_remove hm_wf
  by unfold_locales (auto simp: hm_simps)

section \<open>Components driven by operations\<close>

locale stepper =
  fixes step :: "'s \<Rightarrow> 'op \<Rightarrow> 's" and inv :: "'s \<Rightarrow> bool"
  assumes step_inv: "inv s \<Longrightarrow> inv (step s op)"
begin

lemma run_inv: "inv s \<Longrightarrow> inv (foldl step s ops)"
  by (induction ops arbitrary: s) (auto intro: step_inv)

end

end
