(* ===== verification/TextNum.thy ===== *)
theory TextNum
  imports Prelude
begin

text \<open>
  The parts of Rust's standard library the address parsers and printers use:
  \<open>str::split\<close>, \<open>u8::from_str_radix\<close> (with its three error kinds, a leading \<open>+\<close> accepted), and the
  formats \<open>{:02x}\<close> and \<open>{}\<close> of a byte.  Characters are bytes, as in a UTF-8 \<open>str\<close>.
\<close>

section \<open>Definitions\<close>

fun split_on :: "'a \<Rightarrow> 'a list \<Rightarrow> 'a list list" where
  "split_on c [] = [[]]"
| "split_on c (x # xs) =
     (let r = split_on c xs in if x = c then [] # r else (x # hd r) # tl r)"

datatype int_error = EmptyText | InvalidDigit | PosOverflow

definition to_digit :: "nat \<Rightarrow> char \<Rightarrow> nat option" where
  "to_digit radix ch =
     (let n = of_char ch :: nat;
          d = (if 48 \<le> n \<and> n \<le> 57 then Some (n - 48)
               else if 97 \<le> n \<and> n \<le> 122 then Some (n - 97 + 10)
               else if 65 \<le> n \<and> n \<le> 90 then Some (n - 65 + 10) else None)
      in case d of None \<Rightarrow> None | Some v \<Rightarrow> if v < radix then Some v else None)"

fun digits_u8 :: "nat \<Rightarrow> nat \<Rightarrow> string \<Rightarrow> int_error + u8" where
  "digits_u8 radix acc [] = Inr (of_nat acc)"
| "digits_u8 radix acc (ch # rest) =
     (case to_digit radix ch of
        None \<Rightarrow> Inl InvalidDigit
      | Some d \<Rightarrow> if acc * radix > 255 then Inl PosOverflow
                  else if acc * radix + d > 255 then Inl PosOverflow
                  else digits_u8 radix (acc * radix + d) rest)"

definition u8_from_str_radix :: "nat \<Rightarrow> string \<Rightarrow> int_error + u8" where
  "u8_from_str_radix radix s =
     (case s of
        [] \<Rightarrow> Inl EmptyText
      | ch # rest \<Rightarrow>
          if rest = [] \<and> (ch = CHR ''+'' \<or> ch = CHR ''-'') then Inl InvalidDigit
          else if ch = CHR ''+'' then digits_u8 radix 0 rest
          else digits_u8 radix 0 s)"

definition digit_char :: "nat \<Rightarrow> char" where
  "digit_char d = char_of (if d < 10 then 48 + d else 87 + d)"

definition fmt_hex2 :: "u8 \<Rightarrow> string" where
  "fmt_hex2 b = [digit_char (unat b div 16), digit_char (unat b mod 16)]"

definition fmt_dec :: "u8 \<Rightarrow> string" where
  "fmt_dec b =
     (let n = unat b
      in if n < 10 then [digit_char n]
         else if n < 100 then [digit_char (n div 10), digit_char (n mod 10)]
         else [digit_char (n div 100), digit_char (n div 10 mod 10), digit_char (n mod 10)])"

text \<open>The text form of an address: parts between a separator, each parsed as one byte; the
  first part that does not parse is the error.\<close>

datatype addr_text_error = WrongPartCount | BadPart string int_error

fun parse_parts :: "nat \<Rightarrow> string list \<Rightarrow> addr_text_error + bytes" where
  "parse_parts radix [] = Inr []"
| "parse_parts radix (p # ps) =
     (case u8_from_str_radix radix p of
        Inl e \<Rightarrow> Inl (BadPart p e)
      | Inr b \<Rightarrow> (case parse_parts radix ps of Inl e \<Rightarrow> Inl e | Inr bs \<Rightarrow> Inr (b # bs)))"

section \<open>Printed bytes parse back\<close>

lemma to_digit_digit_char:
  assumes "d < radix" and "radix \<le> 16"
  shows "to_digit radix (digit_char d) = Some d"
  using assms by (auto simp: to_digit_def digit_char_def of_char_of)

lemma digit_char_plain:
  assumes "d < 16" and "ch \<in> {CHR ''+'', CHR ''-'', CHR '':'', CHR ''.''}"
  shows "digit_char d \<noteq> ch" "ch \<noteq> digit_char d"
proof -
  have "(of_char (digit_char d) :: nat) = (if d < 10 then 48 + d else 87 + d)"
    using assms(1) by (simp add: digit_char_def of_char_of)
  moreover have "(of_char ch :: nat) \<in> {43, 45, 58, 46}"
    using assms(2) by auto
  ultimately have "(of_char (digit_char d) :: nat) \<noteq> of_char ch"
    using assms(1) by (auto split: if_splits)
  then show "digit_char d \<noteq> ch" "ch \<noteq> digit_char d" by auto
qed

lemma of_nat_unat_u8 [simp]: "of_nat (unat b) = (b :: u8)"
  by simp

lemma parse_fmt_hex2: "u8_from_str_radix 16 (fmt_hex2 b) = Inr b"
proof -
  have "unat b < 256" using unat_bound [of b] by simp
  then have hi: "unat b div 16 < 16" by (simp add: less_mult_imp_div_less)
  moreover have "unat b mod 16 < 16" by simp
  moreover have "unat b div 16 * 16 + unat b mod 16 = unat b" by simp
  moreover have "unat b div 16 * 16 \<le> 255" using \<open>unat b < 256\<close> by linarith
  ultimately show ?thesis
    using \<open>unat b < 256\<close>
    by (simp add: u8_from_str_radix_def fmt_hex2_def digit_char_plain to_digit_digit_char
        del: div_mult_mod_eq)
qed

lemma parse_fmt_dec: "u8_from_str_radix 10 (fmt_dec b) = Inr b"
proof -
  have n: "unat b < 256" using unat_bound [of b] by simp
  consider "unat b < 10" | "10 \<le> unat b" "unat b < 100" | "100 \<le> unat b" by linarith
  then show ?thesis
  proof cases
    case 1
    then show ?thesis
      by (simp add: u8_from_str_radix_def fmt_dec_def digit_char_plain to_digit_digit_char)
  next
    case 2
    then have "unat b div 10 < 10" by (simp add: less_mult_imp_div_less)
    with 2 n show ?thesis
      by (simp add: u8_from_str_radix_def fmt_dec_def Let_def digit_char_plain to_digit_digit_char)
  next
    case 3
    have hi: "unat b div 100 < 10" using n by (simp add: less_mult_imp_div_less)
    have "unat b div 100 = unat b div 10 div 10"
      by (simp add: div_mult2_eq [of "unat b" 10 10, simplified])
    then have "unat b div 100 * 10 + unat b div 10 mod 10 = unat b div 10"
      by simp
    moreover have "unat b div 10 \<le> 25" using n by linarith
    moreover have "unat b div 10 * 10 + unat b mod 10 = unat b" by simp
    ultimately show ?thesis using hi 3 n
      by (simp add: u8_from_str_radix_def fmt_dec_def Let_def digit_char_plain to_digit_digit_char
          del: div_mult_mod_eq)
  qed
qed

lemma split_on_ne [simp]: "split_on c s \<noteq> []"
  by (induction s) (auto simp: Let_def)

lemma split_on_no_sep: "c \<notin> set s \<Longrightarrow> split_on c s = [s]"
  by (induction s) (auto simp: Let_def)

lemma split_on_part: "c \<notin> set s \<Longrightarrow> split_on c (s @ c # t) = s # split_on c t"
  by (induction s) (auto simp: Let_def)

lemma set_fmt_hex2: "CHR '':'' \<notin> set (fmt_hex2 b)"
  using unat_bound [of b] by (simp add: fmt_hex2_def digit_char_plain less_mult_imp_div_less)

lemma set_fmt_dec: "CHR ''.'' \<notin> set (fmt_dec b)"
  using unat_bound [of b]
  by (auto simp: fmt_dec_def Let_def dest!: digit_char_plain(2) [THEN notE, rotated 2])

end
