(* ===== verification/Ethernet.thy ===== *)
theory Ethernet
  imports Interfaces TextNum
begin

unbundle bit_operations_syntax

text \<open>
  Link layer: MAC addresses with their text form, EtherType tags and Ethernet II frames of
  \<open>ethernet.rs\<close>, and the IEEE 802.1Q tag of \<open>vlan.rs\<close>.  Record fields carry the prefix
  \<open>eth_\<close> or \<open>vlan_\<close> and otherwise the names of the source.
\<close>

section \<open>MAC addresses\<close>

definition ETHER_HEADER_LEN :: nat where "ETHER_HEADER_LEN = 14"
definition ETHERTYPE_IPV4 :: u16 where "ETHERTYPE_IPV4 = 0x0800"
definition ETHERTYPE_ARP :: u16 where "ETHERTYPE_ARP = 0x0806"
definition ETHERTYPE_IPV6 :: u16 where "ETHERTYPE_IPV6 = 0x86DD"
definition ETHERTYPE_VLAN :: u16 where "ETHERTYPE_VLAN = 0x8100"
definition ETHERTYPE_MPLS :: u16 where "ETHERTYPE_MPLS = 0x8847"

lemmas ethertype_defs = ETHERTYPE_IPV4_def ETHERTYPE_ARP_def ETHERTYPE_IPV6_def
  ETHERTYPE_VLAN_def ETHERTYPE_MPLS_def

type_synonym MacAddress = octets6

definition mac_BROADCAST :: MacAddress where
  "mac_BROADCAST = O6 0xFF 0xFF 0xFF 0xFF 0xFF 0xFF"

definition mac_ZERO :: MacAddress where
  "mac_ZERO = O6 0 0 0 0 0 0"

definition mac_is_broadcast :: "MacAddress \<Rightarrow> bool" where
  "mac_is_broadcast m = (m = O6 0xFF 0xFF 0xFF 0xFF 0xFF 0xFF)"

definition mac_is_multicast :: "MacAddress \<Rightarrow> bool" where
  "mac_is_multicast m = (case m of O6 a _ _ _ _ _ \<Rightarrow> a AND 1 \<noteq> 0 \<and> \<not> mac_is_broadcast m)"

definition mac_is_unicast :: "MacAddress \<Rightarrow> bool" where
  "mac_is_unicast m = (\<not> mac_is_multicast m \<and> \<not> mac_is_broadcast m)"

definition mac_fmt :: "MacAddress \<Rightarrow> string" where
  "mac_fmt m =
     (case m of O6 a b c d e f \<Rightarrow>
        fmt_hex2 a @ CHR '':'' # fmt_hex2 b @ CHR '':'' # fmt_hex2 c @ CHR '':'' #
        fmt_hex2 d @ CHR '':'' # fmt_hex2 e @ CHR '':'' # fmt_hex2 f)"

definition mac_from_str :: "string \<Rightarrow> addr_text_error + MacAddress" where
  "mac_from_str s =
     (let parts = split_on CHR '':'' s
      in if length parts \<noteq> 6 then Inl WrongPartCount
         else case parse_parts 16 parts of
                Inl e \<Rightarrow> Inl e
              | Inr bs \<Rightarrow> Inr (read6 0 bs))"

text \<open>Every MAC address is exactly one of broadcast, multicast and unicast.\<close>

lemma mac_kinds:
  "mac_is_unicast m \<longleftrightarrow> \<not> mac_is_multicast m \<and> \<not> mac_is_broadcast m"
  "\<not> (mac_is_multicast m \<and> mac_is_broadcast m)"
  by (cases m, simp add: mac_is_unicast_def mac_is_multicast_def)+

section \<open>EtherType\<close>

datatype EtherType = EtIPv4 | EtArp | EtIPv6 | EtVlan | EtMpls | EtUnknown u16

definition ethertype_from_u16 :: "u16 \<Rightarrow> EtherType" where
  "ethertype_from_u16 val =
     (if val = ETHERTYPE_IPV4 then EtIPv4
      else if val = ETHERTYPE_ARP then EtArp
      else if val = ETHERTYPE_IPV6 then EtIPv6
      else if val = ETHERTYPE_VLAN then EtVlan
      else if val = ETHERTYPE_MPLS then EtMpls
      else EtUnknown val)"

fun ethertype_to_u16 :: "EtherType \<Rightarrow> u16" where
  "ethertype_to_u16 EtIPv4 = ETHERTYPE_IPV4"
| "ethertype_to_u16 EtArp = ETHERTYPE_ARP"
| "ethertype_to_u16 EtIPv6 = ETHERTYPE_IPV6"
| "ethertype_to_u16 EtVlan = ETHERTYPE_VLAN"
| "ethertype_to_u16 EtMpls = ETHERTYPE_MPLS"
| "ethertype_to_u16 (EtUnknown val) = val"

interpretation ethertype: tag_codec ethertype_from_u16 ethertype_to_u16
  by unfold_locales (simp add: ethertype_from_u16_def)

section \<open>Frames\<close>

record EthernetFrame =
  eth_dst_mac :: MacAddress
  eth_src_mac :: MacAddress
  eth_ethertype :: EtherType
  eth_payload :: bytes

datatype EthernetError = EthFrameTooShort nat | EthInvalidLength

definition ethernet_parse :: "bytes \<Rightarrow> EthernetError + EthernetFrame" where
  "ethernet_parse data =
     (if length data < ETHER_HEADER_LEN then Inl (EthFrameTooShort (length data))
      else Inr \<lparr> eth_dst_mac = read6 0 data, eth_src_mac = read6 6 data,
                 eth_ethertype = ethertype_from_u16 (read_u16 12 data),
                 eth_payload = drop ETHER_HEADER_LEN data \<rparr>)"

definition ethernet_serialize :: "MacAddress \<Rightarrow> MacAddress \<Rightarrow> u16 \<Rightarrow> bytes \<Rightarrow> bytes" where
  "ethernet_serialize dst src ethertype payload =
     bytes6 dst @ bytes6 src @ u16_to_be ethertype @ payload"

lemma ethernet_parse_serialize:
  "ethernet_parse (ethernet_serialize dst src et payload) =
     Inr \<lparr> eth_dst_mac = dst, eth_src_mac = src,
           eth_ethertype = ethertype_from_u16 et, eth_payload = payload \<rparr>"
  by (cases dst; cases src)
     (simp add: ethernet_parse_def ethernet_serialize_def ETHER_HEADER_LEN_def u16_to_be_def
       read6_def read_u16_def)

interpretation eth_wire: wire_codec
  "\<lambda>_. True" "\<lambda>(dst, src, et, payload). ethernet_serialize dst src et payload" ethernet_parse
  "\<lambda>f. (eth_dst_mac f, eth_src_mac f, ethertype_to_u16 (eth_ethertype f), eth_payload f)"
  by unfold_locales (auto simp: ethernet_parse_serialize ethertype.enc_dec)

lemma ethernet_serialize_parse:
  assumes "ethernet_parse data = Inr f"
  shows "ethernet_serialize (eth_dst_mac f) (eth_src_mac f) (ethertype_to_u16 (eth_ethertype f))
           (eth_payload f) = data"
proof -
  have len: "14 \<le> length data" and f: "f = \<lparr> eth_dst_mac = read6 0 data,
      eth_src_mac = read6 6 data, eth_ethertype = ethertype_from_u16 (read_u16 12 data),
      eth_payload = drop 14 data \<rparr>"
    using assms by (auto simp: ethernet_parse_def ETHER_HEADER_LEN_def split: if_splits)
  have "data = take 6 (drop 0 data) @ take 6 (drop 6 data) @ take 2 (drop 12 data) @ drop 14 data"
    by (simp only: take_drop_join add.left_neutral) (simp add: take_drop_join)
  then show ?thesis
    unfolding f ethernet_serialize_def using len
    by (simp add: ethertype.enc_dec bytes_of_read)
qed

text \<open>Parsing and serializing Ethernet II frames are inverse to each other: a serialized
  frame parses to its fields, and a frame that parses is byte for byte the serialization of
  the result (so no byte is lost, unknown EtherTypes included).\<close>
theorem ethernet_roundtrip:
  "ethernet_parse (ethernet_serialize dst src et payload) =
     Inr \<lparr> eth_dst_mac = dst, eth_src_mac = src,
           eth_ethertype = ethertype_from_u16 et, eth_payload = payload \<rparr> \<and>
   (ethernet_parse data = Inr f \<longrightarrow>
      ethernet_serialize (eth_dst_mac f) (eth_src_mac f) (ethertype_to_u16 (eth_ethertype f))
        (eth_payload f) = data)"
  by (simp add: ethernet_parse_serialize ethernet_serialize_parse)

theorem ethernet_roundtrip_witness:
  "ethernet_serialize (O6 0 1 2 3 4 5) (O6 6 7 8 9 10 11)
     (ethertype_to_u16 (ethertype_from_u16 0x88CC)) [1, 2] =
   [0, 1, 2, 3, 4, 5, 6, 7, 8, 9, 10, 11, 0x88, 0xCC, 1, 2]"
proof -
  have "ethernet_parse [0, 1, 2, 3, 4, 5, 6, 7, 8, 9, 10, 11, 0x88, 0xCC, 1, 2] =
    Inr \<lparr> eth_dst_mac = O6 0 1 2 3 4 5, eth_src_mac = O6 6 7 8 9 10 11,
          eth_ethertype = ethertype_from_u16 0x88CC, eth_payload = [1, 2] \<rparr>"
    by (simp add: ethernet_parse_def ETHER_HEADER_LEN_def read6_def read_u16_def u16_from_be_def)
  from ethernet_roundtrip [of undefined undefined undefined undefined
      "[0, 1, 2, 3, 4, 5, 6, 7, 8, 9, 10, 11, 0x88, 0xCC, 1, 2]", THEN conjunct2, rule_format, OF this]
  show ?thesis by simp
qed

text \<open>The colon-separated text form of a MAC address, as \<open>Display\<close> writes it, is read back
  by \<open>FromStr\<close> to the same address.\<close>
theorem mac_text_roundtrip: "mac_from_str (mac_fmt m) = Inr m"
  by (cases m)
     (simp add: mac_from_str_def mac_fmt_def split_on_part split_on_no_sep set_fmt_hex2
       parse_fmt_hex2 read6_def)

end
