(* ===== verification/Vlan.thy ===== *)
theory Vlan
  imports Ethernet
begin

unbundle bit_operations_syntax

text \<open>
  The IEEE 802.1Q tag of \<open>vlan.rs\<close>: tag control information, tagged frames, and stripping a
  tag back to a plain Ethernet II frame.
\<close>

definition TPID_8021Q :: u16 where "TPID_8021Q = 0x8100"
definition VLAN_HEADER_LEN :: nat where "VLAN_HEADER_LEN = 18"

record VlanTag =
  vlan_pcp :: u8
  vlan_dei :: bool
  vlan_vid :: u16

definition vlan_new :: "u16 \<Rightarrow> u8 \<Rightarrow> VlanTag" where
  "vlan_new vid pcp = \<lparr> vlan_pcp = pcp AND 0x07, vlan_dei = False, vlan_vid = vid AND 0x0FFF \<rparr>"

definition vlan_to_tci :: "VlanTag \<Rightarrow> u16" where
  "vlan_to_tci t =
     (let tci = (vlan_vid t AND 0x0FFF) OR push_bit 13 (ucast (vlan_pcp t AND 0x07))
      in if vlan_dei t then tci OR 0x1000 else tci)"

definition vlan_from_tci :: "u16 \<Rightarrow> VlanTag" where
  "vlan_from_tci tci =
     \<lparr> vlan_pcp = ucast (drop_bit 13 tci AND 0x07), vlan_dei = (tci AND 0x1000 \<noteq> 0),
       vlan_vid = tci AND 0x0FFF \<rparr>"

record TaggedEthernetFrame =
  tag_dst_mac :: MacAddress
  tag_src_mac :: MacAddress
  tag_vlan :: VlanTag
  tag_inner_ethertype :: EtherType
  tag_payload :: bytes

datatype VlanError = VlanFrameTooShort nat | VlanInvalidTpid u16

definition vlan_parse :: "bytes \<Rightarrow> VlanError + TaggedEthernetFrame" where
  "vlan_parse data =
     (if length data < VLAN_HEADER_LEN then Inl (VlanFrameTooShort (length data))
      else let tpid = read_u16 12 data
           in if tpid \<noteq> TPID_8021Q then Inl (VlanInvalidTpid tpid)
              else Inr \<lparr> tag_dst_mac = read6 0 data, tag_src_mac = read6 6 data,
                         tag_vlan = vlan_from_tci (read_u16 14 data),
                         tag_inner_ethertype = ethertype_from_u16 (read_u16 16 data),
                         tag_payload = drop VLAN_HEADER_LEN data \<rparr>)"

definition vlan_serialize ::
    "MacAddress \<Rightarrow> MacAddress \<Rightarrow> VlanTag \<Rightarrow> u16 \<Rightarrow> bytes \<Rightarrow> bytes" where
  "vlan_serialize dst src vlan inner_ethertype payload =
     bytes6 dst @ bytes6 src @ u16_to_be TPID_8021Q @ u16_to_be (vlan_to_tci vlan) @
     u16_to_be inner_ethertype @ payload"

definition strip_vlan :: "bytes \<Rightarrow> VlanError + bytes" where
  "strip_vlan data =
     (case vlan_parse data of
        Inl e \<Rightarrow> Inl e
      | Inr tagged \<Rightarrow>
          Inr (bytes6 (tag_dst_mac tagged) @ bytes6 (tag_src_mac tagged) @
               u16_to_be (ethertype_to_u16 (tag_inner_ethertype tagged)) @ tag_payload tagged))"

section \<open>Tags\<close>

text \<open>The invariant of a tag: three bits of priority and twelve of VLAN identifier.\<close>

definition vlan_tag_ok :: "VlanTag \<Rightarrow> bool" where
  "vlan_tag_ok t \<longleftrightarrow> vlan_pcp t AND 0x07 = vlan_pcp t \<and> vlan_vid t AND 0x0FFF = vlan_vid t"

lemma tci_masks:
  "(x :: u8) AND 0x07 = take_bit 3 x" "(y :: u16) AND 0x07 = take_bit 3 y"
  "y AND 0x0FFF = take_bit 12 y" "y AND 0x1000 \<noteq> 0 \<longleftrightarrow> bit y 12" "y OR 0x1000 = set_bit 12 y"
  by (rule and_mask_take_bit and_flag_bit or_flag_set_bit, simp add: mask_eq_exp_minus_1)+

lemma vlan_new_ok: "vlan_tag_ok (vlan_new vid pcp)"
  by (simp add: vlan_tag_ok_def vlan_new_def and.assoc)

lemma vlan_from_tci_ok: "vlan_tag_ok (vlan_from_tci tci)"
  by (auto simp: vlan_tag_ok_def vlan_from_tci_def tci_masks intro!: bit_word_eqI simp: bit_simps)

lemma vlan_tci_roundtrip:
  assumes "vlan_tag_ok t"
  shows "vlan_from_tci (vlan_to_tci t) = t"
proof -
  have p: "take_bit 3 (vlan_pcp t) = vlan_pcp t" and v: "take_bit 12 (vlan_vid t) = vlan_vid t"
    using assms by (simp_all add: vlan_tag_ok_def tci_masks)
  have pb: "bit (vlan_pcp t) n \<Longrightarrow> n < 3" and vb: "bit (vlan_vid t) n \<Longrightarrow> n < 12" for n
    using arg_cong [OF p, of "\<lambda>x. bit x n"] arg_cong [OF v, of "\<lambda>x. bit x n"]
    by (auto simp: bit_take_bit_iff)
  have vid: "vlan_vid (vlan_from_tci (vlan_to_tci t)) = vlan_vid t"
    by (rule bit_word_eqI)
       (auto simp: vlan_from_tci_def vlan_to_tci_def tci_masks p v bit_simps Let_def dest: vb)
  moreover have "vlan_pcp (vlan_from_tci (vlan_to_tci t)) = vlan_pcp t"
    by (rule bit_word_eqI)
       (auto simp: vlan_from_tci_def vlan_to_tci_def tci_masks p v bit_simps Let_def dest: pb vb)
  moreover have "vlan_dei (vlan_from_tci (vlan_to_tci t)) = vlan_dei t"
    by (auto simp: vlan_from_tci_def vlan_to_tci_def tci_masks p v bit_simps Let_def dest: vb)
  ultimately show ?thesis by simp
qed

section \<open>Tagged frames\<close>

lemma vlan_parse_serialize:
  assumes "vlan_tag_ok t"
  shows "vlan_parse (vlan_serialize dst src t et payload) =
     Inr \<lparr> tag_dst_mac = dst, tag_src_mac = src, tag_vlan = t,
           tag_inner_ethertype = ethertype_from_u16 et, tag_payload = payload \<rparr>"
  using vlan_tci_roundtrip [OF assms]
  by (cases dst; cases src)
     (simp add: vlan_parse_def vlan_serialize_def VLAN_HEADER_LEN_def u16_to_be_def
       read6_def read_u16_def)

interpretation vlan_wire: wire_codec
  "\<lambda>(dst, src, t, et, payload). vlan_tag_ok t"
  "\<lambda>(dst, src, t, et, payload). vlan_serialize dst src t et payload" vlan_parse
  "\<lambda>f. (tag_dst_mac f, tag_src_mac f, tag_vlan f, ethertype_to_u16 (tag_inner_ethertype f), tag_payload f)"
  by unfold_locales (auto simp: vlan_parse_serialize ethertype.enc_dec)

text \<open>For a well-formed tag, a tagged frame parses back to its tag, addresses, inner
  EtherType and payload, and stripping the tag yields exactly the untagged Ethernet II frame
  with the same addresses, EtherType and payload.\<close>
theorem vlan_tag_strip:
  assumes "vlan_tag_ok t"
  shows "vlan_parse (vlan_serialize dst src t et payload) =
           Inr \<lparr> tag_dst_mac = dst, tag_src_mac = src, tag_vlan = t,
                 tag_inner_ethertype = ethertype_from_u16 et, tag_payload = payload \<rparr> \<and>
         strip_vlan (vlan_serialize dst src t et payload) =
           Inr (ethernet_serialize dst src et payload)"
  by (simp add: vlan_parse_serialize [OF assms] strip_vlan_def ethernet_serialize_def
      ethertype.enc_dec)

theorem vlan_tag_strip_witness:
  "strip_vlan (vlan_serialize mac_BROADCAST mac_ZERO (vlan_new 100 5) 0x0800 [1, 2, 3]) =
     Inr (ethernet_serialize mac_BROADCAST mac_ZERO 0x0800 [1, 2, 3])"
  by (rule vlan_tag_strip [OF vlan_new_ok, THEN conjunct2])

end
