(* ===== verification/Arp.thy ===== *)
theory Arp
  imports Ethernet
begin

unbundle bit_operations_syntax

text \<open>
  Address resolution (\<open>arp.rs\<close>): the 28-byte Ethernet/IPv4 packet with its parser, serializer
  and builders, and the ARP cache with its two hash maps (\<open>table\<close> for the addresses, \<open>meta\<close> for
  kind and lifetime), static and dynamic entries, ageing, and learning from received packets.
  The invariant is that the two maps have the same keys.
\<close>

section \<open>Packets\<close>

definition ARP_HTYPE_ETHERNET :: u16 where "ARP_HTYPE_ETHERNET = 1"
definition ARP_PTYPE_IPV4 :: u16 where "ARP_PTYPE_IPV4 = 0x0800"
definition ARP_HLEN_ETHERNET :: u8 where "ARP_HLEN_ETHERNET = 6"
definition ARP_PLEN_IPV4 :: u8 where "ARP_PLEN_IPV4 = 4"
definition ARP_OP_REQUEST :: u16 where "ARP_OP_REQUEST = 1"
definition ARP_OP_REPLY :: u16 where "ARP_OP_REPLY = 2"
definition ARP_PACKET_LEN :: nat where "ARP_PACKET_LEN = 28"
definition ARP_DEFAULT_DYNAMIC_TTL_MS :: u64 where "ARP_DEFAULT_DYNAMIC_TTL_MS = 60000"

lemmas arp_consts = ARP_HTYPE_ETHERNET_def ARP_PTYPE_IPV4_def ARP_HLEN_ETHERNET_def
  ARP_PLEN_IPV4_def ARP_OP_REQUEST_def ARP_OP_REPLY_def ARP_PACKET_LEN_def

datatype ArpOpcode = ArpRequest | ArpReply | ArpUnknown u16

definition arp_opcode_from_u16 :: "u16 \<Rightarrow> ArpOpcode" where
  "arp_opcode_from_u16 val =
     (if val = ARP_OP_REQUEST then ArpRequest
      else if val = ARP_OP_REPLY then ArpReply else ArpUnknown val)"

fun arp_opcode_to_u16 :: "ArpOpcode \<Rightarrow> u16" where
  "arp_opcode_to_u16 ArpRequest = ARP_OP_REQUEST"
| "arp_opcode_to_u16 ArpReply = ARP_OP_REPLY"
| "arp_opcode_to_u16 (ArpUnknown val) = val"

interpretation arp_opcode: tag_codec arp_opcode_from_u16 arp_opcode_to_u16
  by unfold_locales (simp add: arp_opcode_from_u16_def)

record ArpPacket =
  arp_htype :: u16
  arp_ptype :: u16
  arp_hlen :: u8
  arp_plen :: u8
  arp_opcode :: ArpOpcode
  arp_sender_mac :: MacAddress
  arp_sender_ip :: octets4
  arp_target_mac :: MacAddress
  arp_target_ip :: octets4

datatype ArpError = ArpPacketTooShort nat | ArpInvalidHardwareType u16
  | ArpInvalidProtocolType u16 | ArpInvalidAddressLengths u8 u8

definition arp_parse :: "bytes \<Rightarrow> ArpError + ArpPacket" where
  "arp_parse data =
     (if length data < ARP_PACKET_LEN then Inl (ArpPacketTooShort (length data))
      else let htype = read_u16 0 data; ptype = read_u16 2 data;
               hlen = data ! 4; plen = data ! 5
           in if htype \<noteq> ARP_HTYPE_ETHERNET then Inl (ArpInvalidHardwareType htype)
              else if ptype \<noteq> ARP_PTYPE_IPV4 then Inl (ArpInvalidProtocolType ptype)
              else if hlen \<noteq> ARP_HLEN_ETHERNET \<or> plen \<noteq> ARP_PLEN_IPV4
                then Inl (ArpInvalidAddressLengths hlen plen)
              else Inr \<lparr> arp_htype = htype, arp_ptype = ptype, arp_hlen = hlen, arp_plen = plen,
                         arp_opcode = arp_opcode_from_u16 (read_u16 6 data),
                         arp_sender_mac = read6 8 data, arp_sender_ip = read4 14 data,
                         arp_target_mac = read6 18 data, arp_target_ip = read4 24 data \<rparr>)"

definition arp_serialize :: "ArpPacket \<Rightarrow> bytes" where
  "arp_serialize p =
     u16_to_be (arp_htype p) @ u16_to_be (arp_ptype p) @ [arp_hlen p] @ [arp_plen p] @
     u16_to_be (arp_opcode_to_u16 (arp_opcode p)) @ bytes6 (arp_sender_mac p) @
     bytes4 (arp_sender_ip p) @ bytes6 (arp_target_mac p) @ bytes4 (arp_target_ip p)"

definition arp_build_request :: "MacAddress \<Rightarrow> octets4 \<Rightarrow> octets4 \<Rightarrow> ArpPacket" where
  "arp_build_request sender_mac sender_ip target_ip =
     \<lparr> arp_htype = ARP_HTYPE_ETHERNET, arp_ptype = ARP_PTYPE_IPV4, arp_hlen = ARP_HLEN_ETHERNET,
       arp_plen = ARP_PLEN_IPV4, arp_opcode = ArpRequest, arp_sender_mac = sender_mac,
       arp_sender_ip = sender_ip, arp_target_mac = mac_ZERO, arp_target_ip = target_ip \<rparr>"

definition arp_build_reply :: "MacAddress \<Rightarrow> octets4 \<Rightarrow> MacAddress \<Rightarrow> octets4 \<Rightarrow> ArpPacket" where
  "arp_build_reply sender_mac sender_ip target_mac target_ip =
     \<lparr> arp_htype = ARP_HTYPE_ETHERNET, arp_ptype = ARP_PTYPE_IPV4, arp_hlen = ARP_HLEN_ETHERNET,
       arp_plen = ARP_PLEN_IPV4, arp_opcode = ArpReply, arp_sender_mac = sender_mac,
       arp_sender_ip = sender_ip, arp_target_mac = target_mac, arp_target_ip = target_ip \<rparr>"

definition arp_build_probe :: "MacAddress \<Rightarrow> octets4 \<Rightarrow> ArpPacket" where
  "arp_build_probe sender_mac target_ip = arp_build_request sender_mac (O4 0 0 0 0) target_ip"

definition arp_build_announcement :: "MacAddress \<Rightarrow> octets4 \<Rightarrow> ArpPacket" where
  "arp_build_announcement sender_mac ip = arp_build_request sender_mac ip ip"

definition arp_is_ethernet_ipv4 :: "ArpPacket \<Rightarrow> bool" where
  "arp_is_ethernet_ipv4 p \<longleftrightarrow>
     arp_htype p = ARP_HTYPE_ETHERNET \<and> arp_ptype p = ARP_PTYPE_IPV4 \<and>
     arp_hlen p = ARP_HLEN_ETHERNET \<and> arp_plen p = ARP_PLEN_IPV4"

definition arp_is_probe :: "ArpPacket \<Rightarrow> bool" where
  "arp_is_probe p \<longleftrightarrow> arp_opcode p = ArpRequest \<and> arp_sender_ip p = O4 0 0 0 0"

definition arp_is_gratuitous :: "ArpPacket \<Rightarrow> bool" where
  "arp_is_gratuitous p \<longleftrightarrow> arp_sender_ip p \<noteq> O4 0 0 0 0 \<and> arp_sender_ip p = arp_target_ip p"

section \<open>The cache\<close>

datatype ArpEntryKind = ArpDynamic | ArpStatic

record ArpEntryMeta =
  arp_kind :: ArpEntryKind
  arp_learned_at_ms :: "u64 option"
  arp_expires_at_ms :: "u64 option"

datatype ArpLearnOutcome = IgnoredProbe | IgnoredInvalidSender | IgnoredUnsupportedFormat
  | Learned | Refreshed | Replaced MacAddress | StaticMatch | StaticConflict MacAddress MacAddress

record ArpTable =
  arp_table :: "(octets4, MacAddress) hash_map"
  arp_meta :: "(octets4, ArpEntryMeta) hash_map"

definition arp_new :: ArpTable where
  "arp_new = \<lparr> arp_table = [], arp_meta = [] \<rparr>"

definition arp_put :: "octets4 \<Rightarrow> MacAddress \<Rightarrow> ArpEntryMeta \<Rightarrow> ArpTable \<Rightarrow> ArpTable" where
  "arp_put ip mac m t =
     t\<lparr> arp_table := hm_insert ip mac (arp_table t), arp_meta := hm_insert ip m (arp_meta t) \<rparr>"

definition arp_insert :: "octets4 \<Rightarrow> MacAddress \<Rightarrow> ArpTable \<Rightarrow> ArpTable" where
  "arp_insert ip mac =
     arp_put ip mac \<lparr> arp_kind = ArpDynamic, arp_learned_at_ms = None, arp_expires_at_ms = None \<rparr>"

definition arp_insert_dynamic :: "octets4 \<Rightarrow> MacAddress \<Rightarrow> u64 \<Rightarrow> u64 \<Rightarrow> ArpTable \<Rightarrow> ArpTable" where
  "arp_insert_dynamic ip mac now_ms ttl_ms =
     arp_put ip mac \<lparr> arp_kind = ArpDynamic, arp_learned_at_ms = Some now_ms,
                      arp_expires_at_ms = Some (sat_add now_ms ttl_ms) \<rparr>"

definition arp_insert_dynamic_default :: "octets4 \<Rightarrow> MacAddress \<Rightarrow> u64 \<Rightarrow> ArpTable \<Rightarrow> ArpTable" where
  "arp_insert_dynamic_default ip mac now_ms =
     arp_insert_dynamic ip mac now_ms ARP_DEFAULT_DYNAMIC_TTL_MS"

definition arp_insert_static :: "octets4 \<Rightarrow> MacAddress \<Rightarrow> ArpTable \<Rightarrow> ArpTable" where
  "arp_insert_static ip mac =
     arp_put ip mac \<lparr> arp_kind = ArpStatic, arp_learned_at_ms = None, arp_expires_at_ms = None \<rparr>"

definition arp_lookup :: "ArpTable \<Rightarrow> octets4 \<Rightarrow> MacAddress option" where
  "arp_lookup t ip = hm_get (arp_table t) ip"

definition arp_expired :: "ArpEntryMeta \<Rightarrow> u64 \<Rightarrow> bool" where
  "arp_expired m now_ms =
     (case arp_expires_at_ms m of None \<Rightarrow> False | Some deadline \<Rightarrow> now_ms \<ge> deadline)"

definition arp_lookup_at :: "ArpTable \<Rightarrow> octets4 \<Rightarrow> u64 \<Rightarrow> MacAddress option" where
  "arp_lookup_at t ip now_ms =
     (case hm_get (arp_table t) ip of
        None \<Rightarrow> None
      | Some mac \<Rightarrow>
          (case hm_get (arp_meta t) ip of
             None \<Rightarrow> Some mac
           | Some m \<Rightarrow> if arp_expired m now_ms then None else Some mac))"

definition arp_entry_meta :: "ArpTable \<Rightarrow> octets4 \<Rightarrow> ArpEntryMeta option" where
  "arp_entry_meta t ip = hm_get (arp_meta t) ip"

definition arp_remove :: "octets4 \<Rightarrow> ArpTable \<Rightarrow> MacAddress option \<times> ArpTable" where
  "arp_remove ip t =
     (hm_get (arp_table t) ip,
      t\<lparr> arp_table := hm_remove ip (arp_table t), arp_meta := hm_remove ip (arp_meta t) \<rparr>)"

definition arp_purge_expired :: "u64 \<Rightarrow> ArpTable \<Rightarrow> nat \<times> ArpTable" where
  "arp_purge_expired now_ms t =
     (let expired = map fst (filter (\<lambda>(ip, m). arp_expired m now_ms) (arp_meta t))
      in (length expired, fold (\<lambda>ip s. snd (arp_remove ip s)) expired t))"

definition arp_learn_from_packet :: "ArpPacket \<Rightarrow> u64 \<Rightarrow> u64 \<Rightarrow> ArpTable \<Rightarrow> ArpLearnOutcome \<times> ArpTable" where
  "arp_learn_from_packet packet now_ms ttl_ms t =
     (if \<not> arp_is_ethernet_ipv4 packet then (IgnoredUnsupportedFormat, t)
      else if arp_is_probe packet then (IgnoredProbe, t)
      else if arp_sender_mac packet = mac_ZERO \<or> \<not> mac_is_unicast (arp_sender_mac packet)
        then (IgnoredInvalidSender, t)
      else let ip = arp_sender_ip packet; advertised = arp_sender_mac packet
           in case hm_get (arp_table t) ip of
                None \<Rightarrow> (Learned, arp_insert_dynamic ip advertised now_ms ttl_ms t)
              | Some previous \<Rightarrow>
                  (case hm_get (arp_meta t) ip of
                     Some m \<Rightarrow>
                       if arp_kind m = ArpStatic
                       then (if previous = advertised then StaticMatch
                             else StaticConflict previous advertised, t)
                       else (if previous = advertised then Refreshed else Replaced previous,
                             arp_insert_dynamic ip advertised now_ms ttl_ms t)
                   | None \<Rightarrow> (if previous = advertised then Refreshed else Replaced previous,
                             arp_insert_dynamic ip advertised now_ms ttl_ms t)))"

section \<open>Wire format\<close>

lemma arp_parse_serialize:
  assumes "arp_is_ethernet_ipv4 p" and "arp_opcode p \<in> range arp_opcode_from_u16"
  shows "arp_parse (arp_serialize p) = Inr p"
proof (cases p rule: ArpPacket.cases)
  case (fields ht pt hl pl op sm si tm ti)
  have op: "arp_opcode_from_u16 (arp_opcode_to_u16 op) = op"
    using assms(2) arp_opcode.dec_enc_iff [of op] fields by simp
  show ?thesis
    using assms(1) op unfolding fields
    by (cases sm; cases si; cases tm; cases ti)
       (simp add: arp_parse_def arp_serialize_def arp_is_ethernet_ipv4_def ARP_PACKET_LEN_def
         u16_to_be_def read6_def read4_def read_u16_def)
qed

interpretation arp_wire: wire_codec
  "\<lambda>p. arp_is_ethernet_ipv4 p \<and> arp_opcode p \<in> range arp_opcode_from_u16"
  arp_serialize arp_parse "\<lambda>p. p"
  by unfold_locales (simp add: arp_parse_serialize)

text \<open>An Ethernet/IPv4 ARP packet is read back exactly from its own serialization; and what
  the parser accepts, from any buffer, always is an Ethernet/IPv4 packet whose serialization is
  the first 28 bytes of that buffer.\<close>
theorem arp_roundtrip:
  "(arp_is_ethernet_ipv4 p \<and> arp_opcode p \<in> range arp_opcode_from_u16 \<longrightarrow>
      arp_parse (arp_serialize p) = Inr p) \<and>
   (arp_parse data = Inr q \<longrightarrow> arp_is_ethernet_ipv4 q \<and> arp_serialize q = take 28 data)"
proof (intro conjI impI)
  assume "arp_is_ethernet_ipv4 p \<and> arp_opcode p \<in> range arp_opcode_from_u16"
  then show "arp_parse (arp_serialize p) = Inr p" by (simp add: arp_parse_serialize)
next
  assume parsed: "arp_parse data = Inr q"
  then have len: "28 \<le> length data"
    and q: "q = \<lparr> arp_htype = read_u16 0 data, arp_ptype = read_u16 2 data, arp_hlen = data ! 4,
        arp_plen = data ! 5, arp_opcode = arp_opcode_from_u16 (read_u16 6 data),
        arp_sender_mac = read6 8 data, arp_sender_ip = read4 14 data,
        arp_target_mac = read6 18 data, arp_target_ip = read4 24 data \<rparr>"
    by (auto simp: arp_parse_def ARP_PACKET_LEN_def Let_def split: if_splits)
  show "arp_is_ethernet_ipv4 q"
    using parsed by (auto simp: arp_parse_def arp_is_ethernet_ipv4_def Let_def split: if_splits)
  have "[data ! 4] @ [data ! 5] = take 2 (drop 4 data)"
    using len by (simp add: numeral_eq_Suc take_Suc_drop)
  then have "arp_serialize q = take 2 (drop 0 data) @ take 2 (drop 2 data) @ take 2 (drop 4 data) @
      take 2 (drop 6 data) @ take 6 (drop 8 data) @ take 4 (drop 14 data) @ take 6 (drop 18 data) @
      take 4 (drop 24 data)"
    unfolding q arp_serialize_def using len
    by (simp add: bytes_of_read arp_opcode.enc_dec)
  also have "\<dots> = take 28 data"
    by (simp add: take_join)
  finally show "arp_serialize q = take 28 data" .
qed

theorem arp_roundtrip_witness:
  "arp_parse (arp_serialize (arp_build_request (O6 2 0 0 0 0 1) (O4 10 0 0 1) (O4 10 0 0 2))) =
     Inr (arp_build_request (O6 2 0 0 0 0 1) (O4 10 0 0 1) (O4 10 0 0 2))"
proof -
  have "ArpRequest = arp_opcode_from_u16 1"
    by (simp add: arp_opcode_from_u16_def ARP_OP_REQUEST_def)
  then have "ArpRequest \<in> range arp_opcode_from_u16" by blast
  then show ?thesis
    using arp_roundtrip [of "arp_build_request (O6 2 0 0 0 0 1) (O4 10 0 0 1) (O4 10 0 0 2)"]
    by (simp add: arp_build_request_def arp_is_ethernet_ipv4_def)
qed

section \<open>The cache invariant\<close>

definition arp_inv :: "ArpTable \<Rightarrow> bool" where
  "arp_inv t \<longleftrightarrow> hm_wf (arp_table t) \<and> hm_wf (arp_meta t) \<and>
     (\<forall>ip. hm_get (arp_table t) ip = None \<longleftrightarrow> hm_get (arp_meta t) ip = None)"

lemma arp_inv_new [simp]: "arp_inv arp_new"
  by (simp add: arp_inv_def arp_new_def)

lemma arp_inv_put [simp]: "arp_inv t \<Longrightarrow> arp_inv (arp_put ip mac m t)"
  by (simp add: arp_inv_def arp_put_def hm_simps)

lemma arp_inv_remove [simp]: "arp_inv t \<Longrightarrow> arp_inv (snd (arp_remove ip t))"
  by (simp add: arp_inv_def arp_remove_def hm_simps)

lemma arp_get_put [simp]:
  "hm_get (arp_table (arp_put ip mac m t)) = (hm_get (arp_table t))(ip \<mapsto> mac)"
  "hm_get (arp_meta (arp_put ip mac m t)) = (hm_get (arp_meta t))(ip \<mapsto> m)"
  by (simp_all add: arp_put_def hm_simps)

lemma arp_get_remove [simp]:
  "hm_get (arp_table (snd (arp_remove ip t))) = (hm_get (arp_table t))(ip := None)"
  "hm_get (arp_meta (snd (arp_remove ip t))) = (hm_get (arp_meta t))(ip := None)"
  by (simp_all add: arp_remove_def hm_simps)

interpretation arp_cache: kv_store arp_new arp_lookup arp_insert_static
  "\<lambda>ip t. snd (arp_remove ip t)" arp_inv
  by unfold_locales (auto simp: arp_lookup_def arp_insert_static_def, simp add: arp_new_def)

lemma arp_inv_remove_all: "arp_inv t \<Longrightarrow> arp_inv (fold (\<lambda>ip s. snd (arp_remove ip s)) ips t)"
  by (induction ips arbitrary: t) auto

lemma arp_get_remove_all:
  "hm_get (arp_table (fold (\<lambda>ip s. snd (arp_remove ip s)) ips t)) ip =
     (if ip \<in> set ips then None else hm_get (arp_table t) ip)"
  "hm_get (arp_meta (fold (\<lambda>ip s. snd (arp_remove ip s)) ips t)) ip =
     (if ip \<in> set ips then None else hm_get (arp_meta t) ip)"
  by (induction ips arbitrary: t) auto

lemma arp_expired_keys:
  assumes "hm_wf (arp_meta t)"
  shows "ip \<in> set (map fst (filter (\<lambda>(ip, m). arp_expired m now) (arp_meta t))) \<longleftrightarrow>
     (\<exists>m. hm_get (arp_meta t) ip = Some m \<and> arp_expired m now)"
  using hm_get_eq_Some [OF assms] by force

lemma arp_inv_purge: "arp_inv t \<Longrightarrow> arp_inv (snd (arp_purge_expired now t))"
  by (simp add: arp_purge_expired_def Let_def arp_inv_remove_all)

lemma arp_get_purge:
  assumes "arp_inv t"
  shows "hm_get (arp_table (snd (arp_purge_expired now t))) ip =
           (if \<exists>m. hm_get (arp_meta t) ip = Some m \<and> arp_expired m now then None
            else hm_get (arp_table t) ip)"
    and "hm_get (arp_meta (snd (arp_purge_expired now t))) ip =
           (if \<exists>m. hm_get (arp_meta t) ip = Some m \<and> arp_expired m now then None
            else hm_get (arp_meta t) ip)"
proof -
  have wf: "hm_wf (arp_meta t)" using assms by (simp add: arp_inv_def)
  show "hm_get (arp_table (snd (arp_purge_expired now t))) ip =
           (if \<exists>m. hm_get (arp_meta t) ip = Some m \<and> arp_expired m now then None
            else hm_get (arp_table t) ip)"
    unfolding arp_purge_expired_def Let_def snd_conv arp_get_remove_all
    by (simp only: arp_expired_keys [OF wf])
  show "hm_get (arp_meta (snd (arp_purge_expired now t))) ip =
           (if \<exists>m. hm_get (arp_meta t) ip = Some m \<and> arp_expired m now then None
            else hm_get (arp_meta t) ip)"
    unfolding arp_purge_expired_def Let_def snd_conv arp_get_remove_all
    by (simp only: arp_expired_keys [OF wf])
qed

lemma arp_inv_learn: "arp_inv t \<Longrightarrow> arp_inv (snd (arp_learn_from_packet p now ttl t))"
  by (simp add: arp_learn_from_packet_def Let_def arp_insert_dynamic_def split: option.splits)

section \<open>What the network can do to the cache\<close>

text \<open>The operations the stack performs on its own as time passes and packets arrive: learning
  from any packet and purging what has expired.\<close>

datatype arp_event = ArpReceive ArpPacket u64 u64 | ArpTick u64

fun arp_step :: "ArpTable \<Rightarrow> arp_event \<Rightarrow> ArpTable" where
  "arp_step t (ArpReceive p now ttl) = snd (arp_learn_from_packet p now ttl t)"
| "arp_step t (ArpTick now) = snd (arp_purge_expired now t)"

definition arp_static_at :: "octets4 \<Rightarrow> MacAddress \<Rightarrow> ArpTable \<Rightarrow> bool" where
  "arp_static_at ip mac t \<longleftrightarrow> arp_inv t \<and> hm_get (arp_table t) ip = Some mac \<and>
     (\<exists>m. hm_get (arp_meta t) ip = Some m \<and> arp_kind m = ArpStatic \<and> arp_expires_at_ms m = None)"

lemma arp_static_step: "arp_static_at ip mac t \<Longrightarrow> arp_static_at ip mac (arp_step t ev)"
proof (cases ev)
  case (ArpReceive p now ttl)
  assume st: "arp_static_at ip mac t"
  show ?thesis
  proof (cases "arp_sender_ip p = ip")
    case True
    with st ArpReceive show ?thesis
      by (auto simp: arp_static_at_def arp_learn_from_packet_def Let_def)
  next
    case False
    with st ArpReceive show ?thesis
      by (auto simp: arp_static_at_def arp_learn_from_packet_def Let_def arp_insert_dynamic_def
            split: option.splits)
  qed
next
  case (ArpTick now)
  then show "arp_static_at ip mac t \<Longrightarrow> ?thesis"
    by (auto simp: arp_static_at_def arp_inv_purge arp_get_purge arp_expired_def)
qed

interpretation arp_network: stepper arp_step arp_inv
proof unfold_locales
  show "arp_inv s \<Longrightarrow> arp_inv (arp_step s op)" for s op
    by (cases op) (auto simp: arp_inv_learn arp_inv_purge)
qed

interpretation arp_static: stepper arp_step "arp_static_at ip mac" for ip mac
  by unfold_locales (rule arp_static_step)



text \<open>Ageing is invisible to time-aware lookups and complete: a purge at some time leaves
  every lookup at that time or later as it was, and leaves no entry that has expired by then.
  A learned entry answers exactly until its lifetime ends.\<close>
theorem arp_purge_and_lifetime:
  assumes "arp_inv t"
  shows "(now \<le> later \<longrightarrow>
           arp_lookup_at (snd (arp_purge_expired now t)) ip later = arp_lookup_at t ip later) \<and>
         arp_lookup (snd (arp_purge_expired now t)) ip = arp_lookup_at t ip now \<and>
         arp_lookup_at (arp_insert_dynamic ip mac now ttl t) ip later =
           (if later < sat_add now ttl then Some mac else None)"
proof (intro conjI impI)
  assume "now \<le> later"
  then show "arp_lookup_at (snd (arp_purge_expired now t)) ip later = arp_lookup_at t ip later"
    using assms
    by (cases "hm_get (arp_meta t) ip")
       (auto simp: arp_lookup_at_def arp_get_purge arp_expired_def arp_inv_def
         split: option.splits dest: order_trans [of _ now later])
next
  show "arp_lookup (snd (arp_purge_expired now t)) ip = arp_lookup_at t ip now"
    using assms by (auto simp: arp_lookup_def arp_lookup_at_def arp_get_purge arp_inv_def
        split: option.splits)
  show "arp_lookup_at (arp_insert_dynamic ip mac now ttl t) ip later =
      (if later < sat_add now ttl then Some mac else None)"
    by (simp add: arp_lookup_at_def arp_insert_dynamic_def arp_expired_def not_less)
qed

theorem arp_purge_and_lifetime_witness:
  "arp_lookup_at (snd (arp_purge_expired 100 (arp_insert_dynamic (O4 10 0 0 1) (O6 2 0 0 0 0 1) 5 1000 arp_new)))
     (O4 10 0 0 1) 200 =
   arp_lookup_at (arp_insert_dynamic (O4 10 0 0 1) (O6 2 0 0 0 0 1) 5 1000 arp_new) (O4 10 0 0 1) 200"
proof -
  have "arp_inv (arp_insert_dynamic (O4 10 0 0 1) (O6 2 0 0 0 0 1) 5 1000 arp_new)"
    by (simp add: arp_insert_dynamic_def)
  from arp_purge_and_lifetime [OF this, of 100 200 "O4 10 0 0 1"] show ?thesis by simp
qed

end
