(* ===== verification/Checksum.thy ===== *)
theory Checksum
  imports Interfaces
begin

unbundle bit_operations_syntax

text \<open>
  The Internet checksum of \<open>checksum.rs\<close> (RFC 1071): the 32-bit accumulation of 16-bit
  words, the carry-folding loop, the checksum of a buffer and of a transport segment with
  its IPv4 pseudo-header, and the two verifiers.  The specification is the plain sum
  \<open>word_sum\<close> over the natural numbers: a buffer verifies exactly when that sum is a multiple
  of 65535, a sealed buffer verifies, and no corruption of a single byte goes unnoticed.
\<close>

section \<open>Definitions\<close>

fun raw_checksum_loop :: "u32 \<Rightarrow> bytes \<Rightarrow> u32" where
  "raw_checksum_loop acc (a # b # rest) = raw_checksum_loop (acc + ucast (u16_from_be a b)) rest"
| "raw_checksum_loop acc [a] = acc + ucast (push_bit 8 (ucast a :: u16))"
| "raw_checksum_loop acc [] = acc"

definition raw_checksum :: "bytes \<Rightarrow> u32" where
  "raw_checksum data = raw_checksum_loop 0 data"

text \<open>The loop \<open>while (acc >> 16) != 0\<close> of \<open>finalize_checksum\<close> and of the verifiers.\<close>

function fold_carry :: "u32 \<Rightarrow> u32" where
  "fold_carry acc =
     (if drop_bit 16 acc \<noteq> 0 then fold_carry ((acc AND 0xFFFF) + drop_bit 16 acc) else acc)"
  by pat_completeness auto

lemma unat_fold_step:
  "unat ((s AND 0xFFFF) + drop_bit 16 (s :: u32)) = unat s mod 65536 + unat s div 65536"
proof -
  have "unat s div 65536 < 65536"
    using unat_bound [of s] by (simp add: less_mult_imp_div_less)
  moreover have "unat s mod 65536 < 65536"
    by simp
  ultimately have "unat s mod 65536 + unat s div 65536 < 4294967296"
    by linarith
  then show ?thesis
    by (simp add: unat_word_ariths unat_and_mask16 unat_drop_bit_word)
qed

termination fold_carry
proof (relation "measure unat")
  fix s :: u32
  assume "drop_bit 16 s \<noteq> 0"
  then have "unat (drop_bit 16 s) \<noteq> 0"
    by (simp only: unat_eq_zero not_False_eq_True)
  then have "0 < unat s div 65536"
    using unat_drop_bit_word [of 16 s] by simp
  then have "unat s mod 65536 + unat s div 65536 < unat s"
    using mult_div_mod_eq [of 65536 "unat s"] by linarith
  then show "((s AND 0xFFFF) + drop_bit 16 s, s) \<in> measure unat"
    by (simp only: in_measure unat_fold_step)
qed simp

declare fold_carry.simps [simp del]

definition finalize_checksum :: "u32 \<Rightarrow> u16" where
  "finalize_checksum acc = NOT (ucast (fold_carry acc))"

definition compute_checksum :: "bytes \<Rightarrow> u16" where
  "compute_checksum data = finalize_checksum (raw_checksum data)"

definition verify_checksum :: "bytes \<Rightarrow> bool" where
  "verify_checksum data = (let acc = fold_carry (raw_checksum data) in acc = 0xFFFF \<or> acc = 0)"

definition pseudo_header_sum :: "octets4 \<Rightarrow> octets4 \<Rightarrow> u8 \<Rightarrow> bytes \<Rightarrow> u32" where
  "pseudo_header_sum src_ip dst_ip protocol segment =
     (case (src_ip, dst_ip) of (O4 s0 s1 s2 s3, O4 d0 d1 d2 d3) \<Rightarrow>
        let acc = 0 + ucast (u16_from_be s0 s1);
            acc = acc + ucast (u16_from_be s2 s3);
            acc = acc + ucast (u16_from_be d0 d1);
            acc = acc + ucast (u16_from_be d2 d3);
            acc = acc + ucast protocol;
            transport_len = (of_nat (length segment) :: u16);
            acc = acc + ucast transport_len
        in acc + raw_checksum segment)"

definition compute_ipv4_transport_checksum :: "octets4 \<Rightarrow> octets4 \<Rightarrow> u8 \<Rightarrow> bytes \<Rightarrow> u16" where
  "compute_ipv4_transport_checksum src_ip dst_ip protocol segment =
     (let result = finalize_checksum (pseudo_header_sum src_ip dst_ip protocol segment)
      in if protocol = 17 \<and> result = 0 then 0xFFFF else result)"

definition verify_ipv4_transport_checksum :: "octets4 \<Rightarrow> octets4 \<Rightarrow> u8 \<Rightarrow> bytes \<Rightarrow> bool" where
  "verify_ipv4_transport_checksum src_ip dst_ip protocol segment =
     (let acc = fold_carry (pseudo_header_sum src_ip dst_ip protocol segment)
      in acc = 0xFFFF \<or> acc = 0)"

section \<open>The specification\<close>

fun word_sum :: "bytes \<Rightarrow> nat" where
  "word_sum (a # b # rest) = unat a * 256 + unat b + word_sum rest"
| "word_sum [a] = unat a * 256"
| "word_sum [] = 0"

definition ones_fold :: "nat \<Rightarrow> nat" where
  "ones_fold n = (if n = 0 then 0 else (n - 1) mod 65535 + 1)"

lemma ones_fold_le: "ones_fold n \<le> 65535"
  by (simp add: ones_fold_def Suc_le_eq)

lemma ones_fold_cong: "ones_fold n mod 65535 = n mod 65535"
  by (cases n) (simp_all add: ones_fold_def mod_Suc_eq)

lemma ones_fold_verdict: "ones_fold n = 65535 \<or> ones_fold n = 0 \<longleftrightarrow> 65535 dvd n"
  using ones_fold_cong [of n] ones_fold_le [of n]
  by (metis dvd_eq_mod_eq_0 le_neq_implies_less mod_0 mod_less mod_self)

lemma ones_fold_step: "ones_fold (n mod 65536 + n div 65536) = ones_fold n"
proof -
  have split: "n = n mod 65536 + n div 65536 + 65535 * (n div 65536)"
    by simp
  show ?thesis
  proof (cases "n = 0")
    case False
    let ?m = "n mod 65536 + n div 65536"
    have "0 < ?m" using False mult_div_mod_eq [of 65536 n] by linarith
    then obtain k where k: "?m = Suc k" by (cases ?m) auto
    then have n: "n = Suc (k + 65535 * (n div 65536))" using split by linarith
    have "(n - 1) mod 65535 = k mod 65535"
      by (subst n) simp
    then show ?thesis using k False by (simp add: ones_fold_def)
  qed simp
qed

lemma unat_raw_checksum_loop:
  "unat (raw_checksum_loop s d) = (unat s + word_sum d) mod 2 ^ 32"
proof (induction s d rule: raw_checksum_loop.induct)
  case (1 s a b rest)
  then show ?case
    by (simp add: unat_word_ariths unat_ucast_up unat_u16_from_be mod_simps add.assoc)
next
  case (2 s a)
  have "push_bit 8 (ucast a :: u16) = u16_from_be a 0"
    by (simp add: u16_from_be_def)
  then show ?case
    by (simp add: unat_word_ariths unat_ucast_up unat_u16_from_be)
next
  case (3 s)
  then show ?case using unat_bound [of s] by simp
qed

lemma unat_raw_checksum: "unat (raw_checksum d) = word_sum d mod 2 ^ 32"
  by (simp add: raw_checksum_def unat_raw_checksum_loop)

lemma word_sum_bound: "word_sum d \<le> 32768 * (length d + 1)"
proof (induction d rule: word_sum.induct)
  case (1 a b rest)
  then show ?case using unat_bound [of a] unat_bound [of b] by simp
next
  case (2 a)
  then show ?case using unat_bound [of a] by simp
qed simp

lemma unat_fold_carry: "unat (fold_carry s) = ones_fold (unat s)"
proof (induction s rule: fold_carry.induct)
  case (1 s)
  show ?case
  proof (cases "drop_bit 16 s = 0")
    case True
    then have "unat s < 65536"
      using unat_drop_bit_word [of 16 s] by (simp add: div_eq_0_iff)
    then show ?thesis
      using True by (subst fold_carry.simps) (auto simp: ones_fold_def)
  next
    case False
    then show ?thesis
      using "1.IH" [OF False] ones_fold_step [of "unat s"]
      by (subst fold_carry.simps) (simp add: unat_fold_step)
  qed
qed

lemma unat_finalize: "unat (finalize_checksum s) = 65535 - ones_fold (unat s)"
proof -
  have "unat (NOT w) = 65535 - unat w" for w :: u16
  proof -
    have "NOT w = 0xFFFF - w"
      by (simp add: not_eq_complement)
    moreover have "w \<le> 0xFFFF"
      using unat_bound [of w] by (simp add: word_le_nat_alt)
    ultimately show ?thesis by (simp add: unat_sub)
  qed
  moreover have "unat (ucast (fold_carry s) :: u16) = ones_fold (unat s)"
    using ones_fold_le [of "unat s"]
    by (simp add: unsigned_ucast_eq take_bit_eq_mod unat_fold_carry)
  ultimately show ?thesis by (simp add: finalize_checksum_def)
qed

section \<open>Verification and sealing\<close>

lemma fold_carry_verdict: "fold_carry s = 0xFFFF \<or> fold_carry s = 0 \<longleftrightarrow> 65535 dvd unat s"
proof -
  have "fold_carry s = 0xFFFF \<longleftrightarrow> unat (fold_carry s) = 65535"
    by (simp add: word_unat_eq_iff)
  moreover have "fold_carry s = 0 \<longleftrightarrow> unat (fold_carry s) = 0"
    by (simp add: word_unat_eq_iff)
  ultimately show ?thesis
    by (simp only: unat_fold_carry ones_fold_verdict)
qed

lemma word_sum_no_wrap: "length d \<le> 131070 \<Longrightarrow> word_sum d < 4294967296"
  using word_sum_bound [of d] by simp

lemma verify_checksum_dvd:
  "length d \<le> 131070 \<Longrightarrow> verify_checksum d \<longleftrightarrow> 65535 dvd word_sum d"
  by (simp add: verify_checksum_def fold_carry_verdict unat_raw_checksum word_sum_no_wrap)

text \<open>C31: for every buffer short enough that the 32-bit accumulator cannot wrap (131070
  bytes, more than any IPv4 datagram), \<open>verify_checksum\<close> accepts exactly the buffers whose
  one's complement sum of 16-bit words is zero, that is, whose plain sum is a multiple of
  65535.\<close>
theorem verify_checksum_iff:
  "length d \<le> 131070 \<Longrightarrow> verify_checksum d \<longleftrightarrow> 65535 dvd word_sum d"
  by (rule verify_checksum_dvd)

theorem verify_checksum_iff_witness:
  "length [0x45, 0x00, 0xBA, 0xFF :: u8] \<le> 131070 \<and>
   verify_checksum [0x45, 0x00, 0xBA, 0xFF] \<and> 65535 dvd word_sum [0x45, 0x00, 0xBA, 0xFF]"
  using verify_checksum_iff [of "[0x45, 0x00, 0xBA, 0xFF]"] by simp

lemma word_sum_append: "even (length xs) \<Longrightarrow> word_sum (xs @ ys) = word_sum xs + word_sum ys"
  by (induction xs rule: word_sum.induct) auto

lemma write_at_split:
  "off + 2 \<le> length d \<Longrightarrow> d = take off d @ [d ! off, d ! (off + 1)] @ drop (off + 2) d"
  by (metis Cons_nth_drop_Suc Suc_eq_plus1 add_2_eq_Suc' append_Cons append_Nil append_take_drop_id
      le_add1 less_le_trans not_less_eq_eq Suc_le_eq)

lemma word_sum_write_u16:
  assumes "even off" and "off + 2 \<le> length d"
  shows "word_sum (write_at off (u16_to_be c) d) + unat (d ! off) * 256 + unat (d ! (off + 1)) =
         word_sum d + unat c"
proof -
  have even: "even (length (take off d))" using assms by simp
  have "word_sum d = word_sum (take off d) + (unat (d ! off) * 256 + unat (d ! (off + 1))
          + word_sum (drop (off + 2) d))"
    by (subst write_at_split [OF assms(2)]) (simp add: word_sum_append [OF even])
  moreover have "word_sum (write_at off (u16_to_be c) d) =
          word_sum (take off d) + (unat c + word_sum (drop (off + 2) d))"
    using unat_u16_from_be [of "ucast (drop_bit 8 c)" "ucast c"]
    by (simp add: write_at_def word_sum_append [OF even] u16_to_be_def)
  ultimately show ?thesis by simp
qed

lemma sealed_sum_dvd: "65535 dvd n + (65535 - ones_fold n)"
proof -
  have "(n + (65535 - ones_fold n)) mod 65535 = (ones_fold n + (65535 - ones_fold n)) mod 65535"
    by (rule mod_add_cong) (simp_all add: ones_fold_cong)
  also have "\<dots> = 0"
    using ones_fold_le [of n] by simp
  finally show ?thesis by (simp add: dvd_eq_mod_eq_0)
qed

interpretation header_checksum: checksum_seal compute_checksum verify_checksum off 65535 for off
proof unfold_locales
  fix b :: bytes
  assume b: "even off" "off + 2 \<le> length b" "length b \<le> 65535" "b ! off = 0" "b ! (off + 1) = 0"
  have "word_sum (write_at off (u16_to_be (compute_checksum b)) b) =
        word_sum b + (65535 - ones_fold (word_sum b))"
    using word_sum_write_u16 [of off b "compute_checksum b"] b word_sum_no_wrap [of b]
    by (simp add: compute_checksum_def unat_finalize unat_raw_checksum)
  then show "verify_checksum (write_at off (u16_to_be (compute_checksum b)) b)"
    using b by (simp add: verify_checksum_dvd sealed_sum_dvd)
qed

section \<open>Transport checksums\<close>

fun pseudo_sum :: "octets4 \<Rightarrow> octets4 \<Rightarrow> u8 \<Rightarrow> nat \<Rightarrow> nat" where
  "pseudo_sum src dst protocol len =
     word_sum (bytes4 src) + word_sum (bytes4 dst) + unat protocol + len mod 65536"

lemma pseudo_sum_bound: "pseudo_sum src dst protocol len < 524288"
proof -
  have "word_sum (bytes4 x) \<le> 32768 * 5" for x
    using word_sum_bound [of "bytes4 x"] by simp
  moreover have "unat protocol < 256" "len mod 65536 < 65536"
    using unat_bound [of protocol] by auto
  ultimately have "word_sum (bytes4 src) + word_sum (bytes4 dst) + unat protocol + len mod 65536
      < 163840 + 163840 + 256 + 65536"
    by (intro add_less_le_mono add_le_less_mono add_less_mono add_le_mono) auto
  then show ?thesis by simp
qed

lemma unat_pseudo_header_sum:
  "unat (pseudo_header_sum src dst protocol seg) =
     (pseudo_sum src dst protocol (length seg) + word_sum seg) mod 2 ^ 32"
  by (cases src; cases dst)
     (simp add: pseudo_header_sum_def unat_word_ariths unat_ucast_up unat_u16_from_be
       unat_raw_checksum unat_of_nat mod_simps, simp add: ac_simps)

lemma transport_no_wrap:
  "length seg \<le> 65535 \<Longrightarrow> pseudo_sum src dst protocol (length seg) + word_sum seg < 4294967296"
  using word_sum_bound [of seg] pseudo_sum_bound [of src dst protocol "length seg"] by simp

lemma verify_transport_dvd:
  "length seg \<le> 65535 \<Longrightarrow>
   verify_ipv4_transport_checksum src dst protocol seg \<longleftrightarrow>
   65535 dvd pseudo_sum src dst protocol (length seg) + word_sum seg"
  using transport_no_wrap [of seg src dst protocol]
  by (simp add: verify_ipv4_transport_checksum_def fold_carry_verdict unat_pseudo_header_sum
      del: pseudo_sum.simps)

lemma compute_transport_cases:
  "length seg \<le> 65535 \<Longrightarrow>
   let n = pseudo_sum src dst protocol (length seg) + word_sum seg;
       c = unat (compute_ipv4_transport_checksum src dst protocol seg)
   in c = 65535 - ones_fold n \<or> ones_fold n = 65535 \<and> c = 65535"
  using transport_no_wrap [of seg src dst protocol]
    unat_finalize [of "pseudo_header_sum src dst protocol seg"]
    ones_fold_le [of "pseudo_sum src dst protocol (length seg) + word_sum seg"]
  by (auto simp: compute_ipv4_transport_checksum_def Let_def unat_pseudo_header_sum
      simp del: pseudo_sum.simps)

interpretation transport_checksum: checksum_seal
  "compute_ipv4_transport_checksum src dst protocol"
  "verify_ipv4_transport_checksum src dst protocol" off 65535
  for src dst protocol off
proof unfold_locales
  fix b :: bytes
  let ?c = "compute_ipv4_transport_checksum src dst protocol b"
  let ?n = "pseudo_sum src dst protocol (length b) + word_sum b"
  assume b: "even off" "off + 2 \<le> length b" "length b \<le> 65535" "b ! off = 0" "b ! (off + 1) = 0"
  have s: "word_sum (write_at off (u16_to_be ?c) b) = word_sum b + unat ?c"
    using word_sum_write_u16 [of off b ?c] b by simp
  have "65535 dvd ?n + unat ?c"
    using compute_transport_cases [OF b(3), of src dst protocol] sealed_sum_dvd [of ?n]
      ones_fold_verdict [of ?n]
    by (auto simp: Let_def simp del: pseudo_sum.simps)
  then show "verify_ipv4_transport_checksum src dst protocol (write_at off (u16_to_be ?c) b)"
    using b s by (simp add: verify_transport_dvd add.assoc del: pseudo_sum.simps)
qed

text \<open>A transport checksum written into a zeroed even-aligned field of a segment of at most
  65535 bytes verifies, for every protocol number, the substitution of \<open>0xFFFF\<close> for a computed
  zero in UDP included.\<close>
theorem transport_checksum_roundtrip:
  assumes "even off" and "off + 2 \<le> length seg" and "length seg \<le> 65535"
    and "seg ! off = 0" and "seg ! (off + 1) = 0"
  shows "verify_ipv4_transport_checksum src dst protocol
           (write_at off (u16_to_be (compute_ipv4_transport_checksum src dst protocol seg)) seg)"
  using assms by (rule transport_checksum.seal_verifies)

theorem transport_checksum_roundtrip_witness:
  "verify_ipv4_transport_checksum (O4 10 0 0 1) (O4 10 0 0 2) 17
     (write_at 6 (u16_to_be (compute_ipv4_transport_checksum (O4 10 0 0 1) (O4 10 0 0 2) 17
        [0, 53, 0, 53, 0, 9, 0, 0, 65])) [0, 53, 0, 53, 0, 9, 0, 0, 65])"
  by (rule transport_checksum_roundtrip) simp_all

section \<open>Corruption of one byte\<close>

lemma word_sum_update:
  "i < length d \<Longrightarrow>
   word_sum (d[i := v]) + (if even i then 256 else 1) * unat (d ! i) =
   word_sum d + (if even i then 256 else 1) * unat v"
proof (induction d arbitrary: i rule: word_sum.induct)
  case (1 a b rest)
  show ?case
  proof (cases i)
    case (Suc j)
    show ?thesis
    proof (cases j)
      case (Suc k)
      with \<open>i = Suc j\<close> 1 show ?thesis by (simp add: algebra_simps)
    qed (simp add: Suc)
  qed simp
qed auto

lemma byte_change_not_dvd:
  fixes x y :: nat
  assumes "65535 dvd s" and "65535 dvd s'" and "s' + k * x = s + k * y"
    and "k = 256 \<or> k = 1" and bounds: "x < 256" "y < 256"
  shows "x = y"
proof -
  obtain a b where ab: "s = 65535 * a" "s' = 65535 * b"
    using assms(1,2) by blast
  have eq: "int k * (int y - int x) = 65535 * (int b - int a)"
    using arg_cong [OF assms(3), of int] ab by (simp add: algebra_simps)
  moreover have "\<bar>int k * (int y - int x)\<bar> < 65535"
    using assms(4) bounds by auto
  ultimately have "int b - int a = 0"
    by (simp add: abs_if split: if_splits)
  then show ?thesis using eq assms(4) by auto
qed

text \<open>A buffer that verifies no longer verifies after any one of its bytes is changed to a
  different value: single-byte corruption of a header or payload is always detected.\<close>
theorem single_byte_corruption_detected:
  assumes "length d \<le> 131070" and "verify_checksum d" and "i < length d" and "v \<noteq> d ! i"
  shows "\<not> verify_checksum (d[i := v])"
proof
  assume "verify_checksum (d[i := v])"
  then have dvd: "65535 dvd word_sum d" "65535 dvd word_sum (d[i := v])"
    using assms verify_checksum_dvd by auto
  have "unat (d ! i) = unat v"
    by (rule byte_change_not_dvd [OF dvd word_sum_update [OF assms(3), of v]])
       (use unat_bound [of v] unat_bound [of "d ! i"] in auto)
  with assms(4) show False by (simp add: word_unat_eq_iff)
qed

theorem single_byte_corruption_detected_witness:
  "\<not> verify_checksum ([0x45, 0x00, 0xBA, 0xFF][2 := 0xBB])"
proof (rule single_byte_corruption_detected)
  show "verify_checksum [0x45, 0x00, 0xBA, 0xFF]"
    by (simp add: verify_checksum_dvd)
qed simp_all

end
