(* ===== verification/Ipv4.thy ===== *)
theory Ipv4
  imports Checksum TextNum
begin

unbundle bit_operations_syntax

text \<open>
  The network layer (\<open>ipv4.rs\<close>): addresses with masking, classification, ordering and text
  form, protocol numbers, the header parser with its nine error cases, serialization with the
  header checksum, and the in-place TTL decrement of the forwarding path.
  \<open>Ipv4Address\<close> is \<^typ>\<open>octets4\<close>; header fields carry the prefix \<open>ip_\<close>.
\<close>

section \<open>Addresses\<close>

definition IPV4_MIN_HEADER_LEN :: nat where "IPV4_MIN_HEADER_LEN = 20"
definition IPV4_MAX_PAYLOAD_LEN :: nat where "IPV4_MAX_PAYLOAD_LEN = 65535 - IPV4_MIN_HEADER_LEN"
definition IP_PROTO_ICMP :: u8 where "IP_PROTO_ICMP = 1"
definition IP_PROTO_TCP :: u8 where "IP_PROTO_TCP = 6"
definition IP_PROTO_UDP :: u8 where "IP_PROTO_UDP = 17"

lemmas ip_proto_defs = IP_PROTO_ICMP_def IP_PROTO_TCP_def IP_PROTO_UDP_def

type_synonym Ipv4Address = octets4

definition ip_BROADCAST :: Ipv4Address where "ip_BROADCAST = O4 255 255 255 255"
definition ip_LOCALHOST :: Ipv4Address where "ip_LOCALHOST = O4 127 0 0 1"
definition ip_UNSPECIFIED :: Ipv4Address where "ip_UNSPECIFIED = O4 0 0 0 0"

fun ip_to_u32 :: "Ipv4Address \<Rightarrow> u32" where
  "ip_to_u32 (O4 a b c d) = u32_from_be a b c d"

definition ip_from_u32 :: "u32 \<Rightarrow> Ipv4Address" where
  "ip_from_u32 val = read4 0 (u32_to_be val)"

definition ip_mask :: "Ipv4Address \<Rightarrow> u8 \<Rightarrow> Ipv4Address" where
  "ip_mask ip prefix_len =
     (if prefix_len = 0 then ip_UNSPECIFIED
      else if prefix_len \<ge> 32 then ip
      else let netmask = NOT (push_bit (32 - unat prefix_len) 1 - 1)
           in ip_from_u32 (ip_to_u32 ip AND netmask))"

fun ip_is_loopback :: "Ipv4Address \<Rightarrow> bool" where
  "ip_is_loopback (O4 a _ _ _) = (a = 127)"

fun ip_is_multicast :: "Ipv4Address \<Rightarrow> bool" where
  "ip_is_multicast (O4 a _ _ _) = (a \<ge> 224 \<and> a \<le> 239)"

definition ip_is_broadcast :: "Ipv4Address \<Rightarrow> bool" where
  "ip_is_broadcast ip = (ip = O4 255 255 255 255)"

definition ip_is_unspecified :: "Ipv4Address \<Rightarrow> bool" where
  "ip_is_unspecified ip = (ip = O4 0 0 0 0)"

definition ip_fmt :: "Ipv4Address \<Rightarrow> string" where
  "ip_fmt ip =
     (case ip of O4 a b c d \<Rightarrow>
        fmt_dec a @ CHR ''.'' # fmt_dec b @ CHR ''.'' # fmt_dec c @ CHR ''.'' # fmt_dec d)"

definition ip_from_str :: "string \<Rightarrow> addr_text_error + Ipv4Address" where
  "ip_from_str s =
     (let parts = split_on CHR ''.'' s
      in if length parts \<noteq> 4 then Inl WrongPartCount
         else case parse_parts 10 parts of
                Inl e \<Rightarrow> Inl e
              | Inr bs \<Rightarrow> Inr (read4 0 bs))"

text \<open>The derived \<open>Ord\<close> of an address compares the octets from the left.\<close>

instantiation octets4 :: linorder
begin

fun less_eq_octets4 :: "octets4 \<Rightarrow> octets4 \<Rightarrow> bool" where
  "less_eq_octets4 (O4 a b c d) (O4 a' b' c' d') \<longleftrightarrow>
     a < a' \<or> a = a' \<and> (b < b' \<or> b = b' \<and> (c < c' \<or> c = c' \<and> d \<le> d'))"

definition less_octets4 :: "octets4 \<Rightarrow> octets4 \<Rightarrow> bool" where
  "less_octets4 x y \<longleftrightarrow> x \<le> y \<and> \<not> y \<le> x"

instance
proof
  fix x y z :: octets4
  show "x < y \<longleftrightarrow> x \<le> y \<and> \<not> y \<le> x" by (simp add: less_octets4_def)
  show "x \<le> x" by (cases x) simp
  show "x \<le> y \<Longrightarrow> y \<le> z \<Longrightarrow> x \<le> z" by (cases x; cases y; cases z) auto
  show "x \<le> y \<Longrightarrow> y \<le> x \<Longrightarrow> x = y" by (cases x; cases y) auto
  show "x \<le> y \<or> y \<le> x" by (cases x; cases y) auto
qed

end

lemma ip_u32_inverse [simp]:
  "ip_from_u32 (ip_to_u32 ip) = ip" "ip_to_u32 (ip_from_u32 w) = w"
  by (cases ip, simp add: ip_from_u32_def read4_def)
     (simp add: ip_from_u32_def read4_def u32_to_be_def)

lemma ip_to_u32_inject: "ip_to_u32 x = ip_to_u32 y \<longleftrightarrow> x = y"
  by (metis ip_u32_inverse(1))

lemma netmask_bit:
  assumes "p \<le> 32"
  shows "bit (NOT (push_bit (32 - p) 1 - 1) :: u32) n \<longleftrightarrow> 32 - p \<le> n \<and> n < 32"
proof -
  have "(push_bit (32 - p) 1 - 1 :: u32) = mask (32 - p)"
    by (simp add: mask_eq_exp_minus_1)
  then show ?thesis by (auto simp: bit_simps)
qed

text \<open>Masking keeps the bits of the prefix and clears the rest.\<close>

lemma ip_mask_bit:
  "bit (ip_to_u32 (ip_mask ip p)) n \<longleftrightarrow> bit (ip_to_u32 ip) n \<and> 32 - unat p \<le> n"
proof -
  have len: "bit (w :: u32) n \<Longrightarrow> n < 32" for w
    using bit_imp_le_length [of w n] by simp
  consider "p = 0" | "p \<noteq> 0" "p \<ge> 32" | "p \<noteq> 0" "\<not> p \<ge> 32" by blast
  then show ?thesis
  proof cases
    case 1
    then show ?thesis using len [of "ip_to_u32 ip"]
      by (auto simp: ip_mask_def ip_UNSPECIFIED_def u32_from_be_def)
  next
    case 2
    then have "32 \<le> unat p" by (simp add: word_le_nat_alt)
    then show ?thesis using 2 by (simp add: ip_mask_def)
  next
    case 3
    then have p: "unat p < 32" by (simp add: word_le_nat_alt)
    have "ip_to_u32 (ip_mask ip p) = ip_to_u32 ip AND NOT (push_bit (32 - unat p) 1 - 1)"
      using 3 by (simp add: ip_mask_def)
    then have "bit (ip_to_u32 (ip_mask ip p)) n \<longleftrightarrow>
        bit (ip_to_u32 ip) n \<and> bit (NOT (push_bit (32 - unat p) 1 - 1) :: u32) n"
      by (simp only: bit_and_iff)
    also have "\<dots> \<longleftrightarrow> bit (ip_to_u32 ip) n \<and> 32 - unat p \<le> n"
      using netmask_bit [of "unat p" n] p len [of "ip_to_u32 ip"] by auto
    finally show ?thesis .
  qed
qed

lemma ip_eq_bits: "x = y \<longleftrightarrow> (\<forall>n < 32. bit (ip_to_u32 x) n = bit (ip_to_u32 y) n)"
proof -
  have "(\<forall>n < 32. bit (ip_to_u32 x) n = bit (ip_to_u32 y) n) \<longleftrightarrow> ip_to_u32 x = ip_to_u32 y"
    by (auto intro: bit_word_eqI)
  then show ?thesis by (simp add: ip_to_u32_inject)
qed

lemma ip_mask_eq_iff:
  "ip_mask x p = ip_mask y p \<longleftrightarrow>
   (\<forall>n < 32. 32 - unat p \<le> n \<longrightarrow> bit (ip_to_u32 x) n = bit (ip_to_u32 y) n)"
  by (auto simp: ip_eq_bits [of "ip_mask x p"] ip_mask_bit)

lemma ip_mask_idem: "ip_mask (ip_mask x p) q = ip_mask x (min p q)"
proof -
  have "unat (min p q) = min (unat p) (unat q)" by (rule unat_min_word)
  then show ?thesis by (auto simp: ip_eq_bits [of "ip_mask _ q"] ip_mask_bit)
qed

lemma ip_mask_self [simp]: "ip_mask (ip_mask x p) p = ip_mask x p"
  by (simp add: ip_mask_idem)

lemma ip_mask_zero [simp]: "ip_mask x 0 = ip_UNSPECIFIED"
  by (simp add: ip_mask_def)

lemma ip_mask_full [simp]: "32 \<le> p \<Longrightarrow> ip_mask x p = x"
  by (auto simp: ip_mask_def)

section \<open>Protocol numbers\<close>

datatype IpProtocol = IpIcmp | IpTcp | IpUdp | IpOther u8

definition ip_protocol_from_u8 :: "u8 \<Rightarrow> IpProtocol" where
  "ip_protocol_from_u8 val =
     (if val = IP_PROTO_ICMP then IpIcmp
      else if val = IP_PROTO_TCP then IpTcp
      else if val = IP_PROTO_UDP then IpUdp else IpOther val)"

fun ip_protocol_to_u8 :: "IpProtocol \<Rightarrow> u8" where
  "ip_protocol_to_u8 IpIcmp = IP_PROTO_ICMP"
| "ip_protocol_to_u8 IpTcp = IP_PROTO_TCP"
| "ip_protocol_to_u8 IpUdp = IP_PROTO_UDP"
| "ip_protocol_to_u8 (IpOther v) = v"

interpretation ip_protocol: tag_codec ip_protocol_from_u8 ip_protocol_to_u8
  by unfold_locales (simp add: ip_protocol_from_u8_def)

section \<open>Packets\<close>

record Ipv4Header =
  ip_version :: u8
  ip_ihl :: u8
  ip_dscp_ecn :: u8
  ip_total_length :: u16
  ip_identification :: u16
  ip_dont_fragment :: bool
  ip_more_fragments :: bool
  ip_fragment_offset :: u16
  ip_ttl :: u8
  ip_protocol :: IpProtocol
  ip_checksum :: u16
  ip_src_ip :: Ipv4Address
  ip_dst_ip :: Ipv4Address

definition ip_header_len_bytes :: "Ipv4Header \<Rightarrow> nat" where
  "ip_header_len_bytes h = unat (ip_ihl h) * 4"

record Ipv4Packet =
  ipp_header :: Ipv4Header
  ipp_payload :: bytes

datatype Ipv4Error =
    IpPacketTooShort nat
  | IpInvalidVersion u8
  | IpInvalidIhl u8
  | IpTotalLengthMismatch nat nat
  | IpTotalLengthSmallerThanHeader nat nat
  | IpPayloadTooLarge nat
  | IpReservedFragmentFlagSet
  | IpNonFinalFragmentLengthNotMultipleOfEight nat
  | IpInvalidChecksum u16 u16

definition ipv4_parse :: "bytes \<Rightarrow> bool \<Rightarrow> Ipv4Error + Ipv4Packet" where
  "ipv4_parse data check_checksum =
    (if length data < IPV4_MIN_HEADER_LEN then Inl (IpPacketTooShort (length data))
     else let ver_ihl = data ! 0; version = drop_bit 4 ver_ihl; ihl = ver_ihl AND 0x0F in
     if version \<noteq> 4 then Inl (IpInvalidVersion version)
     else if ihl < 5 then Inl (IpInvalidIhl ihl)
     else let header_len = unat ihl * 4 in
     if length data < header_len then Inl (IpPacketTooShort (length data))
     else let dscp_ecn = data ! 1; total_length = read_u16 2 data in
     if unat total_length < header_len
       then Inl (IpTotalLengthSmallerThanHeader (unat total_length) header_len)
     else if unat total_length > length data
       then Inl (IpTotalLengthMismatch (unat total_length) (length data))
     else let identification = read_u16 4 data; flags_frag = read_u16 6 data in
     if flags_frag AND 0x8000 \<noteq> 0 then Inl IpReservedFragmentFlagSet
     else let dont_fragment = (flags_frag AND 0x4000 \<noteq> 0);
              more_fragments = (flags_frag AND 0x2000 \<noteq> 0);
              fragment_offset = flags_frag AND 0x1FFF;
              payload_length = unat total_length - header_len in
     if more_fragments \<and> payload_length mod 8 \<noteq> 0
       then Inl (IpNonFinalFragmentLengthNotMultipleOfEight payload_length)
     else let ttl = data ! 8; protocol = ip_protocol_from_u8 (data ! 9);
              checksum = read_u16 10 data in
     if check_checksum \<and> \<not> verify_checksum (subslice 0 header_len data)
       then Inl (IpInvalidChecksum (compute_checksum (subslice 0 header_len data)) checksum)
     else Inr \<lparr> ipp_header =
                  \<lparr> ip_version = version, ip_ihl = ihl, ip_dscp_ecn = dscp_ecn,
                    ip_total_length = total_length, ip_identification = identification,
                    ip_dont_fragment = dont_fragment, ip_more_fragments = more_fragments,
                    ip_fragment_offset = fragment_offset, ip_ttl = ttl, ip_protocol = protocol,
                    ip_checksum = checksum, ip_src_ip = read4 12 data, ip_dst_ip = read4 16 data \<rparr>,
                ipp_payload = subslice header_len (unat total_length) data \<rparr>)"

definition decrement_ttl_in_place :: "bytes \<Rightarrow> (Ipv4Error + bool) \<times> bytes" where
  "decrement_ttl_in_place data =
     (case ipv4_parse data True of
        Inl e \<Rightarrow> (Inl e, data)
      | Inr parsed \<Rightarrow>
          let header_len = ip_header_len_bytes (ipp_header parsed); ttl = ip_ttl (ipp_header parsed)
          in if ttl \<le> 1 then (Inr False, data)
             else let data = data[8 := ttl - 1];
                      data = write_at 10 [0, 0] data;
                      checksum = compute_checksum (take header_len data)
                  in (Inr True, write_at 10 (u16_to_be checksum) data))"

definition ipv4_header_bytes ::
  "Ipv4Address \<Rightarrow> Ipv4Address \<Rightarrow> u8 \<Rightarrow> u16 \<Rightarrow> u8 \<Rightarrow> u16 \<Rightarrow> bytes" where
  "ipv4_header_bytes src_ip dst_ip protocol identification ttl total_length =
     [0x45] @ [0x00] @ u16_to_be total_length @ u16_to_be identification @ u16_to_be 0x4000 @
     [ttl] @ [protocol] @ [0x00, 0x00] @ bytes4 src_ip @ bytes4 dst_ip"

definition ipv4_try_serialize ::
  "Ipv4Address \<Rightarrow> Ipv4Address \<Rightarrow> u8 \<Rightarrow> u16 \<Rightarrow> u8 \<Rightarrow> bytes \<Rightarrow> Ipv4Error + bytes" where
  "ipv4_try_serialize src_ip dst_ip protocol identification ttl payload =
     (if IPV4_MIN_HEADER_LEN + length payload > 65535
      then Inl (IpPayloadTooLarge (length payload))
      else let total_length = of_nat (IPV4_MIN_HEADER_LEN + length payload) :: u16;
               buf = ipv4_header_bytes src_ip dst_ip protocol identification ttl total_length;
               csum = compute_checksum (subslice 0 IPV4_MIN_HEADER_LEN buf);
               buf = write_at 10 (u16_to_be csum) buf
           in Inr (buf @ payload))"

definition ipv4_serialize ::
  "Ipv4Address \<Rightarrow> Ipv4Address \<Rightarrow> u8 \<Rightarrow> u16 \<Rightarrow> u8 \<Rightarrow> bytes \<Rightarrow> bytes may_panic" where
  "ipv4_serialize src_ip dst_ip protocol identification ttl payload =
     (case ipv4_try_serialize src_ip dst_ip protocol identification ttl payload of
        Inl _ \<Rightarrow> None | Inr buf \<Rightarrow> Some buf)"

section \<open>What the parser accepts\<close>

text \<open>The accepted datagrams and what is read from them, stated without the order of the checks.\<close>

definition ipv4_hlen :: "bytes \<Rightarrow> nat" where
  "ipv4_hlen data = unat (data ! 0 AND 0x0F) * 4"

definition ipv4_acceptable :: "bytes \<Rightarrow> bool \<Rightarrow> bool" where
  "ipv4_acceptable data chk \<longleftrightarrow>
     20 \<le> length data \<and> drop_bit 4 (data ! 0) = 4 \<and> 5 \<le> data ! 0 AND 0x0F \<and>
     ipv4_hlen data \<le> unat (read_u16 2 data) \<and> unat (read_u16 2 data) \<le> length data \<and>
     read_u16 6 data AND 0x8000 = 0 \<and>
     (read_u16 6 data AND 0x2000 \<noteq> 0 \<longrightarrow> (unat (read_u16 2 data) - ipv4_hlen data) mod 8 = 0) \<and>
     (chk \<longrightarrow> verify_checksum (take (ipv4_hlen data) data))"

definition ipv4_fields :: "bytes \<Rightarrow> Ipv4Packet" where
  "ipv4_fields data =
     \<lparr> ipp_header =
         \<lparr> ip_version = 4, ip_ihl = data ! 0 AND 0x0F, ip_dscp_ecn = data ! 1,
           ip_total_length = read_u16 2 data, ip_identification = read_u16 4 data,
           ip_dont_fragment = (read_u16 6 data AND 0x4000 \<noteq> 0),
           ip_more_fragments = (read_u16 6 data AND 0x2000 \<noteq> 0),
           ip_fragment_offset = read_u16 6 data AND 0x1FFF, ip_ttl = data ! 8,
           ip_protocol = ip_protocol_from_u8 (data ! 9), ip_checksum = read_u16 10 data,
           ip_src_ip = read4 12 data, ip_dst_ip = read4 16 data \<rparr>,
       ipp_payload = subslice (ipv4_hlen data) (unat (read_u16 2 data)) data \<rparr>"

lemma subslice_0 [simp]: "subslice 0 n xs = take n xs"
  by (simp add: subslice_def)

lemma ipv4_parse_Inr_iff:
  "ipv4_parse data chk = Inr p \<longleftrightarrow> ipv4_acceptable data chk \<and> p = ipv4_fields data"
  by (auto simp: ipv4_parse_def ipv4_acceptable_def ipv4_fields_def ipv4_hlen_def Let_def
      IPV4_MIN_HEADER_LEN_def not_less)

lemma ipv4_hlen_bounds:
  assumes "ipv4_acceptable data chk"
  shows "20 \<le> ipv4_hlen data" "ipv4_hlen data \<le> 60"
    "ipv4_hlen data \<le> unat (read_u16 2 data)" "unat (read_u16 2 data) \<le> length data"
proof -
  have "5 \<le> unat (data ! 0 AND 0x0F)"
    using assms by (simp add: ipv4_acceptable_def word_le_nat_alt)
  then show "20 \<le> ipv4_hlen data" by (simp add: ipv4_hlen_def)
  have "data ! 0 AND 0x0F \<le> 0x0F" by (rule word_and_le1)
  then show "ipv4_hlen data \<le> 60" by (simp add: ipv4_hlen_def word_le_nat_alt)
  show "ipv4_hlen data \<le> unat (read_u16 2 data)" "unat (read_u16 2 data) \<le> length data"
    using assms by (auto simp: ipv4_acceptable_def)
qed

text \<open>Whatever bytes arrive, an accepted IPv4 packet has a consistent geometry: version 4, a
  header of 20 to 60 bytes inside the declared total length, which is inside the buffer; the
  payload is exactly the bytes between header and total length; a non-final fragment carries a
  multiple of eight bytes, the fragment offset fits its 13 bits, and, when it was asked for, the
  header checksum verifies.\<close>
theorem ipv4_parse_geometry:
  assumes "ipv4_parse data chk = Inr p"
  shows "ip_version (ipp_header p) = 4 \<and>
    20 \<le> ip_header_len_bytes (ipp_header p) \<and> ip_header_len_bytes (ipp_header p) \<le> 60 \<and>
    ip_header_len_bytes (ipp_header p) + length (ipp_payload p) =
      unat (ip_total_length (ipp_header p)) \<and>
    unat (ip_total_length (ipp_header p)) \<le> length data \<and>
    take (unat (ip_total_length (ipp_header p))) data =
      take (ip_header_len_bytes (ipp_header p)) data @ ipp_payload p \<and>
    (ip_more_fragments (ipp_header p) \<longrightarrow> 8 dvd length (ipp_payload p)) \<and>
    unat (ip_fragment_offset (ipp_header p)) < 8192 \<and>
    (chk \<longrightarrow> verify_checksum (take (ip_header_len_bytes (ipp_header p)) data))"
proof -
  have ok: "ipv4_acceptable data chk" and p: "p = ipv4_fields data"
    using assms by (auto simp: ipv4_parse_Inr_iff)
  note b = ipv4_hlen_bounds [OF ok]
  have hl: "ip_header_len_bytes (ipp_header p) = ipv4_hlen data"
    by (simp add: p ipv4_fields_def ip_header_len_bytes_def ipv4_hlen_def)
  have off: "read_u16 6 data AND 0x1FFF \<le> 0x1FFF" by (rule word_and_le1)
  have pl: "length (ipp_payload p) = unat (read_u16 2 data) - ipv4_hlen data"
    using b by (simp add: p ipv4_fields_def)
  have "take (unat (read_u16 2 data)) data = take (ipv4_hlen data) data @
      take (unat (read_u16 2 data) - ipv4_hlen data) (drop (ipv4_hlen data) data)"
    using b by (simp flip: take_add)
  then show ?thesis
    unfolding hl pl using b off ok
    by (auto simp: p ipv4_fields_def ipv4_acceptable_def subslice_def word_le_nat_alt)
qed

lemma ipv4_header_length [simp]:
  "length (ipv4_header_bytes src dst proto ident ttl tlen) = 20"
  by (simp add: ipv4_header_bytes_def)

lemma u16_from_be_consts: "u16_from_be 0x40 0 = 0x4000"
  by (simp add: u16_from_be_def)

lemma ipv4_header_sealed:
  "write_at 10 (u16_to_be c) (ipv4_header_bytes src dst proto ident ttl tlen) =
     [0x45, 0, ucast (drop_bit 8 tlen), ucast tlen, ucast (drop_bit 8 ident), ucast ident, 0x40, 0,
      ttl, proto, ucast (drop_bit 8 c), ucast c] @ bytes4 src @ bytes4 dst"
  by (simp add: write_at_def ipv4_header_bytes_def u16_to_be_def)

lemma ipv4_header_nth:
  assumes "h = write_at 10 (u16_to_be c) (ipv4_header_bytes src dst proto ident ttl tlen) @ pl"
  shows "h ! 0 = 0x45" "h ! Suc 0 = 0" "read_u16 2 h = tlen" "read_u16 4 h = ident" "read_u16 6 h = 0x4000"
    "h ! 8 = ttl" "h ! 9 = proto" "read_u16 10 h = c" "read4 12 h = src" "read4 16 h = dst"
    "length h = 20 + length pl" "drop 20 h = pl"
  unfolding assms ipv4_header_sealed
  by (cases src; cases dst; simp add: read_u16_def read4_def u16_from_be_consts)+

text \<open>A datagram of 28 bytes as the stack emits it: a UDP header with no data.\<close>

theorem ipv4_parse_geometry_witness:
  "\<exists>p. ipv4_parse ([0x45, 0, 0, 28, 0, 7, 0x20, 0, 64, 17, 0, 0] @ replicate 16 0) False = Inr p \<and>
       (ip_more_fragments (ipp_header p) \<longrightarrow> 8 dvd length (ipp_payload p))"
proof -
  have "ipv4_acceptable ([0x45, 0, 0, 28, 0, 7, 0x20, 0, 64, 17, 0, 0] @ replicate 16 0) False"
    by (simp add: ipv4_acceptable_def ipv4_hlen_def read_u16_def u16_from_be_def)
  then obtain p where
    p: "ipv4_parse ([0x45, 0, 0, 28, 0, 7, 0x20, 0, 64, 17, 0, 0] @ replicate 16 0) False = Inr p"
    by (simp add: ipv4_parse_Inr_iff)
  from ipv4_parse_geometry [OF this] p show ?thesis by blast
qed

section \<open>Serialization\<close>

lemma ipv4_try_serialize_cases:
  "ipv4_try_serialize src dst proto ident ttl payload =
     (if length payload > 65515 then Inl (IpPayloadTooLarge (length payload))
      else let tlen = of_nat (20 + length payload);
               h = ipv4_header_bytes src dst proto ident ttl tlen
           in Inr (write_at 10 (u16_to_be (compute_checksum h)) h @ payload))"
  by (simp add: ipv4_try_serialize_def IPV4_MIN_HEADER_LEN_def Let_def)

lemma ipv4_header_verifies:
  "verify_checksum (write_at 10 (u16_to_be (compute_checksum h)) h)"
  if "h = ipv4_header_bytes src dst proto ident ttl tlen"
proof -
  have "h ! 10 = 0" "h ! 11 = 0"
    unfolding that by (cases src; cases dst; simp add: ipv4_header_bytes_def u16_to_be_def)+
  then show ?thesis
    using header_checksum.seal_verifies [of 10 h] that by simp
qed

lemma ipv4_parse_serialize:
  assumes len: "length payload \<le> 65515"
  shows "\<exists>buf csum. ipv4_try_serialize src dst proto ident ttl payload = Inr buf \<and>
        ipv4_serialize src dst proto ident ttl payload = Some buf \<and>
        length buf = 20 + length payload \<and>
        ipv4_parse buf True = Inr \<lparr> ipp_header =
          \<lparr> ip_version = 4, ip_ihl = 5, ip_dscp_ecn = 0, ip_total_length = of_nat (length buf),
            ip_identification = ident, ip_dont_fragment = True, ip_more_fragments = False,
            ip_fragment_offset = 0, ip_ttl = ttl, ip_protocol = ip_protocol_from_u8 proto,
            ip_checksum = csum, ip_src_ip = src, ip_dst_ip = dst \<rparr>, ipp_payload = payload \<rparr>"
proof -
  define tlen :: u16 where "tlen = of_nat (20 + length payload)"
  define h where "h = ipv4_header_bytes src dst proto ident ttl tlen"
  define csum where "csum = compute_checksum h"
  define buf where "buf = write_at 10 (u16_to_be csum) h @ payload"
  have ser: "ipv4_try_serialize src dst proto ident ttl payload = Inr buf"
    using len by (simp add: ipv4_try_serialize_cases Let_def buf_def csum_def h_def tlen_def)
  note nth = ipv4_header_nth [OF buf_def [unfolded h_def]]
  have tlen: "unat tlen = 20 + length payload"
    using len by (simp add: tlen_def unat_of_nat del: of_nat_add)
  have hlen: "ipv4_hlen buf = 20" by (simp add: ipv4_hlen_def nth)
  have chk: "verify_checksum (take 20 buf)"
    using ipv4_header_verifies [OF h_def] by (simp add: buf_def csum_def h_def)
  have ok: "ipv4_acceptable buf True"
    using tlen chk unfolding ipv4_acceptable_def hlen by (simp add: nth)
  have "ipv4_parse buf True = Inr (ipv4_fields buf)"
    using ok by (simp add: ipv4_parse_Inr_iff)
  then show ?thesis
    using ser hlen tlen
    by (auto simp: ipv4_serialize_def ipv4_fields_def nth subslice_def tlen_def)
qed

text \<open>Every payload that fits in a datagram (65515 bytes) is carried: serialization returns a
  datagram, never panics, and parsing it with checksum verification gives back addresses,
  protocol, identification, TTL and payload, with Don't Fragment set; a longer payload is
  rejected with its length and panics in the panicking variant.\<close>
theorem ipv4_roundtrip:
  "(length payload \<le> 65515 \<longrightarrow>
     (\<exists>buf csum. ipv4_try_serialize src dst proto ident ttl payload = Inr buf \<and>
        ipv4_serialize src dst proto ident ttl payload = Some buf \<and>
        length buf = 20 + length payload \<and>
        ipv4_parse buf True = Inr \<lparr> ipp_header =
          \<lparr> ip_version = 4, ip_ihl = 5, ip_dscp_ecn = 0, ip_total_length = of_nat (length buf),
            ip_identification = ident, ip_dont_fragment = True, ip_more_fragments = False,
            ip_fragment_offset = 0, ip_ttl = ttl, ip_protocol = ip_protocol_from_u8 proto,
            ip_checksum = csum, ip_src_ip = src, ip_dst_ip = dst \<rparr>, ipp_payload = payload \<rparr>)) \<and>
   (65515 < length payload \<longrightarrow>
     ipv4_try_serialize src dst proto ident ttl payload = Inl (IpPayloadTooLarge (length payload)) \<and>
     ipv4_serialize src dst proto ident ttl payload = None)"
  using ipv4_parse_serialize [of payload src dst proto ident ttl]
  by (simp add: ipv4_serialize_def ipv4_try_serialize_cases)

theorem ipv4_roundtrip_witness:
  "\<exists>buf csum. ipv4_try_serialize (O4 10 0 0 1) (O4 10 0 0 2) 17 7 64 [1, 2, 3] = Inr buf \<and>
     length buf = 23 \<and> ipp_payload (projr (ipv4_parse buf True)) = [1, 2, 3]"
  using ipv4_roundtrip [of "[1, 2, 3]" "O4 10 0 0 1" "O4 10 0 0 2" 17 7 64] by auto

section \<open>Forwarding\<close>

lemma ttl_write_nth:
  assumes "20 \<le> length data" and "d = write_at 10 [x, y] (data[8 := t])"
  shows "length d = length data" "d ! 8 = t" "i \<notin> {8, 10, 11} \<Longrightarrow> d ! i = data ! i"
    "d ! 10 = x" "d ! 11 = y" "12 \<le> n \<Longrightarrow> drop n d = drop n data"
  using assms(1) unfolding assms(2)
  by (auto simp: nth_write_at nth_Cons' intro!: nth_equalityI)

lemma decrement_ttl_parse:
  assumes p: "ipv4_parse data True = Inr p" and ttl: "\<not> ip_ttl (ipp_header p) \<le> 1"
  shows "\<exists>data' csum. decrement_ttl_in_place data = (Inr True, data') \<and>
    length data' = length data \<and> (\<forall>i. i \<notin> {8, 10, 11} \<longrightarrow> data' ! i = data ! i) \<and>
    ipv4_parse data' True = Inr (p\<lparr> ipp_header := (ipp_header p)
      \<lparr> ip_ttl := ip_ttl (ipp_header p) - 1, ip_checksum := csum \<rparr> \<rparr>)"
proof -
  have ok: "ipv4_acceptable data True" and pf: "p = ipv4_fields data"
    using p by (auto simp: ipv4_parse_Inr_iff)
  note b = ipv4_hlen_bounds [OF ok]
  have len: "20 \<le> length data" using b by linarith
  have hl: "ip_header_len_bytes (ipp_header p) = ipv4_hlen data"
    by (simp add: pf ipv4_fields_def ip_header_len_bytes_def ipv4_hlen_def)
  define z where "z = write_at 10 [0, 0] (data[8 := ip_ttl (ipp_header p) - 1])"
  define csum where "csum = compute_checksum (take (ipv4_hlen data) z)"
  define d where "d = write_at 10 (u16_to_be csum) z"
  have zlen: "length z = length data" using len by (simp add: z_def)
  have d_alt: "d = write_at 10 [ucast (drop_bit 8 csum), ucast csum]
      (data[8 := ip_ttl (ipp_header p) - 1])"
    using len by (simp add: d_def z_def u16_to_be_def write_at_def)
  note nth = ttl_write_nth [OF len d_alt]
  have dec: "decrement_ttl_in_place data = (Inr True, d)"
    using p ttl by (simp add: decrement_ttl_in_place_def Let_def hl d_def csum_def z_def)
  have "take (ipv4_hlen data) d = write_at 10 (u16_to_be csum) (take (ipv4_hlen data) z)"
    using b zlen by (simp add: d_def take_write_at)
  moreover have "take (ipv4_hlen data) z ! 10 = 0" "take (ipv4_hlen data) z ! 11 = 0"
    using b len by (auto simp: z_def nth_write_at)
  ultimately have verified: "verify_checksum (take (ipv4_hlen data) d)"
    using header_checksum.seal_verifies [of 10 "take (ipv4_hlen data) z"] b zlen
    by (simp add: csum_def)
  have same: "ipv4_hlen d = ipv4_hlen data" "read_u16 2 d = read_u16 2 data"
    "read_u16 6 d = read_u16 6 data"
    by (simp_all add: ipv4_hlen_def read_u16_def nth)
  have "ipv4_acceptable d True"
    using ok verified by (simp add: ipv4_acceptable_def same nth)
  moreover have "ipv4_fields d = p\<lparr> ipp_header := (ipp_header p)
      \<lparr> ip_ttl := ip_ttl (ipp_header p) - 1, ip_checksum := csum \<rparr> \<rparr>"
    using b nth(6) [of "ipv4_hlen data"]
    by (simp add: ipv4_fields_def same nth pf read_u16_def read4_def subslice_def)
  ultimately show ?thesis
    using dec nth by (auto simp: ipv4_parse_Inr_iff)
qed

text \<open>C26: forwarding a datagram changes what it must and nothing else: a malformed datagram and
  one whose TTL is used up are left untouched (the error, or \<open>false\<close>, is reported); otherwise
  only the TTL byte and the two checksum bytes may change, and the result parses, checksum
  verified, to the same packet with the TTL one lower.\<close>
theorem decrement_ttl_preserves:
  "(ipv4_parse data True = Inl e \<longrightarrow> decrement_ttl_in_place data = (Inl e, data)) \<and>
   (ipv4_parse data True = Inr p \<longrightarrow>
     (if ip_ttl (ipp_header p) \<le> 1 then decrement_ttl_in_place data = (Inr False, data)
      else \<exists>data' csum. decrement_ttl_in_place data = (Inr True, data') \<and>
        length data' = length data \<and> (\<forall>i. i \<notin> {8, 10, 11} \<longrightarrow> data' ! i = data ! i) \<and>
        ipv4_parse data' True = Inr (p\<lparr> ipp_header := (ipp_header p)
          \<lparr> ip_ttl := ip_ttl (ipp_header p) - 1, ip_checksum := csum \<rparr> \<rparr>)))"
  using decrement_ttl_parse [of data p] by (auto simp: decrement_ttl_in_place_def)

theorem decrement_ttl_preserves_witness:
  "\<exists>data'. decrement_ttl_in_place [0x45, 0, 0, 20, 0, 7, 0x40, 0, 64, 17, 0x26, 0xD0, 10, 0, 0, 1,
       10, 0, 0, 2] = (Inr True, data') \<and> ip_ttl (ipp_header (projr (ipv4_parse data' True))) = 63"
proof -
  let ?d = "[0x45, 0, 0, 20, 0, 7, 0x40, 0, 64, 17, 0x26, 0xD0, 10, 0, 0, 1, 10, 0, 0, 2] :: bytes"
  have "ipv4_acceptable ?d True"
    by (simp add: ipv4_acceptable_def ipv4_hlen_def read_u16_def u16_from_be_def
        verify_checksum_dvd)
  then have "ipv4_parse ?d True = Inr (ipv4_fields ?d)" by (simp add: ipv4_parse_Inr_iff)
  moreover have "ip_ttl (ipp_header (ipv4_fields ?d)) = 64" by (simp add: ipv4_fields_def)
  ultimately show ?thesis
    using decrement_ttl_preserves [of ?d undefined "ipv4_fields ?d"]
    by (auto simp: word_le_nat_alt)
qed

text \<open>The dotted-decimal text form of an IPv4 address, as \<open>Display\<close> writes it, is read back
  by \<open>FromStr\<close> to the same address.\<close>
theorem ip_text_roundtrip: "ip_from_str (ip_fmt ip) = Inr ip"
  by (cases ip)
     (simp add: ip_from_str_def ip_fmt_def split_on_part split_on_no_sep set_fmt_dec
       parse_fmt_dec read4_def)

end
