(* ===== verification/Udp.thy ===== *)
theory Udp
  imports Ipv4
begin

unbundle bit_operations_syntax

text \<open>
  The User Datagram Protocol (\<open>udp.rs\<close>): parsing with every length error, serialization with the
  pseudo-header checksum, and the table of port listeners.  A listener is a function from source
  address, source port and payload to an optional reply.
\<close>

section \<open>Datagrams\<close>

definition UDP_HEADER_LEN :: nat where "UDP_HEADER_LEN = 8"
definition UDP_MAX_PAYLOAD_LEN :: nat where "UDP_MAX_PAYLOAD_LEN = 65535 - UDP_HEADER_LEN"

record UdpDatagram =
  udp_src_port :: u16
  udp_dst_port :: u16
  udp_length :: u16
  udp_checksum :: u16
  udp_payload :: bytes

datatype UdpError = UdpDatagramTooShort nat | UdpLengthTooShort nat | UdpLengthMismatch nat nat
  | UdpPayloadTooLarge nat | UdpInvalidChecksum u16

definition udp_parse ::
  "Ipv4Address \<Rightarrow> Ipv4Address \<Rightarrow> bytes \<Rightarrow> bool \<Rightarrow> UdpError + UdpDatagram" where
  "udp_parse src_ip dst_ip data check_checksum =
     (if length data < UDP_HEADER_LEN then Inl (UdpDatagramTooShort (length data))
      else let src_port = read_u16 0 data; dst_port = read_u16 2 data;
               len = read_u16 4 data; checksum = read_u16 6 data
      in if unat len < UDP_HEADER_LEN then Inl (UdpLengthTooShort (unat len))
      else if unat len > length data then Inl (UdpLengthMismatch (unat len) (length data))
      else let segment = subslice 0 (unat len) data
      in if check_checksum \<and> checksum \<noteq> 0 \<and>
            \<not> verify_ipv4_transport_checksum src_ip dst_ip 17 segment
         then Inl (UdpInvalidChecksum checksum)
         else Inr \<lparr> udp_src_port = src_port, udp_dst_port = dst_port, udp_length = len,
                    udp_checksum = checksum, udp_payload = subslice UDP_HEADER_LEN (unat len) data \<rparr>)"

definition udp_try_serialize ::
  "Ipv4Address \<Rightarrow> Ipv4Address \<Rightarrow> u16 \<Rightarrow> u16 \<Rightarrow> bytes \<Rightarrow> UdpError + bytes" where
  "udp_try_serialize src_ip dst_ip src_port dst_port payload =
     (if UDP_HEADER_LEN + length payload > 65535
      then Inl (UdpPayloadTooLarge (length payload))
      else let len = of_nat (UDP_HEADER_LEN + length payload) :: u16;
               buf = u16_to_be src_port @ u16_to_be dst_port @ u16_to_be len @ [0x00, 0x00] @ payload;
               csum = compute_ipv4_transport_checksum src_ip dst_ip 17 buf
           in Inr (write_at 6 (u16_to_be csum) buf))"

definition udp_serialize ::
  "Ipv4Address \<Rightarrow> Ipv4Address \<Rightarrow> u16 \<Rightarrow> u16 \<Rightarrow> bytes \<Rightarrow> bytes may_panic" where
  "udp_serialize src_ip dst_ip src_port dst_port payload =
     (case udp_try_serialize src_ip dst_ip src_port dst_port payload of
        Inl _ \<Rightarrow> None | Inr buf \<Rightarrow> Some buf)"

section \<open>The socket table\<close>

type_synonym UdpHandler = "Ipv4Address \<Rightarrow> u16 \<Rightarrow> bytes \<Rightarrow> bytes option"

record UdpSocketTable =
  udp_listeners :: "(u16, UdpHandler) hash_map"

definition udp_table_new :: UdpSocketTable where
  "udp_table_new = \<lparr> udp_listeners = [] \<rparr>"

definition udp_bind :: "u16 \<Rightarrow> UdpHandler \<Rightarrow> UdpSocketTable \<Rightarrow> UdpSocketTable" where
  "udp_bind port handler t = t\<lparr> udp_listeners := hm_insert port handler (udp_listeners t) \<rparr>"

definition udp_unbind :: "u16 \<Rightarrow> UdpSocketTable \<Rightarrow> UdpSocketTable" where
  "udp_unbind port t = t\<lparr> udp_listeners := hm_remove port (udp_listeners t) \<rparr>"

definition udp_dispatch ::
  "UdpSocketTable \<Rightarrow> Ipv4Address \<Rightarrow> u16 \<Rightarrow> u16 \<Rightarrow> bytes \<Rightarrow> bytes option" where
  "udp_dispatch t src_ip src_port dst_port payload =
     (case hm_get (udp_listeners t) dst_port of
        Some handler \<Rightarrow> handler src_ip src_port payload
      | None \<Rightarrow> None)"

interpretation udp_sockets: kv_store udp_table_new "\<lambda>t. hm_get (udp_listeners t)" udp_bind udp_unbind
  "\<lambda>t. hm_wf (udp_listeners t)"
  by unfold_locales (auto simp: udp_table_new_def udp_bind_def udp_unbind_def hm_simps)

section \<open>Round trip\<close>

lemma transport_checksum_nonzero:
  shows "compute_ipv4_transport_checksum src dst 17 seg \<noteq> 0"
proof
  assume zero: "compute_ipv4_transport_checksum src dst 17 seg = 0"
  then show False
    by (simp add: compute_ipv4_transport_checksum_def Let_def split: if_splits)
qed

lemma udp_buf_nth:
  assumes "b = write_at 6 (u16_to_be c) (u16_to_be sp @ u16_to_be dp @ u16_to_be len @ [0, 0] @ pl)"
  shows "read_u16 0 b = sp" "read_u16 2 b = dp" "read_u16 4 b = len" "read_u16 6 b = c"
    "length b = 8 + length pl" "drop 8 b = pl"
  unfolding assms by (simp_all add: write_at_def u16_to_be_def read_u16_def)

lemma udp_seal_verifies:
  assumes "buf = u16_to_be sp @ u16_to_be dp @ u16_to_be len @ [0, 0] @ pl" "length buf \<le> 65535"
  shows "verify_ipv4_transport_checksum src dst 17
    (write_at 6 (u16_to_be (compute_ipv4_transport_checksum src dst 17 buf)) buf)"
proof (rule transport_checksum.seal_verifies)
  show "buf ! 6 = 0" "buf ! (6 + 1) = 0"
    unfolding assms(1) by (simp_all add: u16_to_be_def)
qed (use assms in simp_all)

lemma udp_parse_serialize:
  assumes plen: "length payload \<le> 65527"
  shows "\<exists>buf csum. udp_try_serialize src dst sp dp payload = Inr buf \<and>
        udp_serialize src dst sp dp payload = Some buf \<and> csum \<noteq> 0 \<and>
        udp_parse src dst buf True = Inr \<lparr> udp_src_port = sp, udp_dst_port = dp,
          udp_length = of_nat (length buf), udp_checksum = csum, udp_payload = payload \<rparr>"
proof -
  define len :: u16 where "len = of_nat (8 + length payload)"
  define buf0 where "buf0 = u16_to_be sp @ u16_to_be dp @ u16_to_be len @ [0, 0] @ payload"
  define csum where "csum = compute_ipv4_transport_checksum src dst 17 buf0"
  define buf where "buf = write_at 6 (u16_to_be csum) buf0"
  have len0: "length buf0 = 8 + length payload" by (simp add: buf0_def)
  have ser: "udp_try_serialize src dst sp dp payload = Inr buf"
    using plen by (simp add: udp_try_serialize_def UDP_HEADER_LEN_def Let_def buf_def csum_def
        buf0_def len_def)
  note nth = udp_buf_nth [OF buf_def [unfolded buf0_def]]
  have ulen: "unat len = 8 + length payload"
    using plen by (simp add: len_def unat_of_nat del: of_nat_add)
  have "verify_ipv4_transport_checksum src dst 17 buf"
    using udp_seal_verifies [OF buf0_def] plen len0 by (simp add: buf_def csum_def)
  then have "udp_parse src dst buf True = Inr \<lparr> udp_src_port = sp, udp_dst_port = dp,
      udp_length = of_nat (length buf), udp_checksum = csum, udp_payload = payload \<rparr>"
    using ulen by (simp add: udp_parse_def UDP_HEADER_LEN_def nth len_def subslice_def)
  moreover have "csum \<noteq> 0"
    using transport_checksum_nonzero [of src dst buf0] by (simp add: csum_def)
  ultimately show ?thesis using ser by (auto simp: udp_serialize_def)
qed

text \<open>Every payload that fits in a datagram (65527 bytes) survives UDP: it is serialized
  without error or panic, the checksum field is never the zero that means "not computed", so the
  receiver always verifies it, and parsing for the same pair of addresses gives back ports,
  length and payload.  A longer payload is rejected with its length.\<close>
theorem udp_roundtrip:
  "(length payload \<le> 65527 \<longrightarrow>
     (\<exists>buf csum. udp_try_serialize src dst sp dp payload = Inr buf \<and>
        udp_serialize src dst sp dp payload = Some buf \<and> csum \<noteq> 0 \<and>
        udp_parse src dst buf True = Inr \<lparr> udp_src_port = sp, udp_dst_port = dp,
          udp_length = of_nat (length buf), udp_checksum = csum, udp_payload = payload \<rparr>)) \<and>
   (65527 < length payload \<longrightarrow>
     udp_try_serialize src dst sp dp payload = Inl (UdpPayloadTooLarge (length payload)) \<and>
     udp_serialize src dst sp dp payload = None)"
  using udp_parse_serialize [of payload src dst sp dp]
  by (simp add: udp_serialize_def udp_try_serialize_def UDP_HEADER_LEN_def)

theorem udp_roundtrip_witness:
  "\<exists>buf. udp_try_serialize (O4 10 0 0 1) (O4 10 0 0 2) 1234 53 [7, 8] = Inr buf \<and>
     udp_payload (projr (udp_parse (O4 10 0 0 1) (O4 10 0 0 2) buf True)) = [7, 8]"
  using udp_roundtrip [of "[7, 8]" "O4 10 0 0 1" "O4 10 0 0 2" 1234 53] by auto

text \<open>A datagram is handed to the listener bound last to its destination port and to no
  other: binding a port affects only that port and replaces its listener, unbinding it makes
  dispatch return nothing there, and every other port answers as before.\<close>
theorem udp_dispatch_bound:
  assumes "hm_wf (udp_listeners t)"
  shows "udp_dispatch (udp_bind port h (udp_bind port h' t)) src sp p payload =
           (if p = port then h src sp payload else udp_dispatch t src sp p payload) \<and>
         udp_dispatch (udp_unbind port (udp_bind port h t)) src sp p payload =
           (if p = port then None else udp_dispatch t src sp p payload)"
  using assms
  by (simp add: udp_dispatch_def udp_sockets.put_overwrites udp_sockets.get_put
      udp_sockets.get_del udp_sockets.inv_put)

theorem udp_dispatch_bound_witness:
  "udp_dispatch (udp_bind 53 (\<lambda>_ _ p. Some p) (udp_bind 53 (\<lambda>_ _ _. None) udp_table_new))
     (O4 10 0 0 1) 4000 53 [1] = Some [1]"
  using udp_dispatch_bound [of udp_table_new] by (simp add: udp_table_new_def)

end
