(* ===== verification/Icmp.thy ===== *)
theory Icmp
  imports Ipv4 Ethernet
begin

unbundle bit_operations_syntax

text \<open>
  The control message protocol (\<open>icmp.rs\<close>): message types, parsing and serialization, the
  length of the quoted original datagram, the builders of echo and error messages, and the
  guarded Parameter Problem reply to malformed Ethernet/IPv4 frames.
\<close>

section \<open>Messages\<close>

definition ICMP_TYPE_ECHO_REPLY :: u8 where "ICMP_TYPE_ECHO_REPLY = 0"
definition ICMP_TYPE_DEST_UNREACHABLE :: u8 where "ICMP_TYPE_DEST_UNREACHABLE = 3"
definition ICMP_TYPE_ECHO_REQUEST :: u8 where "ICMP_TYPE_ECHO_REQUEST = 8"
definition ICMP_TYPE_TIME_EXCEEDED :: u8 where "ICMP_TYPE_TIME_EXCEEDED = 11"
definition ICMP_TYPE_PARAMETER_PROBLEM :: u8 where "ICMP_TYPE_PARAMETER_PROBLEM = 12"
definition ICMP_HEADER_LEN :: nat where "ICMP_HEADER_LEN = 8"

lemmas icmp_type_defs = ICMP_TYPE_ECHO_REPLY_def ICMP_TYPE_DEST_UNREACHABLE_def
  ICMP_TYPE_ECHO_REQUEST_def ICMP_TYPE_TIME_EXCEEDED_def ICMP_TYPE_PARAMETER_PROBLEM_def

datatype IcmpType = IcmpEchoReply | IcmpEchoRequest | IcmpDestinationUnreachable
  | IcmpTimeExceeded | IcmpParameterProblem | IcmpOther u8

definition icmp_type_from_u8 :: "u8 \<Rightarrow> IcmpType" where
  "icmp_type_from_u8 val =
     (if val = ICMP_TYPE_ECHO_REPLY then IcmpEchoReply
      else if val = ICMP_TYPE_ECHO_REQUEST then IcmpEchoRequest
      else if val = ICMP_TYPE_DEST_UNREACHABLE then IcmpDestinationUnreachable
      else if val = ICMP_TYPE_TIME_EXCEEDED then IcmpTimeExceeded
      else if val = ICMP_TYPE_PARAMETER_PROBLEM then IcmpParameterProblem
      else IcmpOther val)"

fun icmp_type_to_u8 :: "IcmpType \<Rightarrow> u8" where
  "icmp_type_to_u8 IcmpEchoReply = ICMP_TYPE_ECHO_REPLY"
| "icmp_type_to_u8 IcmpEchoRequest = ICMP_TYPE_ECHO_REQUEST"
| "icmp_type_to_u8 IcmpDestinationUnreachable = ICMP_TYPE_DEST_UNREACHABLE"
| "icmp_type_to_u8 IcmpTimeExceeded = ICMP_TYPE_TIME_EXCEEDED"
| "icmp_type_to_u8 IcmpParameterProblem = ICMP_TYPE_PARAMETER_PROBLEM"
| "icmp_type_to_u8 (IcmpOther val) = val"

interpretation icmp_type: tag_codec icmp_type_from_u8 icmp_type_to_u8
  by unfold_locales (simp add: icmp_type_from_u8_def)

record IcmpPacket =
  icmp_icmp_type :: IcmpType
  icmp_code :: u8
  icmp_checksum :: u16
  icmp_identifier :: u16
  icmp_sequence_number :: u16
  icmp_payload :: bytes

datatype IcmpError = IcmpPacketTooShort nat | IcmpInvalidChecksum u16 u16

definition ipv4_error_quote_len :: "bytes \<Rightarrow> nat" where
  "ipv4_error_quote_len orig_datagram =
     (case orig_datagram of
        version_ihl # _ \<Rightarrow>
          let version = drop_bit 4 version_ihl;
              ihl_words = unat (version_ihl AND 0x0F);
              header_len = ihl_words * 4
          in if version = 4 \<and> ihl_words \<ge> 5 \<and> header_len \<le> length orig_datagram
             then min (length orig_datagram) (header_len + 8)
             else min (length orig_datagram) 28
      | [] \<Rightarrow> min (length orig_datagram) 28)"

definition icmp_parse :: "bytes \<Rightarrow> bool \<Rightarrow> IcmpError + IcmpPacket" where
  "icmp_parse data check_checksum =
     (if length data < ICMP_HEADER_LEN then Inl (IcmpPacketTooShort (length data))
      else if check_checksum \<and> \<not> verify_checksum data
        then Inl (IcmpInvalidChecksum (compute_checksum data) (read_u16 2 data))
      else Inr \<lparr> icmp_icmp_type = icmp_type_from_u8 (data ! 0), icmp_code = data ! 1,
                 icmp_checksum = read_u16 2 data, icmp_identifier = read_u16 4 data,
                 icmp_sequence_number = read_u16 6 data,
                 icmp_payload = drop ICMP_HEADER_LEN data \<rparr>)"

definition icmp_serialize :: "u8 \<Rightarrow> u8 \<Rightarrow> u16 \<Rightarrow> u16 \<Rightarrow> bytes \<Rightarrow> bytes" where
  "icmp_serialize icmp_type code identifier sequence_number payload =
     (let buf = [icmp_type] @ [code] @ [0x00, 0x00] @ u16_to_be identifier @
                u16_to_be sequence_number @ payload;
          csum = compute_checksum buf
      in write_at 2 (u16_to_be csum) buf)"

definition build_echo_reply :: "IcmpPacket \<Rightarrow> bytes" where
  "build_echo_reply req =
     icmp_serialize ICMP_TYPE_ECHO_REPLY 0 (icmp_identifier req) (icmp_sequence_number req)
       (icmp_payload req)"

definition build_echo_request :: "u16 \<Rightarrow> u16 \<Rightarrow> bytes \<Rightarrow> bytes" where
  "build_echo_request identifier sequence_number payload =
     icmp_serialize ICMP_TYPE_ECHO_REQUEST 0 identifier sequence_number payload"

definition build_time_exceeded :: "u8 \<Rightarrow> bytes \<Rightarrow> bytes" where
  "build_time_exceeded code orig_datagram =
     (let copy_len = ipv4_error_quote_len orig_datagram;
          payload = [0, 0, 0, 0] @ take copy_len orig_datagram
      in icmp_serialize ICMP_TYPE_TIME_EXCEEDED code 0 0 payload)"

definition build_destination_unreachable :: "u8 \<Rightarrow> u16 \<Rightarrow> bytes \<Rightarrow> bytes" where
  "build_destination_unreachable code next_hop_mtu orig_datagram =
     (let copy_len = ipv4_error_quote_len orig_datagram;
          payload = (if code = 4 then [0, 0] @ u16_to_be next_hop_mtu else [0, 0, 0, 0]) @
                    take copy_len orig_datagram
      in icmp_serialize ICMP_TYPE_DEST_UNREACHABLE code 0 0 payload)"

definition build_parameter_problem :: "u8 \<Rightarrow> bytes \<Rightarrow> bytes" where
  "build_parameter_problem pointer orig_datagram =
     (let copy_len = ipv4_error_quote_len orig_datagram;
          buf = [ICMP_TYPE_PARAMETER_PROBLEM] @ [0] @ [0, 0] @ [pointer] @ [0, 0, 0] @
                take copy_len orig_datagram;
          csum = compute_checksum buf
      in write_at 2 (u16_to_be csum) buf)"

fun parameter_problem_pointer :: "Ipv4Error \<Rightarrow> u8 option" where
  "parameter_problem_pointer (IpTotalLengthSmallerThanHeader _ _) = Some 2"
| "parameter_problem_pointer IpReservedFragmentFlagSet = Some 6"
| "parameter_problem_pointer _ = None"

definition safe_ipv4_error_source :: "Ipv4Address \<Rightarrow> bool" where
  "safe_ipv4_error_source address \<longleftrightarrow>
     \<not> ip_is_unspecified address \<and> \<not> ip_is_broadcast address \<and>
     \<not> ip_is_multicast address \<and> \<not> ip_is_loopback address"

text \<open>The outer \<open>option\<close> is the panic of \<open>Ipv4Packet::serialize\<close>, the inner one the result.\<close>

definition build_ipv4_parameter_problem_reply ::
  "MacAddress \<Rightarrow> Ipv4Address \<Rightarrow> bytes \<Rightarrow> bytes option may_panic" where
  "build_ipv4_parameter_problem_reply local_mac local_ip raw_frame =
     (case ethernet_parse raw_frame of
        Inl _ \<Rightarrow> Some None
      | Inr ethernet \<Rightarrow>
     if eth_ethertype ethernet \<noteq> EtIPv4 \<or> eth_dst_mac ethernet \<noteq> local_mac then Some None
     else let datagram = eth_payload ethernet in
     case ipv4_parse datagram True of
        Inr _ \<Rightarrow> Some None
      | Inl error \<Rightarrow>
     (case parameter_problem_pointer error of
        None \<Rightarrow> Some None
      | Some pointer \<Rightarrow>
     if length datagram < 20 \<or> drop_bit 4 (datagram ! 0) \<noteq> 4 then Some None
     else let ihl = unat (datagram ! 0 AND 0x0F) in
     if ihl < 5 then Some None
     else let header_len = ihl * 4 in
     if header_len > length datagram \<or> \<not> verify_checksum (take header_len datagram) then Some None
     else let source = read4 12 datagram; destination = read4 16 datagram in
     if destination \<noteq> local_ip \<or> \<not> safe_ipv4_error_source source then Some None
     else if datagram ! 9 = IP_PROTO_ICMP then Some None
     else if read_u16 6 datagram AND 0x1FFF \<noteq> 0 then Some None
     else let icmp = build_parameter_problem pointer datagram in
     (case ipv4_serialize local_ip source IP_PROTO_ICMP 0 64 icmp of
        None \<Rightarrow> None
      | Some ip \<Rightarrow> Some (Some (ethernet_serialize (eth_src_mac ethernet) local_mac ETHERTYPE_IPV4 ip)))))"

section \<open>Round trip\<close>

lemma icmp_buf_nth:
  assumes "b = write_at 2 (u16_to_be c) ([ty] @ [code] @ [0, 0] @ x1 # x2 # x3 # x4 # pl)"
  shows "b ! 0 = ty" "b ! Suc 0 = code" "read_u16 2 b = c" "b ! 4 = x1" "b ! 5 = x2"
    "b ! 6 = x3" "b ! 7 = x4" "length b = 8 + length pl" "drop 8 b = pl"
  unfolding assms by (simp_all add: write_at_def u16_to_be_def read_u16_def)

lemma icmp_seal_verifies:
  assumes "buf = [ty] @ [code] @ [0, 0] @ x1 # x2 # x3 # x4 # pl" and "length pl \<le> 65527"
  shows "verify_checksum (write_at 2 (u16_to_be (compute_checksum buf)) buf)"
  by (rule header_checksum.seal_verifies) (use assms in \<open>simp_all\<close>)

lemma icmp_parse_sealed:
  assumes "buf = [ty] @ [code] @ [0, 0] @ x1 # x2 # x3 # x4 # pl" and "length pl \<le> 65527"
  shows "icmp_parse (write_at 2 (u16_to_be (compute_checksum buf)) buf) True =
    Inr \<lparr> icmp_icmp_type = icmp_type_from_u8 ty, icmp_code = code,
          icmp_checksum = compute_checksum buf, icmp_identifier = u16_from_be x1 x2,
          icmp_sequence_number = u16_from_be x3 x4, icmp_payload = pl \<rparr>"
proof -
  define b where "b = write_at 2 (u16_to_be (compute_checksum buf)) buf"
  note nth = icmp_buf_nth [OF b_def [unfolded assms(1)]]
  have "read_u16 4 b = u16_from_be x1 x2" "read_u16 6 b = u16_from_be x3 x4"
    by (simp_all add: read_u16_def nth)
  then show ?thesis
    using icmp_seal_verifies [OF assms] nth unfolding b_def [symmetric] assms(1) [symmetric]
    by (simp add: icmp_parse_def ICMP_HEADER_LEN_def)
qed

lemma icmp_parse_serialize:
  assumes "length payload \<le> 65527"
  shows "\<exists>csum. icmp_parse (icmp_serialize ty code ident seq payload) True =
    Inr \<lparr> icmp_icmp_type = icmp_type_from_u8 ty, icmp_code = code, icmp_checksum = csum,
          icmp_identifier = ident, icmp_sequence_number = seq, icmp_payload = payload \<rparr>"
  using icmp_parse_sealed [OF refl assms, of ty code "ucast (drop_bit 8 ident)" "ucast ident"
      "ucast (drop_bit 8 seq)" "ucast seq"]
  by (simp add: icmp_serialize_def Let_def u16_to_be_def)

interpretation icmp_wire: wire_codec
  "\<lambda>(ty, code, ident, seq, payload). length payload \<le> 65527"
  "\<lambda>(ty, code, ident, seq, payload). icmp_serialize ty code ident seq payload"
  "\<lambda>d. icmp_parse d True"
  "\<lambda>p. (icmp_type_to_u8 (icmp_icmp_type p), icmp_code p, icmp_identifier p,
        icmp_sequence_number p, icmp_payload p)"
proof unfold_locales
  fix x :: "u8 \<times> u8 \<times> u16 \<times> u16 \<times> bytes"
  obtain ty code ident seq payload where x: "x = (ty, code, ident, seq, payload)" by (cases x)
  assume "(case x of (ty, code, ident, seq, payload) \<Rightarrow> length payload \<le> 65527)"
  then show "\<exists>d. icmp_parse (case x of (ty, code, ident, seq, payload) \<Rightarrow>
        icmp_serialize ty code ident seq payload) True = Inr d \<and>
      (icmp_type_to_u8 (icmp_icmp_type d), icmp_code d, icmp_identifier d,
        icmp_sequence_number d, icmp_payload d) = x"
    using icmp_parse_serialize [of payload ty code ident seq]
    by (auto simp: x icmp_type.enc_dec)
qed

text \<open>An echo request is answered correctly: for every request that parses, of any payload
  that fits in a datagram, the reply parses with a verified checksum as an echo reply with code 0
  and the identifier, sequence number and payload of the request.\<close>
theorem echo_reply_answers:
  assumes "icmp_parse data chk = Inr req" and "length data \<le> 65535"
  shows "\<exists>csum. icmp_parse (build_echo_reply req) True =
    Inr (req\<lparr> icmp_icmp_type := IcmpEchoReply, icmp_code := 0, icmp_checksum := csum \<rparr>)"
proof -
  have "length (icmp_payload req) \<le> 65527"
    using assms by (auto simp: icmp_parse_def ICMP_HEADER_LEN_def split: if_splits)
  from icmp_parse_serialize [OF this, of ICMP_TYPE_ECHO_REPLY 0 "icmp_identifier req"
      "icmp_sequence_number req"]
  show ?thesis
    by (cases req) (auto simp: build_echo_reply_def icmp_type_from_u8_def)
qed

theorem echo_reply_answers_witness:
  "\<exists>csum. icmp_parse (build_echo_reply (projr (icmp_parse [8, 0, 0, 0, 1, 2, 3, 4, 65] False))) True =
     Inr ((projr (icmp_parse [8, 0, 0, 0, 1, 2, 3, 4, 65] False))
       \<lparr> icmp_icmp_type := IcmpEchoReply, icmp_code := 0, icmp_checksum := csum \<rparr>)"
  by (rule echo_reply_answers [of "[8, 0, 0, 0, 1, 2, 3, 4, 65]" False])
     (simp_all add: icmp_parse_def ICMP_HEADER_LEN_def)

section \<open>Error messages\<close>

lemma low_nibble: "unat (x AND 0x0F :: u8) \<le> 15"
  using word_and_le1 [of x "0x0F"] by (simp add: word_le_nat_alt)

lemma quote_len_bounds: "ipv4_error_quote_len d \<le> length d" "ipv4_error_quote_len d \<le> 68"
proof -
  show "ipv4_error_quote_len d \<le> length d"
    by (simp add: ipv4_error_quote_len_def Let_def split: list.split)
  show "ipv4_error_quote_len d \<le> 68"
  proof (cases d)
    case (Cons a rest)
    show ?thesis
      using low_nibble [of a] unfolding Cons ipv4_error_quote_len_def Let_def list.case
      by (auto simp: min_def)
  qed (simp add: ipv4_error_quote_len_def)
qed

lemma quote_len_ipv4:
  assumes "20 \<le> length d" "drop_bit 4 (d ! 0) = 4" "5 \<le> d ! 0 AND 0x0F" "ipv4_hlen d \<le> length d"
  shows "ipv4_error_quote_len d = min (length d) (ipv4_hlen d + 8)"
  using assms by (cases d) (auto simp: ipv4_error_quote_len_def Let_def ipv4_hlen_def word_le_nat_alt)

lemma quote_len_parsed:
  assumes "ipv4_parse d chk = Inr p"
  shows "ipv4_error_quote_len d = min (length d) (ip_header_len_bytes (ipp_header p) + 8)"
proof -
  have ok: "ipv4_acceptable d chk" and p: "p = ipv4_fields d"
    using assms by (auto simp: ipv4_parse_Inr_iff)
  have "ipv4_error_quote_len d = min (length d) (ipv4_hlen d + 8)"
    using ipv4_hlen_bounds [OF ok] ok by (intro quote_len_ipv4) (auto simp: ipv4_acceptable_def)
  then show ?thesis
    by (simp add: p ipv4_fields_def ip_header_len_bytes_def ipv4_hlen_def)
qed

lemma parameter_problem_parse:
  "\<exists>csum. icmp_parse (build_parameter_problem ptr d) True =
    Inr \<lparr> icmp_icmp_type = IcmpParameterProblem, icmp_code = 0, icmp_checksum = csum,
          icmp_identifier = u16_from_be ptr 0, icmp_sequence_number = 0,
          icmp_payload = take (ipv4_error_quote_len d) d \<rparr>"
proof -
  have "length (take (ipv4_error_quote_len d) d) \<le> 65527"
    using quote_len_bounds [of d] by simp
  from icmp_parse_sealed [OF refl this, of ICMP_TYPE_PARAMETER_PROBLEM 0 ptr 0 0 0]
  show ?thesis
    by (simp add: build_parameter_problem_def Let_def icmp_type_from_u8_def icmp_type_defs
        u16_from_be_def)
qed

text \<open>Each ICMP error the stack builds for an IPv4 datagram verifies its own checksum, has
  the right type and code, and quotes the whole IP header, options included, plus the first eight
  payload bytes.  In Parameter Problem the quote follows the 8-byte ICMP header; in Time Exceeded
  and Destination Unreachable four more bytes stand between header and quote, the last two of
  them holding the next-hop MTU when the code is 4.\<close>
theorem icmp_error_quotes:
  assumes "ipv4_parse d chk = Inr p"
    and quote_def: "quote = take (ip_header_len_bytes (ipp_header p) + 8) d"
  shows "(\<exists>q. icmp_parse (build_time_exceeded code d) True = Inr q \<and>
           icmp_icmp_type q = IcmpTimeExceeded \<and> icmp_code q = code \<and>
           icmp_payload q = [0, 0, 0, 0] @ quote) \<and>
         (\<exists>q. icmp_parse (build_destination_unreachable code mtu d) True = Inr q \<and>
           icmp_icmp_type q = IcmpDestinationUnreachable \<and> icmp_code q = code \<and>
           icmp_payload q = [0, 0] @ (if code = 4 then u16_to_be mtu else [0, 0]) @ quote) \<and>
         (\<exists>q. icmp_parse (build_parameter_problem ptr d) True = Inr q \<and>
           icmp_icmp_type q = IcmpParameterProblem \<and> icmp_code q = 0 \<and>
           build_parameter_problem ptr d ! 4 = ptr \<and> icmp_payload q = quote)"
proof -
  have quote: "take (ipv4_error_quote_len d) d = quote"
    using quote_len_parsed [OF assms(1)] by (simp add: quote_def min_def)
  have len: "length quote \<le> 68"
    using quote_len_bounds [of d] quote by (metis length_take min.cobounded2 order_trans)
  have b4: "build_parameter_problem ptr d ! 4 = ptr"
    using icmp_buf_nth(4) by (simp add: build_parameter_problem_def Let_def)
  show ?thesis
    using parameter_problem_parse [of ptr d] len b4
      icmp_parse_serialize [of "[0, 0, 0, 0] @ quote" ICMP_TYPE_TIME_EXCEEDED code 0 0]
      icmp_parse_serialize [of "([0, 0] @ (if code = 4 then u16_to_be mtu else [0, 0])) @ quote"
        ICMP_TYPE_DEST_UNREACHABLE code 0 0]
    by (auto simp: build_time_exceeded_def build_destination_unreachable_def Let_def quote
        icmp_type_from_u8_def icmp_type_defs)
qed

theorem icmp_error_quotes_witness:
  "\<exists>q. icmp_parse (build_time_exceeded 0
      ([0x45, 0, 0, 28, 0, 7, 0x40, 0, 64, 17, 0, 0] @ replicate 16 0)) True = Inr q \<and>
     icmp_payload q = [0, 0, 0, 0] @
       [0x45, 0, 0, 28, 0, 7, 0x40, 0, 64, 17, 0, 0] @ replicate 16 0"
proof -
  let ?d = "[0x45, 0, 0, 28, 0, 7, 0x40, 0, 64, 17, 0, 0] @ replicate 16 0 :: bytes"
  have "ipv4_acceptable ?d False"
    by (simp add: ipv4_acceptable_def ipv4_hlen_def read_u16_def u16_from_be_def)
  then have parsed: "ipv4_parse ?d False = Inr (ipv4_fields ?d)" by (simp add: ipv4_parse_Inr_iff)
  have "ip_header_len_bytes (ipp_header (ipv4_fields ?d)) + 8 = length ?d"
    by (simp add: ip_header_len_bytes_def ipv4_fields_def)
  then have "?d = take (ip_header_len_bytes (ipp_header (ipv4_fields ?d)) + 8) ?d"
    by simp
  from icmp_error_quotes [OF parsed this, of 0, THEN conjunct1] show ?thesis by blast
qed

section \<open>The guarded Parameter Problem reply\<close>

text \<open>What the frame must satisfy before the stack answers it.\<close>

definition parameter_problem_eligible :: "MacAddress \<Rightarrow> Ipv4Address \<Rightarrow> EthernetFrame \<Rightarrow> bool" where
  "parameter_problem_eligible local_mac local_ip eth \<longleftrightarrow>
     (let d = eth_payload eth in
      eth_ethertype eth = EtIPv4 \<and> eth_dst_mac eth = local_mac \<and> isl (ipv4_parse d True) \<and>
      verify_checksum (take (ipv4_hlen d) d) \<and>
      read4 16 d = local_ip \<and> safe_ipv4_error_source (read4 12 d) \<and>
      d ! 9 \<noteq> IP_PROTO_ICMP \<and> read_u16 6 d AND 0x1FFF = 0)"

lemma parameter_problem_reply_cases:
  assumes "build_ipv4_parameter_problem_reply mac ip raw = None \<or>
           build_ipv4_parameter_problem_reply mac ip raw = Some (Some out)"
  obtains eth err ptr where "ethernet_parse raw = Inr eth"
    "parameter_problem_eligible mac ip eth"
    "ipv4_parse (eth_payload eth) True = Inl err" "parameter_problem_pointer err = Some ptr"
    "build_ipv4_parameter_problem_reply mac ip raw =
       map_option (\<lambda>b. Some (ethernet_serialize (eth_src_mac eth) mac ETHERTYPE_IPV4 b))
         (ipv4_serialize ip (read4 12 (eth_payload eth)) IP_PROTO_ICMP 0 64
            (build_parameter_problem ptr (eth_payload eth)))"
  using assms that unfolding build_ipv4_parameter_problem_reply_def Let_def
  by (auto simp: parameter_problem_eligible_def ipv4_hlen_def Let_def
      split: sum.splits if_splits option.splits)

lemma build_parameter_problem_length: "length (build_parameter_problem ptr d) \<le> 76"
proof -
  have "length (take (ipv4_error_quote_len d) d) \<le> 68"
    using quote_len_bounds [of d] by simp
  then show ?thesis
    by (simp add: build_parameter_problem_def Let_def)
qed

lemma parameter_problem_datagram:
  obtains b csum where
    "ipv4_serialize ip dst IP_PROTO_ICMP 0 64 (build_parameter_problem ptr d) = Some b"
    "ipv4_parse b True = Inr \<lparr> ipp_header =
          \<lparr> ip_version = 4, ip_ihl = 5, ip_dscp_ecn = 0, ip_total_length = of_nat (length b),
            ip_identification = 0, ip_dont_fragment = True, ip_more_fragments = False,
            ip_fragment_offset = 0, ip_ttl = 64, ip_protocol = IpIcmp,
            ip_checksum = csum, ip_src_ip = ip, ip_dst_ip = dst \<rparr>,
          ipp_payload = build_parameter_problem ptr d \<rparr>"
  using ipv4_parse_serialize [of "build_parameter_problem ptr d" ip dst IP_PROTO_ICMP 0 64]
    build_parameter_problem_length [of ptr d] that
  by (auto simp: ip_protocol_from_u8_def)

lemma parameter_problem_no_panic: "build_ipv4_parameter_problem_reply mac ip raw \<noteq> None"
proof
  assume none: "build_ipv4_parameter_problem_reply mac ip raw = None"
  show False
  proof (rule parameter_problem_reply_cases [of mac ip raw], rule disjI1, fact none)
    fix eth :: EthernetFrame and ptr
    assume "build_ipv4_parameter_problem_reply mac ip raw =
        map_option (\<lambda>b. Some (ethernet_serialize (eth_src_mac eth) mac ETHERTYPE_IPV4 b))
         (ipv4_serialize ip (read4 12 (eth_payload eth)) IP_PROTO_ICMP 0 64
            (build_parameter_problem ptr (eth_payload eth)))"
    with none show False
      by (auto intro: parameter_problem_datagram
          [of ip "read4 12 (eth_payload eth)" ptr "eth_payload eth"])
  qed
qed

lemma parameter_problem_sent:
  assumes sent: "build_ipv4_parameter_problem_reply mac ip raw = Some (Some out)"
  shows "\<exists>eth err ptr ipbytes p q. ethernet_parse raw = Inr eth \<and>
        parameter_problem_eligible mac ip eth \<and> ipv4_parse (eth_payload eth) True = Inl err \<and>
        parameter_problem_pointer err = Some ptr \<and>
        ethernet_parse out = Inr \<lparr> eth_dst_mac = eth_src_mac eth, eth_src_mac = mac,
          eth_ethertype = EtIPv4, eth_payload = ipbytes \<rparr> \<and>
        ipv4_parse ipbytes True = Inr p \<and> ip_src_ip (ipp_header p) = ip \<and>
        ip_dst_ip (ipp_header p) = read4 12 (eth_payload eth) \<and>
        ip_protocol (ipp_header p) = IpIcmp \<and>
        icmp_parse (ipp_payload p) True = Inr q \<and> icmp_icmp_type q = IcmpParameterProblem \<and>
        icmp_identifier q = u16_from_be ptr 0"
proof (rule parameter_problem_reply_cases [of mac ip raw out], rule disjI2, fact sent)
  fix eth :: EthernetFrame and err ptr
  let ?d = "eth_payload eth"
  assume frame: "ethernet_parse raw = Inr eth" "parameter_problem_eligible mac ip eth"
      "ipv4_parse ?d True = Inl err" "parameter_problem_pointer err = Some ptr"
    and built: "build_ipv4_parameter_problem_reply mac ip raw =
        map_option (\<lambda>b. Some (ethernet_serialize (eth_src_mac eth) mac ETHERTYPE_IPV4 b))
         (ipv4_serialize ip (read4 12 ?d) IP_PROTO_ICMP 0 64 (build_parameter_problem ptr ?d))"
  obtain b csum where
    b: "ipv4_serialize ip (read4 12 ?d) IP_PROTO_ICMP 0 64 (build_parameter_problem ptr ?d) = Some b"
    "ipv4_parse b True = Inr \<lparr> ipp_header =
          \<lparr> ip_version = 4, ip_ihl = 5, ip_dscp_ecn = 0, ip_total_length = of_nat (length b),
            ip_identification = 0, ip_dont_fragment = True, ip_more_fragments = False,
            ip_fragment_offset = 0, ip_ttl = 64, ip_protocol = IpIcmp,
            ip_checksum = csum, ip_src_ip = ip, ip_dst_ip = read4 12 ?d \<rparr>,
          ipp_payload = build_parameter_problem ptr ?d \<rparr>"
    by (rule parameter_problem_datagram)
  have "ethernet_parse out = Inr \<lparr> eth_dst_mac = eth_src_mac eth, eth_src_mac = mac,
          eth_ethertype = EtIPv4, eth_payload = b \<rparr>"
    using built sent b(1) by (simp add: ethernet_parse_serialize ethertype_from_u16_def)
  with frame b(2) parameter_problem_parse [of ptr ?d] show ?thesis
    by (metis (no_types, lifting) Ipv4Header.select_convs Ipv4Packet.select_convs
        IcmpPacket.select_convs)
qed

text \<open>C27: the Parameter Problem generator never panics, whatever frame arrives, and answers only
  an eligible one: addressed to this host at both layers, rejected by the IPv4 parser, with a
  verified header checksum, from a source that is not unspecified, broadcast, multicast or
  loopback, not ICMP, and a first fragment.  What it then sends goes back to the sender's MAC and
  IP address and parses, with every checksum verified, as a Parameter Problem whose pointer
  names the offending header byte.\<close>
theorem parameter_problem_reply_guarded:
  "build_ipv4_parameter_problem_reply mac ip raw \<noteq> None \<and>
   (build_ipv4_parameter_problem_reply mac ip raw = Some (Some out) \<longrightarrow>
     (\<exists>eth err ptr ipbytes p q. ethernet_parse raw = Inr eth \<and>
        parameter_problem_eligible mac ip eth \<and> ipv4_parse (eth_payload eth) True = Inl err \<and>
        parameter_problem_pointer err = Some ptr \<and>
        ethernet_parse out = Inr \<lparr> eth_dst_mac = eth_src_mac eth, eth_src_mac = mac,
          eth_ethertype = EtIPv4, eth_payload = ipbytes \<rparr> \<and>
        ipv4_parse ipbytes True = Inr p \<and> ip_src_ip (ipp_header p) = ip \<and>
        ip_dst_ip (ipp_header p) = read4 12 (eth_payload eth) \<and>
        ip_protocol (ipp_header p) = IpIcmp \<and>
        icmp_parse (ipp_payload p) True = Inr q \<and> icmp_icmp_type q = IcmpParameterProblem \<and>
        icmp_identifier q = u16_from_be ptr 0))"
  using parameter_problem_no_panic parameter_problem_sent by blast

text \<open>A frame whose IPv4 header has the reserved flag set, from 10.0.0.2 to 10.0.0.1.\<close>

definition reserved_flag_frame :: bytes where
  "reserved_flag_frame = [2, 0, 0, 0, 0, 1, 2, 0, 0, 0, 0, 2, 8, 0,
     0x45, 0, 0, 0x1C, 0x12, 0x34, 0x80, 0, 0x40, 0x11, 0xD4, 0x9A, 10, 0, 0, 2, 10, 0, 0, 1,
     1, 2, 3, 4, 5, 6, 7, 8]"

lemma reserved_flag_frame_parse:
  "ethernet_parse reserved_flag_frame = Inr \<lparr> eth_dst_mac = O6 2 0 0 0 0 1,
     eth_src_mac = O6 2 0 0 0 0 2, eth_ethertype = EtIPv4,
     eth_payload = [0x45, 0, 0, 0x1C, 0x12, 0x34, 0x80, 0, 0x40, 0x11, 0xD4, 0x9A, 10, 0, 0, 2,
       10, 0, 0, 1, 1, 2, 3, 4, 5, 6, 7, 8] \<rparr>"
  by (simp add: reserved_flag_frame_def ethernet_parse_def ETHER_HEADER_LEN_def read6_def
      read_u16_def u16_from_be_def ethertype_from_u16_def ethertype_defs)

lemma reserved_flag_reply:
  "\<exists>out. build_ipv4_parameter_problem_reply (O6 2 0 0 0 0 1) (O4 10 0 0 1) reserved_flag_frame =
     Some (Some out)"
proof -
  let ?d = "[0x45, 0, 0, 0x1C, 0x12, 0x34, 0x80, 0, 0x40, 0x11, 0xD4, 0x9A, 10, 0, 0, 2,
       10, 0, 0, 1, 1, 2, 3, 4, 5, 6, 7, 8] :: bytes"
  have err: "ipv4_parse ?d True = Inl IpReservedFragmentFlagSet"
    by (simp add: ipv4_parse_def IPV4_MIN_HEADER_LEN_def read_u16_def u16_from_be_def Let_def)
  have chk: "verify_checksum (take 20 ?d)"
    by (simp add: verify_checksum_dvd)
  obtain b where "ipv4_serialize (O4 10 0 0 1) (O4 10 0 0 2) IP_PROTO_ICMP 0 64
      (build_parameter_problem 6 ?d) = Some b"
    by (rule parameter_problem_datagram)
  then show ?thesis
    unfolding build_ipv4_parameter_problem_reply_def reserved_flag_frame_parse
    using err chk
    by (simp add: Let_def read4_def read_u16_def u16_from_be_def safe_ipv4_error_source_def
        ip_is_unspecified_def ip_is_broadcast_def ip_proto_defs del: take_Cons_numeral)
qed

theorem parameter_problem_reply_guarded_witness:
  "\<exists>out eth. build_ipv4_parameter_problem_reply (O6 2 0 0 0 0 1) (O4 10 0 0 1) reserved_flag_frame =
     Some (Some out) \<and> ethernet_parse reserved_flag_frame = Inr eth \<and>
     parameter_problem_eligible (O6 2 0 0 0 0 1) (O4 10 0 0 1) eth"
proof -
  obtain out where sent: "build_ipv4_parameter_problem_reply (O6 2 0 0 0 0 1) (O4 10 0 0 1)
      reserved_flag_frame = Some (Some out)"
    using reserved_flag_reply by blast
  from parameter_problem_reply_guarded [THEN conjunct2, rule_format, OF this] sent
  show ?thesis by blast
qed

end
