(* ===== verification/Fragment.thy ===== *)
theory Fragment
  imports Ipv4 "HOL-Library.Multiset"
begin

unbundle bit_operations_syntax

text \<open>
  IPv4 fragmentation and reassembly (\<open>fragment.rs\<close>).  The reassembly buffer is a hash map from
  fragment keys to the entries received so far, with byte accounting, a use counter for eviction
  and a time stamp for expiry; \<open>Instant::now()\<close> is an argument, in nanoseconds since some origin,
  and \<open>saturating_duration_since\<close> is subtraction on \<^typ>\<open>nat\<close>.  The two eviction loops of
  \<open>make_room_for\<close> are recursive functions that terminate because every eviction removes a key.
\<close>

section \<open>The reassembly buffer\<close>

definition MAX_REASSEMBLY_DATAGRAMS :: nat where "MAX_REASSEMBLY_DATAGRAMS = 1024"
definition MAX_REASSEMBLY_BYTES :: nat where "MAX_REASSEMBLY_BYTES = 4 * 1024 * 1024"
definition REASSEMBLY_TIMEOUT :: nat where "REASSEMBLY_TIMEOUT = 60 * 1000000000"

record FragmentKey =
  fk_src_ip :: Ipv4Address
  fk_dst_ip :: Ipv4Address
  fk_protocol :: u8
  fk_identification :: u16

record FragmentEntry =
  fe_offset :: nat
  fe_data :: bytes
  fe_more_fragments :: bool

record FragmentSet =
  fs_entries :: "FragmentEntry list"
  fs_last_used :: u64
  fs_updated_at :: nat

record IpReassemblyBuffer =
  rb_buffers :: "(FragmentKey, FragmentSet) hash_map"
  rb_buffered_bytes :: nat
  rb_sequence :: u64

definition reassembly_new :: IpReassemblyBuffer where
  "reassembly_new = \<lparr> rb_buffers = [], rb_buffered_bytes = 0, rb_sequence = 0 \<rparr>"

definition next_sequence :: "IpReassemblyBuffer \<Rightarrow> u64 \<times> IpReassemblyBuffer" where
  "next_sequence b =
     (let s = sat_add (rb_sequence b) 1 in (s, b\<lparr> rb_sequence := s \<rparr>))"

definition set_bytes :: "FragmentSet \<Rightarrow> nat" where
  "set_bytes s = sum_list (map (\<lambda>entry. length (fe_data entry)) (fs_entries s))"

definition remove_buffer :: "FragmentKey \<Rightarrow> IpReassemblyBuffer \<Rightarrow> IpReassemblyBuffer" where
  "remove_buffer key b =
     (case hm_get (rb_buffers b) key of
        Some s \<Rightarrow> b\<lparr> rb_buffers := hm_remove key (rb_buffers b),
                     rb_buffered_bytes := rb_buffered_bytes b - set_bytes s \<rparr>
      | None \<Rightarrow> b)"

definition expire_stale_at :: "nat \<Rightarrow> IpReassemblyBuffer \<Rightarrow> nat \<times> IpReassemblyBuffer" where
  "expire_stale_at now b =
     (let expired = map fst (filter (\<lambda>(key, s). now - fs_updated_at s \<ge> REASSEMBLY_TIMEOUT)
                                (rb_buffers b))
      in (length expired, fold remove_buffer expired b))"

definition evict_oldest_except ::
  "FragmentKey option \<Rightarrow> IpReassemblyBuffer \<Rightarrow> bool \<times> IpReassemblyBuffer" where
  "evict_oldest_except protected b =
     (case filter (\<lambda>(key, s). protected \<noteq> Some key) (rb_buffers b) of
        [] \<Rightarrow> (False, b)
      | c # cs \<Rightarrow>
          (True, remove_buffer (fst (arg_min_list (\<lambda>(key, s). fs_last_used s) (c # cs))) b))"

lemma length_remove_less: "k \<in> fst ` set m \<Longrightarrow> length (hm_remove k m) < length m"
proof -
  assume "k \<in> fst ` set m"
  then obtain x where "x \<in> set m" "fst x = k" by auto
  then show ?thesis
    by (auto simp: AList.delete_eq intro!: length_filter_less [of x])
qed

lemma remove_buffer_buffers: "rb_buffers (remove_buffer key b) = hm_remove key (rb_buffers b)"
  by (auto simp: remove_buffer_def delete_idem map_of_eq_None_iff split: option.splits)

lemma evict_choice:
  assumes "evict_oldest_except p b = (True, b')"
  obtains key where "key \<in> fst ` set (rb_buffers b)" "p \<noteq> Some key" "b' = remove_buffer key b"
proof -
  let ?cand = "filter (\<lambda>(key, s). p \<noteq> Some key) (rb_buffers b)"
  have ne: "?cand \<noteq> []" and b': "b' = remove_buffer (fst (arg_min_list (\<lambda>(key, s). fs_last_used s) ?cand)) b"
    using assms by (auto simp: evict_oldest_except_def split: list.splits)
  have "arg_min_list (\<lambda>(key, s). fs_last_used s) ?cand \<in> set ?cand"
    using ne by (rule arg_min_list_in)
  then show ?thesis using that b' by (auto simp: split_beta)
qed

lemma evict_shrinks:
  "evict_oldest_except p b = (True, b') \<Longrightarrow> length (rb_buffers b') < length (rb_buffers b)"
  by (elim evict_choice) (simp add: remove_buffer_buffers length_remove_less)

function make_datagram_room :: "IpReassemblyBuffer \<Rightarrow> bool \<times> IpReassemblyBuffer" where
  "make_datagram_room b =
     (if length (rb_buffers b) \<ge> MAX_REASSEMBLY_DATAGRAMS
      then case evict_oldest_except None b of
             (True, b') \<Rightarrow> make_datagram_room b'
           | (False, b') \<Rightarrow> (False, b')
      else (True, b))"
  by auto
termination
  by (relation "measure (\<lambda>b. length (rb_buffers b))") (auto dest: evict_shrinks [OF sym])

declare make_datagram_room.simps [simp del]

function make_byte_room :: "FragmentKey \<Rightarrow> nat \<Rightarrow> IpReassemblyBuffer \<Rightarrow> bool \<times> IpReassemblyBuffer" where
  "make_byte_room key additional_bytes b =
     (if rb_buffered_bytes b + additional_bytes > MAX_REASSEMBLY_BYTES
      then case evict_oldest_except (Some key) b of
             (True, b') \<Rightarrow> make_byte_room key additional_bytes b'
           | (False, b') \<Rightarrow> (False, remove_buffer key b')
      else (True, b))"
  by auto
termination
  by (relation "measure (\<lambda>(_, _, b). length (rb_buffers b))") (auto dest: evict_shrinks [OF sym])

declare make_byte_room.simps [simp del]

definition make_room_for :: "FragmentKey \<Rightarrow> nat \<Rightarrow> IpReassemblyBuffer \<Rightarrow> bool \<times> IpReassemblyBuffer" where
  "make_room_for key additional_bytes b =
     (if additional_bytes > MAX_REASSEMBLY_BYTES then (False, remove_buffer key b)
      else case (if hm_contains (rb_buffers b) key then (True, b) else make_datagram_room b) of
             (False, b') \<Rightarrow> (False, b')
           | (True, b') \<Rightarrow> make_byte_room key additional_bytes b')"

text \<open>The end of an entry, the overlap check against one entry, and the check against all of
  them.\<close>

definition fe_end :: "FragmentEntry \<Rightarrow> nat" where
  "fe_end entry = fe_offset entry + length (fe_data entry)"

definition overlap_conflict :: "nat \<Rightarrow> nat \<Rightarrow> bytes \<Rightarrow> FragmentEntry \<Rightarrow> bool" where
  "overlap_conflict offset_bytes fragment_end payload entry =
     (let overlap_start = max offset_bytes (fe_offset entry);
          overlap_end = min fragment_end (fe_end entry)
      in if overlap_start < overlap_end
         then let incoming_start = overlap_start - offset_bytes;
                  existing_start = overlap_start - fe_offset entry;
                  overlap_len = overlap_end - overlap_start
              in subslice incoming_start (incoming_start + overlap_len) payload \<noteq>
                 subslice existing_start (existing_start + overlap_len) (fe_data entry)
         else False)"

definition fragment_invalid :: "nat \<Rightarrow> nat \<Rightarrow> bool \<Rightarrow> bytes \<Rightarrow> FragmentEntry list \<Rightarrow> bool" where
  "fragment_invalid offset_bytes fragment_end more_fragments payload entries =
     (let existing_terminal_end =
            (case filter (\<lambda>entry. \<not> fe_more_fragments entry) entries of
               [] \<Rightarrow> None | entry # _ \<Rightarrow> Some (fe_end entry));
          beyond_terminal =
            (case existing_terminal_end of
               None \<Rightarrow> False
             | Some terminal_end \<Rightarrow> fragment_end > terminal_end \<or>
                 (\<not> more_fragments \<and> fragment_end \<noteq> terminal_end));
          truncates = (\<not> more_fragments \<and> list_ex (\<lambda>entry. fe_end entry > fragment_end) entries)
      in beyond_terminal \<or> truncates \<or>
         list_ex (overlap_conflict offset_bytes fragment_end payload) entries)"

fun assemble_scan :: "FragmentEntry list \<Rightarrow> nat \<Rightarrow> bool \<Rightarrow> nat \<Rightarrow> (nat \<times> bool \<times> nat) option" where
  "assemble_scan [] current_end has_last total_len = Some (current_end, has_last, total_len)"
| "assemble_scan (entry # rest) current_end has_last total_len =
     (if fe_offset entry > current_end then None
      else let e = fe_end entry;
               current_end = (if e > current_end then e else current_end)
           in if \<not> fe_more_fragments entry then assemble_scan rest current_end True e
              else assemble_scan rest current_end has_last total_len)"

definition overlay :: "FragmentEntry list \<Rightarrow> bytes \<Rightarrow> bytes" where
  "overlay entries full_payload =
     fold (\<lambda>entry p. write_at (fe_offset entry) (fe_data entry) p) entries full_payload"

definition assemble :: "FragmentEntry list \<Rightarrow> bytes option" where
  "assemble entries =
     (if entries \<noteq> [] \<and> fe_offset (hd entries) = 0
      then case assemble_scan entries 0 False 0 of
             None \<Rightarrow> None
           | Some (current_end, has_last, total_len) \<Rightarrow>
               if has_last \<and> current_end = total_len
               then Some (overlay entries (replicate total_len 0)) else None
      else None)"

definition set_entries :: "IpReassemblyBuffer \<Rightarrow> FragmentKey \<Rightarrow> FragmentEntry list" where
  "set_entries b key = (case hm_get (rb_buffers b) key of None \<Rightarrow> [] | Some s \<Rightarrow> fs_entries s)"

definition store_fragment ::
  "nat \<Rightarrow> FragmentKey \<Rightarrow> FragmentEntry \<Rightarrow> IpReassemblyBuffer \<Rightarrow> FragmentEntry list \<times> IpReassemblyBuffer" where
  "store_fragment now key entry b =
     (let (last_used, b) = next_sequence b;
          entries = sort_key fe_offset (set_entries b key @ [entry]);
          b = b\<lparr> rb_buffers := hm_insert key \<lparr> fs_entries = entries, fs_last_used = last_used,
                                             fs_updated_at = now \<rparr> (rb_buffers b),
                 rb_buffered_bytes := rb_buffered_bytes b + length (fe_data entry) \<rparr>
      in (entries, b))"

definition add_fragment ::
  "nat \<Rightarrow> Ipv4Address \<Rightarrow> Ipv4Address \<Rightarrow> u8 \<Rightarrow> u16 \<Rightarrow> u16 \<Rightarrow> bool \<Rightarrow> bytes \<Rightarrow> IpReassemblyBuffer \<Rightarrow>
   bytes option \<times> IpReassemblyBuffer" where
  "add_fragment now src_ip dst_ip protocol identification fragment_offset_blocks more_fragments
     payload b =
     (let b = snd (expire_stale_at now b);
          offset_bytes = unat fragment_offset_blocks * 8;
          fragment_end = offset_bytes + length payload
      in if fragment_end > IPV4_MAX_PAYLOAD_LEN then (None, b)
      else let key = \<lparr> fk_src_ip = src_ip, fk_dst_ip = dst_ip, fk_protocol = protocol,
                       fk_identification = identification \<rparr>
      in if payload = [] then (None, remove_buffer key b)
      else if more_fragments \<and> length payload mod 8 \<noteq> 0 then (None, remove_buffer key b)
      else if fragment_invalid offset_bytes fragment_end more_fragments payload (set_entries b key)
        then (None, remove_buffer key b)
      else case make_room_for key (length payload) b of
             (False, b) \<Rightarrow> (None, b)
           | (True, b) \<Rightarrow>
               let (entries, b) = store_fragment now key
                     \<lparr> fe_offset = offset_bytes, fe_data = payload,
                       fe_more_fragments = more_fragments \<rparr> b
               in case assemble entries of
                    None \<Rightarrow> (None, b)
                  | Some p \<Rightarrow> (Some p, remove_buffer key b))"

section \<open>Splitting\<close>

definition fragment_packet ::
  "Ipv4Address \<Rightarrow> Ipv4Address \<Rightarrow> u8 \<Rightarrow> u16 \<Rightarrow> u8 \<Rightarrow> u16 \<Rightarrow> bool \<Rightarrow> bytes \<Rightarrow> bytes" where
  "fragment_packet src_ip dst_ip protocol identification ttl frag_offset_blocks more_fragments chunk =
     (let total_length = of_nat (IPV4_MIN_HEADER_LEN + length chunk) :: u16;
          flags_offset = frag_offset_blocks AND 0x1FFF;
          flags_offset = (if more_fragments then flags_offset OR 0x2000 else flags_offset);
          buf = [0x45] @ [0x00] @ u16_to_be total_length @ u16_to_be identification @
                u16_to_be flags_offset @ [ttl] @ [protocol] @ [0x00, 0x00] @
                bytes4 src_ip @ bytes4 dst_ip;
          csum = compute_checksum (subslice 0 IPV4_MIN_HEADER_LEN buf)
      in write_at 10 (u16_to_be csum) buf @ chunk)"

function fragment_loop ::
  "(u16 \<Rightarrow> bool \<Rightarrow> bytes \<Rightarrow> 'a) \<Rightarrow> nat \<Rightarrow> bytes \<Rightarrow> nat \<Rightarrow> 'a list" where
  "fragment_loop emit max_payload payload offset =
     (if offset < length payload \<and> 0 < max_payload
      then let remaining = length payload - offset;
               chunk_len = min remaining max_payload;
               more_fragments = (offset + chunk_len < length payload);
               frag_offset_blocks = of_nat (offset div 8) :: u16
           in emit frag_offset_blocks more_fragments (subslice offset (offset + chunk_len) payload) #
              fragment_loop emit max_payload payload (offset + chunk_len)
      else [])"
  by pat_completeness auto
termination
  by (relation "measure (\<lambda>(_, _, payload, offset). length payload - offset)") auto

declare fragment_loop.simps [simp del]

definition fragment_payload ::
  "Ipv4Address \<Rightarrow> Ipv4Address \<Rightarrow> u8 \<Rightarrow> u16 \<Rightarrow> u8 \<Rightarrow> nat \<Rightarrow> bytes \<Rightarrow> bytes list" where
  "fragment_payload src_ip dst_ip protocol identification ttl mtu payload =
     (if mtu \<le> IPV4_MIN_HEADER_LEN then []
      else let max_payload = (mtu - IPV4_MIN_HEADER_LEN) div 8 * 8
           in if max_payload = 0 then []
              else fragment_loop (fragment_packet src_ip dst_ip protocol identification ttl)
                     max_payload payload 0)"

section \<open>Accounting\<close>

definition entry_ok :: "FragmentEntry \<Rightarrow> bool" where
  "entry_ok e \<longleftrightarrow> fe_data e \<noteq> [] \<and> fe_end e \<le> 65515 \<and> 8 dvd fe_offset e \<and>
     (fe_more_fragments e \<longrightarrow> 8 dvd length (fe_data e))"

text \<open>Two entries agree where they overlap, and nothing reaches beyond a final fragment.\<close>

definition entries_agree :: "FragmentEntry \<Rightarrow> FragmentEntry \<Rightarrow> bool" where
  "entries_agree e f \<longleftrightarrow>
     (\<forall>i. fe_offset e \<le> i \<and> i < fe_end e \<and> fe_offset f \<le> i \<and> i < fe_end f \<longrightarrow>
        fe_data e ! (i - fe_offset e) = fe_data f ! (i - fe_offset f)) \<and>
     (\<not> fe_more_fragments e \<longrightarrow> fe_end f \<le> fe_end e)"

definition entries_ok :: "FragmentEntry list \<Rightarrow> bool" where
  "entries_ok es \<longleftrightarrow> sorted (map fe_offset es) \<and> (\<forall>e \<in> set es. entry_ok e) \<and>
     (\<forall>e \<in> set es. \<forall>f \<in> set es. entries_agree e f)"

definition reassembly_inv :: "IpReassemblyBuffer \<Rightarrow> bool" where
  "reassembly_inv b \<longleftrightarrow> hm_wf (rb_buffers b) \<and>
     rb_buffered_bytes b = sum_list (map (\<lambda>(k, s). set_bytes s) (rb_buffers b)) \<and>
     rb_buffered_bytes b \<le> MAX_REASSEMBLY_BYTES \<and>
     length (rb_buffers b) \<le> MAX_REASSEMBLY_DATAGRAMS \<and>
     (\<forall>(k, s) \<in> set (rb_buffers b). fs_entries s \<noteq> [] \<and> entries_ok (fs_entries s))"

lemma sum_remove:
  "hm_wf m \<Longrightarrow> hm_get m k = Some s \<Longrightarrow>
   sum_list (map (\<lambda>(k, s). g s) m) = (g s :: nat) + sum_list (map (\<lambda>(k, s). g s) (hm_remove k m))"
proof (induction m)
  case (Cons x m)
  obtain k' s' where x: "x = (k', s')" by (cases x)
  show ?case
  proof (cases "k' = k")
    case True
    then have "k \<notin> fst ` set m" using Cons.prems x by (simp add: hm_wf_def)
    then have "hm_remove k m = m" by (simp add: delete_idem)
    then show ?thesis using True Cons.prems x by simp
  next
    case False
    then show ?thesis using Cons x by (simp add: hm_wf_def)
  qed
qed simp

lemma sum_insert:
  "hm_wf m \<Longrightarrow> sum_list (map (\<lambda>(k, s). g s) (hm_insert k s m)) =
     (g s :: nat) + sum_list (map (\<lambda>(k, s). g s) (hm_remove k m))"
proof -
  assume wf: "hm_wf m"
  have "hm_remove k (hm_insert k s m) = hm_remove k m"
    by (induction m) (auto simp: delete_idem)
  then show ?thesis
    using sum_remove [of "hm_insert k s m" k s g] wf by (simp add: hm_simps)
qed

lemma inv_remove_buffer [intro]: "reassembly_inv b \<Longrightarrow> reassembly_inv (remove_buffer key b)"
proof (cases "hm_get (rb_buffers b) key")
  case (Some s)
  assume inv: "reassembly_inv b"
  then have wf: "hm_wf (rb_buffers b)" by (simp add: reassembly_inv_def)
  note split = sum_remove [OF wf Some, of set_bytes]
  show ?thesis
    using inv split set_hm_remove [of key "rb_buffers b"] length_hm_remove [of key "rb_buffers b"]
    by (auto simp: reassembly_inv_def remove_buffer_def Some)
qed (simp add: remove_buffer_def)

lemma inv_fold_remove: "reassembly_inv b \<Longrightarrow> reassembly_inv (fold remove_buffer keys b)"
  by (induction keys arbitrary: b) auto

lemma inv_expire: "reassembly_inv b \<Longrightarrow> reassembly_inv (snd (expire_stale_at now b))"
  by (simp add: expire_stale_at_def Let_def inv_fold_remove)

lemma inv_evict: "reassembly_inv b \<Longrightarrow> reassembly_inv (snd (evict_oldest_except p b))"
  by (auto simp: evict_oldest_except_def split: list.splits)

lemma inv_datagram_room: "reassembly_inv b \<Longrightarrow> reassembly_inv (snd (make_datagram_room b))"
proof (induction b rule: make_datagram_room.induct)
  case (1 b)
  then show ?case
    using inv_evict [of b None]
    by (subst make_datagram_room.simps) (auto split: prod.splits bool.splits)
qed

lemma inv_byte_room: "reassembly_inv b \<Longrightarrow> reassembly_inv (snd (make_byte_room key n b))"
proof (induction key n b rule: make_byte_room.induct)
  case (1 key n b)
  then show ?case
    using inv_evict [of b "Some key"]
    by (subst make_byte_room.simps) (auto split: prod.splits bool.splits)
qed

text \<open>Expiry and eviction only ever drop whole datagrams.\<close>

definition shrunk :: "IpReassemblyBuffer \<Rightarrow> IpReassemblyBuffer \<Rightarrow> bool" where
  "shrunk b b' \<longleftrightarrow>
     (\<forall>k. hm_get (rb_buffers b') k = None \<or> hm_get (rb_buffers b') k = hm_get (rb_buffers b) k) \<and>
     rb_buffered_bytes b' \<le> rb_buffered_bytes b \<and> length (rb_buffers b') \<le> length (rb_buffers b)"

lemma shrunk_refl [simp]: "shrunk b b"
  by (simp add: shrunk_def)

lemma shrunk_trans [trans]: "shrunk a b \<Longrightarrow> shrunk b c \<Longrightarrow> shrunk a c"
  by (fastforce simp: shrunk_def)

lemma hm_get_remove_buffer:
  "hm_get (rb_buffers (remove_buffer key b)) k = (if k = key then None else hm_get (rb_buffers b) k)"
  by (simp add: remove_buffer_buffers hm_simps)

lemma shrunk_remove [simp]: "shrunk b (remove_buffer key b)"
  using length_hm_remove [of key "rb_buffers b"]
  by (auto simp: shrunk_def remove_buffer_buffers hm_simps)
     (simp add: remove_buffer_def split: option.split)

lemma shrunk_fold: "shrunk b (fold remove_buffer keys b)"
  by (induction keys arbitrary: b) (auto intro: shrunk_trans [OF shrunk_remove])

lemma shrunk_expire: "shrunk b (snd (expire_stale_at now b))"
  by (simp add: expire_stale_at_def Let_def shrunk_fold)

lemma evict_shrunk:
  "evict_oldest_except p b = (r, b') \<Longrightarrow>
   shrunk b b' \<and> (\<forall>k. p = Some k \<longrightarrow> hm_get (rb_buffers b') k = hm_get (rb_buffers b) k)"
proof (cases r)
  case True
  assume "evict_oldest_except p b = (r, b')"
  then show ?thesis
    using True by (auto elim!: evict_choice simp: hm_get_remove_buffer split: if_splits)
next
  case False
  assume "evict_oldest_except p b = (r, b')"
  then show ?thesis using False by (auto simp: evict_oldest_except_def split: list.splits)
qed

lemma datagram_room:
  "make_datagram_room b = (r, b') \<Longrightarrow>
   shrunk b b' \<and> (r \<longrightarrow> length (rb_buffers b') < MAX_REASSEMBLY_DATAGRAMS)"
proof (induction b arbitrary: r b' rule: make_datagram_room.induct)
  case (1 b)
  show ?case
  proof (cases "length (rb_buffers b) \<ge> MAX_REASSEMBLY_DATAGRAMS")
    case True
    obtain ok c where ev: "evict_oldest_except None b = (ok, c)" by fastforce
    then have sh: "shrunk b c" using evict_shrunk by blast
    show ?thesis
    proof (cases ok)
      case True
      with 1 ev sh \<open>MAX_REASSEMBLY_DATAGRAMS \<le> length (rb_buffers b)\<close> show ?thesis
        by (subst (asm) (2) make_datagram_room.simps) (auto intro: shrunk_trans [OF sh])
    next
      case False
      with 1 ev sh \<open>MAX_REASSEMBLY_DATAGRAMS \<le> length (rb_buffers b)\<close> show ?thesis
        by (subst (asm) (2) make_datagram_room.simps) auto
    qed
  next
    case False
    with 1(2) show ?thesis by (subst (asm) make_datagram_room.simps) auto
  qed
qed

lemma byte_room:
  "make_byte_room key n b = (r, b') \<Longrightarrow>
   shrunk b b' \<and> (r \<longrightarrow> rb_buffered_bytes b' + n \<le> MAX_REASSEMBLY_BYTES \<and>
      hm_get (rb_buffers b') key = hm_get (rb_buffers b) key)"
proof (induction key n b arbitrary: r b' rule: make_byte_room.induct)
  case (1 key n b)
  show ?case
  proof (cases "rb_buffered_bytes b + n > MAX_REASSEMBLY_BYTES")
    case True
    obtain ok c where ev: "evict_oldest_except (Some key) b = (ok, c)" by fastforce
    then have sh: "shrunk b c" "hm_get (rb_buffers c) key = hm_get (rb_buffers b) key"
      using evict_shrunk by blast+
    show ?thesis
    proof (cases ok)
      case ok: True
      have "make_byte_room key n c = (r, b')"
        using 1(2) True ev ok by (subst (asm) make_byte_room.simps) simp
      from 1(1) [OF True ev [symmetric] _ this] ok have
        "shrunk c b'" "r \<longrightarrow> rb_buffered_bytes b' + n \<le> MAX_REASSEMBLY_BYTES \<and>
          hm_get (rb_buffers b') key = hm_get (rb_buffers c) key" by simp_all
      then show ?thesis using sh(2) shrunk_trans [OF sh(1)] by auto
    next
      case False
      then have "r = False" "b' = remove_buffer key c"
        using 1(2) True ev by (subst (asm) make_byte_room.simps, simp)+
      then show ?thesis using sh shrunk_trans [OF sh(1) shrunk_remove] by simp
    qed
  next
    case False
    with 1(2) show ?thesis by (subst (asm) make_byte_room.simps) auto
  qed
qed

lemma room:
  assumes "make_room_for key n b = (r, b')"
  shows "shrunk b b'"
    and "r \<Longrightarrow> rb_buffered_bytes b' + n \<le> MAX_REASSEMBLY_BYTES"
    and "r \<Longrightarrow> hm_get (rb_buffers b') key = hm_get (rb_buffers b) key"
    and "r \<Longrightarrow> hm_get (rb_buffers b) key = None \<Longrightarrow> length (rb_buffers b') < MAX_REASSEMBLY_DATAGRAMS"
proof -
  let ?first = "if hm_contains (rb_buffers b) key then (True, b) else make_datagram_room b"
  obtain ok c where first: "?first = (ok, c)" by fastforce
  then have c: "shrunk b c"
    "ok \<Longrightarrow> hm_get (rb_buffers b) key = None \<Longrightarrow> length (rb_buffers c) < MAX_REASSEMBLY_DATAGRAMS"
    "hm_get (rb_buffers c) key = hm_get (rb_buffers b) key"
    using datagram_room [of b ok c] by (auto simp: hm_contains_def shrunk_def split: if_splits)
  have second: "n > MAX_REASSEMBLY_BYTES \<and> r = False \<and> b' = remove_buffer key b \<or>
      ok = False \<and> r = False \<and> b' = c \<or> ok \<and> make_byte_room key n c = (r, b')"
    using assms first by (auto simp: make_room_for_def split: if_splits bool.splits)
  show "shrunk b b'"
    using second c(1) byte_room [of key n c r b'] by (auto intro: shrunk_trans [OF c(1)])
  show "r \<Longrightarrow> rb_buffered_bytes b' + n \<le> MAX_REASSEMBLY_BYTES"
    using second byte_room [of key n c r b'] by auto
  show "r \<Longrightarrow> hm_get (rb_buffers b') key = hm_get (rb_buffers b) key"
    using second c(3) byte_room [of key n c r b'] by auto
  show "length (rb_buffers b') < MAX_REASSEMBLY_DATAGRAMS" if "r" "hm_get (rb_buffers b) key = None"
    using second c(2) that byte_room [of key n c r b'] by (fastforce simp: shrunk_def)
qed

lemma inv_room: "reassembly_inv b \<Longrightarrow> make_room_for key n b = (r, b') \<Longrightarrow> reassembly_inv b'"
  using inv_datagram_room [of b] inv_byte_room
  by (auto simp: make_room_for_def split: if_splits prod.splits bool.splits)
     (metis snd_conv)+

section \<open>What one fragment does\<close>

abbreviation frag_key :: "Ipv4Address \<Rightarrow> Ipv4Address \<Rightarrow> u8 \<Rightarrow> u16 \<Rightarrow> FragmentKey" where
  "frag_key src dst proto ident \<equiv> \<lparr> fk_src_ip = src, fk_dst_ip = dst, fk_protocol = proto,
     fk_identification = ident \<rparr>"

abbreviation frag_entry :: "u16 \<Rightarrow> bool \<Rightarrow> bytes \<Rightarrow> FragmentEntry" where
  "frag_entry blocks mf payload \<equiv> \<lparr> fe_offset = unat blocks * 8, fe_data = payload,
     fe_more_fragments = mf \<rparr>"

definition fragment_compatible :: "FragmentEntry \<Rightarrow> FragmentEntry list \<Rightarrow> bool" where
  "fragment_compatible e es \<longleftrightarrow>
     \<not> fragment_invalid (fe_offset e) (fe_end e) (fe_more_fragments e) (fe_data e) es"

lemma set_entries_shrunk: "shrunk b b' \<Longrightarrow> set (set_entries b' k) \<subseteq> set (set_entries b k)"
  by (auto simp: set_entries_def shrunk_def split: option.splits) (metis option.distinct(1) option.inject)

lemma set_entries_cong:
  "hm_get (rb_buffers b') k = hm_get (rb_buffers b) k \<Longrightarrow> set_entries b' k = set_entries b k"
  by (simp add: set_entries_def)

lemma store_fragment_simps:
  assumes "store_fragment now key e b = (entries, b')"
  shows "entries = sort_key fe_offset (set_entries b key @ [e])"
    "hm_get (rb_buffers b') k = (if k = key then Some \<lparr> fs_entries = entries,
       fs_last_used = sat_add (rb_sequence b) 1, fs_updated_at = now \<rparr> else hm_get (rb_buffers b) k)"
    "rb_buffered_bytes b' = rb_buffered_bytes b + length (fe_data e)"
    "rb_buffers b' = hm_insert key \<lparr> fs_entries = entries,
       fs_last_used = sat_add (rb_sequence b) 1, fs_updated_at = now \<rparr> (rb_buffers b)"
  using assms by (auto simp: store_fragment_def next_sequence_def Let_def set_entries_def hm_simps)

lemma add_fragment_eval:
  assumes key: "key = frag_key src dst proto ident" and e: "e = frag_entry blocks mf payload"
    and b0: "b0 = snd (expire_stale_at now b)"
  shows "add_fragment now src dst proto ident blocks mf payload b =
    (if fe_end e > 65515 then (None, b0)
     else if payload = [] \<or> (mf \<and> length payload mod 8 \<noteq> 0) \<or>
          \<not> fragment_compatible e (set_entries b0 key) then (None, remove_buffer key b0)
     else case make_room_for key (length payload) b0 of
            (False, b1) \<Rightarrow> (None, b1)
          | (True, b1) \<Rightarrow>
              let (entries, b2) = store_fragment now key e b1
              in case assemble entries of None \<Rightarrow> (None, b2) | Some p \<Rightarrow> (Some p, remove_buffer key b2))"
  unfolding add_fragment_def Let_def b0 [symmetric] key e
  by (simp add: fragment_compatible_def fe_end_def IPV4_MAX_PAYLOAD_LEN_def
      IPV4_MIN_HEADER_LEN_def)

lemma add_fragment_cases:
  assumes "add_fragment now src dst proto ident blocks mf payload b = (r, b')"
    and key: "key = frag_key src dst proto ident" and e: "e = frag_entry blocks mf payload"
  obtains (rejected) "r = None" "shrunk b b'" "reassembly_inv b \<Longrightarrow> reassembly_inv b'"
  | (stored) b1 entries b2 where "shrunk b b1" "reassembly_inv b \<Longrightarrow> reassembly_inv b1"
      "entry_ok e" "fragment_compatible e (set_entries b1 key)"
      "rb_buffered_bytes b1 + length payload \<le> MAX_REASSEMBLY_BYTES"
      "hm_get (rb_buffers b1) key = None \<Longrightarrow> length (rb_buffers b1) < MAX_REASSEMBLY_DATAGRAMS"
      "store_fragment now key e b1 = (entries, b2)" "r = assemble entries"
      "b' = (if r = None then b2 else remove_buffer key b2)"
proof -
  define b0 where "b0 = snd (expire_stale_at now b)"
  have b0: "shrunk b b0" "reassembly_inv b \<Longrightarrow> reassembly_inv b0"
    by (simp_all add: b0_def shrunk_expire inv_expire)
  have drop: "shrunk b (remove_buffer key b0)"
    "reassembly_inv b \<Longrightarrow> reassembly_inv (remove_buffer key b0)"
    using b0 shrunk_trans [OF b0(1) shrunk_remove] by auto
  note eval = add_fragment_eval [OF key e b0_def]
  obtain ok b1 where req: "make_room_for key (length payload) b0 = (ok, b1)" by fastforce
  note room_facts = room [OF req]
  have b1: "shrunk b b1" "reassembly_inv b \<Longrightarrow> reassembly_inv b1"
    using shrunk_trans [OF b0(1) room_facts(1)] inv_room [OF b0(2) req] by auto
  show thesis
  proof (cases "fe_end e > 65515 \<or> payload = [] \<or> (mf \<and> length payload mod 8 \<noteq> 0) \<or>
      \<not> fragment_compatible e (set_entries b0 key) \<or> \<not> ok")
    case True
    then show thesis
      using assms(1) eval b0 b1 drop req rejected by (auto split: if_splits)
  next
    case False
    then have ok: ok by simp
    obtain entries b2 where st: "store_fragment now key e b1 = (entries, b2)" by fastforce
    have same: "set_entries b1 key = set_entries b0 key"
      using room_facts(3) [OF ok] by (rule set_entries_cong)
    have res: "r = assemble entries" "b' = (if r = None then b2 else remove_buffer key b2)"
      using assms(1) eval False req st by (auto split: option.splits)
    show thesis
      using False same ok room_facts b1 st res
      by (intro stored) (auto simp: entry_ok_def e dvd_eq_mod_eq_0)
  qed
qed

section \<open>Consistency of the stored fragments\<close>

lemma subslice_eq_iff:
  assumes "a + n \<le> length xs" "c + n \<le> length ys"
  shows "subslice a (a + n) xs = subslice c (c + n) ys \<longleftrightarrow> (\<forall>j < n. xs ! (a + j) = ys ! (c + j))"
  using assms by (auto simp: list_eq_iff_nth_eq nth_subslice)

lemma overlap_conflict_iff:
  "\<not> overlap_conflict (fe_offset e) (fe_end e) (fe_data e) f \<longleftrightarrow>
   (\<forall>i. fe_offset e \<le> i \<and> i < fe_end e \<and> fe_offset f \<le> i \<and> i < fe_end f \<longrightarrow>
        fe_data e ! (i - fe_offset e) = fe_data f ! (i - fe_offset f))"
  (is "?l \<longleftrightarrow> ?r")
proof -
  define lo where "lo = max (fe_offset e) (fe_offset f)"
  define hi where "hi = min (fe_end e) (fe_end f)"
  have range: "?r \<longleftrightarrow> (\<forall>i. lo \<le> i \<and> i < hi \<longrightarrow>
      fe_data e ! (i - fe_offset e) = fe_data f ! (i - fe_offset f))"
    by (auto simp: lo_def hi_def)
  show ?thesis
  proof (cases "lo < hi")
    case False
    then show ?thesis unfolding range by (auto simp: overlap_conflict_def Let_def lo_def hi_def)
  next
    case True
    define n where "n = hi - lo"
    have b: "lo - fe_offset e + n \<le> length (fe_data e)" "lo - fe_offset f + n \<le> length (fe_data f)"
      using True by (auto simp: n_def lo_def hi_def fe_end_def)
    have "?l \<longleftrightarrow> subslice (lo - fe_offset e) (lo - fe_offset e + n) (fe_data e) =
        subslice (lo - fe_offset f) (lo - fe_offset f + n) (fe_data f)"
      using True by (simp add: overlap_conflict_def Let_def lo_def hi_def n_def)
    also have "\<dots> \<longleftrightarrow> (\<forall>j < n. fe_data e ! (lo - fe_offset e + j) = fe_data f ! (lo - fe_offset f + j))"
      using b by (rule subslice_eq_iff)
    also have "\<dots> \<longleftrightarrow> (\<forall>i. lo \<le> i \<and> i < hi \<longrightarrow>
        fe_data e ! (i - fe_offset e) = fe_data f ! (i - fe_offset f))"
    proof (intro iffI allI impI)
      fix i assume agree: "\<forall>j < n. fe_data e ! (lo - fe_offset e + j) = fe_data f ! (lo - fe_offset f + j)"
        and i: "lo \<le> i \<and> i < hi"
      have "lo - fe_offset e + (i - lo) = i - fe_offset e" "lo - fe_offset f + (i - lo) = i - fe_offset f"
        using i by (auto simp: lo_def)
      then show "fe_data e ! (i - fe_offset e) = fe_data f ! (i - fe_offset f)"
        using agree i n_def by (metis diff_less_mono)
    next
      fix j assume agree: "\<forall>i. lo \<le> i \<and> i < hi \<longrightarrow>
          fe_data e ! (i - fe_offset e) = fe_data f ! (i - fe_offset f)" and j: "j < n"
      have "lo + j - fe_offset e = lo - fe_offset e + j" "lo + j - fe_offset f = lo - fe_offset f + j"
        by (auto simp: lo_def)
      then show "fe_data e ! (lo - fe_offset e + j) = fe_data f ! (lo - fe_offset f + j)"
        using agree [rule_format, of "lo + j"] j by (simp add: n_def)
    qed
    finally show ?thesis unfolding range .
  qed
qed

lemma entries_agree_iff:
  "entries_agree e f \<longleftrightarrow> \<not> overlap_conflict (fe_offset e) (fe_end e) (fe_data e) f \<and>
     (\<not> fe_more_fragments e \<longrightarrow> fe_end f \<le> fe_end e)"
  by (simp add: entries_agree_def overlap_conflict_iff)

lemma fragment_compatible_agree:
  assumes "fragment_compatible e es" "\<forall>e \<in> set es. \<forall>f \<in> set es. entries_agree e f"
  shows "\<forall>f \<in> set es. entries_agree e f \<and> entries_agree f e"
proof
  fix f assume f: "f \<in> set es"
  have no_conflict: "\<not> overlap_conflict (fe_offset e) (fe_end e) (fe_data e) f"
    using assms(1) f by (auto simp: fragment_compatible_def fragment_invalid_def Let_def list_ex_iff)
  then have sym: "\<not> overlap_conflict (fe_offset f) (fe_end f) (fe_data f) e"
    unfolding overlap_conflict_iff by metis
  have "fe_end f \<le> fe_end e" if "\<not> fe_more_fragments e"
    using assms(1) f that
    by (auto simp: fragment_compatible_def fragment_invalid_def Let_def list_ex_iff not_less)
  moreover have "fe_end e \<le> fe_end f" if last: "\<not> fe_more_fragments f"
  proof -
    obtain t ts where t: "filter (\<lambda>e. \<not> fe_more_fragments e) es = t # ts"
      using f last by (cases "filter (\<lambda>e. \<not> fe_more_fragments e) es") (auto simp: filter_empty_conv)
    then have "t \<in> set es" "\<not> fe_more_fragments t"
      by (metis (mono_tags, lifting) list.set_intros(1) mem_Collect_eq set_filter)+
    then have "fe_end f = fe_end t"
      using assms(2) f last by (auto simp: entries_agree_def intro: le_antisym)
    moreover have "fe_end e \<le> fe_end t"
      using assms(1) t by (auto simp: fragment_compatible_def fragment_invalid_def Let_def not_less)
    ultimately show ?thesis by simp
  qed
  ultimately show "entries_agree e f \<and> entries_agree f e"
    using no_conflict sym by (simp add: entries_agree_iff)
qed

lemma entries_ok_insert:
  assumes "entries_ok es" "entry_ok e" "fragment_compatible e es"
  shows "entries_ok (sort_key fe_offset (es @ [e]))"
proof -
  have "entries_agree e e" by (simp add: entries_agree_def)
  then show ?thesis
    using assms fragment_compatible_agree [of e es] by (auto simp: entries_ok_def)
qed

lemma entries_ok_set_entries: "reassembly_inv b \<Longrightarrow> entries_ok (set_entries b key)"
proof (cases "hm_get (rb_buffers b) key")
  case (Some s)
  assume "reassembly_inv b"
  then show ?thesis
    using map_of_SomeD [OF Some] by (fastforce simp: set_entries_def Some reassembly_inv_def)
qed (simp add: set_entries_def entries_ok_def)

lemma set_bytes_sort:
  "set_bytes \<lparr> fs_entries = sort_key fe_offset (es @ [e]), fs_last_used = u, fs_updated_at = t \<rparr> =
   sum_list (map (\<lambda>e. length (fe_data e)) es) + length (fe_data e)"
proof -
  have "mset (map (\<lambda>e. length (fe_data e)) (sort_key fe_offset (es @ [e]))) =
        mset (map (\<lambda>e. length (fe_data e)) (es @ [e]))"
    by simp
  then have "sum_list (map (\<lambda>e. length (fe_data e)) (sort_key fe_offset (es @ [e]))) =
        sum_list (map (\<lambda>e. length (fe_data e)) (es @ [e]))"
    by (metis sum_mset_sum_list)
  then show ?thesis by (simp add: set_bytes_def)
qed

lemma inv_store:
  assumes inv: "reassembly_inv b" and st: "store_fragment now key e b = (entries, b')"
    and e: "entry_ok e" "fragment_compatible e (set_entries b key)"
    and room: "rb_buffered_bytes b + length (fe_data e) \<le> MAX_REASSEMBLY_BYTES"
      "hm_get (rb_buffers b) key = None \<Longrightarrow> length (rb_buffers b) < MAX_REASSEMBLY_DATAGRAMS"
  shows "reassembly_inv b'"
proof -
  note st = store_fragment_simps [OF st]
  have wf: "hm_wf (rb_buffers b)" using inv by (simp add: reassembly_inv_def)
  have ok: "entries_ok entries" "entries \<noteq> []"
    unfolding st(1) using entries_ok_insert [OF entries_ok_set_entries [OF inv] e] by auto
      (metis length_sort length_append_singleton list.size(3) nat.distinct(1))
  have "sum_list (map (\<lambda>(k, s). set_bytes s) (rb_buffers b)) =
      sum_list (map (\<lambda>e. length (fe_data e)) (set_entries b key)) +
      sum_list (map (\<lambda>(k, s). set_bytes s) (hm_remove key (rb_buffers b)))"
  proof (cases "hm_get (rb_buffers b) key")
    case None
    then have "hm_remove key (rb_buffers b) = rb_buffers b"
      by (simp add: delete_idem map_of_eq_None_iff)
    then show ?thesis by (simp add: set_entries_def None)
  next
    case (Some s)
    from sum_remove [OF wf Some, of set_bytes] show ?thesis
      by (simp add: set_entries_def Some set_bytes_def)
  qed
  then have bytes: "rb_buffered_bytes b' = sum_list (map (\<lambda>(k, s). set_bytes s) (rb_buffers b'))"
    using inv wf by (simp add: reassembly_inv_def st(1,3,4) sum_insert set_bytes_sort)
  have len: "length (rb_buffers b') \<le> MAX_REASSEMBLY_DATAGRAMS"
    using inv room(2) by (auto simp: st(4) length_hm_insert reassembly_inv_def map_of_eq_None_iff)
  show ?thesis
    using inv wf bytes len ok room(1) set_hm_remove [of key "rb_buffers b"]
    unfolding reassembly_inv_def by (auto simp: st(4) set_hm_insert) (auto simp: st(3))
qed

lemma inv_add_fragment:
  assumes inv: "reassembly_inv b"
  shows "reassembly_inv (snd (add_fragment now src dst proto ident blocks mf payload b))"
proof -
  obtain r b' where add: "add_fragment now src dst proto ident blocks mf payload b = (r, b')"
    by fastforce
  from add refl refl show ?thesis
  proof (cases rule: add_fragment_cases)
    case rejected
    then show ?thesis using add inv by simp
  next
    case (stored b1 entries b2)
    then have "reassembly_inv b2"
      using inv_store [OF stored(2) stored(7)] inv by auto
    then show ?thesis using add stored by auto
  qed
qed

end
