(* ===== verification/Reassembly.thy ===== *)
theory Reassembly
  imports Fragment
begin

unbundle bit_operations_syntax

text \<open>
  Correctness of reassembly: the specification is a datagram of which every fragment is a slice.
  Soundness holds for any interleaving of fragments of any datagrams, with duplicates, overlaps,
  expiry and eviction; completeness for the output of \<open>fragment_payload\<close> in any order.
\<close>

section \<open>Specification\<close>

text \<open>An entry that holds the bytes of the datagram \<open>T\<close> at its place, and that is final only at
  the end of it.\<close>

definition slice_of :: "bytes \<Rightarrow> FragmentEntry \<Rightarrow> bool" where
  "slice_of T e \<longleftrightarrow> fe_end e \<le> length T \<and>
     (\<forall>j < length (fe_data e). fe_data e ! j = T ! (fe_offset e + j)) \<and>
     (\<not> fe_more_fragments e \<longrightarrow> fe_end e = length T)"

definition covers :: "FragmentEntry list \<Rightarrow> nat \<Rightarrow> bool" where
  "covers es i \<longleftrightarrow> (\<exists>e \<in> set es. fe_offset e \<le> i \<and> i < fe_end e)"

text \<open>Fragments as they arrive, each with its time, and the outcomes they give.\<close>

record frag_event =
  ev_now :: nat
  ev_key :: FragmentKey
  ev_blocks :: u16
  ev_more :: bool
  ev_payload :: bytes

abbreviation ev_entry :: "frag_event \<Rightarrow> FragmentEntry" where
  "ev_entry ev \<equiv> frag_entry (ev_blocks ev) (ev_more ev) (ev_payload ev)"

definition deliver_fragment :: "IpReassemblyBuffer \<Rightarrow> frag_event \<Rightarrow> bytes option \<times> IpReassemblyBuffer" where
  "deliver_fragment b ev =
     add_fragment (ev_now ev) (fk_src_ip (ev_key ev)) (fk_dst_ip (ev_key ev))
       (fk_protocol (ev_key ev)) (fk_identification (ev_key ev)) (ev_blocks ev) (ev_more ev)
       (ev_payload ev) b"

fun reassembly_run :: "IpReassemblyBuffer \<Rightarrow> frag_event list \<Rightarrow> (FragmentKey \<times> bytes option) list" where
  "reassembly_run b [] = []"
| "reassembly_run b (ev # evs) =
     (let (r, b') = deliver_fragment b ev in (ev_key ev, r) # reassembly_run b' evs)"

section \<open>Assembly\<close>

lemma assemble_scan_facts:
  "assemble_scan es c h t = Some (c', h', t') \<Longrightarrow>
   c \<le> c' \<and> (\<forall>e \<in> set es. fe_end e \<le> c') \<and> (\<forall>i < c'. c \<le> i \<longrightarrow> covers es i) \<and>
   (h' \<longrightarrow> h \<and> t' = t \<or> (\<exists>e \<in> set es. \<not> fe_more_fragments e \<and> t' = fe_end e))"
proof (induction es arbitrary: c h t)
  case (Cons e es)
  let ?c = "if fe_end e > c then fe_end e else c"
  have gap: "fe_offset e \<le> c" using Cons.prems by (auto split: if_splits)
  have step: "\<exists>h2 t2. assemble_scan es ?c h2 t2 = Some (c', h', t') \<and>
      (h2 \<longrightarrow> h \<and> t2 = t \<or> \<not> fe_more_fragments e \<and> t2 = fe_end e)"
    using Cons.prems by (auto simp: Let_def split: if_splits)
  then obtain h2 t2 where s: "assemble_scan es ?c h2 t2 = Some (c', h', t')"
    and ht: "h2 \<longrightarrow> h \<and> t2 = t \<or> \<not> fe_more_fragments e \<and> t2 = fe_end e" by blast
  note IH = Cons.IH [OF s]
  have "covers (e # es) i" if "i < c'" "c \<le> i" for i
  proof (cases "?c \<le> i")
    case True
    then show ?thesis using IH that by (auto simp: covers_def)
  next
    case False
    then have "i < fe_end e" using that by (simp split: if_splits)
    then show ?thesis using gap that by (auto simp: covers_def)
  qed
  moreover have "c \<le> c'" "fe_end e \<le> c'" using IH by (auto split: if_splits)
  ultimately show ?case using IH ht by auto
qed auto

lemma overlay_facts:
  "\<forall>e \<in> set es. slice_of T e \<Longrightarrow> length p = length T \<Longrightarrow>
   length (overlay es p) = length T \<and>
   (\<forall>i < length T. p ! i = T ! i \<or> covers es i \<longrightarrow> overlay es p ! i = T ! i)"
proof (induction es arbitrary: p)
  case (Cons e es)
  let ?q = "write_at (fe_offset e) (fe_data e) p"
  have e: "slice_of T e" and fit: "fe_offset e + length (fe_data e) \<le> length p"
    using Cons.prems by (auto simp: slice_of_def fe_end_def)
  have q: "length ?q = length T" using fit Cons.prems by simp
  have nth: "?q ! i = T ! i" if "p ! i = T ! i \<or> fe_offset e \<le> i \<and> i < fe_end e" for i
  proof (cases "fe_offset e \<le> i \<and> i < fe_end e")
    case True
    then have "i - fe_offset e < length (fe_data e)" by (auto simp: fe_end_def)
    then have "fe_data e ! (i - fe_offset e) = T ! (fe_offset e + (i - fe_offset e))"
      using e by (simp add: slice_of_def)
    then show ?thesis using True fit by (simp add: nth_write_at fe_end_def)
  next
    case False
    then show ?thesis using that fit by (auto simp: nth_write_at fe_end_def)
  qed
  have "overlay (e # es) p = overlay es ?q" by (simp add: overlay_def)
  moreover note Cons.IH [of ?q]
  ultimately show ?case
    using Cons.prems q nth by (auto simp: covers_def)
qed (auto simp: overlay_def covers_def)

text \<open>Assembling never writes outside the buffer it allocates.\<close>

lemma assemble_in_bounds:
  assumes "assemble_scan es 0 False 0 = Some (c, True, t)" and "c = t" and "e \<in> set es"
  shows "fe_offset e + length (fe_data e) \<le> t"
  using assemble_scan_facts [OF assms(1)] assms by (auto simp: fe_end_def)

lemma assemble_sound:
  assumes slices: "\<forall>e \<in> set es. slice_of T e" and p: "assemble es = Some p"
  shows "p = T" and "\<forall>i < length T. covers es i"
proof -
  obtain c t where scan: "assemble_scan es 0 False 0 = Some (c, True, t)" "c = t"
    and p: "p = overlay es (replicate t 0)"
    using p by (auto simp: assemble_def split: if_splits option.splits)
  note facts = assemble_scan_facts [OF scan(1)]
  obtain e where "e \<in> set es" "\<not> fe_more_fragments e" "t = fe_end e" using facts by auto
  then have t: "t = length T" using slices by (auto simp: slice_of_def)
  show cov: "\<forall>i < length T. covers es i" using facts scan(2) t by auto
  show "p = T"
    using overlay_facts [OF slices, of "replicate t 0"] cov t p by (auto intro: nth_equalityI)
qed

section \<open>Soundness\<close>

lemma slices_after:
  assumes add: "deliver_fragment b ev = (r, b')"
    and inv: "\<forall>e \<in> set (set_entries b k). slice_of T e"
    and ev: "ev_key ev = k \<longrightarrow> slice_of T (ev_entry ev)"
  shows "(\<forall>e \<in> set (set_entries b' k). slice_of T e) \<and>
         (ev_key ev = k \<longrightarrow> (\<forall>p. r = Some p \<longrightarrow> p = T))"
proof -
  have key: "ev_key ev = frag_key (fk_src_ip (ev_key ev)) (fk_dst_ip (ev_key ev))
      (fk_protocol (ev_key ev)) (fk_identification (ev_key ev))" by simp
  from add [unfolded deliver_fragment_def] key refl show ?thesis
  proof (cases rule: add_fragment_cases)
    case rejected
    then show ?thesis using set_entries_shrunk [of b b' k] inv by auto
  next
    case (stored b1 entries b2)
    note st = store_fragment_simps [OF stored(7)]
    have b1: "\<forall>e \<in> set (set_entries b1 k). slice_of T e"
      using set_entries_shrunk [OF stored(1), of k] inv by auto
    have own: "\<forall>e \<in> set entries. slice_of T e" if "ev_key ev = k"
      using that ev b1 by (auto simp: st(1))
    have "\<forall>e \<in> set (set_entries b2 k). slice_of T e"
      using own b1 by (cases "ev_key ev = k") (auto simp: set_entries_def st(2))
    moreover have "set (set_entries b' k) \<subseteq> set (set_entries b2 k)"
      using stored(9) set_entries_shrunk [OF shrunk_remove, of "ev_key ev" b2 k] by auto
    ultimately show ?thesis
      using own stored(8) assemble_sound [of entries T] by fastforce
  qed
qed

lemma run_sound:
  "\<lbrakk> \<forall>e \<in> set (set_entries b k). slice_of T e;
     \<forall>ev \<in> set evs. ev_key ev = k \<longrightarrow> slice_of T (ev_entry ev);
     (k, Some p) \<in> set (reassembly_run b evs) \<rbrakk> \<Longrightarrow> p = T"
proof (induction evs arbitrary: b)
  case (Cons ev evs)
  obtain r b' where d: "deliver_fragment b ev = (r, b')" by fastforce
  have "(\<forall>e \<in> set (set_entries b' k). slice_of T e) \<and>
      (ev_key ev = k \<longrightarrow> (\<forall>p. r = Some p \<longrightarrow> p = T))"
    by (rule slices_after [OF d]) (use Cons.prems in auto)
  then show ?case using Cons.IH [of b'] Cons.prems d by auto
qed simp

text \<open>C23: reassembly never delivers a wrong datagram: if every fragment that arrives under a key
  is a slice of one datagram, then whatever else arrives, in whatever order, with duplicates and
  overlaps, at whatever times and whatever is expired or evicted in between, a payload delivered
  for that key is that datagram.\<close>
theorem reassembly_never_wrong:
  assumes "\<forall>ev \<in> set evs. ev_key ev = k \<longrightarrow> slice_of T (ev_entry ev)"
    and "(k, Some p) \<in> set (reassembly_run reassembly_new evs)"
  shows "p = T"
  by (rule run_sound [OF _ assms]) (simp add: reassembly_new_def set_entries_def)

theorem reassembly_never_wrong_witness:
  "let k = frag_key (O4 10 0 0 1) (O4 10 0 0 2) 17 7;
       ev = (\<lambda>blocks mf d. \<lparr> ev_now = 0, ev_key = k, ev_blocks = blocks, ev_more = mf, ev_payload = d \<rparr>);
       run = reassembly_run reassembly_new [ev 1 False [9, 10], ev 0 True [1, 2, 3, 4, 5, 6, 7, 8]]
   in run = [(k, None), (k, Some [1, 2, 3, 4, 5, 6, 7, 8, 9, 10])]"
proof -
  let ?k = "frag_key (O4 10 0 0 1) (O4 10 0 0 2) 17 7"
  let ?e1 = "\<lparr> ev_now = 0, ev_key = ?k, ev_blocks = 1, ev_more = False, ev_payload = [9, 10] \<rparr>"
  let ?e2 = "\<lparr> ev_now = 0, ev_key = ?k, ev_blocks = 0, ev_more = True,
    ev_payload = [1, 2, 3, 4, 5, 6, 7, 8] \<rparr>"
  let ?T = "[1, 2, 3, 4, 5, 6, 7, 8, 9, 10] :: bytes"
  have slices: "\<forall>ev \<in> set [?e1, ?e2]. ev_key ev = ?k \<longrightarrow> slice_of ?T (ev_entry ev)"
    by (simp add: slice_of_def fe_end_def) (simp add: numeral_eq_Suc less_Suc_eq)
  obtain p where p: "reassembly_run reassembly_new [?e1, ?e2] = [(?k, None), (?k, Some p)]"
    by (simp add: deliver_fragment_def add_fragment_def expire_stale_at_def reassembly_new_def
      fragment_invalid_def set_entries_def make_room_for_def hm_contains_def make_datagram_room.simps
      make_byte_room.simps MAX_REASSEMBLY_DATAGRAMS_def MAX_REASSEMBLY_BYTES_def store_fragment_def
      next_sequence_def assemble_def IPV4_MAX_PAYLOAD_LEN_def IPV4_MIN_HEADER_LEN_def
      REASSEMBLY_TIMEOUT_def remove_buffer_def overlap_conflict_def fe_end_def Let_def)
  have "p = ?T"
    by (rule reassembly_never_wrong [OF slices], subst p) simp
  with p show ?thesis unfolding Let_def by simp
qed

section \<open>Bounded memory\<close>

interpretation reassembly: stepper "\<lambda>b ev. snd (deliver_fragment b ev)" reassembly_inv
  by unfold_locales (simp add: deliver_fragment_def inv_add_fragment)

text \<open>C25: whatever fragments an attacker sends, the reassembly buffer keeps its limits and its
  accounting: at most 1024 incomplete datagrams and 4 MiB of payload, the byte counter equals the
  sum of the stored payloads, and the entries of every datagram are sorted, non-empty, within
  the maximum datagram, equal where they overlap, and never beyond a final fragment.\<close>
theorem reassembly_bounded:
  "let b = foldl (\<lambda>b ev. snd (deliver_fragment b ev)) reassembly_new evs in
     length (rb_buffers b) \<le> 1024 \<and> rb_buffered_bytes b \<le> 4194304 \<and>
     rb_buffered_bytes b = sum_list (map (\<lambda>(k, s). set_bytes s) (rb_buffers b)) \<and>
     list_all (\<lambda>(k, s). entries_ok (fs_entries s)) (rb_buffers b)"
proof -
  have "reassembly_inv reassembly_new"
    by (simp add: reassembly_inv_def reassembly_new_def)
  from reassembly.run_inv [OF this, of evs] show ?thesis
    by (auto simp: reassembly_inv_def Let_def MAX_REASSEMBLY_DATAGRAMS_def
        MAX_REASSEMBLY_BYTES_def list_all_iff)
qed

section \<open>Fragments in any order\<close>

text \<open>The pieces a payload is split into: piece \<open>i\<close> starts at \<open>i * m\<close>.\<close>

definition piece_end :: "nat \<Rightarrow> nat \<Rightarrow> nat \<Rightarrow> nat" where
  "piece_end m len i = min len (i * m + m)"

definition piece :: "nat \<Rightarrow> bytes \<Rightarrow> nat \<Rightarrow> u16 \<times> bool \<times> bytes" where
  "piece m T i = (of_nat (i * m div 8), i * m + m < length T,
     subslice (i * m) (piece_end m (length T) i) T)"

definition piece_entry :: "nat \<Rightarrow> bytes \<Rightarrow> nat \<Rightarrow> FragmentEntry" where
  "piece_entry m T i = (case piece m T i of (blocks, mf, d) \<Rightarrow> frag_entry blocks mf d)"

definition piece_count :: "nat \<Rightarrow> nat \<Rightarrow> nat" where
  "piece_count m len = (len + m - 1) div m"

lemma piece_count_iff: "0 < m \<Longrightarrow> i < piece_count m len \<longleftrightarrow> i * m < len"
proof -
  assume m: "0 < m"
  have "i < piece_count m len \<longleftrightarrow> Suc i * m \<le> len + m - 1"
    unfolding piece_count_def using m less_eq_div_iff_mult_less_eq [of m "Suc i" "len + m - 1"]
    by (simp add: Suc_le_eq)
  also have "\<dots> \<longleftrightarrow> i * m < len" using m by auto
  finally show ?thesis .
qed

lemma fragment_loop_stop: "length T \<le> off \<Longrightarrow> fragment_loop emit m T off = []"
  by (simp add: fragment_loop.simps)

lemma fragment_loop_pieces:
  assumes m: "0 < m"
  shows "fragment_loop emit m T (j * m) =
    map (\<lambda>i. case piece m T i of (a, b, c) \<Rightarrow> emit a b c) [j..<piece_count m (length T)]"
proof (induction "piece_count m (length T) - j" arbitrary: j)
  case 0
  then have "length T \<le> j * m" using piece_count_iff [OF m, of j "length T"] by simp
  then show ?case using 0 by (simp add: fragment_loop_stop)
next
  case (Suc n)
  then have lt: "j < piece_count m (length T)" by simp
  then have off: "j * m < length T" using piece_count_iff [OF m] by simp
  let ?next = "j * m + min (length T - j * m) m"
  have stop: "fragment_loop emit m T ?next = fragment_loop emit m T (Suc j * m)"
  proof (cases "j * m + m \<le> length T")
    case True
    then have "min (length T - j * m) m = m" by simp
    then show ?thesis by (simp add: add.commute)
  next
    case False
    then show ?thesis by (simp add: min_def fragment_loop_stop)
  qed
  have "fragment_loop emit m T (j * m) = (case piece m T j of (a, b, c) \<Rightarrow> emit a b c) #
      fragment_loop emit m T ?next"
    using off m
    by (subst fragment_loop.simps) (auto simp: Let_def piece_def piece_end_def min_def)
  also have "\<dots> = map (\<lambda>i. case piece m T i of (a, b, c) \<Rightarrow> emit a b c)
      (j # [Suc j..<piece_count m (length T)])"
    unfolding stop using Suc.hyps(1) [of "Suc j"] Suc.hyps(2) by simp
  also have "j # [Suc j..<piece_count m (length T)] = [j..<piece_count m (length T)]"
    using lt by (simp add: upt_conv_Cons)
  finally show ?case .
qed

lemma piece_entry_facts:
  assumes m: "0 < m" "8 dvd m" and len: "length T \<le> 65515" and i: "i < piece_count m (length T)"
  shows "fe_offset (piece_entry m T i) = i * m"
    and "fe_end (piece_entry m T i) = piece_end m (length T) i"
    and "slice_of T (piece_entry m T i)" and "entry_ok (piece_entry m T i)"
    and "length (fe_data (piece_entry m T i)) = piece_end m (length T) i - i * m"
proof -
  have lt: "i * m < length T" using i piece_count_iff [OF m(1)] by simp
  have d: "8 dvd i * m" using m by simp
  have "unat (of_nat (i * m div 8) :: u16) = i * m div 8"
    using lt len by (simp add: unat_of_nat)
  then show off: "fe_offset (piece_entry m T i) = i * m"
    using d by (simp add: piece_entry_def piece_def)
  show dlen: "length (fe_data (piece_entry m T i)) = piece_end m (length T) i - i * m"
    using lt by (simp add: piece_entry_def piece_def piece_end_def)
  then show fin: "fe_end (piece_entry m T i) = piece_end m (length T) i"
    using off lt m by (simp add: fe_end_def piece_end_def)
  have pe: "i * m < piece_end m (length T) i" "piece_end m (length T) i \<le> length T"
    using lt m by (auto simp: piece_end_def)
  have final: "\<not> fe_more_fragments (piece_entry m T i) \<longleftrightarrow> piece_end m (length T) i = length T"
    by (auto simp: piece_entry_def piece_def piece_end_def)
  show "slice_of T (piece_entry m T i)"
    using pe final unfolding slice_of_def off fin dlen
    by (auto simp: piece_entry_def piece_def nth_subslice)
  have "8 dvd piece_end m (length T) i - i * m" if "fe_more_fragments (piece_entry m T i)"
    using that m by (simp add: piece_entry_def piece_def piece_end_def min_def)
  then show "entry_ok (piece_entry m T i)"
    using pe len d dlen unfolding entry_ok_def fin off by auto
qed

lemma slices_compatible:
  assumes "slice_of T e" and "\<forall>f \<in> set es. slice_of T f"
  shows "fragment_compatible e es"
proof -
  have agree: "\<not> overlap_conflict (fe_offset e) (fe_end e) (fe_data e) f" if "f \<in> set es" for f
    unfolding overlap_conflict_iff
  proof (intro allI impI)
    fix i assume i: "fe_offset e \<le> i \<and> i < fe_end e \<and> fe_offset f \<le> i \<and> i < fe_end f"
    have "fe_data e ! (i - fe_offset e) = T ! i" "fe_data f ! (i - fe_offset f) = T ! i"
      using assms that i by (auto simp: slice_of_def fe_end_def less_diff_conv2)
    then show "fe_data e ! (i - fe_offset e) = fe_data f ! (i - fe_offset f)" by simp
  qed
  have terminal: "fe_end f = length T" if "f \<in> set es" "\<not> fe_more_fragments f" for f
    using assms that by (auto simp: slice_of_def)
  have ends: "fe_end f \<le> length T" if "f \<in> set es" for f
    using assms that by (auto simp: slice_of_def)
  have e: "fe_end e \<le> length T" "\<not> fe_more_fragments e \<longrightarrow> fe_end e = length T"
    using assms(1) by (auto simp: slice_of_def)
  have first: "fe_end t = length T" if "filter (\<lambda>e. \<not> fe_more_fragments e) es = t # ts" for t ts
  proof -
    have "t \<in> set (filter (\<lambda>e. \<not> fe_more_fragments e) es)" by (simp add: that)
    then show ?thesis using terminal by simp
  qed
  have "\<not> list_ex (overlap_conflict (fe_offset e) (fe_end e) (fe_data e)) es"
    using agree by (simp add: list_ex_iff)
  moreover have "\<not> (\<not> fe_more_fragments e \<and> list_ex (\<lambda>f. fe_end f > fe_end e) es)"
    using e ends by (auto simp: list_ex_iff not_less)
  ultimately show ?thesis
    using e unfolding fragment_compatible_def fragment_invalid_def Let_def
    by (cases "filter (\<lambda>e. \<not> fe_more_fragments e) es") (auto simp: first)
qed

lemma scan_all_pieces:
  assumes m: "0 < m" "8 dvd m" and len: "length T \<le> 65515" "T \<noteq> []"
  shows "j \<le> piece_count m (length T) \<Longrightarrow>
    assemble_scan (map (piece_entry m T) [j..<piece_count m (length T)]) (min (length T) (j * m)) h t =
    Some (length T, j < piece_count m (length T) \<or> h,
      if j < piece_count m (length T) then length T else t)"
proof (induction "piece_count m (length T) - j" arbitrary: j h t)
  case 0
  then have "length T \<le> j * m" using piece_count_iff [OF m(1), of j "length T"] by simp
  then show ?case using 0 by (simp add: min_def)
next
  case (Suc n)
  let ?n = "piece_count m (length T)"
  have lt: "j < ?n" using Suc by simp
  then have off: "j * m < length T" using piece_count_iff [OF m(1)] by simp
  note f = piece_entry_facts [OF m len(1) lt]
  have e: "piece_end m (length T) j = min (length T) (Suc j * m)"
    by (simp add: piece_end_def add.commute)
  have grow: "j * m < piece_end m (length T) j" using off m by (simp add: piece_end_def)
  have last: "fe_more_fragments (piece_entry m T j) \<longleftrightarrow> Suc j < ?n"
    using piece_count_iff [OF m(1), of "Suc j" "length T"]
    by (simp add: piece_entry_def piece_def add.commute)
  have final: "piece_end m (length T) j = length T" if "\<not> Suc j < ?n"
    using that piece_count_iff [OF m(1), of "Suc j" "length T"] by (simp add: e min_def)
  define rest where "rest = map (piece_entry m T) [Suc j..<?n]"
  have "map (piece_entry m T) [j..<?n] = piece_entry m T j # rest"
    using lt by (simp add: rest_def upt_conv_Cons)
  moreover have "min (length T) (j * m) = j * m" using off by simp
  ultimately have unfold: "assemble_scan (map (piece_entry m T) [j..<?n]) (min (length T) (j * m)) h t =
      (if Suc j < ?n then assemble_scan rest (piece_end m (length T) j) h t
       else assemble_scan rest (piece_end m (length T) j) True (length T))"
    using off grow last final by (simp add: f Let_def)
  have IH: "assemble_scan rest (piece_end m (length T) j) h' t' = Some (length T, Suc j < ?n \<or> h',
      if Suc j < ?n then length T else t')" for h' t'
    unfolding rest_def e by (rule Suc.hyps(1)) (use Suc.hyps(2) lt in simp_all)
  show ?case unfolding unfold IH using lt by simp
qed

lemma assemble_all_pieces:
  assumes m: "0 < m" "8 dvd m" and len: "length T \<le> 65515" "T \<noteq> []"
  shows "assemble (map (piece_entry m T) [0..<piece_count m (length T)]) = Some T"
proof -
  let ?es = "map (piece_entry m T) [0..<piece_count m (length T)]"
  have pos: "0 < piece_count m (length T)" using piece_count_iff [OF m(1), of 0 "length T"] len by simp
  have "\<exists>p. assemble ?es = Some p"
    using scan_all_pieces [OF m len, of 0 False 0] pos piece_entry_facts(1) [OF m len(1) pos]
    by (simp add: assemble_def hd_map)
  moreover have "\<forall>e \<in> set ?es. slice_of T e"
    using piece_entry_facts(3) [OF m len(1)] by auto
  ultimately show ?thesis using assemble_sound(1) by blast
qed

lemma assemble_missing_piece:
  assumes m: "0 < m" "8 dvd m" and len: "length T \<le> 65515"
    and idx: "set idx \<subseteq> {..<piece_count m (length T)}" and i: "i < piece_count m (length T)" "i \<notin> set idx"
    and es: "set es = piece_entry m T ` set idx"
  shows "assemble es = None"
proof (rule ccontr)
  assume "assemble es \<noteq> None"
  then obtain p where "assemble es = Some p" by blast
  moreover have "\<forall>e \<in> set es. slice_of T e"
    using es idx piece_entry_facts(3) [OF m len] by auto
  moreover have "i * m < length T" using i piece_count_iff [OF m(1)] by simp
  ultimately have "covers es (i * m)" using assemble_sound(2) by blast
  then obtain k where k: "k \<in> set idx" "fe_offset (piece_entry m T k) \<le> i * m"
    "i * m < fe_end (piece_entry m T k)"
    by (auto simp: covers_def es)
  then have "k * m \<le> i * m" "i * m < Suc k * m"
    using idx piece_entry_facts(1,2) [OF m len, of k] by (auto simp: piece_end_def subset_iff)
  then have "k \<le> i" "i < Suc k" using m by (simp, metis mult_less_cancel2)
  then show False using k(1) i(2) by (simp add: less_Suc_eq_le)
qed

lemma hm_get_fold_remove:
  "hm_get (rb_buffers (fold remove_buffer keys b)) k =
     (if k \<in> set keys then None else hm_get (rb_buffers b) k)"
  by (induction keys arbitrary: b) (auto simp: hm_get_remove_buffer)

lemma fresh_not_expired:
  assumes "reassembly_inv b"
    and "\<And>s. hm_get (rb_buffers b) k = Some s \<Longrightarrow> now - fs_updated_at s < REASSEMBLY_TIMEOUT"
  shows "hm_get (rb_buffers (snd (expire_stale_at now b))) k = hm_get (rb_buffers b) k"
proof -
  have wf: "hm_wf (rb_buffers b)" using assms(1) by (simp add: reassembly_inv_def)
  then have "k \<notin> set (map fst (filter (\<lambda>(key, s). now - fs_updated_at s \<ge> REASSEMBLY_TIMEOUT) (rb_buffers b)))"
    using assms(2) hm_get_eq_Some [OF wf, of k] by (fastforce simp: not_less [symmetric])
  then show ?thesis
    by (simp add: expire_stale_at_def Let_def hm_get_fold_remove del: set_map)
qed

lemma room_available:
  assumes "rb_buffered_bytes b + n \<le> MAX_REASSEMBLY_BYTES"
    and "hm_get (rb_buffers b) key = None \<Longrightarrow> length (rb_buffers b) < MAX_REASSEMBLY_DATAGRAMS"
  shows "make_room_for key n b = (True, b)"
  using assms
  by (simp add: make_room_for_def hm_contains_def make_byte_room.simps make_datagram_room.simps
      split: option.split) auto

lemma add_fragment_stores:
  assumes inv: "reassembly_inv b" and key: "key = frag_key src dst proto ident"
    and e: "e = frag_entry blocks mf payload" "entry_ok e" "fragment_compatible e (set_entries b key)"
    and fresh: "\<And>s. hm_get (rb_buffers b) key = Some s \<Longrightarrow> now - fs_updated_at s < REASSEMBLY_TIMEOUT"
    and bytes: "rb_buffered_bytes b + length payload \<le> MAX_REASSEMBLY_BYTES"
    and count: "hm_get (rb_buffers b) key = None \<Longrightarrow> length (rb_buffers b) < MAX_REASSEMBLY_DATAGRAMS"
    and entries: "entries = sort_key fe_offset (set_entries b key @ [e])"
  shows "\<exists>b2 s. add_fragment now src dst proto ident blocks mf payload b =
      (assemble entries, if assemble entries = None then b2 else remove_buffer key b2) \<and>
    hm_get (rb_buffers b2) key = Some s \<and> fs_entries s = entries \<and> fs_updated_at s = now \<and>
    rb_buffered_bytes b2 \<le> rb_buffered_bytes b + length payload"
proof -
  define b0 where "b0 = snd (expire_stale_at now b)"
  have same: "hm_get (rb_buffers b0) key = hm_get (rb_buffers b) key"
    unfolding b0_def using inv fresh by (rule fresh_not_expired)
  have sh: "shrunk b b0" by (simp add: b0_def shrunk_expire)
  have room: "make_room_for key (length payload) b0 = (True, b0)"
    by (rule room_available) (use bytes count sh same in \<open>auto simp: shrunk_def\<close>)
  have se: "set_entries b0 key = set_entries b key" using same by (rule set_entries_cong)
  obtain es b2 where st: "store_fragment now key e b0 = (es, b2)" by fastforce
  note stf = store_fragment_simps [OF st]
  have es: "es = entries" by (simp add: stf(1) entries se)
  have ok: "\<not> 65515 < fe_end e" "payload \<noteq> []" "\<not> (mf \<and> length payload mod 8 \<noteq> 0)"
    using e by (auto simp: entry_ok_def dvd_eq_mod_eq_0)
  have "add_fragment now src dst proto ident blocks mf payload b =
      (assemble entries, if assemble entries = None then b2 else remove_buffer key b2)"
    unfolding add_fragment_eval [OF key e(1) b0_def] using ok e(3) st es
    by (auto simp: se room split: option.split)
  moreover have "rb_buffered_bytes b2 \<le> rb_buffered_bytes b + length payload"
    using sh by (simp add: stf(3) e(1) shrunk_def)
  ultimately show ?thesis using stf(2) [of key] es by auto
qed

text \<open>The receiving side: parse a packet, verifying its checksum, and hand the fragment over.\<close>

definition receive_fragment :: "nat \<Rightarrow> bytes \<Rightarrow> IpReassemblyBuffer \<Rightarrow> bytes option \<times> IpReassemblyBuffer" where
  "receive_fragment now pkt b =
     (case ipv4_parse pkt True of
        Inl _ \<Rightarrow> (None, b)
      | Inr p \<Rightarrow> let h = ipp_header p in
          add_fragment now (ip_src_ip h) (ip_dst_ip h) (ip_protocol_to_u8 (ip_protocol h))
            (ip_identification h) (ip_fragment_offset h) (ip_more_fragments h) (ipp_payload p) b)"

fun receive_all :: "IpReassemblyBuffer \<Rightarrow> (nat \<times> bytes) list \<Rightarrow> bytes option list" where
  "receive_all b [] = []"
| "receive_all b ((now, pkt) # rest) =
     (let (r, b') = receive_fragment now pkt b in r # receive_all b' rest)"

lemma fragment_flags:
  fixes blocks :: u16
  assumes "unat blocks < 8192" and "f = (if mf then (blocks AND 0x1FFF) OR 0x2000 else blocks AND 0x1FFF)"
  shows "f AND 0x8000 = 0" "f AND 0x4000 = 0" "f AND 0x2000 \<noteq> 0 \<longleftrightarrow> mf" "f AND 0x1FFF = blocks"
proof -
  have "blocks AND 0x1FFF = take_bit 13 blocks"
    by (rule and_mask_take_bit) (simp add: mask_eq_exp_minus_1)
  also have "\<dots> = blocks"
    using assms(1) by (simp add: word_unat_eq_iff unsigned_take_bit_eq take_bit_nat_eq_self)
  finally have id: "blocks AND 0x1FFF = blocks" .
  show "f AND 0x8000 = 0" "f AND 0x4000 = 0" "f AND 0x2000 \<noteq> 0 \<longleftrightarrow> mf"
    unfolding assms(2) by (auto simp: bit.conj_disj_distrib2 and.assoc)
  show "f AND 0x1FFF = blocks"
    unfolding assms(2) by (auto simp: bit.conj_disj_distrib2 and.assoc id)
qed

lemma parse_fragment_packet:
  assumes blocks: "unat blocks < 8192" and len: "length chunk \<le> 65515"
    and aligned: "mf \<longrightarrow> 8 dvd length chunk"
  shows "\<exists>p. ipv4_parse (fragment_packet src dst proto ident ttl blocks mf chunk) True = Inr p \<and>
    ip_src_ip (ipp_header p) = src \<and> ip_dst_ip (ipp_header p) = dst \<and>
    ip_protocol_to_u8 (ip_protocol (ipp_header p)) = proto \<and> ip_identification (ipp_header p) = ident \<and>
    ip_fragment_offset (ipp_header p) = blocks \<and> ip_more_fragments (ipp_header p) = mf \<and>
    ipp_payload p = chunk"
proof -
  define tlen :: u16 where "tlen = of_nat (20 + length chunk)"
  define f where "f = (if mf then (blocks AND 0x1FFF) OR 0x2000 else blocks AND 0x1FFF)"
  define h where "h = [0x45, 0x00] @ u16_to_be tlen @ u16_to_be ident @ u16_to_be f @ [ttl, proto] @
    [0x00, 0x00] @ bytes4 src @ bytes4 dst"
  define csum where "csum = compute_checksum h"
  define d where "d = write_at 10 (u16_to_be csum) h @ chunk"
  have hlen: "length h = 20" by (simp add: h_def)
  have pkt: "fragment_packet src dst proto ident ttl blocks mf chunk = d"
    using hlen by (simp add: fragment_packet_def Let_def d_def csum_def h_def f_def tlen_def
        IPV4_MIN_HEADER_LEN_def)
  have sealed: "write_at 10 (u16_to_be csum) h =
     [0x45, 0, ucast (drop_bit 8 tlen), ucast tlen, ucast (drop_bit 8 ident), ucast ident,
      ucast (drop_bit 8 f), ucast f, ttl, proto, ucast (drop_bit 8 csum), ucast csum] @ bytes4 src @ bytes4 dst"
    by (simp add: h_def write_at_def u16_to_be_def)
  have nth: "d ! 0 = 0x45" "read_u16 2 d = tlen" "read_u16 4 d = ident" "read_u16 6 d = f"
    "d ! 9 = proto" "read4 12 d = src" "read4 16 d = dst" "length d = 20 + length chunk" "drop 20 d = chunk"
    unfolding d_def sealed by (cases src; cases dst; simp add: read_u16_def read4_def)+
  have "h ! 10 = 0" "h ! 11 = 0" by (simp_all add: h_def u16_to_be_def)
  then have "verify_checksum (take 20 d)"
    using header_checksum.seal_verifies [of 10 h] hlen by (simp add: d_def csum_def)
  moreover have "unat tlen = 20 + length chunk"
    using len by (simp add: tlen_def unat_of_nat del: of_nat_add)
  moreover have "ipv4_hlen d = 20" by (simp add: ipv4_hlen_def nth)
  ultimately have "ipv4_acceptable d True" "ipp_payload (ipv4_fields d) = chunk"
    using aligned fragment_flags [OF blocks f_def]
    by (auto simp: ipv4_acceptable_def ipv4_fields_def nth subslice_def)
  then show ?thesis
    using fragment_flags [OF blocks f_def]
    by (auto simp: pkt ipv4_parse_Inr_iff ipv4_fields_def nth ip_protocol.enc_dec)
qed

lemma receive_piece:
  assumes m: "0 < m" "8 dvd m" and len: "length T \<le> 65515" and i: "i < piece_count m (length T)"
    and p: "piece m T i = (blocks, mf, d)"
  shows "receive_fragment now (fragment_packet src dst proto ident ttl blocks mf d) b =
    add_fragment now src dst proto ident blocks mf d b"
proof -
  have e: "piece_entry m T i = frag_entry blocks mf d" by (simp add: piece_entry_def p)
  note f = piece_entry_facts [OF m len i, unfolded e]
  have "unat blocks * 8 \<le> 65515" using f(4) by (simp add: entry_ok_def fe_end_def)
  then have "unat blocks < 8192" by simp
  moreover have "length d \<le> 65515" "mf \<longrightarrow> 8 dvd length d"
    using f(4) by (auto simp: entry_ok_def fe_end_def)
  ultimately obtain q where "ipv4_parse (fragment_packet src dst proto ident ttl blocks mf d) True = Inr q"
    "ip_src_ip (ipp_header q) = src" "ip_dst_ip (ipp_header q) = dst"
    "ip_protocol_to_u8 (ip_protocol (ipp_header q)) = proto" "ip_identification (ipp_header q) = ident"
    "ip_fragment_offset (ipp_header q) = blocks" "ip_more_fragments (ipp_header q) = mf"
    "ipp_payload q = d"
    using parse_fragment_packet [of blocks d mf src dst proto ident ttl] by blast
  then show ?thesis by (simp add: receive_fragment_def)
qed

lemma sum_pieces:
  assumes "0 < m"
  shows "(\<Sum>i < n. piece_end m len i - min len (i * m)) = min len (n * m)"
proof (induction n)
  case (Suc n)
  have "piece_end m len n = min len (Suc n * m)" by (simp add: piece_end_def add.commute)
  moreover have "min len (n * m) \<le> min len (Suc n * m)" by (simp add: min_def)
  ultimately show ?case using Suc by simp
qed simp

lemma sum_some_pieces:
  assumes m: "0 < m" "8 dvd m" and len: "length T \<le> 65515"
    and d: "distinct idx" "set idx \<subseteq> {..<piece_count m (length T)}"
  shows "sum_list (map (\<lambda>i. length (fe_data (piece_entry m T i))) idx) \<le> length T"
proof -
  let ?n = "piece_count m (length T)"
  have lens: "length (fe_data (piece_entry m T i)) = piece_end m (length T) i - min (length T) (i * m)"
    if "i < ?n" for i
    using piece_entry_facts(5) [OF m len that] piece_count_iff [OF m(1), of i "length T"] that
    by (simp add: min_def)
  have "sum_list (map (\<lambda>i. length (fe_data (piece_entry m T i))) idx) =
      (\<Sum>i \<in> set idx. length (fe_data (piece_entry m T i)))"
    using d(1) by (simp add: sum_list_distinct_conv_sum_set)
  also have "\<dots> \<le> (\<Sum>i < ?n. length (fe_data (piece_entry m T i)))"
    using d(2) by (intro sum_mono2) auto
  also have "\<dots> = (\<Sum>i < ?n. piece_end m (length T) i - min (length T) (i * m))"
    using lens by (intro sum.cong) auto
  also have "\<dots> \<le> length T" by (simp add: sum_pieces [OF m(1)])
  finally show ?thesis .
qed

text \<open>The state after the pieces \<open>idx\<close> of the datagram \<open>T\<close> have been stored, all since \<open>t0\<close>.\<close>

definition holds_pieces ::
  "nat \<Rightarrow> bytes \<Rightarrow> FragmentKey \<Rightarrow> nat \<Rightarrow> nat list \<Rightarrow> nat \<Rightarrow> IpReassemblyBuffer \<Rightarrow> bool" where
  "holds_pieces m T key t0 idx base b \<longleftrightarrow> reassembly_inv b \<and>
     mset (set_entries b key) = mset (map (piece_entry m T) idx) \<and>
     (\<forall>s. hm_get (rb_buffers b) key = Some s \<longrightarrow> t0 \<le> fs_updated_at s) \<and>
     (hm_get (rb_buffers b) key = None \<longrightarrow> length (rb_buffers b) < MAX_REASSEMBLY_DATAGRAMS) \<and>
     rb_buffered_bytes b \<le> base + sum_list (map (\<lambda>i. length (fe_data (piece_entry m T i))) idx)"

lemma assemble_pieces:
  assumes m: "0 < m" "8 dvd m" and len: "length T \<le> 65515" "T \<noteq> []"
    and idx: "distinct idx" "set idx \<subseteq> {..<piece_count m (length T)}"
    and es: "mset es = mset (map (piece_entry m T) idx)" "sorted (map fe_offset es)"
  shows "assemble es = (if set idx = {..<piece_count m (length T)} then Some T else None)"
proof (cases "set idx = {..<piece_count m (length T)}")
  case True
  let ?all = "map (piece_entry m T) [0..<piece_count m (length T)]"
  have inj: "inj_on fe_offset (piece_entry m T ` {..<piece_count m (length T)})"
    using piece_entry_facts(1) [OF m len(1)] m(1) by (auto simp: inj_on_def)
  have offs: "map fe_offset ?all = map (\<lambda>i. i * m) [0..<piece_count m (length T)]"
    using piece_entry_facts(1) [OF m len(1)] by simp
  have "sorted (map fe_offset ?all)"
    unfolding offs sorted_map by (auto simp: sorted_wrt_iff_nth_less)
  moreover have "mset idx = mset [0..<piece_count m (length T)]"
    using True set_eq_iff_mset_eq_distinct [OF idx(1) distinct_upt, of 0 "piece_count m (length T)"]
    by (simp add: lessThan_atLeast0)
  then have "mset es = mset ?all" using es(1) by simp
  moreover have "set es = piece_entry m T ` {..<piece_count m (length T)}"
    using es(1) True by (metis list.set_map set_mset_mset)
  ultimately have "es = ?all"
    using sort_key_inj_key_eq [of es ?all fe_offset] sort_key_inj_key_eq [of es es fe_offset] inj es(2)
    by simp
  then show ?thesis using True assemble_all_pieces [OF m len] by simp
next
  case False
  then obtain i where "i < piece_count m (length T)" "i \<notin> set idx" using idx(2) by blast
  moreover have "set es = piece_entry m T ` set idx"
    using es(1) by (metis list.set_map set_mset_mset)
  ultimately show ?thesis
    using assemble_missing_piece [OF m len(1) idx(2)] False by auto
qed

lemma holds_pieces_step:
  assumes m: "0 < m" "8 dvd m" and len: "length T \<le> 65515" "T \<noteq> []"
    and st: "holds_pieces m T key t0 idx base b" and key: "key = frag_key src dst proto ident"
    and base: "base + length T \<le> MAX_REASSEMBLY_BYTES"
    and now: "t0 \<le> now" "now < t0 + REASSEMBLY_TIMEOUT"
    and i: "distinct (i # idx)" "set (i # idx) \<subseteq> {..<piece_count m (length T)}"
    and p: "piece m T i = (blocks, mf, d)"
  shows "\<exists>b'. receive_fragment now (fragment_packet src dst proto ident ttl blocks mf d) b =
      (if set (i # idx) = {..<piece_count m (length T)} then Some T else None, b') \<and>
    (set (i # idx) \<noteq> {..<piece_count m (length T)} \<longrightarrow> holds_pieces m T key t0 (i # idx) base b')"
proof -
  let ?n = "piece_count m (length T)"
  define e where "e = piece_entry m T i"
  have e_alt: "e = frag_entry blocks mf d" by (simp add: e_def piece_entry_def p)
  have ei: "slice_of T e" "entry_ok e" "length (fe_data e) = length d"
    using i piece_entry_facts [OF m len(1), of i] by (auto simp: e_def) (simp add: piece_entry_def p)
  have old: "set (set_entries b key) = piece_entry m T ` set idx"
    using st by (metis holds_pieces_def list.set_map set_mset_mset)
  then have slices: "\<forall>f \<in> set (set_entries b key). slice_of T f"
    using i piece_entry_facts(3) [OF m len(1)] by auto
  define entries where "entries = sort_key fe_offset (set_entries b key @ [e])"
  have mset_entries: "mset entries = mset (map (piece_entry m T) (i # idx))"
    using st by (simp add: entries_def holds_pieces_def e_def)
  have asm: "assemble entries = (if set (i # idx) = {..<?n} then Some T else None)"
    by (rule assemble_pieces [OF m len i mset_entries]) (simp add: entries_def)
  have bytes: "rb_buffered_bytes b + length d \<le> base +
      sum_list (map (\<lambda>i. length (fe_data (piece_entry m T i))) (i # idx))"
    using st ei(3) by (simp add: holds_pieces_def e_def)
  then have room: "rb_buffered_bytes b + length d \<le> MAX_REASSEMBLY_BYTES"
    using sum_some_pieces [OF m len(1) i] base by linarith
  have "reassembly_inv b" using st by (simp add: holds_pieces_def)
  note stores = add_fragment_stores [OF this key e_alt ei(2) slices_compatible [OF ei(1) slices] _
      room _ entries_def, of now]
  obtain b2 s where add: "add_fragment now src dst proto ident blocks mf d b =
      (assemble entries, if assemble entries = None then b2 else remove_buffer key b2)"
    "hm_get (rb_buffers b2) key = Some s" "fs_entries s = entries" "fs_updated_at s = now"
    "rb_buffered_bytes b2 \<le> rb_buffered_bytes b + length d"
    using stores st now by (fastforce simp: holds_pieces_def)
  have inv2: "reassembly_inv b2" if "assemble entries = None"
    using inv_add_fragment [OF \<open>reassembly_inv b\<close>, of now src dst proto ident blocks mf d] add(1) that
    by simp
  have "holds_pieces m T key t0 (i # idx) base b2" if "assemble entries = None"
    using inv2 [OF that] add mset_entries bytes now
    by (auto simp: holds_pieces_def set_entries_def)
  then show ?thesis
    using receive_piece [OF m len(1) _ p] i(2) add(1) asm by auto
qed

lemma receive_remaining:
  assumes m: "0 < m" "8 dvd m" and len: "length T \<le> 65515" "T \<noteq> []"
    and key: "key = frag_key src dst proto ident"
    and base: "base + length T \<le> MAX_REASSEMBLY_BYTES"
  shows "\<lbrakk> holds_pieces m T key t0 idx base b; distinct (idx @ map snd todo); todo \<noteq> [];
     set (idx @ map snd todo) = {..<piece_count m (length T)};
     \<forall>(t, i) \<in> set todo. t0 \<le> t \<and> t < t0 + REASSEMBLY_TIMEOUT \<rbrakk> \<Longrightarrow>
   receive_all b (map (\<lambda>(t, i). (t, case piece m T i of (bl, mf, d) \<Rightarrow>
       fragment_packet src dst proto ident ttl bl mf d)) todo) =
   replicate (length todo - 1) None @ [Some T]"
proof (induction todo arbitrary: idx b)
  case (Cons x todo)
  obtain t i where x: "x = (t, i)" by (cases x)
  obtain bl mf d where p: "piece m T i = (bl, mf, d)" by (metis prod_cases3)
  let ?n = "piece_count m (length T)"
  have i: "distinct (i # idx)" "set (i # idx) \<subseteq> {..<?n}" using Cons.prems x by auto
  have full: "set (i # idx) = {..<?n} \<longleftrightarrow> todo = []"
  proof
    assume all: "set (i # idx) = {..<?n}"
    show "todo = []"
    proof (rule ccontr)
      assume "todo \<noteq> []"
      then obtain y where "y \<in> snd ` set todo" by (cases todo) auto
      then have "y \<in> {..<?n}" "y \<notin> set (i # idx)" using Cons.prems x by auto
      then show False using all by blast
    qed
  qed (use Cons.prems x in auto)
  obtain b' where step: "receive_fragment t (fragment_packet src dst proto ident ttl bl mf d) b =
      (if set (i # idx) = {..<?n} then Some T else None, b')"
    and next_st: "set (i # idx) \<noteq> {..<?n} \<longrightarrow> holds_pieces m T key t0 (i # idx) base b'"
    using holds_pieces_step [OF m len Cons.prems(1) key base _ _ i p, of t ttl] Cons.prems(5) x
    by auto
  show ?case
  proof (cases "todo = []")
    case True
    then show ?thesis using step full by (simp add: x p)
  next
    case False
    have "receive_all b' (map (\<lambda>(t, i). (t, case piece m T i of (bl, mf, d) \<Rightarrow>
       fragment_packet src dst proto ident ttl bl mf d)) todo) =
       replicate (length todo - 1) None @ [Some T]"
      by (rule Cons.IH [of "i # idx"]) (use Cons.prems x next_st full False in auto)
    then show ?thesis
      using step full False by (cases todo) (simp_all add: x p)
  qed
qed simp

lemma mset_image_list: "mset xs = image_mset f M \<Longrightarrow> \<exists>ys. map f ys = xs \<and> mset ys = M"
proof (induction xs arbitrary: M)
  case (Cons x xs)
  then obtain a N where "M = add_mset a N" "f a = x" "image_mset f N = mset xs"
    using msed_map_invR [of f M x "mset xs"] by auto
  with Cons.IH [of N] obtain ys where "map f ys = xs" "mset ys = N" by auto
  then show ?case using \<open>M = add_mset a N\<close> \<open>f a = x\<close> by (intro exI [of _ "a # ys"]) simp
qed simp

lemma fragment_payload_pieces:
  assumes "28 \<le> mtu"
  defines "m \<equiv> (mtu - 20) div 8 * 8"
  shows "0 < m" "8 dvd m"
    "fragment_payload src dst proto ident ttl mtu T =
     map (\<lambda>i. case piece m T i of (bl, mf, d) \<Rightarrow> fragment_packet src dst proto ident ttl bl mf d)
       [0..<piece_count m (length T)]"
proof -
  show m: "0 < m" "8 dvd m" using assms(1) by (simp_all add: m_def)
  show "fragment_payload src dst proto ident ttl mtu T =
     map (\<lambda>i. case piece m T i of (bl, mf, d) \<Rightarrow> fragment_packet src dst proto ident ttl bl mf d)
       [0..<piece_count m (length T)]"
    using fragment_loop_pieces [OF m(1), of "fragment_packet src dst proto ident ttl" T 0] m assms(1)
    by (simp add: fragment_payload_def IPV4_MIN_HEADER_LEN_def m_def Let_def)
qed

text \<open>C24: fragmentation and reassembly are inverse: for every non-empty payload that an IPv4
  datagram can carry and every MTU of at least 28 bytes, the fragments, each serialized, parsed
  with checksum verification and handed over in any order within the reassembly timeout, give
  back exactly the payload with the last fragment, and nothing before it, from any reachable
  buffer that has room and holds nothing under that key.\<close>
theorem fragment_reassembles_any_order:
  assumes T: "T \<noteq> []" "length T \<le> 65515" and mtu: "28 \<le> mtu"
    and b: "reassembly_inv b" "hm_get (rb_buffers b) (frag_key src dst proto ident) = None"
    and room: "length (rb_buffers b) < 1024" "rb_buffered_bytes b + length T \<le> 4194304"
    and order: "mset (map snd arrivals) = mset (fragment_payload src dst proto ident ttl mtu T)"
    and times: "\<forall>(t, pkt) \<in> set arrivals. t0 \<le> t \<and> t < t0 + 60000000000"
  shows "receive_all b arrivals = replicate (length arrivals - 1) None @ [Some T]"
proof -
  define m where "m = (mtu - 20) div 8 * 8"
  define pkt where "pkt = (\<lambda>i. case piece m T i of (bl, mf, d) \<Rightarrow>
    fragment_packet src dst proto ident ttl bl mf d)"
  let ?n = "piece_count m (length T)"
  note fp = fragment_payload_pieces [OF mtu, folded m_def]
  have "mset (map snd arrivals) = image_mset pkt (mset [0..<?n])"
    unfolding order fp(3) pkt_def by simp
  then obtain idx where idx: "map pkt idx = map snd arrivals" "mset idx = mset [0..<?n]"
    using mset_image_list by blast
  define todo where "todo = zip (map fst arrivals) idx"
  have len: "length idx = length arrivals" using idx(1) by (metis length_map)
  then have todo: "map snd todo = idx" "map fst todo = map fst arrivals" "length todo = length arrivals"
    by (simp_all add: todo_def)
  have arr: "arrivals = map (\<lambda>(t, i). (t, pkt i)) todo"
    using idx(1) len by (intro nth_equalityI) (auto simp: todo_def list_eq_iff_nth_eq prod_eq_iff)
  have set_idx: "set idx = {..<?n}" "distinct idx"
    using idx(2) by (metis set_mset_mset set_upt atLeast0LessThan)
      (metis idx(2) distinct_upt mset_eq_imp_distinct_iff)
  have "0 < ?n" using piece_count_iff [OF fp(1), of 0 "length T"] T by simp
  then have ne: "todo \<noteq> []" using set_idx todo by (metis lessThan_eq_iff list.size(3) list.set(1)
        list.simps(8) lessThan_empty_iff not_gr_zero)
  have start: "holds_pieces m T (frag_key src dst proto ident) t0 [] (rb_buffered_bytes b) b"
    using b room by (simp add: holds_pieces_def set_entries_def MAX_REASSEMBLY_DATAGRAMS_def)
  have t: "\<forall>(t, i) \<in> set todo. t0 \<le> t \<and> t < t0 + REASSEMBLY_TIMEOUT"
  proof safe
    fix t i assume "(t, i) \<in> set todo"
    then have "t \<in> fst ` set arrivals" using todo(2) by (metis fst_conv image_eqI list.set_map)
    then show "t0 \<le> t" "t < t0 + REASSEMBLY_TIMEOUT"
      using times by (auto simp: REASSEMBLY_TIMEOUT_def)
  qed
  have "receive_all b (map (\<lambda>(t, i). (t, pkt i)) todo) = replicate (length todo - 1) None @ [Some T]"
    unfolding pkt_def
    by (rule receive_remaining [OF fp(1,2) T(2,1) refl _ start])
       (use set_idx todo ne t room in \<open>simp_all add: MAX_REASSEMBLY_BYTES_def\<close>)
  then show ?thesis unfolding arr [symmetric] todo(3) .
qed

theorem fragment_reassembles_any_order_witness:
  "\<exists>p q. fragment_payload (O4 10 0 0 1) (O4 10 0 0 2) 17 7 64 28 [1, 2, 3, 4, 5, 6, 7, 8, 9] = [p, q] \<and>
     receive_all reassembly_new [(5, q), (4, p)] = [None, Some [1, 2, 3, 4, 5, 6, 7, 8, 9]]"
proof -
  let ?T = "[1, 2, 3, 4, 5, 6, 7, 8, 9] :: bytes"
  let ?fp = "fragment_payload (O4 10 0 0 1) (O4 10 0 0 2) 17 7 64 28 ?T"
  obtain p q where pq: "?fp = [p, q]"
    by (simp add: fragment_payload_def IPV4_MIN_HEADER_LEN_def fragment_loop.simps)
  have "receive_all reassembly_new [(5, q), (4, p)] = replicate 1 None @ [Some ?T]"
    using fragment_reassembles_any_order [of ?T 28 reassembly_new "O4 10 0 0 1" "O4 10 0 0 2" 17 7
        "[(5, q), (4, p)]" 64 0]
    by (simp add: pq reassembly_new_def reassembly_inv_def add_mset_commute)
  then show ?thesis using pq by auto
qed

end
