(* ===== verification/TcpSegment.thy ===== *)
theory TcpSegment
  imports Ipv4
begin

unbundle bit_operations_syntax

text \<open>
  TCP segments on the wire (\<open>tcp.rs\<close>, first half): flags, options, the parser with its seven
  error cases and the serializer with its option-space limits.  The option loop of the parser
  is a function that terminates because every option is at least one byte long.
\<close>

section \<open>Flags and options\<close>

definition TCP_MIN_HEADER_LEN :: nat where "TCP_MIN_HEADER_LEN = 20"
definition TCP_MAX_OPTIONS_LEN :: nat where "TCP_MAX_OPTIONS_LEN = 40"

definition TCP_FLAG_FIN :: u8 where "TCP_FLAG_FIN = 0x01"
definition TCP_FLAG_SYN :: u8 where "TCP_FLAG_SYN = 0x02"
definition TCP_FLAG_RST :: u8 where "TCP_FLAG_RST = 0x04"
definition TCP_FLAG_PSH :: u8 where "TCP_FLAG_PSH = 0x08"
definition TCP_FLAG_ACK :: u8 where "TCP_FLAG_ACK = 0x10"
definition TCP_FLAG_URG :: u8 where "TCP_FLAG_URG = 0x20"

lemmas tcp_flag_defs = TCP_FLAG_FIN_def TCP_FLAG_SYN_def TCP_FLAG_RST_def TCP_FLAG_PSH_def
  TCP_FLAG_ACK_def TCP_FLAG_URG_def

definition TCP_OPT_EOL :: u8 where "TCP_OPT_EOL = 0"
definition TCP_OPT_NOP :: u8 where "TCP_OPT_NOP = 1"
definition TCP_OPT_MSS :: u8 where "TCP_OPT_MSS = 2"
definition TCP_OPT_WSCALE :: u8 where "TCP_OPT_WSCALE = 3"
definition TCP_OPT_SACK_PERMITTED :: u8 where "TCP_OPT_SACK_PERMITTED = 4"
definition TCP_OPT_SACK :: u8 where "TCP_OPT_SACK = 5"
definition TCP_OPT_TIMESTAMP :: u8 where "TCP_OPT_TIMESTAMP = 8"

lemmas tcp_opt_defs = TCP_OPT_EOL_def TCP_OPT_NOP_def TCP_OPT_MSS_def TCP_OPT_WSCALE_def
  TCP_OPT_SACK_PERMITTED_def TCP_OPT_SACK_def TCP_OPT_TIMESTAMP_def

datatype TcpOption = EndOfOptions | Nop | Mss u16 | WindowScale u8 | SackPermitted
  | Sack "(u32 \<times> u32) list" | Timestamp u32 u32 | UnknownOption u8 bytes

record TcpFlags =
  tf_fin :: bool
  tf_syn :: bool
  tf_rst :: bool
  tf_psh :: bool
  tf_ack :: bool
  tf_urg :: bool

definition flags_from_u8 :: "u8 \<Rightarrow> TcpFlags" where
  "flags_from_u8 val = \<lparr> tf_fin = (val AND TCP_FLAG_FIN \<noteq> 0), tf_syn = (val AND TCP_FLAG_SYN \<noteq> 0),
     tf_rst = (val AND TCP_FLAG_RST \<noteq> 0), tf_psh = (val AND TCP_FLAG_PSH \<noteq> 0),
     tf_ack = (val AND TCP_FLAG_ACK \<noteq> 0), tf_urg = (val AND TCP_FLAG_URG \<noteq> 0) \<rparr>"

definition flags_to_u8 :: "TcpFlags \<Rightarrow> u8" where
  "flags_to_u8 f =
     (let val = 0;
          val = (if tf_fin f then val OR TCP_FLAG_FIN else val);
          val = (if tf_syn f then val OR TCP_FLAG_SYN else val);
          val = (if tf_rst f then val OR TCP_FLAG_RST else val);
          val = (if tf_psh f then val OR TCP_FLAG_PSH else val);
          val = (if tf_ack f then val OR TCP_FLAG_ACK else val);
          val = (if tf_urg f then val OR TCP_FLAG_URG else val)
      in val)"

definition no_flags :: TcpFlags where
  "no_flags = \<lparr> tf_fin = False, tf_syn = False, tf_rst = False, tf_psh = False, tf_ack = False,
     tf_urg = False \<rparr>"

definition flags_syn_ack :: TcpFlags where "flags_syn_ack = no_flags\<lparr> tf_syn := True, tf_ack := True \<rparr>"
definition flags_ack :: TcpFlags where "flags_ack = no_flags\<lparr> tf_ack := True \<rparr>"
definition flags_syn :: TcpFlags where "flags_syn = no_flags\<lparr> tf_syn := True \<rparr>"
definition flags_fin_ack :: TcpFlags where "flags_fin_ack = no_flags\<lparr> tf_fin := True, tf_ack := True \<rparr>"
definition flags_rst :: TcpFlags where "flags_rst = no_flags\<lparr> tf_rst := True \<rparr>"

lemmas tcp_flags_defs = flags_syn_ack_def flags_ack_def flags_syn_def flags_fin_ack_def
  flags_rst_def no_flags_def

section \<open>Segments\<close>

record TcpSegment =
  seg_src_port :: u16
  seg_dst_port :: u16
  seg_seq_num :: u32
  seg_ack_num :: u32
  seg_data_offset :: u8
  seg_flags :: TcpFlags
  seg_window_size :: u16
  seg_checksum :: u16
  seg_urgent_ptr :: u16
  seg_options :: "TcpOption list"
  seg_payload :: bytes

datatype TcpError =
    TcpSegmentTooShort nat
  | TcpInvalidDataOffset u8
  | TcpDataOffsetExceedsLength nat nat
  | TcpTruncatedOption nat u8
  | TcpInvalidOptionLength nat u8 u8
  | TcpOptionLengthExceedsHeader nat u8 u8 nat
  | TcpInvalidChecksum u16

datatype TcpSerializeError = OptionLengthTooLarge u8 nat | OptionsTooLong nat nat

definition sack_block :: "bytes \<Rightarrow> nat \<Rightarrow> u32 \<times> u32" where
  "sack_block data b_off = (read_u32 b_off data, read_u32 (b_off + 4) data)"

text \<open>One option with a length byte, at \<open>opt_offset\<close>, its length already checked against the
  header.\<close>

definition parse_option :: "bytes \<Rightarrow> nat \<Rightarrow> u8 \<Rightarrow> u8 \<Rightarrow> TcpError + TcpOption" where
  "parse_option data opt_offset kind len8 =
     (let len = unat len8 in
      if kind = TCP_OPT_MSS then
        if len \<noteq> 4 then Inl (TcpInvalidOptionLength opt_offset kind len8)
        else Inr (Mss (read_u16 (opt_offset + 2) data))
      else if kind = TCP_OPT_WSCALE then
        if len \<noteq> 3 then Inl (TcpInvalidOptionLength opt_offset kind len8)
        else Inr (WindowScale (data ! (opt_offset + 2)))
      else if kind = TCP_OPT_SACK_PERMITTED \<and> len = 2 then Inr SackPermitted
      else if kind = TCP_OPT_SACK \<and> len \<ge> 10 \<and> (len - 2) mod 8 = 0 then
        Inr (Sack (map (\<lambda>i. sack_block data (opt_offset + 2 + i * 8)) [0..<(len - 2) div 8]))
      else if kind = TCP_OPT_TIMESTAMP \<and> len = 10 then
        Inr (Timestamp (read_u32 (opt_offset + 2) data) (read_u32 (opt_offset + 6) data))
      else Inr (UnknownOption kind (subslice (opt_offset + 2) (opt_offset + len) data)))"

function parse_options :: "bytes \<Rightarrow> nat \<Rightarrow> nat \<Rightarrow> TcpError + TcpOption list" where
  "parse_options data offset_bytes opt_offset =
     (if opt_offset < offset_bytes then
        let kind = data ! opt_offset in
        if kind = TCP_OPT_EOL then Inr [EndOfOptions]
        else if kind = TCP_OPT_NOP then
          map_sum id ((#) Nop) (parse_options data offset_bytes (opt_offset + 1))
        else if opt_offset + 1 \<ge> offset_bytes then Inl (TcpTruncatedOption opt_offset kind)
        else let len8 = data ! (opt_offset + 1); len = unat len8 in
        if len < 2 then Inl (TcpInvalidOptionLength opt_offset kind len8)
        else let remaining = offset_bytes - opt_offset in
        if len > remaining then Inl (TcpOptionLengthExceedsHeader opt_offset kind len8 remaining)
        else (case parse_option data opt_offset kind len8 of
                Inl e \<Rightarrow> Inl e
              | Inr opt \<Rightarrow> map_sum id ((#) opt) (parse_options data offset_bytes (opt_offset + len)))
      else Inr [])"
  by pat_completeness auto
termination
  by (relation "measure (\<lambda>(_, offset_bytes, opt_offset). offset_bytes - opt_offset)") auto

declare parse_options.simps [simp del]

definition tcp_parse :: "Ipv4Address \<Rightarrow> Ipv4Address \<Rightarrow> bytes \<Rightarrow> bool \<Rightarrow> TcpError + TcpSegment" where
  "tcp_parse src_ip dst_ip data check_checksum =
     (if length data < TCP_MIN_HEADER_LEN then Inl (TcpSegmentTooShort (length data))
      else let src_port = read_u16 0 data; dst_port = read_u16 2 data;
               seq_num = read_u32 4 data; ack_num = read_u32 8 data;
               data_offset = drop_bit 4 (data ! 12) in
      if data_offset < 5 then Inl (TcpInvalidDataOffset data_offset)
      else let offset_bytes = unat data_offset * 4 in
      if offset_bytes > length data then Inl (TcpDataOffsetExceedsLength offset_bytes (length data))
      else let flags = flags_from_u8 (data ! 13); window_size = read_u16 14 data;
               checksum = read_u16 16 data; urgent_ptr = read_u16 18 data in
      if check_checksum \<and> \<not> verify_ipv4_transport_checksum src_ip dst_ip 6 data
        then Inl (TcpInvalidChecksum checksum)
      else case parse_options data offset_bytes TCP_MIN_HEADER_LEN of
             Inl e \<Rightarrow> Inl e
           | Inr options \<Rightarrow>
               Inr \<lparr> seg_src_port = src_port, seg_dst_port = dst_port, seg_seq_num = seq_num,
                     seg_ack_num = ack_num, seg_data_offset = data_offset, seg_flags = flags,
                     seg_window_size = window_size, seg_checksum = checksum,
                     seg_urgent_ptr = urgent_ptr, seg_options = options,
                     seg_payload = drop offset_bytes data \<rparr>)"

fun option_bytes :: "TcpOption \<Rightarrow> TcpSerializeError + bytes" where
  "option_bytes EndOfOptions = Inr [TCP_OPT_EOL]"
| "option_bytes Nop = Inr [TCP_OPT_NOP]"
| "option_bytes (Mss mss) = Inr ([TCP_OPT_MSS, 4] @ u16_to_be mss)"
| "option_bytes (WindowScale scale) = Inr [TCP_OPT_WSCALE, 3, scale]"
| "option_bytes SackPermitted = Inr [TCP_OPT_SACK_PERMITTED, 2]"
| "option_bytes (Sack blocks) =
     (let count = min (length blocks) 4; len = 2 + count * 8
      in Inr ([TCP_OPT_SACK, of_nat len] @
              concat (map (\<lambda>(left, right). u32_to_be left @ u32_to_be right) (take count blocks))))"
| "option_bytes (Timestamp val ecr) = Inr ([TCP_OPT_TIMESTAMP, 10] @ u32_to_be val @ u32_to_be ecr)"
| "option_bytes (UnknownOption kind data) =
     (let option_len = length data + 2
      in if option_len > 255 then Inl (OptionLengthTooLarge kind option_len)
         else Inr ([kind, of_nat option_len] @ data))"

fun options_loop :: "TcpOption list \<Rightarrow> bytes \<Rightarrow> TcpSerializeError + bytes" where
  "options_loop [] opt_bytes = Inr opt_bytes"
| "options_loop (opt # rest) opt_bytes =
     (case option_bytes opt of
        Inl e \<Rightarrow> Inl e
      | Inr bs \<Rightarrow>
          let opt_bytes = opt_bytes @ bs
          in if length opt_bytes > TCP_MAX_OPTIONS_LEN
             then Inl (OptionsTooLong (length opt_bytes) TCP_MAX_OPTIONS_LEN)
             else options_loop rest opt_bytes)"

function pad_options :: "bytes \<Rightarrow> bytes" where
  "pad_options opt_bytes =
     (if length opt_bytes mod 4 \<noteq> 0 then pad_options (opt_bytes @ [TCP_OPT_NOP]) else opt_bytes)"
  by auto
termination
proof (relation "measure (\<lambda>b. (4 - length b mod 4) mod 4)")
  fix b :: bytes assume "length b mod 4 \<noteq> 0"
  then have "length b mod 4 = 1 \<or> length b mod 4 = 2 \<or> length b mod 4 = 3" by linarith
  then show "(b @ [TCP_OPT_NOP], b) \<in> measure (\<lambda>b. (4 - length b mod 4) mod 4)"
    by (auto simp: mod_Suc)
qed simp

declare pad_options.simps [simp del]

definition tcp_header_bytes ::
  "u16 \<Rightarrow> u16 \<Rightarrow> u32 \<Rightarrow> u32 \<Rightarrow> u8 \<Rightarrow> TcpFlags \<Rightarrow> u16 \<Rightarrow> bytes" where
  "tcp_header_bytes src_port dst_port seq_num ack_num data_offset flags window_size =
     u16_to_be src_port @ u16_to_be dst_port @ u32_to_be seq_num @ u32_to_be ack_num @
     [push_bit 4 data_offset AND 0xF0] @ [flags_to_u8 flags] @ u16_to_be window_size @
     [0x00, 0x00] @ u16_to_be 0"

definition try_serialize_with_options ::
  "Ipv4Address \<Rightarrow> Ipv4Address \<Rightarrow> u16 \<Rightarrow> u16 \<Rightarrow> u32 \<Rightarrow> u32 \<Rightarrow> TcpFlags \<Rightarrow> u16 \<Rightarrow> TcpOption list \<Rightarrow>
   bytes \<Rightarrow> TcpSerializeError + bytes" where
  "try_serialize_with_options src_ip dst_ip src_port dst_port seq_num ack_num flags window_size
     options payload =
     (case options_loop options [] of
        Inl e \<Rightarrow> Inl e
      | Inr opt_bytes \<Rightarrow>
          let opt_bytes = pad_options opt_bytes
          in if length opt_bytes > TCP_MAX_OPTIONS_LEN
             then Inl (OptionsTooLong (length opt_bytes) TCP_MAX_OPTIONS_LEN)
             else let header_len = TCP_MIN_HEADER_LEN + length opt_bytes;
                      data_offset = of_nat (header_len div 4) :: u8;
                      buf = tcp_header_bytes src_port dst_port seq_num ack_num data_offset flags
                              window_size @ opt_bytes @ payload;
                      csum = compute_ipv4_transport_checksum src_ip dst_ip 6 buf
                  in Inr (write_at 16 (u16_to_be csum) buf))"

definition serialize_with_options ::
  "Ipv4Address \<Rightarrow> Ipv4Address \<Rightarrow> u16 \<Rightarrow> u16 \<Rightarrow> u32 \<Rightarrow> u32 \<Rightarrow> TcpFlags \<Rightarrow> u16 \<Rightarrow> TcpOption list \<Rightarrow>
   bytes \<Rightarrow> bytes may_panic" where
  "serialize_with_options src_ip dst_ip src_port dst_port seq_num ack_num flags window_size
     options payload =
     (case try_serialize_with_options src_ip dst_ip src_port dst_port seq_num ack_num flags
             window_size options payload of
        Inl _ \<Rightarrow> None | Inr buf \<Rightarrow> Some buf)"

definition tcp_serialize ::
  "Ipv4Address \<Rightarrow> Ipv4Address \<Rightarrow> u16 \<Rightarrow> u16 \<Rightarrow> u32 \<Rightarrow> u32 \<Rightarrow> TcpFlags \<Rightarrow> u16 \<Rightarrow> bytes \<Rightarrow> bytes may_panic" where
  "tcp_serialize src_ip dst_ip src_port dst_port seq_num ack_num flags window_size payload =
     serialize_with_options src_ip dst_ip src_port dst_port seq_num ack_num flags window_size []
       payload"

section \<open>Flags\<close>

lemma flags_roundtrip: "flags_from_u8 (flags_to_u8 f) = f"
  by (cases f) (simp add: flags_from_u8_def flags_to_u8_def tcp_flag_defs Let_def)

interpretation tcp_flags: tag_codec flags_to_u8 flags_from_u8
  by unfold_locales (rule flags_roundtrip)

section \<open>Options\<close>

text \<open>The options whose encoding is read back as themselves: the code truncates a SACK option to
  four blocks, and an unknown option must not use the kind and length of a known one.\<close>

fun option_ok :: "TcpOption \<Rightarrow> bool" where
  "option_ok EndOfOptions \<longleftrightarrow> False"
| "option_ok (Sack blocks) \<longleftrightarrow> blocks \<noteq> [] \<and> length blocks \<le> 4"
| "option_ok (UnknownOption kind data) \<longleftrightarrow> kind \<notin> {0, 1, 2, 3} \<and> length data \<le> 253 \<and>
     \<not> (kind = 4 \<and> data = []) \<and> \<not> (kind = 5 \<and> data \<noteq> [] \<and> 8 dvd length data) \<and>
     \<not> (kind = 8 \<and> length data = 8)"
| "option_ok _ \<longleftrightarrow> True"

definition option_enc :: "TcpOption \<Rightarrow> bytes" where
  "option_enc opt = projr (option_bytes opt)"

lemma option_bytes_ok: "option_ok opt \<Longrightarrow> option_bytes opt = Inr (option_enc opt)"
  by (cases opt) (auto simp: option_enc_def Let_def)

lemma options_loop_ok:
  assumes "\<forall>opt \<in> set opts. option_ok opt"
    and "length (acc @ concat (map option_enc opts)) \<le> TCP_MAX_OPTIONS_LEN"
  shows "options_loop opts acc = Inr (acc @ concat (map option_enc opts))"
  using assms by (induction opts arbitrary: acc) (auto simp: option_bytes_ok Let_def)

lemma options_loop_too_long:
  assumes "\<forall>opt \<in> set opts. option_ok opt"
    and "length (acc @ concat (map option_enc opts)) > TCP_MAX_OPTIONS_LEN" "length acc \<le> TCP_MAX_OPTIONS_LEN"
  shows "\<exists>e. options_loop opts acc = Inl e"
  using assms
proof (induction opts arbitrary: acc)
  case (Cons opt opts)
  then show ?case by (auto simp: option_bytes_ok Let_def)
qed simp

lemma pad_options_eq:
  "pad_options b = b @ replicate ((4 - length b mod 4) mod 4) TCP_OPT_NOP"
proof (induction b rule: pad_options.induct)
  case (1 b)
  show ?case
  proof (cases "length b mod 4 = 0")
    case False
    then have c: "length b mod 4 = 1 \<or> length b mod 4 = 2 \<or> length b mod 4 = 3" by linarith
    have "pad_options b = pad_options (b @ [TCP_OPT_NOP])"
      using False by (simp add: pad_options.simps [of b])
    also have "\<dots> = (b @ [TCP_OPT_NOP]) @ replicate ((4 - length (b @ [TCP_OPT_NOP]) mod 4) mod 4) TCP_OPT_NOP"
      by (rule "1.IH") (use False in simp)
    also have "\<dots> = b @ replicate (Suc ((4 - Suc (length b) mod 4) mod 4)) TCP_OPT_NOP"
      by simp
    also have "Suc ((4 - Suc (length b) mod 4) mod 4) = (4 - length b mod 4) mod 4"
      using c by (auto simp: mod_Suc)
    finally show ?thesis .
  qed (simp add: pad_options.simps [of b])
qed

text \<open>Reading a buffer through the bytes found at an offset.\<close>

lemma nth_of_drop: "drop n d = x # xs \<Longrightarrow> d ! n = x"
  by (metis drop_eq_Nil linorder_not_less list.distinct(1) nth_via_drop)

lemma drop_at_prefix:
  "drop n d = a @ b \<Longrightarrow> i < length a \<Longrightarrow> d ! (n + i) = a ! i"
proof -
  assume d: "drop n d = a @ b" and i: "i < length a"
  then have "n \<le> length d" by (cases "n \<le> length d") auto
  then have "d ! (n + i) = drop n d ! i" by simp
  with d i show ?thesis by (simp add: nth_append)
qed

lemma drop_prefix_u32:
  "drop n d = u32_to_be w @ b \<Longrightarrow> read_u32 n d = w"
  using drop_at_prefix [of n d "u32_to_be w" b 0] drop_at_prefix [of n d "u32_to_be w" b 1]
    drop_at_prefix [of n d "u32_to_be w" b 2] drop_at_prefix [of n d "u32_to_be w" b 3]
  by (simp add: read_u32_def u32_to_be_def)

lemma drop_prefix_u16:
  "drop n d = u16_to_be w @ b \<Longrightarrow> read_u16 n d = w"
  using drop_at_prefix [of n d "u16_to_be w" b 0] drop_at_prefix [of n d "u16_to_be w" b 1]
  by (simp add: read_u16_def u16_to_be_def)

lemma drop_skip: "drop n d = a @ b \<Longrightarrow> drop (n + length a) d = b"
  by (metis add.commute append_eq_conv_conj drop_drop)

lemma sack_blocks_read:
  "drop n d = concat (map (\<lambda>(l, r). u32_to_be l @ u32_to_be r) blocks) @ rest \<Longrightarrow>
   map (\<lambda>i. sack_block d (n + i * 8)) [0..<length blocks] = blocks"
proof (induction blocks arbitrary: n)
  case (Cons b blocks)
  obtain l r where b: "b = (l, r)" by fastforce
  define tail where "tail = concat (map (\<lambda>(l, r). u32_to_be l @ u32_to_be r) blocks) @ rest"
  have d: "drop n d = u32_to_be l @ u32_to_be r @ tail"
    using Cons.prems by (simp add: b tail_def)
  have d4: "drop (n + 4) d = u32_to_be r @ tail" using drop_skip [OF d] by simp
  have d8: "drop (n + 8) d = tail" using drop_skip [OF d4] by (simp add: add.assoc)
  have "map (\<lambda>i. sack_block d ((n + 8) + i * 8)) [0..<length blocks] = blocks"
    by (rule Cons.IH) (simp add: d8 tail_def)
  moreover have "sack_block d n = b"
    by (simp add: sack_block_def b drop_prefix_u32 [OF d] drop_prefix_u32 [OF d4])
  ultimately show ?case
    by (simp add: upt_conv_Cons map_Suc_upt [symmetric] o_def add.assoc add.commute add.left_commute del: upt_Suc)
qed simp

lemma parse_option_enc:
  assumes ok: "option_ok opt" and opt: "opt \<noteq> Nop" and d: "drop n d = option_enc opt @ rest"
  shows "d ! n \<noteq> TCP_OPT_EOL \<and> d ! n \<noteq> TCP_OPT_NOP \<and> 2 \<le> length (option_enc opt) \<and>
    unat (d ! (n + 1)) = length (option_enc opt) \<and>
    parse_option d n (d ! n) (d ! (n + 1)) = Inr opt"
proof -
  have split: "d ! n = a \<and> d ! (n + 1) = b \<and> drop (n + 2) d = xs @ rest"
    if "option_enc opt = a # b # xs" for a b xs
    using drop_at_prefix [OF d, of 0] drop_at_prefix [OF d, of 1] drop_skip [of n d "[a, b]" "xs @ rest"]
      d that by simp
  show ?thesis
  proof (cases opt)
    case (Mss mss)
    with split [of TCP_OPT_MSS 4 "u16_to_be mss"] drop_prefix_u16 [of "n + 2" d mss rest] show ?thesis
      by (simp add: option_enc_def parse_option_def tcp_opt_defs)
  next
    case (WindowScale w)
    with split [of TCP_OPT_WSCALE 3 "[w]"] nth_of_drop [of "n + 2" d w rest] show ?thesis
      by (simp add: option_enc_def parse_option_def tcp_opt_defs)
  next
    case SackPermitted
    with split [of TCP_OPT_SACK_PERMITTED 2 "[]"] show ?thesis
      by (simp add: option_enc_def parse_option_def tcp_opt_defs)
  next
    case (Sack blocks)
    let ?bs = "concat (map (\<lambda>(l, r). u32_to_be l @ u32_to_be r) blocks)"
    have len: "blocks \<noteq> []" "length blocks \<le> 4" using ok Sack by auto
    have bs: "length ?bs = 8 * length blocks" by (induction blocks) auto
    have enc: "option_enc opt = TCP_OPT_SACK # of_nat (2 + length blocks * 8) # ?bs"
      using len by (simp add: Sack option_enc_def Let_def)
    have u: "unat (of_nat (2 + length blocks * 8) :: u8) = 2 + length blocks * 8"
      using len by (simp only: unat_of_nat) simp
    have "10 \<le> 2 + length blocks * 8" using len by (cases blocks) auto
    moreover have "(2 + length blocks * 8 - 2) mod 8 = 0" "(2 + length blocks * 8 - 2) div 8 = length blocks"
      by simp_all
    ultimately have "parse_option d n TCP_OPT_SACK (of_nat (2 + length blocks * 8)) = Inr opt"
      using split [OF enc] sack_blocks_read [of "n + 2" d blocks rest]
      unfolding parse_option_def u Let_def by (simp add: Sack tcp_opt_defs)
    with split [OF enc] u bs enc show ?thesis
      by (simp add: tcp_opt_defs del: of_nat_add)
  next
    case (Timestamp val ecr)
    have enc: "option_enc opt = TCP_OPT_TIMESTAMP # 10 # u32_to_be val @ u32_to_be ecr"
      by (simp add: Timestamp option_enc_def)
    have "drop (n + 2) d = u32_to_be val @ u32_to_be ecr @ rest" using split [OF enc] by simp
    moreover from drop_skip [OF this] have "drop (n + 6) d = u32_to_be ecr @ rest" by (simp add: add.commute)
    ultimately have "read_u32 (n + 2) d = val" "read_u32 (n + 6) d = ecr"
      by (auto intro: drop_prefix_u32)
    with split [OF enc] enc Timestamp show ?thesis
      by (simp add: parse_option_def tcp_opt_defs)
  next
    case (UnknownOption kind bs)
    have enc: "option_enc opt = kind # of_nat (length bs + 2) # bs"
      using ok by (simp add: UnknownOption option_enc_def Let_def)
    have u: "unat (of_nat (length bs + 2) :: u8) = length bs + 2"
      by (simp only: unat_of_nat) (use ok UnknownOption in simp)
    have "subslice (n + 2) (n + (length bs + 2)) d = bs"
      using split [OF enc] by (simp add: subslice_def)
    with split [OF enc] u enc ok UnknownOption show ?thesis
      by (auto simp: parse_option_def tcp_opt_defs Let_def dvd_eq_mod_eq_0 simp del: of_nat_add)
  qed (use ok opt in auto)
qed

lemma option_enc_Nop: "option_enc Nop = [TCP_OPT_NOP]"
  by (simp add: option_enc_def)

lemma parse_options_enc:
  assumes "\<forall>opt \<in> set opts. option_ok opt" and "drop n d = concat (map option_enc opts) @ rest"
    and "hi = n + length (concat (map option_enc opts))"
  shows "parse_options d hi n = Inr opts"
  using assms
proof (induction opts arbitrary: n)
  case Nil
  then show ?case by (simp add: parse_options.simps)
next
  case (Cons opt opts)
  let ?tail = "concat (map option_enc opts) @ rest"
  have d: "drop n d = option_enc opt @ ?tail" using Cons.prems(2) by simp
  have IH: "parse_options d hi (n + length (option_enc opt)) = Inr opts"
    by (rule Cons.IH) (use Cons.prems drop_skip [OF d] in \<open>simp_all add: add.assoc\<close>)
  show ?case
  proof (cases "opt = Nop")
    case True
    then have "d ! n = TCP_OPT_NOP" using drop_at_prefix [OF d, of 0] by (simp add: option_enc_Nop)
    with True IH Cons.prems(3) show ?thesis
      by (subst parse_options.simps) (simp add: option_enc_Nop tcp_opt_defs)
  next
    case False
    with Cons.prems(1) have "option_ok opt" by simp
    note one = parse_option_enc [OF this False d]
    with IH Cons.prems(3) show ?thesis
      by (subst parse_options.simps) (auto simp: Let_def)
  qed
qed

section \<open>Round trip\<close>

lemma tcp_buf_nth:
  assumes "b = write_at 16 (u16_to_be c)
      (tcp_header_bytes sp dp seqn ackn off flags wnd @ opts @ pl)"
  shows "read_u16 0 b = sp" "read_u16 2 b = dp" "read_u32 4 b = seqn" "read_u32 8 b = ackn"
    "b ! 12 = push_bit 4 off AND 0xF0" "b ! 13 = flags_to_u8 flags" "read_u16 14 b = wnd"
    "read_u16 16 b = c" "read_u16 18 b = 0" "length b = 20 + length opts + length pl"
    "drop 20 b = opts @ pl" "drop (20 + length opts) b = pl"
  unfolding assms
  by (simp_all add: write_at_def tcp_header_bytes_def u16_to_be_def u32_to_be_def read_u16_def
      read_u32_def) (simp_all add: u16_from_be_def numeral_eq_Suc)

lemma data_offset_nibble:
  assumes "m \<le> 15"
  shows "drop_bit 4 (push_bit 4 (of_nat m :: u8) AND 0xF0) = of_nat m"
proof -
  have "list_all (\<lambda>m. drop_bit 4 (push_bit 4 (of_nat m :: u8) AND 0xF0) = of_nat m) [0..<16]"
    by code_simp
  with assms show ?thesis by (simp add: list_all_iff)
qed

text \<open>The number of padding \<open>NOP\<close> options the serializer appends.\<close>

definition option_padding :: "TcpOption list \<Rightarrow> nat" where
  "option_padding opts = (4 - length (concat (map option_enc opts)) mod 4) mod 4"

lemma padded_length:
  fixes n :: nat
  shows "\<exists>k. n + (4 - n mod 4) mod 4 = 4 * k \<and> (n \<le> 40 \<longrightarrow> k \<le> 10)"
proof -
  define q where "q = n div 4"
  have n: "n = 4 * q + n mod 4" by (simp add: q_def)
  consider "n mod 4 = 0" | "n mod 4 = 1" | "n mod 4 = 2" | "n mod 4 = 3" by linarith
  then show ?thesis
  proof cases
    case 1 then show ?thesis using n by (intro exI [of _ q]) simp
  next
    case 2 then show ?thesis using n by (intro exI [of _ "Suc q"]) simp
  next
    case 3 then show ?thesis using n by (intro exI [of _ "Suc q"]) simp
  next
    case 4 then show ?thesis using n by (intro exI [of _ "Suc q"]) simp
  qed
qed

lemma segment_parse_serialize:
  assumes ok: "\<forall>opt \<in> set opts. option_ok opt"
    and olen: "length (concat (map option_enc opts)) \<le> 40" and plen: "length payload \<le> 65475"
  shows "\<exists>buf csum off. try_serialize_with_options src dst sp dp seqn ackn flags wnd opts payload = Inr buf \<and>
    tcp_parse src dst buf True = Inr \<lparr> seg_src_port = sp, seg_dst_port = dp, seg_seq_num = seqn,
      seg_ack_num = ackn, seg_data_offset = off, seg_flags = flags, seg_window_size = wnd,
      seg_checksum = csum, seg_urgent_ptr = 0, seg_options = opts @ replicate (option_padding opts) Nop,
      seg_payload = payload \<rparr>"
proof -
  define all where "all = opts @ replicate (option_padding opts) Nop"
  define ob where "ob = concat (map option_enc all)"
  have pad: "pad_options (concat (map option_enc opts)) = ob"
    by (simp add: pad_options_eq ob_def all_def option_padding_def option_enc_Nop map_replicate_const)
  have len: "length ob = length (concat (map option_enc opts)) + option_padding opts"
    by (simp add: ob_def all_def option_enc_Nop map_replicate_const)
  obtain k where k: "length ob = 4 * k" and k10: "k \<le> 10"
    using padded_length [of "length (concat (map option_enc opts))"] olen
    unfolding len option_padding_def by auto
  define off :: u8 where "off = of_nat (5 + k)"
  define buf0 where "buf0 = tcp_header_bytes sp dp seqn ackn off flags wnd @ ob @ payload"
  define csum where "csum = compute_ipv4_transport_checksum src dst 6 buf0"
  define buf where "buf = write_at 16 (u16_to_be csum) buf0"
  have ser: "try_serialize_with_options src dst sp dp seqn ackn flags wnd opts payload = Inr buf"
    using options_loop_ok [OF ok, of "[]"] olen k k10
    by (simp add: try_serialize_with_options_def TCP_MAX_OPTIONS_LEN_def TCP_MIN_HEADER_LEN_def pad Let_def
        buf_def csum_def buf0_def off_def)
  note nth = tcp_buf_nth [OF buf_def [unfolded buf0_def]]
  have nib: "drop_bit 4 (push_bit 4 off AND 0xF0) = off"
    unfolding off_def by (rule data_offset_nibble) (use k10 in simp)
  have uoff: "unat off = 5 + k"
    unfolding off_def by (simp only: unat_of_nat) (use k10 in simp)
  have "buf0 ! 16 = 0" "buf0 ! (16 + 1) = 0"
    by (simp_all add: buf0_def tcp_header_bytes_def u16_to_be_def u32_to_be_def)
  then have "verify_ipv4_transport_checksum src dst 6 buf"
    unfolding buf_def csum_def
    by (intro transport_checksum.seal_verifies)
       (use plen k k10 in \<open>simp_all add: buf0_def tcp_header_bytes_def\<close>)
  moreover have "parse_options buf (unat off * 4) 20 = Inr all"
    by (rule parse_options_enc [of _ 20 _ payload])
       (use ok k uoff in \<open>simp_all add: nth flip: ob_def, auto simp: all_def\<close>)
  moreover have "\<not> off < 5" using uoff by (simp add: word_less_nat_alt)
  moreover have b12: "drop_bit 4 (buf ! 12) = off" using nib by (simp only: nth)
  moreover have dr: "drop (20 + k * 4) buf = payload" using nth(12) k by (simp add: mult.commute)
  ultimately have "tcp_parse src dst buf True = Inr \<lparr> seg_src_port = sp, seg_dst_port = dp,
      seg_seq_num = seqn, seg_ack_num = ackn, seg_data_offset = off, seg_flags = flags,
      seg_window_size = wnd, seg_checksum = csum, seg_urgent_ptr = 0, seg_options = all,
      seg_payload = payload \<rparr>"
    using uoff k by (simp add: tcp_parse_def TCP_MIN_HEADER_LEN_def nth(1-4,6-10) b12 dr flags_roundtrip)
  with ser show ?thesis unfolding all_def by blast
qed

text \<open>A TCP segment survives the wire: with any ports, numbers, flags, window, payload and any
  options that fit in the 40 bytes of option space, serialization succeeds and a checksum-verifying
  parse gives back exactly those fields, the options followed only by the \<open>NOP\<close>s that pad them to
  a word boundary.  Options beyond 40 bytes are refused, which the panicking serializer turns into
  a panic.\<close>
theorem segment_roundtrip:
  assumes ok: "\<forall>opt \<in> set opts. option_ok opt" and plen: "length payload \<le> 65475"
  shows "(length (concat (map option_enc opts)) \<le> 40 \<longrightarrow>
      (\<exists>buf csum off. serialize_with_options src dst sp dp seqn ackn flags wnd opts payload = Some buf \<and>
        tcp_parse src dst buf True = Inr \<lparr> seg_src_port = sp, seg_dst_port = dp, seg_seq_num = seqn,
          seg_ack_num = ackn, seg_data_offset = off, seg_flags = flags, seg_window_size = wnd,
          seg_checksum = csum, seg_urgent_ptr = 0,
          seg_options = opts @ replicate (option_padding opts) Nop, seg_payload = payload \<rparr>)) \<and>
    (40 < length (concat (map option_enc opts)) \<longrightarrow>
      serialize_with_options src dst sp dp seqn ackn flags wnd opts payload = None)"
proof (intro conjI impI)
  assume "length (concat (map option_enc opts)) \<le> 40"
  from segment_parse_serialize [OF ok this plen, of src dst sp dp seqn ackn flags wnd]
  show "\<exists>buf csum off. serialize_with_options src dst sp dp seqn ackn flags wnd opts payload = Some buf \<and>
      tcp_parse src dst buf True = Inr \<lparr> seg_src_port = sp, seg_dst_port = dp, seg_seq_num = seqn,
        seg_ack_num = ackn, seg_data_offset = off, seg_flags = flags, seg_window_size = wnd,
        seg_checksum = csum, seg_urgent_ptr = 0,
        seg_options = opts @ replicate (option_padding opts) Nop, seg_payload = payload \<rparr>"
    unfolding serialize_with_options_def by fastforce
next
  assume "40 < length (concat (map option_enc opts))"
  with options_loop_too_long [OF ok, of "[]"]
  show "serialize_with_options src dst sp dp seqn ackn flags wnd opts payload = None"
    by (auto simp: serialize_with_options_def try_serialize_with_options_def TCP_MAX_OPTIONS_LEN_def)
qed

theorem segment_roundtrip_witness:
  "\<exists>buf. serialize_with_options (O4 10 0 0 1) (O4 10 0 0 2) 4000 80 7 9 flags_syn 1024
       [Mss 1460, SackPermitted, Timestamp 5 0] [1, 2, 3] = Some buf \<and>
     seg_options (projr (tcp_parse (O4 10 0 0 1) (O4 10 0 0 2) buf True)) =
       [Mss 1460, SackPermitted, Timestamp 5 0] \<and>
     seg_payload (projr (tcp_parse (O4 10 0 0 1) (O4 10 0 0 2) buf True)) = [1, 2, 3]"
  using segment_roundtrip [of "[Mss 1460, SackPermitted, Timestamp 5 0]" "[1, 2, 3]"
      "O4 10 0 0 1" "O4 10 0 0 2" 4000 80 7 9 flags_syn 1024]
  by (auto simp: option_padding_def option_enc_def)

text \<open>Serialization fails exactly when the options do not fit.\<close>

lemma serialize_with_options_iff:
  assumes "\<forall>opt \<in> set opts. option_ok opt"
  shows "serialize_with_options src dst sp dp seqn ackn flags wnd opts payload = None \<longleftrightarrow>
    40 < length (concat (map option_enc opts))"
proof (cases "length (concat (map option_enc opts)) \<le> 40")
  case True
  obtain k where "length (concat (map option_enc opts)) + option_padding opts = 4 * k" "k \<le> 10"
    using padded_length [of "length (concat (map option_enc opts))"] True by (auto simp: option_padding_def)
  then have "length (pad_options (concat (map option_enc opts))) \<le> 40"
    by (simp add: pad_options_eq option_padding_def)
  with True show ?thesis using options_loop_ok [OF assms, of "[]"]
    by (simp add: serialize_with_options_def try_serialize_with_options_def TCP_MAX_OPTIONS_LEN_def Let_def)
next
  case False
  then show ?thesis using options_loop_too_long [OF assms, of "[]"]
    by (auto simp: serialize_with_options_def try_serialize_with_options_def TCP_MAX_OPTIONS_LEN_def)
qed

end
