(* ===== verification/TcpSeq.thy ===== *)
theory TcpSeq
  imports Prelude
begin

unbundle bit_operations_syntax

text \<open>
  The serial-number arithmetic of \<open>tcp_seq.rs\<close> on 32-bit sequence numbers.  Two sequence
  numbers that lie at most \<open>2 ^ 31 - 1\<close> positions from a common base are compared as their
  distances from that base, however the base wraps; on the whole ring the comparison is
  neither transitive nor antisymmetric, which \<open>seq_lt_half_ring\<close> records.
\<close>

definition seq_lt :: "u32 \<Rightarrow> u32 \<Rightarrow> bool" where
  "seq_lt s1 s2 = (sint (s1 - s2) < 0)"

definition seq_le :: "u32 \<Rightarrow> u32 \<Rightarrow> bool" where
  "seq_le s1 s2 = (sint (s1 - s2) \<le> 0)"

definition seq_gt :: "u32 \<Rightarrow> u32 \<Rightarrow> bool" where
  "seq_gt s1 s2 = (sint (s1 - s2) > 0)"

definition seq_ge :: "u32 \<Rightarrow> u32 \<Rightarrow> bool" where
  "seq_ge s1 s2 = (sint (s1 - s2) \<ge> 0)"

definition seq_diff :: "u32 \<Rightarrow> u32 \<Rightarrow> u32" where
  "seq_diff s2 s1 = s2 - s1"

lemmas seq_defs = seq_lt_def seq_le_def seq_gt_def seq_ge_def seq_diff_def

lemma sint_of_int_small:
  "- (2 ^ 31) \<le> x \<Longrightarrow> x < 2 ^ 31 \<Longrightarrow> sint (word_of_int x :: u32) = x"
  by (simp add: signed_of_int signed_take_bit_int_eq_self)

lemma seq_sub_sint:
  fixes base :: u32
  assumes "\<bar>i - j\<bar> < 2 ^ 31"
  shows "sint ((base + word_of_int i) - (base + word_of_int j)) = i - j"
proof -
  have "(base + word_of_int i) - (base + word_of_int j) = word_of_int (i - j)"
    by simp
  moreover have "sint (word_of_int (i - j) :: u32) = i - j"
    by (rule sint_of_int_small) (use assms in linarith)+
  ultimately show ?thesis by simp
qed

lemma seq_sub_sint_nat:
  "\<bar>int i - int j\<bar> < 2 ^ 31 \<Longrightarrow>
   sint ((base + of_nat i) - (base + of_nat j) :: u32) = int i - int j"
  using seq_sub_sint [of "int i" "int j" base] by simp

text \<open>The comparisons on offsets from a common base; the form the receive path uses.\<close>

lemma seq_base_simps:
  fixes base :: u32
  assumes "\<bar>int i - int j\<bar> < 2 ^ 31"
  shows "seq_lt (base + of_nat i) (base + of_nat j) \<longleftrightarrow> i < j"
    and "seq_le (base + of_nat i) (base + of_nat j) \<longleftrightarrow> i \<le> j"
    and "seq_gt (base + of_nat i) (base + of_nat j) \<longleftrightarrow> i > j"
    and "seq_ge (base + of_nat i) (base + of_nat j) \<longleftrightarrow> i \<ge> j"
  unfolding seq_defs seq_sub_sint_nat [OF assms] by auto

lemma seq_diff_base:
  fixes base :: u32
  assumes "j \<le> i" and "i - j < 2 ^ 32"
  shows "unat (seq_diff (base + of_nat i) (base + of_nat j)) = i - j"
proof -
  have "(base + of_nat i) - (base + of_nat j) = (of_nat (i - j) :: u32)"
    using assms(1) by (simp add: of_nat_diff)
  then show ?thesis using assms(2) by (simp add: seq_diff_def unat_of_nat)
qed

text \<open>C32: sequence numbers are compared correctly across the wrap of the 32-bit ring: for
  positions \<open>i\<close> and \<open>j\<close> of a byte stream that starts at any initial sequence number and that
  are less than \<open>2 ^ 31\<close> apart, the four comparisons of the wrapped numbers are the
  comparisons of the positions, and \<open>seq_diff\<close> is their distance.\<close>
theorem seq_compare_wrap_safe:
  fixes isn :: u32
  assumes "\<bar>int i - int j\<bar> < 2 ^ 31"
  shows "(seq_lt (isn + of_nat i) (isn + of_nat j) \<longleftrightarrow> i < j) \<and>
         (seq_le (isn + of_nat i) (isn + of_nat j) \<longleftrightarrow> i \<le> j) \<and>
         (seq_gt (isn + of_nat i) (isn + of_nat j) \<longleftrightarrow> i > j) \<and>
         (seq_ge (isn + of_nat i) (isn + of_nat j) \<longleftrightarrow> i \<ge> j) \<and>
         (j \<le> i \<longrightarrow> unat (seq_diff (isn + of_nat i) (isn + of_nat j)) = i - j)"
  using assms seq_base_simps [OF assms] seq_diff_base [of j i isn] by auto

theorem seq_compare_wrap_safe_witness:
  "seq_lt (0xFFFFFFFE + of_nat 0) (0xFFFFFFFE + of_nat 7) \<and>
   (0xFFFFFFFE + of_nat 7 :: u32) = 5 \<and>
   unat (seq_diff (0xFFFFFFFE + of_nat 7) (0xFFFFFFFE + of_nat 0)) = 7"
  using seq_compare_wrap_safe [of 0 7 "0xFFFFFFFE"] seq_compare_wrap_safe [of 7 0 "0xFFFFFFFE"]
  by simp

text \<open>Half a ring apart, each of two sequence numbers is before the other.\<close>

lemma seq_lt_half_ring: "seq_lt s (s + 2 ^ 31) \<and> seq_lt (s + 2 ^ 31) s"
  by (simp add: seq_lt_def)

lemma seq_lt_irrefl: "\<not> seq_lt s s"
  by (simp add: seq_lt_def)

lemma seq_le_refl [simp]: "seq_le s s" and seq_ge_refl [simp]: "seq_ge s s"
  by (simp_all add: seq_defs)

lemma sint_sub_eq_0: "sint (a - b) = 0 \<longleftrightarrow> a = (b :: u32)"
  by (simp add: signed_eq_0_iff)

lemma seq_le_lt: "seq_le a b \<longleftrightarrow> seq_lt a b \<or> a = b"
  by (auto simp: seq_defs le_less sint_sub_eq_0)

lemma seq_ge_gt: "seq_ge a b \<longleftrightarrow> seq_gt a b \<or> a = b"
  by (auto simp: seq_defs le_less sint_sub_eq_0)

lemma seq_not_le: "\<not> seq_le a b \<longleftrightarrow> seq_gt a b"
  by (auto simp: seq_defs)

lemma seq_not_lt: "\<not> seq_lt a b \<longleftrightarrow> seq_ge a b"
  by (auto simp: seq_defs)

text \<open>What a comparison says about the distance, with no assumption on the two numbers.\<close>

lemma seq_le_diff:
  assumes le: "seq_le s r"
  shows "unat (r - s) \<le> 2 ^ 31"
proof (rule ccontr)
  assume big: "\<not> ?thesis"
  define k where "k = unat (r - s)"
  have k: "2 ^ 31 < k" "k < 2 ^ 32"
    using big unat_bound [of "r - s"] by (simp_all add: k_def)
  have "s - r = (word_of_int (2 ^ 32 - int k) :: u32)"
    by (simp add: k_def)
  moreover have "sint (word_of_int (2 ^ 32 - int k) :: u32) = 2 ^ 32 - int k"
    by (rule sint_of_int_small) (use k in simp_all)
  ultimately show False using le k by (simp add: seq_le_def)
qed

text \<open>A segment that starts at or before \<open>r\<close> and ends after it has a byte at \<open>r\<close>, however the
  ring wraps.\<close>

lemma seq_straddle:
  assumes "seq_le s r" "\<not> seq_le (s + of_nat n) r"
  shows "unat (seq_diff r s) < n"
proof (rule ccontr)
  assume big: "\<not> ?thesis"
  define k where "k = unat (r - s)"
  have k: "n \<le> k" "k \<le> 2 ^ 31"
    using big seq_le_diff [OF assms(1)] by (simp_all add: k_def seq_diff_def)
  have "s + of_nat n - r = (word_of_int (int n - int k) :: u32)" by (simp add: k_def)
  moreover have "sint (word_of_int (int n - int k) :: u32) = int n - int k"
    by (rule sint_of_int_small) (use k in simp_all)
  ultimately have "sint (s + of_nat n - r) = int n - int k" by (simp only:)
  then show False using assms(2) k by (simp add: seq_le_def)
qed

end
