(* ===== verification/Congestion.thy ===== *)
theory Congestion
  imports Interfaces "HOL-Library.Log_Nat" Complex_Main
begin

unbundle bit_operations_syntax

text \<open>
  Congestion control and the retransmission timeout (\<open>congestion.rs\<close>).  The window is 32-bit
  arithmetic, wrapping where the code uses plain operators and saturating where it says so.
  The \<open>f64\<close> values of the RTT estimator are rational numbers, and every floating-point operation
  is followed by \<open>f64_of\<close>, rounding to nearest (ties to even) with 53 bits and gradual underflow;
  overflow to infinity is not represented: samples are durations in milliseconds, far below the
  range of \<open>f64\<close>.
\<close>

section \<open>Congestion window\<close>

datatype CongestionState = SlowStart | CongestionAvoidance | FastRecovery

record CongestionControl =
  cc_cwnd :: u32
  cc_ssthresh :: u32
  cc_mss :: u32
  cc_dup_ack_count :: u32
  cc_state :: CongestionState
  cc_in_flight :: u32

definition cc_new :: "u32 \<Rightarrow> CongestionControl" where
  "cc_new mss = \<lparr> cc_cwnd = 2 * mss, cc_ssthresh = 65535, cc_mss = mss, cc_dup_ack_count = 0,
     cc_state = SlowStart, cc_in_flight = 0 \<rparr>"

definition on_ack :: "u32 \<Rightarrow> CongestionControl \<Rightarrow> CongestionControl" where
  "on_ack bytes_acked c =
     (let c = (if cc_in_flight c \<ge> bytes_acked
               then c\<lparr> cc_in_flight := cc_in_flight c - bytes_acked \<rparr>
               else c\<lparr> cc_in_flight := 0 \<rparr>)
      in case cc_state c of
           SlowStart \<Rightarrow>
             let c = c\<lparr> cc_cwnd := sat_add (cc_cwnd c) (min bytes_acked (cc_mss c)) \<rparr>;
                 c = (if cc_cwnd c \<ge> cc_ssthresh c then c\<lparr> cc_state := CongestionAvoidance \<rparr> else c)
             in c\<lparr> cc_dup_ack_count := 0 \<rparr>
         | CongestionAvoidance \<Rightarrow>
             let c = (if cc_cwnd c > 0
                      then let increment = ucast ((ucast (cc_mss c) * ucast (cc_mss c) :: u64) div
                                                  ucast (cc_cwnd c)) :: u32
                           in c\<lparr> cc_cwnd := sat_add (cc_cwnd c) (max increment 1) \<rparr>
                      else c)
             in c\<lparr> cc_dup_ack_count := 0 \<rparr>
         | FastRecovery \<Rightarrow>
             c\<lparr> cc_cwnd := cc_ssthresh c, cc_dup_ack_count := 0, cc_state := CongestionAvoidance \<rparr>)"

definition on_dup_ack :: "CongestionControl \<Rightarrow> bool \<times> CongestionControl" where
  "on_dup_ack c =
     (let c = c\<lparr> cc_dup_ack_count := cc_dup_ack_count c + 1 \<rparr>
      in if cc_dup_ack_count c = 3
         then let c = c\<lparr> cc_ssthresh := max (cc_cwnd c div 2) (2 * cc_mss c) \<rparr>;
                  c = c\<lparr> cc_cwnd := cc_ssthresh c + 3 * cc_mss c \<rparr>
              in (True, c\<lparr> cc_state := FastRecovery \<rparr>)
         else if cc_dup_ack_count c > 3 \<and> cc_state c = FastRecovery
         then (False, c\<lparr> cc_cwnd := sat_add (cc_cwnd c) (cc_mss c) \<rparr>)
         else (False, c))"

definition on_timeout :: "CongestionControl \<Rightarrow> CongestionControl" where
  "on_timeout c =
     c\<lparr> cc_ssthresh := max (cc_cwnd c div 2) (2 * cc_mss c), cc_cwnd := cc_mss c,
        cc_dup_ack_count := 0, cc_state := SlowStart \<rparr>"

definition send_window_available :: "CongestionControl \<Rightarrow> u16 \<Rightarrow> u32" where
  "send_window_available c peer_rwnd =
     (let max_window = min (cc_cwnd c) (ucast peer_rwnd) in sat_sub max_window (cc_in_flight c))"

definition record_sent :: "u32 \<Rightarrow> CongestionControl \<Rightarrow> CongestionControl" where
  "record_sent bytes c = c\<lparr> cc_in_flight := cc_in_flight c + bytes \<rparr>"

section \<open>Retransmission timeout\<close>

definition pow2 :: "int \<Rightarrow> rat" where
  "pow2 e = (if 0 \<le> e then 2 ^ nat e else 1 / 2 ^ nat (- e))"

definition ilog2 :: "rat \<Rightarrow> int" where
  "ilog2 x = (let (p, q) = quotient_of x; k = bitlen p - bitlen q in if pow2 k \<le> x then k else k - 1)"

definition round_half_even :: "rat \<Rightarrow> int" where
  "round_half_even x =
     (let f = \<lfloor>x\<rfloor>; d = x - of_int f
      in if d < 1 / 2 then f else if d > 1 / 2 then f + 1 else if even f then f else f + 1)"

definition f64_of :: "rat \<Rightarrow> rat" where
  "f64_of x =
     (if x = 0 then 0
      else let e = max (ilog2 \<bar>x\<bar> - 52) (- 1074) in of_int (round_half_even (x / pow2 e)) * pow2 e)"

definition f64_clamp :: "rat \<Rightarrow> rat \<Rightarrow> rat \<Rightarrow> rat" where
  "f64_clamp x lo hi = (if x < lo then lo else if x > hi then hi else x)"

record RttEstimator =
  rtt_srtt :: "rat option"
  rtt_rttvar :: "rat option"
  rtt_rto :: rat
  rtt_min_rto :: rat
  rtt_max_rto :: rat

definition rtt_new :: RttEstimator where
  "rtt_new = \<lparr> rtt_srtt = None, rtt_rttvar = None, rtt_rto = 1000, rtt_min_rto = 200,
     rtt_max_rto = 60000 \<rparr>"

definition update_sample :: "rat \<Rightarrow> RttEstimator \<Rightarrow> RttEstimator" where
  "update_sample rtt_sample r =
     (case (rtt_srtt r, rtt_rttvar r) of
        (None, _) \<Rightarrow>
          r\<lparr> rtt_srtt := Some rtt_sample, rtt_rttvar := Some (f64_of (rtt_sample / 2)),
             rtt_rto := f64_clamp (f64_of (rtt_sample + f64_of (4 * f64_of (rtt_sample / 2))))
                          (rtt_min_rto r) (rtt_max_rto r) \<rparr>
      | (Some srtt, Some rttvar) \<Rightarrow>
          let new_rttvar = f64_of (f64_of (3 / 4 * rttvar) +
                             f64_of (1 / 4 * \<bar>f64_of (srtt - rtt_sample)\<bar>));
              new_srtt = f64_of (f64_of (7 / 8 * srtt) + f64_of (1 / 8 * rtt_sample))
          in r\<lparr> rtt_srtt := Some new_srtt, rtt_rttvar := Some new_rttvar,
                rtt_rto := f64_clamp (f64_of (new_srtt + f64_of (4 * new_rttvar)))
                             (rtt_min_rto r) (rtt_max_rto r) \<rparr>
      | _ \<Rightarrow> r)"

definition rtt_backoff :: "RttEstimator \<Rightarrow> RttEstimator" where
  "rtt_backoff r = r\<lparr> rtt_rto := min (f64_of (rtt_rto r * 2)) (rtt_max_rto r) \<rparr>"

section \<open>The window never collapses or wraps\<close>

datatype cc_event = CcAck u32 | CcDupAck | CcTimeout | CcSent u32

fun cc_step :: "CongestionControl \<Rightarrow> cc_event \<Rightarrow> CongestionControl" where
  "cc_step c (CcAck n) = on_ack n c"
| "cc_step c CcDupAck = snd (on_dup_ack c)"
| "cc_step c CcTimeout = on_timeout c"
| "cc_step c (CcSent n) = record_sent n c"

definition cc_inv :: "u32 \<Rightarrow> CongestionControl \<Rightarrow> bool" where
  "cc_inv mss c \<longleftrightarrow> cc_mss c = mss \<and> mss \<le> cc_cwnd c \<and>
     (cc_state c = FastRecovery \<longrightarrow> 2 * mss \<le> cc_ssthresh c)"

lemma unat_double: "unat mss \<le> 65535 \<Longrightarrow> unat (2 * mss :: u32) = 2 * unat mss"
  by (simp add: unat_word_ariths)

lemma mss_le_double: "unat mss \<le> 65535 \<Longrightarrow> mss \<le> 2 * (mss :: u32)"
  by (simp add: word_le_nat_alt unat_double)

lemma recovery_window:
  fixes cwnd mss :: u32
  assumes "unat mss \<le> 65535"
  shows "unat (max (cwnd div 2) (2 * mss) + 3 * mss) =
     max (unat cwnd div 2) (2 * unat mss) + 3 * unat mss"
proof -
  have "unat (cwnd div 2) = unat cwnd div 2" by (simp add: unat_div)
  moreover have "unat cwnd div 2 < 2147483648" using unat_bound [of cwnd] by simp
  moreover have "unat (3 * mss) = 3 * unat mss" using assms by (simp add: unat_word_ariths)
  ultimately show ?thesis
    using assms by (simp add: unat_word_ariths(1) unat_max_word unat_double)
qed

lemma cc_step_inv:
  assumes mss: "unat mss \<le> 65535" and inv: "cc_inv mss c"
  shows "cc_inv mss (cc_step c ev)"
proof (cases ev)
  case (CcAck n)
  show ?thesis
  proof (cases "cc_state c")
    case FastRecovery
    then show ?thesis using inv CcAck mss_le_double [OF mss]
      by (auto simp: cc_inv_def on_ack_def Let_def)
  qed (use inv CcAck sat_add_ge [of "cc_cwnd c"] in
      \<open>auto simp: cc_inv_def on_ack_def Let_def intro: order_trans\<close>)
next
  case CcDupAck
  have "unat mss \<le> unat (max (cc_cwnd c div 2) (2 * mss) + 3 * mss)"
    by (simp add: recovery_window [OF mss])
  then show ?thesis using inv CcDupAck sat_add_ge [of "cc_cwnd c" mss]
    by (auto simp: cc_inv_def on_dup_ack_def Let_def word_le_nat_alt unat_max_word)
next
  case CcTimeout
  then show ?thesis using inv by (simp add: cc_inv_def on_timeout_def)
next
  case (CcSent n)
  then show ?thesis using inv by (simp add: cc_inv_def record_sent_def)
qed

lemma cc_new_inv: "unat mss \<le> 65535 \<Longrightarrow> cc_inv mss (cc_new mss)"
  by (simp add: cc_inv_def cc_new_def mss_le_double)

lemma cc_run_inv:
  assumes mss: "unat mss \<le> 65535"
  shows "cc_inv mss (foldl cc_step (cc_new mss) evs)"
proof -
  have "cc_inv mss c \<Longrightarrow> cc_inv mss (foldl cc_step c evs)" for c
    by (induction evs arbitrary: c) (auto intro: cc_step_inv [OF mss])
  then show ?thesis using cc_new_inv [OF mss] by blast
qed



section \<open>The timeout stays in its range\<close>

lemma pow2_powi: "pow2 e = 2 powi e"
  unfolding pow2_def power_int_def inverse_eq_divide by (auto simp only: power_one_over)

lemma pow2_add: "pow2 (a + b) = pow2 a * pow2 b"
  by (simp add: pow2_powi power_int_add)

lemma pow2_pos [simp]: "0 < pow2 e"
  by (simp add: pow2_def)

lemma pow2_le_1: "e \<le> 0 \<Longrightarrow> pow2 e \<le> 1"
  by (simp add: pow2_def)

lemma bitlen_positive: "0 < x \<Longrightarrow> 0 < bitlen x"
  using bitlen_bounds [of x] by (cases "0 < bitlen x") auto

lemma ilog2_le:
  assumes "0 < x"
  shows "pow2 (ilog2 x) \<le> x"
proof -
  obtain p q where pq: "quotient_of x = (p, q)" by fastforce
  have q: "0 < q" using pq by (rule quotient_of_denom_pos)
  have x: "x = of_int p / of_int q" using pq by (rule quotient_of_div)
  have p: "0 < p" using assms q unfolding x by (simp add: zero_less_divide_iff)
  have bp: "2 ^ nat (bitlen p - 1) \<le> p" using bitlen_bounds [OF p] by simp
  have bq: "q < 2 ^ nat (bitlen q)" using bitlen_bounds [OF q] by simp
  have pos: "0 < bitlen p" "0 < bitlen q" using p q by (simp_all add: bitlen_positive)
  let ?k = "bitlen p - bitlen q"
  have "pow2 (bitlen p - 1) \<le> of_int p"
    using bp pos by (simp add: pow2_def)
  moreover have "of_int q \<le> pow2 (bitlen q)"
    using bq pos by (simp add: pow2_def less_imp_le)
  moreover have "pow2 (bitlen p - 1) = pow2 (?k - 1) * pow2 (bitlen q)"
    by (simp flip: pow2_add)
  ultimately have "pow2 (?k - 1) * of_int q \<le> of_int p"
    using mult_left_mono [of "of_int q" "pow2 (bitlen q)" "pow2 (?k - 1)", OF _ less_imp_le [OF pow2_pos]]
    by linarith
  then have "pow2 (?k - 1) \<le> x" using q unfolding x by (simp add: pos_le_divide_eq)
  then show ?thesis by (simp add: ilog2_def pq Let_def)
qed

lemma round_error: "\<bar>of_int (round_half_even x) - x\<bar> \<le> 1 / 2"
proof -
  define f where "f = \<lfloor>x\<rfloor>"
  have "of_int f \<le> x" "x < of_int f + 1" using floor_correct [of x] by (simp_all add: f_def)
  then show ?thesis by (auto simp: round_half_even_def Let_def f_def [symmetric] abs_le_iff)
qed

lemma f64_of_lower:
  assumes "1 \<le> x"
  shows "x * (1 - 1 / 100) \<le> f64_of x"
proof -
  define e where "e = max (ilog2 x - 52) (- 1074)"
  have "pow2 (ilog2 x - 52) \<le> x / 50"
  proof -
    have "pow2 (ilog2 x - 52) = pow2 (ilog2 x) * pow2 (- 52)" by (simp flip: pow2_add)
    also have "\<dots> \<le> x * pow2 (- 52)" using ilog2_le [of x] assms by (intro mult_right_mono) (auto intro: less_imp_le)
    also have "\<dots> \<le> x * (1 / 50)" using assms by (intro mult_left_mono) (auto simp: pow2_def)
    finally show ?thesis by simp
  qed
  moreover have "pow2 (- 1074) \<le> x / 50"
  proof -
    have "pow2 (- 1074) = pow2 (- 1068) * pow2 (- 6)" by (simp flip: pow2_add)
    also have "\<dots> \<le> 1 * pow2 (- 6)" by (intro mult_right_mono) (auto simp: pow2_le_1 less_imp_le)
    also have "\<dots> \<le> x / 50" using assms by (simp add: pow2_def)
    finally show ?thesis .
  qed
  ultimately have small: "pow2 e \<le> x / 50" by (simp add: e_def max_def)
  have "\<bar>of_int (round_half_even (x / pow2 e)) - x / pow2 e\<bar> * pow2 e \<le> 1 / 2 * pow2 e"
    by (intro mult_right_mono round_error) (simp add: less_imp_le)
  moreover have "of_int (round_half_even (x / pow2 e)) * pow2 e - x =
      (of_int (round_half_even (x / pow2 e)) - x / pow2 e) * pow2 e"
    using pow2_pos [of e] by (simp add: left_diff_distrib less_imp_neq [THEN not_sym])
  then have "\<bar>of_int (round_half_even (x / pow2 e)) - x / pow2 e\<bar> * pow2 e =
      \<bar>of_int (round_half_even (x / pow2 e)) * pow2 e - x\<bar>"
    using pow2_pos [of e] by (simp only: abs_mult abs_of_pos)
  ultimately have "\<bar>f64_of x - x\<bar> \<le> x / 100"
    using small assms by (simp add: f64_of_def Let_def e_def [symmetric])
  then have "x - f64_of x \<le> x / 100" by (simp only: abs_le_iff minus_diff_eq)
  then show ?thesis by (simp add: right_diff_distrib)
qed

datatype rtt_event = RttSample rat | RttBackoff

fun rtt_step :: "RttEstimator \<Rightarrow> rtt_event \<Rightarrow> RttEstimator" where
  "rtt_step r (RttSample x) = update_sample x r"
| "rtt_step r RttBackoff = rtt_backoff r"

definition rtt_inv :: "RttEstimator \<Rightarrow> bool" where
  "rtt_inv r \<longleftrightarrow> rtt_min_rto r = 200 \<and> rtt_max_rto r = 60000 \<and> 200 \<le> rtt_rto r \<and> rtt_rto r \<le> 60000"

lemma backoff_grows:
  assumes "rtt_inv r" "a \<le> rtt_rto r" "0 \<le> a"
  shows "rtt_inv (rtt_backoff r)" "min (a * 198 / 100) 60000 \<le> rtt_rto (rtt_backoff r)"
proof -
  have r: "200 \<le> rtt_rto r" "rtt_max_rto r = 60000" "rtt_min_rto r = 200"
    using assms(1) by (simp_all add: rtt_inv_def)
  then have low: "rtt_rto r * 2 * (1 - 1 / 100) \<le> f64_of (rtt_rto r * 2)"
    by (intro f64_of_lower) simp
  then have "a * 198 / 100 \<le> f64_of (rtt_rto r * 2)" using assms(2) by simp
  then show "min (a * 198 / 100) 60000 \<le> rtt_rto (rtt_backoff r)"
    by (simp add: rtt_backoff_def r min_le_iff_disj)
  have "200 \<le> f64_of (rtt_rto r * 2)" using low r(1) by simp
  then show "rtt_inv (rtt_backoff r)" by (simp add: rtt_inv_def rtt_backoff_def r)
qed

interpretation rtt: stepper rtt_step rtt_inv
proof
  fix r ev assume inv: "rtt_inv r"
  show "rtt_inv (rtt_step r ev)"
  proof (cases ev)
    case (RttSample x)
    then show ?thesis using inv
      by (auto simp: rtt_inv_def update_sample_def f64_clamp_def Let_def split: option.splits)
  next
    case RttBackoff
    then show ?thesis using backoff_grows(1) [OF inv, of 0] inv by (simp add: rtt_inv_def)
  qed
qed

lemma backoff_n:
  "rtt_inv r \<Longrightarrow> rtt_inv ((rtt_backoff ^^ n) r) \<and>
     min (200 * (198 / 100) ^ n) 60000 \<le> rtt_rto ((rtt_backoff ^^ n) r)"
proof (induction n)
  case 0
  then show ?case by (auto simp: rtt_inv_def)
next
  case (Suc n)
  let ?a = "min (200 * (198 / 100) ^ n) 60000 :: rat"
  have IH: "rtt_inv ((rtt_backoff ^^ n) r)" "?a \<le> rtt_rto ((rtt_backoff ^^ n) r)" using Suc by auto
  have a: "0 \<le> ?a" by simp
  note g = backoff_grows [OF IH a]
  have "min (200 * (198 / 100) ^ Suc n) 60000 \<le> min (?a * 198 / 100) (60000 :: rat)"
    by (simp add: min_def)
  then show ?case using g by simp
qed

text \<open>The retransmission timeout always lies between 200 ms and 60 s, whatever round-trip times
  are measured and however often it is backed off, with every rounding of the floating-point
  arithmetic accounted for; and nine consecutive timeouts always reach the maximum.\<close>
theorem rto_bounded:
  "let r = foldl rtt_step rtt_new evs in
     200 \<le> rtt_rto r \<and> rtt_rto r \<le> 60000 \<and> rtt_rto ((rtt_backoff ^^ 9) r) = 60000"
proof -
  define r where "r = foldl rtt_step rtt_new evs"
  have inv: "rtt_inv r"
    unfolding r_def by (rule rtt.run_inv) (simp add: rtt_inv_def rtt_new_def)
  have "(60000 :: rat) \<le> 200 * (198 / 100) ^ 9" by (simp add: power_divide)
  then have "60000 \<le> rtt_rto ((rtt_backoff ^^ 9) r)" using backoff_n [OF inv, of 9] by simp
  moreover have "rtt_inv ((rtt_backoff ^^ 9) r)" using backoff_n [OF inv] by blast
  ultimately show ?thesis using inv by (simp add: rtt_inv_def Let_def r_def [symmetric])
qed

text \<open>The send window is respected: a sender that transmits no more than
  \<open>send_window_available\<close> keeps the bytes in flight within both the congestion window and the
  receiver's window whenever anything may be sent at all, and the count does not wrap.\<close>
theorem send_window_respected:
  assumes "unat n \<le> unat (send_window_available c rwnd)" and "0 < unat n"
  shows "unat (cc_in_flight (record_sent n c)) = unat (cc_in_flight c) + unat n \<and>
    unat (cc_in_flight (record_sent n c)) \<le> min (unat (cc_cwnd c)) (unat rwnd)"
proof -
  have "unat (ucast rwnd :: u32) = unat rwnd" by (rule unat_ucast_up) simp
  then have "unat n \<le> min (unat (cc_cwnd c)) (unat rwnd) - unat (cc_in_flight c)"
    using assms(1) by (simp add: send_window_available_def Let_def sat_simps)
  then have le: "unat (cc_in_flight c) + unat n \<le> min (unat (cc_cwnd c)) (unat rwnd)"
    using assms(2) by linarith
  moreover have "unat rwnd < 65536" using unat_bound [of rwnd] by simp
  ultimately show ?thesis by (simp add: record_sent_def unat_word_ariths)
qed

theorem send_window_respected_witness:
  "unat (cc_in_flight (record_sent 1000 (cc_new 1460))) \<le> min (unat (cc_cwnd (cc_new 1460))) (unat (2000 :: u16))"
  using send_window_respected [of 1000 "cc_new 1460" 2000]
  by (simp add: send_window_available_def cc_new_def sat_sub_def min_def)

end
