(* ===== verification/Comparators.thy ===== *)
theory Comparators
  imports Prelude "HOL-Library.Multiset"
begin

text \<open>
  The comparison interface of Rust's standard library that the routing table and the TCP
  receive queue use: \<open>Ordering\<close> with \<open>then\<close>, the derived comparisons of numbers, options and
  byte strings, the stable \<open>sort_by\<close> and \<open>max_by\<close> (which returns the last of several maxima).
  The locale \<open>comparator\<close> states that a comparison function is a total preorder.
\<close>

section \<open>Definitions\<close>

datatype cmp_ordering = OLess | OEqual | OGreater

definition cmp_of :: "'a::linorder \<Rightarrow> 'a \<Rightarrow> cmp_ordering" where
  "cmp_of a b = (if a < b then OLess else if a = b then OEqual else OGreater)"

fun cmp_then :: "cmp_ordering \<Rightarrow> cmp_ordering \<Rightarrow> cmp_ordering" where
  "cmp_then OEqual o2 = o2"
| "cmp_then o1 _ = o1"

fun cmp_list :: "'a::linorder list \<Rightarrow> 'a list \<Rightarrow> cmp_ordering" where
  "cmp_list [] [] = OEqual"
| "cmp_list [] (_ # _) = OLess"
| "cmp_list (_ # _) [] = OGreater"
| "cmp_list (x # xs) (y # ys) = cmp_then (cmp_of x y) (cmp_list xs ys)"

fun cmp_option :: "'a::linorder option \<Rightarrow> 'a option \<Rightarrow> cmp_ordering" where
  "cmp_option None None = OEqual"
| "cmp_option None (Some _) = OLess"
| "cmp_option (Some _) None = OGreater"
| "cmp_option (Some x) (Some y) = cmp_of x y"

fun insert_by :: "('a \<Rightarrow> 'a \<Rightarrow> cmp_ordering) \<Rightarrow> 'a \<Rightarrow> 'a list \<Rightarrow> 'a list" where
  "insert_by cmp x [] = [x]"
| "insert_by cmp x (y # ys) =
     (if cmp x y = OGreater then y # insert_by cmp x ys else x # y # ys)"

fun sort_by :: "('a \<Rightarrow> 'a \<Rightarrow> cmp_ordering) \<Rightarrow> 'a list \<Rightarrow> 'a list" where
  "sort_by cmp [] = []"
| "sort_by cmp (x # xs) = insert_by cmp x (sort_by cmp xs)"

definition max_by :: "('a \<Rightarrow> 'a \<Rightarrow> cmp_ordering) \<Rightarrow> 'a list \<Rightarrow> 'a option" where
  "max_by cmp xs =
     (case xs of
        [] \<Rightarrow> None
      | x # rest \<Rightarrow> Some (foldl (\<lambda>a b. if cmp a b = OGreater then a else b) x rest))"

section \<open>Total preorders\<close>

locale comparator =
  fixes cmp :: "'a \<Rightarrow> 'a \<Rightarrow> cmp_ordering"
  assumes greater_iff: "cmp x y = OGreater \<longleftrightarrow> cmp y x = OLess"
    and le_trans: "cmp x y \<noteq> OGreater \<Longrightarrow> cmp y z \<noteq> OGreater \<Longrightarrow> cmp x z \<noteq> OGreater"
begin

lemma total: "cmp x y \<noteq> OGreater \<or> cmp y x \<noteq> OGreater"
  using greater_iff by (metis cmp_ordering.distinct(3))

lemma self_le: "cmp x x \<noteq> OGreater"
  using total by blast

lemma equal_iff: "cmp x y = OEqual \<longleftrightarrow> cmp x y \<noteq> OGreater \<and> cmp y x \<noteq> OGreater"
  using greater_iff by (metis cmp_ordering.distinct(5) cmp_ordering.distinct(3) cmp_ordering.exhaust)

lemma sorted_insert_by:
  "sorted_wrt (\<lambda>x y. cmp x y \<noteq> OGreater) xs \<Longrightarrow>
   sorted_wrt (\<lambda>x y. cmp x y \<noteq> OGreater) (insert_by cmp x xs)"
proof (induction xs)
  case (Cons y ys)
  have set: "set (insert_by cmp x ys) = insert x (set ys)"
    by (induction ys) auto
  show ?case
  proof (cases "cmp x y = OGreater")
    case True
    then have "cmp y x \<noteq> OGreater" using total by blast
    with True Cons set show ?thesis by auto
  next
    case False
    with Cons.prems le_trans show ?thesis by auto
  qed
qed simp

lemma sorted_sort_by: "sorted_wrt (\<lambda>x y. cmp x y \<noteq> OGreater) (sort_by cmp xs)"
  by (induction xs) (auto intro: sorted_insert_by)

text \<open>Where only equal elements compare as equal, a sorted list is determined by its elements.\<close>

lemma sorted_unique:
  assumes "\<And>x y. cmp x y = OEqual \<Longrightarrow> x = y"
    "sorted_wrt (\<lambda>x y. cmp x y \<noteq> OGreater) xs" "sorted_wrt (\<lambda>x y. cmp x y \<noteq> OGreater) ys" "mset xs = mset ys"
  shows "xs = ys"
  using assms(2-)
proof (induction xs arbitrary: ys)
  case (Cons x xs)
  then obtain y ys' where ys: "ys = y # ys'" by (cases ys) auto
  have "x \<in> set (y # ys')" "y \<in> set (x # xs)"
    using Cons.prems(3) ys by (metis list.set_intros(1) set_mset_mset)+
  then have "cmp x y \<noteq> OGreater" "cmp y x \<noteq> OGreater" using Cons.prems(1,2) ys self_le by auto
  then have "x = y" using assms(1) equal_iff by blast
  then show ?case using Cons ys by auto
qed simp

lemma sort_by_sorted: "sorted_wrt (\<lambda>x y. cmp x y \<noteq> OGreater) xs \<Longrightarrow> sort_by cmp xs = xs"
proof (induction xs)
  case (Cons x xs)
  then show ?case by (cases xs) auto
qed simp

lemma filter_insert_by:
  "sorted_wrt (\<lambda>x y. cmp x y \<noteq> OGreater) ys \<Longrightarrow>
   filter P (insert_by cmp x ys) = (if P x then insert_by cmp x (filter P ys) else filter P ys)"
proof (induction ys)
  case (Cons y ys)
  show ?case
  proof (cases "cmp x y = OGreater")
    case False
    then have "insert_by cmp x (filter P ys) = x # filter P ys"
      using Cons.prems le_trans [of x y] by (cases "filter P ys") (auto dest: filter_eq_ConsD)
    then show ?thesis using Cons False by auto
  qed (use Cons in auto)
qed simp

lemma filter_sort_by: "filter P (sort_by cmp xs) = sort_by cmp (filter P xs)"
  by (induction xs) (simp_all add: filter_insert_by sorted_sort_by)

lemma fold_max:
  "let r = foldl (\<lambda>a b. if cmp a b = OGreater then a else b) x xs
   in r \<in> insert x (set xs) \<and> (\<forall>y \<in> insert x (set xs). cmp y r \<noteq> OGreater)"
proof (induction xs arbitrary: x)
  case Nil
  then show ?case by (simp add: self_le)
next
  case (Cons y ys)
  let ?m = "if cmp x y = OGreater then x else y"
  let ?r = "foldl (\<lambda>a b. if cmp a b = OGreater then a else b) ?m ys"
  have r: "?r \<in> insert ?m (set ys)" "\<forall>z \<in> insert ?m (set ys). cmp z ?r \<noteq> OGreater"
    using Cons.IH [of ?m] by (auto simp: Let_def)
  have le: "cmp x ?m \<noteq> OGreater" "cmp y ?m \<noteq> OGreater"
    using total [of x y] self_le by auto
  have m: "cmp ?m ?r \<noteq> OGreater" using r(2) by blast
  have "cmp x ?r \<noteq> OGreater" "cmp y ?r \<noteq> OGreater"
    using le_trans [OF le(1) m] le_trans [OF le(2) m] by auto
  with r show ?case by (auto simp: Let_def split: if_splits)
qed

lemma max_by_None: "max_by cmp xs = None \<longleftrightarrow> xs = []"
  by (simp add: max_by_def split: list.split)

lemma max_by_Some: "max_by cmp xs = Some r \<Longrightarrow> r \<in> set xs \<and> (\<forall>y \<in> set xs. cmp y r \<noteq> OGreater)"
  using fold_max by (auto simp: max_by_def Let_def split: list.splits)

text \<open>Where only equal elements compare as equal, the maximum depends on the set alone, and
  elements that are not the maximum can be dropped.\<close>

lemma max_by_unique:
  assumes strict: "\<And>x y. x \<in> set xs \<Longrightarrow> y \<in> set xs \<Longrightarrow> cmp x y = OEqual \<Longrightarrow> x = y"
    and r: "max_by cmp xs = Some r" and sub: "set ys \<subseteq> set xs" "r \<in> set ys"
  shows "max_by cmp ys = Some r"
proof -
  obtain q where q: "max_by cmp ys = Some q"
    using sub(2) max_by_None [of ys] by fastforce
  then have "q \<in> set ys" "cmp r q \<noteq> OGreater" using max_by_Some [OF q] sub(2) by auto
  moreover have "cmp q r \<noteq> OGreater" "r \<in> set xs" using max_by_Some [OF r] sub(1) \<open>q \<in> set ys\<close> by auto
  ultimately have "q = r" using strict equal_iff sub(1) by blast
  then show ?thesis using q by simp
qed

end

lemma mset_insert_by [simp]: "mset (insert_by cmp x xs) = add_mset x (mset xs)"
  by (induction xs) auto

lemma mset_sort_by [simp]: "mset (sort_by cmp xs) = mset xs"
  by (induction xs) auto

lemma set_sort_by [simp]: "set (sort_by cmp xs) = set xs"
  by (metis mset_sort_by set_mset_mset)

lemma length_sort_by [simp]: "length (sort_by cmp xs) = length xs"
  by (metis mset_sort_by size_mset)

section \<open>The standard comparisons\<close>

lemma cmp_of_simps:
  "cmp_of a b = OGreater \<longleftrightarrow> b < a" "cmp_of a b = OLess \<longleftrightarrow> a < b" "cmp_of a b = OEqual \<longleftrightarrow> a = b"
  by (auto simp: cmp_of_def)

lemma cmp_then_simps:
  "cmp_then p q = OGreater \<longleftrightarrow> p = OGreater \<or> p = OEqual \<and> q = OGreater"
  "cmp_then p q = OLess \<longleftrightarrow> p = OLess \<or> p = OEqual \<and> q = OLess"
  "cmp_then p q = OEqual \<longleftrightarrow> p = OEqual \<and> q = OEqual"
  by (cases p; simp)+

interpretation cmp_of: comparator cmp_of
  by unfold_locales (auto simp: cmp_of_simps)

lemma comparator_then:
  assumes "comparator c" and "comparator d"
  shows "comparator (\<lambda>x y. cmp_then (c x y) (d x y))"
proof -
  have c: "c x y = OGreater \<longleftrightarrow> c y x = OLess"
    "c x y \<noteq> OGreater \<Longrightarrow> c y z \<noteq> OGreater \<Longrightarrow> c x z \<noteq> OGreater" for x y z
    using assms(1) by (metis comparator.greater_iff, metis comparator.le_trans)
  have d: "d x y = OGreater \<longleftrightarrow> d y x = OLess"
    "d x y \<noteq> OGreater \<Longrightarrow> d y z \<noteq> OGreater \<Longrightarrow> d x z \<noteq> OGreater" for x y z
    using assms(2) by (metis comparator.greater_iff, metis comparator.le_trans)
  have eq: "c x y = OEqual \<longleftrightarrow> c x y \<noteq> OGreater \<and> c y x \<noteq> OGreater" for x y
    using assms(1) by (rule comparator.equal_iff)
  show ?thesis
  proof
    show "cmp_then (c x y) (d x y) = OGreater \<longleftrightarrow> cmp_then (c y x) (d y x) = OLess" for x y
      using c(1) [of x y] d(1) [of x y] eq [of x y] eq [of y x] by (auto simp: cmp_then_simps)
    show "cmp_then (c x z) (d x z) \<noteq> OGreater"
      if "cmp_then (c x y) (d x y) \<noteq> OGreater" "cmp_then (c y z) (d y z) \<noteq> OGreater" for x y z
      using that c(2) [of x y z] c(2) [of z x y] c(2) [of y z x] d(2) [of x y z] eq
      by (auto simp: cmp_then_simps)
  qed
qed

lemma comparator_map: "comparator c \<Longrightarrow> comparator (\<lambda>x y. c (f x) (f y))"
  unfolding comparator_def by blast

lemma comparator_flip: "comparator c \<Longrightarrow> comparator (\<lambda>x y. c y x)"
  unfolding comparator_def by blast

lemma comparator_list: "comparator (cmp_list :: 'a::linorder list \<Rightarrow> _)"
proof
  show "cmp_list x y = OGreater \<longleftrightarrow> cmp_list y x = OLess" for x y :: "'a list"
    by (induction x y rule: cmp_list.induct) (auto simp: cmp_then_simps cmp_of_simps)
  show "cmp_list x y \<noteq> OGreater \<Longrightarrow> cmp_list y z \<noteq> OGreater \<Longrightarrow> cmp_list x z \<noteq> OGreater"
    for x y z :: "'a list"
  proof (induction x y arbitrary: z rule: cmp_list.induct)
    case (1 z) then show ?case by simp
  next
    case (2 b bs z) then show ?case by (cases z) auto
  next
    case (4 a as b bs z)
    then show ?case by (cases z) (auto simp: cmp_then_simps cmp_of_simps)
  qed simp
qed

lemma cmp_list_equal: "cmp_list xs ys = OEqual \<longleftrightarrow> xs = ys"
  by (induction xs ys rule: cmp_list.induct) (auto simp: cmp_then_simps cmp_of_simps)

lemma comparator_option: "comparator (cmp_option :: 'a::linorder option \<Rightarrow> _)"
proof
  show "cmp_option x y = OGreater \<longleftrightarrow> cmp_option y x = OLess" for x y :: "'a option"
    by (cases x; cases y) (auto simp: cmp_of_simps)
  show "cmp_option x y \<noteq> OGreater \<Longrightarrow> cmp_option y z \<noteq> OGreater \<Longrightarrow> cmp_option x z \<noteq> OGreater"
    for x y z :: "'a option"
    by (cases x; cases y; cases z) (auto simp: cmp_of_simps)
qed

lemma cmp_option_equal: "cmp_option x y = OEqual \<longleftrightarrow> x = y"
  by (cases x; cases y) (auto simp: cmp_of_simps)

end
