(* ===== verification/TcpConnection.thy ===== *)
theory TcpConnection
  imports TcpSegment TcpSeq Congestion Comparators "HOL-Library.Monad_Syntax"
begin

text \<open>
  One TCP connection (\<open>tcp.rs\<close>, \<open>TcpConnection\<close>): its state, the reassembly queue, the
  retransmission queue, the segment handler with one definition per state, and the periodic pump
  \<open>poll_output\<close>.  Every operation takes the connection last and returns the new one; an operation
  that serializes a segment is a \<open>may_panic\<close> value, because the serializer panics when the options
  do not fit.  The theorems about the receiving side are in \<open>TcpReceive\<close>, those about the sending
  side in \<open>TcpSend\<close>.
\<close>

section \<open>State\<close>

definition MAX_RETRANSMITS :: u32 where "MAX_RETRANSMITS = 12"
definition MAX_OOO_BYTES :: nat where "MAX_OOO_BYTES = 262144"
definition TIME_WAIT_MS :: u64 where "TIME_WAIT_MS = 2000"
definition PERSIST_INTERVAL_MS :: u64 where "PERSIST_INTERVAL_MS = 500"
definition SND_BUFFER_CAPACITY :: nat where "SND_BUFFER_CAPACITY = 262144"

datatype TcpState = Closed | Listen | SynSent | SynReceived | Established | FinWait1 | FinWait2
  | CloseWait | Closing | LastAck | TimeWait

record SocketAddrV4 =
  sock_ip :: Ipv4Address
  sock_port :: u16

record TcpConnectionKey =
  key_local :: SocketAddrV4
  key_remote :: SocketAddrV4

record TcpStats =
  st_bytes_sent :: u64
  st_bytes_received :: u64
  st_segments_sent :: u64
  st_segments_received :: u64
  st_retransmissions :: u64
  st_duplicate_acks :: u64
  st_fast_retransmits :: u64
  st_timeouts :: u64
  st_invalid_segments :: u64
  st_zero_window_probes :: u64
  st_sack_blocks_received :: u64
  st_sack_blocks_sent :: u64
  st_paws_discards :: u64

definition stats_default :: TcpStats where
  "stats_default = \<lparr> st_bytes_sent = 0, st_bytes_received = 0, st_segments_sent = 0,
     st_segments_received = 0, st_retransmissions = 0, st_duplicate_acks = 0,
     st_fast_retransmits = 0, st_timeouts = 0, st_invalid_segments = 0, st_zero_window_probes = 0,
     st_sack_blocks_received = 0, st_sack_blocks_sent = 0, st_paws_discards = 0 \<rparr>"

record RetransmitSegment =
  rs_seq_num :: u32
  rs_end_seq :: u32
  rs_flags :: TcpFlags
  rs_payload :: bytes
  rs_first_sent_ms :: u64
  rs_last_sent_ms :: u64
  rs_retransmits :: u32
  rs_sacked :: bool

record TcpConnection =
  tc_local :: SocketAddrV4
  tc_remote :: SocketAddrV4
  tc_state :: TcpState
  tc_snd_una :: u32
  tc_snd_nxt :: u32
  tc_snd_wnd :: u16
  tc_rcv_nxt :: u32
  tc_rcv_wnd :: u16
  tc_rcv_capacity :: nat
  tc_peer_mss :: u16
  tc_local_mss :: u16
  tc_rx_buffer :: bytes
  tc_tx_buffer :: bytes
  tc_ooo_queue :: "u32 \<rightharpoonup> bytes"
  tc_ooo_segments :: "(u32 \<times> bytes) list"
  tc_retransmit_queue :: "RetransmitSegment list"
  tc_congestion :: CongestionControl
  tc_rtt :: RttEstimator
  tc_stats :: TcpStats
  tc_current_time_ms :: u64
  tc_time_wait_entered_ms :: "u64 option"
  tc_fin_sent :: bool
  tc_fin_received :: bool
  tc_close_requested :: bool
  tc_aborted :: bool
  tc_persist_deadline_ms :: "u64 option"
  tc_last_advertised_wnd :: u16
  tc_sack_permitted :: bool
  tc_peer_sack_permitted :: bool
  tc_ts_enabled :: bool
  tc_ts_recent :: u32
  tc_last_ts_ack :: u32
  tc_last_ack_sent :: u32

definition new_server :: "SocketAddrV4 \<Rightarrow> SocketAddrV4 \<Rightarrow> u32 \<Rightarrow> TcpConnection" where
  "new_server local remote isn =
     \<lparr> tc_local = local, tc_remote = remote, tc_state = Listen, tc_snd_una = isn, tc_snd_nxt = isn,
       tc_snd_wnd = 65535, tc_rcv_nxt = 0, tc_rcv_wnd = 65535, tc_rcv_capacity = 65535,
       tc_peer_mss = 1460, tc_local_mss = 1460, tc_rx_buffer = [], tc_tx_buffer = [],
       tc_ooo_queue = Map.empty, tc_ooo_segments = [], tc_retransmit_queue = [],
       tc_congestion = cc_new 1460, tc_rtt = rtt_new, tc_stats = stats_default,
       tc_current_time_ms = 0, tc_time_wait_entered_ms = None, tc_fin_sent = False,
       tc_fin_received = False, tc_close_requested = False, tc_aborted = False,
       tc_persist_deadline_ms = None, tc_last_advertised_wnd = 65535, tc_sack_permitted = False,
       tc_peer_sack_permitted = False, tc_ts_enabled = False, tc_ts_recent = 0,
       tc_last_ts_ack = 0, tc_last_ack_sent = 0 \<rparr>"

definition new_client :: "SocketAddrV4 \<Rightarrow> SocketAddrV4 \<Rightarrow> u32 \<Rightarrow> TcpConnection" where
  "new_client local remote isn =
     \<lparr> tc_local = local, tc_remote = remote, tc_state = Closed, tc_snd_una = isn, tc_snd_nxt = isn,
       tc_snd_wnd = 65535, tc_rcv_nxt = 0, tc_rcv_wnd = 65535, tc_rcv_capacity = 65535,
       tc_peer_mss = 1460, tc_local_mss = 1460, tc_rx_buffer = [], tc_tx_buffer = [],
       tc_ooo_queue = Map.empty, tc_ooo_segments = [], tc_retransmit_queue = [],
       tc_congestion = cc_new 1460, tc_rtt = rtt_new, tc_stats = stats_default,
       tc_current_time_ms = 0, tc_time_wait_entered_ms = None, tc_fin_sent = False,
       tc_fin_received = False, tc_close_requested = False, tc_aborted = False,
       tc_persist_deadline_ms = None, tc_last_advertised_wnd = 65535, tc_sack_permitted = False,
       tc_peer_sack_permitted = False, tc_ts_enabled = False, tc_ts_recent = 0,
       tc_last_ts_ack = 0, tc_last_ack_sent = 0 \<rparr>"

text \<open>Counters.\<close>

definition count_segment_sent :: "TcpConnection \<Rightarrow> TcpConnection" where
  "count_segment_sent = tc_stats_update (\<lambda>s. s\<lparr> st_segments_sent := st_segments_sent s + 1 \<rparr>)"

definition count_invalid :: "TcpConnection \<Rightarrow> TcpConnection" where
  "count_invalid = tc_stats_update (\<lambda>s. s\<lparr> st_invalid_segments := st_invalid_segments s + 1 \<rparr>)"

section \<open>Receiving data\<close>

definition ooo_bytes :: "TcpConnection \<Rightarrow> nat" where
  "ooo_bytes c = sum_list (map (\<lambda>(_, p). length p) (tc_ooo_segments c))"

definition sync_legacy_ooo_view :: "TcpConnection \<Rightarrow> TcpConnection" where
  "sync_legacy_ooo_view c =
     c\<lparr> tc_ooo_queue := foldl (\<lambda>m (s, p). m(s \<mapsto> p)) Map.empty (tc_ooo_segments c) \<rparr>"

definition current_rcv_wnd :: "TcpConnection \<Rightarrow> u16" where
  "current_rcv_wnd c =
     (let avail = tc_rcv_capacity c - length (tc_rx_buffer c) in of_nat (min avail 65535))"

text \<open>Appending contiguous bytes to the receive buffer.\<close>

definition deliver :: "bytes \<Rightarrow> TcpConnection \<Rightarrow> TcpConnection" where
  "deliver payload c =
     c\<lparr> tc_rx_buffer := tc_rx_buffer c @ payload,
        tc_rcv_nxt := tc_rcv_nxt c + of_nat (length payload),
        tc_stats := (tc_stats c)\<lparr> st_bytes_received :=
                       st_bytes_received (tc_stats c) + of_nat (length payload) \<rparr> \<rparr>"

definition seg_covers :: "u32 \<Rightarrow> u32 \<Rightarrow> u32 \<Rightarrow> u32 \<Rightarrow> bool" where
  "seg_covers s e s' e' = (seq_le s s' \<and> seq_le e' e)"

definition buffer_ooo :: "u32 \<Rightarrow> bytes \<Rightarrow> TcpConnection \<Rightarrow> TcpConnection" where
  "buffer_ooo seqn payload c =
     (let seg_end = seqn + of_nat (length payload) in
      if list_ex (\<lambda>(s, p). seg_covers s (s + of_nat (length p)) seqn seg_end) (tc_ooo_segments c)
      then c
      else let c = c\<lparr> tc_ooo_segments := filter (\<lambda>(s, p).
                       \<not> seg_covers seqn seg_end s (s + of_nat (length p))) (tc_ooo_segments c) \<rparr> in
      if ooo_bytes c + length payload > MAX_OOO_BYTES then c
      else c\<lparr> tc_ooo_segments :=
                sort_by (\<lambda>a b. if seq_lt (fst a) (fst b) then OLess else OGreater)
                  (tc_ooo_segments c @ [(seqn, payload)]) \<rparr>)"

text \<open>One scan of \<open>drain_ooo\<close> over the queue: the segments it keeps, whether it removed any, and
  the connection with the bytes it delivered.  The slice \<open>&payload[offset..]\<close> never panics
  (\<open>drain_offset_in_payload\<close>).\<close>

fun drain_pass :: "(u32 \<times> bytes) list \<Rightarrow> TcpConnection \<Rightarrow> (u32 \<times> bytes) list \<times> bool \<times> TcpConnection" where
  "drain_pass [] c = ([], False, c)"
| "drain_pass ((seqn, payload) # rest) c =
     (let seg_end = seqn + of_nat (length payload) in
      if seq_le seg_end (tc_rcv_nxt c) then
        let (kept, _, c) = drain_pass rest c in (kept, True, c)
      else if seq_le seqn (tc_rcv_nxt c) then
        let offset = unat (seq_diff (tc_rcv_nxt c) seqn);
            (kept, _, c) = drain_pass rest (deliver (drop offset payload) c)
        in (kept, True, c)
      else
        let (kept, advanced, c) = drain_pass rest c in ((seqn, payload) # kept, advanced, c))"

lemma drain_pass_length_le: "length (fst (drain_pass todo c)) \<le> length todo"
proof (induction todo arbitrary: c)
  case (Cons e rest)
  then show ?case by (cases e) (auto simp: Let_def split_beta intro: le_SucI)
qed simp

lemma drain_pass_length_less:
  "fst (snd (drain_pass todo c)) \<Longrightarrow> length (fst (drain_pass todo c)) < length todo"
proof (induction todo arbitrary: c)
  case (Cons e rest)
  then show ?case
    by (cases e) (auto simp: Let_def split_beta le_imp_less_Suc drain_pass_length_le split: if_splits)
qed simp

lemma drain_pass_shrinks:
  "(kept, advanced, c') = drain_pass todo c \<Longrightarrow> advanced \<Longrightarrow> length kept < length todo"
  by (metis drain_pass_length_less fst_conv snd_conv)

function drain_ooo :: "TcpConnection \<Rightarrow> TcpConnection" where
  "drain_ooo c =
     (let (kept, advanced, c') = drain_pass (tc_ooo_segments c) c;
          c' = c'\<lparr> tc_ooo_segments := kept \<rparr>
      in if advanced then drain_ooo c' else c')"
  by auto
termination
  by (relation "measure (\<lambda>c. length (tc_ooo_segments c))")
     (auto dest: drain_pass_shrinks)

declare drain_ooo.simps [simp del]

text \<open>The second half of \<open>accept_data\<close>, for a segment that starts at or after the next expected
  byte: the receive window, then delivery or buffering.\<close>

definition accept_window :: "u32 \<Rightarrow> bytes \<Rightarrow> TcpConnection \<Rightarrow> TcpConnection" where
  "accept_window seqn payload c =
     (let window = ucast (current_rcv_wnd c) :: u32 in
      if window = 0 then c
      else let offset_in_window = seq_diff seqn (tc_rcv_nxt c) in
      if offset_in_window \<ge> window then c
      else let allowed = unat (window - offset_in_window);
               payload = (if length payload > allowed then take allowed payload else payload) in
      if payload = [] then c
      else if seqn = tc_rcv_nxt c
      then sync_legacy_ooo_view (drain_ooo (deliver payload c))
      else sync_legacy_ooo_view (buffer_ooo seqn payload c))"

definition accept_data :: "u32 \<Rightarrow> bytes \<Rightarrow> TcpConnection \<Rightarrow> TcpConnection" where
  "accept_data seqn payload c =
     (if payload = [] then c
      else let seg_end = seqn + of_nat (length payload) in
      if seq_le seg_end (tc_rcv_nxt c) then c
      else if seq_lt seqn (tc_rcv_nxt c) then
        let offset = unat (seq_diff (tc_rcv_nxt c) seqn) in
        if offset \<ge> length payload then c
        else accept_window (tc_rcv_nxt c) (drop offset payload) c
      else accept_window seqn payload c)"

definition tcp_read :: "nat \<Rightarrow> TcpConnection \<Rightarrow> bytes \<times> TcpConnection" where
  "tcp_read buf_len c =
     (if tc_rx_buffer c = [] then ([], c)
      else let to_read = min buf_len (length (tc_rx_buffer c));
               out = take to_read (tc_rx_buffer c);
               c = c\<lparr> tc_rx_buffer := drop to_read (tc_rx_buffer c) \<rparr>
           in (out, c\<lparr> tc_rcv_wnd := current_rcv_wnd c \<rparr>))"

section \<open>Acknowledgements and timers\<close>

definition sack_extend :: "(u32 \<times> u32) list \<Rightarrow> u32 \<times> bytes \<Rightarrow> (u32 \<times> u32) list" where
  "sack_extend blocks e =
     (let left = fst e; right = fst e + of_nat (length (snd e)) in
      if blocks \<noteq> [] \<and> snd (last blocks) = left
      then butlast blocks @ [(fst (last blocks), right)]
      else blocks @ [(left, right)])"

definition build_sack_blocks :: "TcpConnection \<Rightarrow> (u32 \<times> u32) list" where
  "build_sack_blocks c = take 4 (foldl sack_extend [] (tc_ooo_segments c))"

text \<open>\<open>TcpSegment::serialize\<close> and \<open>serialize_with_options\<close> with the addresses of the connection.\<close>

definition conn_serialize ::
  "TcpConnection \<Rightarrow> u32 \<Rightarrow> u32 \<Rightarrow> TcpFlags \<Rightarrow> u16 \<Rightarrow> TcpOption list \<Rightarrow> bytes \<Rightarrow> bytes may_panic" where
  "conn_serialize c seqn ackn flags wnd options payload =
     serialize_with_options (sock_ip (tc_local c)) (sock_ip (tc_remote c)) (sock_port (tc_local c))
       (sock_port (tc_remote c)) seqn ackn flags wnd options payload"

definition ack_sack_blocks :: "TcpConnection \<Rightarrow> (u32 \<times> u32) list" where
  "ack_sack_blocks c =
     (if tc_sack_permitted c \<and> tc_ooo_segments c \<noteq> [] then build_sack_blocks c else [])"

definition ack_options :: "TcpConnection \<Rightarrow> TcpOption list" where
  "ack_options c =
     (if ack_sack_blocks c \<noteq> [] then [Sack (ack_sack_blocks c)] else []) @
     (if tc_ts_enabled c then [Timestamp (ucast (tc_current_time_ms c)) (tc_ts_recent c)] else [])"

definition build_ack :: "TcpConnection \<Rightarrow> (bytes \<times> TcpConnection) may_panic" where
  "build_ack c =
     (let c = count_segment_sent c;
          c = c\<lparr> tc_last_ack_sent := tc_rcv_nxt c \<rparr>;
          wnd = current_rcv_wnd c;
          c = c\<lparr> tc_last_advertised_wnd := wnd \<rparr>;
          c = tc_stats_update (\<lambda>s. s\<lparr> st_sack_blocks_sent :=
                 st_sack_blocks_sent s + of_nat (length (ack_sack_blocks c)) \<rparr>) c
      in do { pkt \<leftarrow> conn_serialize c (tc_snd_nxt c) (tc_rcv_nxt c) flags_ack wnd (ack_options c) [];
              Some (pkt, c) })"

definition rst_acceptable :: "TcpSegment \<Rightarrow> TcpConnection \<Rightarrow> bool" where
  "rst_acceptable seg c =
     (case tc_state c of
        SynSent \<Rightarrow> tf_ack (seg_flags seg) \<and> seg_ack_num seg = tc_snd_nxt c
      | Listen \<Rightarrow> False
      | Closed \<Rightarrow> False
      | _ \<Rightarrow> let window = max (ucast (current_rcv_wnd c)) 1 :: u32
             in seq_ge (seg_seq_num seg) (tc_rcv_nxt c) \<and>
                seq_lt (seg_seq_num seg) (tc_rcv_nxt c + window))"

definition track_for_retransmit ::
  "u32 \<Rightarrow> u32 \<Rightarrow> TcpFlags \<Rightarrow> bytes \<Rightarrow> u64 \<Rightarrow> TcpConnection \<Rightarrow> TcpConnection" where
  "track_for_retransmit seqn len flags payload now_ms c =
     c\<lparr> tc_retransmit_queue := tc_retransmit_queue c @
          [\<lparr> rs_seq_num = seqn, rs_end_seq = seqn + len, rs_flags = flags, rs_payload = payload,
             rs_first_sent_ms = now_ms, rs_last_sent_ms = now_ms, rs_retransmits = 0,
             rs_sacked = False \<rparr>],
        tc_congestion := record_sent len (tc_congestion c) \<rparr>"

definition karn_sample :: "u64 \<Rightarrow> RetransmitSegment \<Rightarrow> RttEstimator \<Rightarrow> RttEstimator" where
  "karn_sample now_ms entry r =
     (if rs_retransmits entry = 0
      then let sample = f64_of (of_nat (unat (sat_sub now_ms (rs_first_sent_ms entry))))
           in update_sample (max sample 1) r
      else r)"

fun retire_loop ::
  "u32 \<Rightarrow> u64 \<Rightarrow> RetransmitSegment list \<Rightarrow> RttEstimator \<Rightarrow> RetransmitSegment list \<times> RttEstimator" where
  "retire_loop ack_num now_ms [] r = ([], r)"
| "retire_loop ack_num now_ms (entry # rest) r =
     (if seq_le (rs_end_seq entry) ack_num
      then retire_loop ack_num now_ms rest (karn_sample now_ms entry r)
      else let (remaining, r) = retire_loop ack_num now_ms rest r in (entry # remaining, r))"

definition retire_acked :: "u32 \<Rightarrow> u64 \<Rightarrow> TcpConnection \<Rightarrow> TcpConnection" where
  "retire_acked ack_num now_ms c =
     (let (remaining, r) = retire_loop ack_num now_ms (tc_retransmit_queue c) (tc_rtt c)
      in c\<lparr> tc_rtt := r, tc_retransmit_queue := remaining \<rparr>)"

definition tcp_write :: "bytes \<Rightarrow> TcpConnection \<Rightarrow> nat \<times> TcpConnection" where
  "tcp_write data c =
     (let room = SND_BUFFER_CAPACITY - length (tc_tx_buffer c);
          accepted = min room (length data)
      in (accepted, c\<lparr> tc_tx_buffer := tc_tx_buffer c @ take accepted data \<rparr>))"

definition send_buffer_available :: "TcpConnection \<Rightarrow> nat" where
  "send_buffer_available c = SND_BUFFER_CAPACITY - length (tc_tx_buffer c)"

definition initiate_syn_at :: "u64 \<Rightarrow> TcpConnection \<Rightarrow> (bytes \<times> TcpConnection) may_panic" where
  "initiate_syn_at now_ms c =
     (let c = c\<lparr> tc_current_time_ms := now_ms, tc_state := SynSent \<rparr>;
          syn_seq = tc_snd_nxt c;
          c = c\<lparr> tc_snd_nxt := tc_snd_nxt c + 1 \<rparr>;
          options = [Mss (tc_local_mss c), SackPermitted] @
                    (if tc_ts_enabled c then [Timestamp (ucast now_ms) 0] else [])
      in do { packet \<leftarrow> conn_serialize c syn_seq 0 flags_syn (current_rcv_wnd c) options [];
              Some (packet, count_segment_sent (track_for_retransmit syn_seq 1 flags_syn [] now_ms c)) })"

definition initiate_syn :: "TcpConnection \<Rightarrow> (bytes \<times> TcpConnection) may_panic" where
  "initiate_syn c = initiate_syn_at (tc_current_time_ms c) c"

definition emit_fin :: "u64 \<Rightarrow> TcpConnection \<Rightarrow> (bytes option \<times> TcpConnection) may_panic" where
  "emit_fin now_ms c =
     (if tc_fin_sent c then Some (None, c)
      else if tc_state c \<noteq> Established \<and> tc_state c \<noteq> CloseWait then Some (None, c)
      else let c = c\<lparr> tc_state := (if tc_state c = Established then FinWait1 else LastAck) \<rparr>;
               fin_seq = tc_snd_nxt c;
               c = c\<lparr> tc_snd_nxt := tc_snd_nxt c + 1, tc_fin_sent := True,
                      tc_last_ack_sent := tc_rcv_nxt c \<rparr>
           in do { packet \<leftarrow> conn_serialize c fin_seq (tc_rcv_nxt c) flags_fin_ack
                     (current_rcv_wnd c) [] [];
                   Some (Some packet,
                     count_segment_sent (track_for_retransmit fin_seq 1 flags_fin_ack [] now_ms c)) })"

definition initiate_close_at :: "u64 \<Rightarrow> TcpConnection \<Rightarrow> (bytes option \<times> TcpConnection) may_panic" where
  "initiate_close_at now_ms c =
     (let c = c\<lparr> tc_current_time_ms := now_ms \<rparr>
      in if tc_state c = Established \<or> tc_state c = CloseWait
         then let c = c\<lparr> tc_close_requested := True \<rparr>
              in if tc_tx_buffer c = [] then emit_fin now_ms c else Some (None, c)
         else Some (None, c))"

definition initiate_close :: "TcpConnection \<Rightarrow> (bytes option \<times> TcpConnection) may_panic" where
  "initiate_close c = initiate_close_at (tc_current_time_ms c) c"

text \<open>The first entry that satisfies \<open>p\<close>, updated in place (\<open>iter_mut().find(..)\<close>).\<close>

fun update_first :: "('a \<Rightarrow> bool) \<Rightarrow> ('a \<Rightarrow> 'a) \<Rightarrow> 'a list \<Rightarrow> 'a list" where
  "update_first p f [] = []"
| "update_first p f (x # xs) = (if p x then f x # xs else x # update_first p f xs)"

definition retransmit_options :: "u64 \<Rightarrow> RetransmitSegment \<Rightarrow> TcpConnection \<Rightarrow> TcpOption list" where
  "retransmit_options now_ms oldest c =
     (if tf_syn (rs_flags oldest)
      then [Mss (tc_local_mss c)] @ (if tc_sack_permitted c then [SackPermitted] else [])
      else (if tc_sack_permitted c \<and> tc_ooo_segments c \<noteq> [] \<and> build_sack_blocks c \<noteq> []
            then [Sack (build_sack_blocks c)] else []) @
           (if tc_ts_enabled c then [Timestamp (ucast now_ms) (tc_ts_recent c)] else []))"

definition count_retransmission :: "bool \<Rightarrow> TcpConnection \<Rightarrow> TcpConnection" where
  "count_retransmission fast =
     tc_stats_update (\<lambda>s. s\<lparr> st_retransmissions := st_retransmissions s + 1,
       st_segments_sent := st_segments_sent s + 1,
       st_fast_retransmits := (if fast then st_fast_retransmits s + 1 else st_fast_retransmits s) \<rparr>)"

definition retransmit_oldest ::
  "u64 \<Rightarrow> bool \<Rightarrow> TcpConnection \<Rightarrow> (bytes option \<times> TcpConnection) may_panic" where
  "retransmit_oldest now_ms fast c =
     (case find (\<lambda>s. \<not> rs_sacked s) (tc_retransmit_queue c) of
        None \<Rightarrow> Some (None, c)
      | Some oldest \<Rightarrow>
          if rs_retransmits oldest \<ge> MAX_RETRANSMITS then Some (None, c)
          else let c = c\<lparr> tc_retransmit_queue := update_first (\<lambda>s. \<not> rs_sacked s)
                          (\<lambda>s. s\<lparr> rs_last_sent_ms := now_ms, rs_retransmits := rs_retransmits s + 1 \<rparr>)
                          (tc_retransmit_queue c) \<rparr>;
                   c = count_retransmission fast c
               in do { packet \<leftarrow> conn_serialize c (rs_seq_num oldest) (tc_rcv_nxt c) (rs_flags oldest)
                         (current_rcv_wnd c) (retransmit_options now_ms oldest c) (rs_payload oldest);
                       Some (Some packet, c) })"

definition is_reapable :: "u64 \<Rightarrow> TcpConnection \<Rightarrow> bool" where
  "is_reapable now_ms c =
     (if tc_aborted c then True
      else case tc_state c of
             Closed \<Rightarrow> True
           | TimeWait \<Rightarrow> (case tc_time_wait_entered_ms c of
                            Some t \<Rightarrow> sat_sub now_ms t \<ge> TIME_WAIT_MS | None \<Rightarrow> False)
           | _ \<Rightarrow> False)"

definition bytes_in_flight :: "TcpConnection \<Rightarrow> u32" where
  "bytes_in_flight c = cc_in_flight (tc_congestion c)"

section \<open>The segment handler\<close>

text \<open>Options of the incoming segment; the timestamp is returned, not applied.\<close>

definition mark_sacked :: "u32 \<times> u32 \<Rightarrow> TcpConnection \<Rightarrow> TcpConnection" where
  "mark_sacked block c =
     (let c = tc_stats_update (\<lambda>s. s\<lparr> st_sack_blocks_received := st_sack_blocks_received s + 1 \<rparr>) c
      in c\<lparr> tc_retransmit_queue :=
              map (\<lambda>e. if seq_ge (rs_seq_num e) (fst block) \<and> seq_le (rs_end_seq e) (snd block)
                       then e\<lparr> rs_sacked := True \<rparr> else e) (tc_retransmit_queue c) \<rparr>)"

fun scan_option :: "TcpOption \<Rightarrow> (u32 \<times> u32) option \<times> TcpConnection \<Rightarrow> (u32 \<times> u32) option \<times> TcpConnection" where
  "scan_option (Mss m) (ts, c) =
     (ts, c\<lparr> tc_peer_mss := m, tc_congestion := (tc_congestion c)\<lparr> cc_mss := ucast m \<rparr> \<rparr>)"
| "scan_option SackPermitted (ts, c) =
     (ts, c\<lparr> tc_peer_sack_permitted := True, tc_sack_permitted := True \<rparr>)"
| "scan_option (Sack blocks) (ts, c) = (ts, fold mark_sacked blocks c)"
| "scan_option (Timestamp val ecr) (ts, c) = (Some (val, ecr), c)"
| "scan_option _ (ts, c) = (ts, c)"

definition synchronized :: "TcpState \<Rightarrow> bool" where
  "synchronized st = (st \<notin> {Closed, Listen, SynSent})"

definition negotiate_timestamps ::
  "TcpSegment \<Rightarrow> (u32 \<times> u32) option \<Rightarrow> TcpConnection \<Rightarrow> TcpConnection" where
  "negotiate_timestamps seg ts c =
     (if tf_syn (seg_flags seg) \<and> \<not> synchronized (tc_state c)
      then let c = c\<lparr> tc_ts_enabled := (ts \<noteq> None) \<rparr>
           in case ts of
                Some (tsval, _) \<Rightarrow> c\<lparr> tc_ts_recent := tsval, tc_last_ack_sent := seg_seq_num seg + 1 \<rparr>
              | None \<Rightarrow> c
      else c)"

definition paws_reject :: "TcpSegment \<Rightarrow> u32 \<Rightarrow> TcpConnection \<Rightarrow> bool" where
  "paws_reject seg tsval c =
     (synchronized (tc_state c) \<and> \<not> tf_rst (seg_flags seg) \<and> \<not> tf_syn (seg_flags seg) \<and>
      seq_lt tsval (tc_ts_recent c))"

definition apply_timestamp :: "TcpSegment \<Rightarrow> u64 \<Rightarrow> u32 \<times> u32 \<Rightarrow> TcpConnection \<Rightarrow> TcpConnection" where
  "apply_timestamp seg now_ms ts c =
     (let (tsval, ecr) = ts;
          c = (if seq_ge tsval (tc_ts_recent c) \<and> seq_le (seg_seq_num seg) (tc_last_ack_sent c)
               then c\<lparr> tc_ts_recent := tsval \<rparr> else c);
          c = c\<lparr> tc_last_ts_ack := ecr \<rparr>
      in if ecr \<noteq> 0
         then let sample = of_nat (unat (sat_sub (ucast now_ms) ecr)) :: rat
              in if sample > 0 then c\<lparr> tc_rtt := update_sample sample (tc_rtt c) \<rparr> else c
         else c)"

definition handle_rst :: "TcpSegment \<Rightarrow> TcpConnection \<Rightarrow> TcpConnection" where
  "handle_rst seg c =
     (if rst_acceptable seg c
      then c\<lparr> tc_state := Closed, tc_retransmit_queue := [], tc_tx_buffer := [],
              tc_ooo_segments := [], tc_ooo_queue := Map.empty \<rparr>
      else count_invalid c)"

definition acknowledge :: "u32 \<Rightarrow> u64 \<Rightarrow> TcpConnection \<Rightarrow> TcpConnection" where
  "acknowledge ack_num now_ms c =
     (let acked = seq_diff ack_num (tc_snd_una c);
          c = c\<lparr> tc_snd_una := ack_num \<rparr>;
          c = c\<lparr> tc_congestion := on_ack acked (tc_congestion c) \<rparr>
      in retire_acked ack_num now_ms c)"

type_synonym handler_result = "(bytes option \<times> TcpConnection) may_panic"

definition handle_listen :: "TcpSegment \<Rightarrow> u64 \<Rightarrow> TcpConnection \<Rightarrow> handler_result" where
  "handle_listen seg now_ms c =
     (if tf_syn (seg_flags seg)
      then let c = c\<lparr> tc_rcv_nxt := seg_seq_num seg + 1, tc_snd_wnd := seg_window_size seg \<rparr>;
               my_syn_seq = tc_snd_nxt c;
               c = c\<lparr> tc_snd_nxt := tc_snd_nxt c + 1, tc_state := SynReceived \<rparr>;
               options = [Mss (tc_local_mss c)] @
                 (if tc_peer_sack_permitted c then [SackPermitted] else []) @
                 (if tc_ts_enabled c then [Timestamp (ucast now_ms) (tc_ts_recent c)] else [])
           in do { syn_ack \<leftarrow> conn_serialize c my_syn_seq (tc_rcv_nxt c) flags_syn_ack
                     (current_rcv_wnd c) options [];
                   Some (Some syn_ack,
                     count_segment_sent
                       ((track_for_retransmit my_syn_seq 1 flags_syn_ack [] now_ms c)
                          \<lparr> tc_last_ack_sent := tc_rcv_nxt c \<rparr>)) }
      else Some (None, c))"

definition handle_syn_sent :: "TcpSegment \<Rightarrow> u64 \<Rightarrow> TcpConnection \<Rightarrow> handler_result" where
  "handle_syn_sent seg now_ms c =
     (if tf_syn (seg_flags seg) \<and> tf_ack (seg_flags seg) then
        if seg_ack_num seg = tc_snd_nxt c
        then let c = c\<lparr> tc_rcv_nxt := seg_seq_num seg + 1, tc_snd_wnd := seg_window_size seg,
                        tc_state := Established \<rparr>;
                 c = acknowledge (seg_ack_num seg) now_ms c
             in do { ack \<leftarrow> conn_serialize c (tc_snd_nxt c) (tc_rcv_nxt c) flags_ack (current_rcv_wnd c) [] [];
                     Some (Some ack, count_segment_sent (c\<lparr> tc_last_ack_sent := tc_rcv_nxt c \<rparr>)) }
        else Some (None, c)
      else if tf_syn (seg_flags seg) then
        let c = c\<lparr> tc_rcv_nxt := seg_seq_num seg + 1, tc_state := SynReceived \<rparr>
        in do { syn_ack \<leftarrow> conn_serialize c (tc_snd_nxt c) (tc_rcv_nxt c) flags_syn_ack
                  (current_rcv_wnd c) [] [];
                Some (Some syn_ack, count_segment_sent (c\<lparr> tc_last_ack_sent := tc_rcv_nxt c \<rparr>)) }
      else Some (None, c))"

text \<open>\<open>build_ack\<close> in the position of a returned segment.\<close>

definition reply_ack :: "TcpConnection \<Rightarrow> handler_result" where
  "reply_ack c = do { (ack, c) \<leftarrow> build_ack c; Some (Some ack, c) }"

definition handle_syn_received :: "TcpSegment \<Rightarrow> u64 \<Rightarrow> TcpConnection \<Rightarrow> handler_result" where
  "handle_syn_received seg now_ms c =
     (if tf_ack (seg_flags seg) \<and> seg_ack_num seg = tc_snd_nxt c
      then let c = c\<lparr> tc_snd_wnd := seg_window_size seg, tc_state := Established \<rparr>;
               c = acknowledge (seg_ack_num seg) now_ms c
           in if seg_payload seg \<noteq> []
              then reply_ack (accept_data (seg_seq_num seg) (seg_payload seg) c)
              else Some (None, c)
      else Some (None, c))"

text \<open>Step 1 of the data states: the acknowledgement field.  The first component is true when the
  handler returns at once.\<close>

definition process_ack ::
  "TcpSegment \<Rightarrow> u64 \<Rightarrow> TcpConnection \<Rightarrow> (bool \<times> bytes option \<times> TcpConnection) may_panic" where
  "process_ack seg now_ms c =
     (if \<not> tf_ack (seg_flags seg) then Some (False, None, c)
      else if seq_gt (seg_ack_num seg) (tc_snd_una c) \<and> seq_le (seg_ack_num seg) (tc_snd_nxt c)
      then Some (False, None,
             acknowledge (seg_ack_num seg) now_ms (c\<lparr> tc_snd_wnd := seg_window_size seg \<rparr>))
      else if seq_gt (seg_ack_num seg) (tc_snd_nxt c)
      then do { (resp, c) \<leftarrow> reply_ack (count_invalid c); Some (True, resp, c) }
      else if seg_ack_num seg = tc_snd_una c \<and> seg_payload seg = [] \<and> \<not> tf_syn (seg_flags seg) \<and>
        \<not> tf_fin (seg_flags seg) \<and> tc_retransmit_queue c \<noteq> []
      then let c = c\<lparr> tc_snd_wnd := seg_window_size seg \<rparr>;
               c = tc_stats_update (\<lambda>s. s\<lparr> st_duplicate_acks := st_duplicate_acks s + 1 \<rparr>) c;
               (fast, cc) = on_dup_ack (tc_congestion c);
               c = c\<lparr> tc_congestion := cc \<rparr>
           in if fast
              then do { (pkt, c) \<leftarrow> retransmit_oldest now_ms True c; Some (False, pkt, c) }
              else Some (False, None, c)
      else Some (False, None, c\<lparr> tc_snd_wnd := seg_window_size seg \<rparr>))"

text \<open>Step 3: an inbound FIN; the first component tells whether it was consumed.\<close>

definition process_fin :: "TcpSegment \<Rightarrow> u64 \<Rightarrow> TcpConnection \<Rightarrow> bool \<times> TcpConnection" where
  "process_fin seg now_ms c =
     (let fin_seq = seg_seq_num seg + (if tf_syn (seg_flags seg) then 1 else 0) +
                    of_nat (length (seg_payload seg))
      in if tf_fin (seg_flags seg) \<and> fin_seq = tc_rcv_nxt c \<and> \<not> tc_fin_received c
         then let c = c\<lparr> tc_rcv_nxt := tc_rcv_nxt c + 1, tc_fin_received := True \<rparr>
              in (True, case tc_state c of
                    Established \<Rightarrow> c\<lparr> tc_state := CloseWait \<rparr>
                  | FinWait1 \<Rightarrow> c\<lparr> tc_state := Closing \<rparr>
                  | FinWait2 \<Rightarrow> c\<lparr> tc_time_wait_entered_ms := Some now_ms, tc_state := TimeWait \<rparr>
                  | _ \<Rightarrow> c)
         else (False, c))"

text \<open>Step 5: a FIN of ours that has been acknowledged.\<close>

definition fin_acked_transition :: "u64 \<Rightarrow> TcpConnection \<Rightarrow> TcpConnection" where
  "fin_acked_transition now_ms c =
     (if tc_state c = FinWait1 \<and> tc_fin_sent c \<and> seq_ge (tc_snd_una c) (tc_snd_nxt c)
      then c\<lparr> tc_state := FinWait2 \<rparr>
      else if tc_state c = Closing \<and> tc_fin_sent c \<and> seq_ge (tc_snd_una c) (tc_snd_nxt c)
      then c\<lparr> tc_state := TimeWait, tc_time_wait_entered_ms := Some now_ms \<rparr>
      else c)"

definition handle_data_state :: "TcpSegment \<Rightarrow> u64 \<Rightarrow> TcpConnection \<Rightarrow> handler_result" where
  "handle_data_state seg now_ms c =
     do { (early, resp, c) \<leftarrow> process_ack seg now_ms c;
          if early then Some (resp, c)
          else let had_payload = (seg_payload seg \<noteq> []);
                   c = (if had_payload then accept_data (seg_seq_num seg) (seg_payload seg) c else c);
                   (fin_consumed, c) = process_fin seg now_ms c
               in do { (resp, c) \<leftarrow>
                         (if (had_payload \<or> fin_consumed) \<and> resp = None then reply_ack c
                          else Some (resp, c));
                       Some (resp, fin_acked_transition now_ms c) } }"

definition handle_close_wait :: "TcpSegment \<Rightarrow> u64 \<Rightarrow> TcpConnection \<Rightarrow> handler_result" where
  "handle_close_wait seg now_ms c =
     (let c = (if tf_ack (seg_flags seg) \<and> seq_gt (seg_ack_num seg) (tc_snd_una c) \<and>
                  seq_le (seg_ack_num seg) (tc_snd_nxt c)
               then acknowledge (seg_ack_num seg) now_ms (c\<lparr> tc_snd_wnd := seg_window_size seg \<rparr>)
               else c)
      in if tf_fin (seg_flags seg) then reply_ack c else Some (None, c))"

definition handle_closing :: "TcpSegment \<Rightarrow> u64 \<Rightarrow> TcpConnection \<Rightarrow> TcpConnection" where
  "handle_closing seg now_ms c =
     (if tf_ack (seg_flags seg) \<and> seq_ge (seg_ack_num seg) (tc_snd_nxt c)
      then (acknowledge (seg_ack_num seg) now_ms c)
             \<lparr> tc_state := TimeWait, tc_time_wait_entered_ms := Some now_ms \<rparr>
      else c)"

definition handle_last_ack :: "TcpSegment \<Rightarrow> u64 \<Rightarrow> TcpConnection \<Rightarrow> TcpConnection" where
  "handle_last_ack seg now_ms c =
     (if tf_ack (seg_flags seg) \<and> seq_ge (seg_ack_num seg) (tc_snd_nxt c)
      then (acknowledge (seg_ack_num seg) now_ms c)\<lparr> tc_state := Closed \<rparr>
      else c)"

definition handle_time_wait :: "TcpSegment \<Rightarrow> TcpConnection \<Rightarrow> handler_result" where
  "handle_time_wait seg c =
     (if tf_fin (seg_flags seg)
      then do { ack \<leftarrow> conn_serialize c (tc_snd_nxt c) (tc_rcv_nxt c) flags_ack (current_rcv_wnd c) [] [];
                Some (Some ack, count_segment_sent (c\<lparr> tc_last_ack_sent := tc_rcv_nxt c \<rparr>)) }
      else Some (None, c))"

definition handle_in_state :: "TcpSegment \<Rightarrow> u64 \<Rightarrow> TcpConnection \<Rightarrow> handler_result" where
  "handle_in_state seg now_ms c =
     (case tc_state c of
        Listen \<Rightarrow> handle_listen seg now_ms c
      | SynSent \<Rightarrow> handle_syn_sent seg now_ms c
      | SynReceived \<Rightarrow> handle_syn_received seg now_ms c
      | Established \<Rightarrow> handle_data_state seg now_ms c
      | FinWait1 \<Rightarrow> handle_data_state seg now_ms c
      | FinWait2 \<Rightarrow> handle_data_state seg now_ms c
      | CloseWait \<Rightarrow> handle_close_wait seg now_ms c
      | Closing \<Rightarrow> Some (None, handle_closing seg now_ms c)
      | LastAck \<Rightarrow> Some (None, handle_last_ack seg now_ms c)
      | TimeWait \<Rightarrow> handle_time_wait seg c
      | Closed \<Rightarrow> Some (None, c))"

text \<open>The prologue of the handler: clock, counters, options and the negotiation of timestamps.\<close>

definition receive_prologue ::
  "TcpSegment \<Rightarrow> u64 \<Rightarrow> TcpConnection \<Rightarrow> (u32 \<times> u32) option \<times> TcpConnection" where
  "receive_prologue seg now_ms c =
     (let c = c\<lparr> tc_current_time_ms := now_ms \<rparr>;
          c = tc_stats_update (\<lambda>s. s\<lparr> st_segments_received := st_segments_received s + 1 \<rparr>) c;
          (ts, c) = fold scan_option (seg_options seg) (None, c);
          c = negotiate_timestamps seg ts c
      in (if tc_ts_enabled c then ts else None, c))"

definition dispatch_segment :: "TcpSegment \<Rightarrow> u64 \<Rightarrow> TcpConnection \<Rightarrow> handler_result" where
  "dispatch_segment seg now_ms c =
     (if tf_rst (seg_flags seg) then Some (None, handle_rst seg c) else handle_in_state seg now_ms c)"

definition handle_segment_at :: "TcpSegment \<Rightarrow> u64 \<Rightarrow> TcpConnection \<Rightarrow> handler_result" where
  "handle_segment_at seg now_ms c =
     (let (ts, c) = receive_prologue seg now_ms c
      in case ts of
           Some (tsval, ecr) \<Rightarrow>
             if paws_reject seg tsval c
             then reply_ack (tc_stats_update (\<lambda>s. s\<lparr> st_paws_discards := st_paws_discards s + 1,
                    st_invalid_segments := st_invalid_segments s + 1 \<rparr>) c)
             else dispatch_segment seg now_ms (apply_timestamp seg now_ms (tsval, ecr) c)
         | None \<Rightarrow> dispatch_segment seg now_ms c)"

definition handle_segment :: "TcpSegment \<Rightarrow> TcpConnection \<Rightarrow> handler_result" where
  "handle_segment seg c = handle_segment_at seg (tc_current_time_ms c) c"

section \<open>The periodic pump\<close>

text \<open>Transmission of the first \<open>n\<close> bytes of the send buffer, as the data loop and the zero-window
  probe do it.\<close>

definition send_chunk :: "nat \<Rightarrow> TcpFlags \<Rightarrow> u64 \<Rightarrow> TcpConnection \<Rightarrow> (bytes \<times> TcpConnection) may_panic" where
  "send_chunk n flags now_ms c =
     (let chunk = take n (tc_tx_buffer c);
          c = c\<lparr> tc_tx_buffer := drop n (tc_tx_buffer c) \<rparr>;
          seqn = tc_snd_nxt c;
          c = c\<lparr> tc_snd_nxt := tc_snd_nxt c + of_nat (length chunk) \<rparr>;
          wnd = current_rcv_wnd c;
          c = c\<lparr> tc_last_advertised_wnd := wnd \<rparr>
      in do { segment \<leftarrow> conn_serialize c seqn (tc_rcv_nxt c) flags wnd [] chunk;
              let c = c\<lparr> tc_last_ack_sent := tc_rcv_nxt c \<rparr>;
                  c = tc_stats_update (\<lambda>s. s\<lparr> st_bytes_sent := st_bytes_sent s + of_nat (length chunk) \<rparr>) c;
                  c = count_segment_sent c
              in Some (segment, track_for_retransmit seqn (of_nat (length chunk)) flags chunk now_ms c) })"

lemma send_chunk_tx_buffer:
  "send_chunk n flags now_ms c = Some (segment, c') \<Longrightarrow> tc_tx_buffer c' = drop n (tc_tx_buffer c)"
  by (auto simp: send_chunk_def Let_def track_for_retransmit_def count_segment_sent_def
      split: bind_splits)

definition chunk_size :: "TcpConnection \<Rightarrow> nat" where
  "chunk_size c =
     (let avail = send_window_available (tc_congestion c) (tc_snd_wnd c)
      in min (min (unat avail) (unat (tc_peer_mss c))) (length (tc_tx_buffer c)))"

function send_loop :: "u64 \<Rightarrow> TcpConnection \<Rightarrow> (bytes list \<times> TcpConnection) may_panic" where
  "send_loop now_ms c =
     (if send_window_available (tc_congestion c) (tc_snd_wnd c) = 0 then Some ([], c)
      else if chunk_size c = 0 then Some ([], c)
      else case send_chunk (chunk_size c) (flags_ack\<lparr> tf_psh := True \<rparr>) now_ms c of
             None \<Rightarrow> None
           | Some (segment, c') \<Rightarrow>
               if tc_tx_buffer c' = [] then Some ([segment], c')
               else (case send_loop now_ms c' of
                       None \<Rightarrow> None
                     | Some (segments, c'') \<Rightarrow> Some (segment # segments, c'')))"
  by auto
termination
  by (relation "measure (\<lambda>(_, c). length (tc_tx_buffer c))")
     (auto simp: chunk_size_def Let_def dest!: send_chunk_tx_buffer)

declare send_loop.simps [simp del]

definition sending_state :: "TcpState \<Rightarrow> bool" where
  "sending_state st = (st = Established \<or> st = CloseWait)"

definition poll_send :: "u64 \<Rightarrow> TcpConnection \<Rightarrow> (bytes list \<times> TcpConnection) may_panic" where
  "poll_send now_ms c =
     (if sending_state (tc_state c) \<and> tc_tx_buffer c \<noteq> [] then send_loop now_ms c else Some ([], c))"

definition poll_fin :: "u64 \<Rightarrow> TcpConnection \<Rightarrow> (bytes list \<times> TcpConnection) may_panic" where
  "poll_fin now_ms c =
     (if tc_close_requested c \<and> \<not> tc_fin_sent c \<and> tc_tx_buffer c = [] \<and> sending_state (tc_state c)
      then do { (fin, c) \<leftarrow> emit_fin now_ms c;
                Some (case fin of Some pkt \<Rightarrow> [pkt] | None \<Rightarrow> [], c) }
      else Some ([], c))"

definition rto_ms :: "TcpConnection \<Rightarrow> u64" where
  "rto_ms c = word_of_int (max 0 (min \<lfloor>rtt_rto (tc_rtt c)\<rfloor> (2 ^ 64 - 1)))"

definition rto_expired :: "u64 \<Rightarrow> TcpConnection \<Rightarrow> bool" where
  "rto_expired now_ms c =
     (case tc_retransmit_queue c of
        [] \<Rightarrow> False
      | e # _ \<Rightarrow> sat_sub now_ms (rs_last_sent_ms e) \<ge> rto_ms c)"

definition retries_exhausted :: "TcpConnection \<Rightarrow> bool" where
  "retries_exhausted c =
     (case tc_retransmit_queue c of [] \<Rightarrow> False | e # _ \<Rightarrow> rs_retransmits e \<ge> MAX_RETRANSMITS)"

definition abort_connection :: "TcpConnection \<Rightarrow> TcpConnection" where
  "abort_connection c =
     c\<lparr> tc_aborted := True, tc_state := Closed, tc_retransmit_queue := [], tc_tx_buffer := [] \<rparr>"

definition poll_retransmit :: "u64 \<Rightarrow> TcpConnection \<Rightarrow> (bytes list \<times> TcpConnection) may_panic" where
  "poll_retransmit now_ms c =
     (if rto_expired now_ms c
      then let c = c\<lparr> tc_congestion := on_timeout (tc_congestion c), tc_rtt := rtt_backoff (tc_rtt c) \<rparr>;
               c = tc_stats_update (\<lambda>s. s\<lparr> st_timeouts := st_timeouts s + 1 \<rparr>) c
           in do { (pkt, c) \<leftarrow> retransmit_oldest now_ms False c;
                   Some (case pkt of Some p \<Rightarrow> [p] | None \<Rightarrow> [], c) }
      else Some ([], c))"

definition poll_window_update :: "TcpConnection \<Rightarrow> (bytes list \<times> TcpConnection) may_panic" where
  "poll_window_update c =
     (if tc_last_advertised_wnd c < tc_local_mss c \<and> current_rcv_wnd c \<ge> tc_local_mss c \<and>
         tc_state c \<noteq> Closed \<and> tc_state c \<noteq> TimeWait
      then do { (ack, c) \<leftarrow> build_ack c; Some ([ack], c) }
      else Some ([], c))"

definition poll_probe :: "bool \<Rightarrow> u64 \<Rightarrow> TcpConnection \<Rightarrow> (bytes list \<times> TcpConnection) may_panic" where
  "poll_probe sending now_ms c =
     (if sending \<and> tc_tx_buffer c \<noteq> [] \<and>
         send_window_available (tc_congestion c) (tc_snd_wnd c) = 0 \<and> tc_retransmit_queue c = []
      then case tc_persist_deadline_ms c of
             None \<Rightarrow> Some ([], c\<lparr> tc_persist_deadline_ms := Some (now_ms + PERSIST_INTERVAL_MS) \<rparr>)
           | Some due \<Rightarrow>
               if now_ms \<ge> due
               then let c = c\<lparr> tc_persist_deadline_ms := Some (now_ms + PERSIST_INTERVAL_MS) \<rparr>;
                        c = tc_stats_update (\<lambda>s. s\<lparr> st_zero_window_probes := st_zero_window_probes s + 1 \<rparr>) c
                    in do { (probe, c) \<leftarrow> send_chunk 1 flags_ack now_ms c; Some ([probe], c) }
               else Some ([], c)
      else Some ([], c\<lparr> tc_persist_deadline_ms := None \<rparr>))"

definition poll_time_wait :: "u64 \<Rightarrow> TcpConnection \<Rightarrow> TcpConnection" where
  "poll_time_wait now_ms c =
     (if tc_state c = TimeWait \<and>
         (case tc_time_wait_entered_ms c of
            Some entered \<Rightarrow> sat_sub now_ms entered \<ge> TIME_WAIT_MS | None \<Rightarrow> False)
      then c\<lparr> tc_state := Closed \<rparr> else c)"

definition poll_output :: "u64 \<Rightarrow> TcpConnection \<Rightarrow> (bytes list \<times> TcpConnection) may_panic" where
  "poll_output now_ms c =
     (let c = c\<lparr> tc_current_time_ms := now_ms \<rparr> in
      if tc_aborted c \<or> tc_state c = Closed then Some ([], c)
      else let sending = sending_state (tc_state c) in
      do { (p1, c) \<leftarrow> poll_send now_ms c;
           (p2, c) \<leftarrow> poll_fin now_ms c;
           if rto_expired now_ms c \<and> retries_exhausted c then Some (p1 @ p2, abort_connection c)
           else do { (p3, c) \<leftarrow> poll_retransmit now_ms c;
                     (p4, c) \<leftarrow> poll_window_update c;
                     (p5, c) \<leftarrow> poll_probe sending now_ms c;
                     Some (p1 @ p2 @ p3 @ p4 @ p5, poll_time_wait now_ms c) } })"

definition send_data_at :: "bytes \<Rightarrow> u64 \<Rightarrow> TcpConnection \<Rightarrow> handler_result" where
  "send_data_at payload now_ms c =
     (let c = c\<lparr> tc_current_time_ms := now_ms \<rparr>
      in if tc_state c \<noteq> Established then Some (None, c)
         else let c = snd (tcp_write payload c)
              in do { (segments, c) \<leftarrow> poll_output now_ms c;
                      Some (if segments = [] then None else Some (last segments), c) })"

definition send_data :: "bytes \<Rightarrow> TcpConnection \<Rightarrow> handler_result" where
  "send_data payload c = send_data_at payload (tc_current_time_ms c) c"

end
