(* ===== verification/TcpReceive.thy ===== *)
theory TcpReceive
  imports TcpConnection Interfaces
begin

unbundle bit_operations_syntax

text \<open>
  The receiving side of a connection.  The reassembly code is proved once, in the locale
  \<open>stream_content\<close>, for any notion of what the bytes at a stream position are; its two
  interpretations give the memory bounds under arbitrary (hostile) segments and the in-order
  delivery of a peer's byte stream.
\<close>

section \<open>What reassembly leaves alone\<close>

text \<open>The reassembly operations change only the receive buffer, the next expected number, the
  queue with its legacy view, and the counters.\<close>

definition rx_frame :: "TcpConnection \<Rightarrow> TcpConnection \<Rightarrow> bool" where
  "rx_frame c c' \<longleftrightarrow>
     c' = c\<lparr> tc_rx_buffer := tc_rx_buffer c', tc_rcv_nxt := tc_rcv_nxt c',
             tc_ooo_segments := tc_ooo_segments c', tc_ooo_queue := tc_ooo_queue c',
             tc_stats := tc_stats c' \<rparr>"

lemma rx_frame_refl [simp]: "rx_frame c c"
  by (simp add: rx_frame_def)

lemma rx_frame_trans: "rx_frame a b \<Longrightarrow> rx_frame b c \<Longrightarrow> rx_frame a c"
  unfolding rx_frame_def by (cases a, cases b, cases c) simp

lemma rx_frame_deliver: "rx_frame c (deliver p c)"
  by (simp add: rx_frame_def deliver_def)

lemma rx_frame_ooo: "rx_frame c (c\<lparr> tc_ooo_segments := xs \<rparr>)"
  by (simp add: rx_frame_def)

lemma rx_frame_sync: "rx_frame c (sync_legacy_ooo_view c)"
  by (simp add: rx_frame_def sync_legacy_ooo_view_def)

lemma rx_frame_drain_pass: "rx_frame c (snd (snd (drain_pass todo c)))"
proof (induction todo arbitrary: c)
  case (Cons e rest)
  then show ?case
    by (cases e) (auto simp: Let_def split_beta intro: rx_frame_trans [OF rx_frame_deliver])
qed simp

lemma rx_frame_drain_ooo: "rx_frame c (drain_ooo c)"
proof (induction c rule: drain_ooo.induct)
  case (1 c)
  obtain kept adv c1 where p: "drain_pass (tc_ooo_segments c) c = (kept, adv, c1)" by (metis prod_cases3)
  have f: "rx_frame c (c1\<lparr> tc_ooo_segments := kept \<rparr>)"
    using rx_frame_drain_pass [of c "tc_ooo_segments c"] p rx_frame_ooo rx_frame_trans by fastforce
  show ?case
  proof (cases adv)
    case True
    then have "rx_frame (c1\<lparr> tc_ooo_segments := kept \<rparr>) (drain_ooo (c1\<lparr> tc_ooo_segments := kept \<rparr>))"
      using "1.IH" [OF p [symmetric] refl refl] by simp
    with f True p show ?thesis by (subst drain_ooo.simps) (auto intro: rx_frame_trans)
  next
    case False
    with f p show ?thesis by (subst drain_ooo.simps) simp
  qed
qed

lemma rx_frame_buffer_ooo: "rx_frame c (buffer_ooo s p c)"
  by (simp add: buffer_ooo_def Let_def rx_frame_def)

lemma rx_frame_accept_window: "rx_frame c (accept_window s p c)"
  unfolding accept_window_def
  by (auto simp: Let_def intro: rx_frame_trans [OF rx_frame_buffer_ooo rx_frame_sync]
        rx_frame_trans [OF rx_frame_trans [OF rx_frame_deliver rx_frame_drain_ooo] rx_frame_sync])

lemma rx_frame_accept_data: "rx_frame c (accept_data s p c)"
  by (simp add: accept_data_def Let_def rx_frame_accept_window)

lemma rx_frame_fields:
  assumes "rx_frame c c'"
  shows "tc_state c' = tc_state c" "tc_snd_una c' = tc_snd_una c" "tc_snd_nxt c' = tc_snd_nxt c"
    "tc_snd_wnd c' = tc_snd_wnd c" "tc_rcv_capacity c' = tc_rcv_capacity c"
    "tc_tx_buffer c' = tc_tx_buffer c" "tc_retransmit_queue c' = tc_retransmit_queue c"
    "tc_congestion c' = tc_congestion c" "tc_fin_sent c' = tc_fin_sent c"
    "tc_fin_received c' = tc_fin_received c" "tc_close_requested c' = tc_close_requested c"
    "tc_aborted c' = tc_aborted c" "tc_local c' = tc_local c" "tc_remote c' = tc_remote c"
    "tc_peer_mss c' = tc_peer_mss c" "tc_sack_permitted c' = tc_sack_permitted c"
    "tc_ts_enabled c' = tc_ts_enabled c"
  using assms unfolding rx_frame_def by (cases c, cases c', simp)+

lemmas accept_data_fields [simp] = rx_frame_fields [OF rx_frame_accept_data]
lemmas drain_pass_fields [simp] = rx_frame_fields [OF rx_frame_drain_pass]
lemmas drain_ooo_fields [simp] = rx_frame_fields [OF rx_frame_drain_ooo]

lemma deliver_fields [simp]:
  "tc_rx_buffer (deliver p c) = tc_rx_buffer c @ p"
  "tc_rcv_nxt (deliver p c) = tc_rcv_nxt c + of_nat (length p)"
  "tc_ooo_segments (deliver p c) = tc_ooo_segments c"
  "tc_rcv_capacity (deliver p c) = tc_rcv_capacity c"
  by (simp_all add: deliver_def)

lemma sync_fields [simp]:
  "tc_rx_buffer (sync_legacy_ooo_view c) = tc_rx_buffer c"
  "tc_rcv_nxt (sync_legacy_ooo_view c) = tc_rcv_nxt c"
  "tc_ooo_segments (sync_legacy_ooo_view c) = tc_ooo_segments c"
  "tc_rcv_capacity (sync_legacy_ooo_view c) = tc_rcv_capacity c"
  by (simp_all add: sync_legacy_ooo_view_def)

section \<open>Reassembly for any stream content\<close>

lemma unat_rcv_wnd: "unat (ucast (current_rcv_wnd c) :: u32) = min (tc_rcv_capacity c - length (tc_rx_buffer c)) 65535"
proof -
  define m where "m = min (tc_rcv_capacity c - length (tc_rx_buffer c)) 65535"
  have "m \<le> 65535" by (simp add: m_def)
  then have "unat (of_nat m :: u16) = m" by (simp add: unat_of_nat)
  then have "unat (current_rcv_wnd c) = m" by (simp only: current_rcv_wnd_def Let_def flip: m_def)
  then show ?thesis by (simp add: unat_ucast_up m_def)
qed

lemma drain_pass_idle:
  "\<not> fst (snd (drain_pass todo c)) \<Longrightarrow>
   drain_pass todo c = (todo, False, c) \<and> (\<forall>e \<in> set todo. \<not> seq_le (fst e) (tc_rcv_nxt c))"
proof (induction todo arbitrary: c)
  case (Cons e rest)
  obtain s p where e: "e = (s, p)" by fastforce
  have late: "\<not> seq_le (s + of_nat (length p)) (tc_rcv_nxt c)" "\<not> seq_le s (tc_rcv_nxt c)"
    "\<not> fst (snd (drain_pass rest c))"
    using Cons.prems by (auto simp: e Let_def split_beta split: if_splits)
  then show ?case using Cons.IH [OF late(3)] by (simp add: e)
qed simp

text \<open>\<open>bytes_at i p\<close>: the bytes \<open>p\<close> may stand at position \<open>i\<close> of the stream; \<open>pre n x\<close>: the bytes \<open>x\<close> are
  the first \<open>n\<close> bytes of the stream.\<close>

locale stream_content =
  fixes bytes_at :: "nat \<Rightarrow> bytes \<Rightarrow> bool" and pre :: "nat \<Rightarrow> bytes \<Rightarrow> bool"
  assumes bytes_at_take: "bytes_at i p \<Longrightarrow> bytes_at i (take k p)"
    and bytes_at_drop: "bytes_at i p \<Longrightarrow> k \<le> length p \<Longrightarrow> bytes_at (i + k) (drop k p)"
    and pre_nothing: "pre 0 []"
    and pre_append: "pre n x \<Longrightarrow> bytes_at n p \<Longrightarrow> pre (n + length p) (x @ p)"
    and pre_length: "pre n x \<Longrightarrow> length x = n"
begin

definition entry_in :: "u32 \<Rightarrow> nat \<Rightarrow> nat \<Rightarrow> u32 \<times> bytes \<Rightarrow> bool" where
  "entry_in base lo hi e \<longleftrightarrow>
     (\<exists>i. fst e = base + of_nat i \<and> lo \<le> i \<and> i + length (snd e) \<le> hi \<and> snd e \<noteq> [] \<and> bytes_at i (snd e))"

lemma entry_in_mono: "entry_in base lo hi e \<Longrightarrow> lo' \<le> lo \<Longrightarrow> hi \<le> hi' \<Longrightarrow> entry_in base lo' hi' e"
  unfolding entry_in_def using order_trans by blast

text \<open>The comparisons of the drain scan, on positions.\<close>

lemma entry_compare:
  assumes "lo \<le> i" "i + length p \<le> hi" "lo \<le> n + 1" "n \<le> hi" "hi \<le> lo + 65535"
  shows "seq_le (base + of_nat i) (base + of_nat n) \<longleftrightarrow> i \<le> n"
    and "seq_le (base + of_nat i + of_nat (length p)) (base + of_nat n) \<longleftrightarrow> i + length p \<le> n"
    and "i \<le> n \<Longrightarrow> unat (seq_diff (base + of_nat n) (base + of_nat i)) = n - i"
proof -
  have d: "\<bar>int i - int n\<bar> < 2 ^ 31" "\<bar>int (i + length p) - int n\<bar> < 2 ^ 31"
    using assms by (auto simp: abs_less_iff)
  show "seq_le (base + of_nat i) (base + of_nat n) \<longleftrightarrow> i \<le> n"
    by (rule seq_base_simps(2) [OF d(1)])
  show "seq_le (base + of_nat i + of_nat (length p)) (base + of_nat n) \<longleftrightarrow> i + length p \<le> n"
    using seq_base_simps(2) [OF d(2), of base] by (simp add: add.assoc)
  show "i \<le> n \<Longrightarrow> unat (seq_diff (base + of_nat n) (base + of_nat i)) = n - i"
    by (rule seq_diff_base) (use assms in simp_all)
qed

definition in_stream :: "u32 \<Rightarrow> bytes \<Rightarrow> nat \<Rightarrow> TcpConnection \<Rightarrow> bool" where
  "in_stream base d n c \<longleftrightarrow> tc_rcv_nxt c = base + of_nat n \<and> pre n (d @ tc_rx_buffer c)"

lemma in_stream_deliver:
  assumes "in_stream base d n c" "bytes_at n p"
  shows "in_stream base d (n + length p) (deliver p c)"
  using assms pre_append [of n "d @ tc_rx_buffer c" p] by (simp add: in_stream_def add.assoc)

lemma drain_pass_stream:
  assumes "\<forall>e \<in> set todo. entry_in base lo hi e" "in_stream base d n c"
    "lo \<le> n + 1" "n \<le> hi" "hi \<le> lo + 65535"
  shows "\<exists>n'. n \<le> n' \<and> n' \<le> hi \<and> in_stream base d n' (snd (snd (drain_pass todo c))) \<and>
    set (fst (drain_pass todo c)) \<subseteq> set todo \<and>
    (\<forall>e \<in> set todo. e \<in> set (fst (drain_pass todo c)) \<or> entry_in base lo n' e)"
  using assms
proof (induction todo arbitrary: c n)
  case Nil
  then show ?case by (intro exI [of _ n]) simp
next
  case (Cons e rest)
  obtain s p where e: "e = (s, p)" by fastforce
  obtain i where i: "s = base + of_nat i" "lo \<le> i" "i + length p \<le> hi" "p \<noteq> []" "bytes_at i p"
    using Cons.prems(1) by (auto simp: e entry_in_def)
  have r: "tc_rcv_nxt c = base + of_nat n" using Cons.prems(2) by (simp add: in_stream_def)
  note cmp = entry_compare [OF i(2,3) Cons.prems(3-5), of base]
  consider "i + length p \<le> n" | "i \<le> n" "n < i + length p" | "n < i" by linarith
  then show ?case
  proof cases
    case 1
    obtain n' where n': "n \<le> n'" "n' \<le> hi" "in_stream base d n' (snd (snd (drain_pass rest c)))"
      "set (fst (drain_pass rest c)) \<subseteq> set rest"
      "\<forall>e \<in> set rest. e \<in> set (fst (drain_pass rest c)) \<or> entry_in base lo n' e"
      using Cons.IH [of n c] Cons.prems by auto
    moreover have "entry_in base lo n' e"
      using i 1 n'(1) by (auto simp: entry_in_def e intro!: exI [of _ i])
    moreover have "drain_pass (e # rest) c =
        (fst (drain_pass rest c), True, snd (snd (drain_pass rest c)))"
      using 1 cmp by (simp add: e i(1) r Let_def split_beta)
    ultimately show ?thesis by (intro exI [of _ n']) auto
  next
    case 2
    let ?c = "deliver (drop (n - i) p) c"
    have "bytes_at n (drop (n - i) p)" using bytes_at_drop [OF i(5), of "n - i"] 2 by simp
    then have "in_stream base d (n + length (drop (n - i) p)) ?c"
      using Cons.prems(2) by (rule in_stream_deliver [rotated])
    then have st: "in_stream base d (i + length p) ?c" using 2 by (simp add: add.commute)
    obtain n' where n': "i + length p \<le> n'" "n' \<le> hi" "in_stream base d n' (snd (snd (drain_pass rest ?c)))"
      "set (fst (drain_pass rest ?c)) \<subseteq> set rest"
      "\<forall>e \<in> set rest. e \<in> set (fst (drain_pass rest ?c)) \<or> entry_in base lo n' e"
      using Cons.IH [of "i + length p" ?c] Cons.prems st i 2 by auto
    moreover have "entry_in base lo n' e"
      using i 2 n'(1) by (auto simp: entry_in_def e intro!: exI [of _ i])
    moreover have "drain_pass (e # rest) c =
        (fst (drain_pass rest ?c), True, snd (snd (drain_pass rest ?c)))"
      using 2 cmp by (simp add: e i(1) r Let_def split_beta)
    ultimately show ?thesis using 2 by (intro exI [of _ n']) auto
  next
    case 3
    obtain n' where n': "n \<le> n'" "n' \<le> hi" "in_stream base d n' (snd (snd (drain_pass rest c)))"
      "set (fst (drain_pass rest c)) \<subseteq> set rest"
      "\<forall>e \<in> set rest. e \<in> set (fst (drain_pass rest c)) \<or> entry_in base lo n' e"
      using Cons.IH [of n c] Cons.prems by auto
    moreover have "drain_pass (e # rest) c =
        (e # fst (drain_pass rest c), fst (snd (drain_pass rest c)), snd (snd (drain_pass rest c)))"
      using 3 cmp by (simp add: e i(1) r Let_def split_beta)
    ultimately show ?thesis by (intro exI [of _ n']) auto
  qed
qed

lemma drain_ooo_stream:
  assumes "\<forall>e \<in> set (tc_ooo_segments c). entry_in base lo hi e" "in_stream base d n c"
    "lo \<le> n + 1" "n \<le> hi" "hi \<le> lo + 65535"
  shows "\<exists>n'. n \<le> n' \<and> n' \<le> hi \<and> in_stream base d n' (drain_ooo c) \<and>
    (\<forall>e \<in> set (tc_ooo_segments (drain_ooo c)). entry_in base (n' + 1) hi e) \<and>
    set (tc_ooo_segments (drain_ooo c)) \<subseteq> set (tc_ooo_segments c) \<and>
    (\<forall>e \<in> set (tc_ooo_segments c). e \<in> set (tc_ooo_segments (drain_ooo c)) \<or> entry_in base lo n' e)"
  using assms
proof (induction c arbitrary: n rule: drain_ooo.induct)
  case (1 c)
  obtain kept adv c1 where p: "drain_pass (tc_ooo_segments c) c = (kept, adv, c1)" by (metis prod_cases3)
  let ?c = "c1\<lparr> tc_ooo_segments := kept \<rparr>"
  show ?case
  proof (cases adv)
    case True
    obtain m where m: "n \<le> m" "m \<le> hi" "in_stream base d m c1" "set kept \<subseteq> set (tc_ooo_segments c)"
      "\<forall>e \<in> set (tc_ooo_segments c). e \<in> set kept \<or> entry_in base lo m e"
      using drain_pass_stream [OF "1.prems"] p by auto
    have st: "in_stream base d m ?c" using m(3) by (simp add: in_stream_def)
    have "\<forall>e \<in> set (tc_ooo_segments ?c). entry_in base lo hi e" "lo \<le> m + 1"
      using m "1.prems" by auto
    from "1.IH" [OF p [symmetric] refl refl refl True this(1) st this(2) m(2) "1.prems"(5)]
    obtain n' where n': "m \<le> n'" "n' \<le> hi" "in_stream base d n' (drain_ooo ?c)"
      "\<forall>e \<in> set (tc_ooo_segments (drain_ooo ?c)). entry_in base (n' + 1) hi e"
      "set (tc_ooo_segments (drain_ooo ?c)) \<subseteq> set kept"
      "\<forall>e \<in> set kept. e \<in> set (tc_ooo_segments (drain_ooo ?c)) \<or> entry_in base lo n' e"
      by auto
    moreover have "drain_ooo c = drain_ooo ?c" using True p by (subst drain_ooo.simps) simp
    moreover have "\<forall>e \<in> set (tc_ooo_segments c).
        e \<in> set (tc_ooo_segments (drain_ooo ?c)) \<or> entry_in base lo n' e"
      using m(5) n'(1,6) entry_in_mono by blast
    ultimately show ?thesis using m by (intro exI [of _ n']) auto
  next
    case False
    then have idle: "kept = tc_ooo_segments c" "c1 = c"
      "\<forall>e \<in> set (tc_ooo_segments c). \<not> seq_le (fst e) (tc_rcv_nxt c)"
      using drain_pass_idle [of "tc_ooo_segments c" c] p by auto
    have "drain_ooo c = c" using False p idle by (subst drain_ooo.simps) simp
    moreover have "entry_in base (n + 1) hi e" if "e \<in> set (tc_ooo_segments c)" for e
    proof -
      obtain i where i: "fst e = base + of_nat i" "lo \<le> i" "i + length (snd e) \<le> hi" "snd e \<noteq> []"
        "bytes_at i (snd e)"
        using "1.prems"(1) \<open>e \<in> set (tc_ooo_segments c)\<close> by (auto simp: entry_in_def)
      have "\<not> i \<le> n"
        using idle(3) that entry_compare(1) [OF i(2,3) "1.prems"(3-5), of base] i(1) "1.prems"(2)
        by (auto simp: in_stream_def)
      with i show ?thesis by (auto simp: entry_in_def intro!: exI [of _ i])
    qed
    ultimately show ?thesis using "1.prems" by (intro exI [of _ n]) auto
  qed
qed

definition rx_ok :: "u32 \<Rightarrow> bytes \<Rightarrow> nat \<Rightarrow> TcpConnection \<Rightarrow> bool" where
  "rx_ok base d n c \<longleftrightarrow> in_stream base d n c \<and> tc_rcv_capacity c = 65535 \<and>
     length (tc_rx_buffer c) \<le> 65535 \<and>
     (\<forall>e \<in> set (tc_ooo_segments c). entry_in base (n + 1) (length d + 65535) e)"

lemma rx_ok_count: "rx_ok base d n c \<Longrightarrow> n = length d + length (tc_rx_buffer c)"
  using pre_length [of n "d @ tc_rx_buffer c"] by (simp add: rx_ok_def in_stream_def)

lemma rx_ok_window:
  "rx_ok base d n c \<Longrightarrow> unat (ucast (current_rcv_wnd c) :: u32) = length d + 65535 - n"
  using rx_ok_count [of base d n c] by (auto simp: rx_ok_def unat_rcv_wnd min_def)

lemma buffer_ooo_entries:
  "e \<in> set (tc_ooo_segments (buffer_ooo s p c)) \<Longrightarrow> e \<in> set (tc_ooo_segments c) \<or> e = (s, p)"
  by (auto simp: buffer_ooo_def Let_def split: if_splits)

lemma accept_window_eq:
  assumes ok: "rx_ok base d n c" and k: "k = unat (s - tc_rcv_nxt c)"
    and q: "q = take (length d + 65535 - n - k) p"
  shows "accept_window s p c =
    (if q = [] then c
     else if k = 0 then sync_legacy_ooo_view (drain_ooo (deliver q c))
     else sync_legacy_ooo_view (buffer_ooo s q c))"
proof -
  define win where "win = (ucast (current_rcv_wnd c) :: u32)"
  define off where "off = s - tc_rcv_nxt c"
  have w: "unat win = length d + 65535 - n" unfolding win_def by (rule rx_ok_window [OF ok])
  have z: "win = 0 \<longleftrightarrow> unat win = 0" by (simp add: unat_eq_0)
  have le: "win \<le> off \<longleftrightarrow> unat win \<le> k" by (simp add: word_le_nat_alt k off_def)
  have al: "unat (win - off) = unat win - k" if "\<not> win \<le> off"
    using that by (simp add: unat_sub k off_def)
  have s0: "s = tc_rcv_nxt c \<longleftrightarrow> k = 0" by (simp add: k unat_eq_0)
  have t: "(if a < length p then take a p else p) = take a p" for a by simp
  show ?thesis
  proof (cases "unat win \<le> k")
    case True
    then have "q = []" by (simp add: q w)
    with True show ?thesis
      by (simp add: accept_window_def Let_def seq_diff_def le flip: win_def off_def)
  next
    case False
    then have nle: "\<not> win \<le> off" "win \<noteq> 0" using le z by auto
    have "take (unat (win - off)) p = q" using al [OF nle(1)] by (simp add: q w)
    with nle show ?thesis
      by (auto simp: accept_window_def Let_def seq_diff_def t s0 simp flip: win_def off_def)
  qed
qed

lemma rx_ok_bounds:
  assumes "rx_ok base d n c"
  shows "n \<le> length d + 65535" "length d \<le> n" "tc_rcv_nxt c = base + of_nat n"
  using assms rx_ok_count [OF assms] by (auto simp: rx_ok_def in_stream_def)

lemma deliver_drain_ok:
  assumes ok: "rx_ok base d n c" and p: "bytes_at n p" "n + length p \<le> length d + 65535"
  shows "\<exists>n' \<ge> n + length p. rx_ok base d n' (drain_ooo (deliver p c)) \<and>
    set (tc_ooo_segments (drain_ooo (deliver p c))) \<subseteq> set (tc_ooo_segments c) \<and>
    (\<forall>e \<in> set (tc_ooo_segments c).
      e \<in> set (tc_ooo_segments (drain_ooo (deliver p c))) \<or> entry_in base (n + 1) n' e)"
proof -
  let ?c = "deliver p c"
  have "in_stream base d (n + length p) ?c"
    by (rule in_stream_deliver) (use ok p in \<open>simp_all add: rx_ok_def\<close>)
  moreover have "\<forall>e \<in> set (tc_ooo_segments ?c). entry_in base (n + 1) (length d + 65535) e"
    using ok by (simp add: rx_ok_def)
  moreover have "length d + 65535 \<le> n + 1 + 65535" using rx_ok_bounds [OF ok] by simp
  ultimately obtain n' where n': "n + length p \<le> n'" "n' \<le> length d + 65535"
    "in_stream base d n' (drain_ooo ?c)"
    "\<forall>e \<in> set (tc_ooo_segments (drain_ooo ?c)). entry_in base (n' + 1) (length d + 65535) e"
    "set (tc_ooo_segments (drain_ooo ?c)) \<subseteq> set (tc_ooo_segments c)"
    "\<forall>e \<in> set (tc_ooo_segments c). e \<in> set (tc_ooo_segments (drain_ooo ?c)) \<or> entry_in base (n + 1) n' e"
    using drain_ooo_stream [of ?c base "n + 1" "length d + 65535" d "n + length p"] p(2) by auto
  have "length (d @ tc_rx_buffer (drain_ooo ?c)) = n'"
    by (rule pre_length) (use n'(3) in \<open>simp add: in_stream_def\<close>)
  then have "rx_ok base d n' (drain_ooo ?c)"
    using n' ok by (auto simp: rx_ok_def)
  with n' show ?thesis by blast
qed

lemma rx_ok_sync: "rx_ok base d n (sync_legacy_ooo_view c) = rx_ok base d n c"
  by (simp add: rx_ok_def in_stream_def)

lemma buffer_ooo_ok:
  assumes "rx_ok base d n c" "entry_in base (n + 1) (length d + 65535) (s, p)"
  shows "rx_ok base d n (buffer_ooo s p c)"
proof -
  have "tc_rcv_nxt (buffer_ooo s p c) = tc_rcv_nxt c" "tc_rx_buffer (buffer_ooo s p c) = tc_rx_buffer c"
    "tc_rcv_capacity (buffer_ooo s p c) = tc_rcv_capacity c"
    by (simp_all add: buffer_ooo_def Let_def)
  with assms show ?thesis by (auto simp: rx_ok_def in_stream_def dest: buffer_ooo_entries)
qed

lemma entry_in_window:
  assumes "rx_ok base d n c" "s = base + of_nat (n + k)" "0 < k" "bytes_at (n + k) p"
    "q = take (length d + 65535 - n - k) p" "q \<noteq> []"
  shows "entry_in base (n + 1) (length d + 65535) (s, q)"
  using assms bytes_at_take [OF assms(4)] by (auto simp: entry_in_def intro!: exI [of _ "n + k"])

lemma accept_window_ok:
  assumes ok: "rx_ok base d n c" and s: "s = base + of_nat (n + k)" and k: "k = unat (s - tc_rcv_nxt c)"
    and p: "bytes_at (n + k) p"
  shows "\<exists>n' \<ge> n. rx_ok base d n' (accept_window s p c)"
proof -
  define q where "q = take (length d + 65535 - n - k) p"
  note eq = accept_window_eq [OF ok k q_def]
  consider "q = []" | "q \<noteq> []" "k = 0" | "q \<noteq> []" "0 < k" by blast
  then show ?thesis
  proof cases
    case 2
    have "bytes_at n q" "n + length q \<le> length d + 65535"
      using bytes_at_take [OF p, of "length d + 65535 - n - k"] 2 rx_ok_bounds(1) [OF ok] by (auto simp: q_def)
    from deliver_drain_ok [OF ok this] show ?thesis
      using 2 eq by (auto simp: rx_ok_sync intro: order_trans [OF le_add1])
  next
    case 3
    from buffer_ooo_ok [OF ok entry_in_window [OF ok s 3(2) p q_def 3(1)]] show ?thesis
      using 3 eq by (auto simp: rx_ok_sync)
  qed (use ok eq in auto)
qed

text \<open>The segment fits the stream: what \<open>accept_data\<close> takes from it stands at its place.\<close>

definition fits :: "u32 \<Rightarrow> nat \<Rightarrow> u32 \<Rightarrow> bytes \<Rightarrow> bool" where
  "fits base n s p \<longleftrightarrow>
     (let r = base + of_nat n in
      (\<not> seq_lt s r \<longrightarrow> bytes_at (n + unat (s - r)) p) \<and>
      (seq_lt s r \<and> \<not> seq_le (s + of_nat (length p)) r \<longrightarrow> bytes_at n (drop (unat (r - s)) p)))"

lemma accept_data_ok:
  assumes ok: "rx_ok base d n c" and fits: "fits base n s p"
  shows "\<exists>n' \<ge> n. rx_ok base d n' (accept_data s p c)"
proof -
  let ?r = "base + of_nat n"
  have r: "tc_rcv_nxt c = ?r" by (rule rx_ok_bounds(3) [OF ok])
  consider "p = [] \<or> seq_le (s + of_nat (length p)) ?r"
    | "p \<noteq> []" "\<not> seq_le (s + of_nat (length p)) ?r" "seq_lt s ?r"
    | "p \<noteq> []" "\<not> seq_le (s + of_nat (length p)) ?r" "\<not> seq_lt s ?r" by blast
  then show ?thesis
  proof cases
    case 1
    then show ?thesis using ok r by (auto simp: accept_data_def Let_def)
  next
    case 2
    have "\<exists>n' \<ge> n. rx_ok base d n' (accept_window ?r (drop (unat (?r - s)) p) c)"
      by (rule accept_window_ok [OF ok, of _ 0]) (use 2 fits in \<open>simp_all add: r fits_def Let_def\<close>)
    then show ?thesis using ok 2 r by (auto simp: accept_data_def Let_def seq_diff_def)
  next
    case 3
    have "\<exists>n' \<ge> n. rx_ok base d n' (accept_window s p c)"
      by (rule accept_window_ok [OF ok, of _ "unat (s - ?r)"])
         (use 3 fits in \<open>simp_all add: r fits_def Let_def\<close>)
    then show ?thesis using ok 3 r by (auto simp: accept_data_def Let_def)
  qed
qed

text \<open>Which positions of the stream have been received: the delivered ones and those of the queue.\<close>

definition entry_cov :: "u32 \<Rightarrow> nat \<Rightarrow> nat \<Rightarrow> u32 \<times> bytes \<Rightarrow> nat \<Rightarrow> bool" where
  "entry_cov base lo hi e i \<longleftrightarrow>
     (\<exists>j. fst e = base + of_nat j \<and> lo \<le> j \<and> j + length (snd e) \<le> hi \<and> j \<le> i \<and> i < j + length (snd e))"

definition cov :: "u32 \<Rightarrow> bytes \<Rightarrow> TcpConnection \<Rightarrow> nat \<Rightarrow> bool" where
  "cov base d c i \<longleftrightarrow>
     (let n = length d + length (tc_rx_buffer c)
      in i < n \<or> (\<exists>e \<in> set (tc_ooo_segments c). entry_cov base (n + 1) (length d + 65535) e i))"

lemma base_inj:
  assumes "base + of_nat i = (base + of_nat j :: u32)" "l \<le> i" "i \<le> l + 65535" "l \<le> j" "j \<le> l + 65535"
  shows "i = j"
proof -
  have "\<bar>int i - int j\<bar> < 2 ^ 31" using assms(2-) by (simp add: abs_less_iff)
  from seq_base_simps(2,4) [OF this, of base] show ?thesis using assms(1) by auto
qed

lemma entry_cov_move:
  assumes "entry_in base lo hi e" "entry_cov base lo' hi' e i" "l \<le> lo" "hi \<le> l + 65535" "l \<le> lo'" "hi' \<le> l + 65535"
  shows "entry_cov base lo hi e i"
proof -
  obtain a where a: "fst e = base + of_nat a" "lo \<le> a" "a + length (snd e) \<le> hi"
    using assms(1) by (auto simp: entry_in_def)
  obtain b where b: "fst e = base + of_nat b" "lo' \<le> b" "b + length (snd e) \<le> hi'" "b \<le> i"
    "i < b + length (snd e)" using assms(2) by (auto simp: entry_cov_def)
  have "a = b" by (rule base_inj [of base _ _ l]) (use a b assms in simp_all)
  with a b show ?thesis by (auto simp: entry_cov_def)
qed

lemma entry_cov_less: "entry_cov base lo hi e i \<Longrightarrow> i < hi"
  by (auto simp: entry_cov_def)

lemma seg_covers_positions:
  assumes "l \<le> i" "i + a \<le> l + 65535" "l \<le> j" "j + b \<le> l + 65535"
  shows "seg_covers (base + of_nat i) (base + of_nat i + of_nat a) (base + of_nat j) (base + of_nat j + of_nat b)
    \<longleftrightarrow> i \<le> j \<and> j + b \<le> i + a"
proof -
  have "\<bar>int i - int j\<bar> < 2 ^ 31" "\<bar>int (j + b) - int (i + a)\<bar> < 2 ^ 31"
    using assms by (auto simp: abs_less_iff)
  from seq_base_simps(2) [OF this(1), of base] seq_base_simps(2) [OF this(2), of base]
  show ?thesis by (simp add: seg_covers_def add.assoc)
qed

lemma ooo_bytes_filter: "sum_list (map (\<lambda>(_, p). length p) (filter P xs)) \<le> sum_list (map (\<lambda>(_, p). length p) xs)"
  by (induction xs) auto

lemma buffer_ooo_cov:
  assumes ok: "\<forall>e \<in> set (tc_ooo_segments c). entry_in base lo hi e"
    and new: "entry_in base lo hi (s, p)" and range: "hi \<le> lo + 65535"
    and room: "ooo_bytes c + length p \<le> MAX_OOO_BYTES"
    and i: "entry_cov base lo hi e i" "e \<in> set (tc_ooo_segments c) \<or> e = (s, p)"
  shows "\<exists>e \<in> set (tc_ooo_segments (buffer_ooo s p c)). entry_cov base lo hi e i"
proof -
  obtain m where m: "s = base + of_nat m" "lo \<le> m" "m + length p \<le> hi"
    using new by (auto simp: entry_in_def)
  have pos: "\<exists>j. fst x = base + of_nat j \<and> lo \<le> j \<and> j + length (snd x) \<le> hi \<and>
      (seg_covers (fst x) (fst x + of_nat (length (snd x))) s (s + of_nat (length p)) \<longleftrightarrow>
         j \<le> m \<and> m + length p \<le> j + length (snd x)) \<and>
      (seg_covers s (s + of_nat (length p)) (fst x) (fst x + of_nat (length (snd x))) \<longleftrightarrow>
         m \<le> j \<and> j + length (snd x) \<le> m + length p) \<and>
      (entry_cov base lo hi x i \<longleftrightarrow> j \<le> i \<and> i < j + length (snd x))"
    if x: "entry_in base lo hi x" for x
  proof -
    obtain j where j: "fst x = base + of_nat j" "lo \<le> j" "j + length (snd x) \<le> hi"
      using x by (auto simp: entry_in_def)
    have "j' = j" if "base + of_nat j' = base + of_nat j" "lo \<le> j'" "j' + length (snd x) \<le> hi" for j'
      using base_inj [OF that(1), of lo] that j range by simp
    then have "entry_cov base lo hi x i \<longleftrightarrow> j \<le> i \<and> i < j + length (snd x)"
      using j by (auto simp: entry_cov_def)
    with j m range seg_covers_positions [of lo j "length (snd x)" m "length p" base]
      seg_covers_positions [of lo m "length p" j "length (snd x)" base]
    show ?thesis by (intro exI [of _ j]) simp
  qed
  have newcov: "entry_cov base lo hi (s, p) i \<longleftrightarrow> m \<le> i \<and> i < m + length p"
  proof -
    obtain j where "s = base + of_nat j" "lo \<le> j" "j + length p \<le> hi"
      "entry_cov base lo hi (s, p) i \<longleftrightarrow> j \<le> i \<and> i < j + length p" using pos [OF new] by auto
    moreover have "j = m" using base_inj [of base j m lo] m calculation range by simp
    ultimately show ?thesis by simp
  qed
  show ?thesis
  proof (cases "\<exists>x \<in> set (tc_ooo_segments c).
      seg_covers (fst x) (fst x + of_nat (length (snd x))) s (s + of_nat (length p))")
    case True
    then obtain x where x: "x \<in> set (tc_ooo_segments c)"
      "seg_covers (fst x) (fst x + of_nat (length (snd x))) s (s + of_nat (length p))" by blast
    then have same: "buffer_ooo s p c = c"
      by (auto simp: buffer_ooo_def Let_def list_ex_iff split_beta)
    from i(2) show ?thesis
    proof
      assume "e = (s, p)"
      then have "entry_cov base lo hi x i" using x i(1) newcov pos [of x] ok by fastforce
      then show ?thesis using x same by auto
    qed (use i same in auto)
  next
    case False
    let ?keep = "filter (\<lambda>(s', p'). \<not> seg_covers s (s + of_nat (length p)) s' (s' + of_nat (length p')))
      (tc_ooo_segments c)"
    have fit: "\<not> MAX_OOO_BYTES < sum_list (map (\<lambda>(_, p). length p) ?keep) + length p"
      using room ooo_bytes_filter [of "\<lambda>(s', p'). \<not> seg_covers s (s + of_nat (length p)) s' (s' + of_nat (length p'))"
          "tc_ooo_segments c"] by (simp add: ooo_bytes_def)
    have none: "\<not> list_ex (\<lambda>(s', p'). seg_covers s' (s' + of_nat (length p')) s (s + of_nat (length p)))
        (tc_ooo_segments c)"
      using False by (auto simp: list_ex_iff split_beta)
    have "set (tc_ooo_segments (buffer_ooo s p c)) = insert (s, p) (set ?keep)"
      using fit none by (simp add: buffer_ooo_def Let_def ooo_bytes_def)
    moreover have "e \<in> insert (s, p) (set ?keep) \<or> entry_cov base lo hi (s, p) i"
      using i newcov pos [of e] ok by (auto simp: split_beta)
    ultimately show ?thesis using i(1) by blast
  qed
qed

lemma cov_sync [simp]: "cov base d (sync_legacy_ooo_view c) = cov base d c"
  by (simp add: cov_def fun_eq_iff)

lemma cov_deliver_drain:
  assumes ok: "rx_ok base d n c" and p: "bytes_at n p" "n + length p \<le> length d + 65535"
    and i: "cov base d c i \<or> i < n + length p"
  shows "cov base d (drain_ooo (deliver p c)) i"
proof -
  let ?c = "drain_ooo (deliver p c)"
  obtain n' where n': "n + length p \<le> n'" "rx_ok base d n' ?c"
    "\<forall>e \<in> set (tc_ooo_segments c). e \<in> set (tc_ooo_segments ?c) \<or> entry_in base (n + 1) n' e"
    using deliver_drain_ok [OF ok p] by blast
  have count: "length d + length (tc_rx_buffer ?c) = n'" "length d + length (tc_rx_buffer c) = n"
    using rx_ok_count [OF n'(2)] rx_ok_count [OF ok] by simp_all
  have bounds: "n' \<le> length d + 65535" by (rule rx_ok_bounds(1) [OF n'(2)])
  show ?thesis
  proof (cases "i < n + length p")
    case False
    with i obtain e where e: "e \<in> set (tc_ooo_segments c)" "entry_cov base (n + 1) (length d + 65535) e i"
      by (auto simp: cov_def Let_def count)
    from n'(3) e(1) consider "e \<in> set (tc_ooo_segments ?c)" | "entry_in base (n + 1) n' e" by blast
    then show ?thesis
    proof cases
      case 1
      then have "entry_in base (n' + 1) (length d + 65535) e" using n'(2) by (simp add: rx_ok_def)
      from entry_cov_move [OF this e(2), of "length d"] 1 show ?thesis
        using n'(1) rx_ok_bounds(2) [OF ok] by (auto simp: cov_def Let_def count)
    next
      case 2
      from entry_cov_less [OF entry_cov_move [OF this e(2), of "length d"]] show ?thesis
        using bounds rx_ok_bounds(2) [OF ok] by (auto simp: cov_def Let_def count)
    qed
  qed (use n' count in \<open>auto simp: cov_def Let_def\<close>)
qed

lemma cov_accept_window:
  assumes ok: "rx_ok base d n c" and s: "s = base + of_nat (n + k)" and k: "k = unat (s - tc_rcv_nxt c)"
    and p: "bytes_at (n + k) p" and room: "ooo_bytes c + length p \<le> MAX_OOO_BYTES"
    and i: "cov base d c i \<or> n + k \<le> i \<and> i < n + k + length p \<and> i < length d + 65535"
  shows "cov base d (accept_window s p c) i"
proof -
  define q where "q = take (length d + 65535 - n - k) p"
  note eq = accept_window_eq [OF ok k q_def]
  have len: "length q = min (length p) (length d + 65535 - n - k)" by (simp add: q_def)
  have count: "length d + length (tc_rx_buffer c) = n" using rx_ok_count [OF ok] by simp
  consider "q = []" | "q \<noteq> []" "k = 0" | "q \<noteq> []" "0 < k" by blast
  then show ?thesis
  proof cases
    case 1
    then show ?thesis using i eq len by auto
  next
    case 2
    have "bytes_at n q" "n + length q \<le> length d + 65535" "cov base d c i \<or> i < n + length q"
      using bytes_at_take [OF p, of "length d + 65535 - n - k"] 2 rx_ok_bounds(1) [OF ok] i len
      by (auto simp: q_def)
    from cov_deliver_drain [OF ok this] show ?thesis using 2 eq by simp
  next
    case 3
    have new: "entry_in base (n + 1) (length d + 65535) (s, q)"
      by (rule entry_in_window [OF ok s 3(2) p q_def 3(1)])
    have rx: "tc_rx_buffer (buffer_ooo s q c) = tc_rx_buffer c" by (simp add: buffer_ooo_def Let_def)
    have "i < n \<or> (\<exists>e. entry_cov base (n + 1) (length d + 65535) e i \<and>
        (e \<in> set (tc_ooo_segments c) \<or> e = (s, q)))"
    proof (cases "cov base d c i")
      case False
      then have "entry_cov base (n + 1) (length d + 65535) (s, q) i"
        using i s 3 len rx_ok_bounds(1) [OF ok] by (auto simp: entry_cov_def intro!: exI [of _ "n + k"])
      then show ?thesis by blast
    qed (auto simp: cov_def Let_def count)
    moreover have "ooo_bytes c + length q \<le> MAX_OOO_BYTES" using room len by simp
    ultimately show ?thesis
      using buffer_ooo_cov [of c base "n + 1" "length d + 65535" s q _ i] ok new 3 eq rx rx_ok_bounds(2) [OF ok]
      by (auto simp: cov_def Let_def count rx_ok_def)
  qed
qed

text \<open>Segments whose position is known and close to the next expected byte.\<close>

lemma near_compare:
  assumes "n < i + 2 ^ 30" "i < n + 2 ^ 30" "len \<le> 65535"
  shows "seq_lt (base + of_nat i) (base + of_nat n) \<longleftrightarrow> i < n"
    and "seq_le (base + of_nat i + of_nat len) (base + of_nat n) \<longleftrightarrow> i + len \<le> n"
    and "n \<le> i \<Longrightarrow> unat (base + of_nat i - (base + of_nat n)) = i - n"
    and "i \<le> n \<Longrightarrow> unat (base + of_nat n - (base + of_nat i)) = n - i"
proof -
  have d: "\<bar>int i - int n\<bar> < 2 ^ 31" "\<bar>int (i + len) - int n\<bar> < 2 ^ 31"
    using assms by (auto simp: abs_less_iff)
  show "seq_lt (base + of_nat i) (base + of_nat n) \<longleftrightarrow> i < n"
    by (rule seq_base_simps(1) [OF d(1)])
  show "seq_le (base + of_nat i + of_nat len) (base + of_nat n) \<longleftrightarrow> i + len \<le> n"
    using seq_base_simps(2) [OF d(2), of base] by (simp add: add.assoc)
  show "n \<le> i \<Longrightarrow> unat (base + of_nat i - (base + of_nat n)) = i - n"
    using seq_diff_base [of n i base] assms by (simp add: seq_diff_def)
  show "i \<le> n \<Longrightarrow> unat (base + of_nat n - (base + of_nat i)) = n - i"
    using seq_diff_base [of i n base] assms by (simp add: seq_diff_def)
qed

lemma near_fits:
  assumes "bytes_at i p" "n < i + 2 ^ 30" "i < n + 2 ^ 30" "length p \<le> 65535"
  shows "fits base n (base + of_nat i) p"
  using near_compare [OF assms(2-4), of base] bytes_at_drop [OF assms(1), of "n - i"] assms(1)
  by (auto simp: fits_def Let_def)

lemma cov_accept_data:
  assumes ok: "rx_ok base d n c" and p: "bytes_at m p" "n < m + 2 ^ 30" "m < n + 2 ^ 30" "length p \<le> 65535"
    and room: "ooo_bytes c + length p \<le> MAX_OOO_BYTES"
    and i: "cov base d c i \<or> m \<le> i \<and> i < m + length p \<and> i < length d + 65535"
  shows "cov base d (accept_data (base + of_nat m) p c) i"
proof -
  have r: "tc_rcv_nxt c = base + of_nat n" by (rule rx_ok_bounds(3) [OF ok])
  have below: "j < n \<Longrightarrow> cov base d c j" for j using rx_ok_count [OF ok] by (simp add: cov_def Let_def)
  note cmp = near_compare [OF p(2-4), of base]
  consider "p = [] \<or> m + length p \<le> n" | "m < n" "n < m + length p" | "p \<noteq> []" "n \<le> m" by linarith
  then show ?thesis
  proof cases
    case 1
    then have "accept_data (base + of_nat m) p c = c" using cmp(2) r by (auto simp: accept_data_def Let_def)
    then show ?thesis using 1 i below by auto
  next
    case 2
    then have eq: "accept_data (base + of_nat m) p c = accept_window (base + of_nat n) (drop (n - m) p) c"
      using cmp r by (auto simp: accept_data_def Let_def seq_diff_def)
    have at: "bytes_at (n + 0) (drop (n - m) p)" using bytes_at_drop [OF p(1), of "n - m"] 2 by simp
    have i': "cov base d c i \<or> n + 0 \<le> i \<and> i < n + 0 + length (drop (n - m) p) \<and> i < length d + 65535"
      using i below [of i] 2 by (cases "i < n") auto
    show ?thesis unfolding eq
      by (rule cov_accept_window [OF ok _ _ at _ i']) (use room r in simp_all)
  next
    case 3
    then have "\<not> m + length p \<le> n" by (cases p) auto
    with 3 have eq: "accept_data (base + of_nat m) p c = accept_window (base + of_nat m) p c"
      using cmp(1) cmp(2) r by (simp add: accept_data_def Let_def)
    have at: "bytes_at (n + (m - n)) p" and m: "base + of_nat m = base + of_nat (n + (m - n))"
      using p(1) 3 by simp_all
    have k: "m - n = unat (base + of_nat m - tc_rcv_nxt c)" using cmp(3) 3 r by simp
    have i': "cov base d c i \<or> n + (m - n) \<le> i \<and> i < n + (m - n) + length p \<and> i < length d + 65535"
      using i 3 by auto
    show ?thesis unfolding eq by (rule cov_accept_window [OF ok m k at room i'])
  qed
qed

lemma not_cov_next: "rx_ok base d n c \<Longrightarrow> \<not> cov base d c n"
  using rx_ok_count [of base d n c] by (auto simp: cov_def Let_def entry_cov_def)

end

section \<open>The reassembly queue is bounded\<close>

lemma ooo_bytes_drain_pass:
  "sum_list (map (\<lambda>(_, p). length p) (fst (drain_pass todo c))) \<le> sum_list (map (\<lambda>(_, p). length p) todo)"
proof (induction todo arbitrary: c)
  case (Cons e rest)
  then show ?case by (cases e) (auto simp: Let_def split_beta intro: le_trans trans_le_add2)
qed simp

lemma ooo_bytes_drain_ooo: "ooo_bytes (drain_ooo c) \<le> ooo_bytes c"
proof (induction c rule: drain_ooo.induct)
  case (1 c)
  obtain kept adv c1 where p: "drain_pass (tc_ooo_segments c) c = (kept, adv, c1)" by (metis prod_cases3)
  have le: "ooo_bytes (c1\<lparr> tc_ooo_segments := kept \<rparr>) \<le> ooo_bytes c"
    using ooo_bytes_drain_pass [of "tc_ooo_segments c" c] p by (simp add: ooo_bytes_def)
  show ?case
  proof (cases adv)
    case True
    from "1.IH" [OF p [symmetric] refl refl refl this] le True p show ?thesis
      by (subst drain_ooo.simps) simp
  next
    case False
    with le p show ?thesis by (subst drain_ooo.simps) simp
  qed
qed

lemma sum_list_sort_by: "sum_list (map f (sort_by cmp xs)) = (sum_list (map f xs) :: nat)"
  by (simp flip: sum_mset_sum_list)

lemma ooo_bytes_buffer_ooo:
  "ooo_bytes (buffer_ooo s p c) \<le> ooo_bytes c + length p \<and>
   (ooo_bytes c \<le> MAX_OOO_BYTES \<longrightarrow> ooo_bytes (buffer_ooo s p c) \<le> MAX_OOO_BYTES)"
proof -
  define keep where "keep = filter (\<lambda>(s', p'). \<not> seg_covers s (s + of_nat (length p)) s' (s' + of_nat (length p')))
      (tc_ooo_segments c)"
  have "sum_list (map (\<lambda>(_, p). length p) keep) \<le> sum_list (map (\<lambda>(_, p). length p) (tc_ooo_segments c))"
    unfolding keep_def by (rule sum_list_filter_le_nat)
  then show ?thesis
    by (simp add: buffer_ooo_def Let_def ooo_bytes_def sum_list_sort_by flip: keep_def)
qed

lemma ooo_bytes_sync [simp]: "ooo_bytes (sync_legacy_ooo_view c) = ooo_bytes c"
  by (simp add: ooo_bytes_def)

lemma ooo_bytes_deliver [simp]: "ooo_bytes (deliver q c) = ooo_bytes c"
  by (simp add: ooo_bytes_def)

lemma ooo_bytes_accept_window:
  "ooo_bytes (accept_window s p c) \<le> ooo_bytes c + length p \<and>
   (ooo_bytes c \<le> MAX_OOO_BYTES \<longrightarrow> ooo_bytes (accept_window s p c) \<le> MAX_OOO_BYTES)"
proof -
  have d: "ooo_bytes (drain_ooo (deliver q c)) \<le> ooo_bytes c" for q
    using ooo_bytes_drain_ooo [of "deliver q c"] by simp
  have b: "ooo_bytes (buffer_ooo s (take k p) c) \<le> ooo_bytes c + length p \<and>
      (ooo_bytes c \<le> MAX_OOO_BYTES \<longrightarrow> ooo_bytes (buffer_ooo s (take k p) c) \<le> MAX_OOO_BYTES)" for k
    using ooo_bytes_buffer_ooo [of s "take k p" c] by auto
  have t: "(if a < length p then take a p else p) = take a p" for a by simp
  show ?thesis
    unfolding accept_window_def Let_def t using d b by (auto intro: le_trans [OF d])
qed

lemma ooo_bytes_accept_data:
  "ooo_bytes (accept_data s p c) \<le> ooo_bytes c + length p \<and>
   (ooo_bytes c \<le> MAX_OOO_BYTES \<longrightarrow> ooo_bytes (accept_data s p c) \<le> MAX_OOO_BYTES)"
  using ooo_bytes_accept_window [of s p c]
    ooo_bytes_accept_window [of "tc_rcv_nxt c" "drop (unat (seq_diff (tc_rcv_nxt c) s)) p" c]
  by (auto simp: accept_data_def Let_def)

section \<open>The stream of a peer, and no stream at all\<close>

definition slice_at :: "bytes \<Rightarrow> nat \<Rightarrow> bytes \<Rightarrow> bool" where
  "slice_at S i p \<longleftrightarrow> i + length p \<le> length S \<and> p = take (length p) (drop i S)"

definition prefix_upto :: "bytes \<Rightarrow> nat \<Rightarrow> bytes \<Rightarrow> bool" where
  "prefix_upto S n x \<longleftrightarrow> n \<le> length S \<and> x = take n S"

interpretation peer: stream_content "slice_at S" "prefix_upto S" for S
proof
  show "slice_at S i (take k p)" if "slice_at S i p" for i p k
  proof -
    have i: "i + length p \<le> length S" and p: "take (length p) (drop i S) = p"
      using that by (simp_all add: slice_at_def)
    have "take (length (take k p)) (drop i S) = take k (take (length p) (drop i S))"
      by (simp add: min.commute)
    then have "take k p = take (length (take k p)) (drop i S)" unfolding p by (rule sym)
    moreover have "i + length (take k p) \<le> length S" using i by simp
    ultimately show ?thesis unfolding slice_at_def by blast
  qed
  show "slice_at S (i + k) (drop k p)" if "slice_at S i p" "k \<le> length p" for i p k
  proof -
    have i: "i + length p \<le> length S" and p: "take (length p) (drop i S) = p"
      using that by (simp_all add: slice_at_def)
    have "take (length (drop k p)) (drop (i + k) S) = drop k (take (length p) (drop i S))"
      by (simp add: drop_take add.commute)
    then have "drop k p = take (length (drop k p)) (drop (i + k) S)" unfolding p by (rule sym)
    moreover have "i + k + length (drop k p) \<le> length S" using i that(2) by simp
    ultimately show ?thesis unfolding slice_at_def by blast
  qed
  show "prefix_upto S (n + length p) (x @ p)" if "prefix_upto S n x" "slice_at S n p" for n x p
    using that by (auto simp: prefix_upto_def slice_at_def take_add)
qed (simp_all add: prefix_upto_def)

interpretation anything: stream_content "\<lambda>_ _. True" "\<lambda>n x. length x = n"
  by unfold_locales auto

definition accept_all :: "u32 \<Rightarrow> (nat \<times> bytes) list \<Rightarrow> TcpConnection \<Rightarrow> TcpConnection" where
  "accept_all base segs c = foldl (\<lambda>c (i, p). accept_data (base + of_nat i) p c) c segs"

lemma accept_all_covers:
  assumes "peer.rx_ok S base [] n c" "length S \<le> 65535"
    and "\<forall>(i, p) \<in> set segs. slice_at S i p"
    and "ooo_bytes c + sum_list (map (\<lambda>(_, p). length p) segs) \<le> MAX_OOO_BYTES"
  shows "\<exists>n'. peer.rx_ok S base [] n' (accept_all base segs c) \<and>
    (\<forall>k < length S. peer.cov base [] c k \<or> (\<exists>(i, p) \<in> set segs. i \<le> k \<and> k < i + length p) \<longrightarrow>
       peer.cov base [] (accept_all base segs c) k)"
  using assms
proof (induction segs arbitrary: c n)
  case Nil
  then show ?case by (auto simp: accept_all_def)
next
  case (Cons e segs)
  obtain i p where e: "e = (i, p)" by fastforce
  let ?c = "accept_data (base + of_nat i) p c"
  have at: "slice_at S i p" "length p \<le> 65535" "i \<le> 65535"
    using Cons.prems(2,3) by (auto simp: e slice_at_def)
  have near: "n < i + 2 ^ 30" "i < n + 2 ^ 30"
    using peer.rx_ok_bounds(1) [OF Cons.prems(1)] at by simp_all
  obtain n' where n': "peer.rx_ok S base [] n' ?c"
    using peer.accept_data_ok [OF Cons.prems(1) peer.near_fits [OF at(1) near at(2)]] by blast
  have bytes: "ooo_bytes ?c + sum_list (map (\<lambda>(_, p). length p) segs) \<le> MAX_OOO_BYTES"
    using Cons.prems(4) ooo_bytes_accept_data [of "base + of_nat i" p c] by (simp add: e)
  have cov: "peer.cov base [] ?c k"
    if "k < length S" "peer.cov base [] c k \<or> i \<le> k \<and> k < i + length p" for k
    by (rule peer.cov_accept_data [OF Cons.prems(1) at(1) near at(2)])
       (use that Cons.prems(2,4) e in auto)
  show ?case
    using Cons.IH [OF n' Cons.prems(2) _ bytes] Cons.prems(3) cov by (fastforce simp: accept_all_def e)
qed

text \<open>C10: segments may arrive in any order, duplicated and overlapping in any way: once the
  segments received cover a message of at most one receive window (and their total size stays
  within the reassembly limit), the receive buffer holds exactly the message, the next expected
  sequence number is the one after it, and the reassembly queue is empty.\<close>
theorem receive_any_order:
  assumes c: "tc_rcv_nxt c = base" "tc_rx_buffer c = []" "tc_ooo_segments c = []" "tc_rcv_capacity c = 65535"
    and S: "length S \<le> 65535" and segs: "\<forall>(i, p) \<in> set segs. slice_at S i p"
    and total: "sum_list (map (\<lambda>(_, p). length p) segs) \<le> MAX_OOO_BYTES"
    and covers: "\<forall>k < length S. \<exists>(i, p) \<in> set segs. i \<le> k \<and> k < i + length p"
    and c': "c' = accept_all base segs c"
  shows "tc_rx_buffer c' = S \<and> tc_rcv_nxt c' = base + of_nat (length S) \<and> tc_ooo_segments c' = []"
proof -
  have "peer.rx_ok S base [] 0 c"
    using c by (simp add: peer.rx_ok_def peer.in_stream_def prefix_upto_def)
  moreover have "ooo_bytes c + sum_list (map (\<lambda>(_, p). length p) segs) \<le> MAX_OOO_BYTES"
    using total c by (simp add: ooo_bytes_def)
  ultimately obtain n where n: "peer.rx_ok S base [] n c'"
    and cov: "\<forall>k < length S. peer.cov base [] c' k"
    using accept_all_covers [OF _ S segs, of base 0 c] covers c' by blast
  have pre: "prefix_upto S n (tc_rx_buffer c')" and nxt: "tc_rcv_nxt c' = base + of_nat n"
    using n by (auto simp: peer.rx_ok_def peer.in_stream_def)
  have "\<not> n < length S" using cov peer.not_cov_next [OF n] by blast
  then have len: "n = length S" and rx: "tc_rx_buffer c' = S" using pre by (auto simp: prefix_upto_def)
  have "\<not> peer.entry_in S base (n + 1) 65535 e" for e
    using len by (auto simp: peer.entry_in_def slice_at_def)
  then have "tc_ooo_segments c' = []" using n by (cases "tc_ooo_segments c'") (auto simp: peer.rx_ok_def)
  with rx nxt len show ?thesis by simp
qed

theorem receive_any_order_witness:
  "tc_rx_buffer (accept_all 0 [(2, [3, 4]), (1, [2, 3]), (2, [3, 4]), (0, [1])]
     (new_server \<lparr> sock_ip = O4 10 0 0 1, sock_port = 80 \<rparr> \<lparr> sock_ip = O4 10 0 0 2, sock_port = 9 \<rparr> 7)) =
   [1, 2, 3, 4]"
proof -
  let ?c = "new_server \<lparr> sock_ip = O4 10 0 0 1, sock_port = 80 \<rparr> \<lparr> sock_ip = O4 10 0 0 2, sock_port = 9 \<rparr> 7"
  let ?segs = "[(2, [3, 4]), (1, [2, 3]), (2, [3, 4]), (0, [1])] :: (nat \<times> bytes) list"
  have "\<forall>k < length [1, 2, 3, 4 :: u8]. \<exists>(i, p) \<in> set ?segs. i \<le> k \<and> k < i + length p"
    by (auto simp: less_Suc_eq)
  from receive_any_order [of ?c 0 "[1, 2, 3, 4]" ?segs, OF _ _ _ _ _ _ _ this refl] show ?thesis
    by (simp add: new_server_def slice_at_def MAX_OOO_BYTES_def)
qed

end
