(* ===== verification/TcpRun.thy ===== *)
theory TcpRun
  imports TcpReceive
begin

unbundle bit_operations_syntax

text \<open>
  A connection driven by its environment: the events of the application, the clock and the network,
  and the runs from a fresh server or client connection.  The lemmas of this theory say which part
  of the state each operation leaves alone, so that the invariants of the receiving and of the
  sending side are proved over the operations that matter to them.
\<close>

section \<open>Events and runs\<close>

datatype conn_event =
    EvSegment TcpSegment u64
  | EvWrite bytes
  | EvRead nat
  | EvPoll u64
  | EvClose u64
  | EvSend bytes u64

definition option_list :: "'a option \<Rightarrow> 'a list" where
  "option_list x = (case x of None \<Rightarrow> [] | Some y \<Rightarrow> [y])"

text \<open>The effect of an event: the bytes handed to the application, the bytes taken from it, the
  packets emitted, and the new connection.\<close>

fun conn_step ::
  "conn_event \<Rightarrow> TcpConnection \<Rightarrow> (bytes \<times> bytes \<times> bytes list \<times> TcpConnection) may_panic" where
  "conn_step (EvSegment seg now_ms) c =
     do { (resp, c') \<leftarrow> handle_segment_at seg now_ms c; Some ([], [], option_list resp, c') }"
| "conn_step (EvWrite data) c =
     (let (accepted, c') = tcp_write data c in Some ([], take accepted data, [], c'))"
| "conn_step (EvRead n) c = (let (out, c') = tcp_read n c in Some (out, [], [], c'))"
| "conn_step (EvPoll now_ms) c =
     do { (packets, c') \<leftarrow> poll_output now_ms c; Some ([], [], packets, c') }"
| "conn_step (EvClose now_ms) c =
     do { (fin, c') \<leftarrow> initiate_close_at now_ms c; Some ([], [], option_list fin, c') }"
| "conn_step (EvSend data now_ms) c =
     do { (pkt, c') \<leftarrow> send_data_at data now_ms c;
          Some ([], (if tc_state c = Established then take (fst (tcp_write data c)) data else []),
                option_list pkt, c') }"

text \<open>The runs of a connection.  \<open>adm n seg\<close> restricts the segments the network may deliver while
  \<open>n\<close> bytes of the peer's stream have been received; \<open>d\<close> is what the application has read and \<open>w\<close>
  what it has written (and the send buffer has accepted).\<close>

inductive conn_run ::
  "(nat \<Rightarrow> TcpSegment \<Rightarrow> bool) \<Rightarrow> u32 \<Rightarrow> TcpConnection \<Rightarrow> bytes \<Rightarrow> bytes \<Rightarrow> bool"
  for adm :: "nat \<Rightarrow> TcpSegment \<Rightarrow> bool" and isn :: u32 where
  server: "conn_run adm isn (new_server local remote isn) [] []"
| client: "initiate_syn_at now_ms (new_client local remote isn) = Some (pkt, c) \<Longrightarrow>
     conn_run adm isn c [] []"
| step: "conn_run adm isn c d w \<Longrightarrow> conn_step ev c = Some (out, acc, packets, c') \<Longrightarrow>
     (\<And>seg now_ms. ev = EvSegment seg now_ms \<Longrightarrow> adm (length d + length (tc_rx_buffer c)) seg) \<Longrightarrow>
     conn_run adm isn c' (d @ out) (w @ acc)"

section \<open>What each operation leaves alone\<close>

definition rx_view :: "TcpConnection \<Rightarrow> TcpState \<times> u32 \<times> nat \<times> bytes \<times> (u32 \<times> bytes) list \<times> bool" where
  "rx_view c = (tc_state c, tc_rcv_nxt c, tc_rcv_capacity c, tc_rx_buffer c, tc_ooo_segments c,
     tc_fin_received c)"

definition tx_view :: "TcpConnection \<Rightarrow>
   TcpState \<times> u32 \<times> u32 \<times> bytes \<times> RetransmitSegment list \<times> u32 \<times> bool \<times> bool \<times> bool" where
  "tx_view c = (tc_state c, tc_snd_una c, tc_snd_nxt c, tc_tx_buffer c, tc_retransmit_queue c,
     cc_in_flight (tc_congestion c), tc_fin_sent c, tc_close_requested c, tc_aborted c)"

lemmas views = rx_view_def tx_view_def

lemma rx_view_updates [simp]:
  "rx_view (tc_local_update f1 c) = rx_view c"
  "rx_view (tc_remote_update f2 c) = rx_view c"
  "rx_view (tc_snd_una_update f3 c) = rx_view c"
  "rx_view (tc_snd_nxt_update f4 c) = rx_view c"
  "rx_view (tc_snd_wnd_update f5 c) = rx_view c"
  "rx_view (tc_rcv_wnd_update f6 c) = rx_view c"
  "rx_view (tc_peer_mss_update f7 c) = rx_view c"
  "rx_view (tc_local_mss_update f8 c) = rx_view c"
  "rx_view (tc_tx_buffer_update f9 c) = rx_view c"
  "rx_view (tc_ooo_queue_update f10 c) = rx_view c"
  "rx_view (tc_retransmit_queue_update f11 c) = rx_view c"
  "rx_view (tc_congestion_update f12 c) = rx_view c"
  "rx_view (tc_rtt_update f13 c) = rx_view c"
  "rx_view (tc_stats_update f14 c) = rx_view c"
  "rx_view (tc_current_time_ms_update f15 c) = rx_view c"
  "rx_view (tc_time_wait_entered_ms_update f16 c) = rx_view c"
  "rx_view (tc_fin_sent_update f17 c) = rx_view c"
  "rx_view (tc_close_requested_update f18 c) = rx_view c"
  "rx_view (tc_aborted_update f19 c) = rx_view c"
  "rx_view (tc_persist_deadline_ms_update f20 c) = rx_view c"
  "rx_view (tc_last_advertised_wnd_update f21 c) = rx_view c"
  "rx_view (tc_sack_permitted_update f22 c) = rx_view c"
  "rx_view (tc_peer_sack_permitted_update f23 c) = rx_view c"
  "rx_view (tc_ts_enabled_update f24 c) = rx_view c"
  "rx_view (tc_ts_recent_update f25 c) = rx_view c"
  "rx_view (tc_last_ts_ack_update f26 c) = rx_view c"
  "rx_view (tc_last_ack_sent_update f27 c) = rx_view c"
  by (simp_all add: rx_view_def)

lemma tx_view_updates [simp]:
  "tx_view (tc_local_update f28 c) = tx_view c"
  "tx_view (tc_remote_update f29 c) = tx_view c"
  "tx_view (tc_snd_wnd_update f30 c) = tx_view c"
  "tx_view (tc_rcv_nxt_update f31 c) = tx_view c"
  "tx_view (tc_rcv_wnd_update f32 c) = tx_view c"
  "tx_view (tc_rcv_capacity_update f33 c) = tx_view c"
  "tx_view (tc_peer_mss_update f34 c) = tx_view c"
  "tx_view (tc_local_mss_update f35 c) = tx_view c"
  "tx_view (tc_rx_buffer_update f36 c) = tx_view c"
  "tx_view (tc_ooo_queue_update f37 c) = tx_view c"
  "tx_view (tc_ooo_segments_update f38 c) = tx_view c"
  "tx_view (tc_rtt_update f39 c) = tx_view c"
  "tx_view (tc_stats_update f40 c) = tx_view c"
  "tx_view (tc_current_time_ms_update f41 c) = tx_view c"
  "tx_view (tc_time_wait_entered_ms_update f42 c) = tx_view c"
  "tx_view (tc_fin_received_update f43 c) = tx_view c"
  "tx_view (tc_persist_deadline_ms_update f44 c) = tx_view c"
  "tx_view (tc_last_advertised_wnd_update f45 c) = tx_view c"
  "tx_view (tc_sack_permitted_update f46 c) = tx_view c"
  "tx_view (tc_peer_sack_permitted_update f47 c) = tx_view c"
  "tx_view (tc_ts_enabled_update f48 c) = tx_view c"
  "tx_view (tc_ts_recent_update f49 c) = tx_view c"
  "tx_view (tc_last_ts_ack_update f50 c) = tx_view c"
  "tx_view (tc_last_ack_sent_update f51 c) = tx_view c"
  by (simp_all add: tx_view_def)

text \<open>Acknowledgements and replies only touch counters and the advertised values.\<close>

lemma count_views [simp]:
  "rx_view (count_segment_sent c) = rx_view c" "tx_view (count_segment_sent c) = tx_view c"
  "rx_view (count_invalid c) = rx_view c" "tx_view (count_invalid c) = tx_view c"
  by (simp_all add: count_segment_sent_def count_invalid_def)

lemma build_ack_views: "build_ack c = Some (p, c') \<Longrightarrow> rx_view c' = rx_view c \<and> tx_view c' = tx_view c"
  by (auto simp: build_ack_def Let_def bind_eq_Some_conv)

lemma reply_ack_views: "reply_ack c = Some (p, c') \<Longrightarrow> rx_view c' = rx_view c \<and> tx_view c' = tx_view c"
  by (auto simp: reply_ack_def bind_eq_Some_conv dest: build_ack_views)

lemma read_views [simp]: "tx_view (snd (tcp_read n c)) = tx_view c"
  by (simp add: tcp_read_def Let_def)

lemma write_views [simp]: "rx_view (snd (tcp_write data c)) = rx_view c"
  by (simp add: tcp_write_def Let_def)

text \<open>The sending operations do not touch the receiving side.\<close>

lemma track_rx_view [simp]: "rx_view (track_for_retransmit s l f p t c) = rx_view c"
  by (simp add: track_for_retransmit_def)

lemma retire_acked_rx_view [simp]: "rx_view (retire_acked a t c) = rx_view c"
  by (simp add: retire_acked_def split_beta)

lemma acknowledge_rx_view [simp]: "rx_view (acknowledge a t c) = rx_view c"
  by (simp add: acknowledge_def Let_def)

lemma acknowledge_rx_fields [simp]:
  "tc_state (acknowledge a t c) = tc_state c" "tc_rcv_nxt (acknowledge a t c) = tc_rcv_nxt c"
  "tc_rcv_capacity (acknowledge a t c) = tc_rcv_capacity c" "tc_rx_buffer (acknowledge a t c) = tc_rx_buffer c"
  "tc_ooo_segments (acknowledge a t c) = tc_ooo_segments c" "tc_fin_received (acknowledge a t c) = tc_fin_received c"
  using acknowledge_rx_view [of a t c] by (simp_all add: rx_view_def)

lemma retransmit_oldest_rx_view:
  "retransmit_oldest t fast c = Some (p, c') \<Longrightarrow> rx_view c' = rx_view c"
  by (auto simp: retransmit_oldest_def count_retransmission_def Let_def bind_eq_Some_conv
      split: option.splits if_splits)

lemma process_ack_rx_view:
  "process_ack seg t c = Some (early, resp, c') \<Longrightarrow> rx_view c' = rx_view c"
  by (auto simp: process_ack_def Let_def split_beta bind_eq_Some_conv split: if_splits
      dest!: reply_ack_views retransmit_oldest_rx_view)

lemma send_chunk_rx_view: "send_chunk n f t c = Some (p, c') \<Longrightarrow> rx_view c' = rx_view c"
  by (auto simp: send_chunk_def Let_def bind_eq_Some_conv)

lemma send_loop_preserves:
  assumes "send_loop t c = Some (ps, c')" "P c"
    and pres: "\<And>t c p c'. P c \<Longrightarrow> chunk_size c \<noteq> 0 \<Longrightarrow>
      send_chunk (chunk_size c) (flags_ack\<lparr> tf_psh := True \<rparr>) t c = Some (p, c') \<Longrightarrow> P c'"
  shows "P c'"
  using assms(1,2)
proof (induction t c arbitrary: ps c' rule: send_loop.induct)
  case (1 t c)
  show ?case
  proof (cases "send_window_available (tc_congestion c) (tc_snd_wnd c) = 0 \<or> chunk_size c = 0")
    case True
    then show ?thesis using "1.prems" by (subst (asm) send_loop.simps) (auto split: if_splits)
  next
    case False
    then obtain p c1 where c1: "send_chunk (chunk_size c) (flags_ack\<lparr> tf_psh := True \<rparr>) t c = Some (p, c1)"
      using "1.prems"(1) by (subst (asm) send_loop.simps) (auto split: option.splits)
    have P1: "P c1" using pres [OF "1.prems"(2) _ c1] False by simp
    show ?thesis
    proof (cases "tc_tx_buffer c1 = []")
      case True
      then show ?thesis using "1.prems"(1) False c1 P1 by (subst (asm) send_loop.simps) auto
    next
      case nonempty: False
      then obtain rest c2 where c2: "send_loop t c1 = Some (rest, c2)" "c' = c2"
        using "1.prems"(1) False c1 by (subst (asm) send_loop.simps) (auto split: option.splits)
      then show ?thesis using "1.IH" [OF _ _ c1 refl nonempty c2(1) P1] False by simp
    qed
  qed
qed

lemma send_loop_rx_view: "send_loop t c = Some (ps, c') \<Longrightarrow> rx_view c' = rx_view c"
  by (erule send_loop_preserves) (auto dest: send_chunk_rx_view)

lemma mark_sacked_rx_view [simp]: "rx_view (fold mark_sacked blocks c) = rx_view c"
  by (induction blocks arbitrary: c) (auto simp: mark_sacked_def Let_def)

lemma scan_option_rx_view: "rx_view (snd (scan_option opt (ts, c))) = rx_view c"
  by (cases opt) auto

lemma scan_options_rx_view: "rx_view (snd (fold scan_option opts x)) = rx_view (snd x)"
proof (induction opts arbitrary: x)
  case (Cons opt opts)
  then show ?case using scan_option_rx_view [of opt "fst x" "snd x"] by simp
qed simp

lemma receive_prologue_rx_view: "rx_view (snd (receive_prologue seg t c)) = rx_view c"
  by (simp add: receive_prologue_def Let_def negotiate_timestamps_def split_beta scan_options_rx_view
      split: option.splits)

lemma apply_timestamp_rx_view [simp]: "rx_view (apply_timestamp seg t ts c) = rx_view c"
  by (simp add: apply_timestamp_def Let_def split_beta)

end
