(* ===== verification/TcpPanic.thy ===== *)
theory TcpPanic
  imports TcpRun
begin

unbundle bit_operations_syntax

text \<open>
  Where a connection can panic.  The serializer panics when the options exceed 40 bytes, which only
  an acknowledgement (or retransmission) with four SACK blocks and a timestamp does.  A
  connection on which timestamps were not negotiated never panics.
\<close>

section \<open>Which segments fit\<close>

lemma option_enc_lengths [simp]:
  "length (option_enc (Mss m)) = 4" "length (option_enc SackPermitted) = 2"
  "length (option_enc (Timestamp v e)) = 10"
  by (simp_all add: option_enc_def)

lemma option_enc_sack_length [simp]:
  assumes "length blocks \<le> 4"
  shows "length (option_enc (Sack blocks)) = 2 + 8 * length blocks"
proof -
  have "length (concat (map (\<lambda>(l, r). u32_to_be l @ u32_to_be r) blocks)) = 8 * length blocks"
    by (induction blocks) auto
  then show ?thesis using assms by (simp add: option_enc_def Let_def)
qed

lemma conn_serialize_iff:
  "\<forall>opt \<in> set opts. option_ok opt \<Longrightarrow>
   conn_serialize c s a f w opts p = None \<longleftrightarrow> 40 < length (concat (map option_enc opts))"
  by (simp add: conn_serialize_def serialize_with_options_iff)

lemma conn_serialize_no_options [simp]: "(conn_serialize c s a f w [] p = None) = False"
  by (simp add: conn_serialize_iff)

lemma length_sack_blocks: "length (build_sack_blocks c) \<le> 4"
  by (simp add: build_sack_blocks_def)

lemma ack_options_ok: "\<forall>opt \<in> set (ack_options c). option_ok opt"
  using length_sack_blocks [of c] by (auto simp: ack_options_def ack_sack_blocks_def split: if_splits)

lemma ack_options_length:
  "length (concat (map option_enc (ack_options c))) =
     (if ack_sack_blocks c = [] then 0 else 2 + 8 * length (ack_sack_blocks c)) +
     (if tc_ts_enabled c then 10 else 0)"
  using length_sack_blocks [of c] by (auto simp: ack_options_def ack_sack_blocks_def)

lemma ack_options_fit:
  "40 < length (concat (map option_enc (ack_options c))) \<longleftrightarrow>
     tc_ts_enabled c \<and> length (ack_sack_blocks c) = 4"
  using length_sack_blocks [of c] unfolding ack_options_length
  by (auto simp: ack_sack_blocks_def split: if_splits)

lemma build_ack_None_iff:
  "build_ack c = None \<longleftrightarrow> tc_ts_enabled c \<and> length (ack_sack_blocks c) = 4"
proof -
  have "build_ack c = None \<longleftrightarrow> 40 < length (concat (map option_enc (ack_options c)))"
    unfolding build_ack_def Let_def
    by (auto simp: bind_eq_None_conv conn_serialize_iff ack_options_ok ack_options_def ack_sack_blocks_def
        build_sack_blocks_def count_segment_sent_def)
  then show ?thesis by (simp add: ack_options_fit)
qed

lemma build_ack_Some: "\<not> tc_ts_enabled c \<Longrightarrow> build_ack c \<noteq> None"
  by (simp add: build_ack_None_iff)

lemma reply_ack_Some: "\<not> tc_ts_enabled c \<Longrightarrow> reply_ack c \<noteq> None"
  using build_ack_Some [of c] by (auto simp: reply_ack_def)

lemma retransmit_options_fit:
  assumes "\<not> tc_ts_enabled c"
  shows "(conn_serialize c' s a f w (retransmit_options t e c) p = None) = False"
  using assms length_sack_blocks [of c]
  by (subst conn_serialize_iff) (auto simp: retransmit_options_def)

lemma retransmit_oldest_Some: "\<not> tc_ts_enabled c \<Longrightarrow> retransmit_oldest t fast c \<noteq> None"
  by (simp add: retransmit_oldest_def Let_def bind_eq_None_conv retransmit_options_fit
      count_retransmission_def split: option.split del: not_None_eq)

section \<open>Timestamps stay off\<close>

text \<open>No operation but the handling of a SYN switches timestamps on or off.\<close>

lemma ts_build_ack: "build_ack c = Some (p, c') \<Longrightarrow> tc_ts_enabled c' = tc_ts_enabled c"
  by (auto simp: build_ack_def Let_def bind_eq_Some_conv count_segment_sent_def)

lemma ts_reply_ack: "reply_ack c = Some (p, c') \<Longrightarrow> tc_ts_enabled c' = tc_ts_enabled c"
  by (auto simp: reply_ack_def bind_eq_Some_conv dest: ts_build_ack)

lemma ts_counts [simp]:
  "tc_ts_enabled (count_segment_sent c) = tc_ts_enabled c" "tc_ts_enabled (count_invalid c) = tc_ts_enabled c"
  "tc_ts_enabled (count_retransmission b c) = tc_ts_enabled c"
  "tc_ts_enabled (track_for_retransmit s l f p t c) = tc_ts_enabled c"
  "tc_ts_enabled (acknowledge a t c) = tc_ts_enabled c"
  "tc_ts_enabled (snd (process_fin seg t c)) = tc_ts_enabled c"
  "tc_ts_enabled (fin_acked_transition t c) = tc_ts_enabled c"
  "tc_ts_enabled (handle_closing seg t c) = tc_ts_enabled c"
  "tc_ts_enabled (handle_last_ack seg t c) = tc_ts_enabled c"
  "tc_ts_enabled (handle_rst seg c) = tc_ts_enabled c"
  "tc_ts_enabled (poll_time_wait t c) = tc_ts_enabled c"
  "tc_ts_enabled (abort_connection c) = tc_ts_enabled c"
  "tc_ts_enabled (apply_timestamp seg t ts c) = tc_ts_enabled c"
  "tc_ts_enabled (fold mark_sacked blocks c) = tc_ts_enabled c"
proof -
  show ack: "tc_ts_enabled (acknowledge a t c) = tc_ts_enabled c" for a c
    by (simp add: acknowledge_def retire_acked_def Let_def split_beta)
  show "tc_ts_enabled (snd (process_fin seg t c)) = tc_ts_enabled c"
    by (simp add: process_fin_def Let_def split: TcpState.split)
  show "tc_ts_enabled (handle_closing seg t c) = tc_ts_enabled c"
    "tc_ts_enabled (handle_last_ack seg t c) = tc_ts_enabled c"
    by (simp_all add: handle_closing_def handle_last_ack_def ack)
  show "tc_ts_enabled (fold mark_sacked blocks c) = tc_ts_enabled c"
    by (induction blocks arbitrary: c) (simp_all add: mark_sacked_def Let_def)
qed (simp_all add: count_segment_sent_def count_invalid_def count_retransmission_def track_for_retransmit_def
    fin_acked_transition_def handle_rst_def poll_time_wait_def abort_connection_def apply_timestamp_def
    Let_def split_beta)

lemma ts_retransmit_oldest: "retransmit_oldest t fast c = Some (p, c') \<Longrightarrow> tc_ts_enabled c' = tc_ts_enabled c"
  by (auto simp: retransmit_oldest_def Let_def bind_eq_Some_conv split: option.splits if_splits)

lemma ts_process_ack: "process_ack seg t c = Some (e, r, c') \<Longrightarrow> tc_ts_enabled c' = tc_ts_enabled c"
  by (auto simp: process_ack_def Let_def split_beta bind_eq_Some_conv split: if_splits
      dest!: ts_reply_ack ts_retransmit_oldest)

lemma ts_send_chunk: "send_chunk n f t c = Some (p, c') \<Longrightarrow> tc_ts_enabled c' = tc_ts_enabled c"
  by (auto simp: send_chunk_def Let_def bind_eq_Some_conv)

lemma ts_send_loop: "send_loop t c = Some (ps, c') \<Longrightarrow> tc_ts_enabled c' = tc_ts_enabled c"
  by (erule send_loop_preserves) (auto dest: ts_send_chunk)

lemma ts_emit_fin: "emit_fin t c = Some (p, c') \<Longrightarrow> tc_ts_enabled c' = tc_ts_enabled c"
  by (auto simp: emit_fin_def Let_def bind_eq_Some_conv split: if_splits)

section \<open>Operations that never panic\<close>

lemma emit_fin_Some: "emit_fin t c \<noteq> None"
  by (simp add: emit_fin_def Let_def bind_eq_None_conv del: not_None_eq)

lemma send_chunk_Some: "send_chunk n f t c \<noteq> None"
  by (simp add: send_chunk_def Let_def bind_eq_None_conv del: not_None_eq)

lemma send_loop_Some: "send_loop t c \<noteq> None"
proof (induction t c rule: send_loop.induct)
  case (1 t c)
  obtain p c1 where c1: "send_chunk (chunk_size c) (flags_ack\<lparr> tf_psh := True \<rparr>) t c = Some (p, c1)"
    using send_chunk_Some by fastforce
  show ?case
  proof (cases "send_window_available (tc_congestion c) (tc_snd_wnd c) = 0 \<or> chunk_size c = 0 \<or> tc_tx_buffer c1 = []")
    case True
    then show ?thesis using c1 by (subst send_loop.simps) auto
  next
    case False
    then have "send_loop t c1 \<noteq> None" using "1.IH" c1 by auto
    then show ?thesis using False c1 by (subst send_loop.simps) auto
  qed
qed

text \<open>A result is calm when it is not a panic and leaves timestamps off.\<close>

definition calm :: "('a \<times> TcpConnection) may_panic \<Rightarrow> bool" where
  "calm r \<longleftrightarrow> (\<exists>x c. r = Some (x, c) \<and> \<not> tc_ts_enabled c)"

lemma calm_Some [simp]: "calm (Some (x, c)) \<longleftrightarrow> \<not> tc_ts_enabled c"
  by (simp add: calm_def)

lemma calm_bind: "calm r \<Longrightarrow> (\<And>x c. \<not> tc_ts_enabled c \<Longrightarrow> calm (f (x, c))) \<Longrightarrow> calm (Option.bind r f)"
  by (auto simp: calm_def)

lemma calm_serialize:
  "(conn_serialize c' s a f w opts p = None) = False \<Longrightarrow> \<not> tc_ts_enabled c \<Longrightarrow>
   calm (Option.bind (conn_serialize c' s a f w opts p) (\<lambda>pkt. Some (g pkt, c)))"
  by (cases "conn_serialize c' s a f w opts p") auto

lemma calmI: "r \<noteq> None \<Longrightarrow> (\<And>x c. r = Some (x, c) \<Longrightarrow> \<not> tc_ts_enabled c) \<Longrightarrow> calm r"
  by (cases r) (auto simp: calm_def)

lemma calm_basic:
  assumes "\<not> tc_ts_enabled c"
  shows "calm (build_ack c)" "calm (reply_ack c)" "calm (retransmit_oldest t fast c)" "calm (emit_fin t c)"
    "calm (send_chunk n f t c)" "calm (send_loop t c)"
proof -
  show "calm (build_ack c)" by (rule calmI) (use assms build_ack_Some ts_build_ack in blast)+
  show "calm (reply_ack c)" by (rule calmI) (use assms reply_ack_Some ts_reply_ack in blast)+
  show "calm (retransmit_oldest t fast c)"
    by (rule calmI) (use assms retransmit_oldest_Some ts_retransmit_oldest in blast)+
  show "calm (emit_fin t c)" by (rule calmI) (use assms emit_fin_Some ts_emit_fin in blast)+
  show "calm (send_chunk n f t c)" by (rule calmI) (use assms send_chunk_Some ts_send_chunk in blast)+
  show "calm (send_loop t c)" by (rule calmI) (use assms send_loop_Some ts_send_loop in blast)+
qed

lemma calm_process_ack:
  assumes "\<not> tc_ts_enabled c"
  shows "\<exists>e r c'. process_ack seg t c = Some (e, r, c') \<and> \<not> tc_ts_enabled c'"
proof -
  have "process_ack seg t c \<noteq> None"
    using assms reply_ack_Some [of "count_invalid c"] retransmit_oldest_Some
    by (simp add: process_ack_def Let_def split_beta bind_eq_None_conv del: not_None_eq)
  then obtain e r c' where "process_ack seg t c = Some (e, r, c')" by (metis option.exhaust prod_cases3)
  with assms show ?thesis by (auto dest: ts_process_ack)
qed

lemma calm_in_state:
  assumes ts: "\<not> tc_ts_enabled c"
  shows "calm (handle_in_state seg t c)"
proof -
  have fit: "(conn_serialize c' s a f w [Mss m] p = None) = False"
    "(conn_serialize c' s a f w [Mss m, SackPermitted] p = None) = False" for c' s a f w m p
    by (simp_all add: conn_serialize_iff)
  have listen: "calm (handle_listen seg t c)"
    using ts by (auto simp: handle_listen_def Let_def fit intro!: calm_serialize)
  have syn_sent: "calm (handle_syn_sent seg t c)"
    using ts by (auto simp: handle_syn_sent_def Let_def intro!: calm_serialize)
  have syn_received: "calm (handle_syn_received seg t c)"
    using ts by (auto simp: handle_syn_received_def Let_def intro!: calm_basic)
  have time_wait: "calm (handle_time_wait seg c)"
    using ts by (auto simp: handle_time_wait_def intro!: calm_serialize)
  have close_wait: "calm (handle_close_wait seg t c)"
    using ts by (auto simp: handle_close_wait_def Let_def intro!: calm_basic)
  have data: "calm (handle_data_state seg t c)"
  proof -
    obtain e r c1 where c1: "process_ack seg t c = Some (e, r, c1)" "\<not> tc_ts_enabled c1"
      using calm_process_ack [OF ts] by blast
    obtain b c2 where c2: "process_fin seg t (if seg_payload seg \<noteq> []
        then accept_data (seg_seq_num seg) (seg_payload seg) c1 else c1) = (b, c2)" by fastforce
    then have "\<not> tc_ts_enabled c2"
      using c1(2) ts_counts(6) [of seg t "if seg_payload seg \<noteq> []
        then accept_data (seg_seq_num seg) (seg_payload seg) c1 else c1"] by (auto split: if_splits)
    then show ?thesis
      using c1 c2 by (auto simp: handle_data_state_def Let_def intro!: calm_bind calm_basic)
  qed
  show ?thesis
    using ts listen syn_sent syn_received time_wait close_wait data
    by (cases "tc_state c") (simp_all add: handle_in_state_def)
qed

definition no_timestamp :: "TcpSegment \<Rightarrow> bool" where
  "no_timestamp seg \<longleftrightarrow> (\<forall>v e. Timestamp v e \<notin> set (seg_options seg))"

lemma scan_options_ts:
  "\<forall>v e. Timestamp v e \<notin> set opts \<Longrightarrow>
   fst (fold scan_option opts x) = fst x \<and> tc_ts_enabled (snd (fold scan_option opts x)) = tc_ts_enabled (snd x)"
proof (induction opts arbitrary: x)
  case (Cons opt opts)
  obtain ts c where x: "x = (ts, c)" by fastforce
  have "fst (scan_option opt x) = fst x \<and> tc_ts_enabled (snd (scan_option opt x)) = tc_ts_enabled (snd x)"
    using Cons.prems by (cases opt) (auto simp: x)
  then show ?case using Cons.IH [of "scan_option opt x"] Cons.prems by simp
qed simp

lemma calm_segment:
  assumes "\<not> tc_ts_enabled c" "no_timestamp seg"
  shows "calm (handle_segment_at seg t c)"
proof -
  have "\<exists>c1. receive_prologue seg t c = (None, c1) \<and> \<not> tc_ts_enabled c1"
    using scan_options_ts [of "seg_options seg"] assms
    by (auto simp: receive_prologue_def Let_def negotiate_timestamps_def no_timestamp_def split_beta)
  then show ?thesis
    by (auto simp: handle_segment_at_def dispatch_segment_def calm_in_state)
qed

lemma calm_poll:
  assumes "\<not> tc_ts_enabled c"
  shows "calm (poll_output t c)"
proof -
  have parts: "calm (poll_send t c)" "calm (poll_fin t c)" "calm (poll_retransmit t c)"
    "calm (poll_window_update c)" "calm (poll_probe s t c)" if "\<not> tc_ts_enabled c" for c s
    using that
    by (auto simp: poll_send_def poll_fin_def poll_retransmit_def poll_window_update_def poll_probe_def
        Let_def intro!: calm_basic calm_bind split: option.splits)
  show ?thesis
    using assms by (auto simp: poll_output_def Let_def intro!: calm_bind parts)
qed

section \<open>Runs\<close>

lemma calm_close: "\<not> tc_ts_enabled c \<Longrightarrow> calm (initiate_close_at t c)"
  by (auto simp: initiate_close_at_def Let_def intro: calm_basic)

lemma calm_send: "\<not> tc_ts_enabled c \<Longrightarrow> calm (send_data_at data t c)"
  by (auto simp: send_data_at_def Let_def tcp_write_def intro!: calm_bind calm_poll)

lemma calm_step:
  assumes ts: "\<not> tc_ts_enabled c" and seg: "\<And>seg t. ev = EvSegment seg t \<Longrightarrow> no_timestamp seg"
  shows "\<exists>out acc ps c'. conn_step ev c = Some (out, acc, ps, c') \<and> \<not> tc_ts_enabled c'"
proof (cases ev)
  case (EvSegment sg t)
  then obtain r c' where "handle_segment_at sg t c = Some (r, c')" "\<not> tc_ts_enabled c'"
    using calm_segment [OF ts seg [OF EvSegment], of t] by (auto simp: calm_def)
  then show ?thesis using EvSegment by simp
next
  case (EvPoll t)
  then show ?thesis using calm_poll [OF ts, of t] by (auto simp: calm_def)
next
  case (EvClose t)
  then show ?thesis using calm_close [OF ts, of t] by (auto simp: calm_def)
next
  case (EvSend data t)
  then show ?thesis using calm_send [OF ts, of data t] by (auto simp: calm_def)
qed (use ts in \<open>auto simp: tcp_write_def tcp_read_def Let_def\<close>)

lemma no_timestamps_run: "conn_run (\<lambda>_. no_timestamp) isn c d w \<Longrightarrow> \<not> tc_ts_enabled c"
proof (induction rule: conn_run.induct)
  case (server local remote)
  then show ?case by (simp add: new_server_def)
next
  case (client now_ms local remote pkt c)
  then show ?case by (auto simp: initiate_syn_at_def Let_def bind_eq_Some_conv new_client_def)
next
  case (step c d w ev out acc packets c')
  then show ?case using calm_step [of c ev] by fastforce
qed

text \<open>C21: a connection on which no timestamps are used never panics: after any run with segments
  that carry no timestamp option, every operation of the connection returns.\<close>
theorem no_panic_without_timestamps:
  assumes "conn_run (\<lambda>_. no_timestamp) isn c d w" and "\<And>seg t. ev = EvSegment seg t \<Longrightarrow> no_timestamp seg"
  shows "conn_step ev c \<noteq> None"
  using calm_step [OF no_timestamps_run [OF assms(1)] assms(2)] by fastforce

theorem no_panic_without_timestamps_witness:
  "conn_step (EvPoll 5) (new_server \<lparr> sock_ip = O4 10 0 0 1, sock_port = 80 \<rparr>
     \<lparr> sock_ip = O4 10 0 0 2, sock_port = 9 \<rparr> 7) \<noteq> None"
  by (rule no_panic_without_timestamps [OF conn_run.server]) simp

text \<open>C22: with timestamps negotiated, the acknowledgement panics exactly when the reassembly queue
  gives four SACK blocks: they take 34 of the 40 bytes of option space and the timestamp needs 10.\<close>
theorem four_sack_blocks_panic:
  "build_ack c = None \<longleftrightarrow> tc_ts_enabled c \<and> length (ack_sack_blocks c) = 4"
  by (rule build_ack_None_iff)

end
