(* ===== verification/TcpDelivery.thy ===== *)
theory TcpDelivery
  imports TcpPanic
begin

unbundle bit_operations_syntax

text \<open>
  In-order delivery.  The locale \<open>tcp_receiver\<close> extends the reassembly of \<open>stream_content\<close> to whole
  runs of a connection, from the handshake to the end of the stream; interpreted without any
  assumption on the segments it bounds the memory an attacker can make a connection hold, and
  interpreted on the stream of a peer it shows that the application reads exactly a prefix of it.
\<close>

section \<open>States that accept data\<close>

definition unopened :: "TcpState \<Rightarrow> bool" where
  "unopened st \<longleftrightarrow> st \<in> {Listen, SynSent}"

definition accepting :: "TcpState \<Rightarrow> bool" where
  "accepting st \<longleftrightarrow> st \<in> {SynReceived, Established, FinWait1, FinWait2}"

lemma accepting_simps [simp]:
  "\<not> accepting Closed" "\<not> accepting Listen" "\<not> accepting SynSent" "accepting SynReceived"
  "accepting Established" "accepting FinWait1" "accepting FinWait2" "\<not> accepting CloseWait"
  "\<not> accepting Closing" "\<not> accepting LastAck" "\<not> accepting TimeWait"
  "\<not> unopened Closed" "unopened Listen" "unopened SynSent" "\<not> unopened SynReceived"
  "\<not> unopened Established" "\<not> unopened FinWait1" "\<not> unopened FinWait2" "\<not> unopened CloseWait"
  "\<not> unopened Closing" "\<not> unopened LastAck" "\<not> unopened TimeWait"
  by (simp_all add: accepting_def unopened_def)

text \<open>Steps that at most move the connection to a later state.\<close>

definition rx_later :: "TcpConnection \<Rightarrow> TcpConnection \<Rightarrow> bool" where
  "rx_later c c' \<longleftrightarrow> snd (rx_view c') = snd (rx_view c) \<and>
     (tc_state c' = tc_state c \<or>
      \<not> unopened (tc_state c') \<and> (accepting (tc_state c') \<longrightarrow> accepting (tc_state c)))"

lemma rx_later_refl [simp]: "rx_later c c"
  by (simp add: rx_later_def)

lemma rx_later_trans: "rx_later a b \<Longrightarrow> rx_later b c \<Longrightarrow> rx_later a c"
  by (auto simp: rx_later_def)

lemma rx_view_later: "rx_view c' = rx_view c \<Longrightarrow> rx_later c c'"
  by (simp add: rx_later_def rx_view_def)

lemma rx_later_view: "rx_later c c1 \<Longrightarrow> rx_view c2 = rx_view c1 \<Longrightarrow> rx_later c c2"
  by (rule rx_later_trans [OF _ rx_view_later])

lemma rx_later_state:
  "\<not> unopened st \<Longrightarrow> (accepting st \<Longrightarrow> accepting (tc_state c)) \<Longrightarrow> rx_later c (c\<lparr> tc_state := st \<rparr>)"
  by (simp add: rx_later_def rx_view_def)

lemma emit_fin_later: "emit_fin t c = Some (p, c') \<Longrightarrow> rx_later c c'"
  by (auto simp: emit_fin_def Let_def bind_eq_Some_conv rx_later_def rx_view_def count_segment_sent_def
      track_for_retransmit_def split: if_splits)

lemma initiate_close_later: "initiate_close_at t c = Some (p, c') \<Longrightarrow> rx_later c c'"
  by (auto simp: initiate_close_at_def Let_def split: if_splits dest!: emit_fin_later)
     (auto simp: rx_later_def rx_view_def)

lemma poll_send_later: "poll_send t c = Some (p, c') \<Longrightarrow> rx_later c c'"
  by (auto simp: poll_send_def split: if_splits dest: send_loop_rx_view rx_view_later)

lemma poll_fin_later: "poll_fin t c = Some (p, c') \<Longrightarrow> rx_later c c'"
  by (auto simp: poll_fin_def bind_eq_Some_conv split: if_splits dest: emit_fin_later)

lemma poll_retransmit_later: "poll_retransmit t c = Some (p, c') \<Longrightarrow> rx_later c c'"
  by (auto simp: poll_retransmit_def Let_def bind_eq_Some_conv split: if_splits
      dest!: retransmit_oldest_rx_view intro: rx_view_later)

lemma poll_window_update_later: "poll_window_update c = Some (p, c') \<Longrightarrow> rx_later c c'"
  by (auto simp: poll_window_update_def bind_eq_Some_conv split: if_splits
      dest!: build_ack_views intro: rx_view_later)

lemma poll_probe_later: "poll_probe s t c = Some (p, c') \<Longrightarrow> rx_later c c'"
  by (auto simp: poll_probe_def Let_def bind_eq_Some_conv split: if_splits option.splits
      dest!: send_chunk_rx_view intro: rx_view_later)

lemma poll_time_wait_later: "rx_later c (poll_time_wait t c)"
  by (auto simp: poll_time_wait_def intro: rx_later_state)

lemma abort_later: "rx_later c (abort_connection c)"
  by (simp add: abort_connection_def rx_later_def rx_view_def)

lemma poll_output_later:
  assumes "poll_output t c = Some (ps, c')"
  shows "rx_later c c'"
proof (cases "tc_aborted c \<or> tc_state c = Closed")
  case True
  then show ?thesis using assms by (auto simp: poll_output_def Let_def intro: rx_view_later)
next
  case False
  let ?c = "c\<lparr> tc_current_time_ms := t \<rparr>"
  obtain p1 c1 p2 c2 where c1: "poll_send t ?c = Some (p1, c1)" and c2: "poll_fin t c1 = Some (p2, c2)"
    using assms False by (auto simp: poll_output_def Let_def bind_eq_Some_conv)
  have "rx_later c ?c" by (simp add: rx_view_later)
  then have l2: "rx_later c c2"
    using poll_send_later [OF c1] poll_fin_later [OF c2] by (blast intro: rx_later_trans)
  show ?thesis
  proof (cases "rto_expired t c2 \<and> retries_exhausted c2")
    case True
    then have "c' = abort_connection c2"
      using assms False c1 c2 by (auto simp: poll_output_def Let_def)
    then show ?thesis using l2 abort_later rx_later_trans by blast
  next
    case no: False
    then obtain p3 c3 p4 c4 p5 c5 where r: "poll_retransmit t c2 = Some (p3, c3)"
      "poll_window_update c3 = Some (p4, c4)"
      "poll_probe (sending_state (tc_state c)) t c4 = Some (p5, c5)" "c' = poll_time_wait t c5"
      using assms False c1 c2 by (auto simp: poll_output_def Let_def bind_eq_Some_conv split: if_splits)
    have "rx_later c c5"
      using l2 poll_retransmit_later [OF r(1)] poll_window_update_later [OF r(2)] poll_probe_later [OF r(3)]
      by (metis rx_later_trans)
    then show ?thesis unfolding r(4) by (rule rx_later_trans) (rule poll_time_wait_later)
  qed
qed

lemma send_data_later:
  assumes "send_data_at data t c = Some (p, c')"
  shows "rx_later c c'"
proof (cases "tc_state c = Established")
  case True
  let ?c = "snd (tcp_write data (c\<lparr> tc_current_time_ms := t \<rparr>))"
  obtain ps where "poll_output t ?c = Some (ps, c')"
    using assms True by (auto simp: send_data_at_def Let_def bind_eq_Some_conv)
  then have "rx_later ?c c'" by (rule poll_output_later)
  moreover have "rx_later c ?c" by (rule rx_view_later) simp
  ultimately show ?thesis by (rule rx_later_trans [rotated])
next
  case False
  then show ?thesis using assms by (auto simp: send_data_at_def Let_def intro: rx_view_later)
qed

section \<open>Receivers\<close>

locale tcp_receiver = stream_content +
  fixes start :: "u32 \<Rightarrow> bool" and eof :: "nat \<Rightarrow> bool" and adm :: "nat \<Rightarrow> TcpSegment \<Rightarrow> bool"
  assumes adm_syn: "adm n seg \<Longrightarrow> tf_syn (seg_flags seg) \<Longrightarrow> start (seg_seq_num seg + 1)"
    and adm_fits: "adm n seg \<Longrightarrow> start base \<Longrightarrow> seg_payload seg \<noteq> [] \<Longrightarrow>
      fits base n (seg_seq_num seg) (seg_payload seg)"
    and adm_fin: "adm n seg \<Longrightarrow> start base \<Longrightarrow> n \<le> n' \<Longrightarrow> n' \<le> n + 65535 \<Longrightarrow> tf_fin (seg_flags seg) \<Longrightarrow>
      seg_seq_num seg + (if tf_syn (seg_flags seg) then 1 else 0) + of_nat (length (seg_payload seg)) =
        base + of_nat n' \<Longrightarrow> eof n'"
begin

definition rx_inv :: "bytes \<Rightarrow> TcpConnection \<Rightarrow> bool" where
  "rx_inv d c \<longleftrightarrow>
     (let n = length d + length (tc_rx_buffer c) in
      tc_rcv_capacity c = 65535 \<and> length (tc_rx_buffer c) \<le> 65535 \<and> pre n (d @ tc_rx_buffer c) \<and>
      ooo_bytes c \<le> MAX_OOO_BYTES \<and>
      (unopened (tc_state c) \<longrightarrow> d = [] \<and> tc_rx_buffer c = [] \<and> tc_ooo_segments c = [] \<and> \<not> tc_fin_received c) \<and>
      (accepting (tc_state c) \<longrightarrow> \<not> tc_fin_received c \<and> (\<exists>base. start base \<and> rx_ok base d n c)) \<and>
      (tc_fin_received c \<longrightarrow> eof n))"

lemma rx_inv_later: "rx_inv d c \<Longrightarrow> rx_later c c' \<Longrightarrow> rx_inv d c'"
  by (auto simp: rx_inv_def Let_def rx_later_def rx_view_def rx_ok_def in_stream_def ooo_bytes_def)

lemma rx_inv_view: "rx_view c' = rx_view c \<Longrightarrow> rx_inv d c' = rx_inv d c"
  by (metis rx_inv_later rx_view_later)

lemma rx_inv_new [simp]: "rx_inv [] (new_server local remote isn)"
  by (simp add: rx_inv_def new_server_def pre_nothing ooo_bytes_def)

lemma rx_inv_client:
  "initiate_syn_at t (new_client local remote isn) = Some (pkt, c) \<Longrightarrow> rx_inv [] c"
  by (auto simp: initiate_syn_at_def Let_def bind_eq_Some_conv rx_inv_def new_client_def pre_nothing
      ooo_bytes_def count_segment_sent_def track_for_retransmit_def)

text \<open>The peer's SYN fixes where its stream starts.\<close>

lemma rx_inv_syn:
  assumes "rx_inv d c" "unopened (tc_state c)" "adm n seg" "tf_syn (seg_flags seg)"
    "accepting (tc_state c')" "snd (snd (rx_view c')) = snd (snd (rx_view c))" "tc_rcv_nxt c' = seg_seq_num seg + 1"
  shows "rx_inv d c'"
  using assms adm_syn [OF assms(3,4)]
  by (auto simp: rx_inv_def Let_def rx_view_def rx_ok_def in_stream_def ooo_bytes_def
      intro!: exI [of _ "seg_seq_num seg + 1"])

lemma rx_inv_accept:
  assumes inv: "rx_inv d c" and acc: "accepting (tc_state c)"
    and adm: "adm (length d + length (tc_rx_buffer c)) seg" and p: "seg_payload seg \<noteq> []"
  shows "rx_inv d (accept_data (seg_seq_num seg) (seg_payload seg) c)"
proof -
  let ?c = "accept_data (seg_seq_num seg) (seg_payload seg) c" and ?n = "length d + length (tc_rx_buffer c)"
  obtain base where base: "start base" "rx_ok base d ?n c" and fin: "\<not> tc_fin_received c"
    using inv acc by (auto simp: rx_inv_def Let_def)
  obtain n' where n': "rx_ok base d n' ?c"
    using accept_data_ok [OF base(2) adm_fits [OF adm base(1) p]] by blast
  have count: "n' = length d + length (tc_rx_buffer ?c)" by (rule rx_ok_count [OF n'])
  have "ooo_bytes ?c \<le> MAX_OOO_BYTES"
    using inv ooo_bytes_accept_data [of "seg_seq_num seg" "seg_payload seg" c] by (simp add: rx_inv_def Let_def)
  then show ?thesis
    using n' base(1) fin acc unfolding rx_inv_def Let_def count [symmetric]
    by (auto simp: rx_ok_def in_stream_def accepting_def unopened_def)
qed

lemma rx_inv_fin:
  assumes inv: "rx_inv d c" and acc: "tc_state c \<in> {Established, FinWait1, FinWait2}"
    and adm: "adm n seg" and n: "n \<le> length d + length (tc_rx_buffer c)"
      "length d + length (tc_rx_buffer c) \<le> n + 65535"
  shows "rx_inv d (snd (process_fin seg t c))"
proof -
  have a: "accepting (tc_state c)" using acc by auto
  obtain base where base: "start base" "rx_ok base d (length d + length (tc_rx_buffer c)) c"
    using inv a by (auto simp: rx_inv_def Let_def)
  note r = rx_ok_bounds(3) [OF base(2)]
  have "eof (length d + length (tc_rx_buffer c))"
    if "tf_fin (seg_flags seg)" "seg_seq_num seg + (if tf_syn (seg_flags seg) then 1 else 0) +
        of_nat (length (seg_payload seg)) = tc_rcv_nxt c"
    using adm_fin [OF adm base(1) n that(1)] that(2) r by simp
  then show ?thesis
    using inv acc by (auto simp: process_fin_def Let_def rx_inv_def ooo_bytes_def)
qed

lemma rx_inv_listen:
  assumes "handle_listen seg t c = Some (p, c')" "rx_inv d c" "tc_state c = Listen" "adm n seg"
  shows "rx_inv d c'"
proof (cases "tf_syn (seg_flags seg)")
  case True
  then show ?thesis using assms(1,3)
    by (intro rx_inv_syn [OF assms(2) _ assms(4) True])
       (auto simp: handle_listen_def Let_def bind_eq_Some_conv rx_view_def count_segment_sent_def
         track_for_retransmit_def)
next
  case False
  then show ?thesis using assms by (simp add: handle_listen_def)
qed

lemma rx_inv_syn_sent:
  assumes h: "handle_syn_sent seg t c = Some (p, c')" and inv: "rx_inv d c" and st: "tc_state c = SynSent"
    and adm: "adm n seg"
  shows "rx_inv d c'"
proof -
  have un: "unopened (tc_state c)" using st by simp
  consider "tf_syn (seg_flags seg)" "tf_ack (seg_flags seg)" "seg_ack_num seg = tc_snd_nxt c"
    | "tf_syn (seg_flags seg)" "\<not> tf_ack (seg_flags seg)"
    | "\<not> tf_syn (seg_flags seg) \<or> tf_ack (seg_flags seg) \<and> seg_ack_num seg \<noteq> tc_snd_nxt c"
    by blast
  then show ?thesis
  proof cases
    case 1
    then have "tc_state c' = Established \<and> tc_rcv_nxt c' = seg_seq_num seg + 1 \<and>
        snd (snd (rx_view c')) = snd (snd (rx_view c))"
      using h by (auto simp: handle_syn_sent_def Let_def bind_eq_Some_conv count_segment_sent_def rx_view_def)
    then show ?thesis by (intro rx_inv_syn [OF inv un adm 1(1)]) auto
  next
    case 2
    then have "tc_state c' = SynReceived \<and> tc_rcv_nxt c' = seg_seq_num seg + 1 \<and>
        snd (snd (rx_view c')) = snd (snd (rx_view c))"
      using h by (auto simp: handle_syn_sent_def Let_def bind_eq_Some_conv count_segment_sent_def rx_view_def)
    then show ?thesis by (intro rx_inv_syn [OF inv un adm 2(1)]) auto
  next
    case 3
    then show ?thesis using h inv by (auto simp: handle_syn_sent_def split: if_splits)
  qed
qed

lemma rx_inv_syn_received:
  assumes "handle_syn_received seg t c = Some (p, c')" "rx_inv d c" "tc_state c = SynReceived"
    "adm (length d + length (tc_rx_buffer c)) seg"
  shows "rx_inv d c'"
proof (cases "tf_ack (seg_flags seg) \<and> seg_ack_num seg = tc_snd_nxt c")
  case True
  define c1 where "c1 = acknowledge (seg_ack_num seg) t
      (c\<lparr> tc_snd_wnd := seg_window_size seg, tc_state := Established \<rparr>)"
  have view: "rx_view c1 = rx_view (c\<lparr> tc_state := Established \<rparr>)" by (simp add: c1_def rx_view_def)
  have rx: "tc_state c1 = Established" "tc_rx_buffer c1 = tc_rx_buffer c" using view by (simp_all add: rx_view_def)
  have inv1: "rx_inv d c1"
    by (rule rx_inv_later [OF assms(2) rx_later_view [OF rx_later_state view]]) (simp_all add: assms(3))
  show ?thesis
  proof (cases "seg_payload seg = []")
    case True
    then show ?thesis using assms(1) \<open>tf_ack _ \<and> _\<close> inv1 by (simp add: handle_syn_received_def Let_def c1_def)
  next
    case False
    have "reply_ack (accept_data (seg_seq_num seg) (seg_payload seg) c1) = Some (p, c')"
      using assms(1) True False by (simp add: handle_syn_received_def Let_def c1_def)
    moreover have "rx_inv d (accept_data (seg_seq_num seg) (seg_payload seg) c1)"
      using inv1 assms(4) False rx by (intro rx_inv_accept) simp_all
    ultimately show ?thesis using reply_ack_views rx_inv_view by blast
  qed
next
  case False
  then show ?thesis using assms by (auto simp: handle_syn_received_def split: if_splits)
qed

lemma fin_acked_later: "rx_later c (fin_acked_transition t c)"
  by (auto simp: fin_acked_transition_def rx_later_def rx_view_def)

lemma rx_inv_data_state:
  assumes h: "handle_data_state seg t c = Some (p, c')" and inv: "rx_inv d c"
    and st: "tc_state c \<in> {Established, FinWait1, FinWait2}"
    and adm: "adm (length d + length (tc_rx_buffer c)) seg"
  shows "rx_inv d c'"
proof -
  obtain x where x: "process_ack seg t c = Some x"
    using h by (cases "process_ack seg t c") (simp_all add: handle_data_state_def)
  obtain early resp c1 where c1: "process_ack seg t c = Some (early, resp, c1)"
    using x by (metis prod_cases3)
  note view = process_ack_rx_view [OF c1]
  have inv1: "rx_inv d c1" using inv unfolding rx_inv_view [OF view] .
  have rx1: "tc_state c1 = tc_state c" "tc_rx_buffer c1 = tc_rx_buffer c" using view by (simp_all add: rx_view_def)
  show ?thesis
  proof (cases early)
    case True
    then show ?thesis using h c1 inv1 by (auto simp: handle_data_state_def)
  next
    case False
    define c2 where "c2 = (if seg_payload seg \<noteq> [] then accept_data (seg_seq_num seg) (seg_payload seg) c1 else c1)"
    have inv2: "rx_inv d c2"
      using rx_inv_accept [OF inv1, of seg] inv1 st rx1 adm by (auto simp: c2_def accepting_def)
    have st2: "tc_state c2 \<in> {Established, FinWait1, FinWait2}" using st rx1 by (simp add: c2_def)
    have mono: "length (tc_rx_buffer c) \<le> length (tc_rx_buffer c2)"
    proof -
      obtain base n where b: "start base" "rx_ok base d n c1"
        using inv1 st rx1 by (auto simp: rx_inv_def Let_def accepting_def)
      show ?thesis
      proof (cases "seg_payload seg = []")
        case False
        obtain n' where "n \<le> n'" "rx_ok base d n' c2"
          using accept_data_ok [OF b(2)] adm_fits [OF _ b(1) False, of n] adm rx1 rx_ok_count [OF b(2)] False
          by (auto simp: c2_def)
        then show ?thesis using rx_ok_count [OF b(2)] rx_ok_count rx1 by fastforce
      qed (simp add: c2_def rx1)
    qed
    have bound: "length d + length (tc_rx_buffer c2) \<le> length d + length (tc_rx_buffer c) + 65535"
      using inv2 by (auto simp: rx_inv_def Let_def)
    obtain consumed c3 where c3: "process_fin seg t c2 = (consumed, c3)" by fastforce
    have inv3: "rx_inv d c3"
      using rx_inv_fin [OF inv2 st2 adm, of t] mono bound c3 by simp
    define reply where "reply = (if (seg_payload seg \<noteq> [] \<or> consumed) \<and> resp = None then reply_ack c3 else Some (resp, c3))"
    have "handle_data_state seg t c = do { (resp, c) \<leftarrow> reply; Some (resp, fin_acked_transition t c) }"
      using c1 c3 False by (simp add: handle_data_state_def c2_def reply_def)
    then obtain r c4 where c4: "reply = Some (r, c4)" "c' = fin_acked_transition t c4"
      using h by (cases reply) (auto simp: split_beta)
    have "rx_view c4 = rx_view c3"
      using c4(1) by (auto simp: reply_def split: if_splits dest: reply_ack_views)
    then show ?thesis using inv3 rx_inv_view rx_inv_later [OF _ fin_acked_later] c4(2) by metis
  qed
qed

lemma closing_later: "rx_later c (handle_closing seg t c)"
  by (auto simp: handle_closing_def rx_later_def rx_view_def)

lemma last_ack_later: "rx_later c (handle_last_ack seg t c)"
  by (auto simp: handle_last_ack_def rx_later_def rx_view_def)

lemma rx_inv_dispatch:
  assumes h: "dispatch_segment seg t c = Some (p, c')" and inv: "rx_inv d c"
    and adm: "adm (length d + length (tc_rx_buffer c)) seg"
  shows "rx_inv d c'"
proof (cases "tf_rst (seg_flags seg)")
  case True
  then have "c' = handle_rst seg c" using h by (simp add: dispatch_segment_def)
  then show ?thesis
    using inv rx_inv_view [of "count_invalid c" c d] by (auto simp: handle_rst_def rx_inv_def Let_def ooo_bytes_def)
next
  case False
  then have h: "handle_in_state seg t c = Some (p, c')" using h by (simp add: dispatch_segment_def)
  show ?thesis
  proof (cases "tc_state c")
    case Listen
    with h inv adm show ?thesis by (auto simp: handle_in_state_def dest: rx_inv_listen)
  next
    case SynSent
    with h inv adm show ?thesis by (auto simp: handle_in_state_def dest: rx_inv_syn_sent)
  next
    case SynReceived
    with h inv adm show ?thesis by (auto simp: handle_in_state_def dest: rx_inv_syn_received)
  next
    case CloseWait
    have "rx_view c' = rx_view c"
      using h CloseWait
      by (auto simp: handle_in_state_def handle_close_wait_def Let_def split: if_splits dest!: reply_ack_views)
    then show ?thesis using inv rx_inv_view by blast
  next
    case Closing
    with h inv closing_later show ?thesis by (auto simp: handle_in_state_def intro: rx_inv_later)
  next
    case LastAck
    with h inv last_ack_later show ?thesis by (auto simp: handle_in_state_def intro: rx_inv_later)
  next
    case TimeWait
    have "rx_view c' = rx_view c"
      using h TimeWait by (auto simp: handle_in_state_def handle_time_wait_def bind_eq_Some_conv split: if_splits)
    then show ?thesis using inv rx_inv_view by blast
  qed (use h inv adm in \<open>auto simp: handle_in_state_def dest: rx_inv_data_state\<close>)
qed

lemma rx_inv_segment:
  assumes h: "handle_segment_at seg t c = Some (p, c')" and inv: "rx_inv d c"
    and adm: "adm (length d + length (tc_rx_buffer c)) seg"
  shows "rx_inv d c'"
proof -
  obtain ts c1 where c1: "receive_prologue seg t c = (ts, c1)" by fastforce
  have view: "rx_view c1 = rx_view c" using receive_prologue_rx_view [of seg t c] c1 by simp
  have inv1: "rx_inv d c1" using inv unfolding rx_inv_view [OF view] .
  have adm1: "adm (length d + length (tc_rx_buffer c1)) seg" using view adm by (simp add: rx_view_def)
  show ?thesis
  proof (cases ts)
    case None
    then show ?thesis using h c1 rx_inv_dispatch [OF _ inv1 adm1] by (simp add: handle_segment_at_def)
  next
    case (Some x)
    obtain tsval ecr where x: "x = (tsval, ecr)" by fastforce
    let ?c = "apply_timestamp seg t (tsval, ecr) c1"
    have inv2: "rx_inv d ?c" using inv1 unfolding rx_inv_view [OF apply_timestamp_rx_view] .
    have adm2: "adm (length d + length (tc_rx_buffer ?c)) seg"
      using adm1 apply_timestamp_rx_view [of seg t "(tsval, ecr)" c1] by (simp add: rx_view_def)
    show ?thesis
    proof (cases "paws_reject seg tsval c1")
      case True
      then have "rx_view c' = rx_view c1"
        using h c1 Some x by (auto simp: handle_segment_at_def dest!: reply_ack_views)
      then show ?thesis using inv1 rx_inv_view by blast
    next
      case False
      then show ?thesis
        using h c1 Some x rx_inv_dispatch [OF _ inv2 adm2] by (simp add: handle_segment_at_def)
    qed
  qed
qed

lemma rx_inv_read:
  assumes "tcp_read k c = (out, c')" "rx_inv d c"
  shows "rx_inv (d @ out) c'"
proof (cases "tc_rx_buffer c = []")
  case True
  then show ?thesis using assms by (simp add: tcp_read_def)
next
  case False
  let ?m = "min k (length (tc_rx_buffer c))"
  have out: "out = take ?m (tc_rx_buffer c)"
    and c': "tc_rx_buffer c' = drop ?m (tc_rx_buffer c)" "tc_state c' = tc_state c"
    "tc_rcv_nxt c' = tc_rcv_nxt c" "tc_rcv_capacity c' = tc_rcv_capacity c"
    "tc_ooo_segments c' = tc_ooo_segments c" "tc_fin_received c' = tc_fin_received c"
    using assms(1) False by (auto simp: tcp_read_def Let_def)
  have all: "(d @ out) @ tc_rx_buffer c' = d @ tc_rx_buffer c" by (simp add: out c')
  then have count: "length (d @ out) + length (tc_rx_buffer c') = length d + length (tc_rx_buffer c)"
    by (metis length_append)
  have mono: "entry_in base lo (length (d @ out) + 65535) e" if "entry_in base lo (length d + 65535) e" for base lo e
    using that by (rule entry_in_mono) simp_all
  have "rx_ok base (d @ out) n c'" if "rx_ok base d n c" for base n
    using that mono c' all by (auto simp: rx_ok_def in_stream_def intro: le_trans [OF diff_le_self])
  then show ?thesis
    using assms(2) False unfolding rx_inv_def Let_def count all c'(2-) by (auto simp: c' ooo_bytes_def)
qed

lemma rx_inv_run: "conn_run adm isn c d w \<Longrightarrow> rx_inv d c"
proof (induction rule: conn_run.induct)
  case (client now_ms local remote pkt c)
  then show ?case by (rule rx_inv_client)
next
  case (step c d w ev out acc packets c')
  show ?case
  proof (cases ev)
    case (EvSegment seg t)
    with step show ?thesis by (auto simp: bind_eq_Some_conv dest: rx_inv_segment)
  next
    case (EvWrite data)
    have view: "rx_view c' = rx_view c" and out: "out = []"
      using step.hyps(2) EvWrite write_views [of data c] by (auto simp: split_beta)
    show ?thesis using step.IH unfolding rx_inv_view [OF view] out by simp
  next
    case (EvRead k)
    with step show ?thesis by (auto simp: split_beta intro: rx_inv_read [OF surjective_pairing])
  next
    case (EvPoll t)
    with step show ?thesis by (auto simp: bind_eq_Some_conv dest: poll_output_later rx_inv_later)
  next
    case (EvClose t)
    with step show ?thesis by (auto simp: bind_eq_Some_conv dest: initiate_close_later rx_inv_later)
  next
    case (EvSend data t)
    with step show ?thesis by (auto simp: bind_eq_Some_conv dest: send_data_later rx_inv_later)
  qed
qed simp

end

section \<open>Arbitrary segments\<close>

interpretation hostile: tcp_receiver "\<lambda>_ _. True" "\<lambda>n x. length x = n" "\<lambda>_. True" "\<lambda>_. True" "\<lambda>_ _. True"
  by unfold_locales (auto simp: anything.fits_def)

text \<open>C11: no sequence of segments, however crafted, makes a connection hold more than its receive
  window of undelivered data or more than the reassembly limit of out-of-order data, whatever the
  application does.\<close>
theorem receive_memory_bounded:
  assumes "conn_run (\<lambda>_ _. True) isn c d w"
  shows "length (tc_rx_buffer c) \<le> 65535 \<and> ooo_bytes c \<le> MAX_OOO_BYTES"
  using hostile.rx_inv_run [OF assms] by (simp add: hostile.rx_inv_def Let_def)

theorem receive_memory_bounded_witness:
  "length (tc_rx_buffer (new_server \<lparr> sock_ip = O4 10 0 0 1, sock_port = 80 \<rparr>
     \<lparr> sock_ip = O4 10 0 0 2, sock_port = 9 \<rparr> 7)) \<le> 65535"
  using receive_memory_bounded [OF conn_run.server] by blast

section \<open>The stream of a peer\<close>

text \<open>The segments a correct peer with initial sequence number \<open>irs\<close> and stream \<open>S\<close> may have sent:
  its SYN, and slices of \<open>S\<close> at their sequence numbers, with the FIN after the last byte.  A segment
  is at most half of half the sequence space old or early (the maximum segment lifetime).\<close>

definition genuine :: "u32 \<Rightarrow> bytes \<Rightarrow> nat \<Rightarrow> TcpSegment \<Rightarrow> bool" where
  "genuine irs S n seg \<longleftrightarrow>
     (tf_syn (seg_flags seg) \<longrightarrow> seg_seq_num seg = irs \<and> seg_payload seg = [] \<and> \<not> tf_fin (seg_flags seg)) \<and>
     (seg_payload seg \<noteq> [] \<or> tf_fin (seg_flags seg) \<longrightarrow>
        (\<exists>i. seg_seq_num seg = irs + 1 + of_nat i \<and> slice_at S i (seg_payload seg) \<and>
           (tf_fin (seg_flags seg) \<longrightarrow> i + length (seg_payload seg) = length S) \<and>
           n < i + 2 ^ 30 \<and> i < n + 2 ^ 30 \<and> length (seg_payload seg) \<le> 65535))"

lemma genuine_fin:
  assumes g: "genuine irs S n seg" and n': "n \<le> n'" "n' \<le> n + 65535" and fin: "tf_fin (seg_flags seg)"
    and s: "seg_seq_num seg + (if tf_syn (seg_flags seg) then 1 else 0) + of_nat (length (seg_payload seg)) =
      irs + 1 + of_nat n'"
  shows "n' = length S"
proof -
  obtain i where i: "seg_seq_num seg = irs + 1 + of_nat i" "i + length (seg_payload seg) = length S"
    "n < i + 2 ^ 30" "i < n + 2 ^ 30" "length (seg_payload seg) \<le> 65535" "\<not> tf_syn (seg_flags seg)"
    using g fin by (auto simp: genuine_def)
  have "irs + 1 + of_nat (length S) = irs + 1 + of_nat n'"
    using s i(1,2,6) by (simp add: add.assoc flip: i(2))
  moreover have "\<bar>int (length S) - int n'\<bar> < 2 ^ 31" using i n' by (auto simp: abs_less_iff)
  ultimately show ?thesis using seq_base_simps(2,4) [of "length S" n' "irs + 1"] by auto
qed

interpretation peer_conn: tcp_receiver "slice_at S" "prefix_upto S" "\<lambda>base. base = irs + 1"
  "\<lambda>n. n = length S" "genuine irs S" for irs S
proof
  show "seg_seq_num seg + 1 = irs + 1" if "genuine irs S n seg" "tf_syn (seg_flags seg)" for n seg
    using that by (simp add: genuine_def)
  show "peer.fits S base n (seg_seq_num seg) (seg_payload seg)"
    if "genuine irs S n seg" "base = irs + 1" "seg_payload seg \<noteq> []" for n seg base
    using that peer.near_fits by (auto simp: genuine_def)
qed (use genuine_fin in blast)

text \<open>A server, a SYN and a segment with three bytes.\<close>

definition demo_segment :: "TcpFlags \<Rightarrow> u32 \<Rightarrow> u32 \<Rightarrow> bytes \<Rightarrow> TcpSegment" where
  "demo_segment flags seqn ackn payload = \<lparr> seg_src_port = 9, seg_dst_port = 80, seg_seq_num = seqn,
     seg_ack_num = ackn, seg_data_offset = 5, seg_flags = flags, seg_window_size = 1000, seg_checksum = 0,
     seg_urgent_ptr = 0, seg_options = [], seg_payload = payload \<rparr>"

lemma demo_syn:
  assumes "handle_segment_at (demo_segment flags_syn 100 0 []) t (new_server l r 1000) = Some (p, c)"
  shows "tc_state c = SynReceived" "tc_snd_nxt c = 1001" "tc_rcv_nxt c = 101" "tc_rx_buffer c = []"
    "tc_ooo_segments c = []" "tc_rcv_capacity c = 65535" "\<not> tc_ts_enabled c"
  using assms
  by (auto simp: handle_segment_at_def demo_segment_def receive_prologue_def negotiate_timestamps_def
    synchronized_def new_server_def dispatch_segment_def flags_syn_def no_flags_def handle_in_state_def
    handle_listen_def Let_def bind_eq_Some_conv count_segment_sent_def track_for_retransmit_def)

lemma demo_data:
  assumes "handle_segment_at (demo_segment flags_ack 101 1001 [1, 2, 3]) t c = Some (p, c')"
   "tc_state c = SynReceived" "tc_snd_nxt c = 1001" "tc_rcv_nxt c = 101" "tc_rx_buffer c = []"
    "tc_ooo_segments c = []" "tc_rcv_capacity c = 65535" "\<not> tc_ts_enabled c"
  shows "tc_rx_buffer c' = [1, 2, 3]"
proof -
  define c1 where "c1 = acknowledge 1001 t ((snd (receive_prologue (demo_segment flags_ack 101 1001 [1, 2, 3]) t c))\<lparr> tc_snd_wnd := 1000, tc_state := Established \<rparr>)"
  have f: "tc_rcv_nxt c1 = 101" "tc_rx_buffer c1 = []" "tc_ooo_segments c1 = []" "tc_rcv_capacity c1 = 65535"
    using assms(2-) by (simp_all add: c1_def receive_prologue_def demo_segment_def Let_def negotiate_timestamps_def)
  have "tc_rx_buffer (accept_data 101 [1, 2, 3] c1) = [1, 2, 3]"
    using f by (simp add: accept_data_def accept_window_def Let_def seq_defs current_rcv_wnd_def drain_ooo.simps)
  moreover have "reply_ack (accept_data 101 [1, 2, 3] c1) = Some (p, c')"
    using assms by (simp add: handle_segment_at_def demo_segment_def receive_prologue_def negotiate_timestamps_def
    synchronized_def dispatch_segment_def flags_ack_def no_flags_def handle_in_state_def
    handle_syn_received_def Let_def c1_def)
  ultimately show ?thesis using reply_ack_views by (fastforce simp: rx_view_def)
qed
lemma demo_run:
  "\<exists>c. conn_run (genuine 100 [1, 2, 3, 4]) 1000 c [1, 2] [] \<and> tc_rx_buffer c = [3]"
proof -
  let ?c0 = "new_server \<lparr> sock_ip = O4 10 0 0 1, sock_port = 80 \<rparr> \<lparr> sock_ip = O4 10 0 0 2, sock_port = 9 \<rparr> 1000"
  let ?syn = "demo_segment flags_syn 100 0 []" and ?data = "demo_segment flags_ack 101 1001 [1, 2, 3]"
  have nt: "no_timestamp ?syn" "no_timestamp ?data" by (simp_all add: no_timestamp_def demo_segment_def)
  have "\<not> tc_ts_enabled ?c0" by (simp add: new_server_def)
  from calm_segment [OF this nt(1), of 0] obtain p1 c1 where c1: "handle_segment_at ?syn 0 ?c0 = Some (p1, c1)"
    by (auto simp: calm_def)
  note f1 = demo_syn [OF c1]
  obtain p2 c2 where c2: "handle_segment_at ?data 5 c1 = Some (p2, c2)"
    using calm_segment [OF f1(7) nt(2), of 5] by (auto simp: calm_def)
  have rx2: "tc_rx_buffer c2 = [1, 2, 3]" by (rule demo_data [OF c2 f1])
  obtain c3 where c3: "tcp_read 2 c2 = ([1, 2], c3)" "tc_rx_buffer c3 = [3]"
    using rx2 by (simp add: tcp_read_def Let_def)
  have r0: "conn_run (genuine 100 [1, 2, 3, 4]) 1000 ?c0 [] []" by (rule conn_run.server)
  have r1: "conn_run (genuine 100 [1, 2, 3, 4]) 1000 c1 [] []"
    using conn_run.step [OF r0, of "EvSegment ?syn 0"] c1
    by (simp add: genuine_def demo_segment_def flags_syn_def no_flags_def)
  have "genuine 100 [1, 2, 3, 4] 0 ?data"
    by (auto simp: genuine_def demo_segment_def flags_ack_def no_flags_def slice_at_def intro!: exI [of _ 0])
  then have r2: "conn_run (genuine 100 [1, 2, 3, 4]) 1000 c2 [] []"
    using conn_run.step [OF r1, of "EvSegment ?data 5"] c2 f1(4) by simp
  have "conn_run (genuine 100 [1, 2, 3, 4]) 1000 c3 [1, 2] []"
    using conn_run.step [OF r2, of "EvRead 2"] c3 by simp
  with c3(2) show ?thesis by blast
qed

text \<open>C9: TCP delivers the peer's byte stream: whatever the network does with the peer's segments
  (loss, duplication, reordering, overlap), and however reads, writes, closes and timers
  interleave, the bytes the application has read followed by those in the receive buffer are
  exactly a prefix of the stream the peer sent, and the end of the stream is signalled only when
  the whole stream has arrived.\<close>
theorem stream_delivered:
  assumes "conn_run (genuine irs S) isn c d w"
  shows "\<exists>n \<le> length S. d @ tc_rx_buffer c = take n S \<and> (tc_fin_received c \<longrightarrow> d @ tc_rx_buffer c = S)"
  using peer_conn.rx_inv_run [OF assms]
  by (auto simp: peer_conn.rx_inv_def Let_def prefix_upto_def)

theorem stream_delivered_witness:
  "\<exists>c. conn_run (genuine 100 [1, 2, 3, 4]) 1000 c [1, 2] [] \<and> tc_rx_buffer c = [3] \<and>
     (\<exists>n \<le> length [1, 2, 3, 4 :: u8]. [1, 2] @ tc_rx_buffer c = take n [1, 2, 3, 4])"
proof -
  obtain c where c: "conn_run (genuine 100 [1, 2, 3, 4]) 1000 c [1, 2] []" "tc_rx_buffer c = [3]"
    using demo_run by blast
  from stream_delivered [OF c(1)] c show ?thesis by blast
qed

end
