(* ===== verification/TcpSend.thy ===== *)
theory TcpSend
  imports TcpDelivery
begin

text \<open>
  The sending side of a connection.  The sequence space of a connection with initial sequence number
  \<open>isn\<close> is numbered from the SYN: offset 0 is the SYN, offset \<open>i + 1\<close> the byte \<open>i\<close> of the stream,
  and the offset after the last byte sent the FIN.  The invariant \<open>tx_inv\<close> says what the
  retransmission queue, the send buffer and the counters hold in these terms; the lemmas show that
  every operation keeps it, against any peer, and that every packet a connection emits carries a
  slice of the stream at its own sequence number.
\<close>

unbundle bit_operations_syntax

section \<open>What a packet says\<close>

text \<open>A packet that parses at all says what it was serialized from.\<close>

lemma parsed_fields:
  assumes ser: "serialize_with_options src dst sp dp seqn ackn flags wnd opts payload = Some buf"
    and par: "tcp_parse src' dst' buf v = Inr seg"
  shows "seg_seq_num seg = seqn" "seg_ack_num seg = ackn" "seg_flags seg = flags" "seg_payload seg = payload"
    "seg_src_port seg = sp" "seg_dst_port seg = dp"
proof -
  obtain ob0 ob where ob: "options_loop opts [] = Inr ob0" "ob = pad_options ob0" "length ob \<le> 40"
    using ser by (auto simp: serialize_with_options_def try_serialize_with_options_def Let_def
        TCP_MAX_OPTIONS_LEN_def split: sum.splits if_splits)
  obtain k where k: "length ob = 4 * k" "k \<le> 10"
    using padded_length [of "length ob0"] ob(2,3) by (auto simp: pad_options_eq)
  define off :: u8 where "off = of_nat (5 + k)"
  define csum where "csum = compute_ipv4_transport_checksum src dst 6
    (tcp_header_bytes sp dp seqn ackn off flags wnd @ ob @ payload)"
  have buf: "buf = write_at 16 (u16_to_be csum) (tcp_header_bytes sp dp seqn ackn off flags wnd @ ob @ payload)"
    using ser ob k by (auto simp: serialize_with_options_def try_serialize_with_options_def Let_def
        TCP_MAX_OPTIONS_LEN_def TCP_MIN_HEADER_LEN_def csum_def off_def)
  note nth = tcp_buf_nth [OF buf]
  have nib: "drop_bit 4 (buf ! 12) = off"
    unfolding nth off_def by (rule data_offset_nibble) (use k in simp)
  have uoff: "unat off * 4 = 20 + length ob"
    unfolding off_def by (simp only: unat_of_nat) (use k in simp)
  show "seg_seq_num seg = seqn" "seg_ack_num seg = ackn" "seg_flags seg = flags" "seg_payload seg = payload"
    "seg_src_port seg = sp" "seg_dst_port seg = dp"
    using par nth(1-4) nth(12)
    by (auto simp: tcp_parse_def Let_def nib uoff nth(6) flags_roundtrip split: if_splits sum.splits)
qed

text \<open>A segment of a sender with initial sequence number \<open>isn\<close> that has sent the bytes \<open>S\<close>, and the
  FIN when \<open>fin\<close>: its SYN has the flags \<open>sf\<close> and the number \<open>isn\<close>; data is a slice of \<open>S\<close> at its own
  number; the FIN is at the end of \<open>S\<close>.\<close>

definition sent_ok :: "TcpFlags \<Rightarrow> u32 \<Rightarrow> bytes \<Rightarrow> bool \<Rightarrow> TcpSegment \<Rightarrow> bool" where
  "sent_ok sf isn S fin seg \<longleftrightarrow>
     (tf_syn (seg_flags seg) \<longrightarrow> seg_flags seg = sf \<and> seg_seq_num seg = isn \<and> seg_payload seg = [] \<and>
        \<not> tf_fin (seg_flags seg)) \<and>
     (seg_payload seg \<noteq> [] \<or> tf_fin (seg_flags seg) \<longrightarrow>
        (\<exists>i. seg_seq_num seg = isn + 1 + of_nat i \<and> slice_at S i (seg_payload seg) \<and>
           (tf_fin (seg_flags seg) \<longrightarrow> fin \<and> i + length (seg_payload seg) = length S) \<and>
           length (seg_payload seg) \<le> 65535))"

definition packet_ok :: "TcpFlags \<Rightarrow> u32 \<Rightarrow> bytes \<Rightarrow> bool \<Rightarrow> bytes \<Rightarrow> bool" where
  "packet_ok sf isn S fin pkt \<longleftrightarrow>
     (\<forall>src dst seg. tcp_parse src dst pkt True = Inr seg \<longrightarrow> sent_ok sf isn S fin seg)"

lemma slice_at_append: "slice_at S i p \<Longrightarrow> slice_at (S @ T) i p"
  by (auto simp: slice_at_def)

lemma packet_ok_later:
  assumes "packet_ok sf isn S fin pkt" "fin \<longrightarrow> T = [] \<and> fin'"
  shows "packet_ok sf isn (S @ T) fin' pkt"
  using assms slice_at_append unfolding packet_ok_def sent_ok_def by fastforce

lemma packet_okI:
  assumes "conn_serialize c seqn ackn flags wnd opts payload = Some pkt"
    and "tf_syn flags \<Longrightarrow> flags = sf \<and> seqn = isn \<and> payload = [] \<and> \<not> tf_fin flags"
    and "payload \<noteq> [] \<or> tf_fin flags \<Longrightarrow> \<exists>i. seqn = isn + 1 + of_nat i \<and> slice_at S i payload \<and>
       (tf_fin flags \<longrightarrow> fin \<and> i + length payload = length S) \<and> length payload \<le> 65535"
  shows "packet_ok sf isn S fin pkt"
  unfolding packet_ok_def sent_ok_def
  using assms parsed_fields [OF assms(1) [unfolded conn_serialize_def]] by auto

lemma flag_bits [simp]:
  "\<not> tf_syn flags_ack" "\<not> tf_fin flags_ack" "tf_syn flags_syn" "\<not> tf_fin flags_syn" "tf_syn flags_syn_ack"
  "\<not> tf_fin flags_syn_ack" "\<not> tf_syn flags_fin_ack" "tf_fin flags_fin_ack" "tf_ack flags_syn_ack"
  by (simp_all add: tcp_flags_defs no_flags_def)

text \<open>Acknowledgements carry nothing.\<close>

lemma bare_packet_ok:
  "conn_serialize c seqn ackn flags_ack wnd opts [] = Some pkt \<Longrightarrow> packet_ok sf isn S fin pkt"
  by (erule packet_okI) simp_all

lemma build_ack_packet: "build_ack c = Some (pkt, c') \<Longrightarrow> packet_ok sf isn S fin pkt"
  by (auto simp: build_ack_def Let_def bind_eq_Some_conv intro: bare_packet_ok)

lemma reply_ack_packet:
  "reply_ack c = Some (resp, c') \<Longrightarrow> pkt \<in> set (option_list resp) \<Longrightarrow> packet_ok sf isn S fin pkt"
  by (auto simp: reply_ack_def bind_eq_Some_conv option_list_def intro: build_ack_packet)

section \<open>The retransmission queue\<close>

text \<open>The part of a queue entry that says what it covers; the timers and the SACK mark do not.\<close>

definition core :: "RetransmitSegment \<Rightarrow> u32 \<times> u32 \<times> TcpFlags \<times> bytes" where
  "core e = (rs_seq_num e, rs_end_seq e, rs_flags e, rs_payload e)"

fun entry_at :: "TcpFlags \<Rightarrow> u32 \<Rightarrow> bytes \<Rightarrow> bool \<Rightarrow> nat \<Rightarrow> nat \<Rightarrow> u32 \<times> u32 \<times> TcpFlags \<times> bytes \<Rightarrow> bool" where
  "entry_at sf isn S fin a n (seqn, end_seq, flags, payload) \<longleftrightarrow>
     0 < n \<and> seqn = isn + of_nat a \<and> end_seq = isn + of_nat (a + n) \<and>
     (if a = 0 then n = 1 \<and> flags = sf \<and> payload = []
      else \<not> tf_syn flags \<and>
        (if tf_fin flags then fin \<and> payload = [] \<and> n = 1 \<and> a = Suc (length S)
         else slice_at S (a - 1) payload \<and> n = length payload \<and> n \<le> 65535))"

text \<open>Entries that cover the offsets from \<open>a\<close> to \<open>b\<close> without a gap, none of them wholly below \<open>una\<close>.\<close>

fun chain :: "TcpFlags \<Rightarrow> u32 \<Rightarrow> bytes \<Rightarrow> bool \<Rightarrow> nat \<Rightarrow> nat \<Rightarrow> (u32 \<times> u32 \<times> TcpFlags \<times> bytes) list \<Rightarrow> nat \<Rightarrow> bool" where
  "chain sf isn S fin una a [] b \<longleftrightarrow> a = b"
| "chain sf isn S fin una a (e # es) b \<longleftrightarrow>
     (\<exists>n. entry_at sf isn S fin a n e \<and> una < a + n \<and> chain sf isn S fin una (a + n) es b)"

lemma chain_le: "chain sf isn S fin una a es b \<Longrightarrow> a \<le> b"
  by (induction es arbitrary: a) (auto dest: add_leD1)

lemma chain_entries: "chain sf isn S fin una a es b \<Longrightarrow> e \<in> set es \<Longrightarrow> \<exists>a n. entry_at sf isn S fin a n e"
  by (induction es arbitrary: a) auto

lemma chain_snoc:
  "chain sf isn S fin una a es b \<Longrightarrow> entry_at sf isn S fin b n e \<Longrightarrow> una < b + n \<Longrightarrow>
   chain sf isn S fin una a (es @ [e]) (b + n)"
  by (induction es arbitrary: a) auto

lemma entry_at_later:
  "entry_at sf isn S fin a n e \<Longrightarrow> (fin \<longrightarrow> T = [] \<and> fin') \<Longrightarrow> entry_at sf isn (S @ T) fin' a n e"
  by (cases e) (auto simp: slice_at_append split: if_splits)

lemma chain_later:
  "chain sf isn S fin una a es b \<Longrightarrow> (fin \<longrightarrow> T = [] \<and> fin') \<Longrightarrow> chain sf isn (S @ T) fin' una a es b"
  by (induction es arbitrary: a) (auto intro: entry_at_later)

lemma chain_raise: "chain sf isn S fin una a es b \<Longrightarrow> m \<le> a \<Longrightarrow> chain sf isn S fin m a es b"
proof (induction es arbitrary: a)
  case (Cons e es)
  then obtain n where n: "entry_at sf isn S fin a n e" "chain sf isn S fin una (a + n) es b" by auto
  moreover have "0 < n" using n(1) by (cases e) auto
  ultimately show ?case using Cons.IH [OF n(2)] Cons.prems(2) by (auto intro!: exI [of _ n])
qed simp

lemma retire_keeps:
  assumes "chain sf isn S fin una a (map core q) b" "m \<le> a" "b < m + 2 ^ 31"
  shows "fst (retire_loop (isn + of_nat m) t q r) = q"
  using assms
proof (induction q arbitrary: a)
  case (Cons e q)
  then obtain n where n: "entry_at sf isn S fin a n (core e)" "chain sf isn S fin una (a + n) (map core q) b" by auto
  then have e: "rs_end_seq e = isn + of_nat (a + n)" "0 < n" by (auto simp: core_def)
  have "a + n \<le> b" by (rule chain_le [OF n(2)])
  then have "\<bar>int (a + n) - int m\<bar> < 2 ^ 31" using Cons.prems by auto
  then have "\<not> seq_le (rs_end_seq e) (isn + of_nat m)"
    unfolding e(1) using seq_base_simps(2) [of "a + n" m isn] Cons.prems(2) e(2) by simp
  then show ?case using Cons.IH [OF n(2)] Cons.prems by (simp add: split_beta)
qed simp

text \<open>An acknowledgement of offset \<open>m\<close> retires exactly the entries that end at or before it.\<close>

lemma retire_chain:
  assumes "chain sf isn S fin una a (map core q) b" "a \<le> m" "m \<le> b" "b < a + 2 ^ 30"
  shows "\<exists>a' \<le> m. chain sf isn S fin m a' (map core (fst (retire_loop (isn + of_nat m) t q r))) b"
  using assms
proof (induction q arbitrary: a r)
  case Nil
  then show ?case by simp
next
  case (Cons e q)
  then obtain n where n: "entry_at sf isn S fin a n (core e)" "una < a + n"
    "chain sf isn S fin una (a + n) (map core q) b" by auto
  then have e: "rs_end_seq e = isn + of_nat (a + n)" "0 < n" by (auto simp: core_def)
  have ab: "a + n \<le> b" by (rule chain_le [OF n(3)])
  then have "\<bar>int (a + n) - int m\<bar> < 2 ^ 31" using Cons.prems by auto
  then have le: "seq_le (rs_end_seq e) (isn + of_nat m) \<longleftrightarrow> a + n \<le> m"
    unfolding e(1) by (rule seq_base_simps(2))
  show ?case
  proof (cases "a + n \<le> m")
    case True
    then show ?thesis using Cons.IH [OF n(3) True, of "karn_sample t e r"] Cons.prems le by simp
  next
    case False
    have "fst (retire_loop (isn + of_nat m) t q r) = q"
      by (rule retire_keeps [OF n(3)]) (use False Cons.prems in auto)
    moreover have "chain sf isn S fin m (a + n) (map core q) b"
      by (rule chain_raise [OF n(3)]) (use False in simp)
    ultimately show ?thesis
      using False le n Cons.prems(2) by (intro exI [of _ a]) (auto simp: split_beta intro!: exI [of _ n])
  qed
qed

lemma retire_subset: "set (fst (retire_loop ack t q r)) \<subseteq> set q"
  by (induction q arbitrary: r) (auto simp: split_beta)

section \<open>The invariant\<close>

text \<open>The sender has sent the offsets below \<open>nxt\<close> and the peer has acknowledged those below \<open>una\<close>.\<close>

definition live :: "TcpFlags \<Rightarrow> u32 \<Rightarrow> bytes \<Rightarrow> nat \<Rightarrow> nat \<Rightarrow> TcpConnection \<Rightarrow> bool" where
  "live sf isn S una nxt c \<longleftrightarrow>
     tc_snd_una c = isn + of_nat una \<and> tc_snd_nxt c = isn + of_nat nxt \<and> una \<le> nxt \<and>
     unat (cc_in_flight (tc_congestion c)) = nxt - una \<and> nxt \<le> una + 65535 + of_bool (tc_fin_sent c) \<and>
     (\<exists>a \<le> una. chain sf isn S (tc_fin_sent c) una a (map core (tc_retransmit_queue c)) nxt)"

text \<open>Open states, and those after our FIN.\<close>

definition tx_open :: "TcpState \<Rightarrow> bool" where
  "tx_open st \<longleftrightarrow> st \<in> {Established, CloseWait, FinWait1, FinWait2, Closing, LastAck}"

definition fin_state :: "TcpState \<Rightarrow> bool" where
  "fin_state st \<longleftrightarrow> st \<in> {FinWait1, FinWait2, Closing, LastAck, TimeWait}"

definition tx_phase :: "TcpFlags \<Rightarrow> u32 \<Rightarrow> bytes \<Rightarrow> TcpConnection \<Rightarrow> bool" where
  "tx_phase sf isn S c \<longleftrightarrow>
     (case tc_state c of
        Listen \<Rightarrow> S = [] \<and> \<not> tc_fin_sent c \<and> sf = flags_syn_ack \<and> live sf isn S 0 0 c
      | SynSent \<Rightarrow> S = [] \<and> \<not> tc_fin_sent c \<and> sf = flags_syn \<and> live sf isn S 0 1 c
      | SynReceived \<Rightarrow> S = [] \<and> \<not> tc_fin_sent c \<and> live sf isn S 0 1 c
      | TimeWait \<Rightarrow> tc_fin_sent c
      | Closed \<Rightarrow> True
      | _ \<Rightarrow> tc_fin_sent c = fin_state (tc_state c) \<and>
           (\<exists>una > 0. live sf isn S una (length S + 1 + of_bool (tc_fin_sent c)) c))"

definition tx_inv :: "TcpFlags \<Rightarrow> u32 \<Rightarrow> bytes \<Rightarrow> bytes \<Rightarrow> TcpConnection \<Rightarrow> bool" where
  "tx_inv sf isn S w c \<longleftrightarrow>
     (\<forall>e \<in> set (map core (tc_retransmit_queue c)). \<exists>a n. entry_at sf isn S (tc_fin_sent c) a n e) \<and>
     (\<exists>rest. w = S @ rest) \<and> (tc_state c \<noteq> Closed \<longrightarrow> w = S @ tc_tx_buffer c) \<and>
     length (tc_tx_buffer c) \<le> SND_BUFFER_CAPACITY \<and>
     (sf = flags_syn \<or> sf = flags_syn_ack) \<and> tx_phase sf isn S c"

lemma tx_invI:
  "(\<And>e. e \<in> set (map core (tc_retransmit_queue c)) \<Longrightarrow> \<exists>a n. entry_at sf isn S (tc_fin_sent c) a n e) \<Longrightarrow>
   w = S @ tc_tx_buffer c \<Longrightarrow> length (tc_tx_buffer c) \<le> SND_BUFFER_CAPACITY \<Longrightarrow>
   sf = flags_syn \<or> sf = flags_syn_ack \<Longrightarrow> tx_phase sf isn S c \<Longrightarrow> tx_inv sf isn S w c"
  unfolding tx_inv_def by blast

lemma tx_invD:
  assumes "tx_inv sf isn S w c"
  shows "length (tc_tx_buffer c) \<le> SND_BUFFER_CAPACITY" "sf = flags_syn \<or> sf = flags_syn_ack" "tx_phase sf isn S c"
    "e \<in> set (map core (tc_retransmit_queue c)) \<Longrightarrow> \<exists>a n. entry_at sf isn S (tc_fin_sent c) a n e"
    "tc_state c \<noteq> Closed \<Longrightarrow> w = S @ tc_tx_buffer c"
  using assms unfolding tx_inv_def by blast+

lemma tx_phase_open:
  "tx_open (tc_state c) \<Longrightarrow> tx_phase sf isn S c \<longleftrightarrow> tc_fin_sent c = fin_state (tc_state c) \<and>
     (\<exists>una > 0. live sf isn S una (length S + 1 + of_bool (tc_fin_sent c)) c)"
  by (auto simp: tx_open_def tx_phase_def)

text \<open>The invariant reads only these parts of a connection.\<close>

definition tx_core :: "TcpConnection \<Rightarrow>
   TcpState \<times> u32 \<times> u32 \<times> bytes \<times> (u32 \<times> u32 \<times> TcpFlags \<times> bytes) list \<times> u32 \<times> bool" where
  "tx_core c = (tc_state c, tc_snd_una c, tc_snd_nxt c, tc_tx_buffer c, map core (tc_retransmit_queue c),
     cc_in_flight (tc_congestion c), tc_fin_sent c)"

lemma tx_core_view: "tx_view c' = tx_view c \<Longrightarrow> tx_core c' = tx_core c"
  by (simp add: tx_core_def tx_view_def)

lemma live_core: "tx_core c' = tx_core c \<Longrightarrow> live sf isn S una nxt c' = live sf isn S una nxt c"
  by (simp add: tx_core_def live_def)

lemma tx_inv_core: "tx_core c' = tx_core c \<Longrightarrow> tx_inv sf isn S w c' = tx_inv sf isn S w c"
proof -
  assume eq: "tx_core c' = tx_core c"
  then have "tx_phase sf isn S c' = tx_phase sf isn S c"
    using live_core [OF eq] by (cases "tc_state c") (simp_all add: tx_phase_def tx_core_def)
  with eq show ?thesis by (simp add: tx_inv_def tx_core_def)
qed

text \<open>A step of the sender: what it has sent grows, but not after its FIN, and the packets it emits
  are segments of its stream.\<close>

definition sends :: "TcpFlags \<Rightarrow> u32 \<Rightarrow> bytes \<Rightarrow> bytes \<Rightarrow> TcpConnection \<Rightarrow> bytes list \<Rightarrow> bytes \<Rightarrow> TcpConnection \<Rightarrow> bool" where
  "sends sf isn w S c ps S' c' \<longleftrightarrow>
     tx_inv sf isn S' w c' \<and> (\<exists>T. S' = S @ T \<and> (tc_fin_sent c \<longrightarrow> T = [] \<and> tc_fin_sent c')) \<and>
     (\<forall>p \<in> set ps. packet_ok sf isn S' (tc_fin_sent c') p)"

lemma sends_trans:
  assumes "sends sf isn w S c ps S1 c1" "sends sf isn w S1 c1 qs S2 c2"
  shows "sends sf isn w S c (ps @ qs) S2 c2"
proof -
  obtain T1 T2 where T: "S1 = S @ T1" "tc_fin_sent c \<longrightarrow> T1 = [] \<and> tc_fin_sent c1"
    "S2 = S1 @ T2" "tc_fin_sent c1 \<longrightarrow> T2 = [] \<and> tc_fin_sent c2"
    using assms by (auto simp: sends_def)
  have "packet_ok sf isn S2 (tc_fin_sent c2) p" if "p \<in> set ps" for p
    unfolding T(3) by (rule packet_ok_later [OF _ T(4)]) (use assms(1) that in \<open>auto simp: sends_def\<close>)
  then show ?thesis using assms T by (auto simp: sends_def intro!: exI [of _ "T1 @ T2"])
qed

lemma sends_core:
  assumes "tx_inv sf isn S w c" "tx_core c' = tx_core c" "\<forall>p \<in> set ps. packet_ok sf isn S (tc_fin_sent c) p"
  shows "sends sf isn w S c ps S c'"
  using assms tx_inv_core [OF assms(2)] by (auto simp: sends_def tx_core_def)

lemma sends_reply_ack:
  assumes "tx_inv sf isn S w c" "reply_ack c = Some (resp, c')"
  shows "sends sf isn w S c (option_list resp) S c'"
  using assms reply_ack_views [OF assms(2)] reply_ack_packet [OF assms(2)]
  by (intro sends_core) (auto intro: tx_core_view)

lemma sends_build_ack:
  assumes "tx_inv sf isn S w c" "build_ack c = Some (ack, c')"
  shows "sends sf isn w S c [ack] S c'"
  using assms build_ack_views [OF assms(2)] build_ack_packet [OF assms(2)]
  by (intro sends_core) (auto intro: tx_core_view)

section \<open>Acknowledgements received\<close>

lemma seq_gt_distance:
  assumes "seq_gt a b"
  shows "\<exists>k. 0 < k \<and> k < 2 ^ 31 \<and> a = b + of_nat k"
proof -
  have "0 < sint (a - b)" "sint (a - b) < 2 ^ 31"
    using assms sint_less [of "a - b"] by (auto simp: seq_gt_def)
  moreover have "a = b + of_nat (nat (sint (a - b)))"
    using calculation(1) by (simp add: of_nat_nat)
  ultimately show ?thesis by (intro exI [of _ "nat (sint (a - b))"]) auto
qed

text \<open>An acknowledgement the handler accepts names an offset that has been sent and not acknowledged.\<close>

lemma live_window: "live sf isn S una nxt c \<Longrightarrow> una \<le> nxt \<and> nxt \<le> una + 65536"
  by (cases "tc_fin_sent c") (auto simp: live_def)

lemma accepted_ack:
  assumes l: "live sf isn S una nxt c" and gt: "seq_gt ack (tc_snd_una c)" and le: "seq_le ack (tc_snd_nxt c)"
  shows "\<exists>m. ack = isn + of_nat m \<and> una < m \<and> m \<le> nxt"
proof -
  have una: "tc_snd_una c = isn + of_nat una" and nxt: "tc_snd_nxt c = isn + of_nat nxt"
    using l by (auto simp: live_def)
  obtain k where k: "0 < k" "k < 2 ^ 31" "ack = isn + of_nat (una + k)"
    using seq_gt_distance [OF gt] by (auto simp: una add.assoc)
  have "\<bar>int (una + k) - int nxt\<bar> < 2 ^ 31" using k live_window [OF l] by auto
  then have "una + k \<le> nxt" using seq_base_simps(2) [of "una + k" nxt isn] le unfolding nxt k(3) by simp
  then show ?thesis using k by (intro exI [of _ "una + k"]) auto
qed

lemma on_ack_in_flight:
  "unat (cc_in_flight (on_ack b cc)) = unat (cc_in_flight cc) - unat b"
  by (simp add: on_ack_def Let_def word_le_nat_alt unat_sub split: CongestionState.split)

lemma chain_start: "chain sf isn S fin una a es b \<Longrightarrow> a \<le> una \<Longrightarrow> una \<le> b \<Longrightarrow> una < a + 65536"
  by (cases es; cases "hd es") (auto split: if_splits)

lemma acknowledge_fields:
  "tc_snd_una (acknowledge ack t c) = ack" "tc_snd_nxt (acknowledge ack t c) = tc_snd_nxt c"
  "tc_tx_buffer (acknowledge ack t c) = tc_tx_buffer c" "tc_fin_sent (acknowledge ack t c) = tc_fin_sent c"
  "tc_retransmit_queue (acknowledge ack t c) = fst (retire_loop ack t (tc_retransmit_queue c) (tc_rtt c))"
  "tc_congestion (acknowledge ack t c) = on_ack (seq_diff ack (tc_snd_una c)) (tc_congestion c)"
  by (simp_all add: acknowledge_def retire_acked_def Let_def split_beta)

lemma acknowledge_live:
  assumes l: "live sf isn S una nxt c" and m: "una < m" "m \<le> nxt"
  shows "live sf isn S m nxt (acknowledge (isn + of_nat m) t c)"
proof -
  obtain a where a: "a \<le> una" "chain sf isn S (tc_fin_sent c) una a (map core (tc_retransmit_queue c)) nxt"
    using l by (auto simp: live_def)
  have start: "una < a + 65536" using chain_start [OF a(2,1)] m by simp
  then obtain a' where "a' \<le> m" "chain sf isn S (tc_fin_sent c) m a'
      (map core (fst (retire_loop (isn + of_nat m) t (tc_retransmit_queue c) (tc_rtt c)))) nxt"
    using retire_chain [OF a(2), of m t "tc_rtt c"] a(1) m live_window [OF l] by auto
  moreover have "unat (cc_in_flight (on_ack (seq_diff (isn + of_nat m) (tc_snd_una c)) (tc_congestion c))) = nxt - m"
  proof -
    have "unat (seq_diff (isn + of_nat m) (isn + of_nat una)) = m - una"
      by (rule seq_diff_base) (use m live_window [OF l] in auto)
    then show ?thesis using l m by (simp add: on_ack_in_flight live_def)
  qed
  ultimately show ?thesis using l m by (auto simp: live_def acknowledge_fields)
qed

lemma acknowledge_entries:
  "set (map core (tc_retransmit_queue (acknowledge ack t c))) \<subseteq> set (map core (tc_retransmit_queue c))"
  using retire_subset [of ack t "tc_retransmit_queue c" "tc_rtt c"] by (auto simp: acknowledge_fields)

text \<open>Once the connection is open, an accepted acknowledgement keeps the invariant.\<close>

lemma tx_inv_acknowledge:
  assumes inv: "tx_inv sf isn S w c" and st: "tx_open (tc_state c)"
    and ack: "seq_gt ack (tc_snd_una c)" "seq_le ack (tc_snd_nxt c)"
  shows "tx_inv sf isn S w (acknowledge ack t c)"
proof -
  let ?nxt = "length S + 1 + of_bool (tc_fin_sent c)"
  obtain una where l: "0 < una" "live sf isn S una ?nxt c" and fin: "tc_fin_sent c = fin_state (tc_state c)"
    using inv tx_phase_open [OF st] unfolding tx_inv_def by blast
  obtain m where m: "ack = isn + of_nat m" "una < m" "m \<le> ?nxt" using accepted_ack [OF l(2) ack] by blast
  have "live sf isn S m ?nxt (acknowledge ack t c)" using acknowledge_live [OF l(2) m(2,3)] m(1) by simp
  moreover have "0 < m" using m(2) by simp
  ultimately have "tx_phase sf isn S (acknowledge ack t c)"
    using tx_phase_open [of "acknowledge ack t c"] st fin by (auto simp: acknowledge_fields)
  then show ?thesis
    using inv acknowledge_entries [of ack t c] unfolding tx_inv_def acknowledge_rx_fields acknowledge_fields(3,4) by blast
qed

section \<open>Operations that do not concern the sender\<close>

lemma tx_core_updates [simp]:
  "tx_core (tc_local_update g1 c) = tx_core c"
  "tx_core (tc_remote_update g2 c) = tx_core c"
  "tx_core (tc_snd_wnd_update g3 c) = tx_core c"
  "tx_core (tc_rcv_nxt_update g4 c) = tx_core c"
  "tx_core (tc_rcv_wnd_update g5 c) = tx_core c"
  "tx_core (tc_rcv_capacity_update g6 c) = tx_core c"
  "tx_core (tc_peer_mss_update g7 c) = tx_core c"
  "tx_core (tc_local_mss_update g8 c) = tx_core c"
  "tx_core (tc_rx_buffer_update g9 c) = tx_core c"
  "tx_core (tc_ooo_queue_update g10 c) = tx_core c"
  "tx_core (tc_ooo_segments_update g11 c) = tx_core c"
  "tx_core (tc_rtt_update g12 c) = tx_core c"
  "tx_core (tc_stats_update g13 c) = tx_core c"
  "tx_core (tc_current_time_ms_update g14 c) = tx_core c"
  "tx_core (tc_time_wait_entered_ms_update g15 c) = tx_core c"
  "tx_core (tc_fin_received_update g16 c) = tx_core c"
  "tx_core (tc_persist_deadline_ms_update g17 c) = tx_core c"
  "tx_core (tc_last_advertised_wnd_update g18 c) = tx_core c"
  "tx_core (tc_sack_permitted_update g19 c) = tx_core c"
  "tx_core (tc_peer_sack_permitted_update g20 c) = tx_core c"
  "tx_core (tc_ts_enabled_update g21 c) = tx_core c"
  "tx_core (tc_ts_recent_update g22 c) = tx_core c"
  "tx_core (tc_last_ts_ack_update g23 c) = tx_core c"
  "tx_core (tc_last_ack_sent_update g24 c) = tx_core c"
  "tx_core (tc_close_requested_update h1 c) = tx_core c" "tx_core (tc_aborted_update h2 c) = tx_core c"
  by (simp_all add: tx_core_def)

lemma tx_core_receive [simp]:
  "tx_core (deliver p c) = tx_core c" "tx_core (buffer_ooo s p c) = tx_core c"
  "tx_core (sync_legacy_ooo_view c) = tx_core c" "tx_core (count_segment_sent c) = tx_core c"
  "tx_core (count_invalid c) = tx_core c" "tx_core (snd (tcp_read n c)) = tx_core c"
  "tx_core (apply_timestamp seg t ts c) = tx_core c" "tx_core (negotiate_timestamps seg tso c) = tx_core c"
  "tx_core (count_retransmission fast c) = tx_core c"
  by (simp_all add: deliver_def buffer_ooo_def sync_legacy_ooo_view_def count_segment_sent_def count_invalid_def
      tcp_read_def apply_timestamp_def negotiate_timestamps_def count_retransmission_def Let_def split_beta
      split: option.split)

lemma drain_pass_tx_core [simp]: "tx_core (snd (snd (drain_pass todo c))) = tx_core c"
  by (induction todo c rule: drain_pass.induct) (auto simp: Let_def split_beta)

lemma drain_ooo_tx_core [simp]: "tx_core (drain_ooo c) = tx_core c"
proof (induction c rule: drain_ooo.induct)
  case (1 c)
  obtain kept adv c1 where d: "drain_pass (tc_ooo_segments c) c = (kept, adv, c1)" by (metis prod_cases3)
  with drain_pass_tx_core [of "tc_ooo_segments c" c] have "tx_core c1 = tx_core c" by simp
  then show ?case using 1 [OF d [symmetric] refl refl refl] by (subst drain_ooo.simps) (simp add: d Let_def)
qed

lemma accept_data_tx_core [simp]: "tx_core (accept_data s p c) = tx_core c"
  by (simp add: accept_data_def accept_window_def Let_def)

lemma mark_sacked_tx_core [simp]: "tx_core (fold mark_sacked blocks c) = tx_core c"
proof (induction blocks arbitrary: c)
  case (Cons b blocks)
  have "tx_core (mark_sacked b c) = tx_core c"
    by (simp add: mark_sacked_def Let_def tx_core_def core_def comp_def)
  with Cons show ?case by simp
qed simp

lemma prologue_tx_core [simp]: "tx_core (snd (receive_prologue seg t c)) = tx_core c"
proof -
  have "tx_core (snd (fold scan_option opts x)) = tx_core (snd x)" for opts x
  proof (induction opts arbitrary: x)
    case (Cons opt opts)
    have "tx_core (snd (scan_option opt x)) = tx_core (snd x)"
      by (cases x; cases opt) (simp_all, simp add: tx_core_def)
    with Cons show ?case by simp
  qed simp
  then show ?thesis by (simp add: receive_prologue_def Let_def split_beta)
qed

section \<open>Retransmission\<close>

lemma entry_packet_ok:
  assumes e: "entry_at sf isn S fin a n (core e)" and sf: "sf = flags_syn \<or> sf = flags_syn_ack"
    and pkt: "conn_serialize c (rs_seq_num e) ackn (rs_flags e) wnd opts (rs_payload e) = Some pkt"
  shows "packet_ok sf isn S fin pkt"
proof (rule packet_okI [OF pkt])
  show "rs_flags e = sf \<and> rs_seq_num e = isn \<and> rs_payload e = [] \<and> \<not> tf_fin (rs_flags e)" if "tf_syn (rs_flags e)"
    using e sf that by (auto simp: core_def split: if_splits)
  show "\<exists>i. rs_seq_num e = isn + 1 + of_nat i \<and> slice_at S i (rs_payload e) \<and>
      (tf_fin (rs_flags e) \<longrightarrow> fin \<and> i + length (rs_payload e) = length S) \<and> length (rs_payload e) \<le> 65535"
    if "rs_payload e \<noteq> [] \<or> tf_fin (rs_flags e)"
  proof (intro exI [of _ "a - 1"] conjI)
    have a: "a \<noteq> 0" using e sf that by (auto simp: core_def split: if_splits)
    then show "rs_seq_num e = isn + 1 + of_nat (a - 1)" using e by (cases a) (auto simp: core_def)
  qed (use e sf that in \<open>auto simp: core_def slice_at_def split: if_splits\<close>)
qed

lemma sends_retransmit_oldest:
  assumes inv: "tx_inv sf isn S w c" and r: "retransmit_oldest t fast c = Some (pkt, c')"
  shows "sends sf isn w S c (option_list pkt) S c'"
proof (cases "find (\<lambda>s. \<not> rs_sacked s) (tc_retransmit_queue c)")
  case None
  then show ?thesis using r inv by (auto simp: retransmit_oldest_def option_list_def intro!: sends_core)
next
  case (Some e)
  have "e \<in> set (tc_retransmit_queue c)" using Some by (auto simp: find_Some_iff)
  then obtain a n where e: "entry_at sf isn S (tc_fin_sent c) a n (core e)"
    and sf: "sf = flags_syn \<or> sf = flags_syn_ack" using inv unfolding tx_inv_def set_map by blast
  have upd: "map core (update_first p (\<lambda>s. s\<lparr> rs_last_sent_ms := t, rs_retransmits := rs_retransmits s + 1 \<rparr>) q) = map core q" for p q
    by (induction q) (auto simp: core_def)
  have "tx_core c' = tx_core c"
    using r Some by (auto simp: retransmit_oldest_def Let_def bind_eq_Some_conv split: if_splits)
      (simp add: tx_core_def upd)
  moreover have "\<forall>p \<in> set (option_list pkt). packet_ok sf isn S (tc_fin_sent c) p"
    using r Some entry_packet_ok [OF e sf]
    by (auto simp: retransmit_oldest_def Let_def bind_eq_Some_conv option_list_def split: if_splits)
  ultimately show ?thesis by (rule sends_core [OF inv])
qed

section \<open>Transmission\<close>

text \<open>Appending a new entry to the queue.\<close>

lemma live_track:
  assumes l: "live sf isn S una nxt c" and e: "entry_at sf isn S' fin' nxt k (isn + of_nat nxt, isn + of_nat (nxt + k), flags, payload)"
    and S': "S' = S @ T" "tc_fin_sent c \<longrightarrow> T = [] \<and> fin'" and win: "nxt + k \<le> una + 65535 + of_bool fin'"
    and c': "c' = track_for_retransmit (isn + of_nat nxt) (of_nat k) flags payload t c0"
      "tc_snd_una c0 = tc_snd_una c" "tc_snd_nxt c0 = isn + of_nat (nxt + k)" "tc_fin_sent c0 = fin'"
      "tc_retransmit_queue c0 = tc_retransmit_queue c" "tc_congestion c0 = tc_congestion c"
  shows "live sf isn S' una (nxt + k) c'"
proof -
  obtain a where a: "a \<le> una" "chain sf isn S (tc_fin_sent c) una a (map core (tc_retransmit_queue c)) nxt"
    using l by (auto simp: live_def)
  have k: "0 < k" using e by simp
  have "chain sf isn S' fin' una a (map core (tc_retransmit_queue c) @
      [(isn + of_nat nxt, isn + of_nat (nxt + k), flags, payload)]) (nxt + k)"
    unfolding S'(1) by (rule chain_snoc [OF chain_later [OF a(2) S'(2)] e [unfolded S'(1)]])
      (use k l in \<open>simp add: live_def\<close>)
  moreover have "unat (cc_in_flight (tc_congestion c) + of_nat k) = nxt + k - una"
  proof -
    have "unat (cc_in_flight (tc_congestion c)) = nxt - una" "una \<le> nxt" using l by (auto simp: live_def)
    moreover have "nxt - una + k < 2 ^ 32" using win l by (cases fin') (auto simp: live_def)
    ultimately show ?thesis by (simp add: unat_word_ariths unat_of_nat)
  qed
  ultimately show ?thesis
    using l win a(1) k
    by (auto simp: live_def c' track_for_retransmit_def record_sent_def core_def add.assoc intro!: exI [of _ a])
qed

lemma send_chunk_result:
  assumes "send_chunk n flags t c = Some (pkt, c')"
  shows "\<exists>c0. c' = track_for_retransmit (tc_snd_nxt c) (of_nat (length (take n (tc_tx_buffer c)))) flags (take n (tc_tx_buffer c)) t c0 \<and>
      tc_snd_una c0 = tc_snd_una c \<and> tc_snd_nxt c0 = tc_snd_nxt c + of_nat (length (take n (tc_tx_buffer c))) \<and>
      tc_fin_sent c0 = tc_fin_sent c \<and> tc_retransmit_queue c0 = tc_retransmit_queue c \<and>
      tc_congestion c0 = tc_congestion c \<and> tc_state c0 = tc_state c \<and> tc_tx_buffer c0 = drop n (tc_tx_buffer c)"
    and "\<exists>c1 a w. conn_serialize c1 (tc_snd_nxt c) a flags w [] (take n (tc_tx_buffer c)) = Some pkt"
  using assms by (auto simp: send_chunk_def Let_def bind_eq_Some_conv count_segment_sent_def)

lemma sends_chunk:
  assumes inv: "tx_inv sf isn S w c" and st: "sending_state (tc_state c)"
    and r: "send_chunk n flags t c = Some (pkt, c')" and fl: "\<not> tf_syn flags" "\<not> tf_fin flags"
    and win: "0 < n" "tc_tx_buffer c \<noteq> []" "unat (cc_in_flight (tc_congestion c)) + min n (length (tc_tx_buffer c)) \<le> 65535"
  shows "sends sf isn w S c [pkt] (S @ take n (tc_tx_buffer c)) c' \<and> tc_state c' = tc_state c"
proof -
  define T k where "T = take n (tc_tx_buffer c)" and "k = length T"
  have k: "0 < k" "k = min n (length (tc_tx_buffer c))" using win by (auto simp: T_def k_def)
  have opn: "tx_open (tc_state c)" and nf: "\<not> fin_state (tc_state c)" and live_st: "tc_state c \<noteq> Closed"
    using st by (auto simp: tx_open_def sending_state_def fin_state_def)
  obtain una where una: "0 < una" "live sf isn S una (length S + 1) c" and fin: "\<not> tc_fin_sent c"
    using inv tx_phase_open [OF opn, of sf isn S] nf by (auto simp: tx_inv_def)
  have nxt: "tc_snd_nxt c = isn + of_nat (length S + 1)" and w: "w = S @ tc_tx_buffer c"
    using una(2) inv live_st by (auto simp: live_def tx_inv_def)
  obtain c0 where c0: "c' = track_for_retransmit (isn + of_nat (length S + 1)) (of_nat k) flags T t c0"
      "tc_snd_una c0 = tc_snd_una c" "tc_snd_nxt c0 = isn + of_nat (length S + 1 + k)" "tc_fin_sent c0 = False"
      "tc_retransmit_queue c0 = tc_retransmit_queue c" "tc_congestion c0 = tc_congestion c"
      "tc_state c0 = tc_state c" "tc_tx_buffer c0 = drop n (tc_tx_buffer c)"
    using send_chunk_result(1) [OF r] fin unfolding nxt by (auto simp: T_def k_def add.assoc)
  have slice: "slice_at (S @ T) (length S) T" by (simp add: slice_at_def)
  have e: "entry_at sf isn (S @ T) False (length S + 1) k (isn + of_nat (length S + 1), isn + of_nat (length S + 1 + k), flags, T)"
    using k slice fl win(3) by (simp add: k_def [symmetric])
  have "unat (cc_in_flight (tc_congestion c)) = length S + 1 - una" "una \<le> length S + 1"
    using una(2) by (auto simp: live_def)
  then have l: "live sf isn (S @ T) una (length S + 1 + k) c'"
    by (intro live_track [OF una(2) e refl _ _ c0(1-6)]) (use fin win(3) k in auto)
  have f: "tc_state c' = tc_state c" "tc_fin_sent c' = False" "tc_tx_buffer c' = drop n (tc_tx_buffer c)"
    "map core (tc_retransmit_queue c') = map core (tc_retransmit_queue c) @ [(isn + of_nat (length S + 1), isn + of_nat (length S + 1 + k), flags, T)]"
    using c0 by (simp_all add: track_for_retransmit_def core_def add.assoc)
  have "tx_phase sf isn (S @ T) c'"
    using tx_phase_open [of c' sf isn "S @ T"] opn nf f l una(1) by (auto simp: k_def add.assoc add.commute)
  moreover have "\<exists>a n. entry_at sf isn (S @ T) (tc_fin_sent c') a n x"
    if "x \<in> set (map core (tc_retransmit_queue c'))" for x
  proof (cases "x \<in> set (map core (tc_retransmit_queue c))")
    case True
    then obtain a n where "entry_at sf isn S (tc_fin_sent c) a n x" using tx_invD(4) [OF inv] by blast
    from entry_at_later [OF this, of T False] fin show ?thesis unfolding f by blast
  next
    case False
    then have "x = (isn + of_nat (length S + 1), isn + of_nat (length S + 1 + k), flags, T)"
      using that unfolding f by simp
    then show ?thesis using e unfolding f by blast
  qed
  ultimately have "tx_inv sf isn (S @ T) w c'"
    by (intro tx_invI) (use tx_invD(1,2) [OF inv] w f in \<open>simp_all add: T_def\<close>)
  moreover obtain c1 ack wnd where "conn_serialize c1 (isn + of_nat (length S + 1)) ack flags wnd [] T = Some pkt"
    using send_chunk_result(2) [OF r] unfolding nxt T_def by blast
  then have "packet_ok sf isn (S @ T) False pkt"
    by (rule packet_okI) (use fl slice k win(3) in \<open>auto simp: k_def intro!: exI [of _ "length S"]\<close>)
  ultimately show ?thesis using f fin by (auto simp: sends_def T_def)
qed

lemma chunk_size_window:
  assumes "chunk_size c \<noteq> 0"
  shows "unat (cc_in_flight (tc_congestion c)) + chunk_size c \<le> 65535" "tc_tx_buffer c \<noteq> []"
    "chunk_size c \<le> length (tc_tx_buffer c)"
proof -
  have "unat (ucast (tc_snd_wnd c) :: u32) = unat (tc_snd_wnd c)" by (rule unat_ucast_up) simp
  moreover have "unat (tc_snd_wnd c) < 65536" using unat_bound [of "tc_snd_wnd c"] by simp
  ultimately have "unat (send_window_available (tc_congestion c) (tc_snd_wnd c)) \<le> 65535 - unat (cc_in_flight (tc_congestion c))"
    by (simp add: send_window_available_def Let_def sat_simps)
  moreover have "chunk_size c \<le> unat (send_window_available (tc_congestion c) (tc_snd_wnd c))"
    by (simp add: chunk_size_def Let_def)
  ultimately show "unat (cc_in_flight (tc_congestion c)) + chunk_size c \<le> 65535"
    using assms by linarith
qed (use assms in \<open>auto simp: chunk_size_def Let_def\<close>)

lemma sends_loop:
  assumes "send_loop t c = Some (ps, c')" "tx_inv sf isn S w c" "sending_state (tc_state c)"
  shows "\<exists>S'. sends sf isn w S c ps S' c' \<and> tc_state c' = tc_state c"
  using assms
proof (induction t c arbitrary: ps c' S rule: send_loop.induct)
  case (1 t c)
  let ?n = "chunk_size c" and ?f = "flags_ack\<lparr> tf_psh := True \<rparr>"
  show ?case
  proof (cases "send_window_available (tc_congestion c) (tc_snd_wnd c) = 0 \<or> ?n = 0")
    case True
    then have "ps = [] \<and> c' = c" using "1.prems"(1) by (subst (asm) send_loop.simps) (auto split: if_splits)
    then show ?thesis using sends_core [OF "1.prems"(2), of c "[]"] by auto
  next
    case False
    then obtain p c1 where c1: "send_chunk ?n ?f t c = Some (p, c1)"
      using "1.prems"(1) by (subst (asm) send_loop.simps) (auto split: option.splits)
    have w: "?n \<noteq> 0" using False by simp
    have fl: "\<not> tf_syn ?f" "\<not> tf_fin ?f" by (simp_all add: flags_ack_def no_flags_def)
    have s1: "sends sf isn w S c [p] (S @ take ?n (tc_tx_buffer c)) c1" "tc_state c1 = tc_state c"
      using sends_chunk [OF "1.prems"(2,3) c1 fl] chunk_size_window [OF w] w by (simp_all add: min_absorb1)
    show ?thesis
    proof (cases "tc_tx_buffer c1 = []")
      case True
      then have "ps = [p] \<and> c' = c1" using "1.prems"(1) False c1 by (subst (asm) send_loop.simps) auto
      then show ?thesis using s1 by auto
    next
      case nonempty: False
      then obtain rest where rest: "send_loop t c1 = Some (rest, c')" "ps = p # rest"
        using "1.prems"(1) False c1 by (subst (asm) send_loop.simps) (auto split: option.splits)
      have "tx_inv sf isn (S @ take ?n (tc_tx_buffer c)) w c1" using s1(1) by (simp add: sends_def)
      then obtain S' where "sends sf isn w (S @ take ?n (tc_tx_buffer c)) c1 rest S' c'" "tc_state c' = tc_state c1"
        using "1.IH" [OF _ _ c1 refl nonempty rest(1)] False "1.prems"(3) s1(2) by auto
      then show ?thesis using sends_trans [OF s1(1)] s1(2) rest(2) by fastforce
    qed
  qed
qed

lemma sends_fin:
  assumes inv: "tx_inv sf isn S w c" and r: "emit_fin t c = Some (pkt, c')" and empty: "tc_tx_buffer c = []"
  shows "sends sf isn w S c (option_list pkt) S c'"
proof (cases "tc_fin_sent c \<or> \<not> sending_state (tc_state c)")
  case True
  then have "pkt = None \<and> c' = c" using r by (auto simp: emit_fin_def sending_state_def split: if_splits)
  then show ?thesis using inv sends_core [of sf isn S w c c "[]"] by (simp add: option_list_def)
next
  case False
  have opn: "tx_open (tc_state c)" and nf: "\<not> fin_state (tc_state c)" and live_st: "tc_state c \<noteq> Closed"
    using False by (auto simp: tx_open_def sending_state_def fin_state_def)
  obtain una where una: "0 < una" "live sf isn S una (length S + 1) c"
    using inv tx_phase_open [OF opn, of sf isn S] nf by (auto simp: tx_inv_def)
  have nxt: "tc_snd_nxt c = isn + of_nat (length S + 1)" using una(2) by (simp add: live_def)
  let ?c0 = "c\<lparr> tc_state := (if tc_state c = Established then FinWait1 else LastAck),
    tc_snd_nxt := tc_snd_nxt c + 1, tc_fin_sent := True, tc_last_ack_sent := tc_rcv_nxt c \<rparr>"
  obtain p c1 where p: "pkt = Some p" "c' = count_segment_sent c1"
    "c1 = track_for_retransmit (isn + of_nat (length S + 1)) (of_nat 1) flags_fin_ack [] t ?c0"
    "conn_serialize ?c0 (isn + of_nat (length S + 1)) (tc_rcv_nxt c) flags_fin_ack (current_rcv_wnd ?c0) [] [] = Some p"
    using r False unfolding nxt [symmetric] by (auto simp: emit_fin_def Let_def bind_eq_Some_conv sending_state_def)
  have e: "entry_at sf isn S True (length S + 1) 1
      (isn + of_nat (length S + 1), isn + of_nat (length S + 1 + 1), flags_fin_ack, [])" by simp
  have l: "live sf isn S una (length S + 1 + 1) c1"
    by (rule live_track [OF una(2) e _ _ _ p(3), where T = "[]"]) (use una(2) False nxt in \<open>auto simp: live_def\<close>)
  have f: "tc_state c1 = (if tc_state c = Established then FinWait1 else LastAck)" "tc_fin_sent c1"
    "tc_tx_buffer c1 = []" "map core (tc_retransmit_queue c1) = map core (tc_retransmit_queue c) @
       [(isn + of_nat (length S + 1), isn + of_nat (length S + 1 + 1), flags_fin_ack, [])]"
    using empty by (simp_all add: p(3) track_for_retransmit_def core_def)
  have "tx_phase sf isn S c1"
    using tx_phase_open [of c1 sf isn S] f l una(1) by (auto simp: tx_open_def fin_state_def)
  moreover have "\<exists>a n. entry_at sf isn S (tc_fin_sent c1) a n x" if "x \<in> set (map core (tc_retransmit_queue c1))" for x
  proof (cases "x \<in> set (map core (tc_retransmit_queue c))")
    case True
    then obtain a n where "entry_at sf isn S (tc_fin_sent c) a n x" using tx_invD(4) [OF inv] by blast
    from entry_at_later [OF this, of "[]" True] f(2) show ?thesis by auto
  next
    case False
    then have "x = (isn + of_nat (length S + 1), isn + of_nat (length S + 1 + 1), flags_fin_ack, [])"
      using that unfolding f by simp
    then show ?thesis using e f(2) by metis
  qed
  ultimately have "tx_inv sf isn S w c1"
    by (intro tx_invI) (use tx_invD(1,2,5) [OF inv] f live_st empty in simp_all)
  then have "tx_inv sf isn S w c'" using tx_inv_core [of c' c1] by (simp add: p(2))
  moreover have "packet_ok sf isn S True p"
    by (rule packet_okI [OF p(4)]) (auto simp: slice_at_def intro!: exI [of _ "length S"])
  moreover have "tc_fin_sent c'" using f(2) p(2) by (simp add: count_segment_sent_def)
  ultimately show ?thesis using p(1) by (auto simp: sends_def option_list_def)
qed

end
