(* ===== verification/TcpSender.thy ===== *)
theory TcpSender
  imports TcpSend
begin

text \<open>
  Every operation of a connection keeps the sender's invariant and emits only packets of its own
  stream: the periodic pump, the calls of the application and the segment handler of each state,
  put together in \<open>sends_step\<close>.
\<close>

section \<open>The periodic pump\<close>

lemma sends_nothing: "tx_inv sf isn S w c \<Longrightarrow> sends sf isn w S c [] S c"
  by (rule sends_core) simp_all

lemma sends_quiet: "tx_inv sf isn S w c \<Longrightarrow> tx_core c' = tx_core c \<Longrightarrow> sends sf isn w S c [] S c'"
  by (rule sends_core) simp_all

text \<open>Leaving for \<open>Closed\<close> may drop the queue and the buffer, never what was sent.\<close>

lemma sends_closed:
  assumes inv: "tx_inv sf isn S w c" and c': "tc_state c' = Closed" "set (tc_retransmit_queue c') \<subseteq> set (tc_retransmit_queue c)"
    "length (tc_tx_buffer c') \<le> length (tc_tx_buffer c)" "tc_fin_sent c' = tc_fin_sent c"
  shows "sends sf isn w S c [] S c'"
proof -
  have "tx_phase sf isn S c'" using c'(1) by (simp add: tx_phase_def)
  moreover have "\<exists>a n. entry_at sf isn S (tc_fin_sent c') a n e" if "e \<in> set (map core (tc_retransmit_queue c'))" for e
    using tx_invD(4) [OF inv, of e] that c'(2) unfolding c'(4) by auto
  ultimately have "tx_inv sf isn S w c'"
    using inv c'(1,3) le_trans unfolding tx_inv_def by blast
  then show ?thesis using c'(4) by (auto simp: sends_def)
qed

lemma sends_poll_send:
  assumes "tx_inv sf isn S w c" "poll_send t c = Some (ps, c')"
  shows "\<exists>S'. sends sf isn w S c ps S' c' \<and> tc_state c' = tc_state c"
  using assms sends_loop sends_nothing by (fastforce simp: poll_send_def split: if_splits)

lemma sends_poll_fin:
  assumes inv: "tx_inv sf isn S w c" and r: "poll_fin t c = Some (ps, c')"
  shows "sends sf isn w S c ps S c' \<and> (tc_tx_buffer c \<noteq> [] \<longrightarrow> c' = c) \<and> (tc_tx_buffer c = [] \<longrightarrow> tc_tx_buffer c' = [])"
proof (cases "tc_close_requested c \<and> \<not> tc_fin_sent c \<and> tc_tx_buffer c = [] \<and> sending_state (tc_state c)")
  case True
  then obtain fin where f: "emit_fin t c = Some (fin, c')" "ps = (case fin of Some pkt \<Rightarrow> [pkt] | None \<Rightarrow> [])"
    using r by (auto simp: poll_fin_def bind_eq_Some_conv)
  have "tc_tx_buffer c' = []"
    using f(1) True by (auto simp: emit_fin_def Let_def bind_eq_Some_conv count_segment_sent_def track_for_retransmit_def split: if_splits)
  then show ?thesis using sends_fin [OF inv f(1)] True f(2) by (simp add: option_list_def split: option.splits)
next
  case False
  then show ?thesis using r inv sends_nothing by (auto simp: poll_fin_def)
qed

lemma sends_poll_retransmit:
  assumes inv: "tx_inv sf isn S w c" and r: "poll_retransmit t c = Some (ps, c')"
  shows "sends sf isn w S c ps S c' \<and> tc_tx_buffer c' = tc_tx_buffer c \<and> tc_state c' = tc_state c"
proof (cases "rto_expired t c")
  case True
  let ?c = "tc_stats_update (\<lambda>s. s\<lparr> st_timeouts := st_timeouts s + 1 \<rparr>)
    (c\<lparr> tc_congestion := on_timeout (tc_congestion c), tc_rtt := rtt_backoff (tc_rtt c) \<rparr>)"
  have core: "tx_core ?c = tx_core c" by (simp add: tx_core_def on_timeout_def)
  obtain pkt where p: "retransmit_oldest t False ?c = Some (pkt, c')" "ps = option_list pkt"
    using r True by (auto simp: poll_retransmit_def Let_def bind_eq_Some_conv option_list_def split: option.splits)
  have inv': "tx_inv sf isn S w ?c" using inv tx_inv_core [OF core] by simp
  have "sends sf isn w S c ([] @ ps) S c'"
    using sends_trans [OF sends_quiet [OF inv core] sends_retransmit_oldest [OF inv' p(1)]] p(2) by simp
  moreover have "tc_tx_buffer c' = tc_tx_buffer c \<and> tc_state c' = tc_state c"
    using p(1) by (auto simp: retransmit_oldest_def count_retransmission_def Let_def bind_eq_Some_conv split: option.splits if_splits)
  ultimately show ?thesis by simp
next
  case False
  then show ?thesis using r inv sends_nothing by (auto simp: poll_retransmit_def)
qed

lemma sends_poll_window_update:
  assumes inv: "tx_inv sf isn S w c" and r: "poll_window_update c = Some (ps, c')"
  shows "sends sf isn w S c ps S c' \<and> tc_tx_buffer c' = tc_tx_buffer c \<and> tc_state c' = tc_state c"
  using r inv sends_nothing sends_build_ack [OF inv] build_ack_views [of c]
  by (auto simp: poll_window_update_def bind_eq_Some_conv tx_view_def split: if_splits)

lemma live_idle: "live sf isn S una nxt c \<Longrightarrow> tc_retransmit_queue c = [] \<Longrightarrow> unat (cc_in_flight (tc_congestion c)) = 0"
  by (auto simp: live_def)

lemma sends_poll_probe:
  assumes inv: "tx_inv sf isn S w c" and r: "poll_probe sending t c = Some (ps, c')"
    and st: "sending \<Longrightarrow> tc_tx_buffer c \<noteq> [] \<Longrightarrow> sending_state (tc_state c)"
  shows "\<exists>S'. sends sf isn w S c ps S' c'"
proof (cases "sending \<and> tc_tx_buffer c \<noteq> [] \<and> tc_retransmit_queue c = []")
  case True
  then have sending: "sending_state (tc_state c)" using st by simp
  then have "tx_open (tc_state c)" by (auto simp: sending_state_def tx_open_def)
  then obtain una nxt where "live sf isn S una nxt c"
    using tx_phase_open tx_invD(3) [OF inv] by blast
  then have idle: "unat (cc_in_flight (tc_congestion c)) = 0" using True live_idle by blast
  let ?c = "tc_stats_update (\<lambda>s. s\<lparr> st_zero_window_probes := st_zero_window_probes s + 1 \<rparr>)
    (c\<lparr> tc_persist_deadline_ms := Some (t + PERSIST_INTERVAL_MS) \<rparr>)"
  have core: "tx_core ?c = tx_core c" by simp
  have inv': "tx_inv sf isn S w ?c" using inv tx_inv_core [OF core] by simp
  from r consider (quiet) "ps = []" "tx_core c' = tx_core c"
    | (probe) p where "send_chunk 1 flags_ack t ?c = Some (p, c')" "ps = [p]"
    by (auto simp: poll_probe_def Let_def bind_eq_Some_conv split: if_splits option.splits)
  then show ?thesis
  proof cases
    case quiet
    then show ?thesis using sends_quiet [OF inv] by auto
  next
    case probe
    have "\<exists>S'. sends sf isn w S ?c [p] S' c'"
      using sends_chunk [OF inv' _ probe(1)] sending idle True by fastforce
    then show ?thesis using sends_trans [OF sends_quiet [OF inv core]] probe(2) by fastforce
  qed
next
  case False
  then have "ps = []" "tx_core c' = tx_core c" using r by (auto simp: poll_probe_def split: if_splits)
  then show ?thesis using sends_quiet [OF inv] by auto
qed

lemma sends_poll_output:
  assumes inv: "tx_inv sf isn S w c" and r: "poll_output t c = Some (ps, c')"
  shows "\<exists>S'. sends sf isn w S c ps S' c'"
proof (cases "tc_aborted c \<or> tc_state c = Closed")
  case True
  then have "ps = []" "tx_core c' = tx_core c" using r by (auto simp: poll_output_def Let_def)
  then show ?thesis using sends_quiet [OF inv] by blast
next
  case False
  let ?c = "c\<lparr> tc_current_time_ms := t \<rparr>"
  obtain p1 c1 p2 c2 where c1: "poll_send t ?c = Some (p1, c1)" and c2: "poll_fin t c1 = Some (p2, c2)"
    using r False by (auto simp: poll_output_def Let_def bind_eq_Some_conv)
  have s0: "sends sf isn w S c [] S ?c" by (rule sends_quiet [OF inv]) simp
  then obtain S1 where s1: "sends sf isn w S ?c p1 S1 c1" "tc_state c1 = tc_state c"
    using sends_poll_send [OF _ c1] by (fastforce simp: sends_def)
  have "tx_inv sf isn S1 w c1" using s1 by (simp add: sends_def)
  note s2 = sends_poll_fin [OF this c2]
  have s12: "sends sf isn w S c (p1 @ p2) S1 c2"
    using sends_trans [OF sends_trans [OF s0 s1(1)] conjunct1 [OF s2]] by simp
  then have inv2: "tx_inv sf isn S1 w c2" by (simp add: sends_def)
  show ?thesis
  proof (cases "rto_expired t c2 \<and> retries_exhausted c2")
    case True
    then have c': "c' = abort_connection c2" "ps = p1 @ p2" using r False c1 c2 by (auto simp: poll_output_def Let_def)
    have "sends sf isn w S1 c2 [] S1 c'"
      by (rule sends_closed [OF inv2]) (simp_all add: c'(1) abort_connection_def)
    from sends_trans [OF s12 this] show ?thesis using c'(2) by auto
  next
    case no: False
    obtain p3 c3 p4 c4 p5 c5 where r3: "poll_retransmit t c2 = Some (p3, c3)"
      "poll_window_update c3 = Some (p4, c4)"
      "poll_probe (sending_state (tc_state c)) t c4 = Some (p5, c5)" "c' = poll_time_wait t c5"
      "ps = p1 @ p2 @ p3 @ p4 @ p5"
      using r False c1 c2 no by (auto simp: poll_output_def Let_def bind_eq_Some_conv split: if_splits)
    note s3 = sends_poll_retransmit [OF inv2 r3(1)]
    have inv3: "tx_inv sf isn S1 w c3" using s3 by (simp add: sends_def)
    note s4 = sends_poll_window_update [OF inv3 r3(2)]
    have inv4: "tx_inv sf isn S1 w c4" using s4 by (simp add: sends_def)
    have "sending_state (tc_state c4)" if "sending_state (tc_state c)" "tc_tx_buffer c4 \<noteq> []"
      using that s1(2) s2 s3 s4 by metis
    then obtain S5 where s5: "sends sf isn w S1 c4 p5 S5 c5" using sends_poll_probe [OF inv4 r3(3)] by blast
    have s: "sends sf isn w S c ((p1 @ p2) @ p3 @ p4 @ p5) S5 c5"
      by (rule sends_trans [OF s12 sends_trans [OF conjunct1 [OF s3] sends_trans [OF conjunct1 [OF s4] s5]]])
    have inv5: "tx_inv sf isn S5 w c5" using s5 by (simp add: sends_def)
    have "sends sf isn w S5 c5 [] S5 c'"
    proof (cases "c' = c5")
      case True
      then show ?thesis using sends_nothing [OF inv5] by simp
    next
      case False
      then show ?thesis using r3(4)
        by (intro sends_closed [OF inv5]) (auto simp: poll_time_wait_def split: if_splits)
    qed
    from sends_trans [OF s this] show ?thesis using r3(5) by auto
  qed
qed

section \<open>The application\<close>

lemma sends_close:
  assumes inv: "tx_inv sf isn S w c" and r: "initiate_close_at t c = Some (pkt, c')"
  shows "sends sf isn w S c (option_list pkt) S c'"
proof (cases "(tc_state c = Established \<or> tc_state c = CloseWait) \<and> tc_tx_buffer c = []")
  case True
  let ?c = "c\<lparr> tc_current_time_ms := t, tc_close_requested := True \<rparr>"
  have core: "tx_core ?c = tx_core c" by (simp add: tx_core_def)
  have inv': "tx_inv sf isn S w ?c" using inv tx_inv_core [OF core] by simp
  have "emit_fin t ?c = Some (pkt, c')" using r True by (auto simp: initiate_close_at_def Let_def)
  from sends_fin [OF inv' this] True show ?thesis using sends_trans [OF sends_quiet [OF inv core]] by simp
next
  case False
  then have "pkt = None" "tx_core c' = tx_core c"
    using r by (auto simp: initiate_close_at_def Let_def split: if_splits)
  then show ?thesis using sends_quiet [OF inv] by (simp add: option_list_def)
qed

lemma tx_inv_write:
  assumes inv: "tx_inv sf isn S w c" and r: "tcp_write data c = (n, c')"
  shows "tx_inv sf isn S (w @ take n data) c' \<and> tc_fin_sent c' = tc_fin_sent c"
proof -
  have c': "c' = c\<lparr> tc_tx_buffer := tc_tx_buffer c @ take n data \<rparr>"
    and n: "n \<le> SND_BUFFER_CAPACITY - length (tc_tx_buffer c)"
    using r by (auto simp: tcp_write_def Let_def)
  have "live sf isn S una nxt c' = live sf isn S una nxt c" for una nxt by (simp add: c' live_def)
  then have "tx_phase sf isn S c' = tx_phase sf isn S c"
    by (cases "tc_state c") (simp_all add: tx_phase_def c')
  moreover have "length (tc_tx_buffer c') \<le> SND_BUFFER_CAPACITY"
    using n tx_invD(1) [OF inv] by (simp add: c')
  ultimately show ?thesis using inv by (auto simp: tx_inv_def c')
qed

lemma sends_send_data:
  assumes inv: "tx_inv sf isn S w c" and r: "send_data_at data t c = Some (pkt, c')"
  shows "\<exists>S'. sends sf isn (w @ (if tc_state c = Established then take (fst (tcp_write data c)) data else [])) S c (option_list pkt) S' c'"
proof (cases "tc_state c = Established")
  case True
  let ?c = "c\<lparr> tc_current_time_ms := t \<rparr>"
  obtain n c1 where w: "tcp_write data ?c = (n, c1)" by fastforce
  have n: "n = fst (tcp_write data c)" using w by (auto simp: tcp_write_def Let_def)
  have "tx_inv sf isn S w ?c" using inv tx_inv_core [of ?c c] by simp
  from tx_inv_write [OF this w] have inv1: "tx_inv sf isn S (w @ take n data) c1" "tc_fin_sent c1 = tc_fin_sent c" by simp_all
  obtain ps where ps: "poll_output t c1 = Some (ps, c')" "pkt = (if ps = [] then None else Some (last ps))"
    using r True w by (auto simp: send_data_at_def Let_def bind_eq_Some_conv)
  obtain S' where s: "sends sf isn (w @ take n data) S c1 ps S' c'" using sends_poll_output [OF inv1(1) ps(1)] by blast
  have "set (option_list pkt) \<subseteq> set ps" using ps(2) by (auto simp: option_list_def)
  then have "sends sf isn (w @ take n data) S c (option_list pkt) S' c'" using s inv1(2) by (auto simp: sends_def)
  then show ?thesis using True n by auto
next
  case False
  then have "pkt = None" "tx_core c' = tx_core c" using r by (auto simp: send_data_at_def Let_def)
  then show ?thesis using sends_quiet [OF inv] False by (auto simp: option_list_def)
qed

section \<open>Segments received\<close>

text \<open>The connection after a duplicate acknowledgement.\<close>

abbreviation dup_acked :: "TcpSegment \<Rightarrow> TcpConnection \<Rightarrow> TcpConnection" where
  "dup_acked seg c \<equiv>
     (tc_stats_update (\<lambda>s. s\<lparr> st_duplicate_acks := st_duplicate_acks s + 1 \<rparr>) (c\<lparr> tc_snd_wnd := seg_window_size seg \<rparr>))
       \<lparr> tc_congestion := snd (on_dup_ack (tc_congestion c)) \<rparr>"

lemma process_ack_cases:
  assumes r: "process_ack seg t c = Some (early, resp, c')"
  shows "(seq_gt (seg_ack_num seg) (tc_snd_una c) \<and> seq_le (seg_ack_num seg) (tc_snd_nxt c) \<and> resp = None \<and>
       c' = acknowledge (seg_ack_num seg) t (c\<lparr> tc_snd_wnd := seg_window_size seg \<rparr>)) \<or>
    reply_ack (count_invalid c) = Some (resp, c') \<or>
    retransmit_oldest t True (dup_acked seg c) = Some (resp, c') \<or>
    resp = None \<and> (c' = c \<or> c' = c\<lparr> tc_snd_wnd := seg_window_size seg \<rparr> \<or> c' = dup_acked seg c)"
proof (cases "tf_ack (seg_flags seg)")
  case ack: True
  show ?thesis
  proof (cases "seq_gt (seg_ack_num seg) (tc_snd_una c) \<and> seq_le (seg_ack_num seg) (tc_snd_nxt c)")
    case True
    then show ?thesis using r ack by (simp add: process_ack_def)
  next
    case not_new: False
    show ?thesis
    proof (cases "seq_gt (seg_ack_num seg) (tc_snd_nxt c)")
      case True
      then show ?thesis using r ack not_new by (auto simp: process_ack_def bind_eq_Some_conv)
    next
      case False
      show ?thesis
      proof (cases "seg_ack_num seg = tc_snd_una c \<and> seg_payload seg = [] \<and> \<not> tf_syn (seg_flags seg) \<and>
          \<not> tf_fin (seg_flags seg) \<and> tc_retransmit_queue c \<noteq> []")
        case True
        then show ?thesis using r ack not_new False
          by (cases "fst (on_dup_ack (tc_congestion c))")
             (auto simp: process_ack_def Let_def split_beta bind_eq_Some_conv)
      next
        case no_dup: False
        have "process_ack seg t c = Some (False, None, c\<lparr> tc_snd_wnd := seg_window_size seg \<rparr>)"
          unfolding process_ack_def by (simp only: ack not_new False no_dup if_False not_True_eq_False)
        then show ?thesis using r by simp
      qed
    qed
  qed
qed (use r in \<open>simp add: process_ack_def\<close>)

lemma sends_process_ack:
  assumes inv: "tx_inv sf isn S w c" and st: "tx_open (tc_state c)"
    and r: "process_ack seg t c = Some (early, resp, c')"
  shows "sends sf isn w S c (option_list resp) S c' \<and> tc_state c' = tc_state c"
proof -
  have state: "tc_state c' = tc_state c" using process_ack_rx_view [OF r] by (simp add: rx_view_def)
  let ?c = "c\<lparr> tc_snd_wnd := seg_window_size seg \<rparr>"
  let ?d = "dup_acked seg c"
  have core: "tx_core ?c = tx_core c" "tx_core (count_invalid c) = tx_core c" "tx_core ?d = tx_core c"
    by (simp_all add: tx_core_def count_invalid_def on_dup_ack_def Let_def)
  have invs: "tx_inv sf isn S w ?c" "tx_inv sf isn S w (count_invalid c)" "tx_inv sf isn S w ?d"
    using inv core tx_inv_core by blast+
  from process_ack_cases [OF r] consider (new) "seq_gt (seg_ack_num seg) (tc_snd_una c)" "seq_le (seg_ack_num seg) (tc_snd_nxt c)"
      "resp = None" "c' = acknowledge (seg_ack_num seg) t ?c"
    | (future) "reply_ack (count_invalid c) = Some (resp, c')"
    | (fast) "retransmit_oldest t True ?d = Some (resp, c')"
    | (quiet) "resp = None" "c' = c \<or> c' = ?c \<or> c' = ?d"
    by blast
  then show ?thesis
  proof cases
    case new
    have "tx_inv sf isn S w c'" unfolding new(4) by (rule tx_inv_acknowledge [OF invs(1)]) (use st new in simp_all)
    then show ?thesis using new state by (auto simp: sends_def option_list_def acknowledge_fields)
  next
    case future
    from sends_trans [OF sends_quiet [OF inv core(2)] sends_reply_ack [OF invs(2) future]] state show ?thesis by simp
  next
    case fast
    from sends_trans [OF sends_quiet [OF inv core(3)] sends_retransmit_oldest [OF invs(3) fast]] state show ?thesis by simp
  next
    case quiet
    then have "tx_core c' = tx_core c" using core by auto
    then show ?thesis using sends_quiet [OF inv] state quiet(1) by (simp add: option_list_def)
  qed
qed

text \<open>Moves between the open states, and to \<open>TimeWait\<close>.\<close>

lemma tx_inv_move:
  assumes inv: "tx_inv sf isn S w c" and opn: "tx_open (tc_state c)" and core: "tx_core c' = tx_core (c\<lparr> tc_state := st \<rparr>)"
    and st: "tx_open st \<and> fin_state st = fin_state (tc_state c) \<or> st = TimeWait \<and> fin_state (tc_state c)"
  shows "tx_inv sf isn S w c'"
proof -
  let ?c = "c\<lparr> tc_state := st \<rparr>"
  have "live sf isn S una nxt ?c = live sf isn S una nxt c" for una nxt by (simp add: live_def)
  note same = this
  have old: "tc_fin_sent c = fin_state (tc_state c)"
    "\<exists>una > 0. live sf isn S una (length S + 1 + of_bool (tc_fin_sent c)) c"
    using tx_invD(3) [OF inv] tx_phase_open [OF opn] by blast+
  have "tx_phase sf isn S ?c"
  proof (cases "st = TimeWait")
    case True
    then show ?thesis using old(1) st by (auto simp: tx_phase_def tx_open_def)
  next
    case False
    then have "tx_open (tc_state ?c)" "fin_state (tc_state ?c) = fin_state (tc_state c)" using st by auto
    then show ?thesis using old same by (simp add: tx_phase_open)
  qed
  moreover have "tc_state c \<noteq> Closed" using opn by (auto simp: tx_open_def)
  ultimately have "tx_inv sf isn S w ?c"
    using tx_invD [OF inv] by (intro tx_invI) auto
  then show ?thesis using tx_inv_core [OF core] by simp
qed

lemma sends_move:
  assumes "tx_inv sf isn S w c" "tx_open (tc_state c)" "tx_core c' = tx_core (c\<lparr> tc_state := st \<rparr>)"
    and "tx_open st \<and> fin_state st = fin_state (tc_state c) \<or> st = TimeWait \<and> fin_state (tc_state c)"
  shows "sends sf isn w S c [] S c'"
  using tx_inv_move [OF assms] assms(3) by (auto simp: sends_def tx_core_def)

lemma open_states [simp]:
  "tx_open Established" "tx_open CloseWait" "tx_open FinWait1" "tx_open FinWait2" "tx_open Closing" "tx_open LastAck"
  "\<not> tx_open Listen" "\<not> tx_open Closed" "\<not> tx_open TimeWait" "\<not> tx_open SynSent" "\<not> tx_open SynReceived"
  "fin_state FinWait1" "fin_state FinWait2" "fin_state Closing" "fin_state LastAck" "\<not> fin_state Established"
  "\<not> fin_state CloseWait"
  by (simp_all add: tx_open_def fin_state_def)

lemma sends_process_fin:
  assumes inv: "tx_inv sf isn S w c" and st: "tc_state c \<in> {Established, FinWait1, FinWait2}"
  shows "sends sf isn w S c [] S (snd (process_fin seg t c))"
proof (cases "fst (process_fin seg t c)")
  case True
  let ?c = "c\<lparr> tc_rcv_nxt := tc_rcv_nxt c + 1, tc_fin_received := True \<rparr>"
  have "\<exists>st'. tx_core (snd (process_fin seg t c)) = tx_core (c\<lparr> tc_state := st' \<rparr>) \<and>
      (tx_open st' \<and> fin_state st' = fin_state (tc_state c) \<or> st' = TimeWait \<and> fin_state (tc_state c))"
    using True st by (auto simp: process_fin_def Let_def tx_core_def split: if_splits)
  then show ?thesis using sends_move [OF inv] st by auto
next
  case False
  then have "snd (process_fin seg t c) = c" by (auto simp: process_fin_def Let_def split: if_splits)
  then show ?thesis using sends_nothing [OF inv] by simp
qed

lemma sends_fin_acked:
  assumes inv: "tx_inv sf isn S w c"
  shows "sends sf isn w S c [] S (fin_acked_transition t c)"
proof (cases "fin_acked_transition t c = c")
  case True
  then show ?thesis using sends_nothing [OF inv] by simp
next
  case False
  then have "tc_state c = FinWait1 \<and> tx_core (fin_acked_transition t c) = tx_core (c\<lparr> tc_state := FinWait2 \<rparr>) \<or>
    tc_state c = Closing \<and> tx_core (fin_acked_transition t c) = tx_core (c\<lparr> tc_state := TimeWait \<rparr>)"
    by (auto simp: fin_acked_transition_def tx_core_def split: if_splits)
  then show ?thesis using sends_move [OF inv] by auto
qed

lemma sends_data_state:
  assumes inv: "tx_inv sf isn S w c" and st: "tc_state c \<in> {Established, FinWait1, FinWait2}"
    and r: "handle_data_state seg t c = Some (resp, c')"
  shows "sends sf isn w S c (option_list resp) S c'"
proof -
  obtain early resp1 c1 where p: "process_ack seg t c = Some (early, resp1, c1)"
    using r by (auto simp: handle_data_state_def bind_eq_Some_conv)
  have opn: "tx_open (tc_state c)" using st by auto
  note s1 = sends_process_ack [OF inv opn p]
  show ?thesis
  proof (cases early)
    case True
    then show ?thesis using r p s1 by (simp add: handle_data_state_def)
  next
    case False
    define c2 where "c2 = (if seg_payload seg \<noteq> [] then accept_data (seg_seq_num seg) (seg_payload seg) c1 else c1)"
    define c3 where "c3 = snd (process_fin seg t c2)"
    have inv1: "tx_inv sf isn S w c1" using s1 by (simp add: sends_def)
    have core2: "tx_core c2 = tx_core c1" by (simp add: c2_def)
    have inv2: "tx_inv sf isn S w c2" using inv1 tx_inv_core [OF core2] by simp
    have st2: "tc_state c2 \<in> {Established, FinWait1, FinWait2}" using core2 s1 st by (auto simp: tx_core_def)
    have s3: "sends sf isn w S c2 [] S c3" unfolding c3_def by (rule sends_process_fin [OF inv2 st2])
    have inv3: "tx_inv sf isn S w c3" using s3 by (simp add: sends_def)
    have s123: "sends sf isn w S c (option_list resp1) S c3"
      using sends_trans [OF conjunct1 [OF s1] sends_trans [OF sends_quiet [OF inv1 core2] s3]] by simp
    have "\<exists>c4. (if (seg_payload seg \<noteq> [] \<or> fst (process_fin seg t c2)) \<and> resp1 = None then reply_ack c3 else Some (resp1, c3)) = Some (resp, c4)
        \<and> c' = fin_acked_transition t c4"
      using r p False by (auto simp: handle_data_state_def Let_def c3_def c2_def split_beta bind_eq_Some_conv)
    then obtain c4 where c4: "(resp1 = None \<and> reply_ack c3 = Some (resp, c4)) \<or> (resp = resp1 \<and> c4 = c3)"
      "c' = fin_acked_transition t c4" by (auto split: if_splits)
    have s4: "sends sf isn w S c (option_list resp) S c4"
      using c4(1) s123 sends_trans [OF s123 sends_reply_ack [OF inv3]] by (auto simp: option_list_def)
    then have "tx_inv sf isn S w c4" by (simp add: sends_def)
    from sends_trans [OF s4 sends_fin_acked [OF this]] show ?thesis using c4(2) by simp
  qed
qed

text \<open>The end of the connection: a queue that can only shrink.\<close>

lemma sends_time_wait:
  assumes inv: "tx_inv sf isn S w c" and c': "tc_state c' = TimeWait" "tc_fin_sent c'" "tc_fin_sent c"
    "set (map core (tc_retransmit_queue c')) \<subseteq> set (map core (tc_retransmit_queue c))"
    "tc_tx_buffer c' = tc_tx_buffer c" "tc_state c \<noteq> Closed"
  shows "sends sf isn w S c [] S c'"
proof -
  have "tx_phase sf isn S c'" using c'(1,2) by (simp add: tx_phase_def)
  moreover have "\<exists>a n. entry_at sf isn S (tc_fin_sent c') a n e" if "e \<in> set (map core (tc_retransmit_queue c'))" for e
  proof -
    have eq: "tc_fin_sent c' = tc_fin_sent c" using c'(2,3) by simp
    show ?thesis using tx_invD(4) [OF inv, of e] that c'(4) unfolding eq by blast
  qed
  ultimately have "tx_inv sf isn S w c'"
    using tx_invD(1,2,5) [OF inv] c'(5,6) by (intro tx_invI) auto
  then show ?thesis using c'(2) by (auto simp: sends_def)
qed

lemma open_fin_sent: "tx_inv sf isn S w c \<Longrightarrow> tx_open (tc_state c) \<Longrightarrow> tc_fin_sent c = fin_state (tc_state c)"
  using tx_invD(3) tx_phase_open by blast

lemma sends_closing:
  assumes inv: "tx_inv sf isn S w c" and st: "tc_state c = Closing"
  shows "sends sf isn w S c [] S (handle_closing seg t c)"
proof (cases "handle_closing seg t c = c")
  case True
  then show ?thesis using sends_nothing [OF inv] by simp
next
  case False
  then show ?thesis
    using acknowledge_entries [of "seg_ack_num seg" t c] open_fin_sent [OF inv] st
    by (intro sends_time_wait [OF inv]) (auto simp: handle_closing_def acknowledge_fields split: if_splits)
qed

lemma sends_last_ack:
  assumes inv: "tx_inv sf isn S w c"
  shows "sends sf isn w S c [] S (handle_last_ack seg t c)"
proof (cases "handle_last_ack seg t c = c")
  case True
  then show ?thesis using sends_nothing [OF inv] by simp
next
  case False
  then show ?thesis using retire_subset
    by (intro sends_closed [OF inv]) (auto simp: handle_last_ack_def acknowledge_fields split: if_splits)
qed

lemma sends_close_wait:
  assumes inv: "tx_inv sf isn S w c" and st: "tc_state c = CloseWait"
    and r: "handle_close_wait seg t c = Some (resp, c')"
  shows "sends sf isn w S c (option_list resp) S c'"
proof -
  let ?c = "c\<lparr> tc_snd_wnd := seg_window_size seg \<rparr>"
  define c1 where "c1 = (if tf_ack (seg_flags seg) \<and> seq_gt (seg_ack_num seg) (tc_snd_una c) \<and>
      seq_le (seg_ack_num seg) (tc_snd_nxt c) then acknowledge (seg_ack_num seg) t ?c else c)"
  have "tx_inv sf isn S w ?c" using inv tx_inv_core [of ?c c] by simp
  then have inv1: "tx_inv sf isn S w c1"
    using inv tx_inv_acknowledge [of sf isn S w ?c "seg_ack_num seg" t] st by (auto simp: c1_def)
  then have s1: "sends sf isn w S c [] S c1" by (simp add: sends_def c1_def acknowledge_fields)
  have "(reply_ack c1 = Some (resp, c')) \<or> (resp = None \<and> c' = c1)"
    using r by (auto simp: handle_close_wait_def Let_def c1_def split: if_splits)
  then show ?thesis
    using s1 sends_trans [OF s1 sends_reply_ack [OF inv1]] by (auto simp: option_list_def)
qed

text \<open>The handshake.\<close>

lemma live_zero:
  assumes "live sf isn S 0 0 c"
  shows "tc_snd_nxt c = isn" "tc_retransmit_queue c = []"
proof -
  have ch: "chain sf isn S (tc_fin_sent c) 0 0 (map core (tc_retransmit_queue c)) 0" using assms by (simp add: live_def)
  show "tc_retransmit_queue c = []"
  proof (cases "tc_retransmit_queue c")
    case (Cons e es)
    then obtain n where "0 < n" "chain sf isn S (tc_fin_sent c) 0 n (map core es) 0" using ch by auto
    then show ?thesis using chain_le by fastforce
  qed simp
qed (use assms in \<open>simp add: live_def\<close>)

lemma sends_listen:
  assumes inv: "tx_inv sf isn S w c" and st: "tc_state c = Listen" and r: "handle_listen seg t c = Some (resp, c')"
  shows "sends sf isn w S c (option_list resp) S c'"
proof (cases "tf_syn (seg_flags seg)")
  case True
  have ph: "S = []" "\<not> tc_fin_sent c" "sf = flags_syn_ack" "live sf isn S 0 0 c"
    using tx_invD(3) [OF inv] st by (auto simp: tx_phase_def)
  have nxt: "tc_snd_nxt c = isn" and empty: "tc_retransmit_queue c = []"
    using live_zero [OF ph(4)] by simp_all
  let ?c = "c\<lparr> tc_rcv_nxt := seg_seq_num seg + 1, tc_snd_wnd := seg_window_size seg, tc_snd_nxt := tc_snd_nxt c + 1, tc_state := SynReceived \<rparr>"
  obtain p opts c1 where p: "resp = Some p" "conn_serialize ?c isn (seg_seq_num seg + 1) flags_syn_ack (current_rcv_wnd ?c) opts [] = Some p"
    "c' = count_segment_sent (c1\<lparr> tc_last_ack_sent := seg_seq_num seg + 1 \<rparr>)"
    "c1 = track_for_retransmit (isn + of_nat 0) (of_nat 1) flags_syn_ack [] t ?c"
    using r True unfolding nxt [symmetric] by (auto simp: handle_listen_def Let_def bind_eq_Some_conv)
  have e: "entry_at sf isn [] False 0 1 (isn + of_nat 0, isn + of_nat (0 + 1), flags_syn_ack, [])" by (simp add: ph(3))
  have l: "live sf isn [] 0 (0 + 1) c1"
    by (rule live_track [OF ph(4) e _ _ _ p(4), where T = "[]"]) (use ph nxt in auto)
  have "tx_inv sf isn [] w c1"
  proof (rule tx_invI)
    show "tx_phase sf isn [] c1" using l ph(2) by (simp add: tx_phase_def p(4) track_for_retransmit_def)
    show "\<exists>a n. entry_at sf isn [] (tc_fin_sent c1) a n x" if "x \<in> set (map core (tc_retransmit_queue c1))" for x
      using that e ph(2) empty by (auto simp: p(4) track_for_retransmit_def core_def intro!: exI [of _ 0] exI [of _ 1])
  qed (use tx_invD(1,2,5) [OF inv] st ph(1) in \<open>simp_all add: p(4) track_for_retransmit_def\<close>)
  then have "tx_inv sf isn S w c'" using tx_inv_core [of c' c1] by (simp add: p(3) ph(1))
  moreover have "packet_ok sf isn S (tc_fin_sent c') p"
    by (rule packet_okI [OF p(2)]) (simp_all add: ph(3))
  ultimately show ?thesis using p(1) ph(2) by (simp add: sends_def option_list_def)
next
  case False
  then show ?thesis using r sends_nothing [OF inv] by (simp add: handle_listen_def option_list_def)
qed

text \<open>The SYN is acknowledged: the connection opens.\<close>

lemma live_opened:
  assumes l: "live sf isn [] 0 1 c" and c1: "tx_core c1 = tx_core (c\<lparr> tc_state := Established \<rparr>)" and ack: "ack = tc_snd_nxt c"
    and inv: "tx_inv sf isn [] w c" "tc_state c \<noteq> Closed" "\<not> tc_fin_sent c"
  shows "tx_inv sf isn [] w (acknowledge ack t c1)"
proof -
  have "live sf isn [] 0 1 (c\<lparr> tc_state := Established \<rparr>)" using l by (simp add: live_def)
  then have "live sf isn [] 0 1 c1" using live_core [OF c1] by simp
  from acknowledge_live [OF this, of 1 t] have l1: "live sf isn [] 1 1 (acknowledge ack t c1)"
    using l ack by (simp add: live_def)
  have f: "tc_state c1 = Established" "tc_tx_buffer c1 = tc_tx_buffer c" "tc_fin_sent c1 = tc_fin_sent c"
    "set (map core (tc_retransmit_queue c1)) = set (map core (tc_retransmit_queue c))"
    using c1 by (simp_all add: tx_core_def)
  show ?thesis
  proof (rule tx_invI)
    show "tx_phase sf isn [] (acknowledge ack t c1)"
      using tx_phase_open [of "acknowledge ack t c1" sf isn "[]"] l1 f inv(3) by (auto simp: acknowledge_fields)
    show "\<exists>a n. entry_at sf isn [] (tc_fin_sent (acknowledge ack t c1)) a n e"
      if "e \<in> set (map core (tc_retransmit_queue (acknowledge ack t c1)))" for e
      using tx_invD(4) [OF inv(1), of e] that acknowledge_entries [of ack t c1] f(4) unfolding acknowledge_fields f(3) by blast
  qed (use tx_invD(1,2,5) [OF inv(1)] inv(2) f in \<open>simp_all add: acknowledge_fields\<close>)
qed

lemma sends_syn_sent:
  assumes inv: "tx_inv sf isn S w c" and st: "tc_state c = SynSent" and r: "handle_syn_sent seg t c = Some (resp, c')"
    and syn: "tf_syn (seg_flags seg) \<longrightarrow> tf_ack (seg_flags seg)"
  shows "sends sf isn w S c (option_list resp) S c'"
proof (cases "tf_syn (seg_flags seg) \<and> seg_ack_num seg = tc_snd_nxt c")
  case True
  have ph: "S = []" "\<not> tc_fin_sent c" "live sf isn [] 0 1 c"
    using tx_invD(3) [OF inv] st by (auto simp: tx_phase_def)
  let ?c = "c\<lparr> tc_rcv_nxt := seg_seq_num seg + 1, tc_snd_wnd := seg_window_size seg, tc_state := Established \<rparr>"
  let ?c1 = "acknowledge (seg_ack_num seg) t ?c"
  have inv1: "tx_inv sf isn [] w ?c1"
    by (rule live_opened [OF ph(3)]) (use inv True st ph in \<open>simp_all add: tx_core_def\<close>)
  obtain p where p: "resp = Some p" "conn_serialize ?c1 (tc_snd_nxt ?c1) (tc_rcv_nxt ?c1) flags_ack (current_rcv_wnd ?c1) [] [] = Some p"
    "c' = count_segment_sent (?c1\<lparr> tc_last_ack_sent := tc_rcv_nxt ?c1 \<rparr>)"
    using r True syn by (auto simp: handle_syn_sent_def Let_def bind_eq_Some_conv)
  have core: "tx_core c' = tx_core ?c1" by (simp add: p(3))
  have "tc_fin_sent c' = tc_fin_sent c" using core by (simp add: tx_core_def acknowledge_fields)
  then show ?thesis
    using inv1 tx_inv_core [OF core] bare_packet_ok [OF p(2)] p(1) ph(1) by (simp add: sends_def option_list_def)
next
  case False
  then have "resp = None" "c' = c" using r syn by (auto simp: handle_syn_sent_def Let_def split: if_splits)
  then show ?thesis using sends_nothing [OF inv] by (simp add: option_list_def)
qed

lemma sends_syn_received:
  assumes inv: "tx_inv sf isn S w c" and st: "tc_state c = SynReceived" and r: "handle_syn_received seg t c = Some (resp, c')"
  shows "sends sf isn w S c (option_list resp) S c'"
proof (cases "tf_ack (seg_flags seg) \<and> seg_ack_num seg = tc_snd_nxt c")
  case True
  have ph: "S = []" "\<not> tc_fin_sent c" "live sf isn [] 0 1 c"
    using tx_invD(3) [OF inv] st by (auto simp: tx_phase_def)
  let ?c = "c\<lparr> tc_snd_wnd := seg_window_size seg, tc_state := Established \<rparr>"
  let ?c1 = "acknowledge (seg_ack_num seg) t ?c"
  let ?c2 = "accept_data (seg_seq_num seg) (seg_payload seg) ?c1"
  have inv1: "tx_inv sf isn S w ?c1" unfolding ph(1)
    by (rule live_opened [OF ph(3)]) (use inv True st ph in \<open>simp_all add: tx_core_def\<close>)
  have s1: "sends sf isn w S c [] S ?c1" using inv1 by (simp add: sends_def acknowledge_fields)
  have s2: "sends sf isn w S ?c1 [] S ?c2" by (rule sends_quiet [OF inv1]) simp
  have inv2: "tx_inv sf isn S w ?c2" using s2 by (simp add: sends_def)
  have "reply_ack ?c2 = Some (resp, c') \<or> resp = None \<and> c' = ?c1"
    using r True by (cases "seg_payload seg = []") (simp_all add: handle_syn_received_def Let_def)
  then consider "reply_ack ?c2 = Some (resp, c')" | "resp = None" "c' = ?c1" by blast
  then show ?thesis
  proof cases
    case 1
    from sends_trans [OF s1 sends_trans [OF s2 sends_reply_ack [OF inv2 1]]] show ?thesis by simp
  next
    case 2
    then show ?thesis using s1 by (simp add: option_list_def)
  qed
next
  case False
  then have "resp = None" "c' = c" using r unfolding handle_syn_received_def if_not_P [OF False] by simp_all
  then show ?thesis using sends_nothing [OF inv] by (simp add: option_list_def)
qed

section \<open>Every step\<close>

lemma sends_in_state:
  assumes inv: "tx_inv sf isn S w c" and r: "handle_in_state seg t c = Some (resp, c')"
    and syn: "tc_state c = SynSent \<longrightarrow> tf_syn (seg_flags seg) \<longrightarrow> tf_ack (seg_flags seg)"
  shows "sends sf isn w S c (option_list resp) S c'"
proof (cases "tc_state c")
  case SynSent
  then show ?thesis using sends_syn_sent [OF inv SynSent] r syn by (simp add: handle_in_state_def)
next
  case TimeWait
  then show ?thesis
    using r sends_nothing [OF inv] bare_packet_ok
    by (auto simp: handle_in_state_def handle_time_wait_def bind_eq_Some_conv option_list_def
        intro!: sends_core [OF inv] split: if_splits)
qed (use inv r sends_nothing [OF inv] sends_listen [OF inv] sends_syn_received [OF inv] sends_data_state [OF inv]
     sends_close_wait [OF inv] sends_closing [OF inv] sends_last_ack [OF inv] in
     \<open>auto simp: handle_in_state_def option_list_def\<close>)

text \<open>The prologue of the handler and the timestamp do not touch the sender; what remains is the
  dispatch, or the acknowledgement of a segment that PAWS discards.\<close>

lemma segment_cases:
  assumes r: "handle_segment_at seg t c = Some (resp, c')"
  shows "\<exists>c2. tx_core c2 = tx_core c \<and>
    (dispatch_segment seg t c2 = Some (resp, c') \<or> reply_ack c2 = Some (resp, c'))"
proof -
  obtain ts c1 where p: "receive_prologue seg t c = (ts, c1)" by fastforce
  then have core1: "tx_core c1 = tx_core c" using prologue_tx_core [of seg t c] by simp
  show ?thesis
  proof (cases ts)
    case None
    then show ?thesis using r p core1 by (auto simp: handle_segment_at_def)
  next
    case (Some v)
    obtain tsval ecr where v: "v = (tsval, ecr)" by (cases v)
    let ?d = "tc_stats_update (\<lambda>s. s\<lparr> st_paws_discards := st_paws_discards s + 1, st_invalid_segments := st_invalid_segments s + 1 \<rparr>) c1"
    have core: "tx_core ?d = tx_core c" "tx_core (apply_timestamp seg t v c1) = tx_core c" using core1 by simp_all
    show ?thesis
    proof (cases "paws_reject seg tsval c1")
      case True
      then have "reply_ack ?d = Some (resp, c')" using r p Some v by (simp add: handle_segment_at_def)
      then show ?thesis using core(1) by blast
    next
      case False
      then have "dispatch_segment seg t (apply_timestamp seg t v c1) = Some (resp, c')"
        using r p Some v by (simp add: handle_segment_at_def)
      then show ?thesis using core(2) by blast
    qed
  qed
qed

lemma sends_rst:
  assumes inv: "tx_inv sf isn S w c"
  shows "sends sf isn w S c [] S (handle_rst seg c)"
proof (cases "rst_acceptable seg c")
  case True
  then show ?thesis by (intro sends_closed [OF inv]) (simp_all add: handle_rst_def)
next
  case False
  then show ?thesis by (intro sends_quiet [OF inv]) (simp add: handle_rst_def)
qed

lemma sends_segment:
  assumes inv: "tx_inv sf isn S w c" and r: "handle_segment_at seg t c = Some (resp, c')"
    and syn: "tc_state c = SynSent \<longrightarrow> tf_syn (seg_flags seg) \<longrightarrow> tf_ack (seg_flags seg)"
  shows "sends sf isn w S c (option_list resp) S c'"
proof -
  obtain c2 where core: "tx_core c2 = tx_core c"
    and c2: "dispatch_segment seg t c2 = Some (resp, c') \<or> reply_ack c2 = Some (resp, c')"
    using segment_cases [OF r] by blast
  have inv2: "tx_inv sf isn S w c2" using inv tx_inv_core [OF core] by simp
  have st: "tc_state c2 = tc_state c" using core by (simp add: tx_core_def)
  have "sends sf isn w S c2 (option_list resp) S c'"
    using c2 sends_reply_ack [OF inv2] sends_rst [OF inv2, of seg] sends_in_state [OF inv2, of seg t resp c'] syn st
    by (auto simp: dispatch_segment_def option_list_def split: if_splits)
  from sends_trans [OF sends_quiet [OF inv core] this] show ?thesis by simp
qed

lemma sends_step:
  assumes inv: "tx_inv sf isn S w c" and r: "conn_step ev c = Some (out, acc, ps, c')"
    and syn: "\<And>seg t. ev = EvSegment seg t \<Longrightarrow> tc_state c = SynSent \<Longrightarrow> tf_syn (seg_flags seg) \<Longrightarrow> tf_ack (seg_flags seg)"
  shows "\<exists>S'. sends sf isn (w @ acc) S c ps S' c'"
proof (cases ev)
  case (EvSegment seg t)
  then obtain resp where "handle_segment_at seg t c = Some (resp, c')" "ps = option_list resp" "acc = []"
    using r by (auto simp: bind_eq_Some_conv)
  moreover have "tc_state c = SynSent \<longrightarrow> tf_syn (seg_flags seg) \<longrightarrow> tf_ack (seg_flags seg)"
    using syn [OF EvSegment] by blast
  ultimately show ?thesis using sends_segment [OF inv] by (intro exI [of _ S]) simp
next
  case (EvWrite data)
  then show ?thesis using r tx_inv_write [OF inv, of data "fst (tcp_write data c)" "snd (tcp_write data c)"] by (auto simp: split_beta sends_def)
next
  case (EvRead n)
  then have "ps = []" "acc = []" "tx_core c' = tx_core c" using r by (auto simp: split_beta)
  then show ?thesis using sends_quiet [OF inv] by auto
next
  case (EvPoll t)
  then show ?thesis using r sends_poll_output [OF inv] by (auto simp: bind_eq_Some_conv)
next
  case (EvClose t)
  then obtain pkt where "initiate_close_at t c = Some (pkt, c')" "ps = option_list pkt" "acc = []"
    using r by (auto simp: bind_eq_Some_conv)
  then show ?thesis using sends_close [OF inv] by auto
next
  case (EvSend data t)
  then show ?thesis using r sends_send_data [OF inv] by (auto simp: bind_eq_Some_conv)
qed

text \<open>The invariant itself survives a simultaneous open too: only the packet it emits is not one of
  the stream (its SYN has the number after the initial one).\<close>

lemma tx_inv_simultaneous:
  assumes inv: "tx_inv sf isn S w c" and st: "tc_state c = SynSent" and r: "handle_segment_at seg t c = Some (resp, c')"
    and syn: "tf_syn (seg_flags seg)" "\<not> tf_ack (seg_flags seg)"
  shows "tx_inv sf isn S w c'"
proof -
  obtain c2 where core: "tx_core c2 = tx_core c"
    and c2: "dispatch_segment seg t c2 = Some (resp, c') \<or> reply_ack c2 = Some (resp, c')"
    using segment_cases [OF r] by blast
  have inv2: "tx_inv sf isn S w c2" and st2: "tc_state c2 = SynSent"
    using inv st tx_inv_core [OF core] core by (simp_all add: tx_core_def)
  let ?c = "c2\<lparr> tc_state := SynReceived \<rparr>"
  have "live sf isn S 0 1 ?c = live sf isn S 0 1 c2" by (simp add: live_def)
  then have "live sf isn S 0 1 ?c \<and> S = [] \<and> \<not> tc_fin_sent c2"
    using tx_invD(3) [OF inv2] st2 by (auto simp: tx_phase_def)
  then have "tx_inv sf isn S w ?c"
    using tx_invD [OF inv2] st2 by (intro tx_invI) (auto simp: tx_phase_def)
  moreover have "tx_core c' = tx_core ?c" if "handle_in_state seg t c2 = Some (resp, c')"
    using that st2 syn by (auto simp: handle_in_state_def handle_syn_sent_def Let_def bind_eq_Some_conv)
      (simp add: tx_core_def)
  ultimately have "tx_inv sf isn S w c'" if "handle_in_state seg t c2 = Some (resp, c')"
    using that tx_inv_core by blast
  then show ?thesis
    using c2 sends_reply_ack [OF inv2] sends_rst [OF inv2, of seg]
    by (auto simp: dispatch_segment_def sends_def split: if_splits)
qed

lemma tx_inv_step:
  assumes inv: "tx_inv sf isn S w c" and r: "conn_step ev c = Some (out, acc, ps, c')"
  shows "\<exists>S'. tx_inv sf isn S' (w @ acc) c'"
proof (cases "\<exists>seg t. ev = EvSegment seg t \<and> tc_state c = SynSent \<and> tf_syn (seg_flags seg) \<and> \<not> tf_ack (seg_flags seg)")
  case True
  then obtain seg t where ev: "ev = EvSegment seg t" "tc_state c = SynSent" "tf_syn (seg_flags seg)" "\<not> tf_ack (seg_flags seg)"
    by blast
  then obtain resp where "handle_segment_at seg t c = Some (resp, c')" "acc = []" using r by (auto simp: bind_eq_Some_conv)
  then show ?thesis using tx_inv_simultaneous [OF inv ev(2) _ ev(3,4)] by (intro exI [of _ S]) simp
next
  case False
  then show ?thesis using sends_step [OF inv r] by (fastforce simp: sends_def)
qed

end
