(* ===== verification/TcpManager.thy ===== *)
theory TcpManager
  imports TcpDelivery Interfaces
begin

text \<open>
  The connection manager (\<open>tcp.rs\<close>, \<open>TcpManager\<close>): the listening ports, the connections under their
  four-tuples, and the demultiplexing of segments.  The manager is shown to refine independent
  connections: what it does to the connection of a four-tuple is a run of that connection alone, so
  the theorems about one connection hold for each connection of a manager.
\<close>

section \<open>State and operations\<close>

record TcpManager =
  mgr_listeners :: "(u16, u32) hash_map"
  mgr_connections :: "(TcpConnectionKey, TcpConnection) hash_map"
  mgr_current_time_ms :: u64

definition manager_new :: TcpManager where
  "manager_new = \<lparr> mgr_listeners = [], mgr_connections = [], mgr_current_time_ms = 0 \<rparr>"

definition listen :: "u16 \<Rightarrow> TcpManager \<Rightarrow> TcpManager" where
  "listen port m = m\<lparr> mgr_listeners := hm_insert port 1000 (mgr_listeners m) \<rparr>"

definition connect :: "SocketAddrV4 \<Rightarrow> SocketAddrV4 \<Rightarrow> u32 \<Rightarrow> TcpManager \<Rightarrow> (bytes \<times> TcpManager) may_panic" where
  "connect local remote isn m =
     (let key = \<lparr> key_local = local, key_remote = remote \<rparr>;
          conn = new_client local remote isn
      in do { (syn_packet, conn) \<leftarrow> initiate_syn_at (mgr_current_time_ms m) conn;
              Some (syn_packet, m\<lparr> mgr_connections := hm_insert key conn (mgr_connections m) \<rparr>) })"

text \<open>\<open>get_connection_mut\<close> lends the connection to its caller; \<open>f\<close> is what the caller does with it.
  \<open>send_data\<close> and \<open>close\<close> use their connection in this way.\<close>

definition get_connection_mut ::
  "SocketAddrV4 \<Rightarrow> SocketAddrV4 \<Rightarrow> (TcpConnection \<Rightarrow> ('r \<times> TcpConnection) may_panic) \<Rightarrow> TcpManager \<Rightarrow>
   ('r option \<times> TcpManager) may_panic" where
  "get_connection_mut local remote f m =
     (let key = \<lparr> key_local = local, key_remote = remote \<rparr>
      in case hm_get (mgr_connections m) key of
           Some conn \<Rightarrow> do { (r, conn) \<leftarrow> f conn;
                            Some (Some r, m\<lparr> mgr_connections := hm_insert key conn (mgr_connections m) \<rparr>) }
         | None \<Rightarrow> Some (None, m))"

definition manager_send_data ::
  "SocketAddrV4 \<Rightarrow> SocketAddrV4 \<Rightarrow> bytes \<Rightarrow> TcpManager \<Rightarrow> (bytes option \<times> TcpManager) may_panic" where
  "manager_send_data local remote data m =
     do { (r, m) \<leftarrow> get_connection_mut local remote (send_data_at data (mgr_current_time_ms m)) m;
          Some (Option.bind r id, m) }"

definition manager_close ::
  "SocketAddrV4 \<Rightarrow> SocketAddrV4 \<Rightarrow> TcpManager \<Rightarrow> (bytes option \<times> TcpManager) may_panic" where
  "manager_close local remote m =
     do { (r, m) \<leftarrow> get_connection_mut local remote (initiate_close_at (mgr_current_time_ms m)) m;
          Some (Option.bind r id, m) }"

definition get_connection :: "SocketAddrV4 \<Rightarrow> SocketAddrV4 \<Rightarrow> TcpManager \<Rightarrow> TcpConnection option" where
  "get_connection local remote m =
     hm_get (mgr_connections m) \<lparr> key_local = local, key_remote = remote \<rparr>"

definition has_endpoint :: "Ipv4Address \<Rightarrow> u16 \<Rightarrow> Ipv4Address \<Rightarrow> u16 \<Rightarrow> TcpManager \<Rightarrow> bool" where
  "has_endpoint local_ip local_port remote_ip remote_port m =
     (let key = \<lparr> key_local = \<lparr> sock_ip = local_ip, sock_port = local_port \<rparr>,
                  key_remote = \<lparr> sock_ip = remote_ip, sock_port = remote_port \<rparr> \<rparr>
      in hm_contains (mgr_connections m) key \<or> hm_contains (mgr_listeners m) local_port)"

text \<open>The four-tuple of an incoming segment, and the answer to a segment for a closed port.\<close>

definition segment_key :: "Ipv4Address \<Rightarrow> Ipv4Address \<Rightarrow> TcpSegment \<Rightarrow> TcpConnectionKey" where
  "segment_key src_ip dst_ip seg =
     \<lparr> key_local = \<lparr> sock_ip = dst_ip, sock_port = seg_dst_port seg \<rparr>,
       key_remote = \<lparr> sock_ip = src_ip, sock_port = seg_src_port seg \<rparr> \<rparr>"

definition refuse_segment ::
  "Ipv4Address \<Rightarrow> Ipv4Address \<Rightarrow> TcpSegment \<Rightarrow> bytes option may_panic" where
  "refuse_segment src_ip dst_ip seg =
     (if \<not> tf_rst (seg_flags seg)
      then let rst_seq = (if tf_ack (seg_flags seg) then seg_ack_num seg else 0);
               rst_ack = seg_seq_num seg + (if tf_syn (seg_flags seg) \<or> tf_fin (seg_flags seg) then 1
                                            else of_nat (length (seg_payload seg)));
               flags = (if \<not> tf_ack (seg_flags seg) then flags_rst\<lparr> tf_ack := True \<rparr> else flags_rst)
           in do { p \<leftarrow> tcp_serialize dst_ip src_ip (seg_dst_port seg) (seg_src_port seg) rst_seq rst_ack
                     flags 0 [];
                   Some (Some p) }
      else Some None)"

definition process_segment_at ::
  "Ipv4Address \<Rightarrow> Ipv4Address \<Rightarrow> TcpSegment \<Rightarrow> u64 \<Rightarrow> TcpManager \<Rightarrow> (bytes option \<times> TcpManager) may_panic" where
  "process_segment_at src_ip dst_ip seg now_ms m =
     (let m = m\<lparr> mgr_current_time_ms := now_ms \<rparr>;
          key = segment_key src_ip dst_ip seg
      in case hm_get (mgr_connections m) key of
           Some conn \<Rightarrow>
             do { (resp, conn) \<leftarrow> handle_segment_at seg now_ms conn;
                  Some (resp, m\<lparr> mgr_connections := hm_insert key conn (mgr_connections m) \<rparr>) }
         | None \<Rightarrow>
             (case hm_get (mgr_listeners m) (seg_dst_port seg) of
                Some isn \<Rightarrow>
                  if tf_syn (seg_flags seg)
                  then let conn = new_server (key_local key) (key_remote key) isn;
                           m = m\<lparr> mgr_listeners :=
                                    hm_insert (seg_dst_port seg) (isn + 1000) (mgr_listeners m) \<rparr>
                       in do { (resp, conn) \<leftarrow> handle_segment_at seg now_ms conn;
                               Some (resp, m\<lparr> mgr_connections :=
                                                hm_insert key conn (mgr_connections m) \<rparr>) }
                  else do { resp \<leftarrow> refuse_segment src_ip dst_ip seg; Some (resp, m) }
              | None \<Rightarrow> do { resp \<leftarrow> refuse_segment src_ip dst_ip seg; Some (resp, m) }))"

definition process_segment ::
  "Ipv4Address \<Rightarrow> Ipv4Address \<Rightarrow> TcpSegment \<Rightarrow> TcpManager \<Rightarrow> (bytes option \<times> TcpManager) may_panic" where
  "process_segment src_ip dst_ip seg m = process_segment_at src_ip dst_ip seg (mgr_current_time_ms m) m"

text \<open>The loop of \<open>step_timers\<close>, in the order the hash map is iterated in.\<close>

fun poll_connections ::
  "u64 \<Rightarrow> (TcpConnectionKey, TcpConnection) hash_map \<Rightarrow>
   ((SocketAddrV4 \<times> SocketAddrV4 \<times> bytes) list \<times> (TcpConnectionKey, TcpConnection) hash_map) may_panic" where
  "poll_connections now_ms [] = Some ([], [])"
| "poll_connections now_ms ((key, conn) # rest) =
     do { (packets, conn) \<leftarrow> poll_output now_ms conn;
          (outgoing, rest) \<leftarrow> poll_connections now_ms rest;
          Some (map (\<lambda>p. (key_local key, key_remote key, p)) packets @ outgoing, (key, conn) # rest) }"

definition step_timers ::
  "u64 \<Rightarrow> TcpManager \<Rightarrow> ((SocketAddrV4 \<times> SocketAddrV4 \<times> bytes) list \<times> TcpManager) may_panic" where
  "step_timers now_ms m =
     do { (outgoing, conns) \<leftarrow> poll_connections now_ms (mgr_connections m);
          Some (outgoing, m\<lparr> mgr_current_time_ms := now_ms, mgr_connections := conns \<rparr>) }"

section \<open>Runs of a manager\<close>

datatype mgr_event =
    MListen u16
  | MConnect SocketAddrV4 SocketAddrV4 u32
  | MSegment Ipv4Address Ipv4Address TcpSegment u64
  | MTimers u64
  | MSend TcpConnectionKey bytes
  | MClose TcpConnectionKey
  | MRead TcpConnectionKey nat
  | MWrite TcpConnectionKey bytes

text \<open>The manager after an event.  Reads and writes go through \<open>get_connection_mut\<close>.\<close>

fun mgr_step :: "mgr_event \<Rightarrow> TcpManager \<Rightarrow> TcpManager may_panic" where
  "mgr_step (MListen port) m = Some (listen port m)"
| "mgr_step (MConnect local remote isn) m = map_option snd (connect local remote isn m)"
| "mgr_step (MSegment src dst seg now_ms) m = map_option snd (process_segment_at src dst seg now_ms m)"
| "mgr_step (MTimers now_ms) m = map_option snd (step_timers now_ms m)"
| "mgr_step (MSend k data) m = map_option snd (manager_send_data (key_local k) (key_remote k) data m)"
| "mgr_step (MClose k) m = map_option snd (manager_close (key_local k) (key_remote k) m)"
| "mgr_step (MRead k n) m =
     map_option snd (get_connection_mut (key_local k) (key_remote k) (\<lambda>c. Some (tcp_read n c)) m)"
| "mgr_step (MWrite k data) m =
     map_option snd (get_connection_mut (key_local k) (key_remote k) (\<lambda>c. Some (tcp_write data c)) m)"

text \<open>What the event is for the connection of four-tuple \<open>k\<close>: a new connection and the event that
  follows its creation, an event of the existing connection, or nothing.\<close>

fun conn_events :: "mgr_event \<Rightarrow> TcpConnectionKey \<Rightarrow> TcpManager \<Rightarrow> conn_event list" where
  "conn_events (MSegment src dst seg now_ms) k m =
     (if k = segment_key src dst seg then [EvSegment seg now_ms] else [])"
| "conn_events (MTimers now_ms) k m = [EvPoll now_ms]"
| "conn_events (MSend k' data) k m = (if k = k' then [EvSend data (mgr_current_time_ms m)] else [])"
| "conn_events (MClose k') k m = (if k = k' then [EvClose (mgr_current_time_ms m)] else [])"
| "conn_events (MRead k' n) k m = (if k = k' then [EvRead n] else [])"
| "conn_events (MWrite k' data) k m = (if k = k' then [EvWrite data] else [])"
| "conn_events _ k m = []"

lemma key_collapse [simp]: "\<lparr> key_local = key_local k, key_remote = key_remote k \<rparr> = k"
  by (cases k) simp

text \<open>Access through \<open>get_connection_mut\<close> changes the one connection.\<close>

lemma get_connection_mut_step:
  assumes "get_connection_mut (key_local k') (key_remote k') f m = Some (r, m')"
    and "hm_get (mgr_connections m') k = Some c'"
  shows "\<exists>c. hm_get (mgr_connections m) k = Some c \<and>
    (if k = k' then \<exists>x. f c = Some (x, c') else c' = c)"
  using assms by (auto simp: get_connection_mut_def Let_def bind_eq_Some_conv hm_get_insert
      split: option.splits if_splits)

lemma poll_connections_get:
  assumes "poll_connections t conns = Some (out, conns')" "hm_get conns' k = Some c'"
  shows "\<exists>c ps. hm_get conns k = Some c \<and> poll_output t c = Some (ps, c')"
  using assms
  by (induction t conns arbitrary: out conns' rule: poll_connections.induct)
     (auto simp: bind_eq_Some_conv split: if_splits)

text \<open>A step of the manager is, for each connection it holds afterwards, either the creation of the
  connection or the steps of \<open>conn_events\<close> on the connection it held before.\<close>

lemma mgr_step_conn:
  assumes step: "mgr_step ev m = Some m'" and c': "hm_get (mgr_connections m') k = Some c'"
  shows "(\<exists>local remote isn t pkt. k = \<lparr> key_local = local, key_remote = remote \<rparr> \<and>
            ev = MConnect local remote isn \<and>
            initiate_syn_at t (new_client local remote isn) = Some (pkt, c')) \<or>
    (\<exists>src dst seg t isn r. ev = MSegment src dst seg t \<and> k = segment_key src dst seg \<and>
            hm_get (mgr_connections m) k = None \<and>
            handle_segment_at seg t (new_server (key_local k) (key_remote k) isn) = Some (r, c')) \<or>
    (\<not> (\<exists>isn. ev = MConnect (key_local k) (key_remote k) isn) \<and>
     (\<exists>c. hm_get (mgr_connections m) k = Some c \<and>
       (case conn_events ev k m of [] \<Rightarrow> c' = c
        | cev # _ \<Rightarrow> \<exists>out acc ps. conn_step cev c = Some (out, acc, ps, c'))))"
proof (cases ev)
  case (MListen port)
  then show ?thesis using assms by (auto simp: listen_def)
next
  case (MConnect local remote isn)
  then show ?thesis using assms
    by (cases k) (auto simp: connect_def Let_def bind_eq_Some_conv hm_get_insert split: if_splits, blast+)
next
  case (MSegment src dst seg t)
  then show ?thesis using assms
    by (auto simp: process_segment_at_def Let_def bind_eq_Some_conv hm_get_insert
        split: if_splits option.splits, blast+)
next
  case (MTimers t)
  then obtain out conns where "poll_connections t (mgr_connections m) = Some (out, conns)"
    "hm_get conns k = Some c'"
    using assms by (auto simp: step_timers_def bind_eq_Some_conv)
  from poll_connections_get [OF this] show ?thesis using MTimers by auto
next
  case (MSend k' data)
  then obtain r where "get_connection_mut (key_local k') (key_remote k')
      (send_data_at data (mgr_current_time_ms m)) m = Some (r, m')"
    using step by (auto simp: manager_send_data_def bind_eq_Some_conv)
  from get_connection_mut_step [OF this c'] obtain c where "hm_get (mgr_connections m) k = Some c"
    "if k = k' then \<exists>x. send_data_at data (mgr_current_time_ms m) c = Some (x, c') else c' = c" by blast
  then show ?thesis using MSend by (intro disjI2 conjI exI [of _ c]) (auto split: if_splits)
next
  case (MClose k')
  then obtain r where "get_connection_mut (key_local k') (key_remote k')
      (initiate_close_at (mgr_current_time_ms m)) m = Some (r, m')"
    using step by (auto simp: manager_close_def bind_eq_Some_conv)
  from get_connection_mut_step [OF this c'] show ?thesis using MClose by auto
next
  case (MRead k' n)
  then obtain r where "get_connection_mut (key_local k') (key_remote k') (\<lambda>c. Some (tcp_read n c)) m = Some (r, m')"
    using step by auto
  from get_connection_mut_step [OF this c'] show ?thesis using MRead by (auto simp: split_beta)
next
  case (MWrite k' data)
  then obtain r where "get_connection_mut (key_local k') (key_remote k') (\<lambda>c. Some (tcp_write data c)) m = Some (r, m')"
    using step by auto
  from get_connection_mut_step [OF this c'] show ?thesis using MWrite by (auto simp: split_beta)
qed

text \<open>What the application of four-tuple \<open>k\<close> has read from and written to its current connection.\<close>

definition app_log :: "mgr_event \<Rightarrow> TcpManager \<Rightarrow> TcpConnectionKey \<Rightarrow> bytes \<times> bytes \<Rightarrow> bytes \<times> bytes" where
  "app_log ev m k dw =
     (case hm_get (mgr_connections m) k of
        None \<Rightarrow> ([], [])
      | Some c \<Rightarrow>
          (case ev of
             MConnect local remote isn \<Rightarrow>
               if k = \<lparr> key_local = local, key_remote = remote \<rparr> then ([], []) else dw
           | _ \<Rightarrow>
               (case conn_events ev k m of
                  [] \<Rightarrow> dw
                | cev # _ \<Rightarrow>
                    (case conn_step cev c of
                       None \<Rightarrow> dw | Some (out, acc, _, _) \<Rightarrow> (fst dw @ out, snd dw @ acc)))))"

text \<open>The runs of a manager; \<open>adm k n seg\<close> restricts the segments of four-tuple \<open>k\<close> as in \<open>conn_run\<close>.\<close>

inductive mgr_run ::
  "(TcpConnectionKey \<Rightarrow> nat \<Rightarrow> TcpSegment \<Rightarrow> bool) \<Rightarrow> TcpManager \<Rightarrow>
   (TcpConnectionKey \<Rightarrow> bytes \<times> bytes) \<Rightarrow> bool"
  for adm :: "TcpConnectionKey \<Rightarrow> nat \<Rightarrow> TcpSegment \<Rightarrow> bool" where
  init: "mgr_run adm manager_new (\<lambda>_. ([], []))"
| step: "mgr_run adm m L \<Longrightarrow> mgr_step ev m = Some m' \<Longrightarrow>
     (\<And>src dst seg t. ev = MSegment src dst seg t \<Longrightarrow>
        adm (segment_key src dst seg)
          (case hm_get (mgr_connections m) (segment_key src dst seg) of
             None \<Rightarrow> 0 | Some c \<Rightarrow> length (fst (L (segment_key src dst seg))) + length (tc_rx_buffer c)) seg) \<Longrightarrow>
     mgr_run adm m' (\<lambda>k. app_log ev m k (L k))"

lemma mgr_run_conn:
  assumes "mgr_run adm m L" "hm_get (mgr_connections m) k = Some c"
  shows "\<exists>isn. conn_run (adm k) isn c (fst (L k)) (snd (L k))"
  using assms
proof (induction arbitrary: k c rule: mgr_run.induct)
  case init
  then show ?case by (simp add: manager_new_def)
next
  case (step m L ev m')
  from mgr_step_conn [OF step.hyps(2) step.prems]
  consider (connected) local remote isn t pkt where "k = \<lparr> key_local = local, key_remote = remote \<rparr>"
      "ev = MConnect local remote isn" "initiate_syn_at t (new_client local remote isn) = Some (pkt, c)"
    | (accepted) src dst seg t isn r where "ev = MSegment src dst seg t" "k = segment_key src dst seg"
      "hm_get (mgr_connections m) k = None"
      "handle_segment_at seg t (new_server (key_local k) (key_remote k) isn) = Some (r, c)"
    | (kept) c0 where "\<nexists>isn. ev = MConnect (key_local k) (key_remote k) isn"
      "hm_get (mgr_connections m) k = Some c0"
      "case conn_events ev k m of [] \<Rightarrow> c = c0
       | cev # _ \<Rightarrow> \<exists>out acc ps. conn_step cev c0 = Some (out, acc, ps, c)"
    by blast
  then show ?case
  proof cases
    case connected
    then show ?thesis using conn_run.client [OF connected(3)] by (auto simp: app_log_def split: option.splits)
  next
    case accepted
    have "adm k 0 seg" using step.hyps(3) [OF accepted(1)] accepted(2,3) by simp
    moreover have "tc_rx_buffer (new_server (key_local k) (key_remote k) isn) = []"
      by (simp add: new_server_def)
    ultimately have "conn_run (adm k) isn c ([] @ []) ([] @ [])"
      by (intro conn_run.step [OF conn_run.server [of _ _ "key_local k" "key_remote k"],
            where ev = "EvSegment seg t" and packets = "option_list r"])
         (use accepted(4) in auto)
    then show ?thesis using accepted(3) by (auto simp: app_log_def)
  next
    case kept
    obtain isn where run: "conn_run (adm k) isn c0 (fst (L k)) (snd (L k))"
      using step.IH [OF kept(2)] by blast
    show ?thesis
    proof (cases "conn_events ev k m")
      case Nil
      then have "app_log ev m k (L k) = L k"
        using kept(1,2) by (auto simp: app_log_def split: mgr_event.splits)
      then show ?thesis using run kept(3) Nil by auto
    next
      case (Cons cev rest)
      then obtain out acc ps where st: "conn_step cev c0 = Some (out, acc, ps, c)" using kept(3) by auto
      have "adm k (length (fst (L k)) + length (tc_rx_buffer c0)) seg" if "cev = EvSegment seg t" for seg t
        using that Cons step.hyps(3) kept(2) by (cases ev) (auto split: if_splits)
      then have "conn_run (adm k) isn c (fst (L k) @ out) (snd (L k) @ acc)"
        by (rule conn_run.step [OF run st])
      moreover have "app_log ev m k (L k) = (fst (L k) @ out, snd (L k) @ acc)"
        using Cons st kept(2) by (cases ev) (auto simp: app_log_def)
      ultimately show ?thesis by auto
    qed
  qed
qed

section \<open>Addresses\<close>

text \<open>No operation changes the addresses of a connection, so every packet of a connection is sealed
  for, and sent to, the peer its four-tuple names.\<close>

definition addrs :: "TcpConnection \<Rightarrow> SocketAddrV4 \<times> SocketAddrV4" where
  "addrs c = (tc_local c, tc_remote c)"

lemma addrs_counts [simp]:
  "addrs (count_segment_sent c) = addrs c" "addrs (count_invalid c) = addrs c"
  "addrs (count_retransmission fast c) = addrs c" "addrs (track_for_retransmit s l f p t c) = addrs c"
  "addrs (retire_acked a t c) = addrs c" "addrs (acknowledge a t c) = addrs c"
  "addrs (deliver p c) = addrs c" "addrs (sync_legacy_ooo_view c) = addrs c"
  "addrs (buffer_ooo s p c) = addrs c" "addrs (mark_sacked b c) = addrs c"
  "addrs (apply_timestamp seg t ts c) = addrs c" "addrs (negotiate_timestamps seg tso c) = addrs c"
  "addrs (handle_rst seg c) = addrs c" "addrs (fin_acked_transition t c) = addrs c"
  "addrs (handle_closing seg t c) = addrs c" "addrs (handle_last_ack seg t c) = addrs c"
  "addrs (snd (process_fin seg t c)) = addrs c" "addrs (poll_time_wait t c) = addrs c"
  "addrs (abort_connection c) = addrs c" "addrs (snd (tcp_read n c)) = addrs c"
  "addrs (snd (tcp_write data c)) = addrs c"
  by (simp_all add: addrs_def count_segment_sent_def count_invalid_def count_retransmission_def
      track_for_retransmit_def retire_acked_def acknowledge_def deliver_def sync_legacy_ooo_view_def
      buffer_ooo_def mark_sacked_def apply_timestamp_def negotiate_timestamps_def handle_rst_def
      fin_acked_transition_def handle_closing_def handle_last_ack_def process_fin_def
      poll_time_wait_def abort_connection_def tcp_read_def tcp_write_def Let_def split_beta
      split: option.split TcpState.split)

lemma addrs_updates [simp]:
  "addrs (tc_state_update f1 c) = addrs c" "addrs (tc_snd_una_update f2 c) = addrs c"
  "addrs (tc_snd_nxt_update f3 c) = addrs c" "addrs (tc_snd_wnd_update f4 c) = addrs c"
  "addrs (tc_rcv_nxt_update f5 c) = addrs c" "addrs (tc_peer_mss_update f6 c) = addrs c"
  "addrs (tc_tx_buffer_update f7 c) = addrs c" "addrs (tc_ooo_segments_update f8 c) = addrs c"
  "addrs (tc_retransmit_queue_update f9 c) = addrs c" "addrs (tc_congestion_update f10 c) = addrs c"
  "addrs (tc_rtt_update f11 c) = addrs c" "addrs (tc_stats_update f12 c) = addrs c"
  "addrs (tc_current_time_ms_update f13 c) = addrs c" "addrs (tc_fin_sent_update f14 c) = addrs c"
  "addrs (tc_close_requested_update f15 c) = addrs c" "addrs (tc_persist_deadline_ms_update f16 c) = addrs c"
  "addrs (tc_last_advertised_wnd_update f17 c) = addrs c" "addrs (tc_sack_permitted_update f18 c) = addrs c"
  "addrs (tc_peer_sack_permitted_update f19 c) = addrs c" "addrs (tc_last_ack_sent_update f20 c) = addrs c"
  by (simp_all add: addrs_def)

lemma drain_pass_addrs [simp]: "addrs (snd (snd (drain_pass todo c))) = addrs c"
  by (induction todo c rule: drain_pass.induct) (auto simp: Let_def split_beta)

lemma drain_ooo_addrs [simp]: "addrs (drain_ooo c) = addrs c"
proof (induction c rule: drain_ooo.induct)
  case (1 c)
  obtain kept adv c1 where d: "drain_pass (tc_ooo_segments c) c = (kept, adv, c1)" by (metis prod_cases3)
  with drain_pass_addrs [of "tc_ooo_segments c" c] have "addrs c1 = addrs c" by simp
  then show ?case using 1 [OF d [symmetric] refl refl refl]
    by (subst drain_ooo.simps) (simp add: d Let_def)
qed

lemma accept_data_addrs [simp]: "addrs (accept_data s p c) = addrs c"
  by (simp add: accept_data_def accept_window_def Let_def)

lemma fold_scan_addrs [simp]: "addrs (snd (fold scan_option opts x)) = addrs (snd x)"
proof (induction opts arbitrary: x)
  case (Cons opt opts)
  have marks: "addrs (fold mark_sacked blocks c) = addrs c" for blocks c
    by (induction blocks arbitrary: c) simp_all
  have "addrs (snd (scan_option opt x)) = addrs (snd x)" by (cases x; cases opt) (simp_all add: marks)
  then show ?case using Cons.IH [of "scan_option opt x"] by simp
qed simp

lemma prologue_addrs [simp]: "addrs (snd (receive_prologue seg t c)) = addrs c"
  by (simp add: receive_prologue_def Let_def split_beta)

text \<open>A result whose connection, if there is one, has the addresses of \<open>c0\<close>.\<close>

definition stays :: "TcpConnection \<Rightarrow> ('a \<times> TcpConnection) may_panic \<Rightarrow> bool" where
  "stays c0 r \<longleftrightarrow> (\<forall>x c. r = Some (x, c) \<longrightarrow> addrs c = addrs c0)"

lemma stays_Some [simp]: "stays c0 (Some (x, c)) \<longleftrightarrow> addrs c = addrs c0"
  by (simp add: stays_def)

lemma stays_bind:
  "stays c0 r \<Longrightarrow> (\<And>x c. addrs c = addrs c0 \<Longrightarrow> stays c0 (f (x, c))) \<Longrightarrow> stays c0 (Option.bind r f)"
  unfolding stays_def bind_eq_Some_conv by (metis surj_pair)

lemma stays_serialize: "(\<And>pkt. stays c0 (f pkt)) \<Longrightarrow> stays c0 (Option.bind (conn_serialize c s a fl w opts p) f)"
  by (cases "conn_serialize c s a fl w opts p") (auto simp: stays_def)

lemma stays_basic:
  assumes "addrs c = addrs c0"
  shows "stays c0 (build_ack c)" "stays c0 (reply_ack c)" "stays c0 (retransmit_oldest t fast c)"
    "stays c0 (send_chunk n f t c)" "stays c0 (emit_fin t c)" "stays c0 (send_loop t c)"
proof -
  show ack: "stays c0 (build_ack c)"
    using assms by (auto simp: build_ack_def Let_def intro!: stays_serialize)
  then show "stays c0 (reply_ack c)" by (auto simp: reply_ack_def intro!: stays_bind)
  show "stays c0 (retransmit_oldest t fast c)"
    using assms by (auto simp: retransmit_oldest_def Let_def intro!: stays_serialize split: option.split)
  have chunk: "stays c0 (send_chunk n f t c)" if "addrs c = addrs c0" for n f t c
    using that by (auto simp: send_chunk_def Let_def intro!: stays_serialize)
  show "stays c0 (send_chunk n f t c)" by (rule chunk [OF assms])
  show "stays c0 (emit_fin t c)" using assms by (auto simp: emit_fin_def Let_def intro!: stays_serialize)
  have "addrs c' = addrs c0" if "send_loop t c = Some (ps, c')" for ps c'
  proof (rule send_loop_preserves [OF that, where P = "\<lambda>c. addrs c = addrs c0"])
    show "addrs c'' = addrs c0" if "addrs c' = addrs c0"
      "send_chunk (chunk_size c') (flags_ack\<lparr> tf_psh := True \<rparr>) t c' = Some (p, c'')" for t c' p c''
      using chunk [OF that(1), of "chunk_size c'" "flags_ack\<lparr> tf_psh := True \<rparr>" t] that(2)
      by (simp only: stays_Some)
  qed (rule assms)
  then show "stays c0 (send_loop t c)" by (simp add: stays_def)
qed

lemma process_ack_addrs:
  assumes "process_ack seg t c = Some (early, resp, c')"
  shows "addrs c' = addrs c"
proof -
  have "addrs c1 = addrs c" if "reply_ack (count_invalid c) = Some (r, c1)" for r c1
    using that stays_basic(2) [of "count_invalid c" c] by (simp add: stays_def)
  moreover have "addrs c1 = addrs c" if "retransmit_oldest t True c2 = Some (r, c1)" "addrs c2 = addrs c" for r c1 c2
    using that stays_basic(3) [of c2 c t True] by (simp add: stays_def)
  ultimately show ?thesis
    using assms
    by (auto simp: process_ack_def Let_def split_beta bind_eq_Some_conv split: if_splits)
qed

lemma stays_in_state:
  assumes "addrs c = addrs c0"
  shows "stays c0 (handle_in_state seg t c)"
proof -
  have listen: "stays c0 (handle_listen seg t c)"
    using assms by (auto simp: handle_listen_def Let_def intro!: stays_serialize)
  have syn_sent: "stays c0 (handle_syn_sent seg t c)"
    using assms by (auto simp: handle_syn_sent_def Let_def intro!: stays_serialize)
  have syn_received: "stays c0 (handle_syn_received seg t c)"
    using assms by (auto simp: handle_syn_received_def Let_def intro!: stays_basic)
  have time_wait: "stays c0 (handle_time_wait seg c)"
    using assms by (auto simp: handle_time_wait_def intro!: stays_serialize)
  have close_wait: "stays c0 (handle_close_wait seg t c)"
    using assms by (auto simp: handle_close_wait_def Let_def intro!: stays_basic)
  have data: "stays c0 (handle_data_state seg t c)"
  proof (cases "process_ack seg t c")
    case (Some r)
    obtain early resp c1 where r: "r = (early, resp, c1)" by (cases r) auto
    then have c1: "addrs c1 = addrs c0" using process_ack_addrs [of seg t c early resp c1] Some assms by simp
    then show ?thesis
      using Some r
      by (auto simp: handle_data_state_def Let_def split_beta intro!: stays_bind stays_basic)
  qed (simp add: handle_data_state_def stays_def)
  show ?thesis
    using assms listen syn_sent syn_received time_wait close_wait data
    by (cases "tc_state c") (simp_all add: handle_in_state_def)
qed

lemma stays_segment: "stays c (handle_segment_at seg t c)"
proof -
  obtain ts c1 where p: "receive_prologue seg t c = (ts, c1)" by fastforce
  then have "addrs c1 = addrs c" using prologue_addrs [of seg t c] by simp
  then show ?thesis
    using p by (auto simp: handle_segment_at_def dispatch_segment_def Let_def intro!: stays_in_state stays_basic
        split: option.split)
qed

lemma stays_poll: "addrs c = addrs c0 \<Longrightarrow> stays c0 (poll_output t c)"
proof -
  assume c: "addrs c = addrs c0"
  have parts: "stays c0 (poll_send t c)" "stays c0 (poll_fin t c)" "stays c0 (poll_retransmit t c)"
    "stays c0 (poll_window_update c)" "stays c0 (poll_probe s t c)" if "addrs c = addrs c0" for c s
    using that
    by (auto simp: poll_send_def poll_fin_def poll_retransmit_def poll_window_update_def poll_probe_def
        Let_def intro!: stays_basic stays_bind split: option.splits)
  show ?thesis using c by (auto simp: poll_output_def Let_def intro!: stays_bind parts)
qed

lemma conn_step_addrs:
  assumes "conn_step ev c = Some (out, acc, ps, c')"
  shows "addrs c' = addrs c"
proof (cases ev)
  case (EvSegment seg t)
  then show ?thesis using assms stays_segment [of c seg t] by (auto simp: bind_eq_Some_conv stays_def)
next
  case (EvPoll t)
  then show ?thesis using assms stays_poll [of c c t] by (auto simp: bind_eq_Some_conv stays_def)
next
  case (EvClose t)
  have "stays c (initiate_close_at t c)" by (auto simp: initiate_close_at_def Let_def intro!: stays_basic)
  then show ?thesis using assms EvClose by (auto simp: bind_eq_Some_conv stays_def)
next
  case (EvSend data t)
  have "stays c (send_data_at data t c)"
    by (auto simp: send_data_at_def Let_def intro!: stays_bind stays_poll)
  then show ?thesis using assms EvSend by (auto simp: bind_eq_Some_conv stays_def)
next
  case (EvWrite data)
  then show ?thesis using assms addrs_counts(21) [of data c] by (simp add: split_beta)
next
  case (EvRead n)
  then show ?thesis using assms addrs_counts(20) [of n c] by (simp add: split_beta)
qed

text \<open>Each connection of a manager is stored under its own addresses.\<close>

lemma mgr_run_addrs:
  assumes "mgr_run adm m L" "hm_get (mgr_connections m) k = Some c"
  shows "addrs c = (key_local k, key_remote k)"
  using assms
proof (induction arbitrary: k c rule: mgr_run.induct)
  case init
  then show ?case by (simp add: manager_new_def)
next
  case (step m L ev m')
  have client: "addrs c = (local, remote)" if "initiate_syn_at t (new_client local remote isn) = Some (pkt, c)"
    for local remote isn t pkt c
    using that by (auto simp: initiate_syn_at_def Let_def bind_eq_Some_conv) (simp add: addrs_def new_client_def)
  have server: "addrs c = (l, r)" if "handle_segment_at seg t (new_server l r isn) = Some (p, c)" for seg t l r isn p c
    using that stays_segment [of "new_server l r isn" seg t] by (simp add: stays_def) (simp add: addrs_def new_server_def)
  have kept: "addrs c = (key_local k, key_remote k)"
    if "hm_get (mgr_connections m) k = Some c0" "case conn_events ev k m of [] \<Rightarrow> c = c0
       | cev # _ \<Rightarrow> \<exists>out acc ps. conn_step cev c0 = Some (out, acc, ps, c)" for c0
    using that(2) step.IH [OF that(1)] by (cases "conn_events ev k m") (auto dest!: conn_step_addrs)
  from mgr_step_conn [OF step.hyps(2) step.prems] show ?case
    by (elim disjE exE conjE) (simp add: client, rule server, assumption, rule kept)
qed

section \<open>Each connection of a manager runs alone\<close>

text \<open>C13: the manager refines independent connections: whatever the interleaving of listens,
  connects, segments from any hosts, timers, sends, closes, reads and writes, the connection it
  holds for a four-tuple is in a state of a run of that one connection, with exactly the bytes its
  own application read and wrote, and its addresses are those of the four-tuple.\<close>
theorem manager_refines_connections:
  assumes "mgr_run adm m L" and "get_connection local remote m = Some c"
  shows "tc_local c = local \<and> tc_remote c = remote \<and>
    (\<exists>isn. conn_run (adm \<lparr> key_local = local, key_remote = remote \<rparr>) isn c
       (fst (L \<lparr> key_local = local, key_remote = remote \<rparr>))
       (snd (L \<lparr> key_local = local, key_remote = remote \<rparr>)))"
  using mgr_run_conn [OF assms(1)] mgr_run_addrs [OF assms(1)] assms(2)
  by (fastforce simp: get_connection_def addrs_def)

text \<open>A server that accepts a connection, receives three bytes and reads two.\<close>

definition demo_key :: TcpConnectionKey where
  "demo_key = \<lparr> key_local = \<lparr> sock_ip = O4 10 0 0 1, sock_port = 80 \<rparr>,
                key_remote = \<lparr> sock_ip = O4 10 0 0 2, sock_port = 9 \<rparr> \<rparr>"

lemma demo_manager_run:
  "\<exists>m L c. mgr_run (\<lambda>k. genuine 100 [1, 2, 3, 4]) m L \<and>
     get_connection (key_local demo_key) (key_remote demo_key) m = Some c \<and>
     fst (L demo_key) = [1, 2] \<and> tc_rx_buffer c = [3]"
proof -
  let ?adm = "\<lambda>k :: TcpConnectionKey. genuine 100 [1, 2, 3, 4]"
  let ?c0 = "new_server (key_local demo_key) (key_remote demo_key) 1000"
  let ?syn = "demo_segment flags_syn 100 0 []" and ?data = "demo_segment flags_ack 101 1001 [1, 2, 3]"
  let ?a = "O4 10 0 0 2" and ?b = "O4 10 0 0 1"
  have key: "segment_key ?a ?b (demo_segment f s k p) = demo_key" for f s k p
    by (simp add: segment_key_def demo_key_def demo_segment_def)
  have syn: "seg_dst_port ?syn = 80" "tf_syn (seg_flags ?syn)" "genuine 100 [1, 2, 3, 4] 0 ?syn"
    by (simp_all add: demo_segment_def flags_syn_def no_flags_def genuine_def)
  have nt: "no_timestamp ?syn" "no_timestamp ?data" by (simp_all add: no_timestamp_def demo_segment_def)
  have "\<not> tc_ts_enabled ?c0" by (simp add: new_server_def)
  from calm_segment [OF this nt(1), of 0] obtain p1 c1 where c1: "handle_segment_at ?syn 0 ?c0 = Some (p1, c1)"
    by (auto simp: calm_def)
  note f1 = demo_syn [OF c1]
  obtain p2 c2 where c2: "handle_segment_at ?data 5 c1 = Some (p2, c2)"
    using calm_segment [OF f1(7) nt(2), of 5] by (auto simp: calm_def)
  have rx2: "tc_rx_buffer c2 = [1, 2, 3]" by (rule demo_data [OF c2 f1])
  obtain c3 where c3: "tcp_read 2 c2 = ([1, 2], c3)" "tc_rx_buffer c3 = [3]"
    using rx2 by (simp add: tcp_read_def Let_def)
  let ?m1 = "listen 80 manager_new"
  let ?m2 = "\<lparr> mgr_listeners = [(80, 2000)], mgr_connections = [(demo_key, c1)], mgr_current_time_ms = 0 \<rparr>"
  let ?m3 = "?m2\<lparr> mgr_connections := [(demo_key, c2)], mgr_current_time_ms := 5 \<rparr>"
  let ?m4 = "?m3\<lparr> mgr_connections := [(demo_key, c3)] \<rparr>"
  obtain L1 where r1: "mgr_run ?adm ?m1 L1" using mgr_run.step [OF mgr_run.init, of "MListen 80"] by auto
  have "mgr_step (MSegment ?a ?b ?syn 0) ?m1 = Some ?m2"
    using c1 by (simp add: process_segment_at_def key syn listen_def manager_new_def Let_def)
  then obtain L2 where r2: "mgr_run ?adm ?m2 L2" and L2: "L2 demo_key = ([], [])"
    using mgr_run.step [OF r1, of "MSegment ?a ?b ?syn 0" ?m2]
    by (auto simp: key syn listen_def manager_new_def app_log_def)
  have "genuine 100 [1, 2, 3, 4] 0 ?data"
    by (auto simp: genuine_def demo_segment_def flags_ack_def no_flags_def slice_at_def intro!: exI [of _ 0])
  moreover have "mgr_step (MSegment ?a ?b ?data 5) ?m2 = Some ?m3"
    using c2 by (simp add: process_segment_at_def key Let_def)
  ultimately obtain L3 where r3: "mgr_run ?adm ?m3 L3" and L3: "L3 demo_key = ([], [])"
    using mgr_run.step [OF r2, of "MSegment ?a ?b ?data 5" ?m3] f1(4) L2 c2
    by (auto simp: key app_log_def)
  have "mgr_step (MRead demo_key 2) ?m3 = Some ?m4"
    using c3 by (simp add: get_connection_mut_def)
  from mgr_run.step [OF r3 this] L3 c3 show ?thesis
    by (intro exI [of _ ?m4] exI [of _ "\<lambda>k. app_log (MRead demo_key 2) ?m3 k (L3 k)"] exI [of _ c3])
       (simp add: app_log_def get_connection_def)
qed

theorem manager_refines_connections_witness:
  "\<exists>m L c. mgr_run (\<lambda>k. genuine 100 [1, 2, 3, 4]) m L \<and>
     get_connection (key_local demo_key) (key_remote demo_key) m = Some c \<and> tc_local c = key_local demo_key \<and>
     (\<exists>isn. conn_run (genuine 100 [1, 2, 3, 4]) isn c [1, 2] (snd (L demo_key)))"
proof -
  obtain m L c where c: "mgr_run (\<lambda>k. genuine 100 [1, 2, 3, 4]) m L"
    "get_connection (key_local demo_key) (key_remote demo_key) m = Some c" "fst (L demo_key) = [1, 2]"
    using demo_manager_run by blast
  from manager_refines_connections [OF c(1,2)] c show ?thesis by fastforce
qed

text \<open>C12: every connection of a manager delivers its own peer's stream: with any number of
  connections at once, what the application of a four-tuple has read, followed by its receive
  buffer, is a prefix of the stream the peer of that four-tuple sent; nothing leaks from one
  connection to another.\<close>
theorem managed_stream_delivered:
  assumes "mgr_run (\<lambda>k. genuine (irs k) (S k)) m L" and "get_connection local remote m = Some c"
    and "k = \<lparr> key_local = local, key_remote = remote \<rparr>"
  shows "\<exists>n \<le> length (S k). fst (L k) @ tc_rx_buffer c = take n (S k) \<and>
    (tc_fin_received c \<longrightarrow> fst (L k) @ tc_rx_buffer c = S k)"
proof -
  obtain isn where "conn_run (genuine (irs k) (S k)) isn c (fst (L k)) (snd (L k))"
    using mgr_run_conn [OF assms(1), of k c] assms(2,3) by (auto simp: get_connection_def)
  from peer_conn.rx_inv_run [OF this] show ?thesis
    by (auto simp: peer_conn.rx_inv_def Let_def prefix_upto_def)
qed

theorem managed_stream_delivered_witness:
  "\<exists>m L c. mgr_run (\<lambda>k. genuine 100 [1, 2, 3, 4]) m L \<and>
     get_connection (key_local demo_key) (key_remote demo_key) m = Some c \<and> tc_rx_buffer c = [3] \<and>
     (\<exists>n \<le> length [1, 2, 3, 4 :: u8]. fst (L demo_key) @ tc_rx_buffer c = take n [1, 2, 3, 4])"
proof -
  obtain m L c where c: "mgr_run (\<lambda>k. genuine 100 [1, 2, 3, 4]) m L"
    "get_connection (key_local demo_key) (key_remote demo_key) m = Some c" "tc_rx_buffer c = [3]"
    using demo_manager_run by blast
  from managed_stream_delivered [OF c(1,2) key_collapse [symmetric]] c show ?thesis by blast
qed

end
