(* ===== verification/TcpHandshake.thy ===== *)
theory TcpHandshake
  imports TcpManager
begin

text \<open>
  Two managers on the two ends of a wire: the three-way handshake through \<open>connect\<close>,
  \<open>process_segment_at\<close>, the serializer and the checksum-verifying parser, and the refusal of a
  segment for a closed port.
\<close>

section \<open>The handshake\<close>

lemma conn_serialize_parse:
  assumes "\<forall>opt \<in> set opts. option_ok opt" "length (concat (map option_enc opts)) \<le> 40" "length p \<le> 65475"
  shows "\<exists>buf seg. conn_serialize c s a f w opts p = Some buf \<and>
    tcp_parse (sock_ip (tc_local c)) (sock_ip (tc_remote c)) buf True = Inr seg \<and>
    seg_src_port seg = sock_port (tc_local c) \<and> seg_dst_port seg = sock_port (tc_remote c) \<and>
    seg_seq_num seg = s \<and> seg_ack_num seg = a \<and> seg_flags seg = f \<and> seg_window_size seg = w \<and>
    seg_options seg = opts @ replicate (option_padding opts) Nop \<and> seg_payload seg = p"
  using segment_parse_serialize [OF assms, of "sock_ip (tc_local c)" "sock_ip (tc_remote c)"
      "sock_port (tc_local c)" "sock_port (tc_remote c)" s a f w]
  unfolding conn_serialize_def serialize_with_options_def by fastforce

text \<open>The options of the SYN and of its answer.\<close>

lemma syn_options:
  "\<forall>opt \<in> set [Mss m, SackPermitted]. option_ok opt"
  "length (concat (map option_enc [Mss m, SackPermitted])) \<le> 40"
  "[Mss m, SackPermitted] @ replicate (option_padding [Mss m, SackPermitted]) Nop = [Mss m, SackPermitted, Nop, Nop]"
  by (simp_all add: option_padding_def numeral_2_eq_2)

lemma client_syn:
  "\<exists>syn seg c. initiate_syn_at t (new_client a b isn) = Some (syn, c) \<and>
     tcp_parse (sock_ip a) (sock_ip b) syn True = Inr seg \<and>
     seg_src_port seg = sock_port a \<and> seg_dst_port seg = sock_port b \<and> seg_seq_num seg = isn \<and>
     seg_flags seg = flags_syn \<and> seg_options seg = [Mss 1460, SackPermitted, Nop, Nop] \<and>
     seg_payload seg = [] \<and> tc_local c = a \<and> tc_remote c = b \<and> tc_state c = SynSent \<and>
     tc_snd_una c = isn \<and> tc_snd_nxt c = isn + 1 \<and> \<not> tc_ts_enabled c \<and>
     (\<exists>e. tc_retransmit_queue c = [e] \<and> rs_end_seq e = isn + 1) \<and>
     tc_rx_buffer c = [] \<and> tc_tx_buffer c = [] \<and> tc_ooo_segments c = [] \<and> tc_rcv_capacity c = 65535"
proof -
  let ?c = "(new_client a b isn)\<lparr> tc_current_time_ms := t, tc_state := SynSent, tc_snd_nxt := isn + 1 \<rparr>"
  obtain buf seg where "conn_serialize ?c isn 0 flags_syn (current_rcv_wnd ?c) [Mss 1460, SackPermitted] [] = Some buf"
    "tcp_parse (sock_ip a) (sock_ip b) buf True = Inr seg"
    "seg_src_port seg = sock_port a" "seg_dst_port seg = sock_port b" "seg_seq_num seg = isn"
    "seg_flags seg = flags_syn" "seg_options seg = [Mss 1460, SackPermitted, Nop, Nop]" "seg_payload seg = []"
    using conn_serialize_parse [OF syn_options(1,2), of "[]" ?c isn 0 flags_syn "current_rcv_wnd ?c" 1460]
    unfolding syn_options(3) by (auto simp: new_client_def)
  then show ?thesis
    by (simp add: initiate_syn_at_def Let_def new_client_def count_segment_sent_def track_for_retransmit_def)
qed

lemma server_syn_ack:
  assumes seg: "seg_seq_num seg = isn" "seg_flags seg = flags_syn"
    "seg_options seg = [Mss 1460, SackPermitted, Nop, Nop]" "seg_payload seg = []"
  shows "\<exists>syn_ack seg' c. handle_segment_at seg t (new_server b a isn') = Some (Some syn_ack, c) \<and>
     tcp_parse (sock_ip b) (sock_ip a) syn_ack True = Inr seg' \<and>
     seg_src_port seg' = sock_port b \<and> seg_dst_port seg' = sock_port a \<and> seg_seq_num seg' = isn' \<and>
     seg_ack_num seg' = isn + 1 \<and> seg_flags seg' = flags_syn_ack \<and>
     seg_options seg' = [Mss 1460, SackPermitted, Nop, Nop] \<and> seg_payload seg' = [] \<and>
     tc_state c = SynReceived \<and> tc_snd_una c = isn' \<and> tc_snd_nxt c = isn' + 1 \<and> tc_rcv_nxt c = isn + 1 \<and>
     \<not> tc_ts_enabled c \<and> (\<exists>e. tc_retransmit_queue c = [e] \<and> rs_end_seq e = isn' + 1) \<and>
     tc_sack_permitted c \<and> tc_rx_buffer c = [] \<and> tc_tx_buffer c = [] \<and> tc_ooo_segments c = [] \<and>
     tc_rcv_capacity c = 65535 \<and> tc_peer_mss c = 1460"
proof -
  define c0 where "c0 = snd (receive_prologue seg t (new_server b a isn'))"
  define c1 where "c1 = c0
    \<lparr> tc_rcv_nxt := isn + 1, tc_snd_wnd := seg_window_size seg, tc_snd_nxt := isn' + 1, tc_state := SynReceived \<rparr>"
  note prologue = receive_prologue_def Let_def negotiate_timestamps_def seg synchronized_def flags_syn_def
    no_flags_def new_server_def
  have f: "tc_local c1 = b" "tc_remote c1 = a" "tc_snd_una c1 = isn'" "tc_snd_nxt c1 = isn' + 1"
    "tc_rcv_nxt c1 = isn + 1" "\<not> tc_ts_enabled c1" "tc_retransmit_queue c1 = []" "tc_state c1 = SynReceived"
    "tc_rx_buffer c1 = []" "tc_tx_buffer c1 = []" "tc_ooo_segments c1 = []" "tc_rcv_capacity c1 = 65535"
    "tc_local_mss c1 = 1460" "tc_peer_sack_permitted c1" "tc_sack_permitted c1" "tc_peer_mss c1 = 1460"
    by (simp_all add: c1_def c0_def prologue)
  obtain buf seg' where p: "conn_serialize c1 isn' (isn + 1) flags_syn_ack (current_rcv_wnd c1)
      [Mss 1460, SackPermitted] [] = Some buf"
    "tcp_parse (sock_ip b) (sock_ip a) buf True = Inr seg'"
    "seg_src_port seg' = sock_port b" "seg_dst_port seg' = sock_port a" "seg_seq_num seg' = isn'"
    "seg_ack_num seg' = isn + 1" "seg_flags seg' = flags_syn_ack"
    "seg_options seg' = [Mss 1460, SackPermitted, Nop, Nop]" "seg_payload seg' = []"
    using conn_serialize_parse [OF syn_options(1,2), of "[]" c1 isn' "isn + 1" flags_syn_ack "current_rcv_wnd c1" 1460]
    unfolding syn_options(3) f by auto
  have start: "receive_prologue seg t (new_server b a isn') = (None, c0)" "tc_state c0 = Listen"
    "tc_snd_nxt c0 = isn'" "tc_local_mss c0 = 1460" "tc_peer_sack_permitted c0" "\<not> tc_ts_enabled c0"
    by (simp_all add: c0_def prologue)
  have "handle_segment_at seg t (new_server b a isn') = Some (Some buf, count_segment_sent
      ((track_for_retransmit isn' 1 flags_syn_ack [] t c1)\<lparr> tc_last_ack_sent := isn + 1 \<rparr>))"
    using f p(1) start
    by (simp add: handle_segment_at_def dispatch_segment_def handle_in_state_def handle_listen_def
        Let_def seg(1,2) flags_syn_def no_flags_def flip: c1_def)
  then show ?thesis
    using p f by (simp add: count_segment_sent_def track_for_retransmit_def)
qed

lemma acknowledge_all:
  assumes "tc_retransmit_queue c = [e]" "rs_end_seq e = ackn"
  shows "tc_retransmit_queue (acknowledge ackn t c) = []" "tc_snd_una (acknowledge ackn t c) = ackn"
    "tc_snd_nxt (acknowledge ackn t c) = tc_snd_nxt c" "tc_tx_buffer (acknowledge ackn t c) = tc_tx_buffer c"
    "tc_sack_permitted (acknowledge ackn t c) = tc_sack_permitted c"
    "tc_peer_mss (acknowledge ackn t c) = tc_peer_mss c"
  using assms by (simp_all add: acknowledge_def retire_acked_def Let_def seq_defs)

lemma client_ack:
  assumes c: "tc_local c = a" "tc_remote c = b" "tc_state c = SynSent" "tc_snd_nxt c = isn + 1"
      "tc_retransmit_queue c = [e]" "rs_end_seq e = isn + 1" "tc_rx_buffer c = []" "tc_tx_buffer c = []"
      "tc_ooo_segments c = []" "tc_rcv_capacity c = 65535" "\<not> tc_ts_enabled c"
    and seg: "seg_seq_num seg = isn'" "seg_ack_num seg = isn + 1" "seg_flags seg = flags_syn_ack"
      "seg_options seg = [Mss 1460, SackPermitted, Nop, Nop]" "seg_payload seg = []"
  shows "\<exists>ack seg' c'. handle_segment_at seg t c = Some (Some ack, c') \<and>
     tcp_parse (sock_ip a) (sock_ip b) ack True = Inr seg' \<and>
     seg_src_port seg' = sock_port a \<and> seg_dst_port seg' = sock_port b \<and> seg_seq_num seg' = isn + 1 \<and>
     seg_ack_num seg' = isn' + 1 \<and> seg_flags seg' = flags_ack \<and> seg_options seg' = [] \<and> seg_payload seg' = [] \<and>
     tc_state c' = Established \<and> tc_snd_una c' = isn + 1 \<and> tc_snd_nxt c' = isn + 1 \<and> tc_rcv_nxt c' = isn' + 1 \<and>
     tc_retransmit_queue c' = [] \<and> tc_rx_buffer c' = [] \<and> tc_tx_buffer c' = [] \<and> tc_sack_permitted c' \<and>
     tc_peer_mss c' = 1460"
proof -
  define c0 where "c0 = snd (receive_prologue seg t c)"
  define c1 where "c1 = acknowledge (isn + 1) t
    (c0\<lparr> tc_rcv_nxt := isn' + 1, tc_snd_wnd := seg_window_size seg, tc_state := Established \<rparr>)"
  note prologue = receive_prologue_def Let_def negotiate_timestamps_def seg synchronized_def flags_syn_ack_def
    no_flags_def c
  have f0: "receive_prologue seg t c = (None, c0)" "tc_local c0 = a" "tc_remote c0 = b" "tc_state c0 = SynSent"
    "tc_snd_nxt c0 = isn + 1" "tc_retransmit_queue c0 = [e]" "tc_rx_buffer c0 = []" "tc_tx_buffer c0 = []"
    "tc_ooo_segments c0 = []" "tc_rcv_capacity c0 = 65535" "tc_sack_permitted c0" "tc_peer_mss c0 = 1460"
    by (simp_all add: c0_def prologue)
  have f: "tc_snd_una c1 = isn + 1" "tc_snd_nxt c1 = isn + 1" "tc_rcv_nxt c1 = isn' + 1" "tc_retransmit_queue c1 = []"
    "tc_state c1 = Established" "tc_rx_buffer c1 = []" "tc_tx_buffer c1 = []" "tc_sack_permitted c1"
    "tc_peer_mss c1 = 1460" "tc_local c1 = a" "tc_remote c1 = b"
    using f0 c(6) acknowledge_all [of "c0\<lparr> tc_rcv_nxt := isn' + 1, tc_snd_wnd := seg_window_size seg, tc_state := Established \<rparr>" e "isn + 1" t]
      addrs_counts(6) [of "isn + 1" t "c0\<lparr> tc_rcv_nxt := isn' + 1, tc_snd_wnd := seg_window_size seg, tc_state := Established \<rparr>"]
    by (simp_all add: c1_def addrs_def)
  obtain buf seg' where p: "conn_serialize c1 (isn + 1) (isn' + 1) flags_ack (current_rcv_wnd c1) [] [] = Some buf"
    "tcp_parse (sock_ip a) (sock_ip b) buf True = Inr seg'"
    "seg_src_port seg' = sock_port a" "seg_dst_port seg' = sock_port b" "seg_seq_num seg' = isn + 1"
    "seg_ack_num seg' = isn' + 1" "seg_flags seg' = flags_ack" "seg_options seg' = []" "seg_payload seg' = []"
    using conn_serialize_parse [of "[]" "[]" c1 "isn + 1" "isn' + 1" flags_ack "current_rcv_wnd c1"]
    by (auto simp: f option_padding_def)
  have "handle_segment_at seg t c = Some (Some buf, count_segment_sent (c1\<lparr> tc_last_ack_sent := isn' + 1 \<rparr>))"
    using f p(1) f0
    by (simp add: handle_segment_at_def dispatch_segment_def handle_in_state_def handle_syn_sent_def
        Let_def seg(1-3) flags_syn_ack_def no_flags_def flip: c1_def)
  then show ?thesis using p f by (simp add: count_segment_sent_def)
qed

lemma server_established:
  assumes c: "tc_state c = SynReceived" "tc_snd_nxt c = isn' + 1" "tc_retransmit_queue c = [e]" "rs_end_seq e = isn' + 1"
      "\<not> tc_ts_enabled c" and seg: "seg_ack_num seg = isn' + 1" "seg_flags seg = flags_ack"
      "seg_options seg = []" "seg_payload seg = []"
  shows "\<exists>c'. handle_segment_at seg t c = Some (None, c') \<and> tc_state c' = Established \<and>
     tc_snd_una c' = isn' + 1 \<and> tc_snd_nxt c' = isn' + 1 \<and> tc_rcv_nxt c' = tc_rcv_nxt c \<and>
     tc_retransmit_queue c' = [] \<and> tc_rx_buffer c' = tc_rx_buffer c \<and> tc_tx_buffer c' = tc_tx_buffer c \<and>
     tc_sack_permitted c' = tc_sack_permitted c \<and> tc_peer_mss c' = tc_peer_mss c"
  using c seg
    acknowledge_all [of "(snd (receive_prologue seg t c))\<lparr> tc_snd_wnd := seg_window_size seg, tc_state := Established \<rparr>" e "isn' + 1" t]
  by (simp add: handle_segment_at_def receive_prologue_def Let_def negotiate_timestamps_def dispatch_segment_def
      handle_in_state_def handle_syn_received_def flags_ack_def no_flags_def)

text \<open>C14: the three-way handshake completes: a client manager that connects to a listening port of
  a server manager, with the packets of both carried as bytes and parsed with checksum
  verification, ends with both connections established, each end expecting the sequence number the
  other will use next, nothing left to retransmit, and the SACK option agreed; no step panics.\<close>
theorem handshake_establishes:
  assumes "hm_get (mgr_listeners mb) (sock_port b) = Some isn'"
    and "get_connection b a mb = None"
  shows "\<exists>syn s1 syn_ack s2 ack s3 ma1 mb1 ma2 mb2 ca cb.
    connect a b isn ma = Some (syn, ma1) \<and>
    tcp_parse (sock_ip a) (sock_ip b) syn True = Inr s1 \<and>
    process_segment_at (sock_ip a) (sock_ip b) s1 t1 mb = Some (Some syn_ack, mb1) \<and>
    tcp_parse (sock_ip b) (sock_ip a) syn_ack True = Inr s2 \<and>
    process_segment_at (sock_ip b) (sock_ip a) s2 t2 ma1 = Some (Some ack, ma2) \<and>
    tcp_parse (sock_ip a) (sock_ip b) ack True = Inr s3 \<and>
    process_segment_at (sock_ip a) (sock_ip b) s3 t3 mb1 = Some (None, mb2) \<and>
    get_connection a b ma2 = Some ca \<and> get_connection b a mb2 = Some cb \<and>
    tc_state ca = Established \<and> tc_state cb = Established \<and>
    tc_snd_nxt ca = isn + 1 \<and> tc_rcv_nxt cb = isn + 1 \<and> tc_snd_nxt cb = isn' + 1 \<and> tc_rcv_nxt ca = isn' + 1 \<and>
    tc_snd_una ca = isn + 1 \<and> tc_snd_una cb = isn' + 1 \<and>
    tc_retransmit_queue ca = [] \<and> tc_retransmit_queue cb = [] \<and> tc_sack_permitted ca \<and> tc_sack_permitted cb"
proof -
  have key: "segment_key (sock_ip x) (sock_ip y) seg = \<lparr> key_local = y, key_remote = x \<rparr>"
    if "seg_src_port seg = sock_port x" "seg_dst_port seg = sock_port y" for seg x y
    using that by (simp add: segment_key_def)
  obtain syn s1 c1 e where c1: "initiate_syn_at (mgr_current_time_ms ma) (new_client a b isn) = Some (syn, c1)"
    "tc_local c1 = a" "tc_remote c1 = b" "tc_state c1 = SynSent" "tc_snd_nxt c1 = isn + 1"
    "tc_retransmit_queue c1 = [e]" "rs_end_seq e = isn + 1" "tc_rx_buffer c1 = []" "tc_tx_buffer c1 = []"
    "tc_ooo_segments c1 = []" "tc_rcv_capacity c1 = 65535" "\<not> tc_ts_enabled c1"
    and s1: "tcp_parse (sock_ip a) (sock_ip b) syn True = Inr s1" "seg_src_port s1 = sock_port a"
    "seg_dst_port s1 = sock_port b" "seg_seq_num s1 = isn" "seg_flags s1 = flags_syn"
    "seg_options s1 = [Mss 1460, SackPermitted, Nop, Nop]" "seg_payload s1 = []"
    using client_syn [of "mgr_current_time_ms ma" a b isn] by auto
  obtain syn_ack s2 d1 e' where d1: "handle_segment_at s1 t1 (new_server b a isn') = Some (Some syn_ack, d1)"
    "tc_state d1 = SynReceived" "tc_snd_nxt d1 = isn' + 1" "tc_retransmit_queue d1 = [e']" "rs_end_seq e' = isn' + 1"
    "\<not> tc_ts_enabled d1" "tc_rcv_nxt d1 = isn + 1" "tc_sack_permitted d1"
    and s2: "tcp_parse (sock_ip b) (sock_ip a) syn_ack True = Inr s2" "seg_src_port s2 = sock_port b"
    "seg_dst_port s2 = sock_port a" "seg_seq_num s2 = isn'" "seg_ack_num s2 = isn + 1" "seg_flags s2 = flags_syn_ack"
    "seg_options s2 = [Mss 1460, SackPermitted, Nop, Nop]" "seg_payload s2 = []"
    using server_syn_ack [OF s1(4-7), of t1 b a isn'] by auto
  obtain ack s3 c2 where c2: "handle_segment_at s2 t2 c1 = Some (Some ack, c2)" "tc_state c2 = Established"
    "tc_snd_una c2 = isn + 1" "tc_snd_nxt c2 = isn + 1" "tc_rcv_nxt c2 = isn' + 1" "tc_retransmit_queue c2 = []"
    "tc_sack_permitted c2"
    and s3: "tcp_parse (sock_ip a) (sock_ip b) ack True = Inr s3" "seg_src_port s3 = sock_port a"
    "seg_dst_port s3 = sock_port b" "seg_ack_num s3 = isn' + 1" "seg_flags s3 = flags_ack"
    "seg_options s3 = []" "seg_payload s3 = []"
    using client_ack [OF c1(2-) s2(4-8), of t2] by auto
  obtain d2 where d2: "handle_segment_at s3 t3 d1 = Some (None, d2)" "tc_state d2 = Established"
    "tc_snd_una d2 = isn' + 1" "tc_snd_nxt d2 = isn' + 1" "tc_rcv_nxt d2 = isn + 1" "tc_retransmit_queue d2 = []"
    "tc_sack_permitted d2"
    using server_established [OF d1(2-6) s3(4-7), of t3] d1(7,8) by auto
  note keys = key [OF s1(2,3)] key [OF s2(2,3)] key [OF s3(2,3)]
  show ?thesis
    using assms c1(1) d1(1) c2 d2 s1 s2(1) s3(1)
    by (simp add: connect_def process_segment_at_def get_connection_def keys Let_def hm_get_insert
        flags_syn_def no_flags_def)
qed

theorem handshake_establishes_witness:
  "\<exists>syn ma1 s1 syn_ack mb1 s2 ack ma2 ca.
    connect \<lparr> sock_ip = O4 10 0 0 2, sock_port = 9 \<rparr> \<lparr> sock_ip = O4 10 0 0 1, sock_port = 80 \<rparr> 7 manager_new = Some (syn, ma1) \<and>
    process_segment_at (O4 10 0 0 2) (O4 10 0 0 1) s1 5 (listen 80 manager_new) = Some (Some syn_ack, mb1) \<and>
    process_segment_at (O4 10 0 0 1) (O4 10 0 0 2) s2 6 ma1 = Some (Some ack, ma2) \<and>
    get_connection \<lparr> sock_ip = O4 10 0 0 2, sock_port = 9 \<rparr> \<lparr> sock_ip = O4 10 0 0 1, sock_port = 80 \<rparr> ma2 = Some ca \<and>
    tc_state ca = Established \<and> tc_rcv_nxt ca = 1001"
  using handshake_establishes [of "listen 80 manager_new" "\<lparr> sock_ip = O4 10 0 0 1, sock_port = 80 \<rparr>" 1000
      "\<lparr> sock_ip = O4 10 0 0 2, sock_port = 9 \<rparr>" 7 manager_new 5 6 7]
  by (fastforce simp: listen_def manager_new_def get_connection_def)

section \<open>Closed ports\<close>

text \<open>A segment for a four-tuple with no connection that is not a SYN to a listening port is
  refused: the manager's connections and listeners do not change, a RST is never answered, and any
  other segment is answered by one segment, to its sender, that parses with a correct checksum as
  the reset of RFC 793: with the sequence number the sender expects when it acknowledged something,
  and otherwise with sequence number zero and an acknowledgement of all it occupied.\<close>
theorem closed_port_refused:
  assumes "get_connection \<lparr> sock_ip = dst_ip, sock_port = seg_dst_port seg \<rparr>
      \<lparr> sock_ip = src_ip, sock_port = seg_src_port seg \<rparr> m = None"
    and "hm_get (mgr_listeners m) (seg_dst_port seg) = None \<or> \<not> tf_syn (seg_flags seg)"
  shows "\<exists>resp. process_segment_at src_ip dst_ip seg now_ms m =
      Some (resp, m\<lparr> mgr_current_time_ms := now_ms \<rparr>) \<and>
    (if tf_rst (seg_flags seg) then resp = None
     else \<exists>p rst. resp = Some p \<and> tcp_parse dst_ip src_ip p True = Inr rst \<and>
       seg_src_port rst = seg_dst_port seg \<and> seg_dst_port rst = seg_src_port seg \<and> seg_payload rst = [] \<and>
       tf_rst (seg_flags rst) \<and> \<not> tf_syn (seg_flags rst) \<and> \<not> tf_fin (seg_flags rst) \<and>
       (if tf_ack (seg_flags seg) then seg_seq_num rst = seg_ack_num seg \<and> \<not> tf_ack (seg_flags rst)
        else seg_seq_num rst = 0 \<and> tf_ack (seg_flags rst) \<and>
          seg_ack_num rst = seg_seq_num seg + (if tf_syn (seg_flags seg) \<or> tf_fin (seg_flags seg) then 1
                                               else of_nat (length (seg_payload seg)))))"
proof -
  have none: "hm_get (mgr_connections m) (segment_key src_ip dst_ip seg) = None"
    using assms(1) by (simp add: get_connection_def segment_key_def)
  obtain buf csum off where p: "tcp_serialize dst_ip src_ip sp dp s a f 0 [] = Some (buf sp dp s a f)"
    "tcp_parse dst_ip src_ip (buf sp dp s a f) True = Inr \<lparr> seg_src_port = sp, seg_dst_port = dp, seg_seq_num = s,
      seg_ack_num = a, seg_data_offset = off sp dp s a f, seg_flags = f, seg_window_size = 0,
      seg_checksum = csum sp dp s a f, seg_urgent_ptr = 0, seg_options = [], seg_payload = [] \<rparr>" for sp dp s a f
  proof -
    have "\<exists>buf csum off. tcp_serialize dst_ip src_ip sp dp s a f 0 [] = Some buf \<and>
      tcp_parse dst_ip src_ip buf True = Inr \<lparr> seg_src_port = sp, seg_dst_port = dp, seg_seq_num = s,
      seg_ack_num = a, seg_data_offset = off, seg_flags = f, seg_window_size = 0,
      seg_checksum = csum, seg_urgent_ptr = 0, seg_options = [], seg_payload = [] \<rparr>" for sp dp s a f
      using segment_parse_serialize [of "[]" "[]" dst_ip src_ip sp dp s a f 0]
      by (auto simp: tcp_serialize_def serialize_with_options_def option_padding_def)
    then show ?thesis using that by metis
  qed
  have "process_segment_at src_ip dst_ip seg now_ms m =
      do { resp \<leftarrow> refuse_segment src_ip dst_ip seg; Some (resp, m\<lparr> mgr_current_time_ms := now_ms \<rparr>) }"
    using none assms(2) by (auto simp: process_segment_at_def Let_def split: option.split)
  then show ?thesis
    using p by (simp add: Let_def refuse_segment_def flags_rst_def no_flags_def)
qed

theorem closed_port_refused_witness:
  "\<exists>resp. process_segment_at (O4 10 0 0 2) (O4 10 0 0 1) (demo_segment flags_syn 100 0 []) 5 manager_new =
     Some (Some resp, manager_new\<lparr> mgr_current_time_ms := 5 \<rparr>) \<and>
     (\<exists>rst. tcp_parse (O4 10 0 0 1) (O4 10 0 0 2) resp True = Inr rst \<and> tf_rst (seg_flags rst) \<and> seg_ack_num rst = 101)"
  using closed_port_refused [of "O4 10 0 0 1" "demo_segment flags_syn 100 0 []" "O4 10 0 0 2" manager_new 5]
  by (auto simp: get_connection_def manager_new_def demo_segment_def flags_syn_def no_flags_def)

end
