(* ===== verification/TcpLink.thy ===== *)
theory TcpLink
  imports TcpSender TcpHandshake "HOL-Library.Sublist"
begin

text \<open>
  Two connections joined by a network: a client and a server whose packets travel as bytes.  The
  network keeps every packet ever put on it and may deliver any of them, any number of times, in any
  order, or never; a packet is delivered through the checksum-verifying parser.  The theorem of this
  theory composes the sender's invariant of one end with the receiver's invariant of the other.
\<close>

section \<open>Initial states\<close>

lemma tx_inv_server: "tx_inv flags_syn_ack isn [] [] (new_server local remote isn)"
  by (rule tx_invI) (simp_all add: new_server_def tx_phase_def live_def cc_new_def)

lemma sends_client:
  assumes r: "initiate_syn_at t (new_client local remote isn) = Some (pkt, c)"
  shows "tx_inv flags_syn isn [] [] c \<and> packet_ok flags_syn isn [] False pkt \<and> \<not> tc_fin_sent c"
proof -
  let ?c = "(new_client local remote isn)\<lparr> tc_current_time_ms := t, tc_state := SynSent, tc_snd_nxt := isn + 1 \<rparr>"
  obtain opts c1 where p: "conn_serialize ?c isn 0 flags_syn (current_rcv_wnd ?c) opts [] = Some pkt"
    "c = count_segment_sent c1" "c1 = track_for_retransmit (isn + of_nat 0) (of_nat 1) flags_syn [] t ?c"
    using r by (auto simp: initiate_syn_at_def Let_def bind_eq_Some_conv new_client_def)
  have l0: "live flags_syn isn [] 0 0 (new_client local remote isn)"
    by (simp add: live_def new_client_def cc_new_def)
  have e: "entry_at flags_syn isn [] False 0 1 (isn + of_nat 0, isn + of_nat (0 + 1), flags_syn, [])" by simp
  have l: "live flags_syn isn [] 0 (0 + 1) c1"
    by (rule live_track [OF l0 e _ _ _ p(3), where T = "[]"]) (simp_all add: new_client_def)
  have f: "tc_state c1 = SynSent" "\<not> tc_fin_sent c1" "tc_tx_buffer c1 = []"
    "map core (tc_retransmit_queue c1) = [(isn + of_nat 0, isn + of_nat (0 + 1), flags_syn, [])]"
    by (simp_all add: p(3) track_for_retransmit_def new_client_def core_def)
  have "tx_inv flags_syn isn [] [] c1"
  proof (rule tx_invI)
    show "tx_phase flags_syn isn [] c1" using l f by (simp add: tx_phase_def)
    show "\<exists>a n. entry_at flags_syn isn [] (tc_fin_sent c1) a n x" if "x \<in> set (map core (tc_retransmit_queue c1))" for x
      using that e f(2) unfolding f(4) by (intro exI [of _ 0] exI [of _ 1]) simp
  qed (simp_all add: f)
  then have "tx_inv flags_syn isn [] [] c" using tx_inv_core [of c c1] by (simp add: p(2))
  moreover have "packet_ok flags_syn isn [] False pkt" by (rule packet_okI [OF p(1)]) simp_all
  moreover have "\<not> tc_fin_sent c" using f(2) by (simp add: p(2) count_segment_sent_def)
  ultimately show ?thesis by simp
qed

section \<open>A link\<close>

text \<open>One end: its connection, what its application has read and written, and the packets it has
  put on the network.\<close>

record endpoint =
  ep_conn :: TcpConnection
  ep_read :: bytes
  ep_written :: bytes
  ep_packets :: "bytes list"

text \<open>An end takes a step; a segment it handles parses from a packet of the other end.\<close>

definition end_step :: "SocketAddrV4 \<Rightarrow> SocketAddrV4 \<Rightarrow> conn_event \<Rightarrow> endpoint \<Rightarrow> endpoint \<Rightarrow> endpoint \<Rightarrow> bool" where
  "end_step here there ev other e e' \<longleftrightarrow>
     (\<exists>out acc ps c'. conn_step ev (ep_conn e) = Some (out, acc, ps, c') \<and>
        e' = \<lparr> ep_conn = c', ep_read = ep_read e @ out, ep_written = ep_written e @ acc,
               ep_packets = ep_packets e @ ps \<rparr>) \<and>
     (\<forall>seg t. ev = EvSegment seg t \<longrightarrow>
        (\<exists>pkt \<in> set (ep_packets other). tcp_parse (sock_ip there) (sock_ip here) pkt True = Inr seg))"

inductive linked :: "SocketAddrV4 \<Rightarrow> SocketAddrV4 \<Rightarrow> u32 \<Rightarrow> u32 \<Rightarrow> endpoint \<Rightarrow> endpoint \<Rightarrow> bool"
  for a :: SocketAddrV4 and b :: SocketAddrV4 and isn :: u32 and isn' :: u32 where
  start: "initiate_syn_at t (new_client a b isn) = Some (syn, c) \<Longrightarrow>
    linked a b isn isn' \<lparr> ep_conn = c, ep_read = [], ep_written = [], ep_packets = [syn] \<rparr>
      \<lparr> ep_conn = new_server b a isn', ep_read = [], ep_written = [], ep_packets = [] \<rparr>"
| client: "linked a b isn isn' x y \<Longrightarrow> end_step a b ev y x x' \<Longrightarrow> linked a b isn isn' x' y"
| server: "linked a b isn isn' x y \<Longrightarrow> end_step b a ev x y y' \<Longrightarrow> linked a b isn isn' x y'"

section \<open>What the network carries\<close>

text \<open>An end that has sent the stream \<open>S\<close>.\<close>

definition sent :: "TcpFlags \<Rightarrow> u32 \<Rightarrow> bytes \<Rightarrow> endpoint \<Rightarrow> bool" where
  "sent sf isn S e \<longleftrightarrow> tx_inv sf isn S (ep_written e) (ep_conn e) \<and>
     (\<forall>p \<in> set (ep_packets e). packet_ok sf isn S (tc_fin_sent (ep_conn e)) p)"

lemma sent_step:
  assumes s: "sent sf isn S e" and st: "end_step here there ev other e e'"
    and syn: "\<And>seg t. ev = EvSegment seg t \<Longrightarrow> sf = flags_syn \<Longrightarrow> tf_syn (seg_flags seg) \<Longrightarrow> tf_ack (seg_flags seg)"
  shows "\<exists>S'. sent sf isn S' e'"
proof -
  obtain out acc ps c' where c': "conn_step ev (ep_conn e) = Some (out, acc, ps, c')"
    "e' = \<lparr> ep_conn = c', ep_read = ep_read e @ out, ep_written = ep_written e @ acc, ep_packets = ep_packets e @ ps \<rparr>"
    using st by (auto simp: end_step_def)
  have inv: "tx_inv sf isn S (ep_written e) (ep_conn e)" using s by (simp add: sent_def)
  have "sf = flags_syn" if "tc_state (ep_conn e) = SynSent"
    using tx_invD(3) [OF inv] that by (simp add: tx_phase_def)
  then obtain S' where S': "sends sf isn (ep_written e @ acc) S (ep_conn e) ps S' c'"
    using sends_step [OF inv c'(1)] syn by blast
  then obtain T where "S' = S @ T" "tc_fin_sent (ep_conn e) \<longrightarrow> T = [] \<and> tc_fin_sent c'"
    by (auto simp: sends_def)
  then show ?thesis
    using s S' packet_ok_later [of sf isn S "tc_fin_sent (ep_conn e)" _ T "tc_fin_sent c'"]
    by (intro exI [of _ S']) (auto simp: sent_def sends_def c'(2))
qed

lemma linked_sent:
  assumes "linked a b isn isn' x y"
  shows "(\<exists>S. sent flags_syn isn S x) \<and> (\<exists>S. sent flags_syn_ack isn' S y)"
  using assms
proof induction
  case (start t syn c)
  then show ?case
    using sends_client [OF start] tx_inv_server by (auto simp: sent_def)
next
  case (client x y ev x')
  then obtain S S' where S: "sent flags_syn isn S x" "sent flags_syn_ack isn' S' y" by blast
  have "tf_ack (seg_flags seg)" if ev: "ev = EvSegment seg t" and syn: "tf_syn (seg_flags seg)" for seg t
  proof -
    obtain pkt where "pkt \<in> set (ep_packets y)" "tcp_parse (sock_ip b) (sock_ip a) pkt True = Inr seg"
      using client.hyps(2) ev by (auto simp: end_step_def)
    then have "seg_flags seg = flags_syn_ack"
      using S(2) syn by (auto simp: sent_def packet_ok_def sent_ok_def)
    then show ?thesis by simp
  qed
  then show ?case using sent_step [OF S(1) client.hyps(2)] S(2) by blast
next
  case (server x y ev y')
  then obtain S S' where S: "sent flags_syn isn S x" "sent flags_syn_ack isn' S' y" by blast
  have "flags_syn_ack \<noteq> flags_syn" by (simp add: tcp_flags_defs)
  then show ?case using sent_step [OF S(2) server.hyps(2)] S(1) by blast
qed

section \<open>What the other end receives\<close>

lemma sent_genuine:
  assumes "sent_ok sf isn S fin seg" "length S < 2 ^ 30" "n \<le> length S"
  shows "genuine isn S n seg"
proof -
  have "i < 2 ^ 30" if "slice_at S i p" for i p using that assms(2) by (simp add: slice_at_def)
  moreover have "n < 2 ^ 30" using assms(2,3) by simp
  ultimately show ?thesis using assms(1) unfolding sent_ok_def genuine_def
    by (meson trans_less_add2)
qed

lemma received_bound:
  "conn_run (genuine irs S) isn c d w \<Longrightarrow> length d + length (tc_rx_buffer c) \<le> length S"
  using peer_conn.rx_inv_run by (fastforce simp: peer_conn.rx_inv_def Let_def prefix_upto_def)

text \<open>A step of an end whose peer's packets are all of the stream \<open>S\<close> is a step of a run that receives
  that stream.\<close>

lemma receive_step:
  assumes run: "conn_run (genuine irs S) isn (ep_conn e) (ep_read e) (ep_written e)"
    and st: "end_step here there ev other e e'" and S: "length S < 2 ^ 30"
    and pkts: "\<And>p. p \<in> set (ep_packets other) \<Longrightarrow> packet_ok sf irs S fin p"
  shows "conn_run (genuine irs S) isn (ep_conn e') (ep_read e') (ep_written e')"
proof -
  obtain out acc ps c' where c': "conn_step ev (ep_conn e) = Some (out, acc, ps, c')"
    "e' = \<lparr> ep_conn = c', ep_read = ep_read e @ out, ep_written = ep_written e @ acc, ep_packets = ep_packets e @ ps \<rparr>"
    using st by (auto simp: end_step_def)
  have "genuine irs S (length (ep_read e) + length (tc_rx_buffer (ep_conn e))) seg" if ev: "ev = EvSegment seg t" for seg t
  proof -
    obtain pkt where "pkt \<in> set (ep_packets other)" "tcp_parse (sock_ip there) (sock_ip here) pkt True = Inr seg"
      using st ev by (fastforce simp: end_step_def)
    then have "sent_ok sf irs S fin seg" using pkts by (auto simp: packet_ok_def)
    then show ?thesis by (rule sent_genuine [OF _ S received_bound [OF run]])
  qed
  from conn_run.step [OF run c'(1) this] show ?thesis by (simp add: c'(2))
qed

lemma server_receives:
  assumes "linked a b isn isn' x y" "\<And>p. p \<in> set (ep_packets x) \<Longrightarrow> packet_ok sf isn S fin p" "length S < 2 ^ 30"
  shows "conn_run (genuine isn S) isn' (ep_conn y) (ep_read y) (ep_written y)"
  using assms
proof induction
  case (client x y ev x')
  then have "set (ep_packets x) \<subseteq> set (ep_packets x')" by (auto simp: end_step_def)
  then show ?case using client by blast
next
  case (server x y ev y')
  then show ?case using receive_step by blast
qed (simp add: conn_run.server)

lemma client_receives:
  assumes "linked a b isn isn' x y" "\<And>p. p \<in> set (ep_packets y) \<Longrightarrow> packet_ok sf isn' S fin p" "length S < 2 ^ 30"
  shows "conn_run (genuine isn' S) isn (ep_conn x) (ep_read x) (ep_written x)"
  using assms
proof induction
  case (start t syn c)
  then show ?case by (simp add: conn_run.client [OF start(1)])
next
  case (client x y ev x')
  then show ?case using receive_step by blast
next
  case (server x y ev y')
  then have "set (ep_packets y) \<subseteq> set (ep_packets y')" by (auto simp: end_step_def)
  then show ?case using server by blast
qed

text \<open>What an end has received of a peer that has sent \<open>S\<close>: a prefix of what the peer wrote, and, once
  the end of the stream is signalled, all that the peer sent before its FIN.\<close>

lemma received_prefix:
  assumes s: "sent sf isn S e" and S: "length (ep_written e) + 1 < 2 ^ 30"
    and run: "\<And>S fin. (\<And>p. p \<in> set (ep_packets e) \<Longrightarrow> packet_ok sf isn S fin p) \<Longrightarrow> length S < 2 ^ 30 \<Longrightarrow>
      conn_run (genuine isn S) isn' c d w"
  shows "prefix (d @ tc_rx_buffer c) (ep_written e) \<and>
    (tc_fin_received c \<longrightarrow> tc_fin_sent (ep_conn e) \<and>
       (tc_state (ep_conn e) \<noteq> Closed \<longrightarrow> d @ tc_rx_buffer c @ tc_tx_buffer (ep_conn e) = ep_written e))"
proof -
  obtain rest where w: "ep_written e = S @ rest" "tc_state (ep_conn e) \<noteq> Closed \<longrightarrow> rest = tc_tx_buffer (ep_conn e)"
    using s by (auto simp: sent_def tx_inv_def)
  have ok: "packet_ok sf isn S (tc_fin_sent (ep_conn e)) p" if "p \<in> set (ep_packets e)" for p
    using s that by (simp add: sent_def)
  have got: "\<exists>n. d @ tc_rx_buffer c = take n T" "tc_fin_received c \<longrightarrow> d @ tc_rx_buffer c = T"
    if "conn_run (genuine isn T) isn' c d w" for T
    using peer_conn.rx_inv_run [OF that] by (auto simp: peer_conn.rx_inv_def Let_def prefix_upto_def)
  have r: "conn_run (genuine isn S) isn' c d w" by (rule run [OF ok]) (use S w in auto)
  have "tc_fin_sent (ep_conn e)" if fin: "tc_fin_received c"
  proof (rule ccontr)
    assume no: "\<not> tc_fin_sent (ep_conn e)"
    have "conn_run (genuine isn (S @ [0])) isn' c d w"
      by (rule run [OF packet_ok_later [OF ok]]) (use S w no in auto)
    from got(2) [OF this] got(2) [OF r] fin show False by simp
  qed
  then show ?thesis using got [OF r] w by (auto simp: take_is_prefix)
qed

section \<open>Nothing unacknowledged is lost\<close>

text \<open>The queue holds, in order, exactly the bytes sent from its first entry on.\<close>

lemma chain_payloads:
  "chain sf isn S fin una a es b \<Longrightarrow> b = length S + 1 + of_bool fin \<Longrightarrow>
   concat (map (\<lambda>e. snd (snd (snd e))) es) = drop (a - 1) S"
proof (induction es arbitrary: a)
  case (Cons e es)
  obtain seqn end_seq flags payload where e: "e = (seqn, end_seq, flags, payload)" by (cases e)
  obtain n where n: "entry_at sf isn S fin a n e" "chain sf isn S fin una (a + n) es b" using Cons.prems by auto
  have rest: "concat (map (\<lambda>e. snd (snd (snd e))) es) = drop (a + n - 1) S" by (rule Cons.IH [OF n(2) Cons.prems(2)])
  have "payload @ drop (a + n - 1) S = drop (a - 1) S"
  proof (cases "a = 0 \<or> tf_fin flags")
    case True
    then show ?thesis using n(1) by (auto simp: e split: if_splits)
  next
    case False
    then have "slice_at S (a - 1) payload" "n = length payload" "0 < a" using n(1) by (auto simp: e split: if_splits)
    then have "payload @ drop (a + n - 1) S = take n (drop (a - 1) S) @ drop n (drop (a - 1) S)"
      by (simp add: slice_at_def add.commute)
    then show ?thesis by (simp only: append_take_drop_id)
  qed
  then show ?case using rest by (simp add: e)
qed auto

lemma tx_inv_run:
  assumes "conn_run adm isn c d w"
  shows "\<exists>sf S. tx_inv sf isn S w c"
  using assms
proof induction
  case (server local remote)
  then show ?case using tx_inv_server by blast
next
  case (client now_ms local remote pkt c)
  then show ?case using sends_client by blast
next
  case (step c d w ev out acc packets c')
  then show ?case using tx_inv_step by blast
qed


text \<open>A server that has accepted a connection and written two bytes.\<close>

lemma established_run:
  "\<exists>c. conn_run (\<lambda>_ _. True) 1000 c [] [1, 2] \<and> tc_state c = Established"
proof -
  let ?b = "\<lparr> sock_ip = O4 10 0 0 1, sock_port = 80 \<rparr>" and ?a = "\<lparr> sock_ip = O4 10 0 0 2, sock_port = 9 \<rparr>"
  let ?syn = "(demo_segment flags_syn 7 0 [])\<lparr> seg_options := [Mss 1460, SackPermitted, Nop, Nop] \<rparr>"
  let ?ack = "demo_segment flags_ack 8 1001 []"
  obtain p c1 e where c1: "handle_segment_at ?syn 0 (new_server ?b ?a 1000) = Some (p, c1)" "tc_state c1 = SynReceived"
    "tc_snd_nxt c1 = 1000 + 1" "tc_retransmit_queue c1 = [e]" "rs_end_seq e = 1000 + 1" "\<not> tc_ts_enabled c1"
    using server_syn_ack [of ?syn 7 0 ?b ?a 1000] by (auto simp: demo_segment_def)
  obtain c2 where c2: "handle_segment_at ?ack 1 c1 = Some (None, c2)" "tc_state c2 = Established"
    "tc_tx_buffer c2 = tc_tx_buffer c1"
    using server_established [OF c1(2-6), of ?ack 1] by (auto simp: demo_segment_def)
  have r0: "conn_run (\<lambda>_ _. True) 1000 (new_server ?b ?a 1000) [] []" by (rule conn_run.server)
  have r1: "conn_run (\<lambda>_ _. True) 1000 c1 [] []" using conn_run.step [OF r0, of "EvSegment ?syn 0"] c1(1) by simp
  have r2: "conn_run (\<lambda>_ _. True) 1000 c2 [] []" using conn_run.step [OF r1, of "EvSegment ?ack 1"] c2(1) by simp
  have "tc_tx_buffer c1 = []" using tx_invD(5) c1(2) tx_inv_run [OF r1] by fastforce
  then have "conn_run (\<lambda>_ _. True) 1000 (c2\<lparr> tc_tx_buffer := [1, 2] \<rparr>) [] [1, 2]"
    using conn_run.step [OF r2, of "EvWrite [1, 2]"] c2(3) by (simp add: tcp_write_def SND_BUFFER_CAPACITY_def)
  then show ?thesis using c2(2) by (intro exI [of _ "c2\<lparr> tc_tx_buffer := [1, 2] \<rparr>"]) simp
qed


section \<open>End to end\<close>

text \<open>C1: a TCP connection delivers, end to end, what was written.  A client and a server connection
  exchange their packets as bytes over a network that may lose, duplicate, delay and reorder them at
  will; both applications write, read, send and close as they like, and the timers run at any time.
  Then what either application has read, followed by what waits in its receive buffer, is a prefix of
  what the other application wrote; and the end of the stream is signalled only after the other side
  has sent its FIN and every byte it sent has arrived.  Streams are below \<open>2 ^ 30\<close> bytes, so that no
  packet is ever older than half the sequence space.\<close>
theorem end_to_end_stream:
  assumes "linked a b isn isn' x y"
    and "length (ep_written x) + 1 < 2 ^ 30" and "length (ep_written y) + 1 < 2 ^ 30"
  shows "prefix (ep_read y @ tc_rx_buffer (ep_conn y)) (ep_written x) \<and>
    prefix (ep_read x @ tc_rx_buffer (ep_conn x)) (ep_written y) \<and>
    (tc_fin_received (ep_conn y) \<longrightarrow> tc_fin_sent (ep_conn x) \<and> (tc_state (ep_conn x) \<noteq> Closed \<longrightarrow>
       ep_read y @ tc_rx_buffer (ep_conn y) @ tc_tx_buffer (ep_conn x) = ep_written x)) \<and>
    (tc_fin_received (ep_conn x) \<longrightarrow> tc_fin_sent (ep_conn y) \<and> (tc_state (ep_conn y) \<noteq> Closed \<longrightarrow>
       ep_read x @ tc_rx_buffer (ep_conn x) @ tc_tx_buffer (ep_conn y) = ep_written y))"
proof -
  obtain S S' where S: "sent flags_syn isn S x" "sent flags_syn_ack isn' S' y"
    using linked_sent [OF assms(1)] by blast
  have y: "prefix (ep_read y @ tc_rx_buffer (ep_conn y)) (ep_written x) \<and>
    (tc_fin_received (ep_conn y) \<longrightarrow> tc_fin_sent (ep_conn x) \<and> (tc_state (ep_conn x) \<noteq> Closed \<longrightarrow>
       ep_read y @ tc_rx_buffer (ep_conn y) @ tc_tx_buffer (ep_conn x) = ep_written x))"
    by (rule received_prefix [OF S(1) assms(2)]) (rule server_receives [OF assms(1)])
  have x: "prefix (ep_read x @ tc_rx_buffer (ep_conn x)) (ep_written y) \<and>
    (tc_fin_received (ep_conn x) \<longrightarrow> tc_fin_sent (ep_conn y) \<and> (tc_state (ep_conn y) \<noteq> Closed \<longrightarrow>
       ep_read x @ tc_rx_buffer (ep_conn x) @ tc_tx_buffer (ep_conn y) = ep_written y))"
    by (rule received_prefix [OF S(2) assms(3)]) (rule client_receives [OF assms(1)])
  from x y show ?thesis by blast
qed

theorem end_to_end_stream_witness:
  "\<exists>x y. linked \<lparr> sock_ip = O4 10 0 0 2, sock_port = 9 \<rparr> \<lparr> sock_ip = O4 10 0 0 1, sock_port = 80 \<rparr> 7 1000 x y \<and>
     ep_written x = [1, 2, 3] \<and> prefix (ep_read y @ tc_rx_buffer (ep_conn y)) [1, 2, 3]"
proof -
  let ?a = "\<lparr> sock_ip = O4 10 0 0 2, sock_port = 9 \<rparr>" and ?b = "\<lparr> sock_ip = O4 10 0 0 1, sock_port = 80 \<rparr>"
  have "initiate_syn_at 0 (new_client ?a ?b 7) \<noteq> None"
    by (simp add: initiate_syn_at_def Let_def new_client_def bind_eq_None_conv conn_serialize_iff)
  then obtain syn c where c: "initiate_syn_at 0 (new_client ?a ?b 7) = Some (syn, c)" by fastforce
  have tx: "tc_tx_buffer c = []"
    using c by (auto simp: initiate_syn_at_def Let_def new_client_def bind_eq_Some_conv count_segment_sent_def track_for_retransmit_def)
  let ?x = "\<lparr> ep_conn = c, ep_read = [], ep_written = [], ep_packets = [syn] \<rparr>"
  let ?y = "\<lparr> ep_conn = new_server ?b ?a 1000, ep_read = [], ep_written = [], ep_packets = [] \<rparr>"
  let ?x' = "\<lparr> ep_conn = c\<lparr> tc_tx_buffer := [1, 2, 3] \<rparr>, ep_read = [], ep_written = [1, 2, 3], ep_packets = [syn] \<rparr>"
  have "end_step ?a ?b (EvWrite [1, 2, 3]) ?y ?x ?x'"
    by (simp add: end_step_def tcp_write_def SND_BUFFER_CAPACITY_def tx)
  then have l: "linked ?a ?b 7 1000 ?x' ?y" by (rule linked.client [OF linked.start [OF c]])
  with end_to_end_stream [OF l] show ?thesis by fastforce
qed

end
