(* ===== verification/Sockets.thy ===== *)
theory Sockets
  imports TcpManager Udp Comparators
begin

text \<open>
  The socket layer (\<open>socket.rs\<close>, \<open>SocketRuntime\<close>): handles for UDP sockets, TCP listeners and TCP
  streams, port allocation, the queues between the applications and the transport, the dispatch of
  incoming datagrams and segments, the timer pump and the reclamation of finished connections.
  A result of type \<open>'a sock_result\<close> is the \<open>Result<T, SocketError>\<close> of the code with the new runtime;
  \<open>None\<close> is a panic, or a port search that does not end.  The theorems are in \<open>SocketTables\<close> and
  \<open>SocketStreams\<close>.
\<close>

section \<open>Data\<close>

definition MAX_CLOSED_STREAM_HISTORY :: nat where "MAX_CLOSED_STREAM_HISTORY = 256"

datatype UdpSocketHandle = UdpSocketHandle (udp_id: u32)
datatype TcpListenerHandle = TcpListenerHandle (listener_id: u32)
datatype TcpStreamHandle = TcpStreamHandle (stream_id: u32)

datatype SocketError = AddressInUse | AddressNotAvailable | NotConnected | ConnectionRefused
  | ConnectionReset | ConnectionAborted | TimedOut | InvalidSocket | WouldBlock | BufferOverflow
  | InvalidInput string

definition socket_error_fmt :: "SocketError \<Rightarrow> string" where
  "socket_error_fmt e =
     (case e of
        AddressInUse \<Rightarrow> ''Address already in use (EADDRINUSE)''
      | AddressNotAvailable \<Rightarrow> ''Address not available (EADDRNOTAVAIL)''
      | NotConnected \<Rightarrow> ''Socket is not connected (ENOTCONN)''
      | ConnectionRefused \<Rightarrow> ''Connection refused (ECONNREFUSED)''
      | ConnectionReset \<Rightarrow> ''Connection reset by peer (ECONNRESET)''
      | ConnectionAborted \<Rightarrow> ''Connection aborted (ECONNABORTED)''
      | TimedOut \<Rightarrow> ''Operation timed out (ETIMEDOUT)''
      | InvalidSocket \<Rightarrow> ''Invalid socket descriptor (EBADF)''
      | WouldBlock \<Rightarrow> ''Resource temporarily unavailable (EWOULDBLOCK)''
      | BufferOverflow \<Rightarrow> ''Buffer capacity overflow''
      | InvalidInput msg \<Rightarrow> ''Invalid argument: '' @ msg)"

record UdpSocketEntry =
  us_handle :: UdpSocketHandle
  us_local_addr :: SocketAddrV4
  us_rx_queue :: "(bytes \<times> SocketAddrV4) list"

record TcpListenerEntry =
  tl_handle :: TcpListenerHandle
  tl_local_addr :: SocketAddrV4
  tl_backlog :: nat
  tl_next_isn :: u32
  tl_accept_queue :: "TcpStreamHandle list"

record TcpStreamEntry =
  ts_handle :: TcpStreamHandle
  ts_connection_key :: TcpConnectionKey

record TcpSocketOptions =
  to_nodelay :: bool
  to_keepalive :: bool
  to_nonblocking :: bool
  to_read_timeout_ms :: "u64 option"
  to_write_timeout_ms :: "u64 option"

definition tcp_options_default :: TcpSocketOptions where
  "tcp_options_default = \<lparr> to_nodelay = False, to_keepalive = False, to_nonblocking = False,
     to_read_timeout_ms = None, to_write_timeout_ms = None \<rparr>"

record UdpSocketOptions =
  uo_broadcast :: bool
  uo_nonblocking :: bool
  uo_multicast_ttl :: u8
  uo_multicast_loopback :: bool

definition udp_options_default :: UdpSocketOptions where
  "udp_options_default = \<lparr> uo_broadcast = False, uo_nonblocking = False, uo_multicast_ttl = 1,
     uo_multicast_loopback = True \<rparr>"

record SocketTx =
  tx_local :: SocketAddrV4
  tx_remote :: SocketAddrV4
  tx_protocol :: u8
  tx_payload :: bytes

record TcpDiagnostics =
  dg_local :: SocketAddrV4
  dg_remote :: SocketAddrV4
  dg_state :: TcpState
  dg_stats :: TcpStats
  dg_cwnd :: u32
  dg_ssthresh :: u32
  dg_congestion_state :: CongestionState
  dg_bytes_in_flight :: u32
  dg_srtt_ms :: "rat option"
  dg_rttvar_ms :: "rat option"
  dg_rto_ms :: rat
  dg_send_window :: u16
  dg_receive_window :: u16
  dg_unacked_segments :: nat
  dg_ooo_bytes :: nat
  dg_tx_pending :: nat
  dg_rx_pending :: nat

record SocketRuntime =
  sr_default_ip :: Ipv4Address
  sr_next_socket_id :: u32
  sr_next_ephemeral_port :: u16
  sr_udp_sockets :: "(UdpSocketHandle, UdpSocketEntry) hash_map"
  sr_udp_port_map :: "(u16, UdpSocketHandle) hash_map"
  sr_tcp_listeners :: "(TcpListenerHandle, TcpListenerEntry) hash_map"
  sr_tcp_listener_ports :: "(u16, TcpListenerHandle) hash_map"
  sr_tcp_streams :: "(TcpStreamHandle, TcpStreamEntry) hash_map"
  sr_tcp_connections :: "(TcpConnectionKey, TcpStreamHandle \<times> TcpConnection) hash_map"
  sr_current_time_ms :: u64
  sr_tcp_tx :: "(SocketAddrV4 \<times> SocketAddrV4 \<times> bytes) list"
  sr_udp_tx :: "(SocketAddrV4 \<times> SocketAddrV4 \<times> bytes) list"
  sr_closed_streams :: "(TcpStreamHandle, TcpState \<times> TcpStats \<times> bytes) hash_map"
  sr_closed_order :: "TcpStreamHandle list"
  sr_default_mss :: u16
  sr_isn_counter :: u32
  sr_tcp_options :: "(TcpStreamHandle, TcpSocketOptions) hash_map"
  sr_udp_options :: "(UdpSocketHandle, UdpSocketOptions) hash_map"

type_synonym 'a sock_result = "(SocketError + 'a) \<times> SocketRuntime"

definition runtime_new :: "Ipv4Address \<Rightarrow> SocketRuntime" where
  "runtime_new default_ip =
     \<lparr> sr_default_ip = default_ip, sr_next_socket_id = 1, sr_next_ephemeral_port = 49152,
       sr_udp_sockets = [], sr_udp_port_map = [], sr_tcp_listeners = [], sr_tcp_listener_ports = [],
       sr_tcp_streams = [], sr_tcp_connections = [], sr_current_time_ms = 0, sr_tcp_tx = [],
       sr_udp_tx = [], sr_closed_streams = [], sr_closed_order = [], sr_default_mss = 1460,
       sr_isn_counter = 1000, sr_tcp_options = [], sr_udp_options = [] \<rparr>"

definition set_default_mss :: "u16 \<Rightarrow> SocketRuntime \<Rightarrow> SocketRuntime" where
  "set_default_mss mss rt = rt\<lparr> sr_default_mss := (if mss < 88 then 88 else if 1460 < mss then 1460 else mss) \<rparr>"

definition next_id :: "SocketRuntime \<Rightarrow> u32 \<times> SocketRuntime" where
  "next_id rt = (sr_next_socket_id rt, rt\<lparr> sr_next_socket_id := sr_next_socket_id rt + 1 \<rparr>)"

section \<open>Ports\<close>

definition port_used :: "SocketRuntime \<Rightarrow> u16 \<Rightarrow> bool" where
  "port_used rt port \<longleftrightarrow>
     hm_contains (sr_udp_port_map rt) port \<or> hm_contains (sr_tcp_listener_ports rt) port \<or>
     (\<exists>k \<in> set (map fst (sr_tcp_connections rt)). sock_port (key_local k) = port)"

definition advance_port :: "u16 \<Rightarrow> u16" where
  "advance_port port = (if port = 65535 then 49152 else port + 1)"

partial_function (option) ephemeral_loop ::
  "u16 \<Rightarrow> SocketRuntime \<Rightarrow> u16 sock_result option" where
  "ephemeral_loop start rt =
     (let port = sr_next_ephemeral_port rt;
          rt = rt\<lparr> sr_next_ephemeral_port := advance_port (sr_next_ephemeral_port rt) \<rparr>
      in if \<not> port_used rt port then Some (Inr port, rt)
         else if sr_next_ephemeral_port rt = start then Some (Inl AddressNotAvailable, rt)
         else ephemeral_loop start rt)"

definition allocate_ephemeral_port :: "SocketRuntime \<Rightarrow> u16 sock_result option" where
  "allocate_ephemeral_port rt = ephemeral_loop (sr_next_ephemeral_port rt) rt"

text \<open>The address a socket is bound to: the default address for an unspecified one, a free port for
  port 0, and an error for a port that \<open>ports\<close> already holds.\<close>

definition bind_addr ::
  "(SocketRuntime \<Rightarrow> (u16, 'h) hash_map) \<Rightarrow> SocketAddrV4 \<Rightarrow> SocketRuntime \<Rightarrow>
   SocketAddrV4 sock_result may_panic" where
  "bind_addr ports local_addr rt =
     (let local_addr = (if ip_is_unspecified (sock_ip local_addr)
                        then local_addr\<lparr> sock_ip := sr_default_ip rt \<rparr> else local_addr)
      in if sock_port local_addr = 0
         then do { (r, rt) \<leftarrow> allocate_ephemeral_port rt;
                   Some (case r of Inl e \<Rightarrow> Inl e | Inr port \<Rightarrow> Inr (local_addr\<lparr> sock_port := port \<rparr>), rt) }
         else if hm_contains (ports rt) (sock_port local_addr) then Some (Inl AddressInUse, rt)
         else Some (Inr local_addr, rt))"

section \<open>UDP sockets\<close>

definition socket_udp_bind ::
  "SocketAddrV4 \<Rightarrow> SocketRuntime \<Rightarrow> UdpSocketHandle sock_result may_panic" where
  "socket_udp_bind local_addr rt =
     do { (r, rt) \<leftarrow> bind_addr sr_udp_port_map local_addr rt;
          case r of
            Inl e \<Rightarrow> Some (Inl e, rt)
          | Inr local_addr \<Rightarrow>
              let (i, rt) = next_id rt;
                  handle = UdpSocketHandle i;
                  entry = \<lparr> us_handle = handle, us_local_addr = local_addr, us_rx_queue = [] \<rparr>
              in Some (Inr handle,
                   rt\<lparr> sr_udp_port_map := hm_insert (sock_port local_addr) handle (sr_udp_port_map rt),
                       sr_udp_sockets := hm_insert handle entry (sr_udp_sockets rt) \<rparr>) }"

definition udp_send_to ::
  "UdpSocketHandle \<Rightarrow> bytes \<Rightarrow> SocketAddrV4 \<Rightarrow> SocketRuntime \<Rightarrow> nat sock_result may_panic" where
  "udp_send_to handle data remote_addr rt =
     (case hm_get (sr_udp_sockets rt) handle of
        None \<Rightarrow> Some (Inl InvalidSocket, rt)
      | Some entry \<Rightarrow>
          let local_addr = us_local_addr entry
          in if length data > 65507
             then Some (Inl (InvalidInput ''datagram exceeds maximum UDP payload''), rt)
             else do { datagram \<leftarrow> udp_serialize (sock_ip local_addr) (sock_ip remote_addr)
                         (sock_port local_addr) (sock_port remote_addr) data;
                       Some (Inr (length data),
                         rt\<lparr> sr_udp_tx := sr_udp_tx rt @ [(local_addr, remote_addr, datagram)] \<rparr>) })"

definition udp_recv_from ::
  "UdpSocketHandle \<Rightarrow> SocketRuntime \<Rightarrow> (bytes \<times> SocketAddrV4) sock_result" where
  "udp_recv_from handle rt =
     (case hm_get (sr_udp_sockets rt) handle of
        None \<Rightarrow> (Inl InvalidSocket, rt)
      | Some entry \<Rightarrow>
          (case us_rx_queue entry of
             [] \<Rightarrow> (Inl WouldBlock, rt)
           | d # ds \<Rightarrow>
               (Inr d, rt\<lparr> sr_udp_sockets :=
                              hm_insert handle (entry\<lparr> us_rx_queue := ds \<rparr>) (sr_udp_sockets rt) \<rparr>)))"

definition udp_close :: "UdpSocketHandle \<Rightarrow> SocketRuntime \<Rightarrow> unit sock_result" where
  "udp_close handle rt =
     (case hm_get (sr_udp_sockets rt) handle of
        None \<Rightarrow> (Inl InvalidSocket, rt)
      | Some entry \<Rightarrow>
          (Inr (), rt\<lparr> sr_udp_sockets := hm_remove handle (sr_udp_sockets rt),
                       sr_udp_port_map := hm_remove (sock_port (us_local_addr entry)) (sr_udp_port_map rt),
                       sr_udp_options := hm_remove handle (sr_udp_options rt) \<rparr>))"

definition dispatch_udp ::
  "SocketAddrV4 \<Rightarrow> SocketAddrV4 \<Rightarrow> bytes \<Rightarrow> SocketRuntime \<Rightarrow> bool \<times> SocketRuntime" where
  "dispatch_udp src dst payload rt =
     (case hm_get (sr_udp_port_map rt) (sock_port dst) of
        None \<Rightarrow> (False, rt)
      | Some handle \<Rightarrow>
          (case hm_get (sr_udp_sockets rt) handle of
             None \<Rightarrow> (False, rt)
           | Some sock \<Rightarrow>
               (True, rt\<lparr> sr_udp_sockets :=
                  hm_insert handle (sock\<lparr> us_rx_queue := us_rx_queue sock @ [(payload, src)] \<rparr>)
                    (sr_udp_sockets rt) \<rparr>)))"

section \<open>TCP listeners\<close>

definition open_listener :: "SocketAddrV4 \<Rightarrow> SocketRuntime \<Rightarrow> TcpListenerHandle sock_result" where
  "open_listener local_addr rt =
     (let (i, rt) = next_id rt;
          handle = TcpListenerHandle i;
          entry = \<lparr> tl_handle = handle, tl_local_addr = local_addr, tl_backlog = 128,
                    tl_next_isn = 1000, tl_accept_queue = [] \<rparr>
      in (Inr handle,
          rt\<lparr> sr_tcp_listener_ports := hm_insert (sock_port local_addr) handle (sr_tcp_listener_ports rt),
              sr_tcp_listeners := hm_insert handle entry (sr_tcp_listeners rt) \<rparr>))"

definition tcp_listen :: "SocketAddrV4 \<Rightarrow> SocketRuntime \<Rightarrow> TcpListenerHandle sock_result may_panic" where
  "tcp_listen local_addr rt =
     do { (r, rt) \<leftarrow> bind_addr sr_tcp_listener_ports local_addr rt;
          Some (case r of Inl e \<Rightarrow> (Inl e, rt) | Inr local_addr \<Rightarrow> open_listener local_addr rt) }"

definition tcp_listen_any :: "u16 \<Rightarrow> SocketRuntime \<Rightarrow> TcpListenerHandle sock_result" where
  "tcp_listen_any port rt =
     (if port = 0 then (Inl (InvalidInput ''wildcard listen requires an explicit port''), rt)
      else if hm_contains (sr_tcp_listener_ports rt) port then (Inl AddressInUse, rt)
      else open_listener \<lparr> sock_ip = ip_UNSPECIFIED, sock_port = port \<rparr> rt)"

fun accept_loop ::
  "(TcpStreamHandle, TcpStreamEntry) hash_map \<Rightarrow> TcpStreamHandle list \<Rightarrow>
   (TcpStreamHandle \<times> SocketAddrV4) option \<times> TcpStreamHandle list" where
  "accept_loop streams [] = (None, [])"
| "accept_loop streams (h # queue) =
     (case hm_get streams h of
        Some stream \<Rightarrow> (Some (h, key_remote (ts_connection_key stream)), queue)
      | None \<Rightarrow> accept_loop streams queue)"

definition tcp_accept ::
  "TcpListenerHandle \<Rightarrow> SocketRuntime \<Rightarrow> (TcpStreamHandle \<times> SocketAddrV4) sock_result" where
  "tcp_accept listener_handle rt =
     (case hm_get (sr_tcp_listeners rt) listener_handle of
        None \<Rightarrow> (Inl InvalidSocket, rt)
      | Some listener \<Rightarrow>
          let (r, queue) = accept_loop (sr_tcp_streams rt) (tl_accept_queue listener);
              rt = rt\<lparr> sr_tcp_listeners :=
                         hm_insert listener_handle (listener\<lparr> tl_accept_queue := queue \<rparr>) (sr_tcp_listeners rt) \<rparr>
          in (case r of Some x \<Rightarrow> Inr x | None \<Rightarrow> Inl WouldBlock, rt))"

definition abandon_stream :: "TcpStreamHandle \<Rightarrow> SocketRuntime \<Rightarrow> SocketRuntime" where
  "abandon_stream pending rt =
     (let rt = (case hm_get (sr_tcp_streams rt) pending of
                  Some s \<Rightarrow> rt\<lparr> sr_tcp_connections := hm_remove (ts_connection_key s) (sr_tcp_connections rt) \<rparr>
                | None \<Rightarrow> rt)
      in rt\<lparr> sr_tcp_streams := hm_remove pending (sr_tcp_streams rt) \<rparr>)"

definition tcp_listener_close :: "TcpListenerHandle \<Rightarrow> SocketRuntime \<Rightarrow> unit sock_result" where
  "tcp_listener_close handle rt =
     (case hm_get (sr_tcp_listeners rt) handle of
        None \<Rightarrow> (Inl InvalidSocket, rt)
      | Some entry \<Rightarrow>
          let rt = rt\<lparr> sr_tcp_listeners := hm_remove handle (sr_tcp_listeners rt),
                       sr_tcp_listener_ports :=
                         hm_remove (sock_port (tl_local_addr entry)) (sr_tcp_listener_ports rt) \<rparr>
          in (Inr (), fold abandon_stream (tl_accept_queue entry) rt))"

section \<open>TCP streams\<close>

definition next_isn :: "SocketRuntime \<Rightarrow> u32 \<times> SocketRuntime" where
  "next_isn rt = (sr_isn_counter rt + 64000, rt\<lparr> sr_isn_counter := sr_isn_counter rt + 64000 \<rparr>)"

text \<open>New connections use the MSS of the runtime.\<close>

definition with_mss :: "u16 \<Rightarrow> TcpConnection \<Rightarrow> TcpConnection" where
  "with_mss mss conn =
     conn\<lparr> tc_local_mss := mss, tc_congestion := (tc_congestion conn)\<lparr> cc_mss := ucast mss \<rparr> \<rparr>"

definition tcp_connect_from ::
  "SocketAddrV4 \<Rightarrow> SocketAddrV4 \<Rightarrow> u32 \<Rightarrow> SocketRuntime \<Rightarrow> TcpStreamHandle sock_result may_panic" where
  "tcp_connect_from local_addr remote_addr isn rt =
     (let local_addr = (if ip_is_unspecified (sock_ip local_addr)
                        then local_addr\<lparr> sock_ip := sr_default_ip rt \<rparr> else local_addr)
      in do { (r, rt) \<leftarrow> (if sock_port local_addr = 0 then allocate_ephemeral_port rt
                           else Some (Inr (sock_port local_addr), rt));
              case r of
                Inl e \<Rightarrow> Some (Inl e, rt)
              | Inr port \<Rightarrow>
                  let local_addr = local_addr\<lparr> sock_port := port \<rparr>;
                      key = \<lparr> key_local = local_addr, key_remote = remote_addr \<rparr>
                  in if hm_contains (sr_tcp_connections rt) key then Some (Inl AddressInUse, rt)
                     else let (i, rt) = next_id rt;
                              handle = TcpStreamHandle i;
                              conn = with_mss (sr_default_mss rt) (new_client local_addr remote_addr isn)
                          in do { (syn_packet, conn) \<leftarrow> initiate_syn_at (sr_current_time_ms rt) conn;
                                  Some (Inr handle,
                                    rt\<lparr> sr_tcp_connections := hm_insert key (handle, conn) (sr_tcp_connections rt),
                                        sr_tcp_streams := hm_insert handle
                                          \<lparr> ts_handle = handle, ts_connection_key = key \<rparr> (sr_tcp_streams rt),
                                        sr_tcp_tx := sr_tcp_tx rt @ [(local_addr, remote_addr, syn_packet)] \<rparr>) } })"

definition tcp_connect :: "SocketAddrV4 \<Rightarrow> SocketRuntime \<Rightarrow> TcpStreamHandle sock_result may_panic" where
  "tcp_connect remote_addr rt =
     do { (r, rt) \<leftarrow> allocate_ephemeral_port rt;
          case r of
            Inl e \<Rightarrow> Some (Inl e, rt)
          | Inr local_port \<Rightarrow>
              let local_addr = \<lparr> sock_ip = sr_default_ip rt, sock_port = local_port \<rparr>;
                  (isn, rt) = next_isn rt
              in tcp_connect_from local_addr remote_addr isn rt }"

definition key_of :: "SocketRuntime \<Rightarrow> TcpStreamHandle \<Rightarrow> SocketError + TcpConnectionKey" where
  "key_of rt handle =
     (case hm_get (sr_tcp_streams rt) handle of
        Some s \<Rightarrow> Inr (ts_connection_key s) | None \<Rightarrow> Inl InvalidSocket)"

definition socket_tcp_write :: "TcpStreamHandle \<Rightarrow> bytes \<Rightarrow> SocketRuntime \<Rightarrow> nat sock_result" where
  "socket_tcp_write handle data rt =
     (case hm_get (sr_tcp_streams rt) handle of
        None \<Rightarrow> (Inl InvalidSocket, rt)
      | Some stream \<Rightarrow>
          let key = ts_connection_key stream
          in (case hm_get (sr_tcp_connections rt) key of
                None \<Rightarrow> (Inl InvalidSocket, rt)
              | Some (h, conn) \<Rightarrow>
                  if \<not> (tc_state conn = Established \<or> tc_state conn = CloseWait) then (Inl NotConnected, rt)
                  else if tc_close_requested conn then (Inl NotConnected, rt)
                  else let (accepted, conn) = tcp_write data conn;
                           rt = rt\<lparr> sr_tcp_connections := hm_insert key (h, conn) (sr_tcp_connections rt) \<rparr>
                       in if accepted = 0 \<and> data \<noteq> [] then (Inl WouldBlock, rt)
                          else (Inr accepted, rt)))"

definition tcp_writable :: "SocketRuntime \<Rightarrow> TcpStreamHandle \<Rightarrow> nat" where
  "tcp_writable rt handle =
     (case key_of rt handle of
        Inl _ \<Rightarrow> 0
      | Inr key \<Rightarrow> (case hm_get (sr_tcp_connections rt) key of
                      Some (_, c) \<Rightarrow> send_buffer_available c | None \<Rightarrow> 0))"

text \<open>\<open>buf_len\<close> is the length of the caller's buffer; the result is what the code copies into it.\<close>

definition socket_tcp_read :: "TcpStreamHandle \<Rightarrow> nat \<Rightarrow> SocketRuntime \<Rightarrow> bytes sock_result" where
  "socket_tcp_read handle buf_len rt =
     (case key_of rt handle of
        Inl e \<Rightarrow> (Inl e, rt)
      | Inr key \<Rightarrow>
          (case hm_get (sr_tcp_connections rt) key of
             None \<Rightarrow>
               (case hm_get (sr_closed_streams rt) handle of
                  None \<Rightarrow> (Inl InvalidSocket, rt)
                | Some (st, stats, residual) \<Rightarrow>
                    if residual = [] then (Inr [], rt)
                    else let n = min buf_len (length residual)
                         in (Inr (take n residual),
                             rt\<lparr> sr_closed_streams :=
                                   hm_insert handle (st, stats, drop n residual) (sr_closed_streams rt) \<rparr>))
           | Some (h, conn) \<Rightarrow>
               let (out, conn) = tcp_read buf_len conn;
                   rt = rt\<lparr> sr_tcp_connections := hm_insert key (h, conn) (sr_tcp_connections rt) \<rparr>
               in if out \<noteq> [] then (Inr out, rt)
                  else if tc_aborted conn then (Inl ConnectionReset, rt)
                  else if tc_fin_received conn \<or> tc_state conn = Closed \<or> tc_state conn = TimeWait \<or>
                          tc_state conn = LastAck \<or> tc_state conn = CloseWait
                  then (Inr [], rt)
                  else (Inl WouldBlock, rt)))"

definition tcp_readable :: "SocketRuntime \<Rightarrow> TcpStreamHandle \<Rightarrow> nat" where
  "tcp_readable rt handle =
     (case key_of rt handle of
        Inl _ \<Rightarrow> 0
      | Inr key \<Rightarrow>
          (case hm_get (sr_tcp_connections rt) key of
             Some (_, conn) \<Rightarrow> length (tc_rx_buffer conn)
           | None \<Rightarrow> (case hm_get (sr_closed_streams rt) handle of
                        Some (_, _, r) \<Rightarrow> length r | None \<Rightarrow> 0)))"

definition tcp_shutdown :: "TcpStreamHandle \<Rightarrow> SocketRuntime \<Rightarrow> unit sock_result may_panic" where
  "tcp_shutdown handle rt =
     (case key_of rt handle of
        Inl e \<Rightarrow> Some (Inl e, rt)
      | Inr key \<Rightarrow>
          (case hm_get (sr_tcp_connections rt) key of
             None \<Rightarrow> Some (Inl NotConnected, rt)
           | Some (h, conn) \<Rightarrow>
               do { (fin, conn) \<leftarrow> initiate_close_at (sr_current_time_ms rt) conn;
                    let rt = rt\<lparr> sr_tcp_connections := hm_insert key (h, conn) (sr_tcp_connections rt) \<rparr>
                    in Some (Inr (), (case fin of
                         Some p \<Rightarrow> rt\<lparr> sr_tcp_tx := sr_tcp_tx rt @ [(key_local key, key_remote key, p)] \<rparr>
                       | None \<Rightarrow> rt)) }))"

definition tcp_close :: "TcpStreamHandle \<Rightarrow> SocketRuntime \<Rightarrow> unit sock_result may_panic" where
  "tcp_close handle rt = tcp_shutdown handle rt"

definition tcp_release :: "TcpStreamHandle \<Rightarrow> SocketRuntime \<Rightarrow> SocketRuntime" where
  "tcp_release handle rt =
     rt\<lparr> sr_closed_streams := hm_remove handle (sr_closed_streams rt),
         sr_closed_order := filter (\<lambda>h. h \<noteq> handle) (sr_closed_order rt),
         sr_tcp_streams := hm_remove handle (sr_tcp_streams rt),
         sr_tcp_options := hm_remove handle (sr_tcp_options rt) \<rparr>"

definition abort_reset :: "TcpConnectionKey \<Rightarrow> TcpConnection \<Rightarrow> bytes list may_panic" where
  "abort_reset key conn =
     (if \<not> tc_aborted conn \<and> tc_state conn \<noteq> Closed
      then do { rst \<leftarrow> tcp_serialize (sock_ip (key_local key)) (sock_ip (key_remote key))
                  (sock_port (key_local key)) (sock_port (key_remote key)) (tc_snd_nxt conn)
                  (tc_rcv_nxt conn) (flags_rst\<lparr> tf_ack := True \<rparr>) 0 [];
                Some [rst] }
      else Some [])"

definition tcp_abort :: "TcpStreamHandle \<Rightarrow> u64 \<Rightarrow> SocketRuntime \<Rightarrow> SocketRuntime may_panic" where
  "tcp_abort handle now_ms rt =
     (case key_of rt handle of
        Inl _ \<Rightarrow> Some (tcp_release handle rt)
      | Inr key \<Rightarrow>
          (case hm_get (sr_tcp_connections rt) key of
             None \<Rightarrow> Some (tcp_release handle rt)
           | Some (_, conn) \<Rightarrow>
               do { (flushed, conn) \<leftarrow> poll_output now_ms conn;
                    rst \<leftarrow> abort_reset key conn;
                    Some (tcp_release handle
                      (rt\<lparr> sr_tcp_connections := hm_remove key (sr_tcp_connections rt),
                           sr_tcp_tx := sr_tcp_tx rt @
                             map (\<lambda>p. (key_local key, key_remote key, p)) (flushed @ rst) \<rparr>)) }))"

section \<open>Inspection\<close>

definition socket_tcp_state :: "SocketRuntime \<Rightarrow> TcpStreamHandle \<Rightarrow> SocketError + TcpState" where
  "socket_tcp_state rt handle =
     (case key_of rt handle of
        Inl e \<Rightarrow> Inl e
      | Inr key \<Rightarrow>
          (case hm_get (sr_tcp_connections rt) key of
             Some (_, conn) \<Rightarrow> Inr (tc_state conn)
           | None \<Rightarrow> (case hm_get (sr_closed_streams rt) handle of
                        Some (st, _, _) \<Rightarrow> Inr st | None \<Rightarrow> Inl InvalidSocket)))"

definition tcp_is_live :: "SocketRuntime \<Rightarrow> TcpStreamHandle \<Rightarrow> bool" where
  "tcp_is_live rt handle =
     (case key_of rt handle of
        Inl _ \<Rightarrow> False
      | Inr key \<Rightarrow> (case hm_get (sr_tcp_connections rt) key of
                      Some (_, conn) \<Rightarrow> \<not> tc_aborted conn \<and> tc_state conn \<noteq> Closed | None \<Rightarrow> False))"

definition socket_tcp_stats :: "SocketRuntime \<Rightarrow> TcpStreamHandle \<Rightarrow> SocketError + TcpStats" where
  "socket_tcp_stats rt handle =
     (case key_of rt handle of
        Inl e \<Rightarrow> Inl e
      | Inr key \<Rightarrow>
          (case hm_get (sr_tcp_connections rt) key of
             Some (_, conn) \<Rightarrow> Inr (tc_stats conn)
           | None \<Rightarrow> (case hm_get (sr_closed_streams rt) handle of
                        Some (_, st, _) \<Rightarrow> Inr st | None \<Rightarrow> Inl InvalidSocket)))"

definition tcp_diagnostics :: "SocketRuntime \<Rightarrow> TcpStreamHandle \<Rightarrow> SocketError + TcpDiagnostics" where
  "tcp_diagnostics rt handle =
     (case key_of rt handle of
        Inl e \<Rightarrow> Inl e
      | Inr key \<Rightarrow>
          (case hm_get (sr_tcp_connections rt) key of
             None \<Rightarrow> Inl InvalidSocket
           | Some (_, conn) \<Rightarrow>
               Inr \<lparr> dg_local = tc_local conn, dg_remote = tc_remote conn, dg_state = tc_state conn,
                     dg_stats = tc_stats conn, dg_cwnd = cc_cwnd (tc_congestion conn),
                     dg_ssthresh = cc_ssthresh (tc_congestion conn),
                     dg_congestion_state = cc_state (tc_congestion conn),
                     dg_bytes_in_flight = bytes_in_flight conn, dg_srtt_ms = rtt_srtt (tc_rtt conn),
                     dg_rttvar_ms = rtt_rttvar (tc_rtt conn), dg_rto_ms = rtt_rto (tc_rtt conn),
                     dg_send_window = tc_snd_wnd conn, dg_receive_window = current_rcv_wnd conn,
                     dg_unacked_segments = length (tc_retransmit_queue conn),
                     dg_ooo_bytes = ooo_bytes conn, dg_tx_pending = length (tc_tx_buffer conn),
                     dg_rx_pending = length (tc_rx_buffer conn) \<rparr>))"

text \<open>The comparison by local address, local port, remote address and remote port.\<close>

definition addr_cmp :: "SocketAddrV4 \<Rightarrow> SocketAddrV4 \<Rightarrow> cmp_ordering" where
  "addr_cmp a b = cmp_then (cmp_list (bytes4 (sock_ip a)) (bytes4 (sock_ip b))) (cmp_of (sock_port a) (sock_port b))"

definition key_cmp :: "TcpConnectionKey \<Rightarrow> TcpConnectionKey \<Rightarrow> cmp_ordering" where
  "key_cmp a b = cmp_then (addr_cmp (key_local a) (key_local b)) (addr_cmp (key_remote a) (key_remote b))"

definition diagnostics_cmp :: "TcpDiagnostics \<Rightarrow> TcpDiagnostics \<Rightarrow> cmp_ordering" where
  "diagnostics_cmp a b = cmp_then (addr_cmp (dg_local a) (dg_local b)) (addr_cmp (dg_remote a) (dg_remote b))"

definition all_tcp_diagnostics :: "SocketRuntime \<Rightarrow> TcpDiagnostics list" where
  "all_tcp_diagnostics rt =
     sort_by diagnostics_cmp
       (List.map_filter (\<lambda>h. case tcp_diagnostics rt h of Inr d \<Rightarrow> Some d | Inl _ \<Rightarrow> None)
          (map fst (sr_tcp_streams rt)))"

definition tcp_local_addr :: "SocketRuntime \<Rightarrow> TcpStreamHandle \<Rightarrow> SocketError + SocketAddrV4" where
  "tcp_local_addr rt handle = map_sum id key_local (key_of rt handle)"

definition tcp_peer_addr :: "SocketRuntime \<Rightarrow> TcpStreamHandle \<Rightarrow> SocketError + SocketAddrV4" where
  "tcp_peer_addr rt handle = map_sum id key_remote (key_of rt handle)"

definition udp_local_addr :: "SocketRuntime \<Rightarrow> UdpSocketHandle \<Rightarrow> SocketError + SocketAddrV4" where
  "udp_local_addr rt handle =
     (case hm_get (sr_udp_sockets rt) handle of
        Some s \<Rightarrow> Inr (us_local_addr s) | None \<Rightarrow> Inl InvalidSocket)"

definition get_tcp_connection :: "SocketRuntime \<Rightarrow> TcpConnectionKey \<Rightarrow> TcpConnection option" where
  "get_tcp_connection rt key = map_option snd (hm_get (sr_tcp_connections rt) key)"

text \<open>\<open>f\<close> is what the caller does with the connection it is lent.\<close>

definition get_tcp_connection_mut ::
  "TcpConnectionKey \<Rightarrow> (TcpConnection \<Rightarrow> TcpConnection) \<Rightarrow> SocketRuntime \<Rightarrow> SocketRuntime" where
  "get_tcp_connection_mut key f rt =
     (case hm_get (sr_tcp_connections rt) key of
        Some (h, c) \<Rightarrow> rt\<lparr> sr_tcp_connections := hm_insert key (h, f c) (sr_tcp_connections rt) \<rparr>
      | None \<Rightarrow> rt)"

definition socket_has_endpoint ::
  "Ipv4Address \<Rightarrow> u16 \<Rightarrow> Ipv4Address \<Rightarrow> u16 \<Rightarrow> SocketRuntime \<Rightarrow> bool" where
  "socket_has_endpoint local_ip local_port remote_ip remote_port rt =
     (let key = \<lparr> key_local = \<lparr> sock_ip = local_ip, sock_port = local_port \<rparr>,
                  key_remote = \<lparr> sock_ip = remote_ip, sock_port = remote_port \<rparr> \<rparr>
      in if hm_contains (sr_tcp_connections rt) key then True
         else case Option.bind (hm_get (sr_tcp_listener_ports rt) local_port) (hm_get (sr_tcp_listeners rt)) of
                Some l \<Rightarrow> sock_ip (tl_local_addr l) = local_ip \<or> ip_is_unspecified (sock_ip (tl_local_addr l))
              | None \<Rightarrow> False)"

definition connection_count :: "SocketRuntime \<Rightarrow> nat" where
  "connection_count rt = length (sr_tcp_connections rt)"

definition closed_stream_count :: "SocketRuntime \<Rightarrow> nat" where
  "closed_stream_count rt = length (sr_closed_streams rt)"

section \<open>Options\<close>

definition update_tcp_options ::
  "TcpStreamHandle \<Rightarrow> (TcpSocketOptions \<Rightarrow> TcpSocketOptions) \<Rightarrow> SocketRuntime \<Rightarrow> unit sock_result" where
  "update_tcp_options handle f rt =
     (case key_of rt handle of
        Inl e \<Rightarrow> (Inl e, rt)
      | Inr _ \<Rightarrow>
          let opts = (case hm_get (sr_tcp_options rt) handle of Some opts \<Rightarrow> opts | None \<Rightarrow> tcp_options_default)
          in (Inr (), rt\<lparr> sr_tcp_options := hm_insert handle (f opts) (sr_tcp_options rt) \<rparr>))"

definition read_tcp_options ::
  "(TcpSocketOptions \<Rightarrow> 'a) \<Rightarrow> 'a \<Rightarrow> SocketRuntime \<Rightarrow> TcpStreamHandle \<Rightarrow> SocketError + 'a" where
  "read_tcp_options f dflt rt handle =
     (case key_of rt handle of
        Inl e \<Rightarrow> Inl e
      | Inr _ \<Rightarrow> Inr (case hm_get (sr_tcp_options rt) handle of Some opts \<Rightarrow> f opts | None \<Rightarrow> dflt))"

definition tcp_set_nodelay :: "TcpStreamHandle \<Rightarrow> bool \<Rightarrow> SocketRuntime \<Rightarrow> unit sock_result" where
  "tcp_set_nodelay handle nodelay = update_tcp_options handle (to_nodelay_update (\<lambda>_. nodelay))"

definition tcp_nodelay :: "SocketRuntime \<Rightarrow> TcpStreamHandle \<Rightarrow> SocketError + bool" where
  "tcp_nodelay = read_tcp_options to_nodelay False"

definition tcp_set_nonblocking :: "TcpStreamHandle \<Rightarrow> bool \<Rightarrow> SocketRuntime \<Rightarrow> unit sock_result" where
  "tcp_set_nonblocking handle nonblocking = update_tcp_options handle (to_nonblocking_update (\<lambda>_. nonblocking))"

definition tcp_nonblocking :: "SocketRuntime \<Rightarrow> TcpStreamHandle \<Rightarrow> SocketError + bool" where
  "tcp_nonblocking = read_tcp_options to_nonblocking False"

definition tcp_set_read_timeout :: "TcpStreamHandle \<Rightarrow> u64 option \<Rightarrow> SocketRuntime \<Rightarrow> unit sock_result" where
  "tcp_set_read_timeout handle timeout_ms = update_tcp_options handle (to_read_timeout_ms_update (\<lambda>_. timeout_ms))"

definition tcp_read_timeout :: "SocketRuntime \<Rightarrow> TcpStreamHandle \<Rightarrow> SocketError + u64 option" where
  "tcp_read_timeout = read_tcp_options to_read_timeout_ms None"

definition update_udp_options ::
  "UdpSocketHandle \<Rightarrow> (UdpSocketOptions \<Rightarrow> UdpSocketOptions) \<Rightarrow> SocketRuntime \<Rightarrow> unit sock_result" where
  "update_udp_options handle f rt =
     (if \<not> hm_contains (sr_udp_sockets rt) handle then (Inl InvalidSocket, rt)
      else let opts = (case hm_get (sr_udp_options rt) handle of Some opts \<Rightarrow> opts | None \<Rightarrow> udp_options_default)
           in (Inr (), rt\<lparr> sr_udp_options := hm_insert handle (f opts) (sr_udp_options rt) \<rparr>))"

definition read_udp_options ::
  "(UdpSocketOptions \<Rightarrow> 'a) \<Rightarrow> 'a \<Rightarrow> SocketRuntime \<Rightarrow> UdpSocketHandle \<Rightarrow> SocketError + 'a" where
  "read_udp_options f dflt rt handle =
     (if \<not> hm_contains (sr_udp_sockets rt) handle then Inl InvalidSocket
      else Inr (case hm_get (sr_udp_options rt) handle of Some opts \<Rightarrow> f opts | None \<Rightarrow> dflt))"

definition udp_set_broadcast :: "UdpSocketHandle \<Rightarrow> bool \<Rightarrow> SocketRuntime \<Rightarrow> unit sock_result" where
  "udp_set_broadcast handle broadcast = update_udp_options handle (uo_broadcast_update (\<lambda>_. broadcast))"

definition udp_broadcast :: "SocketRuntime \<Rightarrow> UdpSocketHandle \<Rightarrow> SocketError + bool" where
  "udp_broadcast = read_udp_options uo_broadcast False"

definition udp_set_nonblocking :: "UdpSocketHandle \<Rightarrow> bool \<Rightarrow> SocketRuntime \<Rightarrow> unit sock_result" where
  "udp_set_nonblocking handle nonblocking = update_udp_options handle (uo_nonblocking_update (\<lambda>_. nonblocking))"

definition udp_nonblocking :: "SocketRuntime \<Rightarrow> UdpSocketHandle \<Rightarrow> SocketError + bool" where
  "udp_nonblocking = read_udp_options uo_nonblocking False"

definition udp_set_multicast_ttl :: "UdpSocketHandle \<Rightarrow> u8 \<Rightarrow> SocketRuntime \<Rightarrow> unit sock_result" where
  "udp_set_multicast_ttl handle ttl = update_udp_options handle (uo_multicast_ttl_update (\<lambda>_. ttl))"

definition udp_multicast_ttl :: "SocketRuntime \<Rightarrow> UdpSocketHandle \<Rightarrow> SocketError + u8" where
  "udp_multicast_ttl = read_udp_options uo_multicast_ttl 1"

definition udp_set_multicast_loop_v4 :: "UdpSocketHandle \<Rightarrow> bool \<Rightarrow> SocketRuntime \<Rightarrow> unit sock_result" where
  "udp_set_multicast_loop_v4 handle loopback = update_udp_options handle (uo_multicast_loopback_update (\<lambda>_. loopback))"

definition udp_multicast_loop_v4 :: "SocketRuntime \<Rightarrow> UdpSocketHandle \<Rightarrow> SocketError + bool" where
  "udp_multicast_loop_v4 = read_udp_options uo_multicast_loopback True"

section \<open>Incoming segments and timers\<close>

definition build_reset :: "Ipv4Address \<Rightarrow> Ipv4Address \<Rightarrow> TcpSegment \<Rightarrow> bytes may_panic" where
  "build_reset src_ip dst_ip seg =
     (let rst_seq = (if tf_ack (seg_flags seg) then seg_ack_num seg else 0);
          rst_ack = seg_seq_num seg + (if tf_syn (seg_flags seg) then 1 else 0) +
                    (if tf_fin (seg_flags seg) then 1 else 0) + of_nat (length (seg_payload seg));
          flags = (if \<not> tf_ack (seg_flags seg) then flags_rst\<lparr> tf_ack := True \<rparr> else flags_rst)
      in tcp_serialize dst_ip src_ip (seg_dst_port seg) (seg_src_port seg) rst_seq rst_ack flags 0 [])"

definition backlog_full :: "SocketRuntime \<Rightarrow> TcpListenerHandle \<Rightarrow> bool" where
  "backlog_full rt lh =
     (case hm_get (sr_tcp_listeners rt) lh of
        Some l \<Rightarrow> length (tl_accept_queue l) \<ge> tl_backlog l | None \<Rightarrow> True)"

text \<open>The listener \<open>lh\<close>, which exists because its backlog is not full, accepts the SYN \<open>seg\<close>.\<close>

definition accept_syn ::
  "TcpConnectionKey \<Rightarrow> TcpListenerHandle \<Rightarrow> TcpSegment \<Rightarrow> u64 \<Rightarrow> SocketRuntime \<Rightarrow>
   (bytes list \<times> SocketRuntime) may_panic" where
  "accept_syn key lh seg now_ms rt =
     (case hm_get (sr_tcp_listeners rt) lh of
        None \<Rightarrow> None
      | Some listener \<Rightarrow>
          let isn = tl_next_isn listener;
              conn = with_mss (sr_default_mss rt) (new_server (key_local key) (key_remote key) isn)
          in do { (resp, conn) \<leftarrow> handle_segment_at seg now_ms conn;
                  let (i, rt) = next_id rt;
                      stream_handle = TcpStreamHandle i
                  in Some (option_list resp,
                       rt\<lparr> sr_tcp_streams := hm_insert stream_handle
                             \<lparr> ts_handle = stream_handle, ts_connection_key = key \<rparr> (sr_tcp_streams rt),
                           sr_tcp_listeners := hm_insert lh
                             (listener\<lparr> tl_next_isn := isn + 64000,
                                        tl_accept_queue := tl_accept_queue listener @ [stream_handle] \<rparr>)
                             (sr_tcp_listeners rt),
                           sr_tcp_connections := hm_insert key (stream_handle, conn) (sr_tcp_connections rt) \<rparr>) })"

definition dispatch_tcp_segment ::
  "Ipv4Address \<Rightarrow> Ipv4Address \<Rightarrow> TcpSegment \<Rightarrow> u64 \<Rightarrow> SocketRuntime \<Rightarrow>
   (bytes list \<times> SocketRuntime) may_panic" where
  "dispatch_tcp_segment src_ip dst_ip seg now_ms rt =
     (let rt = rt\<lparr> sr_current_time_ms := now_ms \<rparr>;
          key = segment_key src_ip dst_ip seg
      in case hm_get (sr_tcp_connections rt) key of
           Some (h, conn) \<Rightarrow>
             do { (reply, conn) \<leftarrow> handle_segment_at seg now_ms conn;
                  (packets, conn) \<leftarrow> poll_output now_ms conn;
                  Some (option_list reply @ packets,
                    rt\<lparr> sr_tcp_connections := hm_insert key (h, conn) (sr_tcp_connections rt) \<rparr>) }
         | None \<Rightarrow>
             (case (if tf_syn (seg_flags seg) \<and> \<not> tf_ack (seg_flags seg)
                    then hm_get (sr_tcp_listener_ports rt) (seg_dst_port seg) else None) of
                Some lh \<Rightarrow> if backlog_full rt lh then Some ([], rt) else accept_syn key lh seg now_ms rt
              | None \<Rightarrow>
                  if \<not> tf_rst (seg_flags seg)
                  then do { rst \<leftarrow> build_reset src_ip dst_ip seg; Some ([rst], rt) }
                  else Some ([], rt)))"

fun socket_poll_loop ::
  "u64 \<Rightarrow> TcpConnectionKey list \<Rightarrow> (TcpConnectionKey, TcpStreamHandle \<times> TcpConnection) hash_map \<Rightarrow>
   (SocketTx list \<times> (TcpConnectionKey, TcpStreamHandle \<times> TcpConnection) hash_map) may_panic" where
  "socket_poll_loop now_ms [] conns = Some ([], conns)"
| "socket_poll_loop now_ms (key # keys) conns =
     (case hm_get conns key of
        None \<Rightarrow> socket_poll_loop now_ms keys conns
      | Some (h, conn) \<Rightarrow>
          do { (packets, conn) \<leftarrow> poll_output now_ms conn;
               (outgoing, conns) \<leftarrow> socket_poll_loop now_ms keys (hm_insert key (h, conn) conns);
               Some (map (\<lambda>p. \<lparr> tx_local = key_local key, tx_remote = key_remote key,
                               tx_protocol = IP_PROTO_TCP, tx_payload = p \<rparr>) packets @ outgoing, conns) })"

fun reap_loop :: "TcpConnectionKey list \<Rightarrow> SocketRuntime \<Rightarrow> SocketRuntime" where
  "reap_loop [] rt = rt"
| "reap_loop (key # keys) rt =
     (case hm_get (sr_tcp_connections rt) key of
        None \<Rightarrow> reap_loop keys rt
      | Some (handle, conn) \<Rightarrow>
          let fresh = (hm_get (sr_closed_streams rt) handle = None);
              rt = rt\<lparr> sr_tcp_connections := hm_remove key (sr_tcp_connections rt),
                       sr_closed_streams := hm_insert handle (tc_state conn, tc_stats conn, tc_rx_buffer conn)
                         (sr_closed_streams rt) \<rparr>
          in reap_loop keys
               (if fresh then rt\<lparr> sr_closed_order := sr_closed_order rt @ [handle] \<rparr> else rt))"

function evict_closed :: "SocketRuntime \<Rightarrow> SocketRuntime" where
  "evict_closed rt =
     (if length (sr_closed_order rt) > MAX_CLOSED_STREAM_HISTORY
      then case sr_closed_order rt of
             old # order \<Rightarrow>
               evict_closed (rt\<lparr> sr_closed_order := order,
                                 sr_closed_streams := hm_remove old (sr_closed_streams rt),
                                 sr_tcp_streams := hm_remove old (sr_tcp_streams rt) \<rparr>)
           | [] \<Rightarrow> rt
      else rt)"
  by auto
termination
  by (relation "measure (\<lambda>rt. length (sr_closed_order rt))") auto

declare evict_closed.simps [simp del]

definition reap_closed :: "u64 \<Rightarrow> SocketRuntime \<Rightarrow> SocketRuntime" where
  "reap_closed now_ms rt =
     (let finished = map fst (filter (\<lambda>(_, _, conn). is_reapable now_ms conn) (sr_tcp_connections rt))
      in evict_closed (reap_loop finished rt))"

definition queued_tx :: "u8 \<Rightarrow> (SocketAddrV4 \<times> SocketAddrV4 \<times> bytes) list \<Rightarrow> SocketTx list" where
  "queued_tx protocol = map (\<lambda>(local, remote, payload).
     \<lparr> tx_local = local, tx_remote = remote, tx_protocol = protocol, tx_payload = payload \<rparr>)"

definition socket_step_timers :: "u64 \<Rightarrow> SocketRuntime \<Rightarrow> (SocketTx list \<times> SocketRuntime) may_panic" where
  "socket_step_timers now_ms rt =
     (let queued = queued_tx IP_PROTO_UDP (sr_udp_tx rt) @ queued_tx IP_PROTO_TCP (sr_tcp_tx rt);
          rt = rt\<lparr> sr_current_time_ms := now_ms, sr_udp_tx := [], sr_tcp_tx := [] \<rparr>;
          keys = sort_by key_cmp (map fst (sr_tcp_connections rt))
      in do { (outgoing, conns) \<leftarrow> socket_poll_loop now_ms keys (sr_tcp_connections rt);
              Some (queued @ outgoing, reap_closed now_ms (rt\<lparr> sr_tcp_connections := conns \<rparr>)) })"

end
