(* ===== verification/SocketTables.thy ===== *)
theory SocketTables
  imports Sockets
begin

text \<open>
  The tables of the socket runtime stay consistent.  The locale \<open>port_registry\<close> states and proves once
  what holds of a table of entries with a port index (UDP sockets, TCP listeners); the table of
  connections, streams and finished streams is treated in \<open>conn_ok\<close>.  \<open>sock_step\<close> collects every
  operation that changes the runtime, and \<open>sock_inv\<close> is kept by all of them as long as the 32-bit
  handle counter does not wrap.
\<close>

section \<open>Ephemeral ports\<close>

abbreviation ports_from :: "u16 \<Rightarrow> nat \<Rightarrow> u16" where
  "ports_from p j \<equiv> (advance_port ^^ j) p"

lemma ephemeral_offset:
  assumes "49152 \<le> (p :: u16)"
  obtains a where "a < 16384" "unat p = 49152 + a"
proof -
  have "49152 \<le> unat p" "unat p < 65536" using assms unat_bound [of p] by (simp_all add: word_le_nat_alt)
  then show ?thesis using that [of "unat p - 49152"] by simp
qed

lemma unat_advance_port:
  assumes "unat p = 49152 + a" "a < 16384"
  shows "unat (advance_port p) = 49152 + (a + 1) mod 16384"
proof (cases "a = 16383")
  case True
  then have "unat p = unat (65535 :: u16)" using assms by simp
  then have "p = 65535" by (rule unsigned_word_eqI)
  then show ?thesis using True by (simp add: advance_port_def)
next
  case False
  then have "p \<noteq> 65535" "unat (p + 1) = unat p + 1" using assms by (auto simp: unat_word_ariths)
  then show ?thesis using assms False by (simp add: advance_port_def)
qed

lemma unat_ports_from:
  assumes "unat p = 49152 + a" "a < 16384"
  shows "unat (ports_from p j) = 49152 + (a + j) mod 16384"
proof (induction j)
  case (Suc j)
  then show ?case using unat_advance_port [of "ports_from p j" "(a + j) mod 16384"] by (simp add: mod_simps)
qed (use assms in simp)

lemma ports_from_ge: "49152 \<le> p \<Longrightarrow> 49152 \<le> ports_from p j"
  by (erule ephemeral_offset) (simp add: unat_ports_from word_le_nat_alt)

lemma ports_from_all:
  assumes "49152 \<le> p" "49152 \<le> q"
  shows "\<exists>j < 16384. ports_from p j = q"
proof -
  obtain a where a: "a < 16384" "unat p = 49152 + a" using assms(1) by (rule ephemeral_offset)
  obtain b where b: "b < 16384" "unat q = 49152 + b" using assms(2) by (rule ephemeral_offset)
  let ?j = "(b + (16384 - a)) mod 16384"
  have "(a + ?j) mod 16384 = b" using a(1) b(1) by (simp add: mod_simps)
  then have "unat (ports_from p ?j) = unat q" using unat_ports_from [OF a(2,1), of ?j] b(2) by simp
  then show ?thesis by (intro exI [of _ ?j]) (simp add: unsigned_word_eqI)
qed

lemma ports_from_cycle:
  assumes "49152 \<le> p"
  shows "ports_from p 16384 = p" and "0 < j \<Longrightarrow> j < 16384 \<Longrightarrow> ports_from p j \<noteq> p"
proof -
  obtain a where a: "a < 16384" "unat p = 49152 + a" using assms by (rule ephemeral_offset)
  have "unat (ports_from p 16384) = unat p" using unat_ports_from [OF a(2,1), of 16384] a by simp
  then show "ports_from p 16384 = p" by (rule unsigned_word_eqI)
  show "ports_from p j \<noteq> p" if "0 < j" "j < 16384"
  proof
    assume "ports_from p j = p"
    then have "(a + j) mod 16384 = a" using unat_ports_from [OF a(2,1), of j] a by simp
    then show False using a that by (cases "a + j < 16384") (auto simp: mod_if split: if_splits)
  qed
qed

lemma port_used_next [simp]: "port_used (sr_next_ephemeral_port_update f rt) p = port_used rt p"
  by (simp add: port_used_def)

text \<open>The loop with \<open>r\<close> ports left to try, of which it tried \<open>j\<close>.\<close>

definition searched :: "SocketRuntime \<Rightarrow> u16 \<Rightarrow> nat \<Rightarrow> nat \<Rightarrow> SocketError + u16 \<Rightarrow> bool" where
  "searched rt n r j res \<longleftrightarrow> 0 < j \<and> j \<le> r \<and>
     (case res of
        Inr p \<Rightarrow> p = ports_from n (j - 1) \<and> \<not> port_used rt p \<and> (\<forall>i < j - 1. port_used rt (ports_from n i))
      | Inl e \<Rightarrow> e = AddressNotAvailable \<and> (\<forall>i < r. port_used rt (ports_from n i)))"

lemma searched_later:
  assumes "port_used rt n" "searched (rt\<lparr> sr_next_ephemeral_port := m \<rparr>) (advance_port n) r j res"
  shows "searched rt n (Suc r) (Suc j) res"
proof -
  have shift: "ports_from (advance_port n) i = ports_from n (Suc i)" for i
    by (simp only: funpow_Suc_right o_apply)
  have "(\<forall>i < Suc m. port_used rt (ports_from n i)) \<longleftrightarrow> (\<forall>i < m. port_used rt (ports_from (advance_port n) i))" for m
    using assms(1) shift by (auto simp: less_Suc_eq_0_disj)
  then show ?thesis
    using assms(2) shift [of "j - 1"] by (cases res; cases j) (simp_all add: searched_def)
qed

lemma ephemeral_loop_result:
  assumes "0 < r" and "ports_from (sr_next_ephemeral_port rt) r = start"
    and "\<And>j. 0 < j \<Longrightarrow> j < r \<Longrightarrow> ports_from (sr_next_ephemeral_port rt) j \<noteq> start"
  shows "\<exists>res j. searched rt (sr_next_ephemeral_port rt) r j res \<and> ephemeral_loop start rt =
        Some (res, rt\<lparr> sr_next_ephemeral_port := ports_from (sr_next_ephemeral_port rt) j \<rparr>)"
  using assms
proof (induction r arbitrary: rt)
  case (Suc r)
  let ?n = "sr_next_ephemeral_port rt"
  let ?rt1 = "rt\<lparr> sr_next_ephemeral_port := advance_port ?n \<rparr>"
  have shift: "ports_from (advance_port ?n) j = ports_from ?n (Suc j)" for j
    by (simp only: funpow_Suc_right o_apply)
  consider "\<not> port_used rt ?n" | "port_used rt ?n" "r = 0" | "port_used rt ?n" "0 < r" by auto
  then show ?case
  proof cases
    case 1
    then show ?thesis
      by (intro exI [of _ "Inr ?n"] exI [of _ 1]) (simp add: ephemeral_loop.simps Let_def searched_def)
  next
    case 2
    then have "ephemeral_loop start rt = Some (Inl AddressNotAvailable, ?rt1)"
      using Suc.prems(2) by (subst ephemeral_loop.simps) (simp add: Let_def)
    then show ?thesis
      using 2 by (intro exI [of _ "Inl AddressNotAvailable"] exI [of _ 1]) (simp add: searched_def)
  next
    case 3
    have "ports_from (sr_next_ephemeral_port ?rt1) r = start" using Suc.prems(2) shift [of r] by simp
    moreover have "ports_from (sr_next_ephemeral_port ?rt1) j \<noteq> start" if "0 < j" "j < r" for j
      using Suc.prems(3) [of "Suc j"] that shift [of j] by simp
    ultimately obtain res j where IH: "searched ?rt1 (advance_port ?n) r j res" "ephemeral_loop start ?rt1 =
        Some (res, ?rt1\<lparr> sr_next_ephemeral_port := ports_from (advance_port ?n) j \<rparr>)"
      using Suc.IH [of ?rt1, OF 3(2)] by auto
    have "advance_port ?n \<noteq> start" using Suc.prems(3) [of 1] 3 by simp
    then have "ephemeral_loop start rt = ephemeral_loop start ?rt1"
      using 3(1) by (subst ephemeral_loop.simps) (simp add: Let_def)
    then have "ephemeral_loop start rt = Some (res, rt\<lparr> sr_next_ephemeral_port := ports_from ?n (Suc j) \<rparr>)"
      using IH(2) shift [of j] by simp
    then show ?thesis using searched_later [OF 3(1) IH(1)] by blast
  qed
qed simp

lemma allocate_ephemeral_port_result:
  assumes "49152 \<le> sr_next_ephemeral_port rt"
  obtains res p' where "allocate_ephemeral_port rt = Some (res, rt\<lparr> sr_next_ephemeral_port := p' \<rparr>)"
    "49152 \<le> p'" "\<And>p. res = Inr p \<Longrightarrow> 49152 \<le> p \<and> \<not> port_used rt p"
    "\<And>e. res = Inl e \<Longrightarrow> e = AddressNotAvailable \<and> (\<forall>p \<ge> 49152. port_used rt p)"
proof -
  let ?n = "sr_next_ephemeral_port rt"
  from ephemeral_loop_result [of 16384 rt ?n] ports_from_cycle [OF assms]
  obtain res j where r: "searched rt ?n 16384 j res"
    "ephemeral_loop ?n rt = Some (res, rt\<lparr> sr_next_ephemeral_port := ports_from ?n j \<rparr>)"
    by fastforce
  show ?thesis
  proof (rule that)
    show "allocate_ephemeral_port rt = Some (res, rt\<lparr> sr_next_ephemeral_port := ports_from ?n j \<rparr>)"
      using r(2) by (simp add: allocate_ephemeral_port_def)
    show "49152 \<le> p \<and> \<not> port_used rt p" if "res = Inr p" for p
      using r(1) that ports_from_ge [OF assms] by (auto simp: searched_def)
    show "e = AddressNotAvailable \<and> (\<forall>p \<ge> 49152. port_used rt p)" if "res = Inl e" for e
      using r(1) that ports_from_all [OF assms] by (auto simp: searched_def)
  qed (rule ports_from_ge [OF assms])
qed

section \<open>Tables indexed by port\<close>

locale port_registry =
  fixes ident :: "'h \<Rightarrow> u32" and addr :: "'e \<Rightarrow> SocketAddrV4"
begin

definition bound_ok :: "u32 \<Rightarrow> (u16, 'h) hash_map \<Rightarrow> ('h, 'e) hash_map \<Rightarrow> bool" where
  "bound_ok nid ports entries \<longleftrightarrow> hm_wf ports \<and> hm_wf entries \<and>
     (\<forall>p h. hm_get ports p = Some h \<longleftrightarrow> (\<exists>e. hm_get entries h = Some e \<and> sock_port (addr e) = p)) \<and>
     (\<forall>h e. hm_get entries h = Some e \<longrightarrow> ident h < nid)"

lemma bound_ok_Nil [simp]: "bound_ok nid [] []"
  by (simp add: bound_ok_def)

lemma bound_ok_mono: "bound_ok nid ports entries \<Longrightarrow> nid \<le> nid' \<Longrightarrow> bound_ok nid' ports entries"
  unfolding bound_ok_def by (meson less_le_trans)

lemma bound_ok_insert:
  assumes "bound_ok nid ports entries" "hm_get ports p = None" "sock_port (addr e) = p" "ident h = nid" "nid < nid'"
  shows "bound_ok nid' (hm_insert p h ports) (hm_insert h e entries)"
proof -
  have "hm_get entries h = None" using assms(1,4) by (cases "hm_get entries h") (auto simp: bound_ok_def)
  moreover have "\<not> (hm_get entries h' = Some e' \<and> sock_port (addr e') = p)" for h' e'
    using assms(1,2) unfolding bound_ok_def by (metis option.distinct(1))
  ultimately show ?thesis
    using assms unfolding bound_ok_def
    by (auto simp: hm_get_insert intro: less_trans)
qed

lemma bound_ok_update:
  assumes "bound_ok nid ports entries" "hm_get entries h = Some e" "addr e' = addr e"
  shows "bound_ok nid ports (hm_insert h e' entries)"
  using assms unfolding bound_ok_def by (auto simp: hm_get_insert)

lemma bound_ok_remove:
  assumes "bound_ok nid ports entries" "hm_get entries h = Some e"
  shows "bound_ok nid (hm_remove (sock_port (addr e)) ports) (hm_remove h entries)"
proof -
  have inj: "h' = h" if "hm_get entries h' = Some e'" "sock_port (addr e') = sock_port (addr e)" for h' e'
    using that assms unfolding bound_ok_def by (metis option.inject)
  show ?thesis
    using assms unfolding bound_ok_def by (auto simp: hm_get_remove dest: inj split: if_splits)
qed

lemma one_entry_per_port:
  "bound_ok nid ports entries \<Longrightarrow> hm_get entries h = Some e \<Longrightarrow> hm_get entries h' = Some e' \<Longrightarrow>
   sock_port (addr e) = sock_port (addr e') \<Longrightarrow> h = h'"
  unfolding bound_ok_def by (metis option.inject)

end

interpretation udp_tab: port_registry udp_id us_local_addr .
interpretation listen_tab: port_registry listener_id tl_local_addr .

lemma hm_contains_simps [simp]:
  "hm_contains (hm_insert k v m) x \<longleftrightarrow> x = k \<or> hm_contains m x"
  "hm_contains (hm_remove k m) x \<longleftrightarrow> x \<noteq> k \<and> hm_contains m x"
  "\<not> hm_contains [] x"
  by (auto simp: hm_contains_def hm_get_insert hm_get_remove)

lemma hm_get_NoneI: "\<not> hm_contains m k \<Longrightarrow> hm_get m k = None"
  by (simp add: hm_contains_def)

section \<open>Connections, streams and finished streams\<close>

definition conn_ok ::
  "u32 \<Rightarrow> (TcpStreamHandle, TcpStreamEntry) hash_map \<Rightarrow>
   (TcpConnectionKey, TcpStreamHandle \<times> TcpConnection) hash_map \<Rightarrow>
   (TcpStreamHandle, TcpState \<times> TcpStats \<times> bytes) hash_map \<Rightarrow> TcpStreamHandle list \<Rightarrow> bool" where
  "conn_ok nid streams conns finished order \<longleftrightarrow>
     hm_wf streams \<and> hm_wf conns \<and> hm_wf finished \<and> distinct order \<and>
     (\<forall>h. h \<in> set order \<longleftrightarrow> hm_contains finished h) \<and>
     (\<forall>h \<in> set order. stream_id h < nid) \<and>
     (\<forall>h e. hm_get streams h = Some e \<longrightarrow> stream_id h < nid) \<and>
     (\<forall>k h c. hm_get conns k = Some (h, c) \<longrightarrow>
        stream_id h < nid \<and> h \<notin> set order \<and> addrs c = (key_local k, key_remote k) \<and>
        (\<forall>e. hm_get streams h = Some e \<longrightarrow> ts_connection_key e = k)) \<and>
     (\<forall>k k' h c c'. hm_get conns k = Some (h, c) \<longrightarrow> hm_get conns k' = Some (h, c') \<longrightarrow> k = k')"

lemma conn_ok_Nil [simp]: "conn_ok nid [] [] [] []"
  by (simp add: conn_ok_def)

lemma conn_ok_mono: "conn_ok nid streams conns finished order \<Longrightarrow> nid \<le> nid' \<Longrightarrow> conn_ok nid' streams conns finished order"
  unfolding conn_ok_def by (meson less_le_trans)

lemma conn_ok_new:
  assumes "conn_ok nid streams conns finished order" "hm_get conns k = None" "stream_id h = nid" "nid < nid'"
    "addrs c = (key_local k, key_remote k)"
  shows "conn_ok nid' (hm_insert h \<lparr> ts_handle = h, ts_connection_key = k \<rparr> streams)
    (hm_insert k (h, c) conns) finished order"
proof -
  have "hm_get conns k' \<noteq> Some (h, c')" for k' c'
    using assms(1,3) unfolding conn_ok_def by (metis less_irrefl)
  moreover have "h \<notin> set order" using assms(1,3) unfolding conn_ok_def by (metis less_irrefl)
  moreover have "conn_ok nid' streams conns finished order"
    using assms(1,4) by (auto intro: conn_ok_mono)
  ultimately show ?thesis
    using assms(2-) unfolding conn_ok_def by (auto simp: hm_get_insert)
qed

lemma conn_ok_update:
  assumes "conn_ok nid streams conns finished order" "hm_get conns k = Some (h, c)" "addrs c' = addrs c"
  shows "conn_ok nid streams (hm_insert k (h, c') conns) finished order"
  using assms unfolding conn_ok_def by (auto simp: hm_get_insert)

lemma conn_ok_remove_conn:
  "conn_ok nid streams conns finished order \<Longrightarrow> conn_ok nid streams (hm_remove k conns) finished order"
  unfolding conn_ok_def by (auto simp: hm_get_remove split: if_splits)

lemma conn_ok_remove_stream:
  "conn_ok nid streams conns finished order \<Longrightarrow> conn_ok nid (hm_remove h streams) conns finished order"
  unfolding conn_ok_def by (auto simp: hm_get_remove split: if_splits)

lemma conn_ok_forget:
  "conn_ok nid streams conns finished order \<Longrightarrow>
   conn_ok nid streams conns (hm_remove h finished) (filter (\<lambda>x. x \<noteq> h) order)"
  unfolding conn_ok_def by (auto simp: hm_get_remove split: if_splits)

lemma conn_ok_residual:
  "conn_ok nid streams conns finished order \<Longrightarrow> hm_contains finished h \<Longrightarrow>
   conn_ok nid streams conns (hm_insert h r finished) order"
  unfolding conn_ok_def by (auto simp: hm_get_insert split: if_splits)

lemma conn_ok_reap:
  assumes "conn_ok nid streams conns finished order" "hm_get conns k = Some (h, c)"
  shows "\<not> hm_contains finished h"
    "conn_ok nid streams (hm_remove k conns) (hm_insert h r finished) (order @ [h])"
  using assms unfolding conn_ok_def
  by (auto simp: hm_get_insert hm_get_remove split: if_splits)

section \<open>The invariant and the operations\<close>

definition sock_inv :: "SocketRuntime \<Rightarrow> bool" where
  "sock_inv rt \<longleftrightarrow>
     49152 \<le> sr_next_ephemeral_port rt \<and>
     udp_tab.bound_ok (sr_next_socket_id rt) (sr_udp_port_map rt) (sr_udp_sockets rt) \<and>
     listen_tab.bound_ok (sr_next_socket_id rt) (sr_tcp_listener_ports rt) (sr_tcp_listeners rt) \<and>
     conn_ok (sr_next_socket_id rt) (sr_tcp_streams rt) (sr_tcp_connections rt) (sr_closed_streams rt)
       (sr_closed_order rt) \<and>
     length (sr_closed_order rt) \<le> MAX_CLOSED_STREAM_HISTORY \<and>
     (\<forall>lh l. hm_get (sr_tcp_listeners rt) lh = Some l \<longrightarrow>
        tl_backlog l = 128 \<and> length (tl_accept_queue l) \<le> 128)"

datatype sock_event =
    SUdpBind SocketAddrV4
  | SUdpSend UdpSocketHandle bytes SocketAddrV4
  | SUdpRecv UdpSocketHandle
  | SUdpClose UdpSocketHandle
  | SUdpDatagram SocketAddrV4 SocketAddrV4 bytes
  | SUdpOption UdpSocketHandle "UdpSocketOptions \<Rightarrow> UdpSocketOptions"
  | SListen SocketAddrV4
  | SListenAny u16
  | SAccept TcpListenerHandle
  | SListenerClose TcpListenerHandle
  | SConnect SocketAddrV4
  | SConnectFrom SocketAddrV4 SocketAddrV4 u32
  | SWrite TcpStreamHandle bytes
  | SRead TcpStreamHandle nat
  | SShutdown TcpStreamHandle
  | SAbort TcpStreamHandle u64
  | SRelease TcpStreamHandle
  | STcpOption TcpStreamHandle "TcpSocketOptions \<Rightarrow> TcpSocketOptions"
  | SDefaultMss u16
  | SSegment Ipv4Address Ipv4Address TcpSegment u64
  | STimers u64

fun sock_step :: "sock_event \<Rightarrow> SocketRuntime \<Rightarrow> SocketRuntime option" where
  "sock_step (SUdpBind a) rt = map_option snd (socket_udp_bind a rt)"
| "sock_step (SUdpSend h data remote) rt = map_option snd (udp_send_to h data remote rt)"
| "sock_step (SUdpRecv h) rt = Some (snd (udp_recv_from h rt))"
| "sock_step (SUdpClose h) rt = Some (snd (udp_close h rt))"
| "sock_step (SUdpDatagram src dst payload) rt = Some (snd (dispatch_udp src dst payload rt))"
| "sock_step (SUdpOption h f) rt = Some (snd (update_udp_options h f rt))"
| "sock_step (SListen a) rt = map_option snd (tcp_listen a rt)"
| "sock_step (SListenAny port) rt = Some (snd (tcp_listen_any port rt))"
| "sock_step (SAccept h) rt = Some (snd (tcp_accept h rt))"
| "sock_step (SListenerClose h) rt = Some (snd (tcp_listener_close h rt))"
| "sock_step (SConnect remote) rt = map_option snd (tcp_connect remote rt)"
| "sock_step (SConnectFrom a b isn) rt = map_option snd (tcp_connect_from a b isn rt)"
| "sock_step (SWrite h data) rt = Some (snd (socket_tcp_write h data rt))"
| "sock_step (SRead h n) rt = Some (snd (socket_tcp_read h n rt))"
| "sock_step (SShutdown h) rt = map_option snd (tcp_shutdown h rt)"
| "sock_step (SAbort h now_ms) rt = tcp_abort h now_ms rt"
| "sock_step (SRelease h) rt = Some (tcp_release h rt)"
| "sock_step (STcpOption h f) rt = Some (snd (update_tcp_options h f rt))"
| "sock_step (SDefaultMss mss) rt = Some (set_default_mss mss rt)"
| "sock_step (SSegment src dst seg now_ms) rt = map_option snd (dispatch_tcp_segment src dst seg now_ms rt)"
| "sock_step (STimers now_ms) rt = map_option snd (socket_step_timers now_ms rt)"

text \<open>The counter after one more handle.\<close>

lemma next_id_less: "(n :: u32) \<noteq> - 1 \<Longrightarrow> n < n + 1 \<and> n \<le> n + 1"
proof -
  assume n: "n \<noteq> - 1"
  have "unat (- 1 :: u32) = 4294967295" by (simp add: unsigned_minus_1_eq_mask mask_eq_exp_minus_1)
  then have "unat n \<noteq> 4294967295" using n by (metis unsigned_word_eqI)
  then have "unat n < 4294967295" using unat_bound [of n] by simp
  then have "unat (n + 1) = unat n + 1" by (simp add: unat_word_ariths)
  then show ?thesis by (simp add: word_less_nat_alt word_le_nat_alt)
qed

text \<open>What the operations that allocate a handle keep.\<close>

lemma sock_inv_id:
  "sock_inv rt \<Longrightarrow> sr_next_socket_id rt \<noteq> - 1 \<Longrightarrow> sock_inv (rt\<lparr> sr_next_socket_id := sr_next_socket_id rt + 1 \<rparr>)"
  using next_id_less [of "sr_next_socket_id rt"]
  by (auto simp: sock_inv_def intro: udp_tab.bound_ok_mono listen_tab.bound_ok_mono conn_ok_mono)

lemma bind_addr_inv:
  assumes "bind_addr ports a rt = Some (res, rt')" "49152 \<le> sr_next_ephemeral_port rt"
    and free: "\<And>p. \<not> port_used rt p \<Longrightarrow> \<not> hm_contains (ports rt) p"
  shows "\<exists>p'. rt' = rt\<lparr> sr_next_ephemeral_port := p' \<rparr> \<and> 49152 \<le> p'"
    and "res = Inr b \<Longrightarrow> \<not> hm_contains (ports rt) (sock_port b)"
proof -
  let ?a = "if ip_is_unspecified (sock_ip a) then a\<lparr> sock_ip := sr_default_ip rt \<rparr> else a"
  show "\<exists>p'. rt' = rt\<lparr> sr_next_ephemeral_port := p' \<rparr> \<and> 49152 \<le> p'"
  proof (rule allocate_ephemeral_port_result [OF assms(2)])
    fix r p'
    assume "allocate_ephemeral_port rt = Some (r, rt\<lparr> sr_next_ephemeral_port := p' \<rparr>)" "49152 \<le> p'"
    then show ?thesis
      using assms(1,2) by (auto simp: bind_addr_def Let_def split: if_splits intro: exI [of _ "sr_next_ephemeral_port rt"])
  qed
  show "\<not> hm_contains (ports rt) (sock_port b)" if "res = Inr b"
  proof (rule allocate_ephemeral_port_result [OF assms(2)])
    fix r p'
    assume "allocate_ephemeral_port rt = Some (r, rt\<lparr> sr_next_ephemeral_port := p' \<rparr>)"
      "\<And>p. r = Inr p \<Longrightarrow> 49152 \<le> p \<and> \<not> port_used rt p"
    then show ?thesis
      using assms(1) that free by (auto simp: bind_addr_def Let_def split: if_splits sum.splits)
  qed
qed

lemma connect_result:
  assumes "initiate_syn_at t (with_mss mss (new_client l r isn)) = Some (pkt, c)"
  shows "addrs c = (l, r)"
  using assms by (auto simp: initiate_syn_at_def Let_def bind_eq_Some_conv)
    (simp add: addrs_def with_mss_def new_client_def)

lemma accept_result:
  assumes "handle_segment_at seg t (with_mss mss (new_server l r isn)) = Some (reply, c)"
  shows "addrs c = (l, r)"
  using assms stays_segment [of "with_mss mss (new_server l r isn)" seg t]
  by (simp add: stays_def) (simp add: addrs_def with_mss_def new_server_def)

text \<open>UDP sockets and listeners.\<close>

lemma udp_bind_inv:
  assumes "sock_inv rt" "sr_next_socket_id rt \<noteq> - 1" "socket_udp_bind a rt = Some (res, rt')"
  shows "sock_inv rt'"
proof -
  obtain r rt1 where b: "bind_addr sr_udp_port_map a rt = Some (r, rt1)"
    using assms(3) by (auto simp: socket_udp_bind_def bind_eq_Some_conv)
  note facts = bind_addr_inv [OF b]
  obtain p' where rt1: "rt1 = rt\<lparr> sr_next_ephemeral_port := p' \<rparr>" "49152 \<le> p'"
    using facts(1) assms(1) by (auto simp: sock_inv_def port_used_def)
  have inv: "sock_inv rt1" using assms(1) rt1 by (simp add: sock_inv_def)
  show ?thesis
  proof (cases r)
    case (Inr l)
    then have "hm_get (sr_udp_port_map rt1) (sock_port l) = None"
      using facts(2) [of l] assms(1) rt1 by (auto simp: sock_inv_def port_used_def hm_contains_def)
    moreover have "sock_inv (rt1\<lparr> sr_next_socket_id := sr_next_socket_id rt1 + 1 \<rparr>)"
      using sock_inv_id [OF inv] assms(2) rt1 by simp
    ultimately show ?thesis
      using assms(2,3) b Inr inv rt1 next_id_less [of "sr_next_socket_id rt1"]
      by (auto simp: socket_udp_bind_def next_id_def Let_def sock_inv_def intro!: udp_tab.bound_ok_insert)
  qed (use assms(3) b inv in \<open>auto simp: socket_udp_bind_def\<close>)
qed

lemma open_listener_inv:
  assumes "sock_inv rt" "sr_next_socket_id rt \<noteq> - 1" "\<not> hm_contains (sr_tcp_listener_ports rt) (sock_port a)"
  shows "sock_inv (snd (open_listener a rt))"
  using sock_inv_id [OF assms(1,2)] assms next_id_less [OF assms(2)]
  by (auto simp: open_listener_def next_id_def Let_def sock_inv_def hm_contains_def hm_get_insert
      intro!: listen_tab.bound_ok_insert)

lemma tcp_listen_inv:
  assumes "sock_inv rt" "sr_next_socket_id rt \<noteq> - 1" "tcp_listen a rt = Some (res, rt')"
  shows "sock_inv rt'"
proof -
  obtain r rt1 where b: "bind_addr sr_tcp_listener_ports a rt = Some (r, rt1)"
    using assms(3) by (auto simp: tcp_listen_def bind_eq_Some_conv)
  note facts = bind_addr_inv [OF b]
  obtain p' where rt1: "rt1 = rt\<lparr> sr_next_ephemeral_port := p' \<rparr>" "49152 \<le> p'"
    using facts(1) assms(1) by (auto simp: sock_inv_def port_used_def)
  have inv: "sock_inv rt1" "sr_next_socket_id rt1 \<noteq> - 1" using assms(1,2) rt1 by (simp_all add: sock_inv_def)
  show ?thesis
  proof (cases r)
    case (Inr l)
    then have "\<not> hm_contains (sr_tcp_listener_ports rt1) (sock_port l)"
      using facts(2) [of l] assms(1) rt1 by (auto simp: sock_inv_def port_used_def)
    then show ?thesis
      using open_listener_inv [OF inv, of l] assms(3) b Inr by (simp add: tcp_listen_def)
  qed (use assms(3) b inv in \<open>auto simp: tcp_listen_def\<close>)
qed

lemma accept_loop_shrinks: "length (snd (accept_loop streams queue)) \<le> length queue"
  by (induction streams queue rule: accept_loop.induct) (auto split: option.split)

lemma udp_ops_inv:
  assumes "sock_inv rt"
  shows "udp_send_to h data remote rt = Some (res, rt') \<Longrightarrow> sock_inv rt'"
    "sock_inv (snd (udp_recv_from h rt))" "sock_inv (snd (udp_close h rt))"
    "sock_inv (snd (dispatch_udp src dst payload rt))" "sock_inv (snd (update_udp_options h f rt))"
  using assms
  by (auto simp: udp_send_to_def udp_recv_from_def udp_close_def dispatch_udp_def update_udp_options_def
      Let_def bind_eq_Some_conv sock_inv_def udp_tab.bound_ok_remove
      split: option.splits list.splits if_splits intro: udp_tab.bound_ok_update)

lemma tcp_accept_inv: "sock_inv rt \<Longrightarrow> sock_inv (snd (tcp_accept lh rt))"
proof (cases "hm_get (sr_tcp_listeners rt) lh")
  case (Some l)
  assume inv: "sock_inv rt"
  obtain r q where q: "accept_loop (sr_tcp_streams rt) (tl_accept_queue l) = (r, q)" by fastforce
  then have "length q \<le> length (tl_accept_queue l)"
    using accept_loop_shrinks [of "sr_tcp_streams rt" "tl_accept_queue l"] by simp
  moreover have "tl_backlog l = 128" "length (tl_accept_queue l) \<le> 128" using inv Some by (auto simp: sock_inv_def)
  ultimately have "tl_backlog l = 128" "length q \<le> 128" by simp_all
  then show ?thesis
    using inv Some q
    by (auto simp: tcp_accept_def sock_inv_def hm_get_insert intro: listen_tab.bound_ok_update)
qed (simp add: tcp_accept_def)

lemma abandon_inv: "sock_inv rt \<Longrightarrow> sock_inv (fold abandon_stream queue rt)"
proof (induction queue arbitrary: rt)
  case (Cons h queue)
  from Cons.prems have "sock_inv (abandon_stream h rt)"
    by (simp add: abandon_stream_def Let_def sock_inv_def conn_ok_remove_stream conn_ok_remove_conn
        split: option.split)
  then show ?case using Cons.IH by simp
qed simp

lemma listener_close_inv: "sock_inv rt \<Longrightarrow> sock_inv (snd (tcp_listener_close lh rt))"
  by (auto simp: tcp_listener_close_def Let_def split: option.split intro!: abandon_inv)
     (auto simp: sock_inv_def listen_tab.bound_ok_remove hm_get_remove split: if_splits)

text \<open>TCP streams.\<close>

lemma tcp_connect_from_inv:
  assumes "sock_inv rt" "sr_next_socket_id rt \<noteq> - 1" "tcp_connect_from a b isn rt = Some (res, rt')"
  shows "sock_inv rt'"
proof -
  let ?a = "if ip_is_unspecified (sock_ip a) then a\<lparr> sock_ip := sr_default_ip rt \<rparr> else a"
  obtain r rt1 where p: "(if sock_port ?a = 0 then allocate_ephemeral_port rt else Some (Inr (sock_port ?a), rt)) = Some (r, rt1)"
    using assms(3) by (auto simp: tcp_connect_from_def Let_def bind_eq_Some_conv)
  have "sock_inv rt1 \<and> sr_next_socket_id rt1 = sr_next_socket_id rt"
  proof (rule allocate_ephemeral_port_result [of rt])
    show "49152 \<le> sr_next_ephemeral_port rt" using assms(1) by (simp add: sock_inv_def)
    show ?thesis if "allocate_ephemeral_port rt = Some (x, rt\<lparr> sr_next_ephemeral_port := p' \<rparr>)" "49152 \<le> p'" for x p'
      using p that assms(1) by (auto simp: sock_inv_def split: if_splits)
  qed
  then have inv: "sock_inv rt1" "sr_next_socket_id rt1 \<noteq> - 1" using assms(2) by simp_all
  show ?thesis
  proof (cases r)
    case (Inl e)
    then show ?thesis using assms(3) p inv by (simp add: tcp_connect_from_def Let_def)
  next
    case (Inr port)
    let ?l = "?a\<lparr> sock_port := port \<rparr>"
    let ?k = "\<lparr> key_local = ?l, key_remote = b \<rparr>"
    let ?rt2 = "rt1\<lparr> sr_next_socket_id := sr_next_socket_id rt1 + 1 \<rparr>"
    show ?thesis
    proof (cases "hm_contains (sr_tcp_connections rt1) ?k")
      case True
      then show ?thesis using assms(3) p inv Inr by (simp add: tcp_connect_from_def Let_def)
    next
      case False
      then obtain pkt c where c: "initiate_syn_at (sr_current_time_ms rt1) (with_mss (sr_default_mss rt1) (new_client ?l b isn)) = Some (pkt, c)"
        and rt': "rt' = ?rt2\<lparr> sr_tcp_connections := hm_insert ?k (TcpStreamHandle (sr_next_socket_id rt1), c) (sr_tcp_connections rt1),
             sr_tcp_streams := hm_insert (TcpStreamHandle (sr_next_socket_id rt1))
               \<lparr> ts_handle = TcpStreamHandle (sr_next_socket_id rt1), ts_connection_key = ?k \<rparr> (sr_tcp_streams rt1),
             sr_tcp_tx := sr_tcp_tx rt1 @ [(?l, b, pkt)] \<rparr>"
        using assms(3) p Inr by (auto simp: tcp_connect_from_def Let_def bind_eq_Some_conv next_id_def simp del: if_split)
      have "sock_inv ?rt2" by (rule sock_inv_id [OF inv])
      moreover have "conn_ok (sr_next_socket_id rt1 + 1) (sr_tcp_streams rt') (sr_tcp_connections rt') (sr_closed_streams rt1) (sr_closed_order rt1)"
        using inv False connect_result [OF c] next_id_less [OF inv(2)] unfolding rt'
        by (auto simp: sock_inv_def intro!: conn_ok_new hm_get_NoneI)
      ultimately show ?thesis unfolding rt' sock_inv_def by simp
    qed
  qed
qed

lemma tcp_connect_inv:
  assumes "sock_inv rt" "sr_next_socket_id rt \<noteq> - 1" "tcp_connect b rt = Some (res, rt')"
  shows "sock_inv rt'"
proof (rule allocate_ephemeral_port_result [of rt])
  show "49152 \<le> sr_next_ephemeral_port rt" using assms(1) by (simp add: sock_inv_def)
  fix x p' assume a: "allocate_ephemeral_port rt = Some (x, rt\<lparr> sr_next_ephemeral_port := p' \<rparr>)" "49152 \<le> p'"
  have inv: "sock_inv (rt\<lparr> sr_next_ephemeral_port := p', sr_isn_counter := i \<rparr>)" for i
    using assms(1) a(2) by (simp add: sock_inv_def)
  show ?thesis
  proof (cases x)
    case (Inl e)
    then show ?thesis using assms a by (auto simp: tcp_connect_def sock_inv_def)
  next
    case (Inr port)
    then show ?thesis
      using assms(2,3) a tcp_connect_from_inv [OF inv] by (auto simp: tcp_connect_def next_isn_def Let_def)
  qed
qed

lemma update_conn_inv:
  assumes "sock_inv rt" "hm_get (sr_tcp_connections rt) k = Some (h, c)" "addrs c' = addrs c"
  shows "sock_inv (rt\<lparr> sr_tcp_connections := hm_insert k (h, c') (sr_tcp_connections rt) \<rparr>)"
  using assms by (simp add: sock_inv_def conn_ok_update)

lemma tcp_write_inv: "sock_inv rt \<Longrightarrow> sock_inv (snd (socket_tcp_write h data rt))"
  using addrs_counts(21)
  by (auto simp: socket_tcp_write_def Let_def split_beta split: option.split intro!: update_conn_inv)

lemma tcp_read_inv:
  assumes "sock_inv rt"
  shows "sock_inv (snd (socket_tcp_read h n rt))"
proof (cases "key_of rt h")
  case (Inr k)
  show ?thesis
  proof (cases "hm_get (sr_tcp_connections rt) k")
    case None
    then show ?thesis
      using Inr assms by (auto simp: socket_tcp_read_def sock_inv_def Let_def hm_contains_def split: option.split
          intro!: conn_ok_residual)
  next
    case (Some hc)
    obtain x c where hc: "hc = (x, c)" by fastforce
    obtain out c' where r: "tcp_read n c = (out, c')" by fastforce
    have "addrs c' = addrs c" using addrs_counts(20) [of n c] r by simp
    then have "sock_inv (rt\<lparr> sr_tcp_connections := hm_insert k (x, c') (sr_tcp_connections rt) \<rparr>)"
      using update_conn_inv assms Some hc by blast
    then show ?thesis using Inr Some hc r by (simp add: socket_tcp_read_def Let_def)
  qed
qed (use assms in \<open>simp add: socket_tcp_read_def\<close>)

lemma conn_op_addrs:
  "initiate_close_at t c = Some (r1, c') \<Longrightarrow> addrs c' = addrs c"
  "handle_segment_at seg t c = Some (r2, c') \<Longrightarrow> addrs c' = addrs c"
  "poll_output t c = Some (r3, c') \<Longrightarrow> addrs c' = addrs c"
  using conn_step_addrs [of "EvClose t" c] conn_step_addrs [of "EvSegment seg t" c]
    conn_step_addrs [of "EvPoll t" c] by simp_all

lemma tcp_shutdown_inv:
  assumes "sock_inv rt" "tcp_shutdown h rt = Some (res, rt')"
  shows "sock_inv rt'"
proof (cases "key_of rt h")
  case (Inr k)
  show ?thesis
  proof (cases "hm_get (sr_tcp_connections rt) k")
    case (Some hc)
    obtain x c where hc: "hc = (x, c)" by fastforce
    then obtain fin c' where c': "initiate_close_at (sr_current_time_ms rt) c = Some (fin, c')"
      using assms(2) Inr Some by (auto simp: tcp_shutdown_def bind_eq_Some_conv)
    then have "sock_inv (rt\<lparr> sr_tcp_connections := hm_insert k (x, c') (sr_tcp_connections rt) \<rparr>)"
      using update_conn_inv [OF assms(1)] Some hc conn_op_addrs(1) by blast
    then show ?thesis
      using assms(2) Inr Some hc c' by (auto simp: tcp_shutdown_def Let_def sock_inv_def split: option.splits)
  qed (use assms Inr in \<open>simp add: tcp_shutdown_def\<close>)
qed (use assms in \<open>simp add: tcp_shutdown_def\<close>)

lemma tcp_release_inv: "sock_inv rt \<Longrightarrow> sock_inv (tcp_release h rt)"
  by (auto simp: tcp_release_def sock_inv_def conn_ok_forget conn_ok_remove_stream
      intro: order_trans [OF length_filter_le])

lemma tcp_abort_inv:
  assumes "sock_inv rt" "tcp_abort h t rt = Some rt'"
  shows "sock_inv rt'"
proof -
  have "sock_inv (rt\<lparr> sr_tcp_connections := hm_remove k (sr_tcp_connections rt), sr_tcp_tx := q \<rparr>)" for k q
    using assms(1) by (simp add: sock_inv_def conn_ok_remove_conn)
  then show ?thesis
    using assms by (auto simp: tcp_abort_def bind_eq_Some_conv split: sum.splits option.splits intro!: tcp_release_inv)
qed

lemma accept_syn_inv:
  assumes "sock_inv rt" "sr_next_socket_id rt \<noteq> - 1" "hm_get (sr_tcp_connections rt) k = None"
    "\<not> backlog_full rt lh" "accept_syn k lh seg t rt = Some (out, rt')"
  shows "sock_inv rt'"
proof -
  obtain l where l: "hm_get (sr_tcp_listeners rt) lh = Some l" "length (tl_accept_queue l) < tl_backlog l"
    using assms(4) by (auto simp: backlog_full_def split: option.splits)
  let ?h = "TcpStreamHandle (sr_next_socket_id rt)"
  let ?l = "l\<lparr> tl_next_isn := tl_next_isn l + 64000, tl_accept_queue := tl_accept_queue l @ [?h] \<rparr>"
  let ?rt1 = "rt\<lparr> sr_next_socket_id := sr_next_socket_id rt + 1 \<rparr>"
  obtain r c where c: "handle_segment_at seg t (with_mss (sr_default_mss rt) (new_server (key_local k) (key_remote k) (tl_next_isn l))) = Some (r, c)"
    and rt': "rt' = ?rt1\<lparr> sr_tcp_streams := hm_insert ?h \<lparr> ts_handle = ?h, ts_connection_key = k \<rparr> (sr_tcp_streams rt),
       sr_tcp_listeners := hm_insert lh ?l (sr_tcp_listeners rt),
       sr_tcp_connections := hm_insert k (?h, c) (sr_tcp_connections rt) \<rparr>"
    using assms(5) l by (auto simp: accept_syn_def Let_def bind_eq_Some_conv next_id_def)
  have "sock_inv ?rt1" by (rule sock_inv_id [OF assms(1,2)])
  moreover have "conn_ok (sr_next_socket_id rt + 1) (sr_tcp_streams rt') (sr_tcp_connections rt') (sr_closed_streams rt) (sr_closed_order rt)"
    using assms(1,3) accept_result [OF c] next_id_less [OF assms(2)] unfolding rt'
    by (auto simp: sock_inv_def intro!: conn_ok_new)
  moreover have "listen_tab.bound_ok (sr_next_socket_id rt + 1) (sr_tcp_listener_ports rt) (hm_insert lh ?l (sr_tcp_listeners rt))"
    using l(1) \<open>sock_inv ?rt1\<close> by (intro listen_tab.bound_ok_update) (auto simp: sock_inv_def)
  moreover have "tl_backlog l = 128" using assms(1) l(1) by (simp add: sock_inv_def)
  ultimately show ?thesis using l(2) unfolding rt' sock_inv_def by (auto simp: hm_get_insert)
qed

lemma dispatch_inv:
  assumes "sock_inv rt" "sr_next_socket_id rt \<noteq> - 1" "dispatch_tcp_segment src dst seg t rt = Some (out, rt')"
  shows "sock_inv rt'"
proof -
  let ?rt = "rt\<lparr> sr_current_time_ms := t \<rparr>" and ?k = "segment_key src dst seg"
  have inv: "sock_inv ?rt" "sr_next_socket_id ?rt \<noteq> - 1" using assms(1,2) by (simp_all add: sock_inv_def)
  show ?thesis
  proof (cases "hm_get (sr_tcp_connections rt) ?k")
    case None
    then have "sock_inv rt'" if "accept_syn ?k lh seg t ?rt = Some (out, rt')" "\<not> backlog_full ?rt lh" for lh
      using accept_syn_inv [OF inv] that by simp
    then show ?thesis
      using assms(3) inv(1) None
      by (auto simp: dispatch_tcp_segment_def Let_def bind_eq_Some_conv split: option.splits if_splits)
  next
    case (Some hc)
    obtain x c where hc: "hc = (x, c)" by fastforce
    then obtain r c1 ps c2 where c: "handle_segment_at seg t c = Some (r, c1)" "poll_output t c1 = Some (ps, c2)"
      "rt' = ?rt\<lparr> sr_tcp_connections := hm_insert ?k (x, c2) (sr_tcp_connections rt) \<rparr>"
      using assms(3) Some by (auto simp: dispatch_tcp_segment_def Let_def bind_eq_Some_conv)
    then have "addrs c2 = addrs c" using conn_op_addrs(2,3) by metis
    then show ?thesis using update_conn_inv [OF inv(1), of ?k x c c2] Some hc c(3) by simp
  qed
qed

text \<open>The timer pump.\<close>

lemma socket_poll_loop_ok:
  assumes "socket_poll_loop t keys conns = Some (out, conns')" "conn_ok nid streams conns fin order"
  shows "conn_ok nid streams conns' fin order"
  using assms
proof (induction t keys conns arbitrary: out conns' rule: socket_poll_loop.induct)
  case (2 t k keys conns)
  show ?case
  proof (cases "hm_get conns k")
    case (Some hc)
    obtain x c where hc: "hc = (x, c)" by fastforce
    then obtain ps c' out2 where c: "poll_output t c = Some (ps, c')"
      "socket_poll_loop t keys (hm_insert k (x, c') conns) = Some (out2, conns')"
      using 2(3) Some by (auto simp: bind_eq_Some_conv)
    have "conn_ok nid streams (hm_insert k (x, c') conns) fin order"
      using conn_ok_update [OF 2(4)] Some hc conn_op_addrs(3) [OF c(1)] by blast
    then show ?thesis using 2(2) Some hc c by blast
  qed (use 2 in auto)
qed auto

lemma reap_loop_ok:
  assumes "conn_ok nid (sr_tcp_streams rt) (sr_tcp_connections rt) (sr_closed_streams rt) (sr_closed_order rt)"
  shows "conn_ok nid (sr_tcp_streams (reap_loop keys rt)) (sr_tcp_connections (reap_loop keys rt))
    (sr_closed_streams (reap_loop keys rt)) (sr_closed_order (reap_loop keys rt))"
  using assms
proof (induction keys rt rule: reap_loop.induct)
  case (2 k keys rt)
  show ?case
  proof (cases "hm_get (sr_tcp_connections rt) k")
    case (Some hc)
    obtain x c where hc: "hc = (x, c)" by fastforce
    note r = conn_ok_reap [OF 2(3) Some [unfolded hc]]
    then show ?thesis
      using 2(2) [OF Some [unfolded hc] refl] Some hc by (simp add: hm_get_NoneI Let_def)
  qed (use 2 in simp)
qed simp

lemma evict_closed_ok:
  assumes "conn_ok nid (sr_tcp_streams rt) (sr_tcp_connections rt) (sr_closed_streams rt) (sr_closed_order rt)"
  shows "conn_ok nid (sr_tcp_streams (evict_closed rt)) (sr_tcp_connections (evict_closed rt))
      (sr_closed_streams (evict_closed rt)) (sr_closed_order (evict_closed rt)) \<and>
    length (sr_closed_order (evict_closed rt)) \<le> MAX_CLOSED_STREAM_HISTORY"
  using assms
proof (induction rt rule: evict_closed.induct)
  case (1 rt)
  show ?case
  proof (cases "length (sr_closed_order rt) > MAX_CLOSED_STREAM_HISTORY")
    case True
    then obtain old rest where order: "sr_closed_order rt = old # rest" by (cases "sr_closed_order rt") auto
    then have "filter (\<lambda>x. x \<noteq> old) (old # rest) = rest"
      using 1(2) by (auto simp: conn_ok_def intro: filter_True)
    then have "conn_ok nid (hm_remove old (sr_tcp_streams rt)) (sr_tcp_connections rt)
        (hm_remove old (sr_closed_streams rt)) rest"
      using conn_ok_forget [OF 1(2), of old] order by (simp add: conn_ok_remove_stream)
    then show ?thesis using 1(1) [OF True order] True order by (subst (1 2 3 4 5) evict_closed.simps) simp
  qed (use 1(2) in \<open>simp add: evict_closed.simps\<close>)
qed

lemma reap_closed_ok:
  assumes "conn_ok nid (sr_tcp_streams rt) (sr_tcp_connections rt) (sr_closed_streams rt) (sr_closed_order rt)"
  shows "conn_ok nid (sr_tcp_streams (reap_closed t rt)) (sr_tcp_connections (reap_closed t rt))
      (sr_closed_streams (reap_closed t rt)) (sr_closed_order (reap_closed t rt))"
    "length (sr_closed_order (reap_closed t rt)) \<le> MAX_CLOSED_STREAM_HISTORY"
  using evict_closed_ok [OF reap_loop_ok [OF assms]] by (simp_all add: reap_closed_def Let_def)

text \<open>The fields that reclaiming connections leaves alone.\<close>

definition outer_view :: "SocketRuntime \<Rightarrow> u32 \<times> u16 \<times> (u16, UdpSocketHandle) hash_map \<times>
    (UdpSocketHandle, UdpSocketEntry) hash_map \<times> (u16, TcpListenerHandle) hash_map \<times>
    (TcpListenerHandle, TcpListenerEntry) hash_map \<times> (TcpStreamHandle, TcpSocketOptions) hash_map" where
  "outer_view rt = (sr_next_socket_id rt, sr_next_ephemeral_port rt, sr_udp_port_map rt, sr_udp_sockets rt,
     sr_tcp_listener_ports rt, sr_tcp_listeners rt, sr_tcp_options rt)"

lemma reap_loop_outer: "outer_view (reap_loop keys rt) = outer_view rt"
  by (induction keys rt rule: reap_loop.induct) (auto simp: Let_def outer_view_def split: option.split)

lemma evict_closed_outer: "outer_view (evict_closed rt) = outer_view rt"
proof (induction rt rule: evict_closed.induct)
  case (1 rt)
  then show ?case
    by (subst evict_closed.simps) (cases "sr_closed_order rt"; simp add: outer_view_def)
qed

lemma reap_closed_outer: "outer_view (reap_closed t rt) = outer_view rt"
  by (simp add: reap_closed_def evict_closed_outer reap_loop_outer)

lemma step_timers_inv:
  assumes "sock_inv rt" "socket_step_timers t rt = Some (out, rt')"
  shows "sock_inv rt'"
proof -
  let ?rt1 = "rt\<lparr> sr_current_time_ms := t, sr_udp_tx := [], sr_tcp_tx := [] \<rparr>"
  obtain out2 conns where p: "socket_poll_loop t (sort_by key_cmp (map fst (sr_tcp_connections rt)))
      (sr_tcp_connections rt) = Some (out2, conns)" "rt' = reap_closed t (?rt1\<lparr> sr_tcp_connections := conns \<rparr>)"
    using assms(2) by (auto simp: socket_step_timers_def Let_def bind_eq_Some_conv)
  let ?rt2 = "?rt1\<lparr> sr_tcp_connections := conns \<rparr>"
  have "conn_ok (sr_next_socket_id rt) (sr_tcp_streams ?rt2) (sr_tcp_connections ?rt2) (sr_closed_streams ?rt2) (sr_closed_order ?rt2)"
    using socket_poll_loop_ok [OF p(1)] assms(1) by (simp add: sock_inv_def)
  then have "conn_ok (sr_next_socket_id rt) (sr_tcp_streams rt') (sr_tcp_connections rt') (sr_closed_streams rt') (sr_closed_order rt')"
    "length (sr_closed_order rt') \<le> MAX_CLOSED_STREAM_HISTORY"
    unfolding p(2) by (rule reap_closed_ok)+
  moreover have "outer_view rt' = outer_view rt"
    using reap_closed_outer [of t ?rt2] p(2) by (simp add: outer_view_def)
  ultimately show ?thesis using assms(1) by (simp add: outer_view_def sock_inv_def)
qed

lemma sock_step_inv:
  assumes "sock_inv rt" "sr_next_socket_id rt \<noteq> - 1" "sock_step ev rt = Some rt'"
  shows "sock_inv rt'"
proof (cases ev)
  case (SListenAny port)
  have "sock_inv (snd (open_listener a rt))" if "\<not> hm_contains (sr_tcp_listener_ports rt) (sock_port a)" for a
    using open_listener_inv assms(1,2) that by blast
  then show ?thesis using SListenAny assms by (auto simp: tcp_listen_any_def)
next
  case (STcpOption h f)
  have "sock_inv (snd (update_tcp_options h f rt))"
    using assms(1) by (auto simp: update_tcp_options_def sock_inv_def Let_def split: sum.split)
  then show ?thesis using STcpOption assms(3) by simp
next
  case (SDefaultMss mss)
  then show ?thesis using assms by (auto simp: set_default_mss_def sock_inv_def)
next
  case (SUdpBind a) then show ?thesis using assms(3) udp_bind_inv [OF assms(1,2)] by auto
next
  case (SUdpSend h d r) then show ?thesis using assms(3) udp_ops_inv(1) [OF assms(1)] by auto
next
  case (SUdpRecv h) then show ?thesis using assms(3) udp_ops_inv(2) [OF assms(1)] by auto
next
  case (SUdpClose h) then show ?thesis using assms(3) udp_ops_inv(3) [OF assms(1)] by auto
next
  case (SUdpDatagram a b d) then show ?thesis using assms(3) udp_ops_inv(4) [OF assms(1)] by auto
next
  case (SUdpOption h f) then show ?thesis using assms(3) udp_ops_inv(5) [OF assms(1)] by auto
next
  case (SListen a) then show ?thesis using assms(3) tcp_listen_inv [OF assms(1,2)] by auto
next
  case (SAccept h) then show ?thesis using assms(3) tcp_accept_inv [OF assms(1)] by auto
next
  case (SListenerClose h) then show ?thesis using assms(3) listener_close_inv [OF assms(1)] by auto
next
  case (SConnect b) then show ?thesis using assms(3) tcp_connect_inv [OF assms(1,2)] by auto
next
  case (SConnectFrom a b i) then show ?thesis using assms(3) tcp_connect_from_inv [OF assms(1,2)] by auto
next
  case (SWrite h d) then show ?thesis using assms(3) tcp_write_inv [OF assms(1)] by auto
next
  case (SRead h n) then show ?thesis using assms(3) tcp_read_inv [OF assms(1)] by auto
next
  case (SShutdown h) then show ?thesis using assms(3) tcp_shutdown_inv [OF assms(1)] by auto
next
  case (SAbort h t) then show ?thesis using assms(3) tcp_abort_inv [OF assms(1)] by auto
next
  case (SRelease h) then show ?thesis using assms(3) tcp_release_inv [OF assms(1)] by auto
next
  case (SSegment a b seg t) then show ?thesis using assms(3) dispatch_inv [OF assms(1,2)] by auto
next
  case (STimers t) then show ?thesis using assms(3) step_timers_inv [OF assms(1)] by auto
qed

text \<open>At most one handle is allocated per operation.\<close>

lemma bind_addr_id:
  "bind_addr ports a rt = Some (res, rt') \<Longrightarrow> 49152 \<le> sr_next_ephemeral_port rt \<Longrightarrow>
   sr_next_socket_id rt' = sr_next_socket_id rt"
  by (rule allocate_ephemeral_port_result [of rt])
     (auto simp: bind_addr_def Let_def bind_eq_Some_conv split: if_splits)

lemma tcp_connect_from_id:
  assumes "tcp_connect_from a b isn rt = Some (res, rt')" "49152 \<le> sr_next_ephemeral_port rt"
  shows "sr_next_socket_id rt' \<in> {sr_next_socket_id rt, sr_next_socket_id rt + 1}"
proof (rule allocate_ephemeral_port_result [OF assms(2)])
  fix x p' assume "allocate_ephemeral_port rt = Some (x, rt\<lparr> sr_next_ephemeral_port := p' \<rparr>)"
  then show ?thesis
    using assms(1) by (auto simp: tcp_connect_from_def Let_def bind_eq_Some_conv next_id_def split: if_splits sum.splits)
qed

lemma tcp_connect_id:
  assumes "tcp_connect b rt = Some (res, rt')" "49152 \<le> sr_next_ephemeral_port rt"
  shows "sr_next_socket_id rt' \<in> {sr_next_socket_id rt, sr_next_socket_id rt + 1}"
proof (rule allocate_ephemeral_port_result [OF assms(2)])
  fix x p' assume a: "allocate_ephemeral_port rt = Some (x, rt\<lparr> sr_next_ephemeral_port := p' \<rparr>)" "49152 \<le> p'"
  show ?thesis
  proof (cases x)
    case (Inl e)
    then show ?thesis using assms(1) a by (auto simp: tcp_connect_def)
  next
    case (Inr port)
    then show ?thesis
      using assms(1) a tcp_connect_from_id [of _ b _ "rt\<lparr> sr_next_ephemeral_port := p', sr_isn_counter := sr_isn_counter rt + 64000 \<rparr>"]
      by (auto simp: tcp_connect_def next_isn_def Let_def)
  qed
qed

lemma fold_abandon_id: "sr_next_socket_id (fold abandon_stream queue rt) = sr_next_socket_id rt"
  by (induction queue arbitrary: rt) (auto simp: abandon_stream_def Let_def split: option.split)

lemma dispatch_id:
  assumes "dispatch_tcp_segment src dst seg t rt = Some (out, rt')"
  shows "sr_next_socket_id rt' \<in> {sr_next_socket_id rt, sr_next_socket_id rt + 1}"
proof -
  have "sr_next_socket_id rt' = sr_next_socket_id rt1 + 1" if "accept_syn k lh seg t rt1 = Some (o1, rt')" for k lh rt1 o1
    using that by (auto simp: accept_syn_def Let_def bind_eq_Some_conv next_id_def split: option.splits)
  then show ?thesis
    using assms by (auto simp: dispatch_tcp_segment_def Let_def bind_eq_Some_conv split: option.splits if_splits)
qed

lemma step_timers_id:
  "socket_step_timers t rt = Some (out, rt') \<Longrightarrow> sr_next_socket_id rt' = sr_next_socket_id rt"
  using reap_closed_outer by (fastforce simp: socket_step_timers_def Let_def bind_eq_Some_conv outer_view_def)

lemma unchanged_id [simp]:
  "sr_next_socket_id (snd (socket_tcp_write h data rt)) = sr_next_socket_id rt"
  "sr_next_socket_id (snd (socket_tcp_read h n rt)) = sr_next_socket_id rt"
  "sr_next_socket_id (snd (udp_recv_from uh rt)) = sr_next_socket_id rt"
  "sr_next_socket_id (snd (udp_close uh rt)) = sr_next_socket_id rt"
  "sr_next_socket_id (snd (dispatch_udp src dst payload rt)) = sr_next_socket_id rt"
  "sr_next_socket_id (snd (update_udp_options uh f rt)) = sr_next_socket_id rt"
  "sr_next_socket_id (snd (update_tcp_options h g rt)) = sr_next_socket_id rt"
  "sr_next_socket_id (snd (tcp_accept lh rt)) = sr_next_socket_id rt"
  "sr_next_socket_id (snd (tcp_listener_close lh rt)) = sr_next_socket_id rt"
  "sr_next_socket_id (tcp_release h rt) = sr_next_socket_id rt"
  "sr_next_socket_id (set_default_mss mss rt) = sr_next_socket_id rt"
  by (simp_all add: socket_tcp_write_def socket_tcp_read_def udp_recv_from_def udp_close_def dispatch_udp_def
      update_udp_options_def update_tcp_options_def tcp_accept_def tcp_listener_close_def tcp_release_def
      set_default_mss_def fold_abandon_id Let_def split_beta split: option.split sum.split list.split)

lemma binds_id:
  assumes "49152 \<le> sr_next_ephemeral_port rt"
  shows "socket_udp_bind a rt = Some (res1, rt') \<Longrightarrow> sr_next_socket_id rt' \<in> {sr_next_socket_id rt, sr_next_socket_id rt + 1}"
    "tcp_listen a rt = Some (res2, rt') \<Longrightarrow> sr_next_socket_id rt' \<in> {sr_next_socket_id rt, sr_next_socket_id rt + 1}"
proof -
  show "sr_next_socket_id rt' \<in> {sr_next_socket_id rt, sr_next_socket_id rt + 1}" if bound: "socket_udp_bind a rt = Some (res1, rt')"
  proof -
    obtain r rt1 where b: "bind_addr sr_udp_port_map a rt = Some (r, rt1)"
      using bound by (auto simp: socket_udp_bind_def bind_eq_Some_conv)
    show ?thesis
      using bound bind_addr_id [OF b assms] b by (cases r) (auto simp: socket_udp_bind_def next_id_def Let_def)
  qed
  show "sr_next_socket_id rt' \<in> {sr_next_socket_id rt, sr_next_socket_id rt + 1}" if bound: "tcp_listen a rt = Some (res2, rt')"
  proof -
    obtain r rt1 where b: "bind_addr sr_tcp_listener_ports a rt = Some (r, rt1)"
      using bound by (auto simp: tcp_listen_def bind_eq_Some_conv)
    show ?thesis
      using bound bind_addr_id [OF b assms] b by (cases r) (auto simp: tcp_listen_def next_id_def open_listener_def Let_def)
  qed
qed

lemma tcp_ops_id:
  "udp_send_to uh data remote rt = Some (res, rt') \<Longrightarrow> sr_next_socket_id rt' = sr_next_socket_id rt"
  "tcp_shutdown h rt = Some (res', rt') \<Longrightarrow> sr_next_socket_id rt' = sr_next_socket_id rt"
  "tcp_abort h t rt = Some rt' \<Longrightarrow> sr_next_socket_id rt' = sr_next_socket_id rt"
  unfolding udp_send_to_def tcp_shutdown_def tcp_abort_def
  by (auto simp: Let_def bind_eq_Some_conv split: sum.splits option.splits if_splits)

lemma sock_step_id:
  assumes "49152 \<le> sr_next_ephemeral_port rt" "sock_step ev rt = Some rt'"
  shows "sr_next_socket_id rt' \<in> {sr_next_socket_id rt, sr_next_socket_id rt + 1}"
proof (cases ev)
  case (SUdpBind a)
  then show ?thesis using assms(2) binds_id(1) [OF assms(1)] by auto
next
  case (SListen a)
  then show ?thesis using assms(2) binds_id(2) [OF assms(1)] by auto
next
  case (SListenAny a)
  then show ?thesis using assms(2)
    by (auto simp: tcp_listen_any_def open_listener_def next_id_def Let_def split: if_splits)
next
  case (SConnect b)
  then obtain res where "tcp_connect b rt = Some (res, rt')" using assms(2) by auto
  then show ?thesis by (rule tcp_connect_id [OF _ assms(1)])
next
  case (SConnectFrom a b i)
  then obtain res where "tcp_connect_from a b i rt = Some (res, rt')" using assms(2) by auto
  then show ?thesis by (rule tcp_connect_from_id [OF _ assms(1)])
next
  case (SSegment a b seg t)
  then obtain out where "dispatch_tcp_segment a b seg t rt = Some (out, rt')" using assms(2) by auto
  then show ?thesis by (rule dispatch_id)
next
  case (STimers t)
  then show ?thesis using assms(2) step_timers_id by auto
next
  case (SUdpSend h d r)
  then show ?thesis using assms(2) tcp_ops_id(1) by auto
next
  case (SShutdown h)
  then show ?thesis using assms(2) tcp_ops_id(2) by auto
next
  case (SAbort h t)
  then show ?thesis using assms(2) tcp_ops_id(3) by auto
qed (use assms(2) in auto)

section \<open>Every run keeps the tables consistent\<close>

fun sock_exec :: "sock_event list \<Rightarrow> SocketRuntime \<Rightarrow> SocketRuntime option" where
  "sock_exec [] rt = Some rt"
| "sock_exec (ev # evs) rt = do { rt \<leftarrow> sock_step ev rt; sock_exec evs rt }"

lemma runtime_new_inv: "sock_inv (runtime_new ip)"
  by (simp add: sock_inv_def runtime_new_def)

lemma sock_exec_inv:
  assumes "sock_exec evs rt = Some rt'" "sock_inv rt" "unat (sr_next_socket_id rt) + length evs < 2 ^ 32"
  shows "sock_inv rt'"
  using assms
proof (induction evs arbitrary: rt)
  case (Cons ev evs)
  obtain rt1 where rt1: "sock_step ev rt = Some rt1" "sock_exec evs rt1 = Some rt'"
    using Cons.prems(1) by (auto simp: bind_eq_Some_conv)
  let ?n = "sr_next_socket_id rt"
  have "unat (- 1 :: u32) = 4294967295" by (simp add: unsigned_minus_1_eq_mask mask_eq_exp_minus_1)
  then have "?n \<noteq> - 1" using Cons.prems(3) by auto
  then have "sock_inv rt1" using sock_step_inv Cons.prems(2) rt1(1) by blast
  moreover have "unat (?n + 1) = unat ?n + 1" using Cons.prems(3) by (simp add: unat_word_ariths)
  then have "unat (sr_next_socket_id rt1) + length evs < 2 ^ 32"
    using sock_step_id [OF _ rt1(1)] Cons.prems(2,3) by (auto simp: sock_inv_def)
  ultimately show ?case using Cons.IH rt1(2) by blast
qed simp

lemma closed_count:
  assumes "conn_ok nid streams conns fin order"
  shows "length fin = length order"
proof -
  have "set (map fst fin) = set order" using assms by (auto simp: conn_ok_def hm_contains_iff)
  moreover have "distinct (map fst fin)" "distinct order" using assms by (auto simp: conn_ok_def hm_wf_def)
  ultimately show ?thesis by (metis distinct_card length_map)
qed

text \<open>C16: whatever the applications, the network and the clock do (fewer operations than there are
  handles), the tables of the socket runtime agree with each other: a port leads to exactly the UDP
  socket and exactly the listener bound to it, every connection is stored under its own addresses
  and the handle it was opened with, if not released, leads back to it, no listener holds more
  pending connections than its backlog, and at most 256 finished streams are remembered.\<close>
theorem socket_tables_consistent:
  assumes "sock_exec evs (runtime_new ip) = Some rt" and "length evs < 2 ^ 32 - 1"
  shows "(\<forall>p h. hm_get (sr_udp_port_map rt) p = Some h \<longleftrightarrow>
        (\<exists>e. hm_get (sr_udp_sockets rt) h = Some e \<and> sock_port (us_local_addr e) = p)) \<and>
    (\<forall>p h. hm_get (sr_tcp_listener_ports rt) p = Some h \<longleftrightarrow>
        (\<exists>l. hm_get (sr_tcp_listeners rt) h = Some l \<and> sock_port (tl_local_addr l) = p)) \<and>
    (\<forall>k h c. hm_get (sr_tcp_connections rt) k = Some (h, c) \<longrightarrow>
        tc_local c = key_local k \<and> tc_remote c = key_remote k \<and> key_of rt h \<in> {Inr k, Inl InvalidSocket}) \<and>
    (\<forall>h l. hm_get (sr_tcp_listeners rt) h = Some l \<longrightarrow> length (tl_accept_queue l) \<le> tl_backlog l) \<and>
    closed_stream_count rt \<le> MAX_CLOSED_STREAM_HISTORY"
proof -
  have inv: "sock_inv rt"
    by (rule sock_exec_inv [OF assms(1) runtime_new_inv]) (use assms(2) in \<open>simp add: runtime_new_def\<close>)
  then have "length (sr_closed_streams rt) \<le> MAX_CLOSED_STREAM_HISTORY"
    using closed_count by (auto simp: sock_inv_def)
  then show ?thesis
    using inv
    by (auto simp: sock_inv_def udp_tab.bound_ok_def listen_tab.bound_ok_def conn_ok_def key_of_def addrs_def
        closed_stream_count_def split: option.splits)
qed

text \<open>A host with a UDP socket on port 53 and a listener on port 80.\<close>

lemma demo_sockets:
  "\<exists>rt. sock_exec [SUdpBind \<lparr> sock_ip = O4 0 0 0 0, sock_port = 53 \<rparr>, SListenAny 80] (runtime_new (O4 10 0 0 1)) = Some rt \<and>
     hm_get (sr_udp_port_map rt) 53 = Some (UdpSocketHandle 1)"
  by (simp add: socket_udp_bind_def bind_addr_def ip_is_unspecified_def runtime_new_def next_id_def
      tcp_listen_any_def open_listener_def Let_def)

theorem socket_tables_consistent_witness:
  "\<exists>rt. sock_exec [SUdpBind \<lparr> sock_ip = O4 0 0 0 0, sock_port = 53 \<rparr>, SListenAny 80] (runtime_new (O4 10 0 0 1)) = Some rt \<and>
     (\<exists>e. hm_get (sr_udp_sockets rt) (UdpSocketHandle 1) = Some e \<and> sock_port (us_local_addr e) = 53) \<and>
     closed_stream_count rt \<le> MAX_CLOSED_STREAM_HISTORY"
proof -
  let ?evs = "[SUdpBind \<lparr> sock_ip = O4 0 0 0 0, sock_port = 53 \<rparr>, SListenAny 80]"
  obtain rt where rt: "sock_exec ?evs (runtime_new (O4 10 0 0 1)) = Some rt"
    "hm_get (sr_udp_port_map rt) 53 = Some (UdpSocketHandle 1)"
    using demo_sockets by blast
  have "length ?evs < 2 ^ 32 - 1" by simp
  from socket_tables_consistent [OF rt(1) this] rt show ?thesis by blast
qed

text \<open>C17: the search for an ephemeral port always ends: it returns a port of the dynamic range
  49152 to 65535 that no UDP socket, listener or connection uses, and it fails only when every port
  of that range is in use; either way it changes nothing but the next port to try.\<close>
theorem ephemeral_port_found:
  assumes "49152 \<le> sr_next_ephemeral_port rt"
  shows "\<exists>res p'. allocate_ephemeral_port rt = Some (res, rt\<lparr> sr_next_ephemeral_port := p' \<rparr>) \<and> 49152 \<le> p' \<and>
    ((\<exists>p \<ge> 49152. res = Inr p \<and> \<not> port_used rt p) \<or>
     (res = Inl AddressNotAvailable \<and> (\<forall>p \<ge> 49152. port_used rt p)))"
proof -
  obtain res p' where r: "allocate_ephemeral_port rt = Some (res, rt\<lparr> sr_next_ephemeral_port := p' \<rparr>)" "49152 \<le> p'"
    "\<And>p. res = Inr p \<Longrightarrow> 49152 \<le> p \<and> \<not> port_used rt p"
    "\<And>e. res = Inl e \<Longrightarrow> e = AddressNotAvailable \<and> (\<forall>p \<ge> 49152. port_used rt p)"
    by (rule allocate_ephemeral_port_result [OF assms]) (rule that)
  have "(\<exists>p \<ge> 49152. res = Inr p \<and> \<not> port_used rt p) \<or>
     (res = Inl AddressNotAvailable \<and> (\<forall>p \<ge> 49152. port_used rt p))"
    using r(3,4) by (cases res) auto
  with r(1,2) show ?thesis by blast
qed

theorem ephemeral_port_found_witness:
  "49152 \<le> sr_next_ephemeral_port (runtime_new (O4 10 0 0 1)) \<and>
   (\<exists>res rt. allocate_ephemeral_port (runtime_new (O4 10 0 0 1)) = Some (res, rt))"
proof -
  have "49152 \<le> sr_next_ephemeral_port (runtime_new (O4 10 0 0 1))" by (simp add: runtime_new_def)
  with ephemeral_port_found [OF this] show ?thesis by (elim exE conjE) (intro conjI exI)
qed

end
