(* ===== verification/SocketDelivery.thy ===== *)
theory SocketDelivery
  imports SocketTables
begin

text \<open>
  What applications observe through the socket layer: a datagram sent on one host arrives, whole and
  in order, at the socket bound to its port on another; the packets a host emits do not depend on
  the iteration order of its hash maps; every TCP stream, live or already reclaimed, delivers a
  prefix of what its peer sent; and two behaviours around finished connections that an application
  has to know.
\<close>

section \<open>UDP datagrams\<close>

primrec udp_recv_many ::
  "nat \<Rightarrow> UdpSocketHandle \<Rightarrow> SocketRuntime \<Rightarrow> (SocketError + bytes \<times> SocketAddrV4) list" where
  "udp_recv_many 0 h rt = []"
| "udp_recv_many (Suc n) h rt = fst (udp_recv_from h rt) # udp_recv_many n h (snd (udp_recv_from h rt))"

lemma addr_collapse [simp]: "\<lparr> sock_ip = sock_ip a, sock_port = sock_port a \<rparr> = (a :: SocketAddrV4)"
  by (cases a) simp

lemma udp_recv_queue:
  assumes "hm_get (sr_udp_sockets rt) h = Some e"
  shows "udp_recv_many (length (us_rx_queue e)) h rt = map Inr (us_rx_queue e)"
  using assms
proof (induction "us_rx_queue e" arbitrary: e rt)
  case (Cons d ds)
  let ?rt = "snd (udp_recv_from h rt)" and ?e = "e\<lparr> us_rx_queue := ds \<rparr>"
  have step: "fst (udp_recv_from h rt) = Inr d" "hm_get (sr_udp_sockets ?rt) h = Some ?e"
    using Cons.prems Cons.hyps(2) [symmetric] by (simp_all add: udp_recv_from_def hm_get_insert)
  have "udp_recv_many (length ds) h ?rt = map Inr ds" using Cons.hyps(1) [of ?e ?rt] step(2) by simp
  then show ?case using step(1) Cons.hyps(2) [symmetric] by simp
qed simp

lemma udp_tx_emitted:
  assumes "socket_step_timers t rt = Some (out, rt')"
  shows "\<exists>rest. out = queued_tx IP_PROTO_UDP (sr_udp_tx rt) @ rest"
  using assms by (auto simp: socket_step_timers_def Let_def bind_eq_Some_conv)

text \<open>C18: a datagram of up to 65507 bytes sent from one host to a port that another host has a
  socket on is accepted whole, leaves with the next timer step in a packet after those sent before
  it, parses with a valid checksum on the other host and is handed to the socket of that port, whose
  owner receives, after everything queued earlier and in order, exactly the bytes sent together with
  the sender's address.\<close>
theorem udp_datagram_delivered:
  assumes "hm_get (sr_udp_sockets a) ha = Some ea" and "length data \<le> 65507"
    and "hm_get (sr_udp_port_map b) (sock_port dst) = Some hb" and "hm_get (sr_udp_sockets b) hb = Some eb"
  shows "\<exists>a' pdu d b'. udp_send_to ha data dst a = Some (Inr (length data), a') \<and>
    (\<forall>t out a''. socket_step_timers t a' = Some (out, a'') \<longrightarrow>
       (\<exists>rest. out = queued_tx IP_PROTO_UDP (sr_udp_tx a) @
          \<lparr> tx_local = us_local_addr ea, tx_remote = dst, tx_protocol = IP_PROTO_UDP, tx_payload = pdu \<rparr> # rest)) \<and>
    udp_parse (sock_ip (us_local_addr ea)) (sock_ip dst) pdu True = Inr d \<and>
    dispatch_udp \<lparr> sock_ip = sock_ip (us_local_addr ea), sock_port = udp_src_port d \<rparr>
      \<lparr> sock_ip = sock_ip dst, sock_port = udp_dst_port d \<rparr> (udp_payload d) b = (True, b') \<and>
    udp_recv_many (length (us_rx_queue eb) + 1) hb b' =
      map Inr (us_rx_queue eb @ [(data, us_local_addr ea)])"
proof -
  let ?l = "us_local_addr ea"
  obtain pdu c where pdu: "udp_serialize (sock_ip ?l) (sock_ip dst) (sock_port ?l) (sock_port dst) data = Some pdu"
    "udp_parse (sock_ip ?l) (sock_ip dst) pdu True = Inr \<lparr> udp_src_port = sock_port ?l, udp_dst_port = sock_port dst,
          udp_length = of_nat (length pdu), udp_checksum = c, udp_payload = data \<rparr>"
    using udp_parse_serialize [of data "sock_ip ?l" "sock_ip dst" "sock_port ?l" "sock_port dst"] assms(2) by auto
  let ?a' = "a\<lparr> sr_udp_tx := sr_udp_tx a @ [(?l, dst, pdu)] \<rparr>"
  let ?e = "eb\<lparr> us_rx_queue := us_rx_queue eb @ [(data, ?l)] \<rparr>"
  let ?b' = "b\<lparr> sr_udp_sockets := hm_insert hb ?e (sr_udp_sockets b) \<rparr>"
  have send: "udp_send_to ha data dst a = Some (Inr (length data), ?a')"
    using assms(1,2) pdu(1) by (simp add: udp_send_to_def)
  have emit: "\<forall>t out a''. socket_step_timers t ?a' = Some (out, a'') \<longrightarrow>
      (\<exists>rest. out = queued_tx IP_PROTO_UDP (sr_udp_tx a) @
         \<lparr> tx_local = ?l, tx_remote = dst, tx_protocol = IP_PROTO_UDP, tx_payload = pdu \<rparr> # rest)"
    by (auto simp: queued_tx_def dest!: udp_tx_emitted)
  have "hm_get (sr_udp_sockets ?b') hb = Some ?e" by (simp add: hm_get_insert)
  from udp_recv_queue [OF this] have recv:
    "udp_recv_many (length (us_rx_queue eb) + 1) hb ?b' = map Inr (us_rx_queue eb @ [(data, ?l)])" by simp
  define d where "d = \<lparr> udp_src_port = sock_port ?l, udp_dst_port = sock_port dst,
          udp_length = of_nat (length pdu), udp_checksum = c, udp_payload = data \<rparr>"
  have "dispatch_udp \<lparr> sock_ip = sock_ip ?l, sock_port = udp_src_port d \<rparr>
      \<lparr> sock_ip = sock_ip dst, sock_port = udp_dst_port d \<rparr> (udp_payload d) b = (True, ?b')"
    using assms(3,4) by (simp add: dispatch_udp_def d_def)
  with send emit pdu(2) [folded d_def] recv show ?thesis
    by (intro exI [of _ ?a'] exI [of _ pdu] exI [of _ d] exI [of _ ?b'] conjI) assumption+
qed

theorem udp_datagram_delivered_witness:
  "\<exists>a b ha hb a' (d :: UdpDatagram) b'. hm_get (sr_udp_port_map b) 53 = Some hb \<and>
     udp_send_to ha [1, 2, 3] \<lparr> sock_ip = O4 10 0 0 2, sock_port = 53 \<rparr> a = Some (Inr 3, a') \<and>
     fst (dispatch_udp \<lparr> sock_ip = O4 10 0 0 1, sock_port = 5000 \<rparr>
       \<lparr> sock_ip = O4 10 0 0 2, sock_port = udp_dst_port d \<rparr> (udp_payload d) b) \<and>
     udp_recv_many 1 hb b' = [Inr ([1, 2, 3], \<lparr> sock_ip = O4 10 0 0 1, sock_port = 5000 \<rparr>)]"
proof -
  let ?la = "\<lparr> sock_ip = O4 10 0 0 1, sock_port = 5000 \<rparr>" and ?lb = "\<lparr> sock_ip = O4 10 0 0 2, sock_port = 53 \<rparr>"
  let ?h = "UdpSocketHandle 1"
  let ?ea = "\<lparr> us_handle = ?h, us_local_addr = ?la, us_rx_queue = [] \<rparr>"
  let ?eb = "\<lparr> us_handle = ?h, us_local_addr = ?lb, us_rx_queue = [] \<rparr>"
  let ?a = "(runtime_new (O4 10 0 0 1))\<lparr> sr_udp_sockets := [(?h, ?ea)], sr_udp_port_map := [(5000, ?h)] \<rparr>"
  let ?b = "(runtime_new (O4 10 0 0 2))\<lparr> sr_udp_sockets := [(?h, ?eb)], sr_udp_port_map := [(53, ?h)] \<rparr>"
  have h: "hm_get (sr_udp_sockets ?a) ?h = Some ?ea" "length [1, 2, 3 :: u8] \<le> 65507"
    "hm_get (sr_udp_port_map ?b) (sock_port ?lb) = Some ?h" "hm_get (sr_udp_sockets ?b) ?h = Some ?eb" by simp_all
  obtain a' and d :: UdpDatagram and b' where r: "udp_send_to ?h [1, 2, 3] ?lb ?a = Some (Inr (length [1, 2, 3 :: u8]), a')"
    "dispatch_udp \<lparr> sock_ip = sock_ip (us_local_addr ?ea), sock_port = udp_src_port d \<rparr>
      \<lparr> sock_ip = sock_ip ?lb, sock_port = udp_dst_port d \<rparr> (udp_payload d) ?b = (True, b')"
    "udp_recv_many (length (us_rx_queue ?eb) + 1) ?h b' = map Inr (us_rx_queue ?eb @ [([1, 2, 3], us_local_addr ?ea)])"
    using udp_datagram_delivered [OF h] by blast
  from r(2) have "fst (dispatch_udp ?la \<lparr> sock_ip = O4 10 0 0 2, sock_port = udp_dst_port d \<rparr> (udp_payload d) ?b)"
    by (auto simp: dispatch_udp_def split: option.splits if_splits)
  with r(1,3) show ?thesis
    by (intro exI [of _ ?a] exI [of _ ?b] exI [of _ ?h] exI [of _ a'] exI [of _ d] exI [of _ b']) simp
qed

section \<open>Determinism of the output\<close>

lemma comparator_addr: "comparator addr_cmp"
proof -
  have "comparator (\<lambda>a b. cmp_list (bytes4 (sock_ip a)) (bytes4 (sock_ip b)))"
    by (rule comparator_map [OF comparator_list])
  moreover have "comparator (\<lambda>a b. cmp_of (sock_port a) (sock_port b))"
    by (rule comparator_map [OF cmp_of.comparator_axioms])
  ultimately show ?thesis unfolding addr_cmp_def by (rule comparator_then)
qed

lemma bytes4_inject [simp]: "bytes4 a = bytes4 b \<longleftrightarrow> a = b"
  by (cases a; cases b) simp

lemma addr_cmp_equal: "addr_cmp a b = OEqual \<longleftrightarrow> a = (b :: SocketAddrV4)"
  by (cases a; cases b) (auto simp: addr_cmp_def cmp_then_simps cmp_list_equal cmp_of_simps)

interpretation key_order: comparator key_cmp
  unfolding key_cmp_def
  by (rule comparator_then) (rule comparator_map [OF comparator_addr])+

lemma key_cmp_equal: "key_cmp a b = OEqual \<longleftrightarrow> a = (b :: TcpConnectionKey)"
  by (cases a; cases b) (auto simp: key_cmp_def cmp_then_simps addr_cmp_equal)

lemma sort_keys_unique: "mset xs = mset ys \<Longrightarrow> sort_by key_cmp xs = sort_by key_cmp ys"
  by (rule key_order.sorted_unique) (simp_all add: key_order.sorted_sort_by key_cmp_equal)

lemma poll_loop_lookup:
  assumes "\<And>k. hm_get c1 k = hm_get c2 k"
  shows "map_option fst (socket_poll_loop t keys c1) = map_option fst (socket_poll_loop t keys c2)"
  using assms
proof (induction keys arbitrary: c1 c2)
  case (Cons k keys)
  show ?case
  proof (cases "hm_get c1 k")
    case (Some hc)
    obtain h c where hc: "hc = (h, c)" by fastforce
    show ?thesis
    proof (cases "poll_output t c")
      case (Some r)
      obtain ps c' where r: "r = (ps, c')" by fastforce
      have "map_option fst (socket_poll_loop t keys (hm_insert k (h, c') c1)) =
          map_option fst (socket_poll_loop t keys (hm_insert k (h, c') c2))"
        using Cons.IH [of "hm_insert k (h, c') c1" "hm_insert k (h, c') c2"] Cons.prems by (simp add: hm_get_insert fun_upd_def)
      then show ?thesis
        using Some r hc \<open>hm_get c1 k = Some hc\<close> Cons.prems [of k]
        by (cases "socket_poll_loop t keys (hm_insert k (h, c') c1)";
            cases "socket_poll_loop t keys (hm_insert k (h, c') c2)") auto
    qed (use hc Some Cons.prems [of k] in simp)
  next
    case None
    then have "hm_get c2 k = None" using Cons.prems [of k] by simp
    then show ?thesis using None Cons.IH [OF Cons.prems] by simp
  qed
qed simp

text \<open>The packets a host emits in a timer step depend on its connections only, not on the order
  in which the hash map happens to be iterated: two runtimes that differ in that order emit the
  same packets in the same order.\<close>
theorem step_timers_deterministic:
  assumes "hm_wf (sr_tcp_connections rt)" and "mset conns = mset (sr_tcp_connections rt)"
  shows "map_option fst (socket_step_timers t (rt\<lparr> sr_tcp_connections := conns \<rparr>)) =
    map_option fst (socket_step_timers t rt)"
proof -
  have "mset (map fst conns) = mset (map fst (sr_tcp_connections rt))" using assms(2) by simp
  from sort_keys_unique [OF this]
  have keys: "sort_by key_cmp (map fst conns) = sort_by key_cmp (map fst (sr_tcp_connections rt))" .
  have "hm_wf conns" using assms unfolding hm_wf_def by (metis mset_eq_imp_distinct_iff mset_map)
  moreover have "set conns = set (sr_tcp_connections rt)" using assms(2) by (metis set_mset_mset)
  ultimately have "hm_get conns k = hm_get (sr_tcp_connections rt) k" for k
    using assms(1) by (metis hm_get_eq_Some not_None_eq)
  from poll_loop_lookup [of conns, OF this, of t "sort_by key_cmp (map fst conns)"]
  have "map_option fst (socket_poll_loop t (sort_by key_cmp (map fst conns)) conns) =
    map_option fst (socket_poll_loop t (sort_by key_cmp (map fst (sr_tcp_connections rt))) (sr_tcp_connections rt))"
    by (simp only: keys)
  then show ?thesis
    by (cases "socket_poll_loop t (sort_by key_cmp (map fst conns)) conns";
        cases "socket_poll_loop t (sort_by key_cmp (map fst (sr_tcp_connections rt))) (sr_tcp_connections rt)")
       (auto simp: socket_step_timers_def Let_def)
qed

theorem step_timers_deterministic_witness:
  "\<exists>k1 k2 x y. k1 \<noteq> (k2 :: TcpConnectionKey) \<and>
     map_option fst (socket_step_timers 7 ((runtime_new (O4 10 0 0 1))\<lparr> sr_tcp_connections := [(k2, y), (k1, x)] \<rparr>)) =
     map_option fst (socket_step_timers 7 ((runtime_new (O4 10 0 0 1))\<lparr> sr_tcp_connections := [(k1, x), (k2, y)] \<rparr>))"
proof -
  let ?k2 = "demo_key\<lparr> key_local := key_remote demo_key \<rparr>"
  define x where "x = (TcpStreamHandle 1, new_client (key_local demo_key) (key_remote demo_key) 0)"
  define y where "y = (TcpStreamHandle 2, new_client (key_local ?k2) (key_remote ?k2) 0)"
  let ?rt = "(runtime_new (O4 10 0 0 1))\<lparr> sr_tcp_connections := [(demo_key, x), (?k2, y)] \<rparr>"
  have ne: "demo_key \<noteq> ?k2" by (simp add: demo_key_def)
  have "hm_wf (sr_tcp_connections ?rt)" "mset [(?k2, y), (demo_key, x)] = mset (sr_tcp_connections ?rt)"
    using ne by (simp_all add: hm_wf_def)
  from step_timers_deterministic [OF this, of 7] ne show ?thesis
    by (intro exI [of _ demo_key] exI [of _ ?k2] exI [of _ x] exI [of _ y]) simp
qed

section \<open>TCP streams\<close>

context tcp_receiver
begin

lemma rx_inv_server_mss: "rx_inv [] (with_mss mss (new_server local remote isn))"
proof -
  have "rx_view (with_mss mss (new_server local remote isn)) = rx_view (new_server local remote isn)"
    by (simp add: with_mss_def)
  from rx_inv_view [OF this] show ?thesis by simp
qed

lemma rx_inv_client_mss:
  "initiate_syn_at t (with_mss mss (new_client local remote isn)) = Some (pkt, c) \<Longrightarrow> rx_inv [] c"
  by (auto simp: initiate_syn_at_def Let_def bind_eq_Some_conv rx_inv_def new_client_def with_mss_def pre_nothing
      ooo_bytes_def count_segment_sent_def track_for_retransmit_def)

lemma rx_inv_write: "rx_inv d c \<Longrightarrow> rx_inv d (snd (tcp_write data c))"
  using rx_inv_view [of "snd (tcp_write data c)" c d] write_views [of data c] by simp

end

text \<open>What has been read out of the connection that was opened as stream \<open>h\<close>, also after the
  connection has been reclaimed.\<close>

definition read_owner :: "SocketRuntime \<Rightarrow> TcpStreamHandle \<Rightarrow> TcpStreamHandle" where
  "read_owner rt h =
     (case key_of rt h of
        Inr k \<Rightarrow> (case hm_get (sr_tcp_connections rt) k of Some (x, _) \<Rightarrow> x | None \<Rightarrow> h)
      | Inl _ \<Rightarrow> h)"

fun sock_log :: "sock_event \<Rightarrow> SocketRuntime \<Rightarrow> (TcpStreamHandle \<Rightarrow> bytes) \<Rightarrow> TcpStreamHandle \<Rightarrow> bytes" where
  "sock_log (SRead h n) rt L =
     (case fst (socket_tcp_read h n rt) of
        Inr out \<Rightarrow> L(read_owner rt h := L (read_owner rt h) @ out) | Inl _ \<Rightarrow> L)"
| "sock_log _ rt L = L"

text \<open>The stream a segment belongs to: the owner of its connection, or the handle the next connection
  will get; and how much of the stream has been received.\<close>

definition segment_owner :: "SocketRuntime \<Rightarrow> TcpConnectionKey \<Rightarrow> TcpStreamHandle" where
  "segment_owner rt k =
     (case hm_get (sr_tcp_connections rt) k of
        Some (h, _) \<Rightarrow> h | None \<Rightarrow> TcpStreamHandle (sr_next_socket_id rt))"

definition received_count :: "SocketRuntime \<Rightarrow> (TcpStreamHandle \<Rightarrow> bytes) \<Rightarrow> TcpConnectionKey \<Rightarrow> nat" where
  "received_count rt L k =
     (case hm_get (sr_tcp_connections rt) k of
        Some (h, c) \<Rightarrow> length (L h) + length (tc_rx_buffer c) | None \<Rightarrow> 0)"

text \<open>The runs of a runtime in which the segments of each connection are genuine segments of the
  stream \<open>S h\<close> of the peer of stream \<open>h\<close>, in any order and any number of times.\<close>

inductive sock_run ::
  "Ipv4Address \<Rightarrow> (TcpStreamHandle \<Rightarrow> u32) \<Rightarrow> (TcpStreamHandle \<Rightarrow> bytes) \<Rightarrow> SocketRuntime \<Rightarrow>
   (TcpStreamHandle \<Rightarrow> bytes) \<Rightarrow> bool"
  for ip :: Ipv4Address and irs :: "TcpStreamHandle \<Rightarrow> u32" and S :: "TcpStreamHandle \<Rightarrow> bytes" where
  init: "sock_run ip irs S (runtime_new ip) (\<lambda>_. [])"
| step: "sock_run ip irs S rt L \<Longrightarrow> sr_next_socket_id rt \<noteq> - 1 \<Longrightarrow> sock_step ev rt = Some rt' \<Longrightarrow>
     (\<And>src dst seg t. ev = SSegment src dst seg t \<Longrightarrow>
        genuine (irs (segment_owner rt (segment_key src dst seg))) (S (segment_owner rt (segment_key src dst seg)))
          (received_count rt L (segment_key src dst seg)) seg) \<Longrightarrow>
     sock_run ip irs S rt' (sock_log ev rt L)"

lemma sock_run_inv: "sock_run ip irs S rt L \<Longrightarrow> sock_inv rt"
  by (induction rule: sock_run.induct) (auto intro: runtime_new_inv sock_step_inv)

text \<open>The state of every stream with respect to its peer's stream.\<close>

definition conns_rx ::
  "(TcpStreamHandle \<Rightarrow> u32) \<Rightarrow> (TcpStreamHandle \<Rightarrow> bytes) \<Rightarrow> (TcpStreamHandle \<Rightarrow> bytes) \<Rightarrow>
   (TcpConnectionKey, TcpStreamHandle \<times> TcpConnection) hash_map \<Rightarrow> bool" where
  "conns_rx irs S L conns \<longleftrightarrow>
     (\<forall>k h c. hm_get conns k = Some (h, c) \<longrightarrow> peer_conn.rx_inv (S h) (irs h) (L h) c)"

definition closed_rx ::
  "(TcpStreamHandle \<Rightarrow> bytes) \<Rightarrow> (TcpStreamHandle \<Rightarrow> bytes) \<Rightarrow>
   (TcpStreamHandle, TcpState \<times> TcpStats \<times> bytes) hash_map \<Rightarrow> bool" where
  "closed_rx S L fin \<longleftrightarrow>
     (\<forall>h st stats r. hm_get fin h = Some (st, stats, r) \<longrightarrow> (\<exists>n \<le> length (S h). L h @ r = take n (S h)))"

definition streams_rx ::
  "(TcpStreamHandle \<Rightarrow> u32) \<Rightarrow> (TcpStreamHandle \<Rightarrow> bytes) \<Rightarrow> (TcpStreamHandle \<Rightarrow> bytes) \<Rightarrow> SocketRuntime \<Rightarrow> bool" where
  "streams_rx irs S L rt \<longleftrightarrow>
     conns_rx irs S L (sr_tcp_connections rt) \<and> closed_rx S L (sr_closed_streams rt) \<and>
     (\<forall>h. sr_next_socket_id rt \<le> stream_id h \<longrightarrow> L h = [])"

lemma conns_rx_insert:
  "conns_rx irs S L conns \<Longrightarrow> peer_conn.rx_inv (S h) (irs h) (L h) c \<Longrightarrow> conns_rx irs S L (hm_insert k (h, c) conns)"
  by (auto simp: conns_rx_def hm_get_insert)

lemma conns_rx_remove: "conns_rx irs S L conns \<Longrightarrow> conns_rx irs S L (hm_remove k conns)"
  by (auto simp: conns_rx_def hm_get_remove split: if_splits)

lemma conns_rx_get: "conns_rx irs S L conns \<Longrightarrow> hm_get conns k = Some (h, c) \<Longrightarrow> peer_conn.rx_inv (S h) (irs h) (L h) c"
  by (auto simp: conns_rx_def)

lemma closed_rx_remove: "closed_rx S L fin \<Longrightarrow> closed_rx S L (hm_remove h fin)"
  by (auto simp: closed_rx_def hm_get_remove split: if_splits)

lemma closed_rx_insert:
  "closed_rx S L fin \<Longrightarrow> n \<le> length (S h) \<Longrightarrow> L h @ r = take n (S h) \<Longrightarrow> closed_rx S L (hm_insert h (st, stats, r) fin)"
  by (auto simp: closed_rx_def hm_get_insert)

lemma rx_inv_prefix:
  "peer_conn.rx_inv S irs d c \<Longrightarrow> \<exists>n \<le> length S. d @ tc_rx_buffer c = take n S \<and> (tc_fin_received c \<longrightarrow> d @ tc_rx_buffer c = S)"
  by (auto simp: peer_conn.rx_inv_def Let_def prefix_upto_def)

lemma poll_rx: "poll_output t c = Some (ps, c') \<Longrightarrow> peer_conn.rx_inv S irs d c \<Longrightarrow> peer_conn.rx_inv S irs d c'"
  using peer_conn.rx_inv_later poll_output_later by blast

lemma reap_loop_rx:
  assumes "conns_rx irs S L (sr_tcp_connections rt)" "closed_rx S L (sr_closed_streams rt)"
  shows "conns_rx irs S L (sr_tcp_connections (reap_loop keys rt)) \<and> closed_rx S L (sr_closed_streams (reap_loop keys rt))"
  using assms
proof (induction keys rt rule: reap_loop.induct)
  case (2 k keys rt)
  show ?case
  proof (cases "hm_get (sr_tcp_connections rt) k")
    case (Some hc)
    obtain h c where hc: "hc = (h, c)" by fastforce
    obtain n where "n \<le> length (S h)" "L h @ tc_rx_buffer c = take n (S h)"
      using rx_inv_prefix conns_rx_get [OF 2(3)] Some hc by blast
    from closed_rx_insert [OF 2(4) this]
    have "closed_rx S L (hm_insert h (tc_state c, tc_stats c, tc_rx_buffer c) (sr_closed_streams rt))" .
    then show ?thesis
      using 2(2) [OF Some [unfolded hc] refl] Some hc conns_rx_remove [OF 2(3)] by (simp add: Let_def)
  qed (use 2 in simp)
qed simp

lemma evict_closed_conns [simp]: "sr_tcp_connections (evict_closed rt) = sr_tcp_connections rt"
proof (induction rt rule: evict_closed.induct)
  case (1 rt)
  then show ?case by (subst evict_closed.simps) (cases "sr_closed_order rt"; simp)
qed

lemma evict_closed_rx: "closed_rx S L (sr_closed_streams rt) \<Longrightarrow> closed_rx S L (sr_closed_streams (evict_closed rt))"
proof (induction rt rule: evict_closed.induct)
  case (1 rt)
  then show ?case by (subst evict_closed.simps) (cases "sr_closed_order rt"; simp add: closed_rx_remove)
qed

lemma reap_closed_rx:
  assumes "conns_rx irs S L (sr_tcp_connections rt)" "closed_rx S L (sr_closed_streams rt)"
  shows "conns_rx irs S L (sr_tcp_connections (reap_closed t rt)) \<and> closed_rx S L (sr_closed_streams (reap_closed t rt))"
proof -
  have "conns_rx irs S L (sr_tcp_connections (reap_loop keys rt))" "closed_rx S L (sr_closed_streams (reap_loop keys rt))" for keys
    using reap_loop_rx [OF assms] by blast+
  then show ?thesis by (simp add: reap_closed_def Let_def evict_closed_rx)
qed

lemma poll_loop_rx:
  assumes "socket_poll_loop t keys conns = Some (out, conns')" "conns_rx irs S L conns"
  shows "conns_rx irs S L conns'"
  using assms
proof (induction t keys conns arbitrary: out conns' rule: socket_poll_loop.induct)
  case (2 t k keys conns)
  show ?case
  proof (cases "hm_get conns k")
    case (Some hc)
    obtain h c where hc: "hc = (h, c)" by fastforce
    then obtain ps c' out2 where c: "poll_output t c = Some (ps, c')"
      "socket_poll_loop t keys (hm_insert k (h, c') conns) = Some (out2, conns')"
      using 2(3) Some by (auto simp: bind_eq_Some_conv)
    have "conns_rx irs S L (hm_insert k (h, c') conns)"
      using conns_rx_insert [OF 2(4)] poll_rx [OF c(1)] conns_rx_get [OF 2(4)] Some hc by blast
    then show ?thesis using 2(2) Some hc c by blast
  qed (use 2 in auto)
qed auto

lemma timers_rx:
  assumes "socket_step_timers t rt = Some (out, rt')" "streams_rx irs S L rt"
  shows "streams_rx irs S L rt'"
proof -
  let ?rt1 = "rt\<lparr> sr_current_time_ms := t, sr_udp_tx := [], sr_tcp_tx := [] \<rparr>"
  obtain out2 conns where p: "socket_poll_loop t (sort_by key_cmp (map fst (sr_tcp_connections rt)))
      (sr_tcp_connections rt) = Some (out2, conns)" "rt' = reap_closed t (?rt1\<lparr> sr_tcp_connections := conns \<rparr>)"
    using assms(1) by (auto simp: socket_step_timers_def Let_def bind_eq_Some_conv)
  let ?rt2 = "?rt1\<lparr> sr_tcp_connections := conns \<rparr>"
  have "conns_rx irs S L (sr_tcp_connections ?rt2)" "closed_rx S L (sr_closed_streams ?rt2)"
    using poll_loop_rx [OF p(1)] assms(2) by (simp_all add: streams_rx_def)
  from reap_closed_rx [OF this] have "conns_rx irs S L (sr_tcp_connections rt') \<and> closed_rx S L (sr_closed_streams rt')"
    unfolding p(2) .
  then show ?thesis using step_timers_id [OF assms(1)] assms(2) by (simp add: streams_rx_def)
qed

lemma dispatch_rx:
  assumes "dispatch_tcp_segment src dst seg t rt = Some (out, rt')" "streams_rx irs S L rt"
    "sr_next_socket_id rt \<noteq> - 1" and k: "k = segment_key src dst seg"
    and gen: "genuine (irs (segment_owner rt k)) (S (segment_owner rt k)) (received_count rt L k) seg"
  shows "streams_rx irs S L rt'"
proof (cases "hm_get (sr_tcp_connections rt) k")
  case (Some hc)
  obtain h c where hc: "hc = (h, c)" by fastforce
  then obtain r c1 ps c2 where c: "handle_segment_at seg t c = Some (r, c1)" "poll_output t c1 = Some (ps, c2)"
    "rt' = rt\<lparr> sr_current_time_ms := t, sr_tcp_connections := hm_insert k (h, c2) (sr_tcp_connections rt) \<rparr>"
    using assms(1) Some k by (auto simp: dispatch_tcp_segment_def Let_def bind_eq_Some_conv)
  have "peer_conn.rx_inv (S h) (irs h) (L h) c" using assms(2) Some hc by (auto simp: streams_rx_def conns_rx_def)
  then have "peer_conn.rx_inv (S h) (irs h) (L h) c2"
    using peer_conn.rx_inv_segment [OF c(1)] poll_rx [OF c(2)] gen Some hc by (simp add: segment_owner_def received_count_def)
  then show ?thesis using assms(2) c(3) by (simp add: streams_rx_def conns_rx_insert)
next
  case None
  let ?h = "TcpStreamHandle (sr_next_socket_id rt)" and ?rt = "rt\<lparr> sr_current_time_ms := t \<rparr>"
  have rx: "streams_rx irs S L ?rt" using assms(2) by (simp add: streams_rx_def)
  have fresh: "L ?h = []" using assms(2) by (simp add: streams_rx_def)
  have "streams_rx irs S L rt'" if acc: "accept_syn k lh seg t ?rt = Some (out, rt')" for lh
  proof -
    obtain l r c where l: "hm_get (sr_tcp_listeners rt) lh = Some l"
      and c: "handle_segment_at seg t (with_mss (sr_default_mss rt) (new_server (key_local k) (key_remote k) (tl_next_isn l))) = Some (r, c)"
      and rt': "sr_tcp_connections rt' = hm_insert k (?h, c) (sr_tcp_connections rt)"
        "sr_closed_streams rt' = sr_closed_streams rt" "sr_next_socket_id rt' = sr_next_socket_id rt + 1"
      using acc by (auto simp: accept_syn_def Let_def bind_eq_Some_conv next_id_def split: option.splits)
    have "genuine (irs ?h) (S ?h) 0 seg" using gen None by (simp add: segment_owner_def received_count_def)
    then have "peer_conn.rx_inv (S ?h) (irs ?h) [] c"
      using peer_conn.rx_inv_segment [OF c peer_conn.rx_inv_server_mss] by (simp add: with_mss_def new_server_def)
    then show ?thesis
      using rx rt' fresh next_id_less [OF assms(3)] by (auto simp: streams_rx_def conns_rx_insert)
  qed
  then show ?thesis
    using assms(1) None rx k
    by (auto simp: dispatch_tcp_segment_def Let_def bind_eq_Some_conv split: option.splits if_splits)
qed

lemma connect_from_rx:
  assumes "tcp_connect_from a b isn rt = Some (res, rt')" "streams_rx irs S L rt" "sr_next_socket_id rt \<noteq> - 1"
    "49152 \<le> sr_next_ephemeral_port rt"
  shows "streams_rx irs S L rt'"
proof (rule allocate_ephemeral_port_result [OF assms(4)])
  fix x p' assume p: "allocate_ephemeral_port rt = Some (x, rt\<lparr> sr_next_ephemeral_port := p' \<rparr>)"
  let ?h = "TcpStreamHandle (sr_next_socket_id rt)"
  have fresh: "L ?h = []" using assms(2) by (simp add: streams_rx_def)
  have client: "conns_rx irs S L (hm_insert k (?h, c) (sr_tcp_connections rt))"
    if "initiate_syn_at t (with_mss mss (new_client l b isn)) = Some (pkt, c)" for t mss l pkt c k
    using peer_conn.rx_inv_client_mss [OF that, of "S ?h" "irs ?h"] assms(2) fresh
    by (simp add: streams_rx_def conns_rx_insert)
  have ids: "L h = []" if "sr_next_socket_id rt + 1 \<le> stream_id h" for h
    using that next_id_less [OF assms(3)] assms(2) by (auto simp: streams_rx_def)
  show ?thesis
    using assms(1,2) p client ids
    by (auto simp: tcp_connect_from_def Let_def bind_eq_Some_conv next_id_def streams_rx_def
        split: if_splits sum.splits)
qed

lemma connect_rx:
  assumes "tcp_connect b rt = Some (res, rt')" "streams_rx irs S L rt" "sr_next_socket_id rt \<noteq> - 1"
    "49152 \<le> sr_next_ephemeral_port rt"
  shows "streams_rx irs S L rt'"
proof (rule allocate_ephemeral_port_result [OF assms(4)])
  fix x p' assume p: "allocate_ephemeral_port rt = Some (x, rt\<lparr> sr_next_ephemeral_port := p' \<rparr>)" "49152 \<le> p'"
  have rx: "streams_rx irs S L (rt\<lparr> sr_next_ephemeral_port := p', sr_isn_counter := i \<rparr>)" for i
    using assms(2) by (simp add: streams_rx_def)
  show ?thesis
  proof (cases x)
    case (Inl e)
    then show ?thesis using assms(1,2) p by (auto simp: tcp_connect_def streams_rx_def)
  next
    case (Inr port)
    then show ?thesis
      using assms(1,3) p connect_from_rx [OF _ rx] by (auto simp: tcp_connect_def next_isn_def Let_def)
  qed
qed

lemma read_rx:
  assumes "sock_inv rt" "streams_rx irs S L rt"
  shows "streams_rx irs S (sock_log (SRead h n) rt L) (snd (socket_tcp_read h n rt))"
proof (cases "key_of rt h")
  case (Inr k)
  have ids: "\<not> sr_next_socket_id rt \<le> stream_id x" if "hm_get (sr_tcp_connections rt) k = Some (x, c)" for x c
    using assms(1) that by (auto simp: sock_inv_def conn_ok_def not_le)
  have hid: "\<not> sr_next_socket_id rt \<le> stream_id h"
    using assms(1) Inr by (auto simp: sock_inv_def conn_ok_def key_of_def not_le split: option.splits)
  show ?thesis
  proof (cases "hm_get (sr_tcp_connections rt) k")
    case None
    have owner: "read_owner rt h = h" using Inr None by (simp add: read_owner_def)
    have step: "streams_rx irs S (L(h := L h @ take m r)) (rt\<lparr> sr_closed_streams := hm_insert h (st, stats, drop m r) (sr_closed_streams rt) \<rparr>)"
      if closed: "hm_get (sr_closed_streams rt) h = Some (st, stats, r)" for st stats r m
    proof -
      have "hm_contains (sr_closed_streams rt) h" using closed by (simp add: hm_contains_def)
      then have "hm_get (sr_tcp_connections rt) k' \<noteq> Some (h, c)" for k' c
        using assms(1) by (auto simp: sock_inv_def conn_ok_def)
      then show ?thesis
        using closed assms(2) hid by (auto simp: streams_rx_def conns_rx_def closed_rx_def hm_get_insert)
    qed
    show ?thesis
      using Inr None owner step assms(2)
      by (auto simp: socket_tcp_read_def Let_def split: option.split)
  next
    case (Some hc)
    obtain x c where hc: "hc = (x, c)" by fastforce
    obtain out c' where r: "tcp_read n c = (out, c')" by fastforce
    have owner: "read_owner rt h = x" using Inr Some hc by (simp add: read_owner_def)
    have uniq: "hm_get (sr_tcp_connections rt) k' \<noteq> Some (x, c'')" if "k' \<noteq> k" for k' c''
      using assms(1) that Some hc unfolding sock_inv_def conn_ok_def by blast
    have "hm_get (sr_closed_streams rt) x = None"
      using assms(1) Some hc by (auto simp: sock_inv_def conn_ok_def intro!: hm_get_NoneI)
    moreover have "peer_conn.rx_inv (S x) (irs x) (L x @ out) c'"
      using peer_conn.rx_inv_read [OF r] assms(2) Some hc by (auto simp: streams_rx_def conns_rx_def)
    ultimately have step: "streams_rx irs S (L(x := L x @ out)) (rt\<lparr> sr_tcp_connections := hm_insert k (x, c') (sr_tcp_connections rt) \<rparr>)"
      using assms(2) uniq ids Some hc
      by (auto simp: streams_rx_def conns_rx_def closed_rx_def hm_get_insert)
    then have same: "streams_rx irs S L (rt\<lparr> sr_tcp_connections := hm_insert k (x, c') (sr_tcp_connections rt) \<rparr>)" if "out = []"
      using that by simp
    show ?thesis using Inr Some hc r step same owner by (simp add: socket_tcp_read_def Let_def)
  qed
qed (use assms in \<open>simp add: socket_tcp_read_def\<close>)

lemma write_rx: "streams_rx irs S L rt \<Longrightarrow> streams_rx irs S L (snd (socket_tcp_write h data rt))"
  by (auto simp: socket_tcp_write_def Let_def split_beta streams_rx_def split: option.split
      intro!: conns_rx_insert peer_conn.rx_inv_write dest: conns_rx_get)

lemma shutdown_rx:
  assumes "tcp_shutdown h rt = Some (res, rt')" "streams_rx irs S L rt"
  shows "streams_rx irs S L rt'"
proof -
  have "conns_rx irs S L (hm_insert k (x, c') (sr_tcp_connections rt))"
    if "hm_get (sr_tcp_connections rt) k = Some (x, c)" "initiate_close_at t c = Some (r, c')" for k x c t r c'
    using that assms(2) initiate_close_later [OF that(2)] conns_rx_insert conns_rx_get peer_conn.rx_inv_later
    unfolding streams_rx_def by metis
  then show ?thesis
    using assms
    by (auto simp: tcp_shutdown_def Let_def bind_eq_Some_conv streams_rx_def split: sum.splits option.splits)
qed

lemma release_rx: "streams_rx irs S L rt \<Longrightarrow> streams_rx irs S L (tcp_release h rt)"
  by (simp add: tcp_release_def streams_rx_def closed_rx_remove)

lemma abort_rx: "tcp_abort h t rt = Some rt' \<Longrightarrow> streams_rx irs S L rt \<Longrightarrow> streams_rx irs S L rt'"
  by (auto simp: tcp_abort_def bind_eq_Some_conv split: sum.splits option.splits intro!: release_rx)
     (simp add: streams_rx_def conns_rx_remove)

lemma listener_close_rx: "streams_rx irs S L rt \<Longrightarrow> streams_rx irs S L (snd (tcp_listener_close lh rt))"
proof -
  have "streams_rx irs S L (fold abandon_stream queue rt)" if "streams_rx irs S L rt" for queue rt
    using that
  proof (induction queue arbitrary: rt)
    case (Cons h queue)
    from Cons.prems have "streams_rx irs S L (abandon_stream h rt)"
      by (simp add: abandon_stream_def Let_def streams_rx_def conns_rx_remove split: option.split)
    then show ?case using Cons.IH by simp
  qed simp
  moreover assume rx: "streams_rx irs S L rt"
  moreover have "streams_rx irs S L (rt\<lparr> sr_tcp_listeners := ls, sr_tcp_listener_ports := ps \<rparr>)" for ls ps
    using rx by (simp add: streams_rx_def)
  ultimately show ?thesis by (simp add: tcp_listener_close_def Let_def split: option.split)
qed

text \<open>Operations that touch neither connections nor finished streams.\<close>

definition stream_view ::
  "SocketRuntime \<Rightarrow> (TcpConnectionKey, TcpStreamHandle \<times> TcpConnection) hash_map \<times>
   (TcpStreamHandle, TcpState \<times> TcpStats \<times> bytes) hash_map" where
  "stream_view rt = (sr_tcp_connections rt, sr_closed_streams rt)"

lemma streams_rx_view:
  assumes "streams_rx irs S L rt" "stream_view rt' = stream_view rt"
    "sr_next_socket_id rt' \<in> {sr_next_socket_id rt, sr_next_socket_id rt + 1}" "sr_next_socket_id rt \<noteq> - 1"
  shows "streams_rx irs S L rt'"
  using assms next_id_less [OF assms(4)] by (auto simp: streams_rx_def stream_view_def)

lemma bind_addr_view:
  assumes "bind_addr ports a rt = Some (r, rt')" "49152 \<le> sr_next_ephemeral_port rt"
  shows "stream_view rt' = stream_view rt"
  by (rule allocate_ephemeral_port_result [OF assms(2)])
     (use assms(1) in \<open>auto simp: bind_addr_def Let_def stream_view_def bind_eq_Some_conv split: if_splits\<close>)

lemma udp_bind_view:
  assumes "socket_udp_bind a rt = Some (res, rt')" "49152 \<le> sr_next_ephemeral_port rt"
  shows "stream_view rt' = stream_view rt"
proof -
  obtain r rt1 where b: "bind_addr sr_udp_port_map a rt = Some (r, rt1)"
    using assms(1) by (auto simp: socket_udp_bind_def bind_eq_Some_conv)
  show ?thesis
    using assms(1) bind_addr_view [OF b assms(2)] b
    by (cases r) (auto simp: socket_udp_bind_def next_id_def Let_def stream_view_def)
qed

lemma listen_view:
  assumes "tcp_listen a rt = Some (res, rt')" "49152 \<le> sr_next_ephemeral_port rt"
  shows "stream_view rt' = stream_view rt"
proof -
  obtain r rt1 where b: "bind_addr sr_tcp_listener_ports a rt = Some (r, rt1)"
    using assms(1) by (auto simp: tcp_listen_def bind_eq_Some_conv)
  show ?thesis
    using assms(1) bind_addr_view [OF b assms(2)] b
    by (cases r) (auto simp: tcp_listen_def next_id_def open_listener_def Let_def stream_view_def)
qed

lemma other_views [simp]:
  "stream_view (snd (udp_recv_from uh rt)) = stream_view rt"
  "stream_view (snd (udp_close uh rt)) = stream_view rt"
  "stream_view (snd (dispatch_udp src dst payload rt)) = stream_view rt"
  "stream_view (snd (update_udp_options uh f rt)) = stream_view rt"
  "stream_view (snd (update_tcp_options h g rt)) = stream_view rt"
  "stream_view (snd (tcp_listen_any port rt)) = stream_view rt"
  "stream_view (snd (tcp_accept lh rt)) = stream_view rt"
  "stream_view (set_default_mss mss rt) = stream_view rt"
  by (simp_all add: udp_recv_from_def udp_close_def dispatch_udp_def update_udp_options_def
      update_tcp_options_def tcp_accept_def tcp_listen_any_def open_listener_def next_id_def
      set_default_mss_def stream_view_def Let_def split_beta split: option.split sum.split list.split)

lemma udp_send_view: "udp_send_to uh data remote rt = Some (res, rt') \<Longrightarrow> stream_view rt' = stream_view rt"
  by (auto simp: udp_send_to_def Let_def bind_eq_Some_conv stream_view_def split: option.splits if_splits)

lemma sock_step_rx:
  assumes "sock_step ev rt = Some rt'" "sock_inv rt" "streams_rx irs S L rt" "sr_next_socket_id rt \<noteq> - 1"
    and gen: "\<And>src dst seg t. ev = SSegment src dst seg t \<Longrightarrow>
        genuine (irs (segment_owner rt (segment_key src dst seg))) (S (segment_owner rt (segment_key src dst seg)))
          (received_count rt L (segment_key src dst seg)) seg"
  shows "streams_rx irs S (sock_log ev rt L) rt'"
proof -
  have port: "49152 \<le> sr_next_ephemeral_port rt" using assms(2) by (simp add: sock_inv_def)
  note view = streams_rx_view [OF assms(3) _ sock_step_id [OF port assms(1)] assms(4)]
  show ?thesis
  proof (cases ev)
    case (SUdpBind a)
    then show ?thesis using assms(1) udp_bind_view [OF _ port] view by auto
  next
    case (SListen a)
    then show ?thesis using assms(1) listen_view [OF _ port] view by auto
  next
    case (SUdpSend h d r)
    then show ?thesis using assms(1) udp_send_view view by auto
  next
    case (SListenerClose h)
    then show ?thesis using assms(1) listener_close_rx [OF assms(3)] by auto
  next
    case (SConnect b)
    then show ?thesis using assms(1) connect_rx [OF _ assms(3,4) port] by auto
  next
    case (SConnectFrom a b i)
    then show ?thesis using assms(1) connect_from_rx [OF _ assms(3,4) port] by auto
  next
    case (SWrite h d)
    then show ?thesis using assms(1) write_rx [OF assms(3)] by auto
  next
    case (SRead h n)
    then show ?thesis using assms(1) read_rx [OF assms(2,3)] by (simp del: sock_log.simps) blast
  next
    case (SShutdown h)
    then show ?thesis using assms(1) shutdown_rx [OF _ assms(3)] by auto
  next
    case (SAbort h t)
    then show ?thesis using assms(1) abort_rx [OF _ assms(3)] by auto
  next
    case (SRelease h)
    then show ?thesis using assms(1) release_rx [OF assms(3)] by auto
  next
    case (SSegment src dst seg t)
    then show ?thesis using assms(1) dispatch_rx [OF _ assms(3,4) refl gen [OF SSegment]] by auto
  next
    case (STimers t)
    then show ?thesis using assms(1) timers_rx [OF _ assms(3)] by auto
  qed (use assms(1) view in auto)
qed

lemma sock_run_rx: "sock_run ip irs S rt L \<Longrightarrow> streams_rx irs S L rt"
proof (induction rule: sock_run.induct)
  case init
  then show ?case by (simp add: streams_rx_def conns_rx_def closed_rx_def runtime_new_def)
next
  case (step rt L ev rt')
  then show ?case using sock_step_rx sock_run_inv by blast
qed


text \<open>A server that accepts a connection, receives three bytes and reads two.\<close>

lemma with_mss_default: "with_mss 1460 (new_server l r isn) = new_server l r isn"
  by (simp add: with_mss_def new_server_def cc_new_def)

lemma demo_socket_run:
  "\<exists>rt L k h c. sock_run (O4 10 0 0 1) (\<lambda>_. 100) (\<lambda>_. [1, 2, 3, 4]) rt L \<and>
     hm_get (sr_tcp_connections rt) k = Some (h, c) \<and> L h = [1, 2] \<and> tc_rx_buffer c = [3]"
proof -
  let ?run = "sock_run (O4 10 0 0 1) (\<lambda>_. 100) (\<lambda>_. [1, 2, 3, 4])"
  let ?syn = "demo_segment flags_syn 100 0 []" and ?data = "demo_segment flags_ack 101 1001 [1, 2, 3]"
  let ?a = "O4 10 0 0 2" and ?b = "O4 10 0 0 1" and ?h = "TcpStreamHandle 2" and ?l = "TcpListenerHandle 1"
  let ?c0 = "new_server (key_local demo_key) (key_remote demo_key) 1000"
  have key: "segment_key ?a ?b (demo_segment f s k p) = demo_key" for f s k p
    by (simp add: segment_key_def demo_key_def demo_segment_def)
  have syn: "seg_dst_port ?syn = 80" "tf_syn (seg_flags ?syn)" "\<not> tf_ack (seg_flags ?syn)" "genuine 100 [1, 2, 3, 4] 0 ?syn"
    by (simp_all add: demo_segment_def flags_syn_def no_flags_def genuine_def)
  have data: "genuine 100 [1, 2, 3, 4] 0 ?data"
    by (auto simp: genuine_def demo_segment_def flags_ack_def no_flags_def slice_at_def intro!: exI [of _ 0])
  have nt: "no_timestamp ?syn" "no_timestamp ?data" by (simp_all add: no_timestamp_def demo_segment_def)
  have "\<not> tc_ts_enabled ?c0" by (simp add: new_server_def)
  from calm_segment [OF this nt(1), of 0] obtain p1 c1 where c1: "handle_segment_at ?syn 0 ?c0 = Some (p1, c1)"
    by (auto simp: calm_def)
  note f1 = demo_syn [OF c1]
  obtain p2 c2 where c2: "handle_segment_at ?data 5 c1 = Some (p2, c2)" "\<not> tc_ts_enabled c2"
    using calm_segment [OF f1(7) nt(2), of 5] by (auto simp: calm_def)
  obtain p3 c3 where c3: "poll_output 5 c2 = Some (p3, c3)" using calm_poll [OF c2(2), of 5] by (auto simp: calm_def)
  have rx3: "tc_rx_buffer c3 = [1, 2, 3]"
    using demo_data [OF c2(1) f1] poll_output_later [OF c3] by (auto simp: rx_later_def rx_view_def)
  obtain c4 where c4: "tcp_read 2 c3 = ([1, 2], c4)" "tc_rx_buffer c4 = [3]"
    using rx3 by (simp add: tcp_read_def Let_def)
  let ?le = "\<lparr> tl_handle = ?l, tl_local_addr = \<lparr> sock_ip = ip_UNSPECIFIED, sock_port = 80 \<rparr>, tl_backlog = 128,
     tl_next_isn = 1000, tl_accept_queue = [] \<rparr>"
  let ?rt1 = "(runtime_new ?b)\<lparr> sr_next_socket_id := 2, sr_tcp_listener_ports := [(80, ?l)], sr_tcp_listeners := [(?l, ?le)] \<rparr>"
  let ?rt2 = "?rt1\<lparr> sr_next_socket_id := 3, sr_tcp_streams := [(?h, \<lparr> ts_handle = ?h, ts_connection_key = demo_key \<rparr>)],
     sr_tcp_listeners := [(?l, ?le\<lparr> tl_next_isn := 65000, tl_accept_queue := [?h] \<rparr>)],
     sr_tcp_connections := [(demo_key, (?h, c1))], sr_current_time_ms := 0 \<rparr>"
  let ?rt3 = "?rt2\<lparr> sr_tcp_connections := [(demo_key, (?h, c3))], sr_current_time_ms := 5 \<rparr>"
  let ?rt4 = "?rt3\<lparr> sr_tcp_connections := [(demo_key, (?h, c4))] \<rparr>"
  have "sock_step (SListenAny 80) (runtime_new ?b) = Some ?rt1"
    by (simp add: tcp_listen_any_def open_listener_def next_id_def runtime_new_def Let_def)
  from sock_run.step [OF sock_run.init _ this] have r1: "?run ?rt1 (\<lambda>_. [])" by (simp add: runtime_new_def)
  have "sock_step (SSegment ?a ?b ?syn 0) ?rt1 = Some ?rt2"
    using c1 by (simp add: dispatch_tcp_segment_def key syn runtime_new_def backlog_full_def accept_syn_def
        with_mss_default next_id_def Let_def)
  from sock_run.step [OF r1 _ this] have r2: "?run ?rt2 (\<lambda>_. [])"
    using syn(4) by (simp add: key received_count_def runtime_new_def)
  have "sock_step (SSegment ?a ?b ?data 5) ?rt2 = Some ?rt3"
    using c2 c3 by (simp add: dispatch_tcp_segment_def key)
  from sock_run.step [OF r2 _ this] have r3: "?run ?rt3 (\<lambda>_. [])"
    using data f1(4) by (simp add: key received_count_def)
  have read: "socket_tcp_read ?h 2 ?rt3 = (Inr [1, 2], ?rt4)"
    using c4 by (simp add: socket_tcp_read_def key_of_def)
  then have "sock_step (SRead ?h 2) ?rt3 = Some ?rt4" by simp
  from sock_run.step [OF r3 _ this] have r4: "?run ?rt4 (sock_log (SRead ?h 2) ?rt3 (\<lambda>_. []))" by simp
  moreover have "sock_log (SRead ?h 2) ?rt3 (\<lambda>_. []) ?h = [1, 2]"
    using read by (simp add: read_owner_def key_of_def)
  moreover have "hm_get (sr_tcp_connections ?rt4) demo_key = Some (?h, c4)" by simp
  ultimately show ?thesis using c4(2) by blast
qed


section \<open>Finished connections\<close>

text \<open>C20: a connection that the peer resets is closed at once, but the application does not see the
  reset: once the receive buffer is empty, reading returns the zero bytes that stand for the
  orderly end of the stream, although no FIN was received.\<close>
theorem reset_reads_as_eof:
  assumes "key_of rt h = Inr (segment_key src dst seg)"
    and "hm_get (sr_tcp_connections rt) (segment_key src dst seg) = Some (x, c)"
    and "tc_state c = Established" "\<not> tc_aborted c" "tc_rx_buffer c = []" "\<not> tc_fin_received c"
    and "tf_rst (seg_flags seg)" "\<not> tf_syn (seg_flags seg)" "seg_options seg = []" "rst_acceptable seg c"
  shows "\<exists>rt' c'. dispatch_tcp_segment src dst seg now_ms rt = Some ([], rt') \<and>
    get_tcp_connection rt' (segment_key src dst seg) = Some c' \<and> \<not> tc_fin_received c' \<and>
    socket_tcp_state rt' h = Inr Closed \<and> fst (socket_tcp_read h n rt') = Inr []"
proof -
  let ?k = "segment_key src dst seg"
  let ?p = "snd (receive_prologue seg now_ms c)"
  let ?c1 = "handle_rst seg ?p" and ?c2 = "(handle_rst seg ?p)\<lparr> tc_current_time_ms := now_ms \<rparr>"
  have p: "fst (receive_prologue seg now_ms c) = None" "rst_acceptable seg ?p" "tc_aborted ?p = tc_aborted c"
    "tc_rx_buffer ?p = []" "tc_fin_received ?p = tc_fin_received c"
    using assms(3-) by (simp_all add: receive_prologue_def Let_def negotiate_timestamps_def rst_acceptable_def current_rcv_wnd_def)
  have seg: "handle_segment_at seg now_ms c = Some (None, ?c1)"
    using p(1) assms(7) by (simp add: handle_segment_at_def dispatch_segment_def split_beta)
  have c1: "tc_state ?c1 = Closed" "\<not> tc_aborted ?c1" "tc_rx_buffer ?c1 = []" "\<not> tc_fin_received ?c1"
    using p assms(4,6) by (simp_all add: handle_rst_def)
  then have poll: "poll_output now_ms ?c1 = Some ([], ?c2)" by (simp add: poll_output_def)
  let ?rt = "rt\<lparr> sr_current_time_ms := now_ms, sr_tcp_connections := hm_insert ?k (x, ?c2) (sr_tcp_connections rt) \<rparr>"
  have d: "dispatch_tcp_segment src dst seg now_ms rt = Some ([], ?rt)"
    using assms(2) seg poll by (simp add: dispatch_tcp_segment_def option_list_def)
  have k: "key_of ?rt h = Inr ?k" using assms(1) by (simp add: key_of_def)
  have g: "hm_get (sr_tcp_connections ?rt) ?k = Some (x, ?c2)" by (simp add: hm_get_insert)
  have r: "tcp_read n ?c2 = ([], ?c2)" using c1(3) by (simp add: tcp_read_def)
  show ?thesis
    using d c1 k g r
    by (intro exI [of _ ?rt] exI [of _ ?c2])
       (simp add: get_tcp_connection_def socket_tcp_state_def socket_tcp_read_def)
qed

definition demo_established :: SocketRuntime where
  "demo_established = (runtime_new (O4 10 0 0 1))\<lparr> sr_next_socket_id := 2,
     sr_tcp_streams := [(TcpStreamHandle 1, \<lparr> ts_handle = TcpStreamHandle 1, ts_connection_key = demo_key \<rparr>)],
     sr_tcp_connections := [(demo_key, (TcpStreamHandle 1,
       (new_server (key_local demo_key) (key_remote demo_key) 7)\<lparr> tc_state := Established, tc_rcv_nxt := 101 \<rparr>))] \<rparr>"

theorem reset_reads_as_eof_witness:
  "\<exists>rt'. dispatch_tcp_segment (O4 10 0 0 2) (O4 10 0 0 1) (demo_segment flags_rst 101 0 []) 5 demo_established = Some ([], rt') \<and>
     fst (socket_tcp_read (TcpStreamHandle 1) 100 rt') = Inr []"
proof -
  let ?seg = "demo_segment flags_rst 101 0 []" and ?rt = demo_established
  let ?c = "(new_server (key_local demo_key) (key_remote demo_key) 7)\<lparr> tc_state := Established, tc_rcv_nxt := 101 \<rparr>"
  have k: "segment_key (O4 10 0 0 2) (O4 10 0 0 1) ?seg = demo_key"
    by (simp add: segment_key_def demo_key_def demo_segment_def)
  have h: "key_of ?rt (TcpStreamHandle 1) = Inr (segment_key (O4 10 0 0 2) (O4 10 0 0 1) ?seg)"
    "hm_get (sr_tcp_connections ?rt) (segment_key (O4 10 0 0 2) (O4 10 0 0 1) ?seg) = Some (TcpStreamHandle 1, ?c)"
    "tc_state ?c = Established" "\<not> tc_aborted ?c" "tc_rx_buffer ?c = []" "\<not> tc_fin_received ?c"
    by (simp_all add: k demo_established_def key_of_def new_server_def)
  have f: "tf_rst (seg_flags ?seg)" "\<not> tf_syn (seg_flags ?seg)" "seg_options ?seg = []"
    by (simp_all add: demo_segment_def flags_rst_def no_flags_def)
  have "rst_acceptable ?seg ?c"
    by (simp add: rst_acceptable_def new_server_def demo_segment_def current_rcv_wnd_def seq_defs Let_def)
  from reset_reads_as_eof [OF h f this, of 5 100] show ?thesis by blast
qed

text \<open>C19: the handle of a finished stream that has not been released becomes an alias of the next
  connection between the same two addresses: it reports the state of the new connection, reads from
  it, and aborting the old handle removes the new connection.\<close>
theorem stale_handle_aliases:
  assumes "sock_inv rt" and "hm_get (sr_tcp_streams rt) old = Some e"
    and "ts_connection_key e = \<lparr> key_local = local, key_remote = remote \<rparr>"
    and "\<not> ip_is_unspecified (sock_ip local)" "sock_port local \<noteq> 0"
    and "tcp_connect_from local remote isn rt = Some (Inr new, rt')"
  shows "new \<noteq> old \<and> socket_tcp_state rt' old = Inr SynSent \<and>
    socket_tcp_read old n rt' = socket_tcp_read new n rt' \<and>
    (\<forall>now_ms rt''. tcp_abort old now_ms rt' = Some rt'' \<longrightarrow>
       get_tcp_connection rt'' \<lparr> key_local = local, key_remote = remote \<rparr> = None)"
proof -
  let ?k = "\<lparr> key_local = local, key_remote = remote \<rparr>" and ?h = "TcpStreamHandle (sr_next_socket_id rt)"
  have "stream_id old < sr_next_socket_id rt" using assms(1,2) by (auto simp: sock_inv_def conn_ok_def)
  then have ne: "?h \<noteq> old" by auto
  have port: "local\<lparr> sock_port := sock_port local \<rparr> = local" by simp
  obtain pkt c where c: "initiate_syn_at (sr_current_time_ms rt) (with_mss (sr_default_mss rt) (new_client local remote isn)) = Some (pkt, c)"
    and rt': "new = ?h" "sr_tcp_connections rt' = hm_insert ?k (?h, c) (sr_tcp_connections rt)"
      "sr_tcp_streams rt' = hm_insert ?h \<lparr> ts_handle = ?h, ts_connection_key = ?k \<rparr> (sr_tcp_streams rt)"
    using assms(4-6) by (auto simp: tcp_connect_from_def port Let_def bind_eq_Some_conv next_id_def split: if_splits)
  have st: "tc_state c = SynSent" "tc_rx_buffer c = []"
    using c by (auto simp: initiate_syn_at_def Let_def bind_eq_Some_conv count_segment_sent_def track_for_retransmit_def
        with_mss_def new_client_def)
  have keys: "key_of rt' old = Inr ?k" "key_of rt' ?h = Inr ?k"
    using rt'(3) assms(2,3) ne by (simp_all add: key_of_def hm_get_insert)
  have conn: "hm_get (sr_tcp_connections rt') ?k = Some (?h, c)" using rt'(2) by (simp add: hm_get_insert)
  have "get_tcp_connection rt'' ?k = None" if "tcp_abort old t rt' = Some rt''" for t rt''
    using that keys conn
    by (auto simp: tcp_abort_def bind_eq_Some_conv tcp_release_def get_tcp_connection_def hm_get_remove)
  then show ?thesis
    using ne rt'(1) st keys conn by (auto simp: socket_tcp_state_def socket_tcp_read_def)
qed

definition demo_finished :: SocketRuntime where
  "demo_finished = (runtime_new (O4 10 0 0 1))\<lparr> sr_next_socket_id := 2,
     sr_tcp_streams := [(TcpStreamHandle 1, \<lparr> ts_handle = TcpStreamHandle 1, ts_connection_key = demo_key \<rparr>)],
     sr_closed_streams := [(TcpStreamHandle 1, (Closed, stats_default, []))], sr_closed_order := [TcpStreamHandle 1] \<rparr>"

theorem stale_handle_aliases_witness:
  "\<exists>rt'. tcp_connect_from (key_local demo_key) (key_remote demo_key) 9 demo_finished = Some (Inr (TcpStreamHandle 2), rt') \<and>
     socket_tcp_state demo_finished (TcpStreamHandle 1) = Inr Closed \<and> socket_tcp_state rt' (TcpStreamHandle 1) = Inr SynSent"
proof -
  let ?rt = demo_finished
  have inv: "sock_inv ?rt"
    by (auto simp: demo_finished_def runtime_new_def sock_inv_def conn_ok_def hm_contains_def hm_wf_def
        MAX_CLOSED_STREAM_HISTORY_def split: if_splits)
  have "initiate_syn_at 0 (with_mss 1460 (new_client (key_local demo_key) (key_remote demo_key) 9)) \<noteq> None"
    by (simp add: initiate_syn_at_def Let_def new_client_def with_mss_def bind_eq_None_conv conn_serialize_iff)
  then obtain rt' where r: "tcp_connect_from (key_local demo_key) (key_remote demo_key) 9 ?rt = Some (Inr (TcpStreamHandle 2), rt')"
    by (auto simp: tcp_connect_from_def demo_finished_def runtime_new_def ip_is_unspecified_def demo_key_def next_id_def hm_contains_def Let_def)
  have s: "hm_get (sr_tcp_streams ?rt) (TcpStreamHandle 1) = Some \<lparr> ts_handle = TcpStreamHandle 1, ts_connection_key = demo_key \<rparr>"
    "ts_connection_key \<lparr> ts_handle = TcpStreamHandle 1, ts_connection_key = demo_key \<rparr> = \<lparr> key_local = key_local demo_key, key_remote = key_remote demo_key \<rparr>"
    "\<not> ip_is_unspecified (sock_ip (key_local demo_key))" "sock_port (key_local demo_key) \<noteq> 0"
    by (simp_all add: demo_finished_def ip_is_unspecified_def demo_key_def)
  have "socket_tcp_state ?rt (TcpStreamHandle 1) = Inr Closed"
    by (simp add: socket_tcp_state_def key_of_def demo_finished_def runtime_new_def)
  with stale_handle_aliases [OF inv s r] r show ?thesis by blast
qed

end
