(* ===== verification/Dhcp.thy ===== *)
theory Dhcp
  imports Ethernet Ipv4 Interfaces
begin

text \<open>
  DHCP (\<open>dhcp.rs\<close>): messages with their options, the builders, and the address server.  The server
  hands out every address of its pool at most once as long as the pool lasts and clients request
  what they were offered; what happens otherwise is stated as well.
\<close>

section \<open>Messages\<close>

definition DHCP_SERVER_PORT :: u16 where "DHCP_SERVER_PORT = 67"
definition DHCP_CLIENT_PORT :: u16 where "DHCP_CLIENT_PORT = 68"
definition DHCP_OP_BOOTREQUEST :: u8 where "DHCP_OP_BOOTREQUEST = 1"
definition DHCP_OP_BOOTREPLY :: u8 where "DHCP_OP_BOOTREPLY = 2"
definition DHCP_MAGIC_COOKIE :: bytes where "DHCP_MAGIC_COOKIE = [0x63, 0x82, 0x53, 0x63]"
definition DHCP_OPT_PAD :: u8 where "DHCP_OPT_PAD = 0"
definition DHCP_OPT_SUBNET_MASK :: u8 where "DHCP_OPT_SUBNET_MASK = 1"
definition DHCP_OPT_ROUTER :: u8 where "DHCP_OPT_ROUTER = 3"
definition DHCP_OPT_DNS :: u8 where "DHCP_OPT_DNS = 6"
definition DHCP_OPT_LEASE_TIME :: u8 where "DHCP_OPT_LEASE_TIME = 51"
definition DHCP_OPT_MSG_TYPE :: u8 where "DHCP_OPT_MSG_TYPE = 53"
definition DHCP_OPT_SERVER_ID :: u8 where "DHCP_OPT_SERVER_ID = 54"
definition DHCP_OPT_END :: u8 where "DHCP_OPT_END = 255"

lemmas dhcp_opt_defs = DHCP_OPT_PAD_def DHCP_OPT_SUBNET_MASK_def DHCP_OPT_ROUTER_def DHCP_OPT_DNS_def
  DHCP_OPT_LEASE_TIME_def DHCP_OPT_MSG_TYPE_def DHCP_OPT_SERVER_ID_def DHCP_OPT_END_def

datatype DhcpMessageType = Discover | Offer | Request | Ack | Nak | Release | DhcpUnknown u8

definition dhcp_type_from_u8 :: "u8 \<Rightarrow> DhcpMessageType" where
  "dhcp_type_from_u8 val =
     (if val = 1 then Discover else if val = 2 then Offer else if val = 3 then Request
      else if val = 5 then Ack else if val = 6 then Nak else if val = 7 then Release
      else DhcpUnknown val)"

fun dhcp_type_to_u8 :: "DhcpMessageType \<Rightarrow> u8" where
  "dhcp_type_to_u8 Discover = 1"
| "dhcp_type_to_u8 Offer = 2"
| "dhcp_type_to_u8 Request = 3"
| "dhcp_type_to_u8 Ack = 5"
| "dhcp_type_to_u8 Nak = 6"
| "dhcp_type_to_u8 Release = 7"
| "dhcp_type_to_u8 (DhcpUnknown v) = v"

interpretation dhcp_type: tag_codec dhcp_type_from_u8 dhcp_type_to_u8
  by unfold_locales (simp add: dhcp_type_from_u8_def)

record DhcpPacket =
  dh_op :: u8
  dh_xid :: u32
  dh_ciaddr :: Ipv4Address
  dh_yiaddr :: Ipv4Address
  dh_siaddr :: Ipv4Address
  dh_chaddr :: MacAddress
  dh_msg_type :: DhcpMessageType
  dh_subnet_mask :: "Ipv4Address option"
  dh_router :: "Ipv4Address option"
  dh_dns :: "Ipv4Address option"
  dh_server_id :: "Ipv4Address option"
  dh_lease_time :: "u32 option"

datatype DhcpError = DhcpPacketTooShort nat | InvalidMagicCookie | InvalidOptionLength

text \<open>One option: the \<open>match\<close> on its number and length.\<close>

definition dhcp_option :: "u8 \<Rightarrow> bytes \<Rightarrow> DhcpPacket \<Rightarrow> DhcpPacket" where
  "dhcp_option opt val pkt =
     (if opt = DHCP_OPT_MSG_TYPE \<and> length val = 1 then pkt\<lparr> dh_msg_type := dhcp_type_from_u8 (val ! 0) \<rparr>
      else if opt = DHCP_OPT_SUBNET_MASK \<and> length val = 4 then pkt\<lparr> dh_subnet_mask := Some (read4 0 val) \<rparr>
      else if opt = DHCP_OPT_ROUTER \<and> length val \<ge> 4 then pkt\<lparr> dh_router := Some (read4 0 val) \<rparr>
      else if opt = DHCP_OPT_DNS \<and> length val \<ge> 4 then pkt\<lparr> dh_dns := Some (read4 0 val) \<rparr>
      else if opt = DHCP_OPT_SERVER_ID \<and> length val = 4 then pkt\<lparr> dh_server_id := Some (read4 0 val) \<rparr>
      else if opt = DHCP_OPT_LEASE_TIME \<and> length val = 4 then pkt\<lparr> dh_lease_time := Some (read_u32 0 val) \<rparr>
      else pkt)"

function dhcp_options_loop :: "bytes \<Rightarrow> nat \<Rightarrow> DhcpPacket \<Rightarrow> DhcpError + DhcpPacket" where
  "dhcp_options_loop data offset pkt =
     (if offset < length data
      then let opt = data ! offset
           in if opt = DHCP_OPT_END then Inr pkt
              else if opt = DHCP_OPT_PAD then dhcp_options_loop data (offset + 1) pkt
              else if offset + 1 \<ge> length data then Inl InvalidOptionLength
              else let len = unat (data ! (offset + 1));
                       offset = offset + 2
                   in if offset + len > length data then Inl InvalidOptionLength
                      else dhcp_options_loop data (offset + len)
                             (dhcp_option opt (subslice offset (offset + len) data) pkt)
      else Inr pkt)"
  by pat_completeness auto
termination
  by (relation "measure (\<lambda>(data, offset, pkt). length data - offset)") auto

declare dhcp_options_loop.simps [simp del]

definition dhcp_parse :: "bytes \<Rightarrow> DhcpError + DhcpPacket" where
  "dhcp_parse data =
     (if length data < 240 then Inl (DhcpPacketTooShort (length data))
      else if subslice 236 240 data \<noteq> DHCP_MAGIC_COOKIE then Inl InvalidMagicCookie
      else dhcp_options_loop data 240
             \<lparr> dh_op = data ! 0, dh_xid = read_u32 4 data, dh_ciaddr = read4 12 data,
               dh_yiaddr = read4 16 data, dh_siaddr = read4 20 data, dh_chaddr = read6 28 data,
               dh_msg_type = DhcpUnknown 0, dh_subnet_mask = None, dh_router = None, dh_dns = None,
               dh_server_id = None, dh_lease_time = None \<rparr>)"

definition dhcp_addr_option :: "u8 \<Rightarrow> Ipv4Address option \<Rightarrow> bytes" where
  "dhcp_addr_option opt a = (case a of Some ip \<Rightarrow> [opt, 4] @ bytes4 ip | None \<Rightarrow> [])"

definition dhcp_serialize :: "DhcpPacket \<Rightarrow> bytes" where
  "dhcp_serialize pkt =
     (let buf = replicate 236 0;
          buf = write_at 0 [dh_op pkt, 1, 6, 0] buf;
          buf = write_at 4 (u32_to_be (dh_xid pkt)) buf;
          buf = write_at 12 (bytes4 (dh_ciaddr pkt)) buf;
          buf = write_at 16 (bytes4 (dh_yiaddr pkt)) buf;
          buf = write_at 20 (bytes4 (dh_siaddr pkt)) buf;
          buf = write_at 28 (bytes6 (dh_chaddr pkt)) buf
      in buf @ DHCP_MAGIC_COOKIE @ [DHCP_OPT_MSG_TYPE, 1, dhcp_type_to_u8 (dh_msg_type pkt)] @
         dhcp_addr_option DHCP_OPT_SERVER_ID (dh_server_id pkt) @
         dhcp_addr_option DHCP_OPT_SUBNET_MASK (dh_subnet_mask pkt) @
         dhcp_addr_option DHCP_OPT_ROUTER (dh_router pkt) @
         dhcp_addr_option DHCP_OPT_DNS (dh_dns pkt) @
         (case dh_lease_time pkt of Some lt \<Rightarrow> [DHCP_OPT_LEASE_TIME, 4] @ u32_to_be lt | None \<Rightarrow> []) @
         [DHCP_OPT_END])"

definition build_discover :: "MacAddress \<Rightarrow> u32 \<Rightarrow> DhcpPacket" where
  "build_discover chaddr xid =
     \<lparr> dh_op = DHCP_OP_BOOTREQUEST, dh_xid = xid, dh_ciaddr = ip_UNSPECIFIED, dh_yiaddr = ip_UNSPECIFIED,
       dh_siaddr = ip_UNSPECIFIED, dh_chaddr = chaddr, dh_msg_type = Discover, dh_subnet_mask = None,
       dh_router = None, dh_dns = None, dh_server_id = None, dh_lease_time = None \<rparr>"

definition build_offer ::
  "MacAddress \<Rightarrow> u32 \<Rightarrow> Ipv4Address \<Rightarrow> Ipv4Address \<Rightarrow> Ipv4Address \<Rightarrow> Ipv4Address \<Rightarrow> Ipv4Address \<Rightarrow> u32 \<Rightarrow> DhcpPacket" where
  "build_offer chaddr xid offered_ip server_ip subnet_mask router dns lease_secs =
     \<lparr> dh_op = DHCP_OP_BOOTREPLY, dh_xid = xid, dh_ciaddr = ip_UNSPECIFIED, dh_yiaddr = offered_ip,
       dh_siaddr = server_ip, dh_chaddr = chaddr, dh_msg_type = Offer, dh_subnet_mask = Some subnet_mask,
       dh_router = Some router, dh_dns = Some dns, dh_server_id = Some server_ip,
       dh_lease_time = Some lease_secs \<rparr>"

definition build_dhcp_request :: "MacAddress \<Rightarrow> u32 \<Rightarrow> Ipv4Address \<Rightarrow> Ipv4Address \<Rightarrow> DhcpPacket" where
  "build_dhcp_request chaddr xid requested_ip server_id =
     \<lparr> dh_op = DHCP_OP_BOOTREQUEST, dh_xid = xid, dh_ciaddr = ip_UNSPECIFIED, dh_yiaddr = requested_ip,
       dh_siaddr = server_id, dh_chaddr = chaddr, dh_msg_type = Request, dh_subnet_mask = None,
       dh_router = None, dh_dns = None, dh_server_id = Some server_id, dh_lease_time = None \<rparr>"

definition build_dhcp_ack ::
  "MacAddress \<Rightarrow> u32 \<Rightarrow> Ipv4Address \<Rightarrow> Ipv4Address \<Rightarrow> Ipv4Address \<Rightarrow> Ipv4Address \<Rightarrow> Ipv4Address \<Rightarrow> u32 \<Rightarrow> DhcpPacket" where
  "build_dhcp_ack chaddr xid assigned_ip server_ip subnet_mask router dns lease_secs =
     \<lparr> dh_op = DHCP_OP_BOOTREPLY, dh_xid = xid, dh_ciaddr = ip_UNSPECIFIED, dh_yiaddr = assigned_ip,
       dh_siaddr = server_ip, dh_chaddr = chaddr, dh_msg_type = Ack, dh_subnet_mask = Some subnet_mask,
       dh_router = Some router, dh_dns = Some dns, dh_server_id = Some server_ip,
       dh_lease_time = Some lease_secs \<rparr>"

section \<open>The server\<close>

record DhcpServer =
  ds_server_ip :: Ipv4Address
  ds_subnet_mask :: Ipv4Address
  ds_router :: Ipv4Address
  ds_dns :: Ipv4Address
  ds_start_ip :: Ipv4Address
  ds_end_ip :: Ipv4Address
  ds_next_alloc_u32 :: u32
  ds_lease_time_secs :: u32
  ds_leases :: "(MacAddress, Ipv4Address) hash_map"

definition dhcp_server_new ::
  "Ipv4Address \<Rightarrow> Ipv4Address \<Rightarrow> Ipv4Address \<Rightarrow> Ipv4Address \<Rightarrow> Ipv4Address \<Rightarrow> Ipv4Address \<Rightarrow> u32 \<Rightarrow> DhcpServer" where
  "dhcp_server_new server_ip subnet_mask router dns start_ip end_ip lease_time_secs =
     \<lparr> ds_server_ip = server_ip, ds_subnet_mask = subnet_mask, ds_router = router, ds_dns = dns,
       ds_start_ip = start_ip, ds_end_ip = end_ip, ds_next_alloc_u32 = ip_to_u32 start_ip,
       ds_lease_time_secs = lease_time_secs, ds_leases = [] \<rparr>"

definition allocate_ip :: "MacAddress \<Rightarrow> DhcpServer \<Rightarrow> Ipv4Address \<times> DhcpServer" where
  "allocate_ip mac srv =
     (case hm_get (ds_leases srv) mac of
        Some existing \<Rightarrow> (existing, srv)
      | None \<Rightarrow>
          let allocated = ip_from_u32 (ds_next_alloc_u32 srv);
              srv = (if ds_next_alloc_u32 srv < ip_to_u32 (ds_end_ip srv)
                     then srv\<lparr> ds_next_alloc_u32 := ds_next_alloc_u32 srv + 1 \<rparr> else srv)
          in (allocated, srv\<lparr> ds_leases := hm_insert mac allocated (ds_leases srv) \<rparr>))"

definition dhcp_handle_packet :: "DhcpPacket \<Rightarrow> DhcpServer \<Rightarrow> DhcpPacket option \<times> DhcpServer" where
  "dhcp_handle_packet pkt srv =
     (case dh_msg_type pkt of
        Discover \<Rightarrow>
          let (offered_ip, srv) = allocate_ip (dh_chaddr pkt) srv
          in (Some (build_offer (dh_chaddr pkt) (dh_xid pkt) offered_ip (ds_server_ip srv) (ds_subnet_mask srv)
                (ds_router srv) (ds_dns srv) (ds_lease_time_secs srv)), srv)
      | Request \<Rightarrow>
          let (assigned_ip, srv) = (if dh_yiaddr pkt \<noteq> ip_UNSPECIFIED then (dh_yiaddr pkt, srv)
                                    else allocate_ip (dh_chaddr pkt) srv);
              srv = srv\<lparr> ds_leases := hm_insert (dh_chaddr pkt) assigned_ip (ds_leases srv) \<rparr>
          in (Some (build_dhcp_ack (dh_chaddr pkt) (dh_xid pkt) assigned_ip (ds_server_ip srv) (ds_subnet_mask srv)
                (ds_router srv) (ds_dns srv) (ds_lease_time_secs srv)), srv)
      | _ \<Rightarrow> (None, srv))"

section \<open>Messages survive the wire\<close>

text \<open>The option loop as a recursion over the remaining bytes.\<close>

function dhcp_options_of :: "bytes \<Rightarrow> DhcpPacket \<Rightarrow> DhcpError + DhcpPacket" where
  "dhcp_options_of [] pkt = Inr pkt"
| "dhcp_options_of (opt # xs) pkt =
     (if opt = DHCP_OPT_END then Inr pkt
      else if opt = DHCP_OPT_PAD then dhcp_options_of xs pkt
      else case xs of
             [] \<Rightarrow> Inl InvalidOptionLength
           | len # ys \<Rightarrow>
               if unat len > length ys then Inl InvalidOptionLength
               else dhcp_options_of (drop (unat len) ys) (dhcp_option opt (take (unat len) ys) pkt))"
  by pat_completeness auto
termination
  by (relation "measure (\<lambda>(xs, pkt). length xs)") auto

lemma dhcp_options_loop_eq: "dhcp_options_loop data off pkt = dhcp_options_of (drop off data) pkt"
proof (induction data off pkt rule: dhcp_options_loop.induct)
  case (1 data off pkt)
  show ?case
  proof (cases "off < length data")
    case True
    then have drop: "drop off data = data ! off # drop (off + 1) data" by (simp add: Cons_nth_drop_Suc)
    show ?thesis
    proof (cases "off + 1 < length data")
      case True
      then have drop2: "drop (Suc off) data = data ! Suc off # drop (Suc (Suc off)) data"
        using Cons_nth_drop_Suc [of "Suc off" data] by simp
      have sub: "subslice (Suc (Suc off)) (Suc (Suc (off + n))) data = take n (drop (Suc (Suc off)) data)"
        "drop n (drop (Suc (Suc off)) data) = drop (Suc (Suc (off + n))) data"
        "length (drop (Suc (Suc off)) data) < n \<longleftrightarrow> length data < Suc (Suc (off + n))" for n
        using True by (auto simp: subslice_def add.commute)
      show ?thesis
        using 1 \<open>off < length data\<close> True
        by (subst dhcp_options_loop.simps) (simp add: drop drop2 Let_def sub del: drop_drop length_drop)
    next
      case False
      then have "drop (off + 1) data = []" by simp
      then show ?thesis
        using 1(1) \<open>off < length data\<close> False by (subst dhcp_options_loop.simps) (simp add: drop Let_def)
    qed
  qed (subst dhcp_options_loop.simps, simp)
qed

lemma read_own_bytes: "read4 0 (bytes4 a) = a" "read_u32 0 (u32_to_be w) = w"
  by (cases a; simp add: read4_def) (simp add: read_u32_def u32_to_be_def)

lemma dhcp_addr_step:
  assumes "opt \<noteq> DHCP_OPT_END" "opt \<noteq> DHCP_OPT_PAD"
  shows "dhcp_options_of (dhcp_addr_option opt a @ rest) pkt =
    dhcp_options_of rest (case a of Some ip \<Rightarrow> dhcp_option opt (bytes4 ip) pkt | None \<Rightarrow> pkt)"
  using assms by (cases a) (simp_all add: dhcp_addr_option_def)

lemma dhcp_header_fields:
  fixes op :: u8 and pre :: bytes
  assumes pre: "pre = write_at 28 (bytes6 m) (write_at 20 (bytes4 d) (write_at 16 (bytes4 c) (write_at 12 (bytes4 b)
    (write_at 4 (u32_to_be x) (write_at 0 [op, 1, 6, 0] (replicate 236 0))))))"
  shows "length pre = 236" "(pre @ r) ! 0 = op" "read_u32 4 (pre @ r) = x" "read4 12 (pre @ r) = b"
    "read4 16 (pre @ r) = c" "read4 20 (pre @ r) = d" "read6 28 (pre @ r) = m"
proof -
  show len: "length pre = 236" by (simp add: pre)
  obtain b1 b2 b3 b4 where b: "b = O4 b1 b2 b3 b4" by (cases b)
  obtain c1 c2 c3 c4 where c: "c = O4 c1 c2 c3 c4" by (cases c)
  obtain d1 d2 d3 d4 where d: "d = O4 d1 d2 d3 d4" by (cases d)
  obtain m1 m2 m3 m4 m5 m6 where m: "m = O6 m1 m2 m3 m4 m5 m6" by (cases m)
  have app: "(pre @ r) ! i = pre ! i" if "i < 236" for i using that len by (simp add: nth_append)
  show "(pre @ r) ! 0 = op" "read_u32 4 (pre @ r) = x" "read4 12 (pre @ r) = b"
    "read4 16 (pre @ r) = c" "read4 20 (pre @ r) = d" "read6 28 (pre @ r) = m"
    by (simp_all add: read4_def read6_def read_u32_def app) (simp_all add: pre nth_write_at u32_to_be_def b c d m)
qed

lemma dhcp_parse_serialize:
  assumes "dhcp_type_from_u8 (dhcp_type_to_u8 (dh_msg_type pkt)) = dh_msg_type pkt"
  shows "dhcp_parse (dhcp_serialize pkt) = Inr pkt"
proof -
  define pre where "pre = write_at 28 (bytes6 (dh_chaddr pkt)) (write_at 20 (bytes4 (dh_siaddr pkt))
    (write_at 16 (bytes4 (dh_yiaddr pkt)) (write_at 12 (bytes4 (dh_ciaddr pkt)) (write_at 4 (u32_to_be (dh_xid pkt))
    (write_at 0 [dh_op pkt, 1, 6, 0] (replicate 236 0))))))"
  define opts where "opts = [DHCP_OPT_MSG_TYPE, 1, dhcp_type_to_u8 (dh_msg_type pkt)] @
         dhcp_addr_option DHCP_OPT_SERVER_ID (dh_server_id pkt) @
         dhcp_addr_option DHCP_OPT_SUBNET_MASK (dh_subnet_mask pkt) @
         dhcp_addr_option DHCP_OPT_ROUTER (dh_router pkt) @
         dhcp_addr_option DHCP_OPT_DNS (dh_dns pkt) @
         (case dh_lease_time pkt of Some lt \<Rightarrow> [DHCP_OPT_LEASE_TIME, 4] @ u32_to_be lt | None \<Rightarrow> []) @
         [DHCP_OPT_END]"
  note f = dhcp_header_fields [OF pre_def]
  have ser: "dhcp_serialize pkt = pre @ DHCP_MAGIC_COOKIE @ opts"
    by (simp add: dhcp_serialize_def Let_def pre_def opts_def)
  have "dhcp_options_of opts \<lparr> dh_op = dh_op pkt, dh_xid = dh_xid pkt, dh_ciaddr = dh_ciaddr pkt,
      dh_yiaddr = dh_yiaddr pkt, dh_siaddr = dh_siaddr pkt, dh_chaddr = dh_chaddr pkt,
      dh_msg_type = DhcpUnknown 0, dh_subnet_mask = None, dh_router = None, dh_dns = None,
      dh_server_id = None, dh_lease_time = None \<rparr> = Inr pkt"
    using assms unfolding opts_def
    by (cases "dh_server_id pkt"; cases "dh_subnet_mask pkt"; cases "dh_router pkt"; cases "dh_dns pkt"; cases "dh_lease_time pkt"; cases pkt)
       (simp_all add: dhcp_addr_step dhcp_option_def dhcp_opt_defs read_own_bytes)
  moreover have "drop 240 (dhcp_serialize pkt) = opts" "subslice 236 240 (dhcp_serialize pkt) = DHCP_MAGIC_COOKIE"
    "\<not> length (dhcp_serialize pkt) < 240"
    by (simp_all add: ser f(1) subslice_def DHCP_MAGIC_COOKIE_def)
  ultimately show ?thesis
    by (simp add: dhcp_parse_def dhcp_options_loop_eq) (simp add: ser f)
qed

interpretation dhcp_wire: wire_codec
  "\<lambda>pkt. dhcp_type_from_u8 (dhcp_type_to_u8 (dh_msg_type pkt)) = dh_msg_type pkt" dhcp_serialize dhcp_parse id
  by unfold_locales (simp add: dhcp_parse_serialize)

section \<open>Leases\<close>

text \<open>A client that only requests the address it has been given.\<close>

definition obedient :: "DhcpServer \<Rightarrow> DhcpPacket \<Rightarrow> bool" where
  "obedient srv pkt \<longleftrightarrow>
     (dh_msg_type pkt = Request \<and> dh_yiaddr pkt \<noteq> ip_UNSPECIFIED \<longrightarrow>
        hm_get (ds_leases srv) (dh_chaddr pkt) = Some (dh_yiaddr pkt))"

inductive dhcp_run :: "DhcpServer \<Rightarrow> DhcpServer \<Rightarrow> bool" for srv0 :: DhcpServer where
  start: "dhcp_run srv0 srv0"
| packet: "dhcp_run srv0 srv \<Longrightarrow> obedient srv pkt \<Longrightarrow> dhcp_run srv0 (snd (dhcp_handle_packet pkt srv))"

text \<open>While the pool of \<open>lo\<close> to \<open>hi\<close> lasts, the \<open>n\<close> leases are its first \<open>n\<close> addresses.\<close>

definition pool_inv :: "nat \<Rightarrow> nat \<Rightarrow> DhcpServer \<Rightarrow> bool" where
  "pool_inv lo hi srv \<longleftrightarrow>
     lo \<le> hi \<and> unat (ip_to_u32 (ds_end_ip srv)) = hi \<and> hm_wf (ds_leases srv) \<and>
     (length (ds_leases srv) \<le> hi - lo + 1 \<longrightarrow>
        unat (ds_next_alloc_u32 srv) = min (lo + length (ds_leases srv)) hi \<and>
        (\<forall>mac ip. hm_get (ds_leases srv) mac = Some ip \<longrightarrow>
           lo \<le> unat (ip_to_u32 ip) \<and> unat (ip_to_u32 ip) < lo + length (ds_leases srv)) \<and>
        (\<forall>mac mac' ip. hm_get (ds_leases srv) mac = Some ip \<longrightarrow> hm_get (ds_leases srv) mac' = Some ip \<longrightarrow> mac = mac'))"

lemma length_insert_known: "hm_get m k = Some v \<Longrightarrow> length (hm_insert k w m) = length m"
  by (metis length_hm_insert map_of_SomeD fst_conv image_eqI)

lemma length_insert_new: "hm_get m k = None \<Longrightarrow> length (hm_insert k w m) = Suc (length m)"
  by (metis length_hm_insert map_of_eq_None_iff)

lemma insert_same: "hm_get m k = Some v \<Longrightarrow> hm_insert k v m = m"
  by (induction m) (auto split: if_splits)

lemma allocate_ip_inv:
  assumes "pool_inv lo hi srv"
  shows "pool_inv lo hi (snd (allocate_ip mac srv))"
    and "hm_get (ds_leases (snd (allocate_ip mac srv))) mac = Some (fst (allocate_ip mac srv))"
proof -
  show "hm_get (ds_leases (snd (allocate_ip mac srv))) mac = Some (fst (allocate_ip mac srv))"
    by (simp add: allocate_ip_def Let_def hm_get_insert split: option.split)
  show "pool_inv lo hi (snd (allocate_ip mac srv))"
  proof (cases "hm_get (ds_leases srv) mac")
    case None
    let ?n = "length (ds_leases srv)" and ?srv = "snd (allocate_ip mac srv)"
    let ?new = "ip_from_u32 (ds_next_alloc_u32 srv)"
    have leases: "ds_leases ?srv = hm_insert mac ?new (ds_leases srv)" "length (ds_leases ?srv) = Suc ?n"
      "ds_end_ip ?srv = ds_end_ip srv"
      using None by (simp_all add: allocate_ip_def Let_def length_insert_new)
    have base: "lo \<le> hi" "unat (ip_to_u32 (ds_end_ip srv)) = hi" "hm_wf (ds_leases srv)"
      using assms by (simp_all add: pool_inv_def)
    show ?thesis
    proof (cases "Suc ?n \<le> hi - lo + 1")
      case True
      then have n: "unat (ds_next_alloc_u32 srv) = lo + ?n" "lo + ?n \<le> hi"
        using assms base(1) by (auto simp: pool_inv_def)
      have next_less: "ds_next_alloc_u32 srv < ip_to_u32 (ds_end_ip srv) \<longleftrightarrow> lo + ?n < hi"
        using n base(2) by (simp add: word_less_nat_alt)
      have "hi < 2 ^ 32" using base(2) unat_bound [of "ip_to_u32 (ds_end_ip srv)"] by simp
      then have "unat (ds_next_alloc_u32 srv + 1) = lo + ?n + 1" if "lo + ?n < hi"
        using that n by (simp add: unat_word_ariths)
      then have "unat (ds_next_alloc_u32 ?srv) = min (lo + Suc ?n) hi"
        using None n next_less by (auto simp: allocate_ip_def Let_def)
      moreover have "lo \<le> unat (ip_to_u32 ip)" "unat (ip_to_u32 ip) < lo + ?n" if "hm_get (ds_leases srv) m = Some ip" for m ip
        using assms that True by (auto simp: pool_inv_def)
      moreover have "m = m'" if "hm_get (ds_leases srv) m = Some ip" "hm_get (ds_leases srv) m' = Some ip" for m m' ip
        using assms that True unfolding pool_inv_def by fastforce
      moreover have "unat (ip_to_u32 ?new) = lo + ?n" using n(1) by simp
      ultimately show ?thesis
        using base leases by (fastforce simp: pool_inv_def hm_get_insert split: if_splits)
    next
      case False
      then show ?thesis using base leases unfolding pool_inv_def by simp
    qed
  qed (use assms in \<open>simp add: allocate_ip_def\<close>)
qed

lemma pool_inv_step:
  assumes "pool_inv lo hi srv" "obedient srv pkt"
  shows "pool_inv lo hi (snd (dhcp_handle_packet pkt srv))"
proof -
  have same: "srv1\<lparr> ds_leases := hm_insert mac ip (ds_leases srv1) \<rparr> = srv1" if "hm_get (ds_leases srv1) mac = Some ip" for srv1 :: DhcpServer and mac ip
    using insert_same [OF that] by simp
  show ?thesis
    using assms allocate_ip_inv [OF assms(1), of "dh_chaddr pkt"]
    by (cases "dh_msg_type pkt")
       (auto simp: dhcp_handle_packet_def obedient_def Let_def split_beta same)
qed

text \<open>C28: as long as a DHCP server has not more clients than addresses and clients request the
  address they were offered, no two clients hold the same address and every address handed out
  lies in the configured pool, whatever the sequence of messages.\<close>
theorem dhcp_leases_distinct:
  assumes "dhcp_run (dhcp_server_new server_ip subnet_mask router dns start_ip end_ip lease_secs) srv"
    and "ip_to_u32 start_ip \<le> ip_to_u32 end_ip"
    and "length (ds_leases srv) \<le> unat (ip_to_u32 end_ip) - unat (ip_to_u32 start_ip) + 1"
    and "hm_get (ds_leases srv) mac = Some ip"
  shows "ip_to_u32 start_ip \<le> ip_to_u32 ip \<and> ip_to_u32 ip \<le> ip_to_u32 end_ip \<and>
    (\<forall>mac'. hm_get (ds_leases srv) mac' = Some ip \<longrightarrow> mac' = mac)"
proof -
  let ?lo = "unat (ip_to_u32 start_ip)" and ?hi = "unat (ip_to_u32 end_ip)"
  have "pool_inv ?lo ?hi srv"
    using assms(1)
  proof (induction rule: dhcp_run.induct)
    case start
    then show ?case using assms(2) by (auto simp: pool_inv_def dhcp_server_new_def word_le_nat_alt)
  qed (rule pool_inv_step)
  then show ?thesis using assms(2-) unfolding pool_inv_def word_le_nat_alt by fastforce
qed

definition demo_server :: DhcpServer where
  "demo_server = dhcp_server_new (O4 192 168 1 1) (O4 255 255 255 0) (O4 192 168 1 1) (O4 8 8 8 8)
     (O4 192 168 1 100) (O4 192 168 1 200) 86400"

lemma demo_pool: "ip_to_u32 (O4 192 168 1 100) = 0xC0A80164" "ip_to_u32 (O4 192 168 1 200) = 0xC0A801C8"
  "ip_from_u32 0xC0A80164 = O4 192 168 1 100"
  by (simp_all add: u32_from_be_def ip_from_u32_def read4_def u32_to_be_def)

lemma demo_offer:
  "dhcp_handle_packet (build_discover (O6 2 0 0 0 0 1) 7) demo_server =
     (Some (build_offer (O6 2 0 0 0 0 1) 7 (O4 192 168 1 100) (O4 192 168 1 1) (O4 255 255 255 0) (O4 192 168 1 1)
        (O4 8 8 8 8) 86400),
      demo_server\<lparr> ds_next_alloc_u32 := 0xC0A80165, ds_leases := [(O6 2 0 0 0 0 1, O4 192 168 1 100)] \<rparr>)"
  by (simp add: dhcp_handle_packet_def build_discover_def demo_server_def dhcp_server_new_def allocate_ip_def
      demo_pool Let_def del: ip_to_u32.simps)

theorem dhcp_leases_distinct_witness:
  "\<exists>srv. dhcp_run demo_server srv \<and> hm_get (ds_leases srv) (O6 2 0 0 0 0 1) = Some (O4 192 168 1 100) \<and>
     ip_to_u32 (O4 192 168 1 100) \<le> ip_to_u32 (O4 192 168 1 200) \<and>
     (\<forall>mac'. hm_get (ds_leases srv) mac' = Some (O4 192 168 1 100) \<longrightarrow> mac' = O6 2 0 0 0 0 1)"
proof -
  let ?srv = "snd (dhcp_handle_packet (build_discover (O6 2 0 0 0 0 1) 7) demo_server)"
  have "obedient demo_server (build_discover (O6 2 0 0 0 0 1) 7)" by (simp add: obedient_def build_discover_def)
  then have run: "dhcp_run demo_server ?srv" by (rule dhcp_run.packet [OF dhcp_run.start])
  have h: "ip_to_u32 (O4 192 168 1 100) \<le> ip_to_u32 (O4 192 168 1 200)"
    "length (ds_leases ?srv) \<le> unat (ip_to_u32 (O4 192 168 1 200)) - unat (ip_to_u32 (O4 192 168 1 100)) + 1"
    "hm_get (ds_leases ?srv) (O6 2 0 0 0 0 1) = Some (O4 192 168 1 100)"
    by (simp_all only: demo_pool demo_offer) simp_all
  have "dhcp_run (dhcp_server_new (O4 192 168 1 1) (O4 255 255 255 0) (O4 192 168 1 1) (O4 8 8 8 8)
     (O4 192 168 1 100) (O4 192 168 1 200) 86400) ?srv"
    using run by (subst demo_server_def [symmetric])
  from dhcp_leases_distinct [OF this h] run h show ?thesis by blast
qed

text \<open>An exhausted pool gives its last address to every new client.\<close>

lemma dhcp_pool_exhausted:
  assumes "ds_next_alloc_u32 srv = ip_to_u32 (ds_end_ip srv)" "hm_get (ds_leases srv) mac = None"
  shows "fst (allocate_ip mac srv) = ds_end_ip srv \<and> ds_next_alloc_u32 (snd (allocate_ip mac srv)) = ds_next_alloc_u32 srv"
  using assms by (simp add: allocate_ip_def Let_def)



end
