(* ===== verification/Router.thy ===== *)
theory Router
  imports Ipv4 Comparators
begin

unbundle bit_operations_syntax

text \<open>
  The IPv4 routing table (\<open>router.rs\<close>): route sources with their administrative distance, route
  entries, the FNV-1a flow hash, longest-prefix lookup over the sorted table, equal-cost
  multipath by modulo and by rendezvous hashing, and the install and withdraw operations.
  Interface names are byte strings.
\<close>

section \<open>Flow hashes\<close>

fun fnv1a_extend :: "u64 \<Rightarrow> bytes \<Rightarrow> u64" where
  "fnv1a_extend hash [] = hash"
| "fnv1a_extend hash (byte # rest) = fnv1a_extend ((hash XOR ucast byte) * 0x00000100000001b3) rest"

definition FNV_OFFSET_BASIS :: u64 where "FNV_OFFSET_BASIS = 0xcbf29ce484222325"

record Ipv4FlowKey =
  flow_source :: Ipv4Address
  flow_destination :: Ipv4Address
  flow_protocol :: u8
  flow_source_port :: u16
  flow_destination_port :: u16

definition stable_hash :: "Ipv4FlowKey \<Rightarrow> u64" where
  "stable_hash k =
     (let hash = fnv1a_extend FNV_OFFSET_BASIS (u32_to_be (ip_to_u32 (flow_source k)));
          hash = fnv1a_extend hash (u32_to_be (ip_to_u32 (flow_destination k)));
          hash = fnv1a_extend hash [flow_protocol k];
          hash = fnv1a_extend hash (u16_to_be (flow_source_port k))
      in fnv1a_extend hash (u16_to_be (flow_destination_port k)))"

section \<open>Routes\<close>

datatype RouteSource = Connected | Ra | RaRoute | Static | Bgp | Ospf | Rip

fun source_distance :: "RouteSource \<Rightarrow> u8" where
  "source_distance Connected = 0"
| "source_distance Ra = 0"
| "source_distance Static = 1"
| "source_distance RaRoute = 10"
| "source_distance Bgp = 20"
| "source_distance Ospf = 110"
| "source_distance Rip = 120"

fun source_as_str :: "RouteSource \<Rightarrow> string" where
  "source_as_str Connected = ''connected''"
| "source_as_str Ra = ''ra''"
| "source_as_str RaRoute = ''ra-route''"
| "source_as_str Static = ''static''"
| "source_as_str Bgp = ''bgp''"
| "source_as_str Ospf = ''ospf''"
| "source_as_str Rip = ''rip''"

definition str_bytes :: "string \<Rightarrow> bytes" where
  "str_bytes s = map of_char s"

record RouteEntry =
  re_destination :: Ipv4Address
  re_prefix_len :: u8
  re_netmask :: u32
  re_gateway :: "Ipv4Address option"
  re_interface :: bytes
  re_source :: RouteSource

definition route_with_source ::
  "Ipv4Address \<Rightarrow> u8 \<Rightarrow> Ipv4Address option \<Rightarrow> bytes \<Rightarrow> RouteSource \<Rightarrow> RouteEntry" where
  "route_with_source destination prefix_len gateway interface source =
     (let prefix_len = min prefix_len 32;
          netmask = (if prefix_len = 0 then 0 else NOT (push_bit (32 - unat prefix_len) 1 - 1))
      in \<lparr> re_destination = destination, re_prefix_len = prefix_len, re_netmask = netmask,
           re_gateway = gateway, re_interface = interface, re_source = source \<rparr>)"

definition route_new :: "Ipv4Address \<Rightarrow> u8 \<Rightarrow> Ipv4Address option \<Rightarrow> bytes \<Rightarrow> RouteEntry" where
  "route_new destination prefix_len gateway interface =
     route_with_source destination prefix_len gateway interface Static"

definition route_matches :: "RouteEntry \<Rightarrow> Ipv4Address \<Rightarrow> bool" where
  "route_matches r ip =
     (ip_to_u32 ip AND re_netmask r = ip_to_u32 (re_destination r) AND re_netmask r)"

definition route_next_hop :: "RouteEntry \<Rightarrow> Ipv4Address \<Rightarrow> Ipv4Address" where
  "route_next_hop r destination = (case re_gateway r of None \<Rightarrow> destination | Some g \<Rightarrow> g)"

definition route_distance :: "RouteEntry \<Rightarrow> u8" where
  "route_distance r = source_distance (re_source r)"

definition resilient_route_score :: "u64 \<Rightarrow> RouteEntry \<Rightarrow> u64" where
  "resilient_route_score flow_hash route =
     (let hash = fnv1a_extend FNV_OFFSET_BASIS (u64_to_be flow_hash);
          hash = fnv1a_extend hash
                   (u32_to_be (ip_to_u32 (ip_mask (re_destination route) (re_prefix_len route))));
          hash = fnv1a_extend hash [re_prefix_len route];
          hash = (case re_gateway route of
                    Some gateway \<Rightarrow> fnv1a_extend (fnv1a_extend hash [1]) (u32_to_be (ip_to_u32 gateway))
                  | None \<Rightarrow> fnv1a_extend hash [0]);
          hash = fnv1a_extend hash (re_interface route)
      in fnv1a_extend hash (str_bytes (source_as_str (re_source route))))"

definition route_identity_cmp :: "RouteEntry \<Rightarrow> RouteEntry \<Rightarrow> cmp_ordering" where
  "route_identity_cmp left right =
     cmp_then (cmp_then (cmp_then (cmp_then
       (cmp_of (ip_to_u32 (re_destination left)) (ip_to_u32 (re_destination right)))
       (cmp_of (re_prefix_len left) (re_prefix_len right)))
       (cmp_option (map_option ip_to_u32 (re_gateway left)) (map_option ip_to_u32 (re_gateway right))))
       (cmp_list (re_interface left) (re_interface right)))
       (cmp_list (str_bytes (source_as_str (re_source left))) (str_bytes (source_as_str (re_source right))))"

section \<open>The table\<close>

record RoutingTable =
  rt_routes :: "RouteEntry list"

definition table_new :: RoutingTable where
  "table_new = \<lparr> rt_routes = [] \<rparr>"

definition route_order :: "RouteEntry \<Rightarrow> RouteEntry \<Rightarrow> cmp_ordering" where
  "route_order a b =
     cmp_then (cmp_of (re_prefix_len b) (re_prefix_len a)) (cmp_of (route_distance a) (route_distance b))"

definition table_sort :: "RoutingTable \<Rightarrow> RoutingTable" where
  "table_sort t = t\<lparr> rt_routes := sort_by route_order (rt_routes t) \<rparr>"

text \<open>\<open>find\<close> on a mutable iterator and assignment through the reference.\<close>

fun replace_first :: "('a \<Rightarrow> bool) \<Rightarrow> 'a \<Rightarrow> 'a list \<Rightarrow> 'a list option" where
  "replace_first P y [] = None"
| "replace_first P y (x # xs) =
     (if P x then Some (y # xs) else map_option ((#) x) (replace_first P y xs))"

definition same_prefix_source :: "Ipv4Address \<times> u8 \<Rightarrow> RouteSource \<Rightarrow> RouteEntry \<Rightarrow> bool" where
  "same_prefix_source key source r \<longleftrightarrow>
     (ip_mask (re_destination r) (re_prefix_len r), re_prefix_len r) = key \<and> re_source r = source"

definition add_route_from ::
  "Ipv4Address \<Rightarrow> u8 \<Rightarrow> Ipv4Address option \<Rightarrow> bytes \<Rightarrow> RouteSource \<Rightarrow> RoutingTable \<Rightarrow> RoutingTable" where
  "add_route_from destination prefix_len gateway interface source t =
     (let entry = route_with_source destination prefix_len gateway interface source;
          key = (ip_mask (re_destination entry) (re_prefix_len entry), re_prefix_len entry)
      in table_sort
           (t\<lparr> rt_routes := (case replace_first (same_prefix_source key source) entry (rt_routes t) of
                               Some rs \<Rightarrow> rs | None \<Rightarrow> rt_routes t @ [entry]) \<rparr>))"

definition add_route ::
  "Ipv4Address \<Rightarrow> u8 \<Rightarrow> Ipv4Address option \<Rightarrow> bytes \<Rightarrow> RoutingTable \<Rightarrow> RoutingTable" where
  "add_route destination prefix_len gateway interface t =
     add_route_from destination prefix_len gateway interface Static t"

definition add_multipath_route_from ::
  "Ipv4Address \<Rightarrow> u8 \<Rightarrow> Ipv4Address option \<Rightarrow> bytes \<Rightarrow> RouteSource \<Rightarrow> RoutingTable \<Rightarrow> RoutingTable" where
  "add_multipath_route_from destination prefix_len gateway interface source t =
     (let entry = route_with_source destination prefix_len gateway interface source;
          duplicate = list_ex (\<lambda>route.
            ip_mask (re_destination route) (re_prefix_len route) =
              ip_mask (re_destination entry) (re_prefix_len entry) \<and>
            re_prefix_len route = re_prefix_len entry \<and> re_gateway route = re_gateway entry \<and>
            re_interface route = re_interface entry \<and> re_source route = re_source entry) (rt_routes t)
      in if \<not> duplicate then table_sort (t\<lparr> rt_routes := rt_routes t @ [entry] \<rparr>) else t)"

definition remove_route :: "Ipv4Address \<Rightarrow> u8 \<Rightarrow> RouteSource \<Rightarrow> RoutingTable \<Rightarrow> bool \<times> RoutingTable" where
  "remove_route destination prefix_len source t =
     (let key = (ip_mask destination prefix_len, prefix_len);
          before = length (rt_routes t);
          t = t\<lparr> rt_routes := filter (\<lambda>r. \<not> same_prefix_source key source r) (rt_routes t) \<rparr>
      in (length (rt_routes t) \<noteq> before, t))"

definition remove_route_via ::
  "Ipv4Address \<Rightarrow> u8 \<Rightarrow> Ipv4Address option \<Rightarrow> bytes \<Rightarrow> RouteSource \<Rightarrow> RoutingTable \<Rightarrow>
   bool \<times> RoutingTable" where
  "remove_route_via destination prefix_len gateway interface source t =
     (let key = (ip_mask destination prefix_len, min prefix_len 32);
          before = length (rt_routes t);
          t = t\<lparr> rt_routes := filter (\<lambda>route.
                 \<not> ((ip_mask (re_destination route) (re_prefix_len route), re_prefix_len route) = key \<and>
                    re_gateway route = gateway \<and> re_interface route = interface \<and>
                    re_source route = source)) (rt_routes t) \<rparr>
      in (length (rt_routes t) \<noteq> before, t))"

definition remove_all_from :: "RouteSource \<Rightarrow> RoutingTable \<Rightarrow> nat \<times> RoutingTable" where
  "remove_all_from source t =
     (let before = length (rt_routes t);
          t = t\<lparr> rt_routes := filter (\<lambda>r. re_source r \<noteq> source) (rt_routes t) \<rparr>
      in (before - length (rt_routes t), t))"

definition route_lookup :: "RoutingTable \<Rightarrow> Ipv4Address \<Rightarrow> RouteEntry option" where
  "route_lookup t dst_ip = List.find (\<lambda>r. route_matches r dst_ip) (rt_routes t)"

definition lookup_best_routes :: "RoutingTable \<Rightarrow> Ipv4Address \<Rightarrow> RouteEntry list" where
  "lookup_best_routes t dst_ip =
     (case route_lookup t dst_ip of
        None \<Rightarrow> []
      | Some best \<Rightarrow>
          filter (\<lambda>route. route_matches route dst_ip \<and> re_prefix_len route = re_prefix_len best \<and>
                          route_distance route = route_distance best) (rt_routes t))"

definition lookup_best_route_by_hash :: "RoutingTable \<Rightarrow> Ipv4Address \<Rightarrow> u64 \<Rightarrow> RouteEntry option" where
  "lookup_best_route_by_hash t dst_ip flow_hash =
     (case route_lookup t dst_ip of
        None \<Rightarrow> None
      | Some best \<Rightarrow>
          let candidates = filter (\<lambda>route. route_matches route dst_ip \<and>
                 re_prefix_len route = re_prefix_len best \<and>
                 route_distance route = route_distance best) (rt_routes t);
              index = unat flow_hash mod length candidates
          in if index < length candidates then Some (candidates ! index) else None)"

definition lookup_best_route_for_flow :: "RoutingTable \<Rightarrow> Ipv4FlowKey \<Rightarrow> RouteEntry option" where
  "lookup_best_route_for_flow t flow = lookup_best_route_by_hash t (flow_destination flow) (stable_hash flow)"

definition resilient_cmp :: "u64 \<Rightarrow> RouteEntry \<Rightarrow> RouteEntry \<Rightarrow> cmp_ordering" where
  "resilient_cmp flow_hash left right =
     cmp_then (cmp_of (resilient_route_score flow_hash left) (resilient_route_score flow_hash right))
       (route_identity_cmp left right)"

definition lookup_resilient_route_by_hash :: "RoutingTable \<Rightarrow> Ipv4Address \<Rightarrow> u64 \<Rightarrow> RouteEntry option" where
  "lookup_resilient_route_by_hash t destination flow_hash =
     max_by (resilient_cmp flow_hash) (lookup_best_routes t destination)"

definition lookup_resilient_route_for_flow :: "RoutingTable \<Rightarrow> Ipv4FlowKey \<Rightarrow> RouteEntry option" where
  "lookup_resilient_route_for_flow t flow =
     lookup_resilient_route_by_hash t (flow_destination flow) (stable_hash flow)"

definition lookup_resilient_route_for_fragment ::
  "RoutingTable \<Rightarrow> Ipv4Address \<Rightarrow> Ipv4Address \<Rightarrow> u8 \<Rightarrow> u16 \<Rightarrow> RouteEntry option" where
  "lookup_resilient_route_for_fragment t source destination protocol identification =
     (let base_hash = stable_hash \<lparr> flow_source = source, flow_destination = destination,
            flow_protocol = protocol, flow_source_port = 0, flow_destination_port = 0 \<rparr>;
          fragment_hash = fnv1a_extend (fnv1a_extend base_hash (str_bytes ''ipv4-fragment''))
            (u16_to_be identification)
      in lookup_resilient_route_by_hash t destination fragment_hash)"

definition find_exact :: "RoutingTable \<Rightarrow> Ipv4Address \<Rightarrow> u8 \<Rightarrow> RouteEntry option" where
  "find_exact t destination prefix_len =
     (let key = (ip_mask destination prefix_len, prefix_len)
      in List.find (\<lambda>r. (ip_mask (re_destination r) (re_prefix_len r), re_prefix_len r) = key)
           (rt_routes t))"

definition routes_from :: "RoutingTable \<Rightarrow> RouteSource \<Rightarrow> RouteEntry list" where
  "routes_from t source = filter (\<lambda>r. re_source r = source) (rt_routes t)"

section \<open>The table invariant\<close>

definition route_wf :: "RouteEntry \<Rightarrow> bool" where
  "route_wf r \<longleftrightarrow> re_prefix_len r \<le> 32 \<and>
     re_netmask r = (if re_prefix_len r = 0 then 0 else NOT (push_bit (32 - unat (re_prefix_len r)) 1 - 1))"

definition table_inv :: "RoutingTable \<Rightarrow> bool" where
  "table_inv t \<longleftrightarrow> sorted_wrt (\<lambda>x y. route_order x y \<noteq> OGreater) (rt_routes t) \<and>
     (\<forall>r \<in> set (rt_routes t). route_wf r)"

lemma route_wf_new [simp]: "route_wf (route_with_source d p g i s)"
  by (simp add: route_wf_def route_with_source_def Let_def)

lemma route_matches_prefix:
  assumes "route_wf r"
  shows "route_matches r ip \<longleftrightarrow>
    ip_mask ip (re_prefix_len r) = ip_mask (re_destination r) (re_prefix_len r)"
proof (cases "re_prefix_len r = 0")
  case True
  then show ?thesis using assms by (simp add: route_matches_def route_wf_def)
next
  case False
  have p: "unat (re_prefix_len r) \<le> 32"
    using assms by (simp add: route_wf_def word_le_nat_alt)
  have nm: "re_netmask r = NOT (push_bit (32 - unat (re_prefix_len r)) 1 - 1)"
    using False assms by (simp add: route_wf_def)
  have bit: "bit (w AND re_netmask r) n \<longleftrightarrow> bit w n \<and> 32 - unat (re_prefix_len r) \<le> n"
    if "n < 32" for n and w :: u32
    unfolding nm bit_and_iff netmask_bit [OF p] using that by auto
  have "route_matches r ip \<longleftrightarrow> (\<forall>n < 32. bit (ip_to_u32 ip AND re_netmask r) n =
      bit (ip_to_u32 (re_destination r) AND re_netmask r) n)"
    unfolding route_matches_def by (auto intro: bit_word_eqI)
  then show ?thesis by (auto simp: bit ip_mask_eq_iff)
qed

interpretation route_order: comparator route_order
proof -
  have "comparator (\<lambda>a b. cmp_of (re_prefix_len b) (re_prefix_len a))"
    by (rule comparator_flip [OF comparator_map [OF cmp_of.comparator_axioms]])
  moreover have "comparator (\<lambda>a b. cmp_of (route_distance a) (route_distance b))"
    by (rule comparator_map [OF cmp_of.comparator_axioms])
  ultimately show "comparator route_order"
    unfolding route_order_def by (rule comparator_then)
qed

lemma route_order_le:
  "route_order a b \<noteq> OGreater \<longleftrightarrow>
     re_prefix_len b < re_prefix_len a \<or>
     re_prefix_len a = re_prefix_len b \<and> route_distance a \<le> route_distance b"
  by (auto simp: route_order_def cmp_then_simps cmp_of_simps)

lemma table_inv_sort: "(\<forall>r \<in> set rs. route_wf r) \<Longrightarrow> table_inv (table_sort (t\<lparr> rt_routes := rs \<rparr>))"
  by (simp add: table_inv_def table_sort_def route_order.sorted_sort_by)

lemma table_inv_filter: "table_inv t \<Longrightarrow> table_inv (t\<lparr> rt_routes := filter P (rt_routes t) \<rparr>)"
  by (auto simp: table_inv_def sorted_wrt_filter)

lemma replace_first_set: "replace_first P y xs = Some ys \<Longrightarrow> set ys \<subseteq> insert y (set xs)"
  by (induction xs arbitrary: ys) (auto split: if_splits)

datatype route_op =
    AddRoute Ipv4Address u8 "Ipv4Address option" bytes RouteSource
  | AddMultipath Ipv4Address u8 "Ipv4Address option" bytes RouteSource
  | RemoveRoute Ipv4Address u8 RouteSource
  | RemoveVia Ipv4Address u8 "Ipv4Address option" bytes RouteSource
  | RemoveAll RouteSource

fun route_step :: "RoutingTable \<Rightarrow> route_op \<Rightarrow> RoutingTable" where
  "route_step t (AddRoute d p g i s) = add_route_from d p g i s t"
| "route_step t (AddMultipath d p g i s) = add_multipath_route_from d p g i s t"
| "route_step t (RemoveRoute d p s) = snd (remove_route d p s t)"
| "route_step t (RemoveVia d p g i s) = snd (remove_route_via d p g i s t)"
| "route_step t (RemoveAll s) = snd (remove_all_from s t)"

interpretation routing: stepper route_step table_inv
proof
  fix t op assume inv: "table_inv t"
  then have wf: "\<forall>r \<in> set (rt_routes t). route_wf r" by (simp add: table_inv_def)
  show "table_inv (route_step t op)"
  proof (cases op)
    case (AddRoute d p g i s)
    then show ?thesis using wf replace_first_set
      by (fastforce simp: add_route_from_def Let_def intro!: table_inv_sort split: option.splits)
  next
    case (AddMultipath d p g i s)
    then show ?thesis using wf inv
      by (auto simp: add_multipath_route_from_def Let_def intro!: table_inv_sort)
  qed (auto simp: remove_route_def remove_route_via_def remove_all_from_def Let_def
      intro: table_inv_filter [OF inv])
qed

lemma table_inv_run: "table_inv (foldl route_step table_new ops)"
  by (rule routing.run_inv) (simp add: table_inv_def table_new_def)

section \<open>Longest prefix match\<close>

lemma sorted_find:
  "sorted_wrt R xs \<Longrightarrow> List.find P xs = Some r \<Longrightarrow>
   r \<in> set xs \<and> P r \<and> (\<forall>x \<in> set xs. P x \<longrightarrow> x = r \<or> R r x)"
  by (induction xs) (auto split: if_splits)

lemma lookup_best:
  assumes "table_inv t" "route_lookup t ip = Some r"
  shows "r \<in> set (rt_routes t)" "route_matches r ip"
    "\<forall>x \<in> set (rt_routes t). route_matches x ip \<longrightarrow> re_prefix_len x < re_prefix_len r \<or>
       re_prefix_len x = re_prefix_len r \<and> route_distance r \<le> route_distance x"
proof -
  have "sorted_wrt (\<lambda>x y. route_order x y \<noteq> OGreater) (rt_routes t)"
    using assms(1) by (simp add: table_inv_def)
  from sorted_find [OF this assms(2) [unfolded route_lookup_def]]
  show "r \<in> set (rt_routes t)" "route_matches r ip"
    "\<forall>x \<in> set (rt_routes t). route_matches x ip \<longrightarrow> re_prefix_len x < re_prefix_len r \<or>
       re_prefix_len x = re_prefix_len r \<and> route_distance r \<le> route_distance x"
    unfolding route_order_le by (simp, simp, metis order_refl)
qed

text \<open>C33: forwarding follows the longest prefix: after any sequence of installs and withdrawals, a
  lookup returns an entry of the table whose prefix contains the address, and no other entry
  that contains it has a longer prefix, or the same length with a lower administrative distance;
  the lookup finds nothing exactly when no prefix contains the address.\<close>
theorem route_lookup_longest_prefix:
  assumes t_def: "t = foldl route_step table_new ops"
  shows "(\<forall>r. route_lookup t ip = Some r \<longrightarrow> r \<in> set (rt_routes t) \<and>
            ip_mask ip (re_prefix_len r) = ip_mask (re_destination r) (re_prefix_len r) \<and>
            (\<forall>x \<in> set (rt_routes t).
               ip_mask ip (re_prefix_len x) = ip_mask (re_destination x) (re_prefix_len x) \<longrightarrow>
               re_prefix_len x < re_prefix_len r \<or>
               re_prefix_len x = re_prefix_len r \<and> route_distance r \<le> route_distance x)) \<and>
         (route_lookup t ip = None \<longleftrightarrow>
            (\<forall>x \<in> set (rt_routes t).
               ip_mask ip (re_prefix_len x) \<noteq> ip_mask (re_destination x) (re_prefix_len x)))"
proof -
  have inv: "table_inv t" unfolding t_def by (rule table_inv_run)
  then have m: "x \<in> set (rt_routes t) \<Longrightarrow> route_matches x ip \<longleftrightarrow>
      ip_mask ip (re_prefix_len x) = ip_mask (re_destination x) (re_prefix_len x)" for x
    by (simp add: table_inv_def route_matches_prefix)
  then show ?thesis
    using lookup_best [OF inv, of ip]
    by (auto simp: route_lookup_def find_None_iff)
qed

theorem route_lookup_longest_prefix_witness:
  "let ops = [AddRoute (O4 10 0 0 0) 8 None [101] Static, AddRoute (O4 10 1 0 0) 16 None [102] Rip];
       t = foldl route_step table_new ops;
       r = route_with_source (O4 10 1 0 0) 16 None [102] Rip
   in route_lookup t (O4 10 1 2 3) = Some r \<and> r \<in> set (rt_routes t)"
proof -
  let ?t = "foldl route_step table_new
    [AddRoute (O4 10 0 0 0) 8 None [101] Static, AddRoute (O4 10 1 0 0) 16 None [102] Rip]"
  have "route_lookup ?t (O4 10 1 2 3) = Some (route_with_source (O4 10 1 0 0) 16 None [102] Rip)"
    by (simp add: add_route_from_def table_new_def table_sort_def route_with_source_def
        same_prefix_source_def route_order_def cmp_of_def route_lookup_def route_matches_def
        u32_from_be_def route_distance_def ip_mask_def Let_def min_def)
  with route_lookup_longest_prefix [OF refl, of "[AddRoute (O4 10 0 0 0) 8 None [101] Static,
      AddRoute (O4 10 1 0 0) 16 None [102] Rip]" "O4 10 1 2 3"]
  show ?thesis unfolding Let_def by blast
qed

section \<open>Equal-cost multipath\<close>

interpretation resilient: comparator "resilient_cmp h" for h
proof -
  note id = comparator_map [OF cmp_of.comparator_axioms]
  have "comparator route_identity_cmp"
    unfolding route_identity_cmp_def
    by (intro comparator_then id comparator_map [OF comparator_option] comparator_map [OF comparator_list])
  then show "comparator (resilient_cmp h)"
    unfolding resilient_cmp_def by (intro comparator_then id)
qed

lemma source_as_str_inj: "str_bytes (source_as_str a) = str_bytes (source_as_str b) \<Longrightarrow> a = b"
  by (cases a; cases b) (simp_all add: str_bytes_def)

lemma resilient_strict:
  assumes "resilient_cmp h x y = OEqual" "route_wf x" "route_wf y"
  shows "x = y"
proof -
  have "re_destination x = re_destination y" "re_prefix_len x = re_prefix_len y"
    "re_gateway x = re_gateway y" "re_interface x = re_interface y" "re_source x = re_source y"
    using assms(1) unfolding resilient_cmp_def route_identity_cmp_def
    by (auto simp: cmp_then_simps cmp_of_simps cmp_option_equal cmp_list_equal ip_to_u32_inject
        source_as_str_inj dest: map_option_eq_Some [THEN iffD1])
       (metis ip_to_u32_inject option.inj_map_strong)
  then show ?thesis using assms by (simp add: route_wf_def)
qed

lemma best_routes_subset:
  assumes inv: "table_inv t" "table_inv t'" and sub: "set (rt_routes t') \<subseteq> set (rt_routes t)"
    and r: "r \<in> set (lookup_best_routes t ip)" "r \<in> set (rt_routes t')"
  shows "set (lookup_best_routes t' ip) \<subseteq> set (lookup_best_routes t ip)"
    and "r \<in> set (lookup_best_routes t' ip)"
proof -
  obtain best where best: "route_lookup t ip = Some best"
    using r(1) by (cases "route_lookup t ip") (auto simp: lookup_best_routes_def)
  have rb: "route_matches r ip" "re_prefix_len r = re_prefix_len best"
    "route_distance r = route_distance best"
    using r(1) by (auto simp: lookup_best_routes_def best)
  obtain best' where best': "route_lookup t' ip = Some best'"
    using r(2) rb(1) by (cases "route_lookup t' ip") (auto simp: route_lookup_def find_None_iff)
  note l = lookup_best [OF inv(1) best] and l' = lookup_best [OF inv(2) best']
  have same: "re_prefix_len best' = re_prefix_len best" "route_distance best' = route_distance best"
    using l(3) [rule_format, OF subsetD [OF sub l'(1)] l'(2)]
      l'(3) [rule_format, OF r(2) rb(1), unfolded rb]
    by (metis order_antisym order_less_asym)+
  show "set (lookup_best_routes t' ip) \<subseteq> set (lookup_best_routes t ip)"
    using sub by (auto simp: lookup_best_routes_def best best' same)
  show "r \<in> set (lookup_best_routes t' ip)"
    using r(2) rb by (auto simp: lookup_best_routes_def best' same)
qed

lemma set_best_routes: "set (lookup_best_routes t ip) \<subseteq> set (rt_routes t)"
  by (auto simp: lookup_best_routes_def split: option.splits)

text \<open>Rendezvous hashing keeps flow affinity: if a flow is forwarded over some route, then in
  every reachable table that has only routes of the first one and still has the selected route
  (members withdrawn, or the same routes installed in another order), the flow is forwarded over
  the same route.\<close>
theorem resilient_route_affinity:
  assumes t: "t = foldl route_step table_new ops" and t': "t' = foldl route_step table_new ops'"
    and sub: "set (rt_routes t') \<subseteq> set (rt_routes t)"
    and sel: "lookup_resilient_route_by_hash t ip h = Some r" and kept: "r \<in> set (rt_routes t')"
  shows "lookup_resilient_route_by_hash t' ip h = Some r"
proof -
  have inv: "table_inv t" "table_inv t'" unfolding t t' by (rule table_inv_run)+
  have best: "r \<in> set (lookup_best_routes t ip)"
    using sel resilient.max_by_Some unfolding lookup_resilient_route_by_hash_def by blast
  have wf: "\<forall>x \<in> set (lookup_best_routes t ip). route_wf x"
    using inv(1) set_best_routes by (auto simp: table_inv_def)
  show ?thesis
    unfolding lookup_resilient_route_by_hash_def
    by (rule resilient.max_by_unique [OF _ sel [unfolded lookup_resilient_route_by_hash_def]])
       (use wf resilient_strict best_routes_subset [OF inv sub best kept] in blast)+
qed

theorem resilient_route_affinity_witness:
  "let ops = [AddMultipath (O4 10 0 0 0) 8 (Some (O4 192 0 2 1)) [101] Static];
       r = route_with_source (O4 10 0 0 0) 8 (Some (O4 192 0 2 1)) [101] Static
   in lookup_resilient_route_by_hash (foldl route_step table_new (ops @ ops)) (O4 10 1 2 3) 7 = Some r"
proof -
  let ?op = "AddMultipath (O4 10 0 0 0) 8 (Some (O4 192 0 2 1)) [101] Static"
  let ?r = "route_with_source (O4 10 0 0 0) 8 (Some (O4 192 0 2 1)) [101] Static"
  have routes: "rt_routes (foldl route_step table_new [?op]) = [?r]"
    "rt_routes (foldl route_step table_new [?op, ?op]) = [?r]"
    by (simp_all add: add_multipath_route_from_def table_new_def table_sort_def
        route_with_source_def Let_def)
  have "route_matches ?r (O4 10 1 2 3)"
    by (simp add: route_with_source_def route_matches_def u32_from_be_def min_def Let_def)
  then have "lookup_resilient_route_by_hash (foldl route_step table_new [?op]) (O4 10 1 2 3) 7 = Some ?r"
    by (simp add: lookup_resilient_route_by_hash_def lookup_best_routes_def route_lookup_def routes(1)
        max_by_def del: foldl_Cons)
  then have "lookup_resilient_route_by_hash (foldl route_step table_new [?op, ?op]) (O4 10 1 2 3) 7 = Some ?r"
    by (rule resilient_route_affinity [OF refl refl, rotated]) (simp_all add: routes del: foldl_Cons)
  then show ?thesis by (simp add: Let_def)
qed

section \<open>Withdrawal\<close>

lemma replace_first_None: "replace_first P y xs = None \<longleftrightarrow> (\<forall>x \<in> set xs. \<not> P x)"
  by (induction xs) auto

text \<open>Withdrawing what was installed restores the table: if a source has no route for a
  prefix, installing one and withdrawing it (prefix length at most 32) reports success and gives
  back the table exactly, order included, so no other protocol's routes are disturbed.  A
  withdrawal with a prefix length above 32 never removes anything, although an install with such
  a length is accepted.\<close>
theorem route_withdraw_restores:
  assumes t: "t = foldl route_step table_new ops"
  shows "(p \<le> 32 \<and> (\<forall>r \<in> set (rt_routes t). \<not> same_prefix_source (ip_mask d p, p) s r) \<longrightarrow>
            remove_route d p s (add_route_from d p g i s t) = (True, t)) \<and>
         (32 < p \<longrightarrow> remove_route d p s t = (False, t))"
proof (intro conjI impI)
  have inv: "table_inv t" unfolding t by (rule table_inv_run)
  {
    assume fresh: "p \<le> 32 \<and> (\<forall>r \<in> set (rt_routes t). \<not> same_prefix_source (ip_mask d p, p) s r)"
    define e where "e = route_with_source d p g i s"
    let ?P = "\<lambda>r. \<not> same_prefix_source (ip_mask d p, p) s r"
    have e: "re_destination e = d" "re_prefix_len e = p" "re_source e = s"
      using fresh by (simp_all add: e_def route_with_source_def Let_def min_def)
    have none: "replace_first (same_prefix_source (ip_mask d p, p) s) e (rt_routes t) = None"
      using fresh by (simp add: replace_first_None)
    have added: "add_route_from d p g i s t = table_sort (t\<lparr> rt_routes := rt_routes t @ [e] \<rparr>)"
      unfolding add_route_from_def Let_def e_def [symmetric] e none by simp
    have keep: "filter ?P (rt_routes t) = rt_routes t" "\<not> ?P e"
      using fresh e by (auto simp: same_prefix_source_def intro: filter_True)
    have "filter ?P (sort_by route_order (rt_routes t @ [e])) = rt_routes t"
      using inv keep
      by (simp add: route_order.filter_sort_by route_order.sort_by_sorted table_inv_def)
    then show "remove_route d p s (add_route_from d p g i s t) = (True, t)"
      by (simp add: added remove_route_def table_sort_def Let_def)
  }
  assume long: "32 < p"
  then have "\<forall>r \<in> set (rt_routes t). \<not> same_prefix_source (ip_mask d p, p) s r"
    using inv by (auto simp: table_inv_def route_wf_def same_prefix_source_def)
  then show "remove_route d p s t = (False, t)"
    by (simp add: remove_route_def Let_def filter_True)
qed

theorem route_withdraw_restores_witness:
  "remove_route (O4 10 0 0 0) 8 Bgp (add_route_from (O4 10 0 0 0) 8 None [101] Bgp table_new) =
     (True, table_new)"
  using route_withdraw_restores [of table_new "[]"] by (simp add: table_new_def)

end
