(* ===== verification/Firewall.thy ===== *)
theory Firewall
  imports Ipv4
begin

unbundle bit_operations_syntax

text \<open>
  The packet filter (\<open>firewall.rs\<close>): CIDR matching, rules over addresses, protocol and port
  ranges, three chains of rules, and evaluation by first match with a default policy.
\<close>

section \<open>Rules\<close>

datatype FirewallChain = ChainInput | ChainOutput | ChainForward
datatype FirewallAction = FwAccept | FwDrop | FwReject

record IpCidr =
  cidr_ip :: Ipv4Address
  cidr_prefix_len :: u8

definition cidr_matches :: "IpCidr \<Rightarrow> Ipv4Address \<Rightarrow> bool" where
  "cidr_matches c target =
     (if cidr_prefix_len c = 0 then True
      else let mask = (if cidr_prefix_len c \<ge> 32 then NOT 0
                       else push_bit (32 - unat (cidr_prefix_len c)) (NOT 0)) :: u32
           in ip_to_u32 (cidr_ip c) AND mask = ip_to_u32 target AND mask)"

record FirewallRule =
  fr_description :: string
  fr_src_cidr :: "IpCidr option"
  fr_dst_cidr :: "IpCidr option"
  fr_protocol :: "u8 option"
  fr_src_port_range :: "(u16 \<times> u16) option"
  fr_dst_port_range :: "(u16 \<times> u16) option"
  fr_action :: FirewallAction

definition rule_matches :: "FirewallRule \<Rightarrow> Ipv4Packet \<Rightarrow> bool" where
  "rule_matches r packet =
     (let h = ipp_header packet; payload = ipp_payload packet in
      if (case fr_src_cidr r of Some c \<Rightarrow> \<not> cidr_matches c (ip_src_ip h) | None \<Rightarrow> False) then False
      else if (case fr_dst_cidr r of Some c \<Rightarrow> \<not> cidr_matches c (ip_dst_ip h) | None \<Rightarrow> False) then False
      else if (case fr_protocol r of Some proto \<Rightarrow> ip_protocol_to_u8 (ip_protocol h) \<noteq> proto
               | None \<Rightarrow> False) then False
      else if fr_src_port_range r \<noteq> None \<or> fr_dst_port_range r \<noteq> None then
        let proto = ip_protocol_to_u8 (ip_protocol h) in
        if proto = IP_PROTO_TCP \<or> proto = IP_PROTO_UDP then
          if length payload < 4 then False
          else let src_port = read_u16 0 payload; dst_port = read_u16 2 payload in
            if (case fr_src_port_range r of
                  Some (min_sp, max_sp) \<Rightarrow> src_port < min_sp \<or> src_port > max_sp | None \<Rightarrow> False)
            then False
            else if (case fr_dst_port_range r of
                  Some (min_dp, max_dp) \<Rightarrow> dst_port < min_dp \<or> dst_port > max_dp | None \<Rightarrow> False)
            then False else True
        else False
      else True)"

section \<open>Chains\<close>

record Firewall =
  fw_input_rules :: "FirewallRule list"
  fw_output_rules :: "FirewallRule list"
  fw_forward_rules :: "FirewallRule list"
  fw_default_input_policy :: FirewallAction
  fw_default_output_policy :: FirewallAction
  fw_default_forward_policy :: FirewallAction

definition firewall_new :: Firewall where
  "firewall_new = \<lparr> fw_input_rules = [], fw_output_rules = [], fw_forward_rules = [],
     fw_default_input_policy = FwAccept, fw_default_output_policy = FwAccept,
     fw_default_forward_policy = FwAccept \<rparr>"

fun add_rule :: "FirewallChain \<Rightarrow> FirewallRule \<Rightarrow> Firewall \<Rightarrow> Firewall" where
  "add_rule ChainInput rule fw = fw\<lparr> fw_input_rules := fw_input_rules fw @ [rule] \<rparr>"
| "add_rule ChainOutput rule fw = fw\<lparr> fw_output_rules := fw_output_rules fw @ [rule] \<rparr>"
| "add_rule ChainForward rule fw = fw\<lparr> fw_forward_rules := fw_forward_rules fw @ [rule] \<rparr>"

fun flush_chain :: "FirewallChain \<Rightarrow> Firewall \<Rightarrow> Firewall" where
  "flush_chain ChainInput fw = fw\<lparr> fw_input_rules := [] \<rparr>"
| "flush_chain ChainOutput fw = fw\<lparr> fw_output_rules := [] \<rparr>"
| "flush_chain ChainForward fw = fw\<lparr> fw_forward_rules := [] \<rparr>"

fun chain_rules :: "Firewall \<Rightarrow> FirewallChain \<Rightarrow> FirewallRule list \<times> FirewallAction" where
  "chain_rules fw ChainInput = (fw_input_rules fw, fw_default_input_policy fw)"
| "chain_rules fw ChainOutput = (fw_output_rules fw, fw_default_output_policy fw)"
| "chain_rules fw ChainForward = (fw_forward_rules fw, fw_default_forward_policy fw)"

fun first_action :: "FirewallRule list \<Rightarrow> FirewallAction \<Rightarrow> Ipv4Packet \<Rightarrow> FirewallAction" where
  "first_action [] default_policy packet = default_policy"
| "first_action (rule # rules) default_policy packet =
     (if rule_matches rule packet then fr_action rule else first_action rules default_policy packet)"

definition fw_evaluate :: "Firewall \<Rightarrow> FirewallChain \<Rightarrow> Ipv4Packet \<Rightarrow> FirewallAction" where
  "fw_evaluate fw chain packet =
     (let (rules, default_policy) = chain_rules fw chain in first_action rules default_policy packet)"

section \<open>Meaning\<close>

lemma cidr_mask_bit:
  "p \<le> 32 \<Longrightarrow> bit (push_bit (32 - p) (NOT 0) :: u32) n \<longleftrightarrow> 32 - p \<le> n \<and> n < 32"
  by (auto simp: bit_simps)

lemma cidr_matches_prefix:
  "cidr_matches c ip \<longleftrightarrow>
   ip_mask ip (cidr_prefix_len c) = ip_mask (cidr_ip c) (cidr_prefix_len c)"
proof (cases "cidr_prefix_len c = 0 \<or> cidr_prefix_len c \<ge> 32")
  case True
  then show ?thesis by (auto simp: cidr_matches_def ip_to_u32_inject)
next
  case False
  define p where "p = unat (cidr_prefix_len c)"
  have p: "p \<le> 32" using False by (simp add: p_def word_le_nat_alt)
  define m where "m = (push_bit (32 - p) (NOT 0) :: u32)"
  have bit: "bit (w AND m) n \<longleftrightarrow> bit w n \<and> 32 - p \<le> n" if "n < 32" for w :: u32 and n
    unfolding m_def bit_and_iff cidr_mask_bit [OF p] using that by auto
  have "cidr_matches c ip \<longleftrightarrow> ip_to_u32 (cidr_ip c) AND m = ip_to_u32 ip AND m"
    using False by (simp add: cidr_matches_def m_def p_def Let_def)
  also have "\<dots> \<longleftrightarrow> (\<forall>n < 32. bit (ip_to_u32 (cidr_ip c) AND m) n = bit (ip_to_u32 ip AND m) n)"
    by (auto intro: bit_word_eqI)
  also have "\<dots> \<longleftrightarrow> ip_mask ip (cidr_prefix_len c) = ip_mask (cidr_ip c) (cidr_prefix_len c)"
    by (auto simp: bit ip_mask_eq_iff p_def)
  finally show ?thesis .
qed

lemma first_action_append:
  "first_action (rules @ [rule]) d pkt =
     (if \<exists>r \<in> set rules. rule_matches r pkt then first_action rules d pkt
      else if rule_matches rule pkt then fr_action rule else d)"
  by (induction rules) auto

lemma first_action_default: "\<not> (\<exists>r \<in> set rules. rule_matches r pkt) \<Longrightarrow> first_action rules d pkt = d"
  by (induction rules) auto

text \<open>The firewall decides by first match: a rule appended to a chain decides exactly the
  packets it matches and no earlier rule of that chain matches, leaves every other verdict and
  every other chain alone, and flushing a chain leaves its default policy.  A CIDR matches
  exactly the addresses that share its prefix.\<close>
theorem firewall_first_match:
  "fw_evaluate (add_rule chain rule fw) chain' pkt =
     (if chain' = chain \<and> \<not> (\<exists>r \<in> set (fst (chain_rules fw chain)). rule_matches r pkt) \<and>
         rule_matches rule pkt
      then fr_action rule else fw_evaluate fw chain' pkt) \<and>
   fw_evaluate (flush_chain chain fw) chain' pkt =
     (if chain' = chain then snd (chain_rules fw chain) else fw_evaluate fw chain' pkt) \<and>
   (cidr_matches c ip \<longleftrightarrow>
      ip_mask ip (cidr_prefix_len c) = ip_mask (cidr_ip c) (cidr_prefix_len c))"
  by (cases chain; cases chain')
     (auto simp: fw_evaluate_def first_action_append first_action_default cidr_matches_prefix)

end
