(* ===== verification/NatTable.thy ===== *)
theory NatTable
  imports Ipv4
begin

unbundle bit_operations_syntax

text \<open>
  Network address translation (\<open>nat.rs\<close>): the session tables, port allocation, and the in-place
  rewriting of outbound and inbound packets with the recomputation of both checksums.  A
  translation returns the result, the rewritten packet and the new table.
\<close>

section \<open>State\<close>

record SocketAddrTuple =
  sa_ip :: Ipv4Address
  sa_port :: u16

record NatSessionKey =
  nk_src :: SocketAddrTuple
  nk_dst :: SocketAddrTuple
  nk_protocol :: u8

record PortForwardRule =
  pf_external_port :: u16
  pf_internal_ip :: Ipv4Address
  pf_internal_port :: u16
  pf_protocol :: u8

record NatTable =
  nat_public_ip :: Ipv4Address
  nat_next_alloc_port :: u16
  nat_outbound_sessions :: "(NatSessionKey, u16) hash_map"
  nat_inbound_lookup :: "(u16 \<times> Ipv4Address \<times> u16 \<times> u8, SocketAddrTuple) hash_map"
  nat_port_forwards :: "(u16 \<times> u8, SocketAddrTuple) hash_map"

definition nat_new :: "Ipv4Address \<Rightarrow> NatTable" where
  "nat_new public_ip = \<lparr> nat_public_ip = public_ip, nat_next_alloc_port = 40000,
     nat_outbound_sessions = [], nat_inbound_lookup = [], nat_port_forwards = [] \<rparr>"

definition add_port_forward :: "u16 \<Rightarrow> Ipv4Address \<Rightarrow> u16 \<Rightarrow> u8 \<Rightarrow> NatTable \<Rightarrow> NatTable" where
  "add_port_forward external_port internal_ip internal_port protocol t =
     t\<lparr> nat_port_forwards := hm_insert (external_port, protocol)
          \<lparr> sa_ip = internal_ip, sa_port = internal_port \<rparr> (nat_port_forwards t) \<rparr>"

definition allocate_port :: "NatTable \<Rightarrow> u16 \<times> NatTable" where
  "allocate_port t =
     (let port = nat_next_alloc_port t
      in (port, t\<lparr> nat_next_alloc_port := (if nat_next_alloc_port t \<ge> 65000 then 40000
                                           else nat_next_alloc_port t + 1) \<rparr>))"

section \<open>Rewriting\<close>

definition reseal_ip :: "nat \<Rightarrow> bytes \<Rightarrow> bytes" where
  "reseal_ip ihl packet =
     (let packet = write_at 10 [0x00, 0x00] packet;
          ip_csum = compute_checksum (subslice 0 ihl packet)
      in write_at 10 (u16_to_be ip_csum) packet)"

definition reseal_transport :: "Ipv4Address \<Rightarrow> Ipv4Address \<Rightarrow> u8 \<Rightarrow> nat \<Rightarrow> bytes \<Rightarrow> bytes" where
  "reseal_transport src dst protocol ihl packet =
     (if protocol = IP_PROTO_TCP then
        (if length packet \<ge> ihl + 20
         then let packet = write_at (ihl + 16) [0x00, 0x00] packet;
                  tcp_csum = compute_ipv4_transport_checksum src dst 6 (drop ihl packet)
              in write_at (ihl + 16) (u16_to_be tcp_csum) packet
         else packet)
      else if protocol = IP_PROTO_UDP \<and> length packet \<ge> ihl + 8
      then let packet = write_at (ihl + 6) [0x00, 0x00] packet;
               udp_csum = compute_ipv4_transport_checksum src dst 17 (drop ihl packet)
           in write_at (ihl + 6) (u16_to_be udp_csum) packet
      else packet)"

definition nat_session_port :: "NatSessionKey \<Rightarrow> NatTable \<Rightarrow> u16 \<times> NatTable" where
  "nat_session_port session_key t =
     (case hm_get (nat_outbound_sessions t) session_key of
        Some p \<Rightarrow> (p, t)
      | None \<Rightarrow>
          let (new_p, t) = allocate_port t;
              t = t\<lparr> nat_outbound_sessions := hm_insert session_key new_p (nat_outbound_sessions t),
                     nat_inbound_lookup := hm_insert
                       (new_p, sa_ip (nk_dst session_key), sa_port (nk_dst session_key),
                        nk_protocol session_key) (nk_src session_key) (nat_inbound_lookup t) \<rparr>
          in (new_p, t))"

definition translate_outbound :: "bytes \<Rightarrow> NatTable \<Rightarrow> bool \<times> bytes \<times> NatTable" where
  "translate_outbound packet t =
     (if length packet < IPV4_MIN_HEADER_LEN then (False, packet, t)
      else let ihl = unat (packet ! 0 AND 0x0F) * 4 in
      if length packet < ihl then (False, packet, t)
      else let protocol = packet ! 9; src_ip = read4 12 packet; dst_ip = read4 16 packet in
      if protocol = IP_PROTO_TCP \<or> protocol = IP_PROTO_UDP then
        if length packet < ihl + 4 then (False, packet, t)
        else let src_port = read_u16 ihl packet; dst_port = read_u16 (ihl + 2) packet;
                 session_key = \<lparr> nk_src = \<lparr> sa_ip = src_ip, sa_port = src_port \<rparr>,
                                 nk_dst = \<lparr> sa_ip = dst_ip, sa_port = dst_port \<rparr>,
                                 nk_protocol = protocol \<rparr>;
                 (ext_port, t) = nat_session_port session_key t;
                 packet = write_at 12 (bytes4 (nat_public_ip t)) packet;
                 packet = write_at ihl (u16_to_be ext_port) packet;
                 packet = reseal_ip ihl packet;
                 packet = reseal_transport (nat_public_ip t) dst_ip protocol ihl packet
             in (True, packet, t)
      else if protocol = IP_PROTO_ICMP then
        (True, reseal_ip ihl (write_at 12 (bytes4 (nat_public_ip t)) packet), t)
      else (False, packet, t))"

definition translate_inbound :: "bytes \<Rightarrow> NatTable \<Rightarrow> bool \<times> bytes \<times> NatTable" where
  "translate_inbound packet t =
     (if length packet < IPV4_MIN_HEADER_LEN then (False, packet, t)
      else let ihl = unat (packet ! 0 AND 0x0F) * 4 in
      if length packet < ihl then (False, packet, t)
      else let protocol = packet ! 9; src_ip = read4 12 packet in
      if protocol = IP_PROTO_TCP \<or> protocol = IP_PROTO_UDP then
        if length packet < ihl + 4 then (False, packet, t)
        else let src_port = read_u16 ihl packet; dst_port = read_u16 (ihl + 2) packet;
                 target = (case hm_get (nat_inbound_lookup t) (dst_port, src_ip, src_port, protocol) of
                             Some internal \<Rightarrow> Some internal
                           | None \<Rightarrow> hm_get (nat_port_forwards t) (dst_port, protocol))
             in (case target of
                   Some target_addr \<Rightarrow>
                     let packet = write_at 16 (bytes4 (sa_ip target_addr)) packet;
                         packet = write_at (ihl + 2) (u16_to_be (sa_port target_addr)) packet;
                         packet = reseal_ip ihl packet;
                         packet = reseal_transport src_ip (sa_ip target_addr) protocol ihl packet
                     in (True, packet, t)
                 | None \<Rightarrow> (False, packet, t))
      else (False, packet, t))"

definition active_session_count :: "NatTable \<Rightarrow> nat" where
  "active_session_count t = length (nat_outbound_sessions t)"

definition port_forward_rules :: "NatTable \<Rightarrow> PortForwardRule list" where
  "port_forward_rules t =
     map (\<lambda>((ext_port, proto), target). \<lparr> pf_external_port = ext_port, pf_internal_ip = sa_ip target,
            pf_internal_port = sa_port target, pf_protocol = proto \<rparr>) (nat_port_forwards t)"

section \<open>Rewritten packets\<close>

text \<open>A TCP or UDP packet with a complete IPv4 and transport header that fits in a datagram.\<close>

definition nat_ihl :: "bytes \<Rightarrow> nat" where
  "nat_ihl p = unat (p ! 0 AND 0x0F) * 4"

definition nat_packet_ok :: "bytes \<Rightarrow> bool" where
  "nat_packet_ok p \<longleftrightarrow> 20 \<le> nat_ihl p \<and> length p \<le> 65535 \<and>
     (p ! 9 = IP_PROTO_TCP \<and> nat_ihl p + 20 \<le> length p \<or>
      p ! 9 = IP_PROTO_UDP \<and> nat_ihl p + 8 \<le> length p)"

definition csum_off :: "u8 \<Rightarrow> nat" where
  "csum_off protocol = (if protocol = IP_PROTO_TCP then 16 else 6)"

text \<open>What a rewrite keeps: everything but both checksums and the bytes in \<open>S\<close>.\<close>

definition rewritten :: "nat set \<Rightarrow> bytes \<Rightarrow> bytes \<Rightarrow> bool" where
  "rewritten S p q \<longleftrightarrow> length q = length p \<and>
     (\<forall>i < length p. i \<notin> S \<and> i \<notin> {10, 11} \<and>
        i \<notin> {nat_ihl p + csum_off (p ! 9), nat_ihl p + csum_off (p ! 9) + 1} \<longrightarrow> q ! i = p ! i)"

definition checksums_ok :: "bytes \<Rightarrow> bool" where
  "checksums_ok p \<longleftrightarrow> verify_checksum (take (nat_ihl p) p) \<and>
     verify_ipv4_transport_checksum (read4 12 p) (read4 16 p) (p ! 9) (drop (nat_ihl p) p)"

lemma length_reseal_ip [simp]: "12 \<le> length p \<Longrightarrow> length (reseal_ip ihl p) = length p"
  by (simp add: reseal_ip_def Let_def)

lemma nth_reseal_ip: "12 \<le> length p \<Longrightarrow> i \<notin> {10, 11} \<Longrightarrow> reseal_ip ihl p ! i = p ! i"
  by (auto simp: reseal_ip_def Let_def nth_write_at)

lemma reseal_ip_verifies:
  assumes "12 \<le> ihl" "ihl \<le> length p" "ihl \<le> 65535"
  shows "verify_checksum (take ihl (reseal_ip ihl p))"
proof -
  let ?z = "write_at 10 [0, 0] p"
  have z: "length ?z = length p" using assms by simp
  have "take ihl (reseal_ip ihl p) = write_at 10 (u16_to_be (compute_checksum (take ihl ?z))) (take ihl ?z)"
    using assms z by (simp add: reseal_ip_def Let_def take_write_at)
  moreover have "take ihl ?z ! 10 = 0" "take ihl ?z ! (10 + 1) = 0"
    using assms by (auto simp: nth_write_at)
  ultimately show ?thesis
    using header_checksum.seal_verifies [of 10 "take ihl ?z"] assms z by simp
qed

lemma drop_write_at:
  "k \<le> lo \<Longrightarrow> lo + length ys \<le> length xs \<Longrightarrow>
   drop k (write_at lo ys xs) = write_at (lo - k) ys (drop k xs)"
  by (intro nth_equalityI) (auto simp: nth_write_at add.commute)

lemma reseal_transport_eq:
  assumes "protocol = IP_PROTO_TCP \<and> ihl + 20 \<le> length p \<or> protocol = IP_PROTO_UDP \<and> ihl + 8 \<le> length p"
  shows "reseal_transport src dst protocol ihl p =
    (let z = write_at (ihl + csum_off protocol) [0, 0] p;
         c = compute_ipv4_transport_checksum src dst protocol (drop ihl z)
     in write_at (ihl + csum_off protocol) (u16_to_be c) z)"
  using assms by (auto simp: reseal_transport_def csum_off_def ip_proto_defs Let_def)

lemma reseal_transport_facts:
  assumes ok: "protocol = IP_PROTO_TCP \<and> ihl + 20 \<le> length p \<or> protocol = IP_PROTO_UDP \<and> ihl + 8 \<le> length p"
    and len: "length p \<le> 65535"
    and q_def: "q = reseal_transport src dst protocol ihl p"
  shows "length q = length p"
    and "i \<notin> {ihl + csum_off protocol, ihl + csum_off protocol + 1} \<Longrightarrow> q ! i = p ! i"
    and "verify_ipv4_transport_checksum src dst protocol (drop ihl q)"
    and "take ihl q = take ihl p"
proof -
  define co where "co = csum_off protocol"
  define z where "z = write_at (ihl + co) [0, 0] p"
  have fit: "ihl + co + 2 \<le> length p" "even co" using ok by (auto simp: co_def csum_off_def ip_proto_defs)
  have q: "q = write_at (ihl + co) (u16_to_be (compute_ipv4_transport_checksum src dst protocol (drop ihl z))) z"
    unfolding q_def reseal_transport_eq [OF ok] by (simp add: Let_def co_def z_def)
  have z: "length z = length p" using fit by (simp add: z_def)
  show "length q = length p" using fit z by (simp add: q)
  show nth: "q ! i = p ! i" if "i \<notin> {ihl + co, ihl + co + 1}" for i
    using that fit z by (auto simp: q z_def nth_write_at)
  show "take ihl q = take ihl p"
    using fit z by (intro nth_equalityI) (auto simp: q nth intro: nth [unfolded q])
  have "drop ihl q = write_at co (u16_to_be (compute_ipv4_transport_checksum src dst protocol (drop ihl z))) (drop ihl z)"
    using fit z by (simp add: q drop_write_at)
  moreover have "drop ihl z ! co = 0" "drop ihl z ! (co + 1) = 0"
    using fit by (auto simp: z_def nth_write_at)
  ultimately show "verify_ipv4_transport_checksum src dst protocol (drop ihl q)"
    using transport_checksum.seal_verifies [of co "drop ihl z" src dst protocol] fit z len by simp
qed

lemma reseal_facts:
  assumes ok: "nat_packet_ok p" and p1: "length p1 = length p" "p1 ! 9 = p ! 9"
    and q: "q = reseal_transport src dst (p ! 9) (nat_ihl p) (reseal_ip (nat_ihl p) p1)"
  shows "length q = length p"
    and "i \<notin> {10, 11} \<Longrightarrow> i \<notin> {nat_ihl p + csum_off (p ! 9), nat_ihl p + csum_off (p ! 9) + 1} \<Longrightarrow>
         q ! i = p1 ! i"
    and "verify_checksum (take (nat_ihl p) q)"
    and "verify_ipv4_transport_checksum src dst (p ! 9) (drop (nat_ihl p) q)"
proof -
  let ?s = "reseal_ip (nat_ihl p) p1"
  have len: "12 \<le> length p1" "nat_ihl p \<le> length p1" "20 \<le> nat_ihl p" "length p \<le> 65535"
    using ok p1 by (auto simp: nat_packet_ok_def)
  have s: "length ?s = length p" using len p1 by simp
  have ok': "p ! 9 = IP_PROTO_TCP \<and> nat_ihl p + 20 \<le> length ?s \<or> p ! 9 = IP_PROTO_UDP \<and> nat_ihl p + 8 \<le> length ?s"
    using ok s by (simp add: nat_packet_ok_def)
  note f = reseal_transport_facts [OF ok' _ q]
  show "length q = length p" "verify_ipv4_transport_checksum src dst (p ! 9) (drop (nat_ihl p) q)"
    using f(1,3) s len by auto
  show "q ! i = p1 ! i" if "i \<notin> {10, 11}"
      "i \<notin> {nat_ihl p + csum_off (p ! 9), nat_ihl p + csum_off (p ! 9) + 1}"
    using f(2) [of i] s len that nth_reseal_ip [of p1 i] by simp
  have "take (nat_ihl p) q = take (nat_ihl p) ?s" using f(4) s len by simp
  then show "verify_checksum (take (nat_ihl p) q)"
    using reseal_ip_verifies [of "nat_ihl p" p1] len p1 by simp
qed

lemma csum_off_ge: "6 \<le> csum_off protocol"
  by (simp add: csum_off_def)

definition nat_key :: "bytes \<Rightarrow> NatSessionKey" where
  "nat_key p = \<lparr> nk_src = \<lparr> sa_ip = read4 12 p, sa_port = read_u16 (nat_ihl p) p \<rparr>,
                 nk_dst = \<lparr> sa_ip = read4 16 p, sa_port = read_u16 (nat_ihl p + 2) p \<rparr>,
                 nk_protocol = p ! 9 \<rparr>"

lemma write_fields:
  assumes "20 \<le> ihl" "ihl + 4 \<le> length p" "w = write_at ihl [a, b] (write_at 12 (bytes4 x) p)"
  shows "length w = length p" "read4 12 w = x" "read_u16 ihl w = u16_from_be a b"
    "i \<notin> {12, 13, 14, 15, ihl, ihl + 1} \<Longrightarrow> w ! i = p ! i"
  unfolding assms(3) using assms(1,2)
  by (cases x; auto simp: read4_def read_u16_def nth_write_at)+

lemma outbound_facts:
  assumes ok: "nat_packet_ok p" and port: "nat_session_port (nat_key p) t = (ext, t')"
  obtains q where "translate_outbound p t = (True, q, t')"
    "rewritten {12, 13, 14, 15, nat_ihl p, nat_ihl p + 1} p q" "checksums_ok q"
    "read4 12 q = nat_public_ip t'" "read4 16 q = read4 16 p" "read_u16 (nat_ihl p) q = ext"
    "read_u16 (nat_ihl p + 2) q = read_u16 (nat_ihl p + 2) p" "q ! 9 = p ! 9" "nat_ihl q = nat_ihl p"
proof -
  define w where "w = write_at (nat_ihl p) (u16_to_be ext) (write_at 12 (bytes4 (nat_public_ip t')) p)"
  have len: "20 \<le> nat_ihl p" "nat_ihl p + 4 \<le> length p" "p ! 9 = IP_PROTO_TCP \<or> p ! 9 = IP_PROTO_UDP"
    using ok by (auto simp: nat_packet_ok_def)
  note wf = write_fields [OF len(1,2) w_def [unfolded u16_to_be_def]]
  define q where "q = reseal_transport (nat_public_ip t') (read4 16 p) (p ! 9) (nat_ihl p)
    (reseal_ip (nat_ihl p) w)"
  have w9: "w ! 9 = p ! 9" using len wf(4) [of 9] by simp
  note f = reseal_facts [OF ok wf(1) w9 q_def]
  have nth: "i < nat_ihl p + 6 \<Longrightarrow> i \<notin> {10, 11} \<Longrightarrow> q ! i = w ! i" for i
    using f(2) [of i] csum_off_ge [of "p ! 9"] by auto
  have r12: "read4 12 q = nat_public_ip t'" using len nth wf(2) by (simp add: read4_def)
  have r16: "read4 16 q = read4 16 p" using len nth wf(4) by (simp add: read4_def)
  have ihl: "nat_ihl q = nat_ihl p" "q ! 9 = p ! 9"
    using len nth wf(4) by (simp_all add: nat_ihl_def)
  have tr: "translate_outbound p t = (True, q, t')"
    using len port unfolding translate_outbound_def nat_ihl_def [symmetric] Let_def
    by (simp add: IPV4_MIN_HEADER_LEN_def nat_key_def q_def w_def)
  have rw: "rewritten {12, 13, 14, 15, nat_ihl p, nat_ihl p + 1} p q"
    unfolding rewritten_def using f(1,2) wf(4) by (metis insertCI insertE singletonD)
  have ck: "checksums_ok q" using f(3,4) by (simp add: checksums_ok_def ihl r12 r16)
  have "read_u16 (nat_ihl p) q = ext" "read_u16 (nat_ihl p + 2) q = read_u16 (nat_ihl p + 2) p"
    using len nth wf(3,4) by (simp_all add: read_u16_def)
  with that [OF tr rw ck r12 r16 _ _ ihl(2,1)] show thesis by blast
qed

lemma write_fields_in:
  assumes "20 \<le> ihl" "ihl + 4 \<le> length p" "w = write_at (ihl + 2) [a, b] (write_at 16 (bytes4 x) p)"
  shows "length w = length p" "read4 16 w = x" "read_u16 (ihl + 2) w = u16_from_be a b"
    "i \<notin> {16, 17, 18, 19, ihl + 2, ihl + 3} \<Longrightarrow> w ! i = p ! i"
  unfolding assms(3) using assms(1,2)
  by (cases x; auto simp: read4_def read_u16_def nth_write_at)+

lemma inbound_facts:
  assumes ok: "nat_packet_ok p"
    and target: "hm_get (nat_inbound_lookup t)
      (read_u16 (nat_ihl p + 2) p, read4 12 p, read_u16 (nat_ihl p) p, p ! 9) = Some addr"
  obtains q where "translate_inbound p t = (True, q, t)"
    "rewritten {16, 17, 18, 19, nat_ihl p + 2, nat_ihl p + 3} p q" "checksums_ok q"
    "read4 16 q = sa_ip addr" "read_u16 (nat_ihl p + 2) q = sa_port addr" "nat_ihl q = nat_ihl p"
proof -
  define w where "w = write_at (nat_ihl p + 2) (u16_to_be (sa_port addr))
    (write_at 16 (bytes4 (sa_ip addr)) p)"
  have len: "20 \<le> nat_ihl p" "nat_ihl p + 4 \<le> length p" "p ! 9 = IP_PROTO_TCP \<or> p ! 9 = IP_PROTO_UDP"
    using ok by (auto simp: nat_packet_ok_def)
  note wf = write_fields_in [OF len(1,2) w_def [unfolded u16_to_be_def]]
  define q where "q = reseal_transport (read4 12 p) (sa_ip addr) (p ! 9) (nat_ihl p)
    (reseal_ip (nat_ihl p) w)"
  have w9: "w ! 9 = p ! 9" using len wf(4) [of 9] by simp
  note f = reseal_facts [OF ok wf(1) w9 q_def]
  have nth: "i < nat_ihl p + 6 \<Longrightarrow> i \<notin> {10, 11} \<Longrightarrow> q ! i = w ! i" for i
    using f(2) [of i] csum_off_ge [of "p ! 9"] by auto
  have r12: "read4 12 q = read4 12 p" using len nth wf(4) by (simp add: read4_def)
  have r16: "read4 16 q = sa_ip addr" using len nth wf(2) by (simp add: read4_def)
  have ihl: "nat_ihl q = nat_ihl p" "q ! 9 = p ! 9"
    using len nth wf(4) by (simp_all add: nat_ihl_def)
  have tr: "translate_inbound p t = (True, q, t)"
    using len target unfolding translate_inbound_def nat_ihl_def [symmetric] Let_def
    by (simp add: IPV4_MIN_HEADER_LEN_def q_def w_def)
  have rw: "rewritten {16, 17, 18, 19, nat_ihl p + 2, nat_ihl p + 3} p q"
    unfolding rewritten_def using f(1,2) wf(4) by (metis insertCI insertE singletonD)
  have ck: "checksums_ok q" using f(3,4) by (simp add: checksums_ok_def ihl r12 r16)
  have "read_u16 (nat_ihl p + 2) q = sa_port addr"
    using len nth wf(3) by (simp add: read_u16_def)
  with that [OF tr rw ck r16 _ ihl(1)] show thesis by blast
qed

section \<open>Sessions\<close>

datatype nat_event = NatOut bytes | NatIn bytes | NatForward u16 Ipv4Address u16 u8

fun nat_step :: "NatTable \<Rightarrow> nat_event \<Rightarrow> NatTable" where
  "nat_step t (NatOut p) = snd (snd (translate_outbound p t))"
| "nat_step t (NatIn p) = snd (snd (translate_inbound p t))"
| "nat_step t (NatForward ep ip port proto) = add_port_forward ep ip port proto t"

definition session_inbound :: "NatTable \<Rightarrow> NatSessionKey \<Rightarrow> u16 \<Rightarrow> SocketAddrTuple option" where
  "session_inbound t k p = hm_get (nat_inbound_lookup t)
     (p, sa_ip (nk_dst k), sa_port (nk_dst k), nk_protocol k)"

text \<open>Ports are handed out in order from 40000 to 65000; until all 25001 have been used, every
  session has its own and its replies are found.\<close>

definition nat_inv :: "NatTable \<Rightarrow> bool" where
  "nat_inv t \<longleftrightarrow>
     (let n = active_session_count t in
      hm_wf (nat_outbound_sessions t) \<and> unat (nat_next_alloc_port t) = 40000 + n mod 25001 \<and>
      (n \<le> 25001 \<longrightarrow>
        (\<forall>k p. hm_get (nat_outbound_sessions t) k = Some p \<longrightarrow>
           40000 \<le> unat p \<and> unat p < 40000 + n \<and> session_inbound t k p = Some (nk_src k))))"

lemma inv_session_port:
  assumes inv: "nat_inv t" and port: "nat_session_port k t = (p, t')"
  shows "nat_inv t'" "hm_get (nat_outbound_sessions t') k = Some p"
    "\<And>k'. k' \<noteq> k \<Longrightarrow> hm_get (nat_outbound_sessions t') k' = hm_get (nat_outbound_sessions t) k'"
    "hm_get (nat_outbound_sessions t) k = Some q \<Longrightarrow> q = p"
    "nat_public_ip t' = nat_public_ip t"
proof -
  have "(hm_get (nat_outbound_sessions t) k = Some p \<and> t' = t) \<or>
    (hm_get (nat_outbound_sessions t) k = None \<and> p = nat_next_alloc_port t)"
    using port by (auto simp: nat_session_port_def allocate_port_def Let_def split: option.splits)
  moreover have new: "nat_inv t' \<and> hm_get (nat_outbound_sessions t') = (hm_get (nat_outbound_sessions t))(k \<mapsto> p)
      \<and> nat_public_ip t' = nat_public_ip t"
    if none: "hm_get (nat_outbound_sessions t) k = None"
  proof -
    let ?n = "active_session_count t"
    let ?next = "if nat_next_alloc_port t \<ge> 65000 then 40000 else nat_next_alloc_port t + 1"
    have t': "p = nat_next_alloc_port t" "nat_next_alloc_port t' = ?next"
      "nat_outbound_sessions t' = hm_insert k p (nat_outbound_sessions t)"
      "nat_inbound_lookup t' = hm_insert (p, sa_ip (nk_dst k), sa_port (nk_dst k), nk_protocol k)
         (nk_src k) (nat_inbound_lookup t)" "nat_public_ip t' = nat_public_ip t"
      using port none by (auto simp: nat_session_port_def allocate_port_def Let_def)
    have cnt: "active_session_count t' = Suc ?n"
      using none by (simp add: active_session_count_def t'(3) map_of_eq_None_iff length_hm_insert)
    have pn: "unat p = 40000 + ?n mod 25001" using inv by (simp add: t'(1) nat_inv_def Let_def)
    have m: "?n mod 25001 < 25001" by simp
    have next_port: "unat ?next = 40000 + Suc ?n mod 25001"
    proof (cases "nat_next_alloc_port t \<ge> 65000")
      case True
      then have "?n mod 25001 = 25000" using pn m by (simp add: t'(1) word_le_nat_alt)
      then show ?thesis using True by (simp add: mod_Suc)
    next
      case False
      then have "?n mod 25001 < 25000" using pn by (simp add: t'(1) word_le_nat_alt)
      then show ?thesis using False pn
        by (simp add: t'(1) mod_Suc unat_word_ariths word_le_nat_alt)
    qed
    have "40000 \<le> unat p' \<and> unat p' < 40000 + Suc ?n \<and> session_inbound t' k' p' = Some (nk_src k')"
      if le: "Suc ?n \<le> 25001" and get: "hm_get (nat_outbound_sessions t') k' = Some p'" for k' p'
    proof (cases "k' = k")
      case True
      then show ?thesis using get pn le by (simp add: t'(3,4) hm_simps session_inbound_def)
    next
      case False
      then have old: "40000 \<le> unat p'" "unat p' < 40000 + ?n" "session_inbound t k' p' = Some (nk_src k')"
        using get inv le by (auto simp: t'(3) hm_simps nat_inv_def Let_def)
      have "unat p = 40000 + ?n" using pn le by simp
      then have "p' \<noteq> p" using old by auto
      then show ?thesis using old by (simp add: session_inbound_def t'(4) hm_simps)
    qed
    then show ?thesis
      using inv t' cnt next_port by (simp add: nat_inv_def Let_def hm_simps)
  qed
  ultimately show "nat_inv t'" "hm_get (nat_outbound_sessions t') k = Some p"
    "\<And>k'. k' \<noteq> k \<Longrightarrow> hm_get (nat_outbound_sessions t') k' = hm_get (nat_outbound_sessions t) k'"
    "hm_get (nat_outbound_sessions t) k = Some q \<Longrightarrow> q = p" "nat_public_ip t' = nat_public_ip t"
    using inv by auto
qed

lemma nat_step_cases:
  "(\<exists>k p. nat_session_port k t = (p, nat_step t ev)) \<or>
   nat_inbound_lookup (nat_step t ev) = nat_inbound_lookup t \<and>
   nat_outbound_sessions (nat_step t ev) = nat_outbound_sessions t \<and>
   nat_next_alloc_port (nat_step t ev) = nat_next_alloc_port t"
proof (cases ev)
  case (NatOut p)
  then show ?thesis by (auto simp: translate_outbound_def Let_def split: prod.split)
next
  case (NatIn p)
  then show ?thesis by (simp add: translate_inbound_def Let_def split: option.split)
qed (simp add: add_port_forward_def)

lemma nat_step_inv:
  assumes "nat_inv t"
  shows "nat_inv (nat_step t ev)"
    and "hm_get (nat_outbound_sessions t) k = Some p \<Longrightarrow>
         hm_get (nat_outbound_sessions (nat_step t ev)) k = Some p"
proof -
  from nat_step_cases [of t ev] consider
    k' p' where "nat_session_port k' t = (p', nat_step t ev)"
  | "nat_inbound_lookup (nat_step t ev) = nat_inbound_lookup t \<and>
     nat_outbound_sessions (nat_step t ev) = nat_outbound_sessions t \<and>
     nat_next_alloc_port (nat_step t ev) = nat_next_alloc_port t" by blast
  then have "nat_inv (nat_step t ev) \<and> (hm_get (nat_outbound_sessions t) k = Some p \<longrightarrow>
     hm_get (nat_outbound_sessions (nat_step t ev)) k = Some p)"
  proof cases
    case 1
    note f = inv_session_port [OF assms 1]
    show ?thesis using f(1,2) f(3) [of k] f(4) [of p] by (cases "k = k'") auto
  next
    case 2
    then show ?thesis
      using assms by (simp add: nat_inv_def active_session_count_def session_inbound_def)
  qed
  then show "nat_inv (nat_step t ev)" "hm_get (nat_outbound_sessions t) k = Some p \<Longrightarrow>
         hm_get (nat_outbound_sessions (nat_step t ev)) k = Some p" by auto
qed

interpretation nat_tables: stepper nat_step nat_inv
  by unfold_locales (rule nat_step_inv(1))

interpretation nat_session: stepper nat_step
  "\<lambda>t. nat_inv t \<and> hm_get (nat_outbound_sessions t) k = Some p" for k p
  by unfold_locales (simp add: nat_step_inv)

lemma nat_inv_new: "nat_inv (nat_new ip)"
  by (simp add: nat_inv_def nat_new_def active_session_count_def)

text \<open>C34: outbound translation is transparent: in every reachable table, a well-formed TCP or UDP
  packet leaves with the public address and the session's port as its source, its destination and
  payload unchanged and both checksums valid; and as long as at most 25001 sessions were opened, any
  reply from that destination to that port, however many packets later, is delivered to the
  internal address and port the packet came from, everything else unchanged and both checksums
  valid.\<close>
theorem nat_round_trip:
  assumes t: "t = foldl nat_step (nat_new ip) before" and p: "nat_packet_ok p"
  shows "\<exists>q t'. translate_outbound p t = (True, q, t') \<and>
    rewritten {12, 13, 14, 15, nat_ihl p, nat_ihl p + 1} p q \<and> checksums_ok q \<and>
    read4 12 q = nat_public_ip t' \<and>
    (\<forall>after r. active_session_count (foldl nat_step t' after) \<le> 25001 \<and> nat_packet_ok r \<and>
       r ! 9 = q ! 9 \<and> read4 12 r = read4 16 q \<and>
       read_u16 (nat_ihl r) r = read_u16 (nat_ihl q + 2) q \<and>
       read_u16 (nat_ihl r + 2) r = read_u16 (nat_ihl q) q \<longrightarrow>
       (\<exists>r'. translate_inbound r (foldl nat_step t' after) = (True, r', foldl nat_step t' after) \<and>
          rewritten {16, 17, 18, 19, nat_ihl r + 2, nat_ihl r + 3} r r' \<and> checksums_ok r' \<and>
          read4 16 r' = read4 12 p \<and> read_u16 (nat_ihl r' + 2) r' = read_u16 (nat_ihl p) p))"
proof -
  have inv: "nat_inv t" unfolding t by (rule nat_tables.run_inv [OF nat_inv_new])
  obtain ext t' where port: "nat_session_port (nat_key p) t = (ext, t')" by fastforce
  note sp = inv_session_port [OF inv port]
  obtain q where q: "translate_outbound p t = (True, q, t')"
    "rewritten {12, 13, 14, 15, nat_ihl p, nat_ihl p + 1} p q" "checksums_ok q"
    "read4 12 q = nat_public_ip t'" "read4 16 q = read4 16 p" "read_u16 (nat_ihl p) q = ext"
    "read_u16 (nat_ihl p + 2) q = read_u16 (nat_ihl p + 2) p" "q ! 9 = p ! 9" "nat_ihl q = nat_ihl p"
    using outbound_facts [OF p port] by blast
  have "\<exists>r'. translate_inbound r u = (True, r', u) \<and>
          rewritten {16, 17, 18, 19, nat_ihl r + 2, nat_ihl r + 3} r r' \<and> checksums_ok r' \<and>
          read4 16 r' = read4 12 p \<and> read_u16 (nat_ihl r' + 2) r' = read_u16 (nat_ihl p) p"
    if u: "u = foldl nat_step t' after" and cnt: "active_session_count u \<le> 25001"
      and r: "nat_packet_ok r" "r ! 9 = q ! 9" "read4 12 r = read4 16 q"
        "read_u16 (nat_ihl r) r = read_u16 (nat_ihl q + 2) q"
        "read_u16 (nat_ihl r + 2) r = read_u16 (nat_ihl q) q" for after r u
  proof -
    have "nat_inv u \<and> hm_get (nat_outbound_sessions u) (nat_key p) = Some ext"
      unfolding u by (rule nat_session.run_inv) (use sp in simp)
    then have "session_inbound u (nat_key p) ext = Some (nk_src (nat_key p))"
      using cnt unfolding nat_inv_def Let_def by blast
    then have "hm_get (nat_inbound_lookup u)
        (read_u16 (nat_ihl r + 2) r, read4 12 r, read_u16 (nat_ihl r) r, r ! 9) = Some (nk_src (nat_key p))"
      using r q by (simp add: session_inbound_def nat_key_def)
    from inbound_facts [OF r(1) this] show ?thesis by (metis nat_key_def NatSessionKey.select_convs(1)
          SocketAddrTuple.select_convs)
  qed
  then show ?thesis using q(1-4) by blast
qed

theorem nat_round_trip_witness:
  "let p = [0x45, 0, 0, 28, 0, 1, 0, 0, 64, 17, 0, 0, 192, 168, 1, 5, 8, 8, 8, 8,
            0x10, 0x00, 0, 53, 0, 8, 0, 0] :: bytes
   in \<exists>q t'. translate_outbound p (nat_new (O4 203 0 113 1)) = (True, q, t') \<and> checksums_ok q"
proof -
  let ?p = "[0x45, 0, 0, 28, 0, 1, 0, 0, 64, 17, 0, 0, 192, 168, 1, 5, 8, 8, 8, 8,
            0x10, 0x00, 0, 53, 0, 8, 0, 0] :: bytes"
  have "nat_packet_ok ?p"
    by (simp add: nat_packet_ok_def nat_ihl_def ip_proto_defs)
  from nat_round_trip [of "nat_new (O4 203 0 113 1)" "O4 203 0 113 1" "[]", OF _ this]
  show ?thesis unfolding Let_def by auto
qed

text \<open>Ports are reused without a check once all were handed out: a new session to the same
  destination whose port is still used by an older session takes over the older one's replies.\<close>

theorem nat_port_reuse_misdelivers:
  assumes "hm_get (nat_outbound_sessions t) old = Some (nat_next_alloc_port t)"
    and "hm_get (nat_outbound_sessions t) new = None"
    and "nk_dst new = nk_dst old" "nk_protocol new = nk_protocol old"
  shows "session_inbound (snd (nat_session_port new t)) old (nat_next_alloc_port t) = Some (nk_src new)"
  using assms by (simp add: nat_session_port_def allocate_port_def Let_def session_inbound_def hm_simps)

end
