(* ===== verification/Ipv6.thy ===== *)
theory Ipv6
  imports Checksum TextNum
begin

unbundle bit_operations_syntax

text \<open>
  The IPv6 layer of \<open>ipv6.rs\<close>: addresses with their masks, classes and text form (RFC 5952),
  the fixed header, the packet parser and serializer, and the checksum with the IPv6
  pseudo-header.  Packets and addresses survive being printed and parsed; the mask keeps exactly
  the leading bits of an address.
\<close>

section \<open>Constants and addresses\<close>

definition IPV6_HEADER_LEN :: nat where "IPV6_HEADER_LEN = 40"
definition IPV6_MAX_PAYLOAD_LEN :: nat where "IPV6_MAX_PAYLOAD_LEN = 65535"
definition NEXT_HEADER_HOP_BY_HOP :: u8 where "NEXT_HEADER_HOP_BY_HOP = 0"
definition NEXT_HEADER_TCP :: u8 where "NEXT_HEADER_TCP = 6"
definition NEXT_HEADER_UDP :: u8 where "NEXT_HEADER_UDP = 17"
definition NEXT_HEADER_ROUTING :: u8 where "NEXT_HEADER_ROUTING = 43"
definition NEXT_HEADER_FRAGMENT :: u8 where "NEXT_HEADER_FRAGMENT = 44"
definition NEXT_HEADER_GRE :: u8 where "NEXT_HEADER_GRE = 47"
definition NEXT_HEADER_ICMPV6 :: u8 where "NEXT_HEADER_ICMPV6 = 58"
definition NEXT_HEADER_NO_NEXT :: u8 where "NEXT_HEADER_NO_NEXT = 59"
definition NEXT_HEADER_DEST_OPTS :: u8 where "NEXT_HEADER_DEST_OPTS = 60"

text \<open>The array \<open>[u8; 16]\<close>, and how it is read from and written to a buffer.\<close>

datatype octets16 = O16 u8 u8 u8 u8 u8 u8 u8 u8 u8 u8 u8 u8 u8 u8 u8 u8

fun bytes16 :: "octets16 \<Rightarrow> bytes" where
  "bytes16 (O16 a b c d e f g h i j k l m n p q) = [a, b, c, d, e, f, g, h, i, j, k, l, m, n, p, q]"

definition read16 :: "nat \<Rightarrow> bytes \<Rightarrow> octets16" where
  "read16 i xs = O16 (xs ! i) (xs ! (i + 1)) (xs ! (i + 2)) (xs ! (i + 3)) (xs ! (i + 4)) (xs ! (i + 5))
     (xs ! (i + 6)) (xs ! (i + 7)) (xs ! (i + 8)) (xs ! (i + 9)) (xs ! (i + 10)) (xs ! (i + 11))
     (xs ! (i + 12)) (xs ! (i + 13)) (xs ! (i + 14)) (xs ! (i + 15))"

type_synonym Ipv6Address = octets16

definition ip6_UNSPECIFIED :: Ipv6Address where
  "ip6_UNSPECIFIED = O16 0 0 0 0 0 0 0 0 0 0 0 0 0 0 0 0"

definition ip6_LOOPBACK :: Ipv6Address where
  "ip6_LOOPBACK = O16 0 0 0 0 0 0 0 0 0 0 0 0 0 0 0 1"

definition LINK_LOCAL_ALL_NODES :: Ipv6Address where
  "LINK_LOCAL_ALL_NODES = O16 0xff 0x02 0 0 0 0 0 0 0 0 0 0 0 0 0 1"

definition LINK_LOCAL_ALL_ROUTERS :: Ipv6Address where
  "LINK_LOCAL_ALL_ROUTERS = O16 0xff 0x02 0 0 0 0 0 0 0 0 0 0 0 0 0 2"

definition ip6_new :: "u16 list \<Rightarrow> Ipv6Address" where
  "ip6_new words = read16 0 (concat (map u16_to_be words))"

definition ip6_to_words :: "Ipv6Address \<Rightarrow> u16 list" where
  "ip6_to_words a = map (\<lambda>i. read_u16 (i * 2) (bytes16 a)) [0..<8]"

definition ip6_mask :: "Ipv6Address \<Rightarrow> u8 \<Rightarrow> Ipv6Address" where
  "ip6_mask a prefix_len =
     (let prefix_len = min prefix_len 128;
          bytes = bytes16 a;
          whole = unat (prefix_len div 8);
          rem = prefix_len mod 8;
          bytes = (if rem \<noteq> 0 \<and> whole < length bytes
                   then bytes[whole := bytes ! whole AND push_bit (8 - unat rem) 0xff] else bytes);
          clear_from = whole + (if rem \<noteq> 0 then 1 else 0)
      in read16 0 (take clear_from bytes @ replicate (length bytes - clear_from) 0))"

definition ip6_is_unspecified :: "Ipv6Address \<Rightarrow> bool" where
  "ip6_is_unspecified a \<longleftrightarrow> a = ip6_UNSPECIFIED"

definition ip6_is_loopback :: "Ipv6Address \<Rightarrow> bool" where
  "ip6_is_loopback a \<longleftrightarrow> a = ip6_LOOPBACK"

definition ip6_is_multicast :: "Ipv6Address \<Rightarrow> bool" where
  "ip6_is_multicast a \<longleftrightarrow> bytes16 a ! 0 = 0xFF"

definition ip6_is_link_local :: "Ipv6Address \<Rightarrow> bool" where
  "ip6_is_link_local a \<longleftrightarrow> bytes16 a ! 0 = 0xFE \<and> bytes16 a ! 1 AND 0xC0 = 0x80"

definition solicited_node_multicast :: "Ipv6Address \<Rightarrow> Ipv6Address" where
  "solicited_node_multicast a =
     (let b = bytes16 a in O16 0xff 0x02 0 0 0 0 0 0 0 0 0 0x01 0xff (b ! 13) (b ! 14) (b ! 15))"

section \<open>Text form\<close>

text \<open>\<open>{:x}\<close> of a \<open>u16\<close>, \<open>u16::from_str_radix(_, 16)\<close>, \<open>str::split("::")\<close> and \<open>[String]::join(":")\<close>.\<close>

definition fmt_hex :: "u16 \<Rightarrow> string" where
  "fmt_hex w =
     (let n = unat w
      in (if n < 16 then [] else if n < 256 then [digit_char (n div 16)]
          else if n < 4096 then [digit_char (n div 256), digit_char (n div 16 mod 16)]
          else [digit_char (n div 4096), digit_char (n div 256 mod 16), digit_char (n div 16 mod 16)])
         @ [digit_char (n mod 16)])"

fun digits_u16 :: "nat \<Rightarrow> nat \<Rightarrow> string \<Rightarrow> int_error + u16" where
  "digits_u16 radix acc [] = Inr (of_nat acc)"
| "digits_u16 radix acc (ch # rest) =
     (case to_digit radix ch of
        None \<Rightarrow> Inl InvalidDigit
      | Some d \<Rightarrow> if acc * radix > 65535 then Inl PosOverflow
                  else if acc * radix + d > 65535 then Inl PosOverflow
                  else digits_u16 radix (acc * radix + d) rest)"

definition u16_from_str_radix :: "nat \<Rightarrow> string \<Rightarrow> int_error + u16" where
  "u16_from_str_radix radix s =
     (case s of
        [] \<Rightarrow> Inl EmptyText
      | ch # rest \<Rightarrow>
          if rest = [] \<and> (ch = CHR ''+'' \<or> ch = CHR ''-'') then Inl InvalidDigit
          else if ch = CHR ''+'' then digits_u16 radix 0 rest
          else digits_u16 radix 0 s)"

fun split_double :: "char \<Rightarrow> string \<Rightarrow> string list" where
  "split_double c [] = [[]]"
| "split_double c [x] = [[x]]"
| "split_double c (x # y # ys) =
     (if x = c \<and> y = c then [] # split_double c ys
      else let r = split_double c (y # ys) in (x # hd r) # tl r)"

fun join_on :: "char \<Rightarrow> string list \<Rightarrow> string" where
  "join_on c [] = []"
| "join_on c [p] = p"
| "join_on c (p # q # ps) = p @ c # join_on c (q # ps)"

text \<open>The search for the longest run of zero words; the state is
  \<open>(best_start, best_len, cur_start, cur_len)\<close>.\<close>

definition zero_run_step :: "nat \<times> u16 \<Rightarrow> nat \<times> nat \<times> nat \<times> nat \<Rightarrow> nat \<times> nat \<times> nat \<times> nat" where
  "zero_run_step = (\<lambda>(i, w) (best_start, best_len, cur_start, cur_len).
     if w = 0
     then let cur_start = (if cur_len = 0 then i else cur_start);
              cur_len = cur_len + 1
          in if cur_len > best_len then (cur_start, cur_len, cur_start, cur_len)
             else (best_start, best_len, cur_start, cur_len)
     else (best_start, best_len, cur_start, 0))"

text \<open>The loop over the words with compression; it runs only for a run of at least two words.\<close>

function ip6_parts :: "u16 list \<Rightarrow> nat \<Rightarrow> nat \<Rightarrow> nat \<Rightarrow> string list" where
  "ip6_parts words best_start best_len i =
     (if i < 8 \<and> 0 < best_len
      then if i = best_start
           then (if best_start = 0 then [[]] else []) @ [[]] @ (if i + best_len = 8 then [[]] else []) @
                ip6_parts words best_start best_len (i + best_len)
           else fmt_hex (words ! i) # ip6_parts words best_start best_len (i + 1)
      else [])"
  by pat_completeness auto
termination
  by (relation "measure (\<lambda>(words, best_start, best_len, i). 8 - i)") auto

declare ip6_parts.simps [simp del]

definition ip6_fmt :: "Ipv6Address \<Rightarrow> string" where
  "ip6_fmt a =
     (let words = ip6_to_words a;
          (best_start, best_len, _, _) = fold zero_run_step (enumerate 0 words) (0, 0, 0, 0)
      in if best_len \<le> 1 then join_on CHR '':'' (map fmt_hex words)
         else if best_len = 8 then ''::''
         else join_on CHR '':'' (ip6_parts words best_start best_len 0))"

fun parse_words :: "string list \<Rightarrow> unit + u16 list" where
  "parse_words [] = Inr []"
| "parse_words (p # ps) =
     (case u16_from_str_radix 16 p of
        Inl _ \<Rightarrow> Inl ()
      | Inr w \<Rightarrow> (case parse_words ps of Inl e \<Rightarrow> Inl e | Inr ws \<Rightarrow> Inr (w # ws)))"

definition ip6_segments :: "string \<Rightarrow> string list" where
  "ip6_segments part = (if part = [] then [] else split_on CHR '':'' part)"

definition ip6_from_str :: "string \<Rightarrow> unit + Ipv6Address" where
  "ip6_from_str s =
     (if s = ''::'' then Inr ip6_UNSPECIFIED
      else let parts = split_double CHR '':'' s
      in if length parts > 2 then Inl ()
         else if length parts = 1
         then let segs = split_on CHR '':'' (parts ! 0)
              in if length segs \<noteq> 8 then Inl ()
                 else (case parse_words segs of Inl e \<Rightarrow> Inl e | Inr ws \<Rightarrow> Inr (ip6_new ws))
         else let left_segs = ip6_segments (parts ! 0);
                  right_segs = ip6_segments (parts ! 1)
              in if length left_segs + length right_segs \<ge> 8 then Inl ()
                 else (case parse_words left_segs of
                         Inl e \<Rightarrow> Inl e
                       | Inr lws \<Rightarrow>
                           (case parse_words right_segs of
                              Inl e \<Rightarrow> Inl e
                            | Inr rws \<Rightarrow>
                                Inr (ip6_new (lws @ replicate (8 - length left_segs - length right_segs) 0 @ rws)))))"

section \<open>Packets\<close>

record Ipv6Header =
  ip6_version :: u8
  ip6_traffic_class :: u8
  ip6_flow_label :: u32
  ip6_payload_length :: u16
  ip6_next_header :: u8
  ip6_hop_limit :: u8
  ip6_src_ip :: Ipv6Address
  ip6_dst_ip :: Ipv6Address

definition ip6_header_serialize :: "Ipv6Header \<Rightarrow> bytes" where
  "ip6_header_serialize h =
     (let v_tc_fl = push_bit 28 (ucast (ip6_version h) AND 0x0f) OR push_bit 20 (ucast (ip6_traffic_class h))
                    OR (ip6_flow_label h AND 0x000fffff) :: u32
      in u32_to_be v_tc_fl @ u16_to_be (ip6_payload_length h) @ [ip6_next_header h] @ [ip6_hop_limit h] @
         bytes16 (ip6_src_ip h) @ bytes16 (ip6_dst_ip h))"

record Ipv6Packet =
  ip6p_header :: Ipv6Header
  ip6p_payload :: bytes

datatype Ipv6Error = Ip6PacketTooShort nat | Ip6InvalidVersion u8
  | Ip6PayloadLengthMismatch nat nat | Ip6PayloadTooLarge nat

definition ipv6_parse :: "bytes \<Rightarrow> Ipv6Error + Ipv6Packet" where
  "ipv6_parse data =
     (if length data < IPV6_HEADER_LEN then Inl (Ip6PacketTooShort (length data))
      else let v_tc_fl = read_u32 0 data;
               version = ucast (drop_bit 28 v_tc_fl AND 0x0F) :: u8
      in if version \<noteq> 6 then Inl (Ip6InvalidVersion version)
      else let payload_length = read_u16 4 data;
               available_payload = length data - IPV6_HEADER_LEN
      in if available_payload < unat payload_length
         then Inl (Ip6PayloadLengthMismatch (unat payload_length) available_payload)
         else Inr \<lparr> ip6p_header =
                \<lparr> ip6_version = version, ip6_traffic_class = ucast (drop_bit 20 v_tc_fl AND 0xFF),
                  ip6_flow_label = v_tc_fl AND 0x000FFFFF, ip6_payload_length = payload_length,
                  ip6_next_header = data ! 6, ip6_hop_limit = data ! 7,
                  ip6_src_ip = read16 8 data, ip6_dst_ip = read16 24 data \<rparr>,
              ip6p_payload = subslice IPV6_HEADER_LEN (IPV6_HEADER_LEN + unat payload_length) data \<rparr>)"

definition ipv6_try_serialize ::
  "Ipv6Address \<Rightarrow> Ipv6Address \<Rightarrow> u8 \<Rightarrow> u8 \<Rightarrow> bytes \<Rightarrow> Ipv6Error + bytes" where
  "ipv6_try_serialize src_ip dst_ip next_header hop_limit payload =
     (if length payload > 65535 then Inl (Ip6PayloadTooLarge (length payload))
      else Inr (u32_to_be 0x60000000 @ u16_to_be (of_nat (length payload)) @ [next_header] @ [hop_limit] @
                bytes16 src_ip @ bytes16 dst_ip @ payload))"

definition ipv6_serialize ::
  "Ipv6Address \<Rightarrow> Ipv6Address \<Rightarrow> u8 \<Rightarrow> u8 \<Rightarrow> bytes \<Rightarrow> bytes may_panic" where
  "ipv6_serialize src_ip dst_ip next_header hop_limit payload =
     (case ipv6_try_serialize src_ip dst_ip next_header hop_limit payload of
        Inl _ \<Rightarrow> None | Inr buf \<Rightarrow> Some buf)"

definition compute_ipv6_transport_checksum :: "Ipv6Address \<Rightarrow> Ipv6Address \<Rightarrow> u8 \<Rightarrow> bytes \<Rightarrow> u16" where
  "compute_ipv6_transport_checksum src_ip dst_ip next_header payload =
     compute_checksum (bytes16 src_ip @ bytes16 dst_ip @ u32_to_be (of_nat (length payload)) @
                       [0, 0, 0, next_header] @ payload)"

section \<open>Addresses as bytes\<close>

lemma length_bytes16 [simp, wire_simps]: "length (bytes16 x) = 16"
  by (cases x) simp

lemma read16_bytes16 [simp]: "read16 0 (bytes16 x) = x"
  by (cases x) (simp add: read16_def)

lemma bytes16_read16: "i + 16 \<le> length d \<Longrightarrow> bytes16 (read16 i d) = take 16 (drop i d)"
  by (simp add: read16_def numeral_eq_Suc take_Suc_drop)

lemma bytes16_inject: "bytes16 x = bytes16 y \<longleftrightarrow> x = y"
  by (metis read16_bytes16)

lemma read16_append: "read16 i (xs @ bytes16 a @ ys) = a" if "i = length xs"
  using that by (cases a) (simp add: read16_def nth_append)

lemma read16_skip: "read16 i (xs @ ys) = read16 (i - length xs) ys" if "length xs \<le> i"
  using that by (auto simp: read16_def nth_append Suc_diff_le simp flip: diff_add_assoc2)

section \<open>Masks\<close>

text \<open>Bit \<open>n\<close> of an address, counted from the most significant bit of the first byte.\<close>

definition ip6_bit :: "Ipv6Address \<Rightarrow> nat \<Rightarrow> bool" where
  "ip6_bit a n = bit (bytes16 a ! (n div 8)) (7 - n mod 8)"

lemma ip6_eq_bits: "x = y \<longleftrightarrow> (\<forall>n < 128. ip6_bit x n = ip6_bit y n)"
proof
  assume bits: "\<forall>n < 128. ip6_bit x n = ip6_bit y n"
  have "bytes16 x ! i = bytes16 y ! i" if i: "i < 16" for i
  proof (rule bit_word_eqI)
    fix k assume k: "k < LENGTH(8)"
    define j where "j = 7 - k"
    have "i * 8 + j < 128" "(i * 8 + j) div 8 = i" "7 - (i * 8 + j) mod 8 = k"
      using i k mod_mult_self3 [of i 8 j] by (auto simp: j_def)
    then show "bit (bytes16 x ! i) k = bit (bytes16 y ! i) k"
      using bits unfolding ip6_bit_def by metis
  qed
  then have "bytes16 x = bytes16 y" by (intro nth_equalityI) simp_all
  then show "x = y" by (simp add: bytes16_inject)
qed simp

lemma ip6_mask_nth:
  assumes "i < 16"
  shows "bytes16 (ip6_mask a p) ! i =
    (if i < unat p div 8 then bytes16 a ! i
     else if i = unat p div 8 then bytes16 a ! i AND push_bit (8 - unat p mod 8) 0xff else 0)"
proof -
  define q where "q = min p 128"
  define r where "r = unat q"
  have r: "r = min (unat p) 128" by (simp add: r_def q_def unat_min_word)
  have "unat (q div 8) = r div 8" "unat (q mod 8) = r mod 8"
    by (simp_all add: r_def unat_div unat_mod)
  moreover have "q mod 8 \<noteq> 0 \<longleftrightarrow> r mod 8 \<noteq> 0"
    by (metis r_def calculation(2) unat_0 unat_eq_zero)
  moreover have "r div 8 \<le> 16" "0 < r mod 8 \<Longrightarrow> r div 8 < 16"
    using r mult_div_mod_eq [of 8 r] by linarith+
  moreover define bs where "bs = take (r div 8 + (if r mod 8 \<noteq> 0 then 1 else 0))
       (if r mod 8 \<noteq> 0 \<and> r div 8 < 16
        then (bytes16 a)[r div 8 := bytes16 a ! (r div 8) AND push_bit (8 - r mod 8) 0xff] else bytes16 a) @
     replicate (16 - (r div 8 + (if r mod 8 \<noteq> 0 then 1 else 0))) 0"
  ultimately have "ip6_mask a p = read16 0 bs" "length bs = 16"
    by (auto simp: ip6_mask_def Let_def simp flip: q_def)
  then have b: "bytes16 (ip6_mask a p) ! i = bs ! i"
    using assms by (simp add: bytes16_read16)
  have 0: "(65280 :: u8) = 0" by simp
  consider "128 \<le> unat p" | "unat p < 128" by linarith
  then show ?thesis
  proof cases
    case 1
    then have "r = 128" "i < unat p div 8" using r assms by linarith+
    then show ?thesis using b assms by (simp add: bs_def)
  next
    case 2
    then have r': "r = unat p" "r div 8 < 16" using r by linarith+
    define k m where "k = r div 8" and "m = r mod 8"
    have "bs ! i = (if i < k then bytes16 a ! i
        else if i = k then bytes16 a ! i AND push_bit (8 - m) 0xff else 0)"
    proof (cases "m = 0")
      case True
      then have "bs = take k (bytes16 a) @ replicate (16 - k) 0"
        by (simp add: bs_def k_def m_def)
      then show ?thesis using True assms r'(2) by (simp add: nth_append k_def 0)
    next
      case False
      then have "bs = take (Suc k) ((bytes16 a)[k := bytes16 a ! k AND push_bit (8 - m) 0xff]) @
          replicate (15 - k) 0"
        using r'(2) by (simp add: bs_def k_def m_def)
      then show ?thesis using assms r'(2) by (simp add: nth_append k_def)
    qed
    then show ?thesis using b by (simp only: k_def m_def r'(1))
  qed
qed

lemma ip6_mask_bit: "n < 128 \<Longrightarrow> ip6_bit (ip6_mask a p) n \<longleftrightarrow> ip6_bit a n \<and> n < unat p"
proof -
  assume n: "n < 128"
  then have i: "n div 8 < 16" by linarith
  have m: "(0xff :: u8) = mask 8" by (simp add: mask_eq_exp_minus_1)
  consider "n div 8 < unat p div 8" | "n div 8 = unat p div 8" | "unat p div 8 < n div 8" by linarith
  then show ?thesis
  proof cases
    case 2
    have "n < unat p \<longleftrightarrow> n mod 8 < unat p mod 8"
      using 2 by (metis add_less_cancel_left mult_div_mod_eq)
    moreover have "7 - n mod 8 < 8 \<and> (8 - unat p mod 8 \<le> 7 - n mod 8 \<longleftrightarrow> n mod 8 < unat p mod 8)"
      by auto
    moreover have "unat p mod 8 - Suc (n mod 8) < 8"
      using mod_less_divisor [of 8 "unat p"] by linarith
    ultimately show ?thesis
      using 2 i by (auto simp: ip6_bit_def ip6_mask_nth m bit_simps)
  next
    case 1
    then have "n < unat p" by (metis div_le_mono not_le)
    then show ?thesis using 1 i by (simp add: ip6_bit_def ip6_mask_nth)
  next
    case 3
    then have "\<not> n < unat p" by (metis div_le_mono less_imp_le not_le)
    then show ?thesis using 3 i by (simp add: ip6_bit_def ip6_mask_nth)
  qed
qed

lemma ip6_mask_eq_iff:
  "ip6_mask x p = ip6_mask y p \<longleftrightarrow> (\<forall>n < 128. n < unat p \<longrightarrow> ip6_bit x n = ip6_bit y n)"
  by (auto simp: ip6_eq_bits [of "ip6_mask x p"] ip6_mask_bit)

lemma ip6_mask_idem: "ip6_mask (ip6_mask x p) q = ip6_mask x (min p q)"
  by (auto simp: ip6_eq_bits [of "ip6_mask _ q"] ip6_mask_bit unat_min_word)

lemma ip6_mask_self [simp]: "ip6_mask (ip6_mask x p) p = ip6_mask x p"
  by (simp add: ip6_mask_idem)

lemma ip6_mask_full: "128 \<le> p \<Longrightarrow> ip6_mask x p = x"
  by (auto simp: ip6_eq_bits ip6_mask_bit word_le_nat_alt)

section \<open>Packets and checksums\<close>

lemma ipv6_parse_serialize:
  assumes len: "length payload \<le> 65535"
  shows "\<exists>buf. ipv6_serialize src dst nh hop payload = Some buf \<and> length buf = 40 + length payload \<and>
    ipv6_parse buf = Inr \<lparr> ip6p_header =
      \<lparr> ip6_version = 6, ip6_traffic_class = 0, ip6_flow_label = 0,
        ip6_payload_length = of_nat (length payload), ip6_next_header = nh, ip6_hop_limit = hop,
        ip6_src_ip = src, ip6_dst_ip = dst \<rparr>, ip6p_payload = payload \<rparr>"
proof -
  define buf where "buf = u32_to_be 0x60000000 @ u16_to_be (of_nat (length payload)) @ [nh] @ [hop] @
      bytes16 src @ bytes16 dst @ payload"
  have ser: "ipv6_serialize src dst nh hop payload = Some buf"
    using len by (simp add: ipv6_serialize_def ipv6_try_serialize_def buf_def)
  define h where "h = u32_to_be 0x60000000 @ u16_to_be (of_nat (length payload)) @ [nh] @ [hop]"
  have h: "buf = h @ bytes16 src @ bytes16 dst @ payload" "length h = 8"
    by (simp_all add: buf_def h_def)
  have addr: "read16 8 buf = src" "read16 24 buf = dst"
    using read16_append [of 8 h src "bytes16 dst @ payload"]
      read16_append [of 24 "h @ bytes16 src" dst payload] h by simp_all
  have rd: "read_u32 0 buf = 0x60000000" "read_u16 4 buf = of_nat (length payload)" "buf ! 6 = nh"
      "buf ! 7 = hop"
    by (simp_all add: buf_def read_u32_def read_u16_def u32_to_be_def u16_to_be_def u32_from_be_def)
  have n: "unat (of_nat (length payload) :: u16) = length payload"
    using len by (simp add: unat_of_nat)
  have pl: "drop 40 buf = payload" "length buf = 40 + length payload"
    by (simp_all add: buf_def)
  show ?thesis
    using ser addr rd n pl
    by (auto simp: ipv6_parse_def IPV6_HEADER_LEN_def Let_def subslice_def)
qed

interpretation ipv6_wire: wire_codec
  "\<lambda>(src, dst, nh, hop, payload). length payload \<le> 65535"
  "\<lambda>(src, dst, nh, hop, payload). the (ipv6_serialize src dst nh hop payload)" ipv6_parse
  "\<lambda>p. (ip6_src_ip (ip6p_header p), ip6_dst_ip (ip6p_header p), ip6_next_header (ip6p_header p),
        ip6_hop_limit (ip6p_header p), ip6p_payload p)"
proof unfold_locales
  fix x :: "octets16 \<times> octets16 \<times> u8 \<times> u8 \<times> bytes"
  obtain src dst nh hop payload where x: "x = (src, dst, nh, hop, payload)" by (cases x)
  assume "case x of (src, dst, nh, hop, payload) \<Rightarrow> length payload \<le> 65535"
  then show "\<exists>d. ipv6_parse (case x of (src, dst, nh, hop, payload) \<Rightarrow>
        the (ipv6_serialize src dst nh hop payload)) = Inr d \<and>
      (ip6_src_ip (ip6p_header d), ip6_dst_ip (ip6p_header d), ip6_next_header (ip6p_header d),
        ip6_hop_limit (ip6p_header d), ip6p_payload d) = x"
    using ipv6_parse_serialize [of payload src dst nh hop] by (auto simp: x)
qed

text \<open>The checksum of a buffer is zero exactly when its sum is a positive multiple of 65535.\<close>

lemma compute_checksum_zero:
  assumes "length d \<le> 131070" and "0 < word_sum d"
  shows "compute_checksum d = 0 \<longleftrightarrow> 65535 dvd word_sum d"
proof -
  have "unat (compute_checksum d) = 65535 - ones_fold (word_sum d)"
    using word_sum_no_wrap [OF assms(1)] by (simp add: compute_checksum_def unat_finalize unat_raw_checksum)
  moreover have "ones_fold (word_sum d) \<noteq> 0" using assms(2) by (simp add: ones_fold_def)
  ultimately show ?thesis
    using ones_fold_le [of "word_sum d"] ones_fold_verdict [of "word_sum d"] unat_eq_zero by fastforce
qed

lemma ipv6_transport_seal:
  assumes len: "4 \<le> length b" "length b \<le> 65535" and z: "b ! 2 = 0" "b ! 3 = 0" and nh: "nh \<noteq> 0"
  shows "compute_ipv6_transport_checksum src dst nh
    (write_at 2 (u16_to_be (compute_ipv6_transport_checksum src dst nh b)) b) = 0"
proof -
  define ph where "ph = bytes16 src @ bytes16 dst @ u32_to_be (of_nat (length b)) @ [0, 0, 0, nh]"
  define c where "c = compute_ipv6_transport_checksum src dst nh b"
  have c: "c = compute_checksum (ph @ b)"
    by (simp add: c_def compute_ipv6_transport_checksum_def ph_def)
  have ph: "length ph = 40" "even (length ph)" by (simp_all add: ph_def)
  have "0 < unat nh" using nh unat_eq_zero by blast
  moreover have "word_sum ph = word_sum (bytes16 src @ bytes16 dst @ u32_to_be (of_nat (length b))) + unat nh"
    by (simp add: ph_def word_sum_append)
  ultimately have pos: "0 < word_sum ph" by simp
  have w: "ph @ write_at 2 (u16_to_be c) b = write_at 42 (u16_to_be c) (ph @ b)"
    using ph len by (simp add: write_at_def)
  have "word_sum (write_at 42 (u16_to_be c) (ph @ b)) = word_sum (ph @ b) + unat c"
    using word_sum_write_u16 [of 42 "ph @ b" c] ph len z by (simp add: nth_append)
  also have "\<dots> = word_sum (ph @ b) + (65535 - ones_fold (word_sum (ph @ b)))"
    using word_sum_no_wrap [of "ph @ b"] ph len
    by (simp add: c compute_checksum_def unat_finalize unat_raw_checksum)
  finally have s: "65535 dvd word_sum (ph @ write_at 2 (u16_to_be c) b)"
    by (simp only: w sealed_sum_dvd)
  moreover have "0 < word_sum (ph @ write_at 2 (u16_to_be c) b)"
    using pos ph by (simp add: word_sum_append)
  ultimately have "compute_checksum (ph @ write_at 2 (u16_to_be c) b) = 0"
    using ph len by (simp add: compute_checksum_zero)
  then show ?thesis
    using len by (simp add: compute_ipv6_transport_checksum_def ph_def c_def)
qed

section \<open>Printed addresses parse back\<close>

lemma fmt_hex_parses: "u16_from_str_radix 16 (fmt_hex w) = Inr w"
proof -
  define n where "n = unat w"
  have n: "n < 65536" using unat_bound [of w] by (simp add: n_def)
  have w: "of_nat n = w" by (simp add: n_def)
  have d: "n mod 16 < 16" "n div 16 mod 16 < 16" "n div 256 mod 16 < 16" by simp_all
  have q: "n div 256 = n div 16 div 16" "n div 4096 = n div 256 div 16"
    by (simp_all add: div_mult2_eq [of n 16 16, simplified] div_mult2_eq [of n 256 16, simplified])
  have e: "n div 16 * 16 + n mod 16 = n" "n div 256 * 16 + n div 16 mod 16 = n div 16"
    "n div 4096 * 16 + n div 256 mod 16 = n div 256"
    unfolding q by simp_all
  have b: "n div 16 \<le> 4095" "n div 256 \<le> 255" "n div 4096 < 16" using n by linarith+
  note [simp] = digit_char_plain to_digit_digit_char
  consider "n < 16" | "16 \<le> n" "n < 256" | "256 \<le> n" "n < 4096" | "4096 \<le> n" by linarith
  then show ?thesis
  proof cases
    case 1
    then show ?thesis using w by (simp add: u16_from_str_radix_def fmt_hex_def flip: n_def)
  next
    case 2
    then have "fmt_hex w = [digit_char (n div 16), digit_char (n mod 16)]" "n div 16 < 16"
      by (simp_all add: fmt_hex_def n_def Let_def)
    then show ?thesis using w e(1) d n
      by (simp add: u16_from_str_radix_def del: div_mult_mod_eq)
  next
    case 3
    then have "fmt_hex w = [digit_char (n div 256), digit_char (n div 16 mod 16), digit_char (n mod 16)]"
      "n div 256 < 16"
      by (simp_all add: fmt_hex_def n_def Let_def)
    then show ?thesis using w e(1,2) d n b
      by (simp add: u16_from_str_radix_def del: div_mult_mod_eq)
  next
    case 4
    then have "fmt_hex w = [digit_char (n div 4096), digit_char (n div 256 mod 16),
        digit_char (n div 16 mod 16), digit_char (n mod 16)]"
      by (simp add: fmt_hex_def n_def Let_def)
    then show ?thesis using w e d n b
      by (simp add: u16_from_str_radix_def del: div_mult_mod_eq)
  qed
qed

lemma fmt_hex_plain: "CHR '':'' \<notin> set (fmt_hex w)" "fmt_hex w \<noteq> []"
proof -
  have "unat w < 65536" using unat_bound [of w] by simp
  then have b: "unat w div 4096 < 16" "unat w div 16 < 16 \<or> \<not> unat w < 256" "unat w div 256 < 16 \<or> \<not> unat w < 4096"
    by linarith+
  then show "CHR '':'' \<notin> set (fmt_hex w)"
    by (auto simp: fmt_hex_def Let_def dest!: digit_char_plain(2) [THEN notE, rotated 2])
  show "fmt_hex w \<noteq> []" by (simp add: fmt_hex_def Let_def)
qed

lemma parse_words_fmt: "parse_words (map fmt_hex ws) = Inr ws"
  by (induction ws) (simp_all add: fmt_hex_parses)

text \<open>The pieces of a text: nonempty and without the separator.\<close>

definition pieces :: "char \<Rightarrow> string list \<Rightarrow> bool" where
  "pieces c ps \<longleftrightarrow> (\<forall>p \<in> set ps. p \<noteq> [] \<and> c \<notin> set p)"

lemma pieces_fmt: "pieces CHR '':'' (map fmt_hex ws)"
  by (auto simp: pieces_def fmt_hex_plain)

lemma split_join: "ps \<noteq> [] \<Longrightarrow> pieces c ps \<Longrightarrow> split_on c (join_on c ps) = ps"
  by (induction c ps rule: join_on.induct) (auto simp: pieces_def split_on_no_sep split_on_part)

lemma join_append: "xs \<noteq> [] \<Longrightarrow> ys \<noteq> [] \<Longrightarrow> join_on c (xs @ ys) = join_on c xs @ c # join_on c ys"
proof (induction c xs rule: join_on.induct)
  case (2 c p)
  then show ?case by (cases ys) simp_all
qed simp_all

lemma join_first: "pieces c (p # ps) \<Longrightarrow> \<exists>x r. join_on c (p # ps) = x # r \<and> x \<noteq> c"
  by (cases p; cases ps) (auto simp: pieces_def)

lemma split_double_plain:
  "c \<notin> set p \<Longrightarrow> split_double c (p @ s) = (p @ hd (split_double c s)) # tl (split_double c s)"
proof (induction p)
  case Nil
  have "split_double c s \<noteq> []" by (induction c s rule: split_double.induct) (auto simp: Let_def)
  then show ?case by simp
next
  case (Cons x p)
  then show ?case by (cases "p @ s") (auto simp: Let_def)
qed

lemma split_double_join:
  "pieces c ps \<Longrightarrow> split_double c (join_on c ps @ s) =
     (join_on c ps @ hd (split_double c s)) # tl (split_double c s)"
proof (induction c ps rule: join_on.induct)
  case (1 c)
  show ?case using split_double_plain [of c "[]" s] by simp
next
  case (2 c p)
  then show ?case by (simp add: pieces_def split_double_plain)
next
  case (3 c p q ps)
  then have p: "c \<notin> set p" and qs: "pieces c (q # ps)" by (auto simp: pieces_def)
  obtain x r where x: "join_on c (q # ps) = x # r" "x \<noteq> c" using join_first [OF qs] by blast
  have "split_double c (c # join_on c (q # ps) @ s) =
      (c # join_on c (q # ps) @ hd (split_double c s)) # tl (split_double c s)"
    using "3.IH" [OF qs] x by (simp add: Let_def)
  then show ?case using split_double_plain [OF p, of "c # join_on c (q # ps) @ s"] by simp
qed

lemma segments_join: "pieces CHR '':'' ps \<Longrightarrow> ip6_segments (join_on CHR '':'' ps) = ps"
proof (cases ps)
  case (Cons p qs)
  assume "pieces CHR '':'' ps"
  then show ?thesis using join_first [of "CHR '':''" p qs] split_join [of ps] Cons
    by (auto simp: ip6_segments_def)
qed (simp add: ip6_segments_def)

lemma ip6_parts_after:
  "length ws = 8 \<Longrightarrow> 0 < l \<Longrightarrow> s + l \<le> i \<Longrightarrow> i \<le> 8 \<Longrightarrow> ip6_parts ws s l i = map fmt_hex (drop i ws)"
proof (induction "8 - i" arbitrary: i)
  case 0
  then show ?case by (simp add: ip6_parts.simps)
next
  case (Suc n)
  then have "ip6_parts ws s l i = fmt_hex (ws ! i) # map fmt_hex (drop (Suc i) ws)"
    by (simp add: ip6_parts.simps [of ws s l i])
  then show ?case using Suc.hyps(2) Suc.prems by (simp add: Cons_nth_drop_Suc [symmetric])
qed

lemma ip6_parts_before:
  "length ws = 8 \<Longrightarrow> 0 < l \<Longrightarrow> s + l \<le> 8 \<Longrightarrow> i \<le> s \<Longrightarrow>
   ip6_parts ws s l i = map fmt_hex (take (s - i) (drop i ws)) @ (if s = 0 then [[]] else []) @ [[]] @
     (if s + l = 8 then [[]] else []) @ map fmt_hex (drop (s + l) ws)"
proof (induction "s - i" arbitrary: i)
  case 0
  then have "i = s" by simp
  then show ?case using 0 by (simp add: ip6_parts.simps [of ws s l s] ip6_parts_after)
next
  case (Suc n)
  then have "take (s - i) (drop i ws) = ws ! i # take (s - Suc i) (drop (Suc i) ws)"
    by (metis Suc_diff_Suc diff_Suc_Suc le_eq_less_or_eq less_le_trans add_leD1 take_Suc_drop
        zero_less_Suc zero_less_diff)
  moreover have "i < s" "0 < s" "n = s - Suc i" "Suc i \<le> s" using Suc.hyps(2) by linarith+
  ultimately show ?case
    using Suc.hyps(1) [of "Suc i"] Suc.prems by (simp add: ip6_parts.simps [of ws s l i])
qed

lemma ip6_parts_join:
  assumes "length ws = 8" and "2 \<le> l" and "l < 8" and "s + l \<le> 8"
  shows "join_on c (ip6_parts ws s l 0) =
    join_on c (map fmt_hex (take s ws)) @ c # c # join_on c (map fmt_hex (drop (s + l) ws))"
proof -
  have parts: "ip6_parts ws s l 0 = map fmt_hex (take s ws) @ (if s = 0 then [[]] else []) @ [[]] @
      (if s + l = 8 then [[]] else []) @ map fmt_hex (drop (s + l) ws)"
    using ip6_parts_before [of ws l s 0] assms by simp
  show ?thesis
  proof (cases "s = 0")
    case True
    then show ?thesis using parts assms join_append [of "[[], []]" "map fmt_hex (drop l ws)" c] by simp
  next
    case False
    then have "take s ws \<noteq> []" using assms by auto
    then show ?thesis using parts False assms join_append [of "[[]]" "map fmt_hex (drop (s + l) ws)" c]
      by (cases "s + l = 8") (simp_all add: join_append)
  qed
qed

text \<open>The longest run found is a run of zeros.\<close>

definition zero_run_ok :: "u16 list \<Rightarrow> nat \<Rightarrow> nat \<times> nat \<times> nat \<times> nat \<Rightarrow> bool" where
  "zero_run_ok ws i = (\<lambda>(bs, bl, cs, cl). bs + bl \<le> i \<and> (\<forall>j. bs \<le> j \<and> j < bs + bl \<longrightarrow> ws ! j = 0) \<and>
     (0 < cl \<longrightarrow> cs + cl = i \<and> (\<forall>j. cs \<le> j \<and> j < i \<longrightarrow> ws ! j = 0)))"

lemma zero_run_step_ok: "zero_run_ok ws i st \<Longrightarrow> zero_run_ok ws (Suc i) (zero_run_step (i, ws ! i) st)"
  by (cases st) (auto simp: zero_run_ok_def zero_run_step_def Let_def less_Suc_eq)

lemma zero_run: "n \<le> length ws \<Longrightarrow> zero_run_ok ws n (fold zero_run_step (enumerate 0 (take n ws)) (0, 0, 0, 0))"
proof (induction n)
  case (Suc n)
  then show ?case
    by (simp add: take_Suc_conv_app_nth enumerate_append_eq zero_run_step_ok)
qed (simp add: zero_run_ok_def)

lemma ip6_words [simp]: "length (ip6_to_words a) = 8" "ip6_new (ip6_to_words a) = a"
  by (simp add: ip6_to_words_def)
     (cases a, simp add: ip6_new_def ip6_to_words_def upt_rec read_u16_def read16_def)

text \<open>C39: every IPv6 address is read back from its text form: \<open>from_str\<close> accepts what the printer
  writes, with the longest run of zero words compressed or not, and gives the same address.\<close>
theorem ip6_text_roundtrip: "ip6_from_str (ip6_fmt a) = Inr a"
proof -
  define ws where "ws = ip6_to_words a"
  obtain s l cs cl where run: "fold zero_run_step (enumerate 0 ws) (0, 0, 0, 0) = (s, l, cs, cl)"
    by (rule prod_cases4)
  have len: "length ws = 8" by (simp add: ws_def)
  have ok: "s + l \<le> 8" "\<forall>j. s \<le> j \<and> j < s + l \<longrightarrow> ws ! j = 0"
    using zero_run [of 8 ws] run len by (auto simp: zero_run_ok_def)
  have new: "ip6_new ws = a" by (simp add: ws_def)
  consider "l \<le> 1" | "l = 8" | "2 \<le> l" "l < 8" using ok by linarith
  then show ?thesis
  proof cases
    case 1
    define t where "t = join_on CHR '':'' (map fmt_hex ws)"
    have t: "ip6_fmt a = t" using 1 run by (simp add: ip6_fmt_def ws_def [symmetric] t_def)
    obtain w ws' where ws: "ws = w # ws'" using len by (cases ws) auto
    have "split_double CHR '':'' t = [t]"
      using split_double_join [OF pieces_fmt, of ws "[]"] by (simp add: t_def)
    moreover have "t \<noteq> ''::''"
      using join_first [OF pieces_fmt [of "w # ws'", simplified]] by (auto simp: t_def ws)
    moreover have "split_on CHR '':'' t = map fmt_hex ws"
      unfolding t_def using len by (intro split_join) (auto simp: pieces_fmt)
    ultimately show ?thesis
      using len new by (simp add: t ip6_from_str_def parse_words_fmt)
  next
    case 2
    have f: "ip6_fmt a = ''::''" using 2 run by (simp add: ip6_fmt_def ws_def [symmetric])
    have "s = 0" using ok 2 by simp
    then have "ws = replicate 8 0" using ok 2 len by (intro nth_equalityI) simp_all
    then have "a = ip6_UNSPECIFIED"
      using new by (auto simp: ip6_new_def ip6_UNSPECIFIED_def u16_to_be_def read16_def numeral_eq_Suc)
    then show ?thesis using f by (simp add: ip6_from_str_def)
  next
    case 3
    define L R where "L = map fmt_hex (take s ws)" and "R = map fmt_hex (drop (s + l) ws)"
    define t where "t = join_on CHR '':'' L @ CHR '':'' # CHR '':'' # join_on CHR '':'' R"
    have t: "ip6_fmt a = t"
      using 3 run ip6_parts_join [OF len 3 ok(1), of "CHR '':''"]
      by (simp add: ip6_fmt_def ws_def [symmetric] t_def L_def R_def)
    have LR: "pieces CHR '':'' L" "pieces CHR '':'' R" by (simp_all add: L_def R_def pieces_fmt)
    have n: "length L = s" "length R = 8 - (s + l)" using ok len by (simp_all add: L_def R_def)
    have sd: "split_double CHR '':'' t = [join_on CHR '':'' L, join_on CHR '':'' R]"
      using split_double_join [OF LR(1), of "CHR '':'' # CHR '':'' # join_on CHR '':'' R"]
        split_double_join [OF LR(2), of "[]"] by (simp add: t_def)
    have "t \<noteq> ''::''"
    proof
      assume "t = ''::''"
      then have "join_on CHR '':'' L = [] \<and> join_on CHR '':'' R = []"
        by (auto simp: t_def append_eq_Cons_conv)
      then have "L = [] \<and> R = []"
        using segments_join [OF LR(1)] segments_join [OF LR(2)] by (simp add: ip6_segments_def)
      then show False using n 3 ok by simp
    qed
    moreover have "take s ws @ replicate l 0 @ drop (s + l) ws = ws"
    proof -
      have "take l (drop s ws) = replicate l 0"
        using ok len by (intro nth_equalityI) simp_all
      then show ?thesis by (metis append_take_drop_id add.commute drop_drop)
    qed
    ultimately show ?thesis
      using sd n 3 ok new segments_join [OF LR(1)] segments_join [OF LR(2)]
      by (simp add: t ip6_from_str_def) (simp add: L_def R_def parse_words_fmt)
  qed
qed

end
