(* ===== verification/RouterV6.thy ===== *)
theory RouterV6
  imports Router Ipv6
begin

unbundle bit_operations_syntax

text \<open>
  The IPv6 routing table (\<open>router_ipv6.rs\<close>): route entries with masked destinations, installation
  with and without replacement, withdrawal, and longest-prefix lookup, where a stable hash of the
  destination or of the flow picks one of the equally good routes.
\<close>

section \<open>Flow hashes\<close>

definition mask_address :: "Ipv6Address \<Rightarrow> u8 \<Rightarrow> Ipv6Address" where
  "mask_address address prefix_len =
     (let prefix_len = min prefix_len 128;
          bytes = bytes16 address;
          whole = unat (prefix_len div 8);
          rem = prefix_len mod 8;
          bytes = (if rem \<noteq> 0 \<and> whole < length bytes
                   then bytes[whole := bytes ! whole AND push_bit (8 - unat rem) 0xff] else bytes);
          clear_from = whole + (if rem \<noteq> 0 then 1 else 0)
      in read16 0 (take clear_from bytes @ replicate (length bytes - clear_from) 0))"

fun fnv1a_extend6 :: "u64 \<Rightarrow> bytes \<Rightarrow> u64" where
  "fnv1a_extend6 hash [] = hash"
| "fnv1a_extend6 hash (byte # rest) = fnv1a_extend6 ((hash XOR ucast byte) * 0x00000100000001b3) rest"

definition destination_affinity_hash :: "Ipv6Address \<Rightarrow> u64" where
  "destination_affinity_hash destination = fnv1a_extend6 0xcbf29ce484222325 (bytes16 destination)"

record Ipv6FlowKey =
  flow6_source :: Ipv6Address
  flow6_destination :: Ipv6Address
  flow6_next_header :: u8
  flow6_source_port :: u16
  flow6_destination_port :: u16

definition stable_hash6 :: "Ipv6FlowKey \<Rightarrow> u64" where
  "stable_hash6 k =
     (let hash = fnv1a_extend6 0xcbf29ce484222325 (bytes16 (flow6_source k));
          hash = fnv1a_extend6 hash (bytes16 (flow6_destination k));
          hash = fnv1a_extend6 hash [flow6_next_header k];
          hash = fnv1a_extend6 hash (u16_to_be (flow6_source_port k))
      in fnv1a_extend6 hash (u16_to_be (flow6_destination_port k)))"

section \<open>Routes and the table\<close>

record Ipv6RouteEntry =
  r6_destination :: Ipv6Address
  r6_prefix_len :: u8
  r6_gateway :: "Ipv6Address option"
  r6_interface :: bytes
  r6_source :: RouteSource

definition route6_with_source ::
  "Ipv6Address \<Rightarrow> u8 \<Rightarrow> Ipv6Address option \<Rightarrow> bytes \<Rightarrow> RouteSource \<Rightarrow> Ipv6RouteEntry" where
  "route6_with_source destination prefix_len gateway interface source =
     (let prefix_len = min prefix_len 128
      in \<lparr> r6_destination = mask_address destination prefix_len, r6_prefix_len = prefix_len,
           r6_gateway = gateway, r6_interface = interface, r6_source = source \<rparr>)"

definition route6_new :: "Ipv6Address \<Rightarrow> u8 \<Rightarrow> Ipv6Address option \<Rightarrow> bytes \<Rightarrow> Ipv6RouteEntry" where
  "route6_new destination prefix_len gateway interface =
     route6_with_source destination prefix_len gateway interface Static"

definition route6_matches :: "Ipv6RouteEntry \<Rightarrow> Ipv6Address \<Rightarrow> bool" where
  "route6_matches r address \<longleftrightarrow> mask_address address (r6_prefix_len r) = r6_destination r"

definition route6_next_hop :: "Ipv6RouteEntry \<Rightarrow> Ipv6Address \<Rightarrow> Ipv6Address" where
  "route6_next_hop r destination = (case r6_gateway r of None \<Rightarrow> destination | Some g \<Rightarrow> g)"

definition route6_distance :: "Ipv6RouteEntry \<Rightarrow> u8" where
  "route6_distance r = source_distance (r6_source r)"

record Ipv6RoutingTable =
  rt6_routes :: "Ipv6RouteEntry list"

definition table6_new :: Ipv6RoutingTable where
  "table6_new = \<lparr> rt6_routes = [] \<rparr>"

definition route6_order :: "Ipv6RouteEntry \<Rightarrow> Ipv6RouteEntry \<Rightarrow> cmp_ordering" where
  "route6_order a b =
     cmp_then (cmp_of (r6_prefix_len b) (r6_prefix_len a)) (cmp_of (route6_distance a) (route6_distance b))"

definition table6_sort :: "Ipv6RoutingTable \<Rightarrow> Ipv6RoutingTable" where
  "table6_sort t = t\<lparr> rt6_routes := sort_by route6_order (rt6_routes t) \<rparr>"

definition same_prefix_source6 :: "Ipv6Address \<times> u8 \<Rightarrow> RouteSource \<Rightarrow> Ipv6RouteEntry \<Rightarrow> bool" where
  "same_prefix_source6 key source r \<longleftrightarrow> (r6_destination r, r6_prefix_len r) = key \<and> r6_source r = source"

definition add_route_from6 ::
  "Ipv6Address \<Rightarrow> u8 \<Rightarrow> Ipv6Address option \<Rightarrow> bytes \<Rightarrow> RouteSource \<Rightarrow> Ipv6RoutingTable \<Rightarrow> Ipv6RoutingTable" where
  "add_route_from6 destination prefix_len gateway interface source t =
     (let entry = route6_with_source destination prefix_len gateway interface source;
          key = (r6_destination entry, r6_prefix_len entry)
      in table6_sort
           (t\<lparr> rt6_routes := (case replace_first (same_prefix_source6 key source) entry (rt6_routes t) of
                                Some rs \<Rightarrow> rs | None \<Rightarrow> rt6_routes t @ [entry]) \<rparr>))"

definition add_route6 ::
  "Ipv6Address \<Rightarrow> u8 \<Rightarrow> Ipv6Address option \<Rightarrow> bytes \<Rightarrow> Ipv6RoutingTable \<Rightarrow> Ipv6RoutingTable" where
  "add_route6 destination prefix_len gateway interface t =
     add_route_from6 destination prefix_len gateway interface Static t"

definition add_multipath_route_from6 ::
  "Ipv6Address \<Rightarrow> u8 \<Rightarrow> Ipv6Address option \<Rightarrow> bytes \<Rightarrow> RouteSource \<Rightarrow> Ipv6RoutingTable \<Rightarrow> Ipv6RoutingTable" where
  "add_multipath_route_from6 destination prefix_len gateway interface source t =
     (let entry = route6_with_source destination prefix_len gateway interface source;
          duplicate = list_ex (\<lambda>route.
            r6_destination route = r6_destination entry \<and> r6_prefix_len route = r6_prefix_len entry \<and>
            r6_gateway route = r6_gateway entry \<and> r6_interface route = r6_interface entry \<and>
            r6_source route = r6_source entry) (rt6_routes t)
      in if \<not> duplicate then table6_sort (t\<lparr> rt6_routes := rt6_routes t @ [entry] \<rparr>) else t)"

definition remove_route6 :: "Ipv6Address \<Rightarrow> u8 \<Rightarrow> RouteSource \<Rightarrow> Ipv6RoutingTable \<Rightarrow> bool \<times> Ipv6RoutingTable" where
  "remove_route6 destination prefix_len source t =
     (let key = (mask_address destination prefix_len, min prefix_len 128);
          before = length (rt6_routes t);
          t = t\<lparr> rt6_routes := filter (\<lambda>r. \<not> same_prefix_source6 key source r) (rt6_routes t) \<rparr>
      in (length (rt6_routes t) \<noteq> before, t))"

definition remove_route_via6 ::
  "Ipv6Address \<Rightarrow> u8 \<Rightarrow> Ipv6Address option \<Rightarrow> bytes \<Rightarrow> RouteSource \<Rightarrow> Ipv6RoutingTable \<Rightarrow>
   bool \<times> Ipv6RoutingTable" where
  "remove_route_via6 destination prefix_len gateway interface source t =
     (let key = (mask_address destination prefix_len, min prefix_len 128);
          before = length (rt6_routes t);
          t = t\<lparr> rt6_routes := filter (\<lambda>route.
                 \<not> ((r6_destination route, r6_prefix_len route) = key \<and> r6_gateway route = gateway \<and>
                    r6_interface route = interface \<and> r6_source route = source)) (rt6_routes t) \<rparr>
      in (length (rt6_routes t) \<noteq> before, t))"

definition remove_all_from6 :: "RouteSource \<Rightarrow> Ipv6RoutingTable \<Rightarrow> nat \<times> Ipv6RoutingTable" where
  "remove_all_from6 source t =
     (let before = length (rt6_routes t);
          t = t\<lparr> rt6_routes := filter (\<lambda>r. r6_source r \<noteq> source) (rt6_routes t) \<rparr>
      in (before - length (rt6_routes t), t))"

text \<open>The candidates that tie with \<open>best\<close>, and the choice among them by a hash.\<close>

definition tied_routes :: "Ipv6RoutingTable \<Rightarrow> Ipv6Address \<Rightarrow> Ipv6RouteEntry \<Rightarrow> Ipv6RouteEntry list" where
  "tied_routes t destination best =
     filter (\<lambda>route. route6_matches route destination \<and> r6_prefix_len route = r6_prefix_len best \<and>
                     route6_distance route = route6_distance best) (rt6_routes t)"

definition pick_route :: "Ipv6RoutingTable \<Rightarrow> Ipv6Address \<Rightarrow> u64 \<Rightarrow> Ipv6RouteEntry \<Rightarrow> Ipv6RouteEntry option" where
  "pick_route t destination hash best =
     (let candidates = tied_routes t destination best;
          index = unat hash mod length candidates
      in if index < length candidates then Some (candidates ! index) else None)"

definition route6_lookup :: "Ipv6RoutingTable \<Rightarrow> Ipv6Address \<Rightarrow> Ipv6RouteEntry option" where
  "route6_lookup t destination =
     (case List.find (\<lambda>route. route6_matches route destination) (rt6_routes t) of
        None \<Rightarrow> None
      | Some best \<Rightarrow> pick_route t destination (destination_affinity_hash destination) best)"

definition lookup_best_routes6 :: "Ipv6RoutingTable \<Rightarrow> Ipv6Address \<Rightarrow> Ipv6RouteEntry list" where
  "lookup_best_routes6 t destination =
     (case route6_lookup t destination of None \<Rightarrow> [] | Some best \<Rightarrow> tied_routes t destination best)"

definition lookup_best_route_by_hash6 :: "Ipv6RoutingTable \<Rightarrow> Ipv6Address \<Rightarrow> u64 \<Rightarrow> Ipv6RouteEntry option" where
  "lookup_best_route_by_hash6 t destination flow_hash =
     (case route6_lookup t destination of
        None \<Rightarrow> None | Some best \<Rightarrow> pick_route t destination flow_hash best)"

definition lookup_best_route_for_flow6 :: "Ipv6RoutingTable \<Rightarrow> Ipv6FlowKey \<Rightarrow> Ipv6RouteEntry option" where
  "lookup_best_route_for_flow6 t flow =
     lookup_best_route_by_hash6 t (flow6_destination flow) (stable_hash6 flow)"

definition find_exact6 :: "Ipv6RoutingTable \<Rightarrow> Ipv6Address \<Rightarrow> u8 \<Rightarrow> Ipv6RouteEntry option" where
  "find_exact6 t destination prefix_len =
     (let key = (mask_address destination prefix_len, min prefix_len 128)
      in List.find (\<lambda>route. (r6_destination route, r6_prefix_len route) = key) (rt6_routes t))"

definition routes_from6 :: "Ipv6RoutingTable \<Rightarrow> RouteSource \<Rightarrow> Ipv6RouteEntry list" where
  "routes_from6 t source = filter (\<lambda>r. r6_source r = source) (rt6_routes t)"

section \<open>The table invariant\<close>

lemma mask_address_eq: "mask_address = ip6_mask"
  by (simp add: fun_eq_iff mask_address_def ip6_mask_def)

definition table6_inv :: "Ipv6RoutingTable \<Rightarrow> bool" where
  "table6_inv t \<longleftrightarrow> sorted_wrt (\<lambda>x y. route6_order x y \<noteq> OGreater) (rt6_routes t) \<and>
     (\<forall>r \<in> set (rt6_routes t). r6_prefix_len r \<le> 128 \<and>
        ip6_mask (r6_destination r) (r6_prefix_len r) = r6_destination r)"

interpretation route6_order: comparator route6_order
proof -
  have "comparator (\<lambda>a b. cmp_of (r6_prefix_len b) (r6_prefix_len a))"
    by (rule comparator_flip [OF comparator_map [OF cmp_of.comparator_axioms]])
  moreover have "comparator (\<lambda>a b. cmp_of (route6_distance a) (route6_distance b))"
    by (rule comparator_map [OF cmp_of.comparator_axioms])
  ultimately show "comparator route6_order"
    unfolding route6_order_def by (rule comparator_then)
qed

lemma route6_order_le:
  "route6_order a b \<noteq> OGreater \<longleftrightarrow>
     r6_prefix_len b < r6_prefix_len a \<or>
     r6_prefix_len a = r6_prefix_len b \<and> route6_distance a \<le> route6_distance b"
  by (auto simp: route6_order_def cmp_then_simps cmp_of_simps)

datatype route6_op =
    AddRoute6 Ipv6Address u8 "Ipv6Address option" bytes RouteSource
  | AddMultipath6 Ipv6Address u8 "Ipv6Address option" bytes RouteSource
  | RemoveRoute6 Ipv6Address u8 RouteSource
  | RemoveVia6 Ipv6Address u8 "Ipv6Address option" bytes RouteSource
  | RemoveAll6 RouteSource

fun route6_step :: "Ipv6RoutingTable \<Rightarrow> route6_op \<Rightarrow> Ipv6RoutingTable" where
  "route6_step t (AddRoute6 d p g i s) = add_route_from6 d p g i s t"
| "route6_step t (AddMultipath6 d p g i s) = add_multipath_route_from6 d p g i s t"
| "route6_step t (RemoveRoute6 d p s) = snd (remove_route6 d p s t)"
| "route6_step t (RemoveVia6 d p g i s) = snd (remove_route_via6 d p g i s t)"
| "route6_step t (RemoveAll6 s) = snd (remove_all_from6 s t)"

lemma table6_inv_sort:
  "(\<forall>r \<in> set rs. r6_prefix_len r \<le> 128 \<and> ip6_mask (r6_destination r) (r6_prefix_len r) = r6_destination r) \<Longrightarrow>
   table6_inv (table6_sort (t\<lparr> rt6_routes := rs \<rparr>))"
  by (simp add: table6_inv_def table6_sort_def route6_order.sorted_sort_by)

lemma table6_inv_filter: "table6_inv t \<Longrightarrow> table6_inv (t\<lparr> rt6_routes := filter P (rt6_routes t) \<rparr>)"
  by (auto simp: table6_inv_def sorted_wrt_filter)

lemma route6_wf_new [simp]:
  "r6_prefix_len (route6_with_source d p g i s) \<le> 128"
  "ip6_mask (r6_destination (route6_with_source d p g i s)) (r6_prefix_len (route6_with_source d p g i s)) =
     r6_destination (route6_with_source d p g i s)"
  by (simp_all add: route6_with_source_def Let_def mask_address_eq)

interpretation routing6: stepper route6_step table6_inv
proof
  fix t op assume inv: "table6_inv t"
  then have wf: "\<forall>r \<in> set (rt6_routes t). r6_prefix_len r \<le> 128 \<and>
      ip6_mask (r6_destination r) (r6_prefix_len r) = r6_destination r"
    by (simp add: table6_inv_def)
  show "table6_inv (route6_step t op)"
  proof (cases op)
    case (AddRoute6 d p g i s)
    then show ?thesis using wf replace_first_set
      by (fastforce simp: add_route_from6_def Let_def intro!: table6_inv_sort split: option.splits)
  next
    case (AddMultipath6 d p g i s)
    then show ?thesis using wf inv
      by (auto simp: add_multipath_route_from6_def Let_def intro!: table6_inv_sort)
  qed (auto simp: remove_route6_def remove_route_via6_def remove_all_from6_def Let_def
      intro: table6_inv_filter [OF inv])
qed

lemma table6_inv_run: "table6_inv (foldl route6_step table6_new ops)"
  by (rule routing6.run_inv) (simp add: table6_inv_def table6_new_def)

section \<open>Longest prefix match\<close>

text \<open>\<open>r\<close> is one of the best routes of \<open>t\<close> for the address \<open>ip\<close>.\<close>

definition best_route6 :: "Ipv6RoutingTable \<Rightarrow> Ipv6Address \<Rightarrow> Ipv6RouteEntry \<Rightarrow> bool" where
  "best_route6 t ip r \<longleftrightarrow> r \<in> set (rt6_routes t) \<and> ip6_mask ip (r6_prefix_len r) = r6_destination r \<and>
     (\<forall>x \<in> set (rt6_routes t). ip6_mask ip (r6_prefix_len x) = r6_destination x \<longrightarrow>
        r6_prefix_len x < r6_prefix_len r \<or>
        r6_prefix_len x = r6_prefix_len r \<and> route6_distance r \<le> route6_distance x)"

lemma find_best6:
  assumes "table6_inv t" "List.find (\<lambda>route. route6_matches route ip) (rt6_routes t) = Some r"
  shows "best_route6 t ip r"
proof -
  have "sorted_wrt (\<lambda>x y. route6_order x y \<noteq> OGreater) (rt6_routes t)"
    using assms(1) by (simp add: table6_inv_def)
  from sorted_find [OF this assms(2)] show ?thesis
    unfolding route6_order_le best_route6_def route6_matches_def mask_address_eq by auto
qed

lemma set_tied:
  assumes r: "best_route6 t ip r"
  shows "set (tied_routes t ip r) = {x. best_route6 t ip x}"
proof (intro set_eqI iffI CollectI)
  fix x assume "x \<in> set (tied_routes t ip r)"
  then show "best_route6 t ip x"
    using r by (auto simp: best_route6_def tied_routes_def route6_matches_def mask_address_eq)
next
  fix x assume "x \<in> {x. best_route6 t ip x}"
  then have x: "best_route6 t ip x" by simp
  have "r6_prefix_len x < r6_prefix_len r \<or>
      r6_prefix_len x = r6_prefix_len r \<and> route6_distance r \<le> route6_distance x"
    using r x unfolding best_route6_def by blast
  moreover have "r6_prefix_len r < r6_prefix_len x \<or>
      r6_prefix_len r = r6_prefix_len x \<and> route6_distance x \<le> route6_distance r"
    using r x unfolding best_route6_def by blast
  ultimately have "r6_prefix_len x = r6_prefix_len r" "route6_distance x = route6_distance r"
    by (metis less_asym, metis less_asym less_irrefl antisym)
  then show "x \<in> set (tied_routes t ip r)"
    using x by (simp add: best_route6_def tied_routes_def route6_matches_def mask_address_eq)
qed

lemma pick_best: "best_route6 t ip r \<Longrightarrow> \<exists>s. pick_route t ip h r = Some s \<and> best_route6 t ip s"
proof -
  assume r: "best_route6 t ip r"
  then have "r \<in> set (tied_routes t ip r)" by (simp add: set_tied)
  then have "unat h mod length (tied_routes t ip r) < length (tied_routes t ip r)"
    by (cases "tied_routes t ip r") simp_all
  then show ?thesis using set_tied [OF r] nth_mem by (fastforce simp: pick_route_def Let_def)
qed

lemma lookup_best6:
  assumes "table6_inv t"
  shows "(\<exists>r. route6_lookup t ip = Some r \<and> best_route6 t ip r) \<or>
    (route6_lookup t ip = None \<and> (\<forall>x \<in> set (rt6_routes t). ip6_mask ip (r6_prefix_len x) \<noteq> r6_destination x))"
proof (cases "List.find (\<lambda>route. route6_matches route ip) (rt6_routes t)")
  case None
  then have "route6_lookup t ip = None" by (simp add: route6_lookup_def)
  then show ?thesis using None by (auto simp: find_None_iff route6_matches_def mask_address_eq)
next
  case (Some r)
  then show ?thesis
    using pick_best [OF find_best6 [OF assms Some], of "destination_affinity_hash ip"]
    by (auto simp: route6_lookup_def)
qed

text \<open>C38: IPv6 forwarding follows the longest prefix, and hashing only chooses among the best: after
  any sequence of installs and withdrawals a lookup, by destination or with any flow hash, returns a
  route whose prefix contains the address such that no route containing it has a longer prefix, or the
  same length and a lower administrative distance; every such best route is listed by
  \<open>lookup_best_routes\<close>, and nothing is found exactly when no prefix contains the address.\<close>
theorem route6_lookup_longest_prefix:
  assumes t_def: "t = foldl route6_step table6_new ops"
  shows "(\<forall>r. route6_lookup t ip = Some r \<longrightarrow> best_route6 t ip r) \<and>
    (\<forall>r h. lookup_best_route_by_hash6 t ip h = Some r \<longrightarrow> best_route6 t ip r) \<and>
    set (lookup_best_routes6 t ip) = {r. best_route6 t ip r} \<and>
    (\<forall>h. route6_lookup t ip = None \<longleftrightarrow> lookup_best_route_by_hash6 t ip h = None) \<and>
    (route6_lookup t ip = None \<longleftrightarrow>
       (\<forall>x \<in> set (rt6_routes t). ip6_mask ip (r6_prefix_len x) \<noteq> r6_destination x))"
proof -
  have inv: "table6_inv t" unfolding t_def by (rule table6_inv_run)
  from lookup_best6 [OF inv, of ip] show ?thesis
  proof (elim disjE exE conjE)
    fix r assume r: "route6_lookup t ip = Some r" "best_route6 t ip r"
    have "\<exists>s. lookup_best_route_by_hash6 t ip h = Some s \<and> best_route6 t ip s" for h
      using pick_best [OF r(2), of h] r(1) by (simp add: lookup_best_route_by_hash6_def)
    moreover have "set (lookup_best_routes6 t ip) = {r. best_route6 t ip r}"
      using set_tied [OF r(2)] r(1) by (simp add: lookup_best_routes6_def)
    moreover have "\<not> (\<forall>x \<in> set (rt6_routes t). ip6_mask ip (r6_prefix_len x) \<noteq> r6_destination x)"
      using r(2) by (auto simp: best_route6_def)
    ultimately show ?thesis
      using r by (metis option.distinct(1) option.inject)
  next
    assume "route6_lookup t ip = None"
      "\<forall>x \<in> set (rt6_routes t). ip6_mask ip (r6_prefix_len x) \<noteq> r6_destination x"
    then show ?thesis
      by (auto simp: lookup_best_route_by_hash6_def lookup_best_routes6_def best_route6_def)
  qed
qed

theorem route6_lookup_longest_prefix_witness:
  "let ops = [AddRoute6 ip6_UNSPECIFIED 0 (Some (O16 0xfe 0x80 0 0 0 0 0 0 0 0 0 0 0 0 0 1)) [101] Static,
              AddRoute6 ip6_LOOPBACK 128 None [102] Connected];
       t = foldl route6_step table6_new ops;
       r = route6_with_source ip6_LOOPBACK 128 None [102] Connected
   in route6_lookup t ip6_LOOPBACK = Some r \<and> best_route6 t ip6_LOOPBACK r"
proof -
  let ?ops = "[AddRoute6 ip6_UNSPECIFIED 0 (Some (O16 0xfe 0x80 0 0 0 0 0 0 0 0 0 0 0 0 0 1)) [101] Static,
              AddRoute6 ip6_LOOPBACK 128 None [102] Connected]"
  have "route6_lookup (foldl route6_step table6_new ?ops) ip6_LOOPBACK =
      Some (route6_with_source ip6_LOOPBACK 128 None [102] Connected)"
    by (simp add: add_route_from6_def table6_new_def table6_sort_def route6_with_source_def
        same_prefix_source6_def route6_order_def cmp_of_def route6_lookup_def route6_matches_def
        pick_route_def tied_routes_def mask_address_eq ip6_mask_full route6_distance_def Let_def min_def)
  with route6_lookup_longest_prefix [OF refl, of ?ops ip6_LOOPBACK] show ?thesis
    unfolding Let_def by blast
qed

end
