(* ===== verification/Icmpv6.thy ===== *)
theory Icmpv6
  imports Ipv6 Ethernet
begin

unbundle bit_operations_syntax

text \<open>
  ICMPv6 and Neighbor Discovery messages (\<open>icmpv6.rs\<close>): the packet parser with its checksum, the
  validation of solicitations, advertisements, redirects and router advertisements, the option
  lists, and the builders.  What a builder writes is accepted by the parser and the validator of
  its message and means the same.  A \<open>String\<close> is the list of its UTF-8 bytes.
\<close>

section \<open>Constants and options\<close>

definition ICMPV6_TYPE_DEST_UNREACHABLE :: u8 where "ICMPV6_TYPE_DEST_UNREACHABLE = 1"
definition ICMPV6_TYPE_PACKET_TOO_BIG :: u8 where "ICMPV6_TYPE_PACKET_TOO_BIG = 2"
definition ICMPV6_TYPE_TIME_EXCEEDED :: u8 where "ICMPV6_TYPE_TIME_EXCEEDED = 3"
definition ICMPV6_TYPE_ECHO_REQUEST :: u8 where "ICMPV6_TYPE_ECHO_REQUEST = 128"
definition ICMPV6_TYPE_ECHO_REPLY :: u8 where "ICMPV6_TYPE_ECHO_REPLY = 129"
definition ICMPV6_TYPE_ROUTER_SOLICIT :: u8 where "ICMPV6_TYPE_ROUTER_SOLICIT = 133"
definition ICMPV6_TYPE_ROUTER_ADVERT :: u8 where "ICMPV6_TYPE_ROUTER_ADVERT = 134"
definition ICMPV6_TYPE_NEIGHBOR_SOLICIT :: u8 where "ICMPV6_TYPE_NEIGHBOR_SOLICIT = 135"
definition ICMPV6_TYPE_NEIGHBOR_ADVERT :: u8 where "ICMPV6_TYPE_NEIGHBOR_ADVERT = 136"
definition ICMPV6_TYPE_REDIRECT :: u8 where "ICMPV6_TYPE_REDIRECT = 137"

lemmas icmpv6_types = ICMPV6_TYPE_DEST_UNREACHABLE_def ICMPV6_TYPE_PACKET_TOO_BIG_def
  ICMPV6_TYPE_TIME_EXCEEDED_def ICMPV6_TYPE_ECHO_REQUEST_def ICMPV6_TYPE_ECHO_REPLY_def
  ICMPV6_TYPE_ROUTER_SOLICIT_def ICMPV6_TYPE_ROUTER_ADVERT_def ICMPV6_TYPE_NEIGHBOR_SOLICIT_def
  ICMPV6_TYPE_NEIGHBOR_ADVERT_def ICMPV6_TYPE_REDIRECT_def

definition NDP_OPT_SRC_LINK_LAYER_ADDR :: u8 where "NDP_OPT_SRC_LINK_LAYER_ADDR = 1"
definition NDP_OPT_TARGET_LINK_LAYER_ADDR :: u8 where "NDP_OPT_TARGET_LINK_LAYER_ADDR = 2"
definition NDP_OPT_PREFIX_INFORMATION :: u8 where "NDP_OPT_PREFIX_INFORMATION = 3"
definition NDP_OPT_REDIRECTED_HEADER :: u8 where "NDP_OPT_REDIRECTED_HEADER = 4"
definition NDP_OPT_MTU :: u8 where "NDP_OPT_MTU = 5"
definition NDP_OPT_ROUTE_INFORMATION :: u8 where "NDP_OPT_ROUTE_INFORMATION = 24"
definition NDP_OPT_RDNSS :: u8 where "NDP_OPT_RDNSS = 25"
definition NDP_OPT_DNSSL :: u8 where "NDP_OPT_DNSSL = 31"

lemmas ndp_opts = NDP_OPT_SRC_LINK_LAYER_ADDR_def NDP_OPT_TARGET_LINK_LAYER_ADDR_def
  NDP_OPT_PREFIX_INFORMATION_def NDP_OPT_REDIRECTED_HEADER_def NDP_OPT_MTU_def
  NDP_OPT_ROUTE_INFORMATION_def NDP_OPT_RDNSS_def NDP_OPT_DNSSL_def

record RdnssOption =
  rdnss_lifetime :: u32
  rdnss_servers :: "Ipv6Address list"

record DnsslOption =
  dnssl_lifetime :: u32
  dnssl_search_list :: "bytes list"

record PrefixInformationOption =
  pio_prefix_length :: u8
  pio_on_link :: bool
  pio_autonomous :: bool
  pio_valid_lifetime :: u32
  pio_preferred_lifetime :: u32
  pio_prefix :: Ipv6Address

definition pio_new :: "Ipv6Address \<Rightarrow> u8 \<Rightarrow> bool \<Rightarrow> bool \<Rightarrow> u32 \<Rightarrow> u32 \<Rightarrow> PrefixInformationOption" where
  "pio_new prefix prefix_length on_link autonomous valid_lifetime preferred_lifetime =
     (let prefix_length = min prefix_length 128
      in \<lparr> pio_prefix_length = prefix_length, pio_on_link = on_link, pio_autonomous = autonomous,
           pio_valid_lifetime = valid_lifetime,
           pio_preferred_lifetime = min preferred_lifetime valid_lifetime,
           pio_prefix = ip6_mask prefix prefix_length \<rparr>)"

datatype RouterPreference = RpLow | RpMedium | RpHigh

instantiation RouterPreference :: linorder
begin

fun pref_rank :: "RouterPreference \<Rightarrow> nat" where
  "pref_rank RpLow = 0" | "pref_rank RpMedium = 1" | "pref_rank RpHigh = 2"

definition less_eq_RouterPreference :: "RouterPreference \<Rightarrow> RouterPreference \<Rightarrow> bool" where
  "less_eq_RouterPreference a b \<longleftrightarrow> pref_rank a \<le> pref_rank b"

definition less_RouterPreference :: "RouterPreference \<Rightarrow> RouterPreference \<Rightarrow> bool" where
  "less_RouterPreference a b \<longleftrightarrow> pref_rank a < pref_rank b"

instance
proof
  fix x y :: RouterPreference
  show "x \<le> y \<Longrightarrow> y \<le> x \<Longrightarrow> x = y" by (cases x; cases y) (simp_all add: less_eq_RouterPreference_def)
qed (auto simp: less_eq_RouterPreference_def less_RouterPreference_def)

end

definition from_ra_flags :: "u8 \<Rightarrow> RouterPreference" where
  "from_ra_flags flags =
     (let v = drop_bit 3 flags AND 0x03 in if v = 1 then RpHigh else if v = 3 then RpLow else RpMedium)"

definition from_rio_flags :: "u8 \<Rightarrow> RouterPreference option" where
  "from_rio_flags flags =
     (let v = drop_bit 3 flags AND 0x03
      in if v = 0 then Some RpMedium else if v = 1 then Some RpHigh else if v = 3 then Some RpLow else None)"

fun ra_flags :: "RouterPreference \<Rightarrow> u8" where
  "ra_flags RpHigh = 0x08" | "ra_flags RpMedium = 0x00" | "ra_flags RpLow = 0x18"

record RouteInformationOption =
  rio_prefix_length :: u8
  rio_preference :: RouterPreference
  rio_route_lifetime :: u32
  rio_prefix :: Ipv6Address

definition rio_new :: "Ipv6Address \<Rightarrow> u8 \<Rightarrow> RouterPreference \<Rightarrow> u32 \<Rightarrow> RouteInformationOption" where
  "rio_new prefix prefix_length preference route_lifetime =
     (let prefix_length = min prefix_length 128
      in \<lparr> rio_prefix_length = prefix_length, rio_preference = preference,
           rio_route_lifetime = route_lifetime, rio_prefix = ip6_mask prefix prefix_length \<rparr>)"

definition rio_length_units :: "RouteInformationOption \<Rightarrow> u8" where
  "rio_length_units r =
     (if rio_prefix_length r = 0 then 1 else if rio_prefix_length r \<le> 64 then 2 else 3)"

definition rio_append_to :: "RouteInformationOption \<Rightarrow> bytes" where
  "rio_append_to r =
     (let units = rio_length_units r;
          prefix_octets = (unat units - 1) * 8
      in [NDP_OPT_ROUTE_INFORMATION, units, rio_prefix_length r, ra_flags (rio_preference r)] @
         u32_to_be (rio_route_lifetime r) @ take prefix_octets (bytes16 (rio_prefix r)))"

record RouterAdvertisement =
  ra_current_hop_limit :: u8
  ra_managed :: bool
  ra_other_config :: bool
  ra_preference :: RouterPreference
  ra_router_lifetime :: u16
  ra_reachable_time :: u32
  ra_retrans_timer :: u32
  ra_mtu :: "u32 option"
  ra_prefixes :: "PrefixInformationOption list"
  ra_routes :: "RouteInformationOption list"
  ra_rdnss :: "RdnssOption list"
  ra_dnssl :: "DnsslOption list"

record RedirectMessage =
  rm_target :: Ipv6Address
  rm_destination :: Ipv6Address
  rm_target_link_layer_address :: "MacAddress option"
  rm_redirected_source :: "Ipv6Address option"
  rm_redirected_destination :: "Ipv6Address option"

definition ipv6_multicast_mac :: "Ipv6Address \<Rightarrow> MacAddress option" where
  "ipv6_multicast_mac address =
     (if \<not> ip6_is_multicast address then None
      else let b = bytes16 address in Some (O6 0x33 0x33 (b ! 12) (b ! 13) (b ! 14) (b ! 15)))"

definition slaac_address :: "Ipv6Address \<Rightarrow> u8 \<Rightarrow> MacAddress \<Rightarrow> Ipv6Address option" where
  "slaac_address prefix prefix_length mac =
     (if prefix_length \<noteq> 64 then None
      else let b = bytes16 (ip6_mask prefix 64); m = bytes6 mac
           in Some (read16 0 (take 8 b @ [m ! 0 XOR 0x02, m ! 1, m ! 2, 0xff, 0xfe, m ! 3, m ! 4, m ! 5])))"

definition link_local_address :: "MacAddress \<Rightarrow> Ipv6Address may_panic" where
  "link_local_address mac = slaac_address (ip6_new [0xfe80, 0, 0, 0, 0, 0, 0, 0]) 64 mac"

section \<open>Option lists\<close>

record Icmpv6Packet =
  ic6_msg_type :: u8
  ic6_code :: u8
  ic6_checksum :: u16
  ic6_payload :: bytes

datatype Icmpv6Error = Icmpv6PacketTooShort nat | Icmpv6InvalidChecksum u16

function ndp_wf_loop :: "bytes \<Rightarrow> nat \<Rightarrow> bool" where
  "ndp_wf_loop options offset =
     (if offset < length options
      then if length options - offset < 2 then False
           else let units = unat (options ! (offset + 1)); stop = offset + units * 8
                in if units = 0 then False else if stop > length options then False
                   else ndp_wf_loop options stop
      else True)"
  by pat_completeness auto
termination
  by (relation "measure (\<lambda>(options, offset). length options - offset)") (auto simp: Let_def)

definition ndp_options_well_formed :: "bytes \<Rightarrow> bool" where
  "ndp_options_well_formed options = ndp_wf_loop options 0"

text \<open>The search has no checks of its own and is called on well-formed lists; \<open>None\<close> stands for an
  index out of range and for a loop that does not advance.\<close>

function ndp_contain_loop :: "bytes \<Rightarrow> u8 \<Rightarrow> nat \<Rightarrow> bool may_panic" where
  "ndp_contain_loop options option_type offset =
     (if offset < length options
      then if offset + 1 \<ge> length options then None
           else let units = unat (options ! (offset + 1)); option_len = units * 8
                in if options ! offset = option_type then Some True
                   else if units = 0 then None
                   else ndp_contain_loop options option_type (offset + option_len)
      else Some False)"
  by pat_completeness auto
termination
  by (relation "measure (\<lambda>(options, option_type, offset). length options - offset)") (auto simp: Let_def)

definition ndp_options_contain :: "bytes \<Rightarrow> u8 \<Rightarrow> bool may_panic" where
  "ndp_options_contain options option_type = ndp_contain_loop options option_type 0"

function ndp_lla_len_loop :: "bytes \<Rightarrow> u8 \<Rightarrow> nat \<Rightarrow> bool" where
  "ndp_lla_len_loop options option_type offset =
     (if offset < length options
      then if length options - offset < 2 then False
           else let units = unat (options ! (offset + 1)); stop = offset + units * 8
                in if units = 0 then False else if stop > length options then False
                   else if options ! offset = option_type \<and> units \<noteq> 1 then False
                   else ndp_lla_len_loop options option_type stop
      else True)"
  by pat_completeness auto
termination
  by (relation "measure (\<lambda>(options, option_type, offset). length options - offset)") (auto simp: Let_def)

definition ndp_ethernet_lla_option_length_valid :: "bytes \<Rightarrow> u8 \<Rightarrow> bool" where
  "ndp_ethernet_lla_option_length_valid options option_type = ndp_lla_len_loop options option_type 0"

function ndp_lla_loop :: "bytes \<Rightarrow> u8 \<Rightarrow> nat \<Rightarrow> MacAddress option" where
  "ndp_lla_loop options option_type offset =
     (if offset < length options
      then if length options - offset < 2 then None
           else let units = unat (options ! (offset + 1)); option_len = units * 8; stop = offset + option_len
                in if units = 0 then None else if stop > length options then None
                   else if options ! offset = option_type
                   then if option_len \<noteq> 8 then None else Some (read6 (offset + 2) options)
                   else ndp_lla_loop options option_type stop
      else None)"
  by pat_completeness auto
termination
  by (relation "measure (\<lambda>(options, option_type, offset). length options - offset)") (auto simp: Let_def)

definition ndp_ethernet_link_layer_address :: "bytes \<Rightarrow> u8 \<Rightarrow> MacAddress option" where
  "ndp_ethernet_link_layer_address options option_type = ndp_lla_loop options option_type 0"

declare ndp_wf_loop.simps [simp del] ndp_contain_loop.simps [simp del]
  ndp_lla_len_loop.simps [simp del] ndp_lla_loop.simps [simp del]

section \<open>Parsing and validation\<close>

definition icmpv6_parse :: "Ipv6Address \<Rightarrow> Ipv6Address \<Rightarrow> bytes \<Rightarrow> bool \<Rightarrow> Icmpv6Error + Icmpv6Packet" where
  "icmpv6_parse src_ip dst_ip data check_checksum =
     (if length data < 4 then Inl (Icmpv6PacketTooShort (length data))
      else let checksum = read_u16 2 data
      in if check_checksum \<and> compute_ipv6_transport_checksum src_ip dst_ip NEXT_HEADER_ICMPV6 data \<noteq> 0
         then Inl (Icmpv6InvalidChecksum checksum)
         else Inr \<lparr> ic6_msg_type = data ! 0, ic6_code = data ! 1, ic6_checksum = checksum,
                    ic6_payload = drop 4 data \<rparr>)"

definition validated_neighbor_solicitation_target ::
  "Icmpv6Packet \<Rightarrow> Ipv6Address \<Rightarrow> Ipv6Address \<Rightarrow> u8 \<Rightarrow> Ipv6Address option" where
  "validated_neighbor_solicitation_target p src_ip dst_ip hop_limit =
     (if ic6_msg_type p \<noteq> ICMPV6_TYPE_NEIGHBOR_SOLICIT \<or> ic6_code p \<noteq> 0 \<or> hop_limit \<noteq> 255 \<or>
         length (ic6_payload p) < 20 then None
      else let target = read16 4 (ic6_payload p);
               options = drop 20 (ic6_payload p)
      in if ip6_is_multicast target \<or> \<not> ndp_options_well_formed options \<or>
            \<not> ndp_ethernet_lla_option_length_valid options NDP_OPT_SRC_LINK_LAYER_ADDR then None
         else if ip6_is_unspecified src_ip \<and>
            (dst_ip \<noteq> solicited_node_multicast target \<or>
             ndp_options_contain options NDP_OPT_SRC_LINK_LAYER_ADDR = Some True) then None
         else Some target)"

definition validated_neighbor_advertisement_target ::
  "Icmpv6Packet \<Rightarrow> Ipv6Address \<Rightarrow> u8 \<Rightarrow> Ipv6Address option" where
  "validated_neighbor_advertisement_target p dst_ip hop_limit =
     (if ic6_msg_type p \<noteq> ICMPV6_TYPE_NEIGHBOR_ADVERT \<or> ic6_code p \<noteq> 0 \<or> hop_limit \<noteq> 255 \<or>
         length (ic6_payload p) < 20 then None
      else let target = read16 4 (ic6_payload p);
               options = drop 20 (ic6_payload p)
      in if ip6_is_multicast target \<or> \<not> ndp_options_well_formed options \<or>
            \<not> ndp_ethernet_lla_option_length_valid options NDP_OPT_TARGET_LINK_LAYER_ADDR then None
         else let solicited = (ic6_payload p ! 0 AND 0x40 \<noteq> 0)
         in if ip6_is_multicast dst_ip \<and> solicited then None else Some target)"

text \<open>The loop over the options of a redirect: the quoted addresses, or \<open>None\<close> when the redirected
  header is too short or not IPv6.  A length of zero does not occur after validation.\<close>

function redirected_header_loop ::
  "bytes \<Rightarrow> nat \<Rightarrow> (Ipv6Address option \<times> Ipv6Address option) option" where
  "redirected_header_loop options offset =
     (if offset < length options \<and> options ! (offset + 1) \<noteq> 0
      then let option_len = unat (options ! (offset + 1)) * 8
           in if options ! offset = NDP_OPT_REDIRECTED_HEADER
              then if option_len < 48 then None
                   else let quoted = subslice (offset + 8) (offset + option_len) options
                        in if drop_bit 4 (quoted ! 0) \<noteq> 6 then None
                           else Some (Some (read16 8 quoted), Some (read16 24 quoted))
              else redirected_header_loop options (offset + option_len)
      else Some (None, None))"
  by pat_completeness auto
termination
proof (relation "measure (\<lambda>(options, offset). length options - offset)")
  fix options :: bytes and offset x
  assume a: "offset < length options \<and> options ! (offset + 1) \<noteq> 0"
    and "x = unat (options ! (offset + 1)) * 8"
  moreover have "0 < unat (options ! (offset + 1))" using a unat_eq_zero by blast
  ultimately show "((options, offset + x), options, offset) \<in> measure (\<lambda>(options, offset). length options - offset)"
    by auto
qed simp

declare redirected_header_loop.simps [simp del]

definition validated_redirect ::
  "Icmpv6Packet \<Rightarrow> Ipv6Address \<Rightarrow> Ipv6Address \<Rightarrow> u8 \<Rightarrow> RedirectMessage option" where
  "validated_redirect p src_ip dst_ip hop_limit =
     (if ic6_msg_type p \<noteq> ICMPV6_TYPE_REDIRECT \<or> ic6_code p \<noteq> 0 \<or> hop_limit \<noteq> 255 \<or>
         \<not> ip6_is_link_local src_ip \<or> ip6_is_unspecified dst_ip \<or> ip6_is_multicast dst_ip \<or>
         length (ic6_payload p) < 36 then None
      else let target = read16 4 (ic6_payload p);
               destination = read16 20 (ic6_payload p)
      in if ip6_is_unspecified target \<or> ip6_is_multicast target \<or> ip6_is_unspecified destination \<or>
            ip6_is_multicast destination \<or> (target \<noteq> destination \<and> \<not> ip6_is_link_local target) then None
         else let options = drop 36 (ic6_payload p)
         in if \<not> ndp_options_well_formed options \<or>
               \<not> ndp_ethernet_lla_option_length_valid options NDP_OPT_TARGET_LINK_LAYER_ADDR then None
            else (case redirected_header_loop options 0 of
                    None \<Rightarrow> None
                  | Some (redirected_source, redirected_destination) \<Rightarrow>
                      Some \<lparr> rm_target = target, rm_destination = destination,
                             rm_target_link_layer_address =
                               ndp_ethernet_link_layer_address options NDP_OPT_TARGET_LINK_LAYER_ADDR,
                             rm_redirected_source = redirected_source,
                             rm_redirected_destination = redirected_destination \<rparr>))"

definition neighbor_advertisement_target_link_layer_address :: "Icmpv6Packet \<Rightarrow> MacAddress option" where
  "neighbor_advertisement_target_link_layer_address p =
     (if ic6_msg_type p \<noteq> ICMPV6_TYPE_NEIGHBOR_ADVERT \<or> length (ic6_payload p) < 20 then None
      else ndp_ethernet_link_layer_address (drop 20 (ic6_payload p)) NDP_OPT_TARGET_LINK_LAYER_ADDR)"

definition ndp_source_link_layer_address :: "Icmpv6Packet \<Rightarrow> MacAddress option" where
  "ndp_source_link_layer_address p =
     (let pos = (if ic6_msg_type p = ICMPV6_TYPE_NEIGHBOR_SOLICIT \<and> length (ic6_payload p) \<ge> 20 then Some 20
                 else if ic6_msg_type p = ICMPV6_TYPE_ROUTER_SOLICIT \<and> length (ic6_payload p) \<ge> 4 then Some 4
                 else if ic6_msg_type p = ICMPV6_TYPE_ROUTER_ADVERT \<and> length (ic6_payload p) \<ge> 12 then Some 12
                 else None)
      in case pos of
           None \<Rightarrow> None
         | Some n \<Rightarrow> ndp_ethernet_link_layer_address (drop n (ic6_payload p)) NDP_OPT_SRC_LINK_LAYER_ADDR)"

definition is_valid_router_solicitation :: "Icmpv6Packet \<Rightarrow> Ipv6Address \<Rightarrow> u8 \<Rightarrow> bool" where
  "is_valid_router_solicitation p src_ip hop_limit =
     (if ic6_msg_type p \<noteq> ICMPV6_TYPE_ROUTER_SOLICIT \<or> ic6_code p \<noteq> 0 \<or> hop_limit \<noteq> 255 \<or>
         length (ic6_payload p) < 4 \<or> \<not> ndp_options_well_formed (drop 4 (ic6_payload p)) \<or>
         \<not> ndp_ethernet_lla_option_length_valid (drop 4 (ic6_payload p)) NDP_OPT_SRC_LINK_LAYER_ADDR
      then False
      else \<not> (ip6_is_unspecified src_ip \<and>
               ndp_options_contain (drop 4 (ic6_payload p)) NDP_OPT_SRC_LINK_LAYER_ADDR = Some True))"

section \<open>Domain names\<close>

text \<open>\<open>String::from_utf8_lossy\<close>: the bytes a maximal valid or invalid sequence takes, and whether it
  is valid; every invalid sequence becomes U+FFFD.\<close>

definition byte_at :: "bytes \<Rightarrow> nat \<Rightarrow> u8" where
  "byte_at xs i = (if i < length xs then xs ! i else 0)"

definition utf8_cont :: "u8 \<Rightarrow> bool" where
  "utf8_cont b \<longleftrightarrow> 0x80 \<le> b \<and> b \<le> 0xBF"

definition utf8_sequence :: "bytes \<Rightarrow> nat \<times> bool" where
  "utf8_sequence xs =
     (let a = byte_at xs 0; b = byte_at xs 1; c = byte_at xs 2; d = byte_at xs 3
      in if a < 0x80 then (1, True)
         else if 0xC2 \<le> a \<and> a \<le> 0xDF then (if utf8_cont b then (2, True) else (1, False))
         else if 0xE0 \<le> a \<and> a \<le> 0xEF
         then if a = 0xE0 \<and> 0xA0 \<le> b \<and> b \<le> 0xBF \<or> 0xE1 \<le> a \<and> a \<le> 0xEC \<and> utf8_cont b \<or>
                 a = 0xED \<and> 0x80 \<le> b \<and> b \<le> 0x9F \<or> 0xEE \<le> a \<and> utf8_cont b
              then (if utf8_cont c then (3, True) else (2, False)) else (1, False)
         else if 0xF0 \<le> a \<and> a \<le> 0xF4
         then if a = 0xF0 \<and> 0x90 \<le> b \<and> b \<le> 0xBF \<or> 0xF1 \<le> a \<and> a \<le> 0xF3 \<and> utf8_cont b \<or>
                 a = 0xF4 \<and> 0x80 \<le> b \<and> b \<le> 0x8F
              then (if utf8_cont c then (if utf8_cont d then (4, True) else (3, False)) else (2, False))
              else (1, False)
         else (1, False))"

lemma utf8_sequence_pos: "0 < fst (utf8_sequence xs)"
  by (simp add: utf8_sequence_def Let_def)

function utf8_lossy :: "bytes \<Rightarrow> bytes" where
  "utf8_lossy xs =
     (if xs = [] then []
      else let (n, valid) = utf8_sequence xs
           in (if valid then take n xs else [0xEF, 0xBF, 0xBD]) @ utf8_lossy (drop n xs))"
  by pat_completeness auto
termination
proof (relation "measure length")
  fix xs :: bytes and r n valid
  assume "xs \<noteq> []" "r = utf8_sequence xs" "(n, valid) = r"
  then show "(drop n xs, xs) \<in> measure length"
    using utf8_sequence_pos [of xs] by (metis diff_less fst_conv in_measure length_drop length_greater_0_conv)
qed simp

declare utf8_lossy.simps [simp del]

definition encode_qname_slice :: "bytes \<Rightarrow> bytes" where
  "encode_qname_slice domain =
     concat (map (\<lambda>label. if label \<noteq> [] then of_nat (length label) # label else []) (split_on 46 domain)) @ [0]"

function decode_labels :: "bytes \<Rightarrow> nat \<Rightarrow> bytes list \<Rightarrow> unit + bytes list \<times> nat" where
  "decode_labels data offset labels =
     (if offset < length data
      then let len = unat (data ! offset)
           in if len = 0 then Inr (labels, offset + 1)
              else if len > 63 \<or> offset + 1 + len > length data then Inl ()
              else decode_labels data (offset + 1 + len)
                     (labels @ [utf8_lossy (subslice (offset + 1) (offset + 1 + len) data)])
      else Inr (labels, offset))"
  by pat_completeness auto
termination
  by (relation "measure (\<lambda>(data, offset, labels). length data - offset)") auto

declare decode_labels.simps [simp del]

text \<open>\<open>labels.join(".")\<close>.\<close>

fun join_labels :: "bytes list \<Rightarrow> bytes" where
  "join_labels [] = []"
| "join_labels [p] = p"
| "join_labels (p # q # ps) = p @ 46 # join_labels (q # ps)"

definition decode_qname_slice :: "bytes \<Rightarrow> nat \<Rightarrow> unit + bytes \<times> nat" where
  "decode_qname_slice data offset =
     (case decode_labels data offset [] of
        Inl e \<Rightarrow> Inl e | Inr (labels, offset) \<Rightarrow> Inr (join_labels labels, offset))"

lemma decode_labels_offset: "decode_labels data offset labels = Inr (ls, stop) \<Longrightarrow> offset \<le> stop"
proof (induction data offset labels rule: decode_labels.induct)
  case (1 data offset labels)
  then show ?case
    by (subst (asm) decode_labels.simps) (fastforce simp: Let_def split: if_splits)
qed

lemma decode_qname_advances:
  "offset < length data \<Longrightarrow> decode_qname_slice data offset = Inr (d, stop) \<Longrightarrow> offset < stop"
  by (subst (asm) decode_qname_slice_def, subst (asm) decode_labels.simps)
     (auto simp: Let_def split: sum.splits if_splits dest!: decode_labels_offset)

section \<open>Router advertisements\<close>

definition parse_pio :: "bytes \<Rightarrow> PrefixInformationOption" where
  "parse_pio opt = pio_new (read16 16 opt) (opt ! 2) (opt ! 3 AND 0x80 \<noteq> 0) (opt ! 3 AND 0x40 \<noteq> 0)
     (read_u32 4 opt) (read_u32 8 opt)"

definition rio_length_valid :: "u8 \<Rightarrow> nat \<Rightarrow> bool" where
  "rio_length_valid prefix_length units =
     (if prefix_length = 0 then 1 \<le> units \<and> units \<le> 3
      else if prefix_length \<le> 64 then units = 2 \<or> units = 3
      else if prefix_length \<le> 128 then units = 3 else False)"

definition parse_rio :: "bytes \<Rightarrow> nat \<Rightarrow> RouteInformationOption list" where
  "parse_rio opt units =
     (if rio_length_valid (opt ! 2) units
      then (case from_rio_flags (opt ! 3) of
              None \<Rightarrow> []
            | Some preference \<Rightarrow>
                let prefix_bytes = write_at 0 (drop 8 opt) (replicate 16 0)
                in [rio_new (read16 0 prefix_bytes) (opt ! 2) preference (read_u32 4 opt)])
      else [])"

definition parse_rdnss :: "bytes \<Rightarrow> nat \<Rightarrow> RdnssOption list" where
  "parse_rdnss opt units =
     (if units \<ge> 3 \<and> units mod 2 = 1
      then [\<lparr> rdnss_lifetime = read_u32 4 opt,
              rdnss_servers = map (\<lambda>i. read16 (8 + i * 16) opt) [0..<(units - 1) div 2] \<rparr>]
      else [])"

function dnssl_names :: "bytes \<Rightarrow> nat \<Rightarrow> bytes list \<Rightarrow> bytes list" where
  "dnssl_names opt name_off search_list =
     (if name_off < length opt
      then if opt ! name_off = 0 then search_list
           else (case decode_qname_slice opt name_off of
                   Inr (domain, next_off) \<Rightarrow>
                     dnssl_names opt next_off (if domain \<noteq> [] then search_list @ [domain] else search_list)
                 | Inl _ \<Rightarrow> search_list)
      else search_list)"
  by pat_completeness auto
termination
  by (relation "measure (\<lambda>(opt, name_off, search_list). length opt - name_off)")
     (auto dest!: decode_qname_advances [rotated])

declare dnssl_names.simps [simp del]

definition parse_dnssl :: "bytes \<Rightarrow> nat \<Rightarrow> DnsslOption list" where
  "parse_dnssl opt units =
     (if units \<ge> 2
      then [\<lparr> dnssl_lifetime = read_u32 4 opt, dnssl_search_list = dnssl_names opt 8 [] \<rparr>] else [])"

text \<open>One option of an advertisement; \<open>None\<close> rejects the whole message.\<close>

definition ra_option :: "u8 \<Rightarrow> nat \<Rightarrow> bytes \<Rightarrow> RouterAdvertisement \<Rightarrow> RouterAdvertisement option" where
  "ra_option option_type units opt ra =
     (if option_type = NDP_OPT_PREFIX_INFORMATION
      then if units * 8 \<noteq> 32 then None
           else if opt ! 2 > 128 then None
           else if read_u32 8 opt > read_u32 4 opt then Some ra
           else Some (ra\<lparr> ra_prefixes := ra_prefixes ra @ [parse_pio opt] \<rparr>)
      else if option_type = NDP_OPT_MTU
      then Some (if units * 8 = 8 then ra\<lparr> ra_mtu := Some (read_u32 4 opt) \<rparr> else ra)
      else if option_type = NDP_OPT_ROUTE_INFORMATION
      then Some (ra\<lparr> ra_routes := ra_routes ra @ parse_rio opt units \<rparr>)
      else if option_type = NDP_OPT_RDNSS
      then Some (ra\<lparr> ra_rdnss := ra_rdnss ra @ parse_rdnss opt units \<rparr>)
      else if option_type = NDP_OPT_DNSSL
      then Some (ra\<lparr> ra_dnssl := ra_dnssl ra @ parse_dnssl opt units \<rparr>)
      else Some ra)"

function ra_options_loop :: "bytes \<Rightarrow> nat \<Rightarrow> RouterAdvertisement \<Rightarrow> RouterAdvertisement option" where
  "ra_options_loop payload offset ra =
     (if offset < length payload
      then if offset + 2 > length payload then None
           else let units = unat (payload ! (offset + 1)); option_len = units * 8
                in if units = 0 then None else if offset + option_len > length payload then None
                   else (case ra_option (payload ! offset) units (subslice offset (offset + option_len) payload) ra of
                           None \<Rightarrow> None
                         | Some ra \<Rightarrow> ra_options_loop payload (offset + option_len) ra)
      else Some ra)"
  by pat_completeness auto
termination
  by (relation "measure (\<lambda>(payload, offset, ra). length payload - offset)") (auto simp: Let_def)

declare ra_options_loop.simps [simp del]

definition ra_parse :: "Icmpv6Packet \<Rightarrow> RouterAdvertisement option" where
  "ra_parse icmp =
     (if ic6_msg_type icmp \<noteq> ICMPV6_TYPE_ROUTER_ADVERT \<or> ic6_code icmp \<noteq> 0 \<or> length (ic6_payload icmp) < 12
      then None
      else let payload = ic6_payload icmp; flags = payload ! 1
           in ra_options_loop payload 12
                \<lparr> ra_current_hop_limit = payload ! 0, ra_managed = (flags AND 0x80 \<noteq> 0),
                  ra_other_config = (flags AND 0x40 \<noteq> 0), ra_preference = from_ra_flags flags,
                  ra_router_lifetime = read_u16 2 payload, ra_reachable_time = read_u32 4 payload,
                  ra_retrans_timer = read_u32 8 payload, ra_mtu = None, ra_prefixes = [], ra_routes = [],
                  ra_rdnss = [], ra_dnssl = [] \<rparr>)"

definition validated_router_advertisement :: "Icmpv6Packet \<Rightarrow> Ipv6Address \<Rightarrow> u8 \<Rightarrow> RouterAdvertisement option" where
  "validated_router_advertisement p src_ip hop_limit =
     (if ic6_msg_type p \<noteq> ICMPV6_TYPE_ROUTER_ADVERT \<or> ic6_code p \<noteq> 0 \<or> hop_limit \<noteq> 255 \<or>
         \<not> ip6_is_link_local src_ip \<or> length (ic6_payload p) < 12 \<or>
         \<not> ndp_options_well_formed (drop 12 (ic6_payload p)) \<or>
         \<not> ndp_ethernet_lla_option_length_valid (drop 12 (ic6_payload p)) NDP_OPT_SRC_LINK_LAYER_ADDR
      then None else ra_parse p)"

section \<open>Builders\<close>

text \<open>The end of every builder: the checksum over the buffer is written into bytes 2 and 3.\<close>

definition icmpv6_seal :: "Ipv6Address \<Rightarrow> Ipv6Address \<Rightarrow> bytes \<Rightarrow> bytes" where
  "icmpv6_seal src_ip dst_ip buf =
     write_at 2 (u16_to_be (compute_ipv6_transport_checksum src_ip dst_ip NEXT_HEADER_ICMPV6 buf)) buf"

definition build_echo_request6 :: "Ipv6Address \<Rightarrow> Ipv6Address \<Rightarrow> u16 \<Rightarrow> u16 \<Rightarrow> bytes \<Rightarrow> bytes" where
  "build_echo_request6 src_ip dst_ip ident seq payload =
     icmpv6_seal src_ip dst_ip
       ([ICMPV6_TYPE_ECHO_REQUEST, 0, 0, 0] @ u16_to_be ident @ u16_to_be seq @ payload)"

definition build_echo_reply6 :: "Ipv6Address \<Rightarrow> Ipv6Address \<Rightarrow> u16 \<Rightarrow> u16 \<Rightarrow> bytes \<Rightarrow> bytes" where
  "build_echo_reply6 src_ip dst_ip ident seq payload =
     icmpv6_seal src_ip dst_ip
       ([ICMPV6_TYPE_ECHO_REPLY, 0, 0, 0] @ u16_to_be ident @ u16_to_be seq @ payload)"

definition build_error_message :: "Ipv6Address \<Rightarrow> Ipv6Address \<Rightarrow> u8 \<Rightarrow> u8 \<Rightarrow> u32 \<Rightarrow> bytes \<Rightarrow> bytes" where
  "build_error_message src_ip dst_ip msg_type code type_specific invoking_packet =
     (let quoted = min (length invoking_packet) 1232
      in icmpv6_seal src_ip dst_ip
           ([msg_type, code, 0, 0] @ u32_to_be type_specific @ take quoted invoking_packet))"

definition build_destination_unreachable6 :: "Ipv6Address \<Rightarrow> Ipv6Address \<Rightarrow> u8 \<Rightarrow> bytes \<Rightarrow> bytes" where
  "build_destination_unreachable6 src_ip dst_ip code invoking_packet =
     build_error_message src_ip dst_ip ICMPV6_TYPE_DEST_UNREACHABLE code 0 invoking_packet"

definition build_packet_too_big :: "Ipv6Address \<Rightarrow> Ipv6Address \<Rightarrow> u32 \<Rightarrow> bytes \<Rightarrow> bytes" where
  "build_packet_too_big src_ip dst_ip mtu invoking_packet =
     build_error_message src_ip dst_ip ICMPV6_TYPE_PACKET_TOO_BIG 0 mtu invoking_packet"

definition build_time_exceeded6 :: "Ipv6Address \<Rightarrow> Ipv6Address \<Rightarrow> bytes \<Rightarrow> bytes" where
  "build_time_exceeded6 src_ip dst_ip invoking_packet =
     build_error_message src_ip dst_ip ICMPV6_TYPE_TIME_EXCEEDED 0 0 invoking_packet"

definition build_router_solicitation :: "Ipv6Address \<Rightarrow> Ipv6Address \<Rightarrow> MacAddress option \<Rightarrow> bytes" where
  "build_router_solicitation src_ip dst_ip source_mac =
     icmpv6_seal src_ip dst_ip
       ([ICMPV6_TYPE_ROUTER_SOLICIT, 0, 0, 0] @ [0, 0, 0, 0] @
        (case source_mac of
           Some mac \<Rightarrow> if \<not> ip6_is_unspecified src_ip then [NDP_OPT_SRC_LINK_LAYER_ADDR, 1] @ bytes6 mac else []
         | None \<Rightarrow> []))"

definition pio_bytes :: "PrefixInformationOption \<Rightarrow> bytes" where
  "pio_bytes p =
     (let flags = (if pio_on_link p then 0x80 else 0) OR (if pio_autonomous p then 0x40 else 0)
      in [NDP_OPT_PREFIX_INFORMATION, 4, pio_prefix_length p, flags] @ u32_to_be (pio_valid_lifetime p) @
         u32_to_be (pio_preferred_lifetime p) @ u32_to_be 0 @
         bytes16 (ip6_mask (pio_prefix p) (pio_prefix_length p)))"

definition rdnss_bytes :: "RdnssOption \<Rightarrow> bytes" where
  "rdnss_bytes r =
     [NDP_OPT_RDNSS, of_nat (1 + length (rdnss_servers r) * 2), 0, 0] @ u32_to_be (rdnss_lifetime r) @
     concat (map bytes16 (rdnss_servers r))"

definition dnssl_name_buf :: "DnsslOption \<Rightarrow> bytes" where
  "dnssl_name_buf d =
     (let names = concat (map encode_qname_slice (dnssl_search_list d))
      in names @ replicate ((8 - length names mod 8) mod 8) 0)"

definition dnssl_bytes :: "DnsslOption \<Rightarrow> bytes" where
  "dnssl_bytes d =
     (let name_buf = dnssl_name_buf d
      in [NDP_OPT_DNSSL, of_nat ((8 + length name_buf) div 8), 0, 0] @ u32_to_be (dnssl_lifetime d) @ name_buf)"

definition build_router_advertisement_full ::
  "Ipv6Address \<Rightarrow> Ipv6Address \<Rightarrow> u8 \<Rightarrow> u16 \<Rightarrow> RouterPreference \<Rightarrow> PrefixInformationOption list \<Rightarrow>
   RouteInformationOption list \<Rightarrow> u32 option \<Rightarrow> RdnssOption list \<Rightarrow> DnsslOption list \<Rightarrow> MacAddress option \<Rightarrow> bytes" where
  "build_router_advertisement_full src_ip dst_ip current_hop_limit router_lifetime preference prefixes routes
       mtu rdnss dnssl source_mac =
     icmpv6_seal src_ip dst_ip
       ([ICMPV6_TYPE_ROUTER_ADVERT, 0, 0, 0, current_hop_limit, ra_flags preference] @
        u16_to_be router_lifetime @ u32_to_be 0 @ u32_to_be 0 @
        (case source_mac of Some mac \<Rightarrow> [NDP_OPT_SRC_LINK_LAYER_ADDR, 1] @ bytes6 mac | None \<Rightarrow> []) @
        (case mtu of Some m \<Rightarrow> [NDP_OPT_MTU, 1, 0, 0] @ u32_to_be m | None \<Rightarrow> []) @
        concat (map pio_bytes prefixes) @ concat (map rio_append_to routes) @
        concat (map rdnss_bytes rdnss) @ concat (map dnssl_bytes dnssl))"

definition build_router_advertisement_with_routes_and_mtu ::
  "Ipv6Address \<Rightarrow> Ipv6Address \<Rightarrow> u8 \<Rightarrow> u16 \<Rightarrow> RouterPreference \<Rightarrow> PrefixInformationOption list \<Rightarrow>
   RouteInformationOption list \<Rightarrow> MacAddress option \<Rightarrow> u32 option \<Rightarrow> bytes" where
  "build_router_advertisement_with_routes_and_mtu src_ip dst_ip current_hop_limit router_lifetime preference
       prefixes routes source_mac mtu =
     build_router_advertisement_full src_ip dst_ip current_hop_limit router_lifetime preference prefixes
       routes mtu [] [] source_mac"

definition build_router_advertisement_with_routes ::
  "Ipv6Address \<Rightarrow> Ipv6Address \<Rightarrow> u8 \<Rightarrow> u16 \<Rightarrow> RouterPreference \<Rightarrow> PrefixInformationOption list \<Rightarrow>
   RouteInformationOption list \<Rightarrow> MacAddress option \<Rightarrow> bytes" where
  "build_router_advertisement_with_routes src_ip dst_ip current_hop_limit router_lifetime preference prefixes
       routes source_mac =
     build_router_advertisement_full src_ip dst_ip current_hop_limit router_lifetime preference prefixes
       routes None [] [] source_mac"

definition build_router_advertisement_with_preference ::
  "Ipv6Address \<Rightarrow> Ipv6Address \<Rightarrow> u8 \<Rightarrow> u16 \<Rightarrow> RouterPreference \<Rightarrow> PrefixInformationOption list \<Rightarrow>
   MacAddress option \<Rightarrow> bytes" where
  "build_router_advertisement_with_preference src_ip dst_ip current_hop_limit router_lifetime preference
       prefixes source_mac =
     build_router_advertisement_with_routes src_ip dst_ip current_hop_limit router_lifetime preference
       prefixes [] source_mac"

definition build_router_advertisement ::
  "Ipv6Address \<Rightarrow> Ipv6Address \<Rightarrow> u8 \<Rightarrow> u16 \<Rightarrow> PrefixInformationOption list \<Rightarrow> MacAddress option \<Rightarrow> bytes" where
  "build_router_advertisement src_ip dst_ip current_hop_limit router_lifetime prefixes source_mac =
     build_router_advertisement_with_preference src_ip dst_ip current_hop_limit router_lifetime RpMedium
       prefixes source_mac"

definition build_neighbor_solicitation ::
  "Ipv6Address \<Rightarrow> Ipv6Address \<Rightarrow> Ipv6Address \<Rightarrow> MacAddress \<Rightarrow> bytes" where
  "build_neighbor_solicitation src_ip dst_ip target_ip sender_mac =
     icmpv6_seal src_ip dst_ip
       ([ICMPV6_TYPE_NEIGHBOR_SOLICIT, 0, 0, 0] @ [0, 0, 0, 0] @ bytes16 target_ip @
        [NDP_OPT_SRC_LINK_LAYER_ADDR, 1] @ bytes6 sender_mac)"

definition build_dad_neighbor_solicitation :: "Ipv6Address \<Rightarrow> Ipv6Address \<Rightarrow> bytes" where
  "build_dad_neighbor_solicitation dst_ip target_ip =
     icmpv6_seal ip6_UNSPECIFIED dst_ip
       ([ICMPV6_TYPE_NEIGHBOR_SOLICIT, 0, 0, 0] @ [0, 0, 0, 0] @ bytes16 target_ip)"

definition build_redirect ::
  "Ipv6Address \<Rightarrow> Ipv6Address \<Rightarrow> Ipv6Address \<Rightarrow> Ipv6Address \<Rightarrow> MacAddress option \<Rightarrow> bytes \<Rightarrow> bytes" where
  "build_redirect src_ip dst_ip target_ip destination_ip target_mac redirected_packet =
     (let buf = [ICMPV6_TYPE_REDIRECT, 0, 0, 0] @ [0, 0, 0, 0] @ bytes16 target_ip @ bytes16 destination_ip @
            (case target_mac of Some mac \<Rightarrow> [NDP_OPT_TARGET_LINK_LAYER_ADDR, 1] @ bytes6 mac | None \<Rightarrow> []);
          buf = (if length redirected_packet \<ge> 40 \<and> length buf + 48 \<le> 1240
                 then let available_quote = 1240 - (length buf + 8);
                          quote_len = min (length redirected_packet) available_quote;
                          quote_len = quote_len - quote_len mod 8
                      in if quote_len \<ge> 40
                         then buf @ [NDP_OPT_REDIRECTED_HEADER, of_nat ((8 + quote_len) div 8)] @
                              replicate 6 0 @ take quote_len redirected_packet
                         else buf
                 else buf)
      in icmpv6_seal src_ip dst_ip buf)"

definition build_neighbor_advertisement ::
  "Ipv6Address \<Rightarrow> Ipv6Address \<Rightarrow> Ipv6Address \<Rightarrow> MacAddress \<Rightarrow> bool \<Rightarrow> bool \<Rightarrow> bool \<Rightarrow> bytes" where
  "build_neighbor_advertisement src_ip dst_ip target_ip target_mac is_router solicited override_flag =
     (let flags = (if is_router then 0x80 else 0) OR (if solicited then 0x40 else 0) OR
                  (if override_flag then 0x20 else 0)
      in icmpv6_seal src_ip dst_ip
           ([ICMPV6_TYPE_NEIGHBOR_ADVERT, 0, 0, 0] @ [flags] @ [0, 0, 0] @ bytes16 target_ip @
            [NDP_OPT_TARGET_LINK_LAYER_ADDR, 1] @ bytes6 target_mac))"

end
