(* ===== verification/NdpWire.thy ===== *)
theory NdpWire
  imports Icmpv6
begin

unbundle bit_operations_syntax

text \<open>
  Neighbor Discovery messages on the wire: an option list is a concatenation of options whose
  lengths match their length octets, the loops of \<open>Icmpv6\<close> are the obvious functions of that list,
  and every message the builders write passes the parser and the validator with the content it was
  built from.
\<close>

section \<open>Option lists\<close>

definition ndp_opt :: "bytes \<Rightarrow> bool" where
  "ndp_opt x \<longleftrightarrow> x ! 1 \<noteq> 0 \<and> length x = unat (x ! 1) * 8"

lemma ndp_opt_length: "ndp_opt x \<Longrightarrow> 8 \<le> length x"
proof -
  assume "ndp_opt x"
  moreover from this have "0 < unat (x ! 1)" using unat_eq_zero by (auto simp: ndp_opt_def)
  ultimately show ?thesis unfolding ndp_opt_def by linarith
qed

lemma ndp_opt_at:
  assumes "ndp_opt x"
  shows "length pre < length (pre @ x @ rest)" "2 \<le> length (pre @ x @ rest) - length pre"
    "length pre + 1 < length (pre @ x @ rest)"
    "(pre @ x @ rest) ! length pre = x ! 0" "(pre @ x @ rest) ! (length pre + 1) = x ! 1"
    "0 < unat (x ! 1)" "unat (x ! 1) * 8 = length x" "length pre + length x \<le> length (pre @ x @ rest)"
  using ndp_opt_length [OF assms] assms unat_eq_zero
  by (auto simp: nth_append ndp_opt_def)

lemma ndp_wf_concat:
  "\<forall>x \<in> set os. ndp_opt x \<Longrightarrow> ndp_wf_loop (pre @ concat os) (length pre)"
proof (induction os arbitrary: pre)
  case (Cons x os)
  note x = ndp_opt_at(1-5,8) [of x pre "concat os"] ndp_opt_at(6,7) [of x]
  have "ndp_wf_loop ((pre @ x) @ concat os) (length (pre @ x))"
    using Cons.prems by (intro Cons.IH) simp
  then show ?case
    using x Cons.prems by (subst ndp_wf_loop.simps) (simp add: Let_def)
qed (simp add: ndp_wf_loop.simps)

lemma ndp_contain_concat:
  "\<forall>x \<in> set os. ndp_opt x \<Longrightarrow>
   ndp_contain_loop (pre @ concat os) ty (length pre) = Some (\<exists>x \<in> set os. x ! 0 = ty)"
proof (induction os arbitrary: pre)
  case (Cons x os)
  note x = ndp_opt_at(1-5,8) [of x pre "concat os"] ndp_opt_at(6,7) [of x]
  have "ndp_contain_loop ((pre @ x) @ concat os) ty (length (pre @ x)) = Some (\<exists>x \<in> set os. x ! 0 = ty)"
    using Cons.prems by (intro Cons.IH) simp
  then show ?case
    using x Cons.prems by (subst ndp_contain_loop.simps) (simp add: Let_def)
qed (simp add: ndp_contain_loop.simps)

lemma ndp_lla_len_concat:
  "\<forall>x \<in> set os. ndp_opt x \<Longrightarrow>
   ndp_lla_len_loop (pre @ concat os) ty (length pre) \<longleftrightarrow> (\<forall>x \<in> set os. x ! 0 = ty \<longrightarrow> x ! 1 = 1)"
proof (induction os arbitrary: pre)
  case (Cons x os)
  note x = ndp_opt_at(1-5,8) [of x pre "concat os"] ndp_opt_at(6,7) [of x]
  have "ndp_lla_len_loop ((pre @ x) @ concat os) ty (length (pre @ x)) \<longleftrightarrow>
      (\<forall>x \<in> set os. x ! 0 = ty \<longrightarrow> x ! 1 = 1)"
    using Cons.prems by (intro Cons.IH) simp
  moreover have "unat (x ! 1) = Suc 0 \<longleftrightarrow> x ! 1 = 1" by (simp add: word_unat_eq_iff)
  ultimately show ?case
    using x Cons.prems by (subst ndp_lla_len_loop.simps) (auto simp: Let_def)
qed (simp add: ndp_lla_len_loop.simps)

lemma ndp_lla_concat:
  "\<forall>x \<in> set os. ndp_opt x \<Longrightarrow> ndp_lla_loop (pre @ concat os) ty (length pre) =
     (case List.find (\<lambda>x. x ! 0 = ty) os of
        None \<Rightarrow> None | Some x \<Rightarrow> if x ! 1 = 1 then Some (read6 2 x) else None)"
proof (induction os arbitrary: pre)
  case (Cons x os)
  note x = ndp_opt_at(1-5,8) [of x pre "concat os"] ndp_opt_at(6,7) [of x]
  have ih: "ndp_lla_loop ((pre @ x) @ concat os) ty (length (pre @ x)) =
     (case List.find (\<lambda>x. x ! 0 = ty) os of
        None \<Rightarrow> None | Some x \<Rightarrow> if x ! 1 = 1 then Some (read6 2 x) else None)"
    using Cons.prems by (intro Cons.IH) simp
  have l: "length x = 8 \<longleftrightarrow> x ! 1 = 1"
    using x Cons.prems by (auto simp: word_unat_eq_iff)
  have r: "read6 (length pre + 2) (pre @ x @ concat os) = read6 2 x" if "8 \<le> length x"
    using that by (simp add: read6_def nth_append)
  show ?case
    using x Cons.prems l ih r [OF ndp_opt_length] by (subst ndp_lla_loop.simps) (auto simp: Let_def)
qed (simp add: ndp_lla_loop.simps)

lemma ra_options_concat:
  "\<forall>x \<in> set os. ndp_opt x \<Longrightarrow> ra_options_loop (pre @ concat os) (length pre) ra =
     foldl (\<lambda>r x. Option.bind r (ra_option (x ! 0) (unat (x ! 1)) x)) (Some ra) os"
proof (induction os arbitrary: pre ra)
  case (Cons x os)
  note x = ndp_opt_at(1-5,8) [of x pre "concat os"] ndp_opt_at(6,7) [of x]
  have n: "foldl (\<lambda>r x. Option.bind r (ra_option (x ! 0) (unat (x ! Suc 0)) x)) None xs = None" for xs
    by (induction xs) simp_all
  have ih: "ra_options_loop ((pre @ x) @ concat os) (length (pre @ x)) ra' =
      foldl (\<lambda>r x. Option.bind r (ra_option (x ! 0) (unat (x ! 1)) x)) (Some ra') os" for ra'
    using Cons.prems by (intro Cons.IH) simp
  have s: "subslice (length pre) (length pre + length x) (pre @ x @ concat os) = x"
    by (simp add: subslice_def)
  show ?case
    using x Cons.prems ih s by (subst ra_options_loop.simps) (simp add: Let_def n split: option.split)
qed (simp add: ra_options_loop.simps)

lemmas ndp_list_simps = ndp_wf_concat [of _ "[]", simplified, folded ndp_options_well_formed_def]
  ndp_contain_concat [of _ "[]", simplified, folded ndp_options_contain_def]
  ndp_lla_len_concat [of _ "[]", simplified, folded ndp_ethernet_lla_option_length_valid_def]
  ndp_lla_concat [of _ "[]", simplified, folded ndp_ethernet_link_layer_address_def]

lemma ndp_nil [simp]:
  "ndp_options_well_formed []" "ndp_options_contain [] ty = Some False"
  "ndp_ethernet_lla_option_length_valid [] ty" "ndp_ethernet_link_layer_address [] ty = None"
  using ndp_list_simps [of "[]"] by simp_all

text \<open>On a list the validator accepts the unchecked search returns: it neither indexes out of range
  nor runs forever.\<close>

lemma ndp_contain_total: "ndp_wf_loop options offset \<Longrightarrow> ndp_contain_loop options ty offset \<noteq> None"
proof (induction options offset rule: ndp_wf_loop.induct)
  case (1 options offset)
  then show ?case
    by (subst (asm) (2) ndp_wf_loop.simps, subst ndp_contain_loop.simps)
       (auto simp: Let_def split: if_splits)
qed

section \<open>Sealed messages\<close>

lemma icmpv6_parse_sealed:
  assumes "length rest \<le> 65531"
  shows "\<exists>csum. icmpv6_parse src dst (icmpv6_seal src dst (ty # code # 0 # 0 # rest)) True =
    Inr \<lparr> ic6_msg_type = ty, ic6_code = code, ic6_checksum = csum, ic6_payload = rest \<rparr>"
proof -
  define b where "b = ty # code # 0 # 0 # rest"
  define c where "c = compute_ipv6_transport_checksum src dst NEXT_HEADER_ICMPV6 b"
  have "compute_ipv6_transport_checksum src dst NEXT_HEADER_ICMPV6 (write_at 2 (u16_to_be c) b) = 0"
    unfolding c_def using assms by (intro ipv6_transport_seal) (auto simp: b_def NEXT_HEADER_ICMPV6_def)
  moreover have "write_at 2 (u16_to_be c) b = ty # code # ucast (drop_bit 8 c) # ucast c # rest"
    by (simp add: b_def write_at_def u16_to_be_def)
  ultimately show ?thesis
    by (simp add: icmpv6_seal_def b_def [symmetric] c_def [symmetric] icmpv6_parse_def)
qed

lemma length_icmpv6_seal [simp]: "4 \<le> length b \<Longrightarrow> length (icmpv6_seal src dst b) = length b"
  by (simp add: icmpv6_seal_def)

definition lla_option :: "u8 \<Rightarrow> MacAddress \<Rightarrow> bytes" where
  "lla_option ty mac = [ty, 1] @ bytes6 mac"

lemma lla_option [simp]:
  "ndp_opt (lla_option ty mac)" "lla_option ty mac ! 0 = ty" "lla_option ty mac ! Suc 0 = 1"
  "read6 2 (lla_option ty mac) = mac" "length (lla_option ty mac) = 8"
  by (cases mac, simp add: lla_option_def ndp_opt_def read6_def)+

section \<open>Solicitations and advertisements\<close>

lemma solicitation_accepted:
  assumes "\<not> ip6_is_multicast target" and "\<not> ip6_is_unspecified src"
  shows "\<exists>p. icmpv6_parse src dst (build_neighbor_solicitation src dst target mac) True = Inr p \<and>
    ic6_msg_type p = ICMPV6_TYPE_NEIGHBOR_SOLICIT \<and>
    validated_neighbor_solicitation_target p src dst 255 = Some target \<and>
    ndp_source_link_layer_address p = Some mac"
proof -
  define rest where "rest = [0, 0, 0, 0] @ bytes16 target @ concat [lla_option NDP_OPT_SRC_LINK_LAYER_ADDR mac]"
  obtain csum where "icmpv6_parse src dst (build_neighbor_solicitation src dst target mac) True =
      Inr \<lparr> ic6_msg_type = ICMPV6_TYPE_NEIGHBOR_SOLICIT, ic6_code = 0, ic6_checksum = csum, ic6_payload = rest \<rparr>"
    using icmpv6_parse_sealed [of rest src dst ICMPV6_TYPE_NEIGHBOR_SOLICIT 0]
    by (auto simp: build_neighbor_solicitation_def rest_def lla_option_def)
  moreover have "length rest = 28" "drop 20 rest = concat [lla_option NDP_OPT_SRC_LINK_LAYER_ADDR mac]"
    by (simp_all add: rest_def)
  moreover have "read16 4 rest = target"
    unfolding rest_def by (rule read16_append) simp
  ultimately show ?thesis
    using assms
    by (auto simp: validated_neighbor_solicitation_target_def ndp_source_link_layer_address_def
        ndp_list_simps simp del: concat.simps)
qed

lemma dad_accepted:
  assumes "\<not> ip6_is_multicast target" and dst: "dst = solicited_node_multicast target"
  shows "\<exists>p. icmpv6_parse ip6_UNSPECIFIED dst (build_dad_neighbor_solicitation dst target) True = Inr p \<and>
    ic6_msg_type p = ICMPV6_TYPE_NEIGHBOR_SOLICIT \<and>
    validated_neighbor_solicitation_target p ip6_UNSPECIFIED dst 255 = Some target \<and>
    ndp_source_link_layer_address p = None"
proof -
  define rest where "rest = [0, 0, 0, 0] @ bytes16 target @ concat []"
  obtain csum where "icmpv6_parse ip6_UNSPECIFIED dst (build_dad_neighbor_solicitation dst target) True =
      Inr \<lparr> ic6_msg_type = ICMPV6_TYPE_NEIGHBOR_SOLICIT, ic6_code = 0, ic6_checksum = csum, ic6_payload = rest \<rparr>"
    using icmpv6_parse_sealed [of rest ip6_UNSPECIFIED dst ICMPV6_TYPE_NEIGHBOR_SOLICIT 0]
    by (auto simp: build_dad_neighbor_solicitation_def rest_def)
  moreover have "length rest = 20" "drop 20 rest = concat []"
    by (simp_all add: rest_def)
  moreover have "read16 4 rest = target"
    unfolding rest_def by (rule read16_append) simp
  ultimately show ?thesis
    using assms
    by (auto simp: validated_neighbor_solicitation_target_def ndp_source_link_layer_address_def
        ndp_list_simps simp del: concat.simps)
qed

lemma advertisement_accepted:
  assumes "\<not> ip6_is_multicast target" and "\<not> (solicited \<and> ip6_is_multicast dst)"
  shows "\<exists>p. icmpv6_parse src dst
      (build_neighbor_advertisement src dst target mac is_router solicited override_flag) True = Inr p \<and>
    ic6_msg_type p = ICMPV6_TYPE_NEIGHBOR_ADVERT \<and>
    validated_neighbor_advertisement_target p dst 255 = Some target \<and>
    neighbor_advertisement_target_link_layer_address p = Some mac \<and>
    (ic6_payload p ! 0 AND 0x80 \<noteq> 0 \<longleftrightarrow> is_router) \<and> (ic6_payload p ! 0 AND 0x40 \<noteq> 0 \<longleftrightarrow> solicited) \<and>
    (ic6_payload p ! 0 AND 0x20 \<noteq> 0 \<longleftrightarrow> override_flag)"
proof -
  define flags :: u8 where "flags = (if is_router then 0x80 else 0) OR (if solicited then 0x40 else 0) OR
      (if override_flag then 0x20 else 0)"
  define rest where "rest = [flags, 0, 0, 0] @ bytes16 target @
      concat [lla_option NDP_OPT_TARGET_LINK_LAYER_ADDR mac]"
  have f: "(flags AND 0x80 \<noteq> 0) = is_router" "(flags AND 0x40 \<noteq> 0) = solicited"
      "(flags AND 0x20 \<noteq> 0) = override_flag"
    by (simp_all add: flags_def)
  obtain csum where "icmpv6_parse src dst
      (build_neighbor_advertisement src dst target mac is_router solicited override_flag) True =
      Inr \<lparr> ic6_msg_type = ICMPV6_TYPE_NEIGHBOR_ADVERT, ic6_code = 0, ic6_checksum = csum, ic6_payload = rest \<rparr>"
    using icmpv6_parse_sealed [of rest src dst ICMPV6_TYPE_NEIGHBOR_ADVERT 0]
    by (auto simp: build_neighbor_advertisement_def rest_def lla_option_def Let_def flags_def)
  moreover have "length rest = 28" "drop 20 rest = concat [lla_option NDP_OPT_TARGET_LINK_LAYER_ADDR mac]"
      "rest ! 0 = flags"
    by (simp_all add: rest_def)
  moreover have "read16 4 rest = target"
    unfolding rest_def by (rule read16_append) simp
  ultimately show ?thesis
    using assms f
    by (auto simp: validated_neighbor_advertisement_target_def
        neighbor_advertisement_target_link_layer_address_def ndp_list_simps simp del: concat.simps)
qed

text \<open>C37: Neighbor Discovery messages mean what they were built from.  A solicitation is accepted
  with its target and the link-layer address of its sender, a probe of duplicate address detection
  with its target and no link-layer address, and an advertisement with its target, its link-layer
  address and its three flags; the checksum verifies in each case.  The targets must be unicast, the
  source of a solicitation specified, and a solicited advertisement not sent to a group.\<close>
theorem ndp_messages_roundtrip:
  assumes "\<not> ip6_is_multicast target" and "\<not> ip6_is_unspecified src"
    and "\<not> (solicited \<and> ip6_is_multicast dst)"
  shows "(\<exists>p. icmpv6_parse src dst (build_neighbor_solicitation src dst target mac) True = Inr p \<and>
      validated_neighbor_solicitation_target p src dst 255 = Some target \<and>
      ndp_source_link_layer_address p = Some mac) \<and>
    (let group = solicited_node_multicast target
     in \<exists>p. icmpv6_parse ip6_UNSPECIFIED group (build_dad_neighbor_solicitation group target) True = Inr p \<and>
          validated_neighbor_solicitation_target p ip6_UNSPECIFIED group 255 = Some target \<and>
          ndp_source_link_layer_address p = None) \<and>
    (\<exists>p. icmpv6_parse src dst (build_neighbor_advertisement src dst target mac r solicited ov) True = Inr p \<and>
      validated_neighbor_advertisement_target p dst 255 = Some target \<and>
      neighbor_advertisement_target_link_layer_address p = Some mac \<and>
      (ic6_payload p ! 0 AND 0x80 \<noteq> 0 \<longleftrightarrow> r) \<and> (ic6_payload p ! 0 AND 0x40 \<noteq> 0 \<longleftrightarrow> solicited) \<and>
      (ic6_payload p ! 0 AND 0x20 \<noteq> 0 \<longleftrightarrow> ov))"
  using solicitation_accepted [OF assms(1,2), of dst mac] dad_accepted [OF assms(1) refl]
    advertisement_accepted [OF assms(1,3), of src mac r ov]
  unfolding Let_def by blast

theorem ndp_messages_roundtrip_witness:
  "\<exists>p. icmpv6_parse ip6_LOOPBACK ip6_LOOPBACK
     (build_neighbor_solicitation ip6_LOOPBACK ip6_LOOPBACK ip6_LOOPBACK (O6 2 0 0 0 0 1)) True = Inr p \<and>
   validated_neighbor_solicitation_target p ip6_LOOPBACK ip6_LOOPBACK 255 = Some ip6_LOOPBACK"
  using ndp_messages_roundtrip [of ip6_LOOPBACK ip6_LOOPBACK True ip6_LOOPBACK "O6 2 0 0 0 0 1" False False]
  by (auto simp: ip6_is_multicast_def ip6_is_unspecified_def ip6_LOOPBACK_def ip6_UNSPECIFIED_def)

section \<open>Router advertisements\<close>

definition pio_wf :: "PrefixInformationOption \<Rightarrow> bool" where
  "pio_wf p \<longleftrightarrow> pio_prefix_length p \<le> 128 \<and> pio_preferred_lifetime p \<le> pio_valid_lifetime p \<and>
     ip6_mask (pio_prefix p) (pio_prefix_length p) = pio_prefix p"

definition rio_wf :: "RouteInformationOption \<Rightarrow> bool" where
  "rio_wf r \<longleftrightarrow> rio_prefix_length r \<le> 128 \<and> ip6_mask (rio_prefix r) (rio_prefix_length r) = rio_prefix r"

definition rdnss_wf :: "RdnssOption \<Rightarrow> bool" where
  "rdnss_wf r \<longleftrightarrow> rdnss_servers r \<noteq> [] \<and> length (rdnss_servers r) \<le> 127"

lemma read_u32_be: "read_u32 i (xs @ u32_to_be w @ ys) = w" if "i = length xs"
  using that by (simp add: read_u32_def u32_to_be_def nth_append Suc_diff_le)

lemma pio_option:
  assumes "pio_wf p"
  shows "ndp_opt (pio_bytes p)"
    "ra_option (pio_bytes p ! 0) (unat (pio_bytes p ! 1)) (pio_bytes p) ra =
       Some (ra\<lparr> ra_prefixes := ra_prefixes ra @ [p] \<rparr>)"
    "pio_bytes p ! 0 = NDP_OPT_PREFIX_INFORMATION"
proof -
  define b where "b = pio_bytes p"
  define flags :: u8 where "flags = (if pio_on_link p then 0x80 else 0) OR (if pio_autonomous p then 0x40 else 0)"
  define hd4 where "hd4 = [NDP_OPT_PREFIX_INFORMATION, 4, pio_prefix_length p, flags]"
  have b: "b = hd4 @ u32_to_be (pio_valid_lifetime p) @ u32_to_be (pio_preferred_lifetime p) @ u32_to_be 0 @
      bytes16 (pio_prefix p)"
    using assms by (simp add: b_def pio_bytes_def hd4_def flags_def Let_def pio_wf_def)
  have hd: "b ! 0 = NDP_OPT_PREFIX_INFORMATION" "b ! 1 = 4" "b ! 2 = pio_prefix_length p" "b ! 3 = flags"
      "length b = 32"
    by (simp_all add: b hd4_def)
  have v: "read_u32 4 b = pio_valid_lifetime p"
    unfolding b by (rule read_u32_be) (simp add: hd4_def)
  have q: "read_u32 8 b = pio_preferred_lifetime p"
    using read_u32_be [of 8 "hd4 @ u32_to_be (pio_valid_lifetime p)" "pio_preferred_lifetime p"]
    by (simp add: b hd4_def)
  have a: "read16 16 b = pio_prefix p"
    using read16_append [of 16 "hd4 @ u32_to_be (pio_valid_lifetime p) @ u32_to_be (pio_preferred_lifetime p) @
        u32_to_be 0" "pio_prefix p" "[]"]
    by (simp add: b hd4_def)
  have "(flags AND 0x80 \<noteq> 0) = pio_on_link p" "(flags AND 0x40 \<noteq> 0) = pio_autonomous p"
    by (simp_all add: flags_def)
  then have pio: "parse_pio b = p"
    using assms hd v q a by (simp add: parse_pio_def pio_new_def pio_wf_def min_def)
  show "ndp_opt (pio_bytes p)"
    using hd by (simp add: ndp_opt_def flip: b_def)
  show "pio_bytes p ! 0 = NDP_OPT_PREFIX_INFORMATION" using hd by (simp flip: b_def)
  have "\<not> 128 < pio_prefix_length p" "\<not> pio_valid_lifetime p < pio_preferred_lifetime p"
    using assms by (auto simp: pio_wf_def not_less)
  then show "ra_option (pio_bytes p ! 0) (unat (pio_bytes p ! 1)) (pio_bytes p) ra =
       Some (ra\<lparr> ra_prefixes := ra_prefixes ra @ [p] \<rparr>)"
    unfolding b_def [symmetric] using hd v q pio by (simp add: ra_option_def)
qed

lemma masked_tail:
  assumes "ip6_mask a p = a" and "unat p \<le> 8 * k" and "k \<le> 16"
  shows "write_at 0 (take (k) (bytes16 a)) (replicate 16 0) = bytes16 a"
proof (rule nth_equalityI)
  have z: "(65280 :: u8) = 0" by simp
  fix i assume "i < length (write_at 0 (take k (bytes16 a)) (replicate 16 0))"
  then have i: "i < 16" using assms(3) by (simp add: min_def split: if_splits)
  have "bytes16 a ! i = 0" if "k \<le> i"
  proof -
    have p: "unat p div 8 \<le> i" using assms(2) that by linarith
    have "unat p mod 8 = 0" if "unat p div 8 = i"
      using assms(2) \<open>k \<le> i\<close> that mult_div_mod_eq [of 8 "unat p"] by linarith
    then show ?thesis
      using ip6_mask_nth [OF i, of a p] assms(1) p by (auto simp: z split: if_splits)
  qed
  then show "write_at 0 (take k (bytes16 a)) (replicate 16 0) ! i = bytes16 a ! i"
    using i assms(3) by (simp add: nth_write_at min_def)
qed (use assms(3) in \<open>simp add: min_def\<close>)

lemma rio_flags: "from_rio_flags (ra_flags x) = Some x" "from_ra_flags (ra_flags x) = x"
  by (cases x; simp add: from_rio_flags_def from_ra_flags_def)+

lemma rio_option:
  assumes wf: "rio_wf r"
  shows "ndp_opt (rio_append_to r)"
    "ra_option (rio_append_to r ! 0) (unat (rio_append_to r ! 1)) (rio_append_to r) ra =
       Some (ra\<lparr> ra_routes := ra_routes ra @ [r] \<rparr>)"
    "rio_append_to r ! 0 = NDP_OPT_ROUTE_INFORMATION"
proof -
  define units where "units = unat (rio_length_units r)"
  define k where "k = (units - 1) * 8"
  define b where "b = rio_append_to r"
  define hd4 where "hd4 = [NDP_OPT_ROUTE_INFORMATION, rio_length_units r, rio_prefix_length r, ra_flags (rio_preference r)]"
  have u: "1 \<le> units" "units \<le> 3" "k \<le> 16" "rio_length_units r \<noteq> 0"
    by (auto simp: units_def rio_length_units_def k_def)
  have cover: "unat (rio_prefix_length r) \<le> 8 * k"
    using wf by (auto simp: rio_wf_def k_def units_def rio_length_units_def word_le_nat_alt)
  have valid: "rio_length_valid (rio_prefix_length r) units"
    using wf by (auto simp: rio_wf_def rio_length_valid_def units_def rio_length_units_def)
  have b: "b = hd4 @ u32_to_be (rio_route_lifetime r) @ take k (bytes16 (rio_prefix r))"
    by (simp add: b_def rio_append_to_def hd4_def Let_def k_def units_def)
  have hd: "b ! 0 = NDP_OPT_ROUTE_INFORMATION" "b ! 1 = rio_length_units r" "b ! 2 = rio_prefix_length r"
      "b ! 3 = ra_flags (rio_preference r)" "length b = 8 + k" "drop 8 b = take k (bytes16 (rio_prefix r))"
    using u by (simp_all add: b hd4_def min_def)
  have v: "read_u32 4 b = rio_route_lifetime r"
    unfolding b by (rule read_u32_be) (simp add: hd4_def)
  have len: "length b = units * 8" using hd(5) u(1) by (simp add: k_def)
  have "write_at 0 (drop 8 b) (replicate 16 0) = bytes16 (rio_prefix r)"
    unfolding hd(6) using wf cover u(3) by (intro masked_tail) (auto simp: rio_wf_def)
  then have "parse_rio b units = [r]"
    using valid hd v wf by (simp add: parse_rio_def rio_flags rio_new_def rio_wf_def min_def)
  then show "ra_option (rio_append_to r ! 0) (unat (rio_append_to r ! 1)) (rio_append_to r) ra =
       Some (ra\<lparr> ra_routes := ra_routes ra @ [r] \<rparr>)"
    unfolding b_def [symmetric] using hd by (simp add: ra_option_def ndp_opts flip: units_def)
  show "ndp_opt (rio_append_to r)"
    using hd len u by (simp add: ndp_opt_def units_def flip: b_def)
  show "rio_append_to r ! 0 = NDP_OPT_ROUTE_INFORMATION" using hd by (simp flip: b_def)
qed

lemma read16_concat: "i < length ss \<Longrightarrow> read16 (length pre + i * 16) (pre @ concat (map bytes16 ss)) = ss ! i"
proof (induction ss arbitrary: i pre)
  case (Cons a ss)
  show ?case
  proof (cases i)
    case 0
    then show ?thesis using read16_append [of "length pre" pre a] by simp
  next
    case (Suc j)
    then show ?thesis using Cons.IH [of j "pre @ bytes16 a"] Cons.prems by (simp add: algebra_simps)
  qed
qed simp

lemma rdnss_option:
  assumes wf: "rdnss_wf r"
  shows "ndp_opt (rdnss_bytes r)"
    "ra_option (rdnss_bytes r ! 0) (unat (rdnss_bytes r ! 1)) (rdnss_bytes r) ra =
       Some (ra\<lparr> ra_rdnss := ra_rdnss ra @ [r] \<rparr>)"
    "rdnss_bytes r ! 0 = NDP_OPT_RDNSS"
proof -
  define n where "n = length (rdnss_servers r)"
  define b where "b = rdnss_bytes r"
  have n: "1 \<le> n" "n \<le> 127" using wf by (auto simp: rdnss_wf_def n_def Suc_le_eq)
  define hd8 where "hd8 = [NDP_OPT_RDNSS, of_nat (1 + n * 2), 0, 0] @ u32_to_be (rdnss_lifetime r)"
  have b: "b = hd8 @ concat (map bytes16 (rdnss_servers r))"
    by (simp add: b_def rdnss_bytes_def hd8_def n_def)
  have u: "unat (of_nat (1 + n * 2) :: u8) = 1 + n * 2"
    using n by (simp add: unat_of_nat del: of_nat_add of_nat_mult of_nat_Suc)
  have hd: "b ! 0 = NDP_OPT_RDNSS" "b ! 1 = of_nat (1 + n * 2)"
    by (simp_all add: b hd8_def)
  have "length (concat (map bytes16 ss)) = 16 * length ss" for ss
    by (induction ss) simp_all
  then have len: "length b = (1 + n * 2) * 8" by (simp add: b hd8_def n_def)
  have l: "read_u32 4 b = rdnss_lifetime r"
    using read_u32_be [of 4 "[NDP_OPT_RDNSS, of_nat (1 + n * 2), 0, 0]"] by (simp add: b hd8_def)
  have "map (\<lambda>i. read16 (8 + i * 16) b) [0..<n] = rdnss_servers r"
    using read16_concat [of _ "rdnss_servers r" hd8]
    by (intro nth_equalityI) (simp_all add: b n_def hd8_def)
  then have "parse_rdnss b (1 + n * 2) = [r]"
    using n l mod_mult_self3 [of n 2 1] by (simp add: parse_rdnss_def)
  then show "ra_option (rdnss_bytes r ! 0) (unat (rdnss_bytes r ! 1)) (rdnss_bytes r) ra =
       Some (ra\<lparr> ra_rdnss := ra_rdnss ra @ [r] \<rparr>)"
    unfolding b_def [symmetric] hd u by (simp add: ra_option_def ndp_opts)
  show "ndp_opt (rdnss_bytes r)"
    unfolding ndp_opt_def b_def [symmetric] hd len using u by (metis unat_0 add_is_0 zero_neq_one)
  show "rdnss_bytes r ! 0 = NDP_OPT_RDNSS" using hd by (simp flip: b_def)
qed

definition ra_fold :: "bytes list \<Rightarrow> RouterAdvertisement option \<Rightarrow> RouterAdvertisement option" where
  "ra_fold os r = foldl (\<lambda>r x. Option.bind r (ra_option (x ! 0) (unat (x ! 1)) x)) r os"

lemma ra_fold_simps:
  "ra_fold (xs @ ys) r = ra_fold ys (ra_fold xs r)" "ra_fold [] r = r"
  "ra_fold [lla_option NDP_OPT_SRC_LINK_LAYER_ADDR mac] (Some ra) = Some ra"
  "ra_fold [[NDP_OPT_MTU, 1, 0, 0] @ u32_to_be m] (Some ra) = Some (ra\<lparr> ra_mtu := Some m \<rparr>)"
  using read_u32_be [of 4 "[NDP_OPT_MTU, 1, 0, 0]" m "[]"]
  by (simp_all add: ra_fold_def ra_option_def ndp_opts)

lemma ra_fold_pio:
  "\<forall>p \<in> set ps. pio_wf p \<Longrightarrow> ra_fold (map pio_bytes ps) (Some ra) = Some (ra\<lparr> ra_prefixes := ra_prefixes ra @ ps \<rparr>)"
  unfolding ra_fold_def by (induction ps arbitrary: ra) (simp_all add: pio_option(2) del: One_nat_def)

lemma ra_fold_rio:
  "\<forall>p \<in> set rs. rio_wf p \<Longrightarrow> ra_fold (map rio_append_to rs) (Some ra) = Some (ra\<lparr> ra_routes := ra_routes ra @ rs \<rparr>)"
  unfolding ra_fold_def by (induction rs arbitrary: ra) (simp_all add: rio_option(2) del: One_nat_def)

lemma ra_fold_rdnss:
  "\<forall>p \<in> set ds. rdnss_wf p \<Longrightarrow> ra_fold (map rdnss_bytes ds) (Some ra) = Some (ra\<lparr> ra_rdnss := ra_rdnss ra @ ds \<rparr>)"
  unfolding ra_fold_def by (induction ds arbitrary: ra) (simp_all add: rdnss_option(2) del: One_nat_def)

text \<open>C36: what a router advertises is what a host learns.  A router advertisement with any hop limit,
  lifetime and preference, an optional MTU and link-layer address, and any lists of well-formed
  prefixes, routes and name servers that fit a packet passes the validation of a host on the link
  (link-local source, hop limit 255, verified checksum) and is parsed to exactly these values.\<close>
theorem router_advertisement_roundtrip:
  assumes wf: "\<forall>p \<in> set prefixes. pio_wf p" "\<forall>r \<in> set routes. rio_wf r" "\<forall>d \<in> set rdnss. rdnss_wf d"
    and src: "ip6_is_link_local src"
    and len: "length (build_router_advertisement_full src dst hop lifetime pref prefixes routes mtu rdnss [] mac) \<le> 65535"
  shows "\<exists>p. icmpv6_parse src dst
      (build_router_advertisement_full src dst hop lifetime pref prefixes routes mtu rdnss [] mac) True = Inr p \<and>
    ndp_source_link_layer_address p = mac \<and>
    validated_router_advertisement p src 255 =
      Some \<lparr> ra_current_hop_limit = hop, ra_managed = False, ra_other_config = False, ra_preference = pref,
             ra_router_lifetime = lifetime, ra_reachable_time = 0, ra_retrans_timer = 0, ra_mtu = mtu,
             ra_prefixes = prefixes, ra_routes = routes, ra_rdnss = rdnss, ra_dnssl = [] \<rparr>"
proof -
  define macs where "macs = (case mac of Some m \<Rightarrow> [lla_option NDP_OPT_SRC_LINK_LAYER_ADDR m] | None \<Rightarrow> [])"
  define mtus where "mtus = (case mtu of Some m \<Rightarrow> [[NDP_OPT_MTU, 1, 0, 0] @ u32_to_be m] | None \<Rightarrow> [])"
  define os where "os = macs @ mtus @ map pio_bytes prefixes @ map rio_append_to routes @ map rdnss_bytes rdnss"
  define h where "h = [hop, ra_flags pref] @ u16_to_be lifetime @ u32_to_be 0 @ u32_to_be 0"
  define rest where "rest = h @ concat os"
  have b: "build_router_advertisement_full src dst hop lifetime pref prefixes routes mtu rdnss [] mac =
      icmpv6_seal src dst (ICMPV6_TYPE_ROUTER_ADVERT # 0 # 0 # 0 # rest)"
    by (simp add: build_router_advertisement_full_def rest_def h_def os_def macs_def mtus_def lla_option_def
        split: option.split)
  then have "length rest \<le> 65531" using len by simp
  from icmpv6_parse_sealed [OF this, of src dst ICMPV6_TYPE_ROUTER_ADVERT 0]
  obtain csum where p: "icmpv6_parse src dst
      (build_router_advertisement_full src dst hop lifetime pref prefixes routes mtu rdnss [] mac) True =
      Inr \<lparr> ic6_msg_type = ICMPV6_TYPE_ROUTER_ADVERT, ic6_code = 0, ic6_checksum = csum, ic6_payload = rest \<rparr>"
    unfolding b by blast
  have mtu_opt: "ndp_opt x \<and> x ! 0 = NDP_OPT_MTU" if "x \<in> set mtus" for x
    using that by (auto simp: mtus_def ndp_opt_def split: option.splits)
  have mac_opt: "ndp_opt x \<and> x ! 1 = 1 \<and> x ! 0 = NDP_OPT_SRC_LINK_LAYER_ADDR" if "x \<in> set macs" for x
    using that by (auto simp: macs_def split: option.splits)
  have opts: "\<forall>x \<in> set os. ndp_opt x"
    using wf pio_option(1) rio_option(1) rdnss_option(1) mtu_opt mac_opt by (auto simp: os_def)
  have ty: "\<forall>x \<in> set (mtus @ map pio_bytes prefixes @ map rio_append_to routes @ map rdnss_bytes rdnss).
      x ! 0 \<noteq> NDP_OPT_SRC_LINK_LAYER_ADDR"
    using wf pio_option(3) rio_option(3) rdnss_option(3) mtu_opt by (auto simp: ndp_opts)
  have len12: "length h = 12" by (simp add: h_def)
  then have drop: "drop 12 rest = concat os" "12 \<le> length rest" by (simp_all add: rest_def)
  have fields: "rest ! 0 = hop" "rest ! 1 = ra_flags pref" "read_u16 2 rest = lifetime" "read_u32 4 rest = 0"
      "read_u32 8 rest = 0"
    by (simp_all add: rest_def h_def read_u16_def read_u32_def u16_to_be_def u32_to_be_def u32_from_be_def)
  have f0: "ra_flags pref AND 0x80 = 0" "ra_flags pref AND 0x40 = 0" by (cases pref; simp)+
  have "List.find (\<lambda>x. x ! 0 = NDP_OPT_SRC_LINK_LAYER_ADDR) os = (case macs of [] \<Rightarrow> None | x # _ \<Rightarrow> Some x)"
    using ty mac_opt by (auto simp: os_def macs_def find_None_iff split: option.splits)
  then have lla: "ndp_ethernet_link_layer_address (concat os) NDP_OPT_SRC_LINK_LAYER_ADDR = mac"
    using ndp_list_simps(4) [OF opts] by (cases mac) (simp_all add: macs_def)
  have fold: "ra_fold os (Some ra) = Some (ra\<lparr> ra_mtu := (case mtu of None \<Rightarrow> ra_mtu ra | m \<Rightarrow> m),
      ra_prefixes := ra_prefixes ra @ prefixes, ra_routes := ra_routes ra @ routes,
      ra_rdnss := ra_rdnss ra @ rdnss \<rparr>)" for ra
  proof -
    have "ra_fold macs (Some r) = Some r" for r
      using ra_fold_simps(2,3) by (auto simp: macs_def split: option.split)
    moreover have "ra_fold mtus (Some r) = Some (r\<lparr> ra_mtu := (case mtu of None \<Rightarrow> ra_mtu r | m \<Rightarrow> m) \<rparr>)" for r
      using ra_fold_simps(2,4) by (cases mtu) (auto simp: mtus_def)
    ultimately show ?thesis
      using wf by (simp add: os_def ra_fold_simps(1) ra_fold_pio ra_fold_rio ra_fold_rdnss)
  qed
  have loop: "ra_options_loop rest 12 ra = ra_fold os (Some ra)" for ra
    using ra_options_concat [OF opts, of h ra] len12 by (simp add: rest_def ra_fold_def)
  have "\<forall>x \<in> set os. x ! 0 = NDP_OPT_SRC_LINK_LAYER_ADDR \<longrightarrow> x ! 1 = 1"
    using ty mac_opt by (auto simp: os_def)
  then have ok: "ndp_options_well_formed (concat os)"
      "ndp_ethernet_lla_option_length_valid (concat os) NDP_OPT_SRC_LINK_LAYER_ADDR"
    using ndp_list_simps(1,3) [OF opts] by simp_all
  show ?thesis
    unfolding p using drop fields f0 src lla ok
    by (cases mtu) (simp_all add: validated_router_advertisement_def ndp_source_link_layer_address_def
        ra_parse_def loop fold rio_flags, simp_all add: icmpv6_types)
qed

theorem router_advertisement_roundtrip_witness:
  "\<exists>p ra. icmpv6_parse (O16 0xfe 0x80 0 0 0 0 0 0 0 0 0 0 0 0 0 1) LINK_LOCAL_ALL_NODES
     (build_router_advertisement_full (O16 0xfe 0x80 0 0 0 0 0 0 0 0 0 0 0 0 0 1) LINK_LOCAL_ALL_NODES 64 1800
        RpHigh [] [] (Some 1500) [\<lparr> rdnss_lifetime = 600, rdnss_servers = [ip6_LOOPBACK] \<rparr>] [] None) True = Inr p \<and>
   validated_router_advertisement p (O16 0xfe 0x80 0 0 0 0 0 0 0 0 0 0 0 0 0 1) 255 = Some ra \<and>
   ra_mtu ra = Some 1500 \<and> ra_rdnss ra = [\<lparr> rdnss_lifetime = 600, rdnss_servers = [ip6_LOOPBACK] \<rparr>]"
  using router_advertisement_roundtrip [of "[]" "[]" "[\<lparr> rdnss_lifetime = 600, rdnss_servers = [ip6_LOOPBACK] \<rparr>]"
      "O16 0xfe 0x80 0 0 0 0 0 0 0 0 0 0 0 0 0 1" LINK_LOCAL_ALL_NODES 64 1800 RpHigh "Some 1500" None]
  by (auto simp: rdnss_wf_def ip6_is_link_local_def build_router_advertisement_full_def rdnss_bytes_def)

end
