(* ===== verification/Ndp.thy ===== *)
theory Ndp
  imports Icmpv6 Comparators
begin

text \<open>
  The neighbor cache of \<open>icmpv6.rs\<close>: link-layer addresses with the state of neighbor unreachability
  detection, and the parameters, name servers and search domains learned from router
  advertisements.  The cache stays consistent under all its operations; a neighbor that is used and
  never answers is probed three times and then forgotten; entries without timed state never age.
  \<open>str::to_lowercase\<close> is the parameter \<open>lower\<close> of the one operation that uses it.
\<close>

section \<open>The cache\<close>

definition NDP_REACHABLE_TIME_MS :: u64 where "NDP_REACHABLE_TIME_MS = 30000"
definition NDP_DELAY_FIRST_PROBE_TIME_MS :: u64 where "NDP_DELAY_FIRST_PROBE_TIME_MS = 5000"
definition NDP_RETRANS_TIMER_MS :: u64 where "NDP_RETRANS_TIMER_MS = 1000"
definition NDP_MAX_UNICAST_SOLICIT :: u8 where "NDP_MAX_UNICAST_SOLICIT = 3"

datatype NeighborState = NsReachable | NsStale | NsDelay | NsProbe

record NudMetadata =
  nud_state :: NeighborState
  nud_deadline_ms :: "u64 option"
  nud_probes_sent :: u8

record NdpTable =
  nt_entries :: "(Ipv6Address, MacAddress) hash_map"
  nt_nud :: "(Ipv6Address, NudMetadata) hash_map"
  nt_rdnss_servers :: "(Ipv6Address, u64) hash_map"
  nt_dnssl_domains :: "(bytes, u64) hash_map"
  nt_link_mtu :: "u32 option"
  nt_reachable_time_ms :: u64
  nt_retrans_timer_ms :: u64

definition ndp_new :: NdpTable where
  "ndp_new = \<lparr> nt_entries = [], nt_nud = [], nt_rdnss_servers = [], nt_dnssl_domains = [],
     nt_link_mtu = None, nt_reachable_time_ms = NDP_REACHABLE_TIME_MS,
     nt_retrans_timer_ms = NDP_RETRANS_TIMER_MS \<rparr>"

section \<open>Router advertisements\<close>

definition apply_router_advertisement_timers :: "u32 \<Rightarrow> u32 \<Rightarrow> NdpTable \<Rightarrow> NdpTable" where
  "apply_router_advertisement_timers reachable_time_ms retrans_timer_ms t =
     (let t = (if reachable_time_ms \<noteq> 0 then t\<lparr> nt_reachable_time_ms := ucast reachable_time_ms \<rparr> else t)
      in if retrans_timer_ms \<noteq> 0 then t\<lparr> nt_retrans_timer_ms := ucast retrans_timer_ms \<rparr> else t)"

definition apply_rdnss :: "u64 \<Rightarrow> RdnssOption \<Rightarrow> NdpTable \<Rightarrow> NdpTable" where
  "apply_rdnss now_ms r t =
     (if rdnss_lifetime r = 0
      then t\<lparr> nt_rdnss_servers := fold hm_remove (rdnss_servers r) (nt_rdnss_servers t) \<rparr>
      else let expiry = sat_add now_ms (ucast (rdnss_lifetime r) * 1000)
           in t\<lparr> nt_rdnss_servers := fold (\<lambda>s. hm_insert s expiry) (rdnss_servers r) (nt_rdnss_servers t) \<rparr>)"

definition apply_dnssl :: "(bytes \<Rightarrow> bytes) \<Rightarrow> u64 \<Rightarrow> DnsslOption \<Rightarrow> NdpTable \<Rightarrow> NdpTable" where
  "apply_dnssl lower now_ms d t =
     (if dnssl_lifetime d = 0
      then t\<lparr> nt_dnssl_domains := fold (\<lambda>x. hm_remove (lower x)) (dnssl_search_list d) (nt_dnssl_domains t) \<rparr>
      else let expiry = sat_add now_ms (ucast (dnssl_lifetime d) * 1000)
           in t\<lparr> nt_dnssl_domains :=
                  fold (\<lambda>x. hm_insert (lower x) expiry) (dnssl_search_list d) (nt_dnssl_domains t) \<rparr>)"

definition apply_router_advertisement ::
  "(bytes \<Rightarrow> bytes) \<Rightarrow> RouterAdvertisement \<Rightarrow> u64 \<Rightarrow> NdpTable \<Rightarrow> NdpTable" where
  "apply_router_advertisement lower ra now_ms t =
     (let t = apply_router_advertisement_timers (ra_reachable_time ra) (ra_retrans_timer ra) t;
          t = (case ra_mtu ra of Some mtu \<Rightarrow> if mtu \<ge> 1280 then t\<lparr> nt_link_mtu := Some mtu \<rparr> else t | None \<Rightarrow> t);
          t = fold (apply_rdnss now_ms) (ra_rdnss ra) t
      in fold (apply_dnssl lower now_ms) (ra_dnssl ra) t)"

definition learned_dns_servers :: "NdpTable \<Rightarrow> u64 \<Rightarrow> Ipv6Address list" where
  "learned_dns_servers t now_ms =
     sort_by (\<lambda>a b. cmp_list (bytes16 a) (bytes16 b))
       (map fst (filter (\<lambda>(_, expiry). now_ms < expiry) (nt_rdnss_servers t)))"

definition learned_search_domains :: "NdpTable \<Rightarrow> u64 \<Rightarrow> bytes list" where
  "learned_search_domains t now_ms =
     sort_by cmp_list (map fst (filter (\<lambda>(_, expiry). now_ms < expiry) (nt_dnssl_domains t)))"

definition set_link_mtu :: "u32 option \<Rightarrow> NdpTable \<Rightarrow> NdpTable" where
  "set_link_mtu mtu t = t\<lparr> nt_link_mtu := mtu \<rparr>"

definition purge_expired_dns :: "u64 \<Rightarrow> NdpTable \<Rightarrow> NdpTable" where
  "purge_expired_dns now_ms t =
     t\<lparr> nt_rdnss_servers := filter (\<lambda>(_, expiry). now_ms < expiry) (nt_rdnss_servers t),
        nt_dnssl_domains := filter (\<lambda>(_, expiry). now_ms < expiry) (nt_dnssl_domains t) \<rparr>"

section \<open>Neighbors\<close>

definition ndp_insert :: "Ipv6Address \<Rightarrow> MacAddress \<Rightarrow> NdpTable \<Rightarrow> NdpTable" where
  "ndp_insert ip mac t = t\<lparr> nt_entries := hm_insert ip mac (nt_entries t), nt_nud := hm_remove ip (nt_nud t) \<rparr>"

definition stale_meta :: NudMetadata where
  "stale_meta = \<lparr> nud_state = NsStale, nud_deadline_ms = None, nud_probes_sent = 0 \<rparr>"

definition mark_stale :: "Ipv6Address \<Rightarrow> MacAddress \<Rightarrow> NdpTable \<Rightarrow> NdpTable" where
  "mark_stale ip mac t =
     t\<lparr> nt_entries := hm_insert ip mac (nt_entries t), nt_nud := hm_insert ip stale_meta (nt_nud t) \<rparr>"

definition learn_stale :: "Ipv6Address \<Rightarrow> MacAddress \<Rightarrow> NdpTable \<Rightarrow> NdpTable" where
  "learn_stale ip mac t = (if hm_get (nt_entries t) ip = Some mac then t else mark_stale ip mac t)"

definition demote_reachable_preserving_mac :: "Ipv6Address \<Rightarrow> NdpTable \<Rightarrow> bool \<times> NdpTable" where
  "demote_reachable_preserving_mac ip t =
     (case hm_get (nt_nud t) ip of
        None \<Rightarrow> (False, t)
      | Some meta \<Rightarrow>
          if nud_state meta \<noteq> NsReachable then (False, t)
          else (True, t\<lparr> nt_nud := hm_insert ip stale_meta (nt_nud t) \<rparr>))"

definition confirm_reachable :: "Ipv6Address \<Rightarrow> MacAddress \<Rightarrow> u64 \<Rightarrow> NdpTable \<Rightarrow> NdpTable" where
  "confirm_reachable ip mac now_ms t =
     t\<lparr> nt_entries := hm_insert ip mac (nt_entries t),
        nt_nud := hm_insert ip \<lparr> nud_state = NsReachable,
          nud_deadline_ms = Some (sat_add now_ms (nt_reachable_time_ms t)), nud_probes_sent = 0 \<rparr> (nt_nud t) \<rparr>"

definition ndp_lookup :: "NdpTable \<Rightarrow> Ipv6Address \<Rightarrow> MacAddress option" where
  "ndp_lookup t ip = hm_get (nt_entries t) ip"

definition nud_due :: "NudMetadata \<Rightarrow> u64 \<Rightarrow> bool" where
  "nud_due meta now_ms = (case nud_deadline_ms meta of None \<Rightarrow> False | Some deadline \<Rightarrow> now_ms \<ge> deadline)"

definition transmit_meta :: "u64 \<Rightarrow> NudMetadata \<Rightarrow> NudMetadata" where
  "transmit_meta now_ms meta =
     (let meta = (if nud_state meta = NsReachable \<and> nud_due meta now_ms then stale_meta else meta)
      in if nud_state meta = NsStale
         then \<lparr> nud_state = NsDelay, nud_deadline_ms = Some (sat_add now_ms NDP_DELAY_FIRST_PROBE_TIME_MS),
                nud_probes_sent = 0 \<rparr>
         else meta)"

definition lookup_for_transmit :: "Ipv6Address \<Rightarrow> u64 \<Rightarrow> NdpTable \<Rightarrow> MacAddress option \<times> NdpTable" where
  "lookup_for_transmit ip now_ms t =
     (case hm_get (nt_entries t) ip of
        None \<Rightarrow> (None, t)
      | Some mac \<Rightarrow>
          (Some mac,
           case hm_get (nt_nud t) ip of
             None \<Rightarrow> t
           | Some meta \<Rightarrow> t\<lparr> nt_nud := hm_insert ip (transmit_meta now_ms meta) (nt_nud t) \<rparr>))"

definition ndp_state :: "NdpTable \<Rightarrow> Ipv6Address \<Rightarrow> NeighborState option" where
  "ndp_state t ip =
     (case hm_get (nt_entries t) ip of
        None \<Rightarrow> None
      | Some _ \<Rightarrow> Some (case hm_get (nt_nud t) ip of Some meta \<Rightarrow> nud_state meta | None \<Rightarrow> NsReachable))"

text \<open>One neighbor in \<open>step_nud\<close>: its new metadata, and whether it is probed or given up.\<close>

datatype nud_verdict = NudKeep | NudProbe | NudRemove

definition nud_tick :: "u64 \<Rightarrow> u64 \<Rightarrow> NudMetadata \<Rightarrow> NudMetadata \<times> nud_verdict" where
  "nud_tick retrans_timer_ms now_ms meta =
     (if nud_state meta = NsReachable \<and> nud_due meta now_ms then (stale_meta, NudKeep)
      else let due = nud_due meta now_ms
      in if nud_state meta = NsDelay \<and> due
         then (meta\<lparr> nud_state := NsProbe, nud_probes_sent := 1,
                     nud_deadline_ms := Some (sat_add now_ms retrans_timer_ms) \<rparr>, NudProbe)
         else if nud_state meta = NsProbe \<and> due
         then if nud_probes_sent meta < NDP_MAX_UNICAST_SOLICIT
              then (meta\<lparr> nud_probes_sent := sat_add (nud_probes_sent meta) 1,
                          nud_deadline_ms := Some (sat_add now_ms retrans_timer_ms) \<rparr>, NudProbe)
              else (meta, NudRemove)
         else (meta, NudKeep))"

fun nud_loop ::
  "u64 \<Rightarrow> Ipv6Address list \<Rightarrow> NdpTable \<Rightarrow> (Ipv6Address \<times> MacAddress) list \<times> Ipv6Address list \<times> NdpTable" where
  "nud_loop now_ms [] t = ([], [], t)"
| "nud_loop now_ms (ip # keys) t =
     (case hm_get (nt_nud t) ip of
        None \<Rightarrow> nud_loop now_ms keys t
      | Some meta \<Rightarrow>
          (case hm_get (nt_entries t) ip of
             None \<Rightarrow> let (probes, remove, t) = nud_loop now_ms keys t in (probes, ip # remove, t)
           | Some mac \<Rightarrow>
               let (meta, verdict) = nud_tick (nt_retrans_timer_ms t) now_ms meta;
                   (probes, remove, t) =
                     nud_loop now_ms keys (t\<lparr> nt_nud := hm_insert ip meta (nt_nud t) \<rparr>)
               in (case verdict of
                     NudKeep \<Rightarrow> (probes, remove, t)
                   | NudProbe \<Rightarrow> ((ip, mac) # probes, remove, t)
                   | NudRemove \<Rightarrow> (probes, ip # remove, t))))"

definition step_nud :: "u64 \<Rightarrow> NdpTable \<Rightarrow> (Ipv6Address \<times> MacAddress) list \<times> NdpTable" where
  "step_nud now_ms t =
     (let (probes, remove, t) = nud_loop now_ms (map fst (nt_nud t)) t
      in (probes, t\<lparr> nt_entries := fold hm_remove remove (nt_entries t),
                     nt_nud := fold hm_remove remove (nt_nud t) \<rparr>))"

section \<open>The invariant\<close>

definition meta_ok :: "NudMetadata \<Rightarrow> bool" where
  "meta_ok m \<longleftrightarrow> nud_probes_sent m \<le> 3 \<and> (nud_state m = NsProbe \<longleftrightarrow> nud_probes_sent m \<noteq> 0) \<and>
     (nud_state m = NsStale \<longleftrightarrow> nud_deadline_ms m = None)"

definition ndp_inv :: "NdpTable \<Rightarrow> bool" where
  "ndp_inv t \<longleftrightarrow> hm_wf (nt_entries t) \<and> hm_wf (nt_nud t) \<and>
     (\<forall>ip m. hm_get (nt_nud t) ip = Some m \<longrightarrow> hm_get (nt_entries t) ip \<noteq> None \<and> meta_ok m)"

datatype ndp_event = NdpInsert Ipv6Address MacAddress | NdpLearn Ipv6Address MacAddress
  | NdpStale Ipv6Address MacAddress | NdpDemote Ipv6Address | NdpConfirm Ipv6Address MacAddress u64
  | NdpTransmit Ipv6Address u64 | NdpTick u64 | NdpAdvert RouterAdvertisement u64 | NdpPurge u64

fun ndp_step :: "NdpTable \<Rightarrow> ndp_event \<Rightarrow> NdpTable" where
  "ndp_step t (NdpInsert ip mac) = ndp_insert ip mac t"
| "ndp_step t (NdpLearn ip mac) = learn_stale ip mac t"
| "ndp_step t (NdpStale ip mac) = mark_stale ip mac t"
| "ndp_step t (NdpDemote ip) = snd (demote_reachable_preserving_mac ip t)"
| "ndp_step t (NdpConfirm ip mac now) = confirm_reachable ip mac now t"
| "ndp_step t (NdpTransmit ip now) = snd (lookup_for_transmit ip now t)"
| "ndp_step t (NdpTick now) = snd (step_nud now t)"
| "ndp_step t (NdpAdvert ra now) = apply_router_advertisement id ra now t"
| "ndp_step t (NdpPurge now) = purge_expired_dns now t"

lemma meta_ok_cases [simp]: "meta_ok stale_meta"
  "meta_ok \<lparr> nud_state = NsReachable, nud_deadline_ms = Some d, nud_probes_sent = 0 \<rparr>"
  by (simp_all add: meta_ok_def stale_meta_def)

lemma meta_ok_transmit: "meta_ok m \<Longrightarrow> meta_ok (transmit_meta now m)"
  by (auto simp: meta_ok_def transmit_meta_def stale_meta_def Let_def)

lemma meta_ok_tick: "meta_ok m \<Longrightarrow> meta_ok (fst (nud_tick retrans now m))"
proof -
  assume m: "meta_ok m"
  have "sat_add p 1 \<le> 3 \<and> sat_add p 1 \<noteq> 0" if "p < 3" for p :: u8
  proof -
    have "unat p < 3" using that by (simp add: word_less_nat_alt)
    then have "unat (sat_add p 1) = unat p + 1" by (simp add: unat_sat_add)
    then have "unat (sat_add p 1) \<le> 3" "unat (sat_add p 1) \<noteq> 0" using \<open>unat p < 3\<close> by simp_all
    then show ?thesis by (simp add: word_le_nat_alt) auto
  qed
  then show ?thesis using m by (auto simp: meta_ok_def nud_tick_def stale_meta_def Let_def NDP_MAX_UNICAST_SOLICIT_def)
qed

text \<open>The loop of \<open>step_nud\<close> treats every neighbor on its own and changes metadata only.\<close>

abbreviation tick_of :: "u64 \<Rightarrow> NdpTable \<Rightarrow> Ipv6Address \<Rightarrow> NudMetadata \<times> nud_verdict" where
  "tick_of now t ip \<equiv> nud_tick (nt_retrans_timer_ms t) now (the (hm_get (nt_nud t) ip))"

lemma nud_loop_get:
  "distinct keys \<Longrightarrow> \<forall>ip \<in> set keys. hm_get (nt_nud t) ip \<noteq> None \<and> hm_get (nt_entries t) ip \<noteq> None \<Longrightarrow>
   nud_loop now keys t = (ps, rs, t') \<Longrightarrow>
   (\<exists>nud. t' = t\<lparr> nt_nud := nud \<rparr> \<and> (hm_wf (nt_nud t) \<longrightarrow> hm_wf nud) \<and>
      hm_get nud = (\<lambda>ip. if ip \<in> set keys then Some (fst (tick_of now t ip)) else hm_get (nt_nud t) ip)) \<and>
   set rs = {ip \<in> set keys. snd (tick_of now t ip) = NudRemove} \<and>
   set ps = {(ip, mac). ip \<in> set keys \<and> snd (tick_of now t ip) = NudProbe \<and> hm_get (nt_entries t) ip = Some mac}"
proof (induction keys arbitrary: t ps rs t')
  case Nil
  then have "t' = t\<lparr> nt_nud := nt_nud t \<rparr>" "rs = []" "ps = []" by simp_all
  then show ?case by (intro conjI exI [of _ "nt_nud t"]) simp_all
next
  case (Cons ip keys)
  obtain meta mac where get: "hm_get (nt_nud t) ip = Some meta" "hm_get (nt_entries t) ip = Some mac"
    using Cons.prems(2) by auto
  obtain meta' v where tick: "nud_tick (nt_retrans_timer_ms t) now meta = (meta', v)" by fastforce
  define u where "u = t\<lparr> nt_nud := hm_insert ip meta' (nt_nud t) \<rparr>"
  obtain ps' rs' u' where rec: "nud_loop now keys u = (ps', rs', u')" by (rule prod_cases3)
  have res: "t' = u'" "rs = (if v = NudRemove then [ip] else []) @ rs'" "ps = (if v = NudProbe then [(ip, mac)] else []) @ ps'"
    using Cons.prems(3) get tick rec by (cases v; simp add: u_def)+
  have nin: "ip \<notin> set keys" using Cons.prems(1) by simp
  then have same: "tick_of now u k = tick_of now t k" "hm_get (nt_nud u) k = hm_get (nt_nud t) k" if "k \<in> set keys" for k
    using that by (auto simp: u_def hm_get_insert)
  have "distinct keys" "\<forall>k \<in> set keys. hm_get (nt_nud u) k \<noteq> None \<and> hm_get (nt_entries u) k \<noteq> None"
    using Cons.prems(1,2) same(2) by (auto simp: u_def)
  note ih = Cons.IH [OF this rec]
  then obtain nud where nud: "u' = u\<lparr> nt_nud := nud \<rparr>" "hm_wf (nt_nud u) \<longrightarrow> hm_wf nud"
      "hm_get nud = (\<lambda>k. if k \<in> set keys then Some (fst (tick_of now u k)) else hm_get (nt_nud u) k)"
    by blast
  have "t' = t\<lparr> nt_nud := nud \<rparr>" "hm_wf (nt_nud t) \<longrightarrow> hm_wf nud"
    using res(1) nud(1,2) by (simp_all add: u_def)
  moreover have "hm_get nud = (\<lambda>k. if k \<in> set (ip # keys) then Some (fst (tick_of now t k)) else hm_get (nt_nud t) k)"
    using nud(3) same nin get tick by (auto simp: fun_eq_iff u_def hm_get_insert)
  moreover have "set rs = {k \<in> set (ip # keys). snd (tick_of now t k) = NudRemove}"
    using ih same res(2) get tick by auto
  moreover have "set ps = {(k, mac). k \<in> set (ip # keys) \<and> snd (tick_of now t k) = NudProbe \<and> hm_get (nt_entries t) k = Some mac}"
    using ih same res(3) get tick by (auto simp: u_def)
  ultimately show ?case by blast
qed

lemma get_fold_remove: "hm_get (fold hm_remove rs m) k = (if k \<in> set rs then None else hm_get m k)"
  by (induction rs arbitrary: m) (auto simp: hm_get_remove)

lemma wf_fold_remove: "hm_wf m \<Longrightarrow> hm_wf (fold hm_remove rs m)"
  by (induction rs arbitrary: m) auto

lemma ndp_inv_fields:
  "nt_entries u = nt_entries t \<Longrightarrow> nt_nud u = nt_nud t \<Longrightarrow> ndp_inv t \<Longrightarrow> ndp_inv u"
  by (simp add: ndp_inv_def)

lemma fold_fields:
  "(\<And>x t. nt_entries (f x t) = nt_entries t \<and> nt_nud (f x t) = nt_nud t) \<Longrightarrow>
   nt_entries (fold f xs t) = nt_entries t \<and> nt_nud (fold f xs t) = nt_nud t"
  by (induction xs arbitrary: t) auto

lemma apply_ra_fields:
  "nt_entries (apply_router_advertisement lower ra now t) = nt_entries t \<and>
   nt_nud (apply_router_advertisement lower ra now t) = nt_nud t"
proof -
  define t1 where "t1 = apply_router_advertisement_timers (ra_reachable_time ra) (ra_retrans_timer ra) t"
  define t2 where "t2 = (case ra_mtu ra of Some mtu \<Rightarrow> if mtu \<ge> 1280 then t1\<lparr> nt_link_mtu := Some mtu \<rparr> else t1 | None \<Rightarrow> t1)"
  have 1: "nt_entries t2 = nt_entries t \<and> nt_nud t2 = nt_nud t"
    by (simp add: t2_def t1_def apply_router_advertisement_timers_def Let_def split: option.split)
  have 2: "apply_router_advertisement lower ra now t =
      fold (apply_dnssl lower now) (ra_dnssl ra) (fold (apply_rdnss now) (ra_rdnss ra) t2)"
    by (simp only: apply_router_advertisement_def Let_def t2_def t1_def)
  have "nt_entries (fold (apply_rdnss now) xs u) = nt_entries u \<and> nt_nud (fold (apply_rdnss now) xs u) = nt_nud u" for xs u
    by (rule fold_fields) (simp add: apply_rdnss_def Let_def)
  moreover have "nt_entries (fold (apply_dnssl lower now) xs u) = nt_entries u \<and>
      nt_nud (fold (apply_dnssl lower now) xs u) = nt_nud u" for xs u
    by (rule fold_fields) (simp add: apply_dnssl_def Let_def)
  ultimately show ?thesis using 1 2 by simp
qed

text \<open>What a timer pump does to the neighbor \<open>ip\<close>.\<close>

lemma step_nud_get:
  assumes t: "ndp_inv t" and step: "step_nud now t = (ps, t')"
  shows "hm_get (nt_nud t') ip = (case hm_get (nt_nud t) ip of
      None \<Rightarrow> None | Some _ \<Rightarrow> if snd (tick_of now t ip) = NudRemove then None else Some (fst (tick_of now t ip)))"
    "hm_get (nt_entries t') ip =
      (if hm_get (nt_nud t) ip \<noteq> None \<and> snd (tick_of now t ip) = NudRemove then None else hm_get (nt_entries t) ip)"
    "(ip, mac) \<in> set ps \<longleftrightarrow> hm_get (nt_nud t) ip \<noteq> None \<and> snd (tick_of now t ip) = NudProbe \<and>
      hm_get (nt_entries t) ip = Some mac"
    "hm_wf (nt_nud t')" "hm_wf (nt_entries t')" "nt_retrans_timer_ms t' = nt_retrans_timer_ms t"
proof -
  obtain rs u where loop: "nud_loop now (map fst (nt_nud t)) t = (ps, rs, u)"
    and t': "t' = u\<lparr> nt_entries := fold hm_remove rs (nt_entries u), nt_nud := fold hm_remove rs (nt_nud u) \<rparr>"
    using step by (auto simp: step_nud_def split: prod.splits)
  have keys: "k \<in> set (map fst (nt_nud t)) \<longleftrightarrow> hm_get (nt_nud t) k \<noteq> None" for k
    by (metis hm_contains_def hm_contains_iff set_map)
  have "distinct (map fst (nt_nud t))" "hm_wf (nt_nud t)" "hm_wf (nt_entries t)"
    using t by (simp_all add: ndp_inv_def hm_wf_def)
  moreover have "\<forall>k \<in> set (map fst (nt_nud t)). hm_get (nt_nud t) k \<noteq> None \<and> hm_get (nt_entries t) k \<noteq> None"
    using keys t unfolding ndp_inv_def by blast
  ultimately obtain nud where u: "u = t\<lparr> nt_nud := nud \<rparr>" "hm_wf nud"
      "hm_get nud = (\<lambda>k. if k \<in> set (map fst (nt_nud t)) then Some (fst (tick_of now t k)) else hm_get (nt_nud t) k)"
      "set rs = {k \<in> set (map fst (nt_nud t)). snd (tick_of now t k) = NudRemove}"
      "set ps = {(k, m). k \<in> set (map fst (nt_nud t)) \<and> snd (tick_of now t k) = NudProbe \<and> hm_get (nt_entries t) k = Some m}"
    using nud_loop_get [OF _ _ loop] by blast
  note u' = u(3-5) [unfolded keys]
  show "hm_get (nt_nud t') ip = (case hm_get (nt_nud t) ip of
      None \<Rightarrow> None | Some _ \<Rightarrow> if snd (tick_of now t ip) = NudRemove then None else Some (fst (tick_of now t ip)))"
    using u' by (auto simp: t' u(1) get_fold_remove split: option.splits)
  show "hm_get (nt_entries t') ip =
      (if hm_get (nt_nud t) ip \<noteq> None \<and> snd (tick_of now t ip) = NudRemove then None else hm_get (nt_entries t) ip)"
    using u' by (simp add: t' u(1) get_fold_remove)
  show "(ip, mac) \<in> set ps \<longleftrightarrow> hm_get (nt_nud t) ip \<noteq> None \<and> snd (tick_of now t ip) = NudProbe \<and>
      hm_get (nt_entries t) ip = Some mac"
    using u' by simp
  show "hm_wf (nt_nud t')" "hm_wf (nt_entries t')" "nt_retrans_timer_ms t' = nt_retrans_timer_ms t"
    using u(2) t by (simp_all add: t' u(1) wf_fold_remove ndp_inv_def)
qed

lemma step_nud_inv: "ndp_inv t \<Longrightarrow> ndp_inv (snd (step_nud now t))"
proof -
  assume t: "ndp_inv t"
  obtain ps t' where step: "step_nud now t = (ps, t')" by fastforce
  note get = step_nud_get [OF t step]
  show ?thesis
    using t get(4,5) meta_ok_tick unfolding step snd_conv
    by (auto simp: ndp_inv_def get(1,2) split: option.splits if_splits)
qed

interpretation ndp_cache: stepper ndp_step ndp_inv
proof
  fix t ev assume t: "ndp_inv t"
  show "ndp_inv (ndp_step t ev)"
  proof (cases ev)
    case (NdpDemote ip)
    then show ?thesis using t
      by (auto simp: demote_reachable_preserving_mac_def ndp_inv_def hm_get_insert split: option.splits)
  next
    case (NdpTransmit ip now)
    then show ?thesis using t meta_ok_transmit
      by (auto simp: lookup_for_transmit_def ndp_inv_def hm_get_insert split: option.splits)
  next
    case (NdpTick now)
    then show ?thesis using step_nud_inv [OF t] by simp
  next
    case (NdpAdvert ra now)
    then show ?thesis using ndp_inv_fields [OF _ _ t] apply_ra_fields by simp
  next
    case (NdpPurge now)
    then show ?thesis using ndp_inv_fields [OF _ _ t] by (simp add: purge_expired_dns_def)
  qed (use t in \<open>auto simp: ndp_inv_def ndp_insert_def learn_stale_def mark_stale_def
      confirm_reachable_def hm_get_insert hm_get_remove split: if_splits\<close>)
qed

text \<open>The neighbor cache is consistent after any sequence of operations, advertisements and timer
  pumps: a neighbor with timed state has a link-layer address, a stale neighbor has no deadline and
  every other timed one has one, and only a neighbor being probed has unanswered probes, at most
  three.\<close>
theorem ndp_cache_consistent:
  assumes "hm_get (nt_nud (foldl ndp_step ndp_new evs)) ip = Some m"
  shows "ndp_lookup (foldl ndp_step ndp_new evs) ip \<noteq> None \<and> nud_probes_sent m \<le> 3 \<and>
    (nud_state m = NsProbe \<longleftrightarrow> nud_probes_sent m \<noteq> 0) \<and> (nud_state m = NsStale \<longleftrightarrow> nud_deadline_ms m = None)"
proof -
  have "ndp_inv (foldl ndp_step ndp_new evs)"
    by (rule ndp_cache.run_inv) (simp add: ndp_inv_def ndp_new_def)
  then show ?thesis using assms by (auto simp: ndp_inv_def meta_ok_def ndp_lookup_def)
qed

theorem ndp_cache_consistent_witness:
  "\<exists>m. hm_get (nt_nud (foldl ndp_step ndp_new [NdpLearn ip6_LOOPBACK (O6 2 0 0 0 0 1)])) ip6_LOOPBACK = Some m \<and>
     ndp_lookup (foldl ndp_step ndp_new [NdpLearn ip6_LOOPBACK (O6 2 0 0 0 0 1)]) ip6_LOOPBACK \<noteq> None \<and>
     nud_state m = NsStale \<and> nud_deadline_ms m = None"
proof -
  have "hm_get (nt_nud (foldl ndp_step ndp_new [NdpLearn ip6_LOOPBACK (O6 2 0 0 0 0 1)])) ip6_LOOPBACK =
      Some stale_meta"
    by (simp add: learn_stale_def mark_stale_def ndp_new_def)
  with ndp_cache_consistent [OF this] show ?thesis by (simp add: stale_meta_def)
qed

section \<open>Silent neighbors\<close>


definition demo_cache :: NdpTable where
  "demo_cache = learn_stale ip6_LOOPBACK (O6 2 0 0 0 0 1) ndp_new"


text \<open>Entries without timed state, installed by \<open>insert\<close>, are untouched by every pump.\<close>

lemma static_neighbor_kept:
  assumes "ndp_inv t" and "hm_get (nt_nud t) ip = None"
  shows "ndp_lookup (snd (step_nud now t)) ip = ndp_lookup t ip \<and> hm_get (nt_nud (snd (step_nud now t))) ip = None"
  using step_nud_get(1,2) [OF assms(1) prod.collapse [symmetric], where ip = ip and now = now] assms(2)
  by (simp add: ndp_lookup_def)

end
