(* ===== verification/NetStack.thy ===== *)
theory NetStack
  imports SocketTables Arp Icmp Dhcp Router Firewall NatTable RouterV6 Ndp "HOL-Library.Product_Lexorder"
begin

text \<open>
  The host stack of \<open>stack.rs\<close>: its configuration and state, the configuration of the IPv6 interface
  (duplicate address detection, stateless autoconfiguration, default routers and routes learned from
  router advertisements, router discovery), and the sending half: next-hop resolution for IPv4 and IPv6
  packets, echo requests, datagrams, the raw TCP helpers and the DHCP client.  The state is one record
  with the fields of the struct; a \<open>HashSet\<close> is a set.  Every operation that serializes a packet may
  panic (payloads above the length field), so it returns \<open>None\<close> in that case.
\<close>

section \<open>State\<close>

record NetStackConfig =
  cfg_mac :: MacAddress
  cfg_ip :: Ipv4Address
  cfg_ipv6 :: "Ipv6Address option"
  cfg_subnet_mask :: u8
  cfg_gateway :: "Ipv4Address option"

definition IPV6_DAD_RETRANS_TIMER_MS :: u64 where "IPV6_DAD_RETRANS_TIMER_MS = 1000"
definition IPV6_MAX_RTR_SOLICITATIONS :: u8 where "IPV6_MAX_RTR_SOLICITATIONS = 3"
definition IPV6_RTR_SOLICITATION_INTERVAL_MS :: u64 where "IPV6_RTR_SOLICITATION_INTERVAL_MS = 4000"
definition IPV6_DEFAULT_HOP_LIMIT :: u8 where "IPV6_DEFAULT_HOP_LIMIT = 64"
definition IPV6_ETHERNET_LINK_MTU :: u32 where "IPV6_ETHERNET_LINK_MTU = 1500"
definition IPV6_SLAAC_TWO_HOURS_MS :: u64 where "IPV6_SLAAC_TWO_HOURS_MS = 2 * 60 * 60 * 1000"

datatype Ipv6RouterDiscoveryStatus = RdIdle | RdSoliciting u8 | RdExhausted
datatype Ipv6DadStatus = DadIdle | DadTentative Ipv6Address | DadDuplicate Ipv6Address
datatype Ipv6SlaacStatus = SlaacUnconfigured | SlaacPreferred Ipv6Address | SlaacDeprecated Ipv6Address

record Ipv6RouterDiscovery =
  rd_solicitations_sent :: u8
  rd_next_solicitation_ms :: u64

record Ipv6SlaacLifetimes =
  sl_address :: Ipv6Address
  sl_preferred_until_ms :: "u64 option"
  sl_valid_until_ms :: "u64 option"
  sl_router :: "Ipv6Address option"
  sl_router_until_ms :: "u64 option"

record PendingIpv6Dad =
  dad_address :: Ipv6Address
  dad_prefix_len :: u8
  dad_gateway :: "Ipv6Address option"
  dad_deadline_ms :: u64
  dad_preferred_until_ms :: "u64 option"
  dad_valid_until_ms :: "u64 option"
  dad_router_until_ms :: "u64 option"

record Ipv6RedirectEntry =
  red_router :: Ipv6Address
  red_target :: Ipv6Address

definition sat_mul :: "'a::len word \<Rightarrow> 'a word \<Rightarrow> 'a word" where
  "sat_mul a b = (if unat a * unat b < 2 ^ LENGTH('a) then a * b else - 1)"

definition ipv6_lifetime_deadline :: "u64 \<Rightarrow> u32 \<Rightarrow> u64 option" where
  "ipv6_lifetime_deadline now_ms lifetime_secs =
     (if lifetime_secs = - 1 then None
      else Some (sat_add now_ms (sat_mul (ucast lifetime_secs) 1000)))"

definition ipv6_remaining_lifetime_ms :: "u64 option \<Rightarrow> u64 \<Rightarrow> u64" where
  "ipv6_remaining_lifetime_ms deadline now_ms =
     (case deadline of None \<Rightarrow> - 1 | Some deadline \<Rightarrow> sat_sub deadline now_ms)"

definition refreshed_ipv6_valid_deadline :: "u64 \<Rightarrow> u64 option \<Rightarrow> u32 \<Rightarrow> u64 option" where
  "refreshed_ipv6_valid_deadline now_ms current_deadline advertised_secs =
     (if advertised_secs = - 1 then None
      else let advertised_ms = sat_mul (ucast advertised_secs) 1000;
               remaining_ms = ipv6_remaining_lifetime_ms current_deadline now_ms
      in if advertised_ms > IPV6_SLAAC_TWO_HOURS_MS \<or> advertised_ms > remaining_ms
         then Some (sat_add now_ms advertised_ms)
         else if remaining_ms \<le> IPV6_SLAAC_TWO_HOURS_MS then current_deadline
         else Some (sat_add now_ms IPV6_SLAAC_TWO_HOURS_MS))"

text \<open>An optional deadline: \<open>is_none_or (now < deadline)\<close> and \<open>is_some_and (now >= deadline)\<close>.\<close>

definition not_expired :: "u64 \<Rightarrow> u64 option \<Rightarrow> bool" where
  "not_expired now_ms deadline = (case deadline of None \<Rightarrow> True | Some d \<Rightarrow> now_ms < d)"

record NetStack =
  ns_config :: NetStackConfig
  ns_arp_table :: ArpTable
  ns_ndp_table :: NdpTable
  ns_routing_table :: RoutingTable
  ns_ipv6_routing_table :: Ipv6RoutingTable
  ns_ipv6_prefix_len :: "u8 option"
  ns_ipv6_gateway :: "Ipv6Address option"
  ns_ipv6_default_routers :: "(Ipv6Address \<times> u64 option \<times> RouterPreference) list"
  ns_ipv6_dad :: "PendingIpv6Dad option"
  ns_ipv6_dad_duplicate :: "Ipv6Address option"
  ns_ipv6_slaac_lifetimes :: "Ipv6SlaacLifetimes option"
  ns_ipv6_ra_on_link_prefixes :: "(Ipv6Address \<times> u8, u64 option) hash_map"
  ns_ipv6_ra_routes :: "(Ipv6Address \<times> u8 \<times> Ipv6Address, u64 option \<times> RouterPreference) hash_map"
  ns_ipv6_failed_rio_routers :: "Ipv6Address set"
  ns_ipv6_router_discovery :: "Ipv6RouterDiscovery option"
  ns_ipv6_router_discovery_exhausted :: bool
  ns_ipv6_default_hop_limit :: u8
  ns_ipv6_link_mtu :: u32
  ns_ipv6_path_mtu_cache :: "(Ipv6Address, u32) hash_map"
  ns_ipv6_redirect_cache :: "(Ipv6Address, Ipv6RedirectEntry) hash_map"
  ns_firewall :: Firewall
  ns_nat :: "NatTable option"
  ns_udp_sockets :: UdpSocketTable
  ns_tcp_manager :: TcpManager
  ns_sockets :: SocketRuntime
  ns_ip_id_counter :: u16
  ns_current_time_ms :: u64
  ns_pending_arp_packets :: "(Ipv4Address, bytes list) hash_map"
  ns_pending_ndp_packets :: "(Ipv6Address, bytes list) hash_map"
  ns_dhcp_server :: "DhcpServer option"
  ns_received_dhcp_offers :: "DhcpPacket list"
  ns_received_dhcp_acks :: "DhcpPacket list"
  ns_received_icmp_replies :: "(Ipv4Address \<times> u16 \<times> u16) list"
  ns_received_icmp_time_exceeded :: "(Ipv4Address \<times> u8) list"
  ns_received_icmp_unreachable :: "(Ipv4Address \<times> u8) list"
  ns_received_icmpv6_replies :: "(Ipv6Address \<times> u16 \<times> u16) list"
  ns_received_udp_payloads :: "(Ipv4Address \<times> u16 \<times> u16 \<times> bytes) list"

abbreviation ns_mac :: "NetStack \<Rightarrow> MacAddress" where "ns_mac s \<equiv> cfg_mac (ns_config s)"
abbreviation ns_ip :: "NetStack \<Rightarrow> Ipv4Address" where "ns_ip s \<equiv> cfg_ip (ns_config s)"
abbreviation ns_ipv6 :: "NetStack \<Rightarrow> Ipv6Address option" where "ns_ipv6 s \<equiv> cfg_ipv6 (ns_config s)"

definition eth0 :: bytes where "eth0 = str_bytes ''eth0''"

definition netstack_new :: "NetStackConfig \<Rightarrow> NetStack" where
  "netstack_new config =
     (let routing_table = table_new;
          subnet_net = ip_mask (cfg_ip config) (cfg_subnet_mask config);
          routing_table = add_route subnet_net (cfg_subnet_mask config) None eth0 routing_table;
          routing_table = (case cfg_gateway config of
              Some gw \<Rightarrow> add_route ip_UNSPECIFIED 0 (Some gw) eth0 routing_table
            | None \<Rightarrow> routing_table);
          sockets = runtime_new (cfg_ip config)
      in \<lparr> ns_config = config, ns_arp_table = arp_new, ns_ndp_table = ndp_new,
           ns_routing_table = routing_table, ns_ipv6_routing_table = table6_new,
           ns_ipv6_prefix_len = None, ns_ipv6_gateway = None, ns_ipv6_default_routers = [],
           ns_ipv6_dad = None, ns_ipv6_dad_duplicate = None, ns_ipv6_slaac_lifetimes = None,
           ns_ipv6_ra_on_link_prefixes = [], ns_ipv6_ra_routes = [], ns_ipv6_failed_rio_routers = {},
           ns_ipv6_router_discovery = None, ns_ipv6_router_discovery_exhausted = False,
           ns_ipv6_default_hop_limit = IPV6_DEFAULT_HOP_LIMIT, ns_ipv6_link_mtu = IPV6_ETHERNET_LINK_MTU,
           ns_ipv6_path_mtu_cache = [], ns_ipv6_redirect_cache = [], ns_firewall = firewall_new,
           ns_nat = None, ns_udp_sockets = udp_table_new, ns_tcp_manager = manager_new,
           ns_sockets = sockets, ns_ip_id_counter = 1, ns_current_time_ms = 0,
           ns_pending_arp_packets = [], ns_pending_ndp_packets = [], ns_dhcp_server = None,
           ns_received_dhcp_offers = [], ns_received_dhcp_acks = [], ns_received_icmp_replies = [],
           ns_received_icmp_time_exceeded = [], ns_received_icmp_unreachable = [],
           ns_received_icmpv6_replies = [], ns_received_udp_payloads = [] \<rparr>)"

section \<open>The IPv6 interface\<close>

definition add_route6_to :: "Ipv6Address \<Rightarrow> u8 \<Rightarrow> Ipv6Address option \<Rightarrow> RouteSource \<Rightarrow> NetStack \<Rightarrow> NetStack" where
  "add_route6_to prefix prefix_len gateway source s =
     s\<lparr> ns_ipv6_routing_table := add_route_from6 prefix prefix_len gateway eth0 source (ns_ipv6_routing_table s) \<rparr>"

definition remove_route6_of :: "Ipv6Address \<Rightarrow> u8 \<Rightarrow> RouteSource \<Rightarrow> NetStack \<Rightarrow> NetStack" where
  "remove_route6_of prefix prefix_len source s =
     s\<lparr> ns_ipv6_routing_table := snd (remove_route6 prefix prefix_len source (ns_ipv6_routing_table s)) \<rparr>"

text \<open>The routes owned by the interface: the connected prefix and the static default route.\<close>

definition remove_interface_routes :: "NetStack \<Rightarrow> NetStack" where
  "remove_interface_routes s =
     (let s = (case (ns_ipv6 s, ns_ipv6_prefix_len s) of
                 (Some address, Some prefix_len) \<Rightarrow> remove_route6_of address prefix_len Connected s
               | _ \<Rightarrow> s)
      in if ns_ipv6_gateway s \<noteq> None then remove_route6_of ip6_UNSPECIFIED 0 Static s else s)"

definition remove_ra_routes :: "NetStack \<Rightarrow> NetStack" where
  "remove_ra_routes s =
     s\<lparr> ns_ipv6_ra_routes := [], ns_ipv6_failed_rio_routers := {},
        ns_ipv6_routing_table := snd (remove_all_from6 RaRoute (ns_ipv6_routing_table s)) \<rparr>"

definition configure_ipv6_interface :: "Ipv6Address \<Rightarrow> u8 \<Rightarrow> Ipv6Address option \<Rightarrow> NetStack \<Rightarrow> NetStack" where
  "configure_ipv6_interface address prefix_len gateway s =
     (let s = s\<lparr> ns_ipv6_dad := None, ns_ipv6_dad_duplicate := None, ns_ipv6_slaac_lifetimes := None \<rparr>;
          s = remove_ra_routes s;
          s = s\<lparr> ns_ipv6_path_mtu_cache := [], ns_ipv6_redirect_cache := [] \<rparr>;
          s = remove_interface_routes s;
          prefix_len = min prefix_len 128;
          s = s\<lparr> ns_config := (ns_config s)\<lparr> cfg_ipv6 := Some address \<rparr>,
                 ns_ipv6_prefix_len := Some prefix_len, ns_ipv6_gateway := gateway \<rparr>;
          s = add_route6_to address prefix_len None Connected s
      in case gateway of
           Some gateway \<Rightarrow> add_route6_to ip6_UNSPECIFIED 0 (Some gateway) Static s
         | None \<Rightarrow> s)"

definition ipv6_path_mtu :: "NetStack \<Rightarrow> Ipv6Address \<Rightarrow> u32 option" where
  "ipv6_path_mtu s destination = hm_get (ns_ipv6_path_mtu_cache s) destination"

definition clear_ipv6_path_mtu :: "Ipv6Address \<Rightarrow> NetStack \<Rightarrow> NetStack" where
  "clear_ipv6_path_mtu destination s =
     s\<lparr> ns_ipv6_path_mtu_cache := hm_remove destination (ns_ipv6_path_mtu_cache s) \<rparr>"

text \<open>The next hop the routing table selects, the destination itself without a route.\<close>

definition route_next_hop6 :: "NetStack \<Rightarrow> Ipv6Address \<Rightarrow> Ipv6Address" where
  "route_next_hop6 s destination =
     (case route6_lookup (ns_ipv6_routing_table s) destination of
        Some route \<Rightarrow> route6_next_hop route destination | None \<Rightarrow> destination)"

definition ipv6_redirect_next_hop :: "NetStack \<Rightarrow> Ipv6Address \<Rightarrow> Ipv6Address option" where
  "ipv6_redirect_next_hop s destination =
     (case hm_get (ns_ipv6_redirect_cache s) destination of
        Some entry \<Rightarrow> if red_router entry = route_next_hop6 s destination then Some (red_target entry) else None
      | None \<Rightarrow> None)"

definition clear_ipv6_interface :: "NetStack \<Rightarrow> NetStack" where
  "clear_ipv6_interface s =
     (let s = remove_interface_routes s;
          s = s\<lparr> ns_config := (ns_config s)\<lparr> cfg_ipv6 := None \<rparr>, ns_ipv6_prefix_len := None,
                 ns_ipv6_gateway := None, ns_ipv6_default_routers := [] \<rparr>;
          s = remove_ra_routes s
      in s\<lparr> ns_ipv6_dad := None, ns_ipv6_dad_duplicate := None, ns_ipv6_slaac_lifetimes := None,
            ns_ipv6_path_mtu_cache := [], ns_ipv6_redirect_cache := [],
            ns_ipv6_default_hop_limit := IPV6_DEFAULT_HOP_LIMIT, ns_ipv6_link_mtu := IPV6_ETHERNET_LINK_MTU,
            ns_pending_ndp_packets := [] \<rparr>)"

definition ipv6_dad_status :: "NetStack \<Rightarrow> Ipv6DadStatus" where
  "ipv6_dad_status s =
     (case ns_ipv6_dad s of
        Some dad \<Rightarrow> DadTentative (dad_address dad)
      | None \<Rightarrow> (case ns_ipv6_dad_duplicate s of Some address \<Rightarrow> DadDuplicate address | None \<Rightarrow> DadIdle))"

definition ipv6_slaac_status :: "NetStack \<Rightarrow> Ipv6SlaacStatus" where
  "ipv6_slaac_status s =
     (case ns_ipv6_slaac_lifetimes s of
        None \<Rightarrow> SlaacUnconfigured
      | Some lifetimes \<Rightarrow>
          if \<not> not_expired (ns_current_time_ms s) (sl_valid_until_ms lifetimes) then SlaacUnconfigured
          else if \<not> not_expired (ns_current_time_ms s) (sl_preferred_until_ms lifetimes)
          then SlaacDeprecated (sl_address lifetimes)
          else SlaacPreferred (sl_address lifetimes))"

section \<open>Default routers\<close>

definition set_ipv6_default_gateway :: "Ipv6Address option \<Rightarrow> NetStack \<Rightarrow> NetStack" where
  "set_ipv6_default_gateway gateway s =
     (let s = (if ns_ipv6_gateway s \<noteq> gateway then s\<lparr> ns_ipv6_redirect_cache := [] \<rparr> else s);
          s = (if ns_ipv6_gateway s \<noteq> None then remove_route6_of ip6_UNSPECIFIED 0 Static s else s);
          s = s\<lparr> ns_ipv6_gateway := gateway \<rparr>
      in case gateway of
           Some gateway \<Rightarrow> add_route6_to ip6_UNSPECIFIED 0 (Some gateway) Static s
         | None \<Rightarrow> s)"

fun replace_router ::
  "Ipv6Address \<Rightarrow> u64 option \<times> RouterPreference \<Rightarrow> (Ipv6Address \<times> u64 option \<times> RouterPreference) list \<Rightarrow>
   (Ipv6Address \<times> u64 option \<times> RouterPreference) list" where
  "replace_router router entry [] = [(router, entry)]"
| "replace_router router entry (c # cs) =
     (if fst c = router then (router, entry) # cs else c # replace_router router entry cs)"

definition ipv6_default_route_candidates ::
  "NetStack \<Rightarrow> (Ipv6Address \<times> u64 option \<times> RouterPreference) list" where
  "ipv6_default_route_candidates s =
     fold (\<lambda>((prefix, prefix_len, router), entry) candidates.
             if prefix_len \<noteq> 0 \<or> prefix \<noteq> ip6_UNSPECIFIED then candidates
             else replace_router router entry candidates)
       (ns_ipv6_ra_routes s) (ns_ipv6_default_routers s)"

definition default_router_deadline :: "NetStack \<Rightarrow> Ipv6Address \<Rightarrow> u64 option option" where
  "default_router_deadline s router =
     map_option (\<lambda>(_, deadline, _). deadline)
       (List.find (\<lambda>(address, _). address = router) (ipv6_default_route_candidates s))"

definition default_router_reachability_rank :: "NetStack \<Rightarrow> Ipv6Address \<Rightarrow> u8" where
  "default_router_reachability_rank s router =
     (case ndp_state (ns_ndp_table s) router of
        Some NsReachable \<Rightarrow> 2 | Some _ \<Rightarrow> 1 | None \<Rightarrow> 0)"

text \<open>The score of a router: reachability first, then the advertised preference.\<close>

definition router_score :: "NetStack \<Rightarrow> Ipv6Address \<Rightarrow> RouterPreference \<Rightarrow> u8 \<times> RouterPreference" where
  "router_score s router preference = (default_router_reachability_rank s router, preference)"

fun max_of :: "'a::linorder list \<Rightarrow> 'a option" where
  "max_of [] = None"
| "max_of (x # xs) = Some (fold max xs x)"

text \<open>The default router to use and its deadline: the current one while it has the best score, otherwise
  the first candidate with that score.\<close>

definition choose_default_router :: "NetStack \<Rightarrow> Ipv6Address option \<times> u64 option" where
  "choose_default_router s =
     (let is_valid = not_expired (ns_current_time_ms s);
          candidates = ipv6_default_route_candidates s;
          active = (case ns_ipv6_gateway s of
              Some router \<Rightarrow>
                if list_ex (\<lambda>(candidate, deadline, _). candidate = router \<and> is_valid deadline) candidates
                then Some router else None
            | None \<Rightarrow> None);
          best_score = max_of (map (\<lambda>(router, _, preference). router_score s router preference)
            (filter (\<lambda>(_, deadline, _). is_valid deadline) candidates));
          active_is_best = (case active of
              Some router \<Rightarrow>
                best_score = map_option (\<lambda>(_, _, preference). router_score s router preference)
                  (List.find (\<lambda>(candidate, deadline, _). candidate = router \<and> is_valid deadline) candidates)
            | None \<Rightarrow> False);
          selected = (if active_is_best then active
            else case best_score of
                Some best \<Rightarrow> map_option fst (List.find (\<lambda>(router, deadline, preference).
                    is_valid deadline \<and> router_score s router preference = best) candidates)
              | None \<Rightarrow> None);
          selected_deadline = (case selected of
              Some router \<Rightarrow>
                (case List.find (\<lambda>(candidate, _). candidate = router) candidates of
                   Some (_, deadline, _) \<Rightarrow> deadline | None \<Rightarrow> None)
            | None \<Rightarrow> None)
      in (selected, selected_deadline))"

definition select_ipv6_default_router :: "NetStack \<Rightarrow> NetStack" where
  "select_ipv6_default_router s =
     (let (selected, selected_deadline) = choose_default_router s;
          s = (if ns_ipv6_gateway s \<noteq> selected then set_ipv6_default_gateway selected s else s);
          s = s\<lparr> ns_ipv6_slaac_lifetimes := map_option
                   (\<lambda>l. l\<lparr> sl_router := selected, sl_router_until_ms := selected_deadline \<rparr>)
                   (ns_ipv6_slaac_lifetimes s) \<rparr>
      in s\<lparr> ns_ipv6_dad := map_option
              (\<lambda>d. d\<lparr> dad_gateway := selected, dad_router_until_ms := selected_deadline \<rparr>) (ns_ipv6_dad s) \<rparr>)"

definition refresh_slaac_default_router :: "Ipv6Address \<Rightarrow> u16 \<Rightarrow> RouterPreference \<Rightarrow> NetStack \<Rightarrow> NetStack" where
  "refresh_slaac_default_router router lifetime_secs preference s =
     (let s = (if lifetime_secs = 0
               then s\<lparr> ns_ipv6_default_routers :=
                        filter (\<lambda>(address, _). address \<noteq> router) (ns_ipv6_default_routers s) \<rparr>
               else let deadline = Some (sat_add (ns_current_time_ms s) (sat_mul (ucast lifetime_secs) 1000))
                    in s\<lparr> ns_ipv6_default_routers :=
                           replace_router router (deadline, preference) (ns_ipv6_default_routers s) \<rparr>)
      in select_ipv6_default_router s)"

definition expire_ipv6_default_routers :: "u64 \<Rightarrow> NetStack \<Rightarrow> bool \<times> NetStack" where
  "expire_ipv6_default_routers now_ms s =
     (let had_router = (ns_ipv6_gateway s \<noteq> None);
          s = s\<lparr> ns_ipv6_default_routers :=
                 filter (\<lambda>(_, deadline, _). not_expired now_ms deadline) (ns_ipv6_default_routers s) \<rparr>;
          s = select_ipv6_default_router s
      in (had_router \<and> ns_ipv6_gateway s = None, s))"

section \<open>Prefixes and routes from router advertisements\<close>

definition refresh_ipv6_ra_on_link_prefix :: "Ipv6Address \<Rightarrow> u8 \<Rightarrow> u32 \<Rightarrow> NetStack \<Rightarrow> NetStack" where
  "refresh_ipv6_ra_on_link_prefix prefix prefix_len valid_lifetime s =
     (let prefix_len = min prefix_len 128; prefix = ip6_mask prefix prefix_len; key = (prefix, prefix_len)
      in if valid_lifetime = 0
         then remove_route6_of prefix prefix_len Ra
                (s\<lparr> ns_ipv6_ra_on_link_prefixes := hm_remove key (ns_ipv6_ra_on_link_prefixes s) \<rparr>)
         else let valid_until_ms = ipv6_lifetime_deadline (ns_current_time_ms s) valid_lifetime
              in add_route6_to prefix prefix_len None Ra
                   (s\<lparr> ns_ipv6_ra_on_link_prefixes :=
                        hm_insert key valid_until_ms (ns_ipv6_ra_on_link_prefixes s) \<rparr>))"

text \<open>The retained candidates for a prefix that are still valid, and whether one of them is not
  quarantined.\<close>

definition rio_candidates :: "NetStack \<Rightarrow> Ipv6Address \<Rightarrow> u8 \<Rightarrow> (Ipv6Address \<times> RouterPreference) list" where
  "rio_candidates s prefix prefix_len =
     map (\<lambda>((_, _, router), (_, preference)). (router, preference))
       (filter (\<lambda>((candidate_prefix, candidate_len, _), (deadline, _)).
                 candidate_prefix = prefix \<and> candidate_len = prefix_len \<and>
                 not_expired (ns_current_time_ms s) deadline) (ns_ipv6_ra_routes s))"

definition candidate_allowed :: "NetStack \<Rightarrow> Ipv6Address \<Rightarrow> u8 \<Rightarrow> Ipv6Address \<Rightarrow> bool" where
  "candidate_allowed s prefix prefix_len router \<longleftrightarrow>
     (let has_unquarantined_candidate =
            list_ex (\<lambda>(router, _). router \<notin> ns_ipv6_failed_rio_routers s) (rio_candidates s prefix prefix_len)
      in \<not> has_unquarantined_candidate \<or> router \<notin> ns_ipv6_failed_rio_routers s)"

text \<open>\<open>min_by_key\<close> on the octets: the first of the smallest addresses.\<close>

fun min_address :: "Ipv6Address list \<Rightarrow> Ipv6Address option" where
  "min_address [] = None"
| "min_address (x # xs) =
     Some (fold (\<lambda>r best. if cmp_list (bytes16 r) (bytes16 best) = OLess then r else best) xs x)"

text \<open>The router for a learned prefix: the current one while it has the best score among the allowed
  candidates, otherwise the one with the smallest address among those with that score.\<close>

definition choose_ra_route :: "NetStack \<Rightarrow> Ipv6Address \<Rightarrow> u8 \<Rightarrow> Ipv6Address option \<Rightarrow> Ipv6Address option" where
  "choose_ra_route s prefix prefix_len current_gateway =
     (let allowed = candidate_allowed s prefix prefix_len;
          best_score = max_of (map (\<lambda>(router, preference). router_score s router preference)
            (filter (\<lambda>(router, _). allowed router) (rio_candidates s prefix prefix_len)))
      in case best_score of
           None \<Rightarrow> None
         | Some best_score \<Rightarrow>
             let current_is_best = (case current_gateway of
                     Some gateway \<Rightarrow>
                       (case hm_get (ns_ipv6_ra_routes s) (prefix, prefix_len, gateway) of
                          Some (deadline, preference) \<Rightarrow>
                            not_expired (ns_current_time_ms s) deadline \<and> allowed gateway \<and>
                            router_score s gateway preference = best_score
                        | None \<Rightarrow> False)
                   | None \<Rightarrow> False)
             in if current_is_best then current_gateway
                else min_address (map fst (filter (\<lambda>(router, preference).
                       allowed router \<and> router_score s router preference = best_score)
                       (rio_candidates s prefix prefix_len))))"

definition select_ipv6_ra_route :: "Ipv6Address \<Rightarrow> u8 \<Rightarrow> NetStack \<Rightarrow> NetStack" where
  "select_ipv6_ra_route prefix prefix_len s =
     (let prefix_len = min prefix_len 128; prefix = ip6_mask prefix prefix_len
      in if prefix_len = 0
         then select_ipv6_default_router (remove_route6_of prefix prefix_len RaRoute s)
         else
          let current_gateway = (case find_exact6 (ns_ipv6_routing_table s) prefix prefix_len of
                  Some route \<Rightarrow> if r6_source route = RaRoute then r6_gateway route else None
                | None \<Rightarrow> None);
              s = remove_route6_of prefix prefix_len RaRoute s
          in (case choose_ra_route s prefix prefix_len current_gateway of
                Some router \<Rightarrow> add_route6_to prefix prefix_len (Some router) RaRoute s
              | None \<Rightarrow> s))"

definition push_new :: "'a \<Rightarrow> 'a list \<Rightarrow> 'a list" where
  "push_new x xs = (if x \<in> set xs then xs else xs @ [x])"

definition reselect_ipv6_ra_routes :: "NetStack \<Rightarrow> NetStack" where
  "reselect_ipv6_ra_routes s =
     (let prefixes = fold (\<lambda>(prefix, prefix_len, _) prefixes.
            if prefix_len \<noteq> 0 then push_new (prefix, prefix_len) prefixes else prefixes)
            (map fst (ns_ipv6_ra_routes s)) []
      in fold (\<lambda>(prefix, prefix_len). select_ipv6_ra_route prefix prefix_len) prefixes s)"

definition refresh_ipv6_ra_route ::
  "Ipv6Address \<Rightarrow> Ipv6Address \<Rightarrow> u8 \<Rightarrow> RouterPreference \<Rightarrow> u32 \<Rightarrow> NetStack \<Rightarrow> NetStack" where
  "refresh_ipv6_ra_route router prefix prefix_len preference route_lifetime s =
     (let prefix_len = min prefix_len 128; prefix = ip6_mask prefix prefix_len;
          key = (prefix, prefix_len, router);
          s = (if route_lifetime = 0
               then s\<lparr> ns_ipv6_ra_routes := hm_remove key (ns_ipv6_ra_routes s) \<rparr>
               else s\<lparr> ns_ipv6_ra_routes :=
                 hm_insert key (ipv6_lifetime_deadline (ns_current_time_ms s) route_lifetime, preference)
                   (ns_ipv6_ra_routes s) \<rparr>)
      in select_ipv6_ra_route prefix prefix_len s)"

section \<open>Duplicate address detection and router discovery\<close>

text \<open>An ICMPv6 message in an IPv6 packet in a frame.\<close>

definition icmpv6_frame ::
  "MacAddress \<Rightarrow> MacAddress \<Rightarrow> Ipv6Address \<Rightarrow> Ipv6Address \<Rightarrow> u8 \<Rightarrow> bytes \<Rightarrow> bytes may_panic" where
  "icmpv6_frame dst_mac src_mac src dst hop_limit message =
     do { packet \<leftarrow> ipv6_serialize src dst NEXT_HEADER_ICMPV6 hop_limit message;
          Some (ethernet_serialize dst_mac src_mac ETHERTYPE_IPV6 packet) }"

definition multicast_mac_or_broadcast :: "Ipv6Address \<Rightarrow> MacAddress" where
  "multicast_mac_or_broadcast dst = (case ipv6_multicast_mac dst of Some mac \<Rightarrow> mac | None \<Rightarrow> mac_BROADCAST)"

definition start_ipv6_dad ::
  "Ipv6Address \<Rightarrow> u8 \<Rightarrow> Ipv6Address option \<Rightarrow> u32 \<Rightarrow> u32 \<Rightarrow> u16 \<Rightarrow> NetStack \<Rightarrow> (bytes option \<times> NetStack) may_panic" where
  "start_ipv6_dad address prefix_len gateway preferred_lifetime valid_lifetime router_lifetime s =
     (if valid_lifetime = 0 then Some (None, s)
      else
       let now_ms = ns_current_time_ms s;
           preferred_until_ms = ipv6_lifetime_deadline now_ms preferred_lifetime;
           advertised_valid_until_ms = ipv6_lifetime_deadline now_ms valid_lifetime;
           router_until_ms = (if router_lifetime > 0
             then Some (sat_add now_ms (sat_mul (ucast router_lifetime) 1000)) else None)
       in if ns_ipv6 s = Some address
          then let s = set_ipv6_default_gateway gateway s
               in Some (None, s\<lparr> ns_ipv6_slaac_lifetimes := Some
                    \<lparr> sl_address = address, sl_preferred_until_ms = preferred_until_ms,
                      sl_valid_until_ms = advertised_valid_until_ms, sl_router = gateway,
                      sl_router_until_ms = router_until_ms \<rparr> \<rparr>)
          else let same = (case ns_ipv6_dad s of
                     Some dad \<Rightarrow> if dad_address dad = address \<and> dad_prefix_len dad = prefix_len then Some dad else None
                   | None \<Rightarrow> None)
          in case same of
               Some dad \<Rightarrow>
                 Some (None, s\<lparr> ns_ipv6_dad := Some (dad\<lparr> dad_gateway := gateway,
                   dad_preferred_until_ms := preferred_until_ms,
                   dad_valid_until_ms :=
                     refreshed_ipv6_valid_deadline now_ms (dad_valid_until_ms dad) valid_lifetime,
                   dad_router_until_ms := router_until_ms \<rparr>) \<rparr>)
             | None \<Rightarrow>
                 let s = s\<lparr> ns_ipv6_dad_duplicate := None,
                            ns_ipv6_dad := Some
                              \<lparr> dad_address = address, dad_prefix_len = min prefix_len 128, dad_gateway = gateway,
                                dad_deadline_ms = sat_add now_ms IPV6_DAD_RETRANS_TIMER_MS,
                                dad_preferred_until_ms = preferred_until_ms,
                                dad_valid_until_ms = advertised_valid_until_ms,
                                dad_router_until_ms = router_until_ms \<rparr> \<rparr>;
                     dst = solicited_node_multicast address;
                     ns = build_dad_neighbor_solicitation dst address
                 in do { frame \<leftarrow> icmpv6_frame (multicast_mac_or_broadcast dst) (ns_mac s) ip6_UNSPECIFIED dst 255 ns;
                         Some (Some frame, s) })"

definition mark_ipv6_dad_duplicate :: "Ipv6Address \<Rightarrow> NetStack \<Rightarrow> NetStack" where
  "mark_ipv6_dad_duplicate address s =
     (case ns_ipv6_dad s of
        Some dad \<Rightarrow>
          if dad_address dad = address
          then s\<lparr> ns_ipv6_dad := None, ns_ipv6_dad_duplicate := Some address \<rparr> else s
      | None \<Rightarrow> s)"

definition ipv6_router_discovery_status :: "NetStack \<Rightarrow> Ipv6RouterDiscoveryStatus" where
  "ipv6_router_discovery_status s =
     (case ns_ipv6_router_discovery s of
        Some discovery \<Rightarrow> RdSoliciting (rd_solicitations_sent discovery)
      | None \<Rightarrow> if ns_ipv6_router_discovery_exhausted s then RdExhausted else RdIdle)"

definition router_solicitation :: "NetStack \<Rightarrow> bytes may_panic" where
  "router_solicitation s =
     (let src = (case ns_ipv6 s of Some ip \<Rightarrow> ip | None \<Rightarrow> ip6_UNSPECIFIED);
          dst = LINK_LOCAL_ALL_ROUTERS;
          source_mac = (if \<not> ip6_is_unspecified src then Some (ns_mac s) else None);
          rs = build_router_solicitation src dst source_mac
      in icmpv6_frame (multicast_mac_or_broadcast dst) (ns_mac s) src dst 255 rs)"

definition start_router_discovery :: "NetStack \<Rightarrow> (bytes \<times> NetStack) may_panic" where
  "start_router_discovery s =
     (let s = s\<lparr> ns_ipv6_router_discovery_exhausted := False,
                 ns_ipv6_router_discovery := Some \<lparr> rd_solicitations_sent = 1,
                   rd_next_solicitation_ms =
                     sat_add (ns_current_time_ms s) IPV6_RTR_SOLICITATION_INTERVAL_MS \<rparr> \<rparr>
      in do { frame \<leftarrow> router_solicitation s; Some (frame, s) })"

definition cancel_router_discovery :: "NetStack \<Rightarrow> NetStack" where
  "cancel_router_discovery s =
     s\<lparr> ns_ipv6_router_discovery := None, ns_ipv6_router_discovery_exhausted := False \<rparr>"

section \<open>Sending\<close>

definition enable_nat :: "Ipv4Address \<Rightarrow> NetStack \<Rightarrow> NetStack" where
  "enable_nat public_ip s = s\<lparr> ns_nat := Some (nat_new public_ip) \<rparr>"

definition next_ip_id :: "NetStack \<Rightarrow> u16 \<times> NetStack" where
  "next_ip_id s = (ns_ip_id_counter s, s\<lparr> ns_ip_id_counter := ns_ip_id_counter s + 1 \<rparr>)"

definition flow_ports :: "Ipv4Packet \<Rightarrow> u16 \<times> u16" where
  "flow_ports packet =
     (if ip_protocol (ipp_header packet) \<in> {IpTcp, IpUdp} \<and> length (ipp_payload packet) \<ge> 4
      then (read_u16 0 (ipp_payload packet), read_u16 2 (ipp_payload packet)) else (0, 0))"

definition packet_route :: "RoutingTable \<Rightarrow> Ipv4Address \<Rightarrow> Ipv4Packet \<Rightarrow> RouteEntry option" where
  "packet_route t dst_ip packet =
     (let h = ipp_header packet; fragmented = (ip_more_fragments h \<or> ip_fragment_offset h \<noteq> 0)
      in if fragmented
         then lookup_resilient_route_for_fragment t (ip_src_ip h) dst_ip
                (ip_protocol_to_u8 (ip_protocol h)) (ip_identification h)
         else let (source_port, destination_port) = flow_ports packet
              in lookup_resilient_route_for_flow t
                   \<lparr> flow_source = ip_src_ip h, flow_destination = dst_ip,
                     flow_protocol = ip_protocol_to_u8 (ip_protocol h),
                     flow_source_port = source_port, flow_destination_port = destination_port \<rparr>)"

definition egress_next_hop :: "RoutingTable \<Rightarrow> Ipv4Address \<Rightarrow> bytes \<Rightarrow> Ipv4Address" where
  "egress_next_hop t dst_ip ip_bytes =
     (let by_flow = (case ipv4_parse ip_bytes False of
              Inr packet \<Rightarrow> if ip_dst_ip (ipp_header packet) = dst_ip then packet_route t dst_ip packet else None
            | Inl _ \<Rightarrow> None);
          route = (case by_flow of Some r \<Rightarrow> Some r | None \<Rightarrow> route_lookup t dst_ip)
      in case route of Some route \<Rightarrow> route_next_hop route dst_ip | None \<Rightarrow> dst_ip)"

text \<open>\<open>entry(key).or_default().push(packet)\<close>.\<close>

definition hm_push :: "'k \<Rightarrow> 'v \<Rightarrow> ('k, 'v list) hash_map \<Rightarrow> ('k, 'v list) hash_map" where
  "hm_push k v m = hm_insert k ((case hm_get m k of Some q \<Rightarrow> q | None \<Rightarrow> []) @ [v]) m"

definition send_ip_packet :: "Ipv4Address \<Rightarrow> bytes \<Rightarrow> NetStack \<Rightarrow> bytes option \<times> NetStack" where
  "send_ip_packet dst_ip ip_bytes s =
     (let next_hop = egress_next_hop (ns_routing_table s) dst_ip ip_bytes
      in case arp_lookup (ns_arp_table s) next_hop of
           Some dst_mac \<Rightarrow> (Some (ethernet_serialize dst_mac (ns_mac s) ETHERTYPE_IPV4 ip_bytes), s)
         | None \<Rightarrow>
             let s = s\<lparr> ns_pending_arp_packets := hm_push next_hop ip_bytes (ns_pending_arp_packets s) \<rparr>;
                 arp_req = arp_build_request (ns_mac s) (ns_ip s) next_hop
             in (Some (ethernet_serialize mac_BROADCAST (ns_mac s) ETHERTYPE_ARP (arp_serialize arp_req)), s))"

definition send_ip6_packet :: "Ipv6Address \<Rightarrow> bytes \<Rightarrow> NetStack \<Rightarrow> (bytes option \<times> NetStack) may_panic" where
  "send_ip6_packet dst_ip ip6_bytes s =
     (let effective_mtu = min (case hm_get (ns_ipv6_path_mtu_cache s) dst_ip of
                                 Some mtu \<Rightarrow> mtu | None \<Rightarrow> ns_ipv6_link_mtu s) (ns_ipv6_link_mtu s)
      in if length ip6_bytes > unat effective_mtu then Some (None, s)
      else
       let route_next_hop = route_next_hop6 s dst_ip;
           cached_redirect = hm_get (ns_ipv6_redirect_cache s) dst_ip;
           (next_hop, s) = (case cached_redirect of
               Some entry \<Rightarrow>
                 if red_router entry = route_next_hop then (red_target entry, s)
                 else (route_next_hop, s\<lparr> ns_ipv6_redirect_cache := hm_remove dst_ip (ns_ipv6_redirect_cache s) \<rparr>)
             | None \<Rightarrow> (route_next_hop, s));
           (mac, ndp) = lookup_for_transmit next_hop (ns_current_time_ms s) (ns_ndp_table s);
           s = s\<lparr> ns_ndp_table := ndp \<rparr>
       in case mac of
            Some dst_mac \<Rightarrow> Some (Some (ethernet_serialize dst_mac (ns_mac s) ETHERTYPE_IPV6 ip6_bytes), s)
          | None \<Rightarrow>
              let s = s\<lparr> ns_pending_ndp_packets := hm_push next_hop ip6_bytes (ns_pending_ndp_packets s) \<rparr>;
                  my_ip6 = (case ns_ipv6 s of Some ip \<Rightarrow> ip | None \<Rightarrow> ip6_LOOPBACK);
                  ns_dst = solicited_node_multicast next_hop;
                  ns = build_neighbor_solicitation my_ip6 ns_dst next_hop (ns_mac s)
              in do { frame \<leftarrow> icmpv6_frame (multicast_mac_or_broadcast ns_dst) (ns_mac s) my_ip6 ns_dst 255 ns;
                      Some (Some frame, s) })"

text \<open>A transport payload from the stack's own address: a new identification, an IPv4 header, and the
  packet handed to \<open>send_ip_packet\<close>.\<close>

definition send_transport :: "Ipv4Address \<Rightarrow> Ipv4Address \<Rightarrow> u8 \<Rightarrow> bytes \<Rightarrow> NetStack \<Rightarrow> (bytes option \<times> NetStack) may_panic" where
  "send_transport src_ip dst_ip protocol payload s =
     (let (ip_id, s) = next_ip_id s
      in do { ip_bytes \<leftarrow> ipv4_serialize src_ip dst_ip protocol ip_id 64 payload;
              Some (send_ip_packet dst_ip ip_bytes s) })"

definition ping4 :: "Ipv4Address \<Rightarrow> u16 \<Rightarrow> u16 \<Rightarrow> bytes \<Rightarrow> NetStack \<Rightarrow> (bytes option \<times> NetStack) may_panic" where
  "ping4 dst_ip ident seq payload s =
     send_transport (ns_ip s) dst_ip IP_PROTO_ICMP (build_echo_request ident seq payload) s"

definition ping6 :: "Ipv6Address \<Rightarrow> u16 \<Rightarrow> u16 \<Rightarrow> bytes \<Rightarrow> NetStack \<Rightarrow> (bytes option \<times> NetStack) may_panic" where
  "ping6 dst_ip ident seq payload s =
     (let my_ip6 = (case ns_ipv6 s of Some ip \<Rightarrow> ip | None \<Rightarrow> ip6_LOOPBACK);
          icmp = build_echo_request6 my_ip6 dst_ip ident seq payload
      in do { ip6_bytes \<leftarrow> ipv6_serialize my_ip6 dst_ip NEXT_HEADER_ICMPV6 (ns_ipv6_default_hop_limit s) icmp;
              send_ip6_packet dst_ip ip6_bytes s })"

definition send_udp :: "Ipv4Address \<Rightarrow> u16 \<Rightarrow> u16 \<Rightarrow> bytes \<Rightarrow> NetStack \<Rightarrow> (bytes option \<times> NetStack) may_panic" where
  "send_udp dst_ip src_port dst_port payload s =
     do { udp \<leftarrow> udp_serialize (ns_ip s) dst_ip src_port dst_port payload;
          send_transport (ns_ip s) dst_ip IP_PROTO_UDP udp s }"

definition tcp_connect_raw :: "Ipv4Address \<Rightarrow> u16 \<Rightarrow> u16 \<Rightarrow> u32 \<Rightarrow> NetStack \<Rightarrow> (bytes option \<times> NetStack) may_panic" where
  "tcp_connect_raw dst_ip src_port dst_port isn s =
     do { (tcp_seg_bytes, mgr) \<leftarrow> connect \<lparr> sock_ip = ns_ip s, sock_port = src_port \<rparr>
                                    \<lparr> sock_ip = dst_ip, sock_port = dst_port \<rparr> isn (ns_tcp_manager s);
          send_transport (ns_ip s) dst_ip IP_PROTO_TCP tcp_seg_bytes (s\<lparr> ns_tcp_manager := mgr \<rparr>) }"

definition tcp_send_data_raw :: "Ipv4Address \<Rightarrow> u16 \<Rightarrow> u16 \<Rightarrow> bytes \<Rightarrow> NetStack \<Rightarrow> (bytes option \<times> NetStack) may_panic" where
  "tcp_send_data_raw dst_ip src_port dst_port data s =
     do { (tcp_seg_bytes, mgr) \<leftarrow> manager_send_data \<lparr> sock_ip = ns_ip s, sock_port = src_port \<rparr>
                                    \<lparr> sock_ip = dst_ip, sock_port = dst_port \<rparr> data (ns_tcp_manager s);
          let s = s\<lparr> ns_tcp_manager := mgr \<rparr>
          in case tcp_seg_bytes of
               Some seg \<Rightarrow> send_transport (ns_ip s) dst_ip IP_PROTO_TCP seg s
             | None \<Rightarrow> Some (None, s) }"

definition tcp_close_raw :: "Ipv4Address \<Rightarrow> u16 \<Rightarrow> u16 \<Rightarrow> NetStack \<Rightarrow> (bytes option \<times> NetStack) may_panic" where
  "tcp_close_raw dst_ip src_port dst_port s =
     do { (tcp_seg_bytes, mgr) \<leftarrow> manager_close \<lparr> sock_ip = ns_ip s, sock_port = src_port \<rparr>
                                    \<lparr> sock_ip = dst_ip, sock_port = dst_port \<rparr> (ns_tcp_manager s);
          let s = s\<lparr> ns_tcp_manager := mgr \<rparr>
          in case tcp_seg_bytes of
               Some seg \<Rightarrow> send_transport (ns_ip s) dst_ip IP_PROTO_TCP seg s
             | None \<Rightarrow> Some (None, s) }"

section \<open>The DHCP client\<close>

text \<open>A client message is broadcast from the unspecified address.\<close>

definition dhcp_broadcast :: "DhcpPacket \<Rightarrow> NetStack \<Rightarrow> (bytes \<times> NetStack) may_panic" where
  "dhcp_broadcast pkt s =
     do { udp_bytes \<leftarrow> udp_serialize ip_UNSPECIFIED ip_BROADCAST 68 67 (dhcp_serialize pkt);
          let (ip_id, s) = next_ip_id s
          in do { ip_bytes \<leftarrow> ipv4_serialize ip_UNSPECIFIED ip_BROADCAST IP_PROTO_UDP ip_id 64 udp_bytes;
                  Some (ethernet_serialize mac_BROADCAST (ns_mac s) ETHERTYPE_IPV4 ip_bytes, s) } }"

definition dhcp_discover :: "u32 \<Rightarrow> NetStack \<Rightarrow> (bytes \<times> NetStack) may_panic" where
  "dhcp_discover xid s = dhcp_broadcast (build_discover (ns_mac s) xid) s"

definition dhcp_request :: "Ipv4Address \<Rightarrow> Ipv4Address \<Rightarrow> u32 \<Rightarrow> NetStack \<Rightarrow> (bytes \<times> NetStack) may_panic" where
  "dhcp_request requested_ip server_id xid s =
     dhcp_broadcast (build_dhcp_request (ns_mac s) xid requested_ip server_id) s"

definition count_ones :: "u32 \<Rightarrow> nat" where
  "count_ones w = length (filter (bit w) [0..<32])"

definition apply_dhcp_ack :: "DhcpPacket \<Rightarrow> NetStack \<Rightarrow> NetStack" where
  "apply_dhcp_ack ack s =
     (let config = (ns_config s)\<lparr> cfg_ip := dh_yiaddr ack \<rparr>;
          config = (case dh_subnet_mask ack of
              Some netmask \<Rightarrow> config\<lparr> cfg_subnet_mask := of_nat (count_ones (ip_to_u32 netmask)) \<rparr> | None \<Rightarrow> config);
          config = (case dh_router ack of Some gw \<Rightarrow> config\<lparr> cfg_gateway := Some gw \<rparr> | None \<Rightarrow> config);
          subnet_net = ip_mask (cfg_ip config) (cfg_subnet_mask config);
          rt = add_route subnet_net (cfg_subnet_mask config) None eth0 table_new;
          rt = (case cfg_gateway config of
              Some gw \<Rightarrow> add_route ip_UNSPECIFIED 0 (Some gw) eth0 rt | None \<Rightarrow> rt)
      in s\<lparr> ns_config := config, ns_routing_table := rt \<rparr>)"

end
