(* ===== verification/StackTimers.thy ===== *)
theory StackTimers
  imports NetStack
begin

text \<open>
  The clock of the host stack (\<open>step_timers\<close> and \<open>poll_transmit\<close> of \<open>stack.rs\<close>), one definition per phase
  of the pump in the order of the code, and the application-facing socket interface, which forwards to
  the socket runtime.
\<close>

section \<open>The timer pump\<close>

definition step_router_discovery :: "u64 \<Rightarrow> NetStack \<Rightarrow> (bytes list \<times> NetStack) may_panic" where
  "step_router_discovery now_ms s =
     (case ns_ipv6_router_discovery s of
        Some discovery \<Rightarrow>
          if now_ms \<ge> rd_next_solicitation_ms discovery
          then let solicitations_sent = sat_add (rd_solicitations_sent discovery) 1
               in do { frame \<leftarrow> router_solicitation s;
                       let s = (if solicitations_sent \<ge> IPV6_MAX_RTR_SOLICITATIONS
                                then s\<lparr> ns_ipv6_router_discovery := None,
                                        ns_ipv6_router_discovery_exhausted := True \<rparr>
                                else s\<lparr> ns_ipv6_router_discovery := Some
                                          \<lparr> rd_solicitations_sent = solicitations_sent,
                                            rd_next_solicitation_ms =
                                              sat_add now_ms IPV6_RTR_SOLICITATION_INTERVAL_MS \<rparr> \<rparr>)
                       in Some ([frame], s) }
          else Some ([], s)
      | None \<Rightarrow> Some ([], s))"

definition cached_rio_routers :: "NetStack \<Rightarrow> Ipv6Address list" where
  "cached_rio_routers s =
     fold (\<lambda>(_, _, router) routers.
             if ndp_lookup (ns_ndp_table s) router \<noteq> None then push_new router routers else routers)
       (map fst (ns_ipv6_ra_routes s)) []"

fun nud_probe_frames :: "NetStack \<Rightarrow> (Ipv6Address \<times> MacAddress) list \<Rightarrow> bytes list may_panic" where
  "nud_probe_frames s [] = Some []"
| "nud_probe_frames s ((target, dst_mac) # probes) =
     (case ns_ipv6 s of
        Some my_ip6 \<Rightarrow>
          do { frame \<leftarrow> icmpv6_frame dst_mac (ns_mac s) my_ip6 target 255
                          (build_neighbor_solicitation my_ip6 target target (ns_mac s));
               frames \<leftarrow> nud_probe_frames s probes;
               Some (frame # frames) }
      | None \<Rightarrow> nud_probe_frames s probes)"

definition quarantine_rio_routers :: "Ipv6Address list \<Rightarrow> NetStack \<Rightarrow> NetStack" where
  "quarantine_rio_routers cached_rio_routers_before_nud s =
     (let failed_rio_routers =
            filter (\<lambda>router. ndp_lookup (ns_ndp_table s) router = None) cached_rio_routers_before_nud
      in if failed_rio_routers = [] then s
         else let s = s\<lparr> ns_ipv6_failed_rio_routers :=
                         ns_ipv6_failed_rio_routers s \<union> set failed_rio_routers \<rparr>;
                  affected_rio_prefixes = fold (\<lambda>(prefix, prefix_len, router) prefixes.
                    if prefix_len \<noteq> 0 \<and> router \<in> set failed_rio_routers
                    then push_new (prefix, prefix_len) prefixes else prefixes)
                    (map fst (ns_ipv6_ra_routes s)) [];
                  s = s\<lparr> ns_ipv6_ra_routes := filter (\<lambda>((_, prefix_len, router), _).
                         prefix_len = 0 \<or> router \<notin> set failed_rio_routers) (ns_ipv6_ra_routes s) \<rparr>
              in fold (\<lambda>(prefix, prefix_len). select_ipv6_ra_route prefix prefix_len) affected_rio_prefixes s)"

definition drop_unreachable_router :: "Ipv6Address option \<Rightarrow> bool \<Rightarrow> NetStack \<Rightarrow> bool \<times> NetStack" where
  "drop_unreachable_router active_router_before_nud active_router_was_cached s =
     (case active_router_before_nud of
        Some router \<Rightarrow>
          if active_router_was_cached \<and> ndp_lookup (ns_ndp_table s) router = None
          then let had_router = (ns_ipv6_gateway s \<noteq> None);
                   s = s\<lparr> ns_ipv6_default_routers :=
                          filter (\<lambda>(address, _). address \<noteq> router) (ns_ipv6_default_routers s),
                          ns_ipv6_ra_routes := filter (\<lambda>((prefix, prefix_len, advertising_router), _).
                          \<not> (prefix_len = 0 \<and> prefix = ip6_UNSPECIFIED \<and> advertising_router = router))
                          (ns_ipv6_ra_routes s) \<rparr>;
                   s = select_ipv6_default_router s
               in (had_router \<and> ns_ipv6_gateway s = None, s)
          else (False, s)
      | None \<Rightarrow> (False, s))"

definition expire_ra_prefixes :: "u64 \<Rightarrow> NetStack \<Rightarrow> NetStack" where
  "expire_ra_prefixes now_ms s =
     (let expired_ra_prefixes = map fst (filter (\<lambda>(_, deadline). \<not> not_expired now_ms deadline)
            (ns_ipv6_ra_on_link_prefixes s))
      in fold (\<lambda>(prefix, prefix_len) s.
                 remove_route6_of prefix prefix_len Ra
                   (s\<lparr> ns_ipv6_ra_on_link_prefixes :=
                        hm_remove (prefix, prefix_len) (ns_ipv6_ra_on_link_prefixes s) \<rparr>))
           expired_ra_prefixes s)"

definition expire_ra_routes :: "u64 \<Rightarrow> NetStack \<Rightarrow> bool \<times> NetStack" where
  "expire_ra_routes now_ms s =
     (let had_default_route_before_ra_expiry = (ns_ipv6_gateway s \<noteq> None);
          expired_ra_routes = map fst (filter (\<lambda>(_, (deadline, _)). \<not> not_expired now_ms deadline)
            (ns_ipv6_ra_routes s));
          s = s\<lparr> ns_ipv6_ra_routes := fold hm_remove expired_ra_routes (ns_ipv6_ra_routes s) \<rparr>;
          affected_ra_prefixes = fold (\<lambda>(prefix, prefix_len, _). push_new (prefix, prefix_len))
            expired_ra_routes [];
          s = fold (\<lambda>(prefix, prefix_len). select_ipv6_ra_route prefix prefix_len) affected_ra_prefixes s
      in (had_default_route_before_ra_expiry \<and> ns_ipv6_gateway s = None, s))"

definition complete_dad :: "u64 \<Rightarrow> NetStack \<Rightarrow> NetStack" where
  "complete_dad now_ms s =
     (case ns_ipv6_dad s of
        Some dad \<Rightarrow>
          if now_ms \<ge> dad_deadline_ms dad
          then let s = s\<lparr> ns_ipv6_dad := None \<rparr>
               in if not_expired now_ms (dad_valid_until_ms dad)
                  then let gateway = (case dad_router_until_ms dad of
                               Some deadline \<Rightarrow> if now_ms < deadline then dad_gateway dad else None
                             | None \<Rightarrow> None);
                           s = configure_ipv6_interface (dad_address dad) (dad_prefix_len dad) gateway s;
                           s = remove_route6_of (dad_address dad) (dad_prefix_len dad) Connected s
                       in s\<lparr> ns_ipv6_slaac_lifetimes := Some
                              \<lparr> sl_address = dad_address dad,
                                sl_preferred_until_ms = dad_preferred_until_ms dad,
                                sl_valid_until_ms = dad_valid_until_ms dad, sl_router = gateway,
                                sl_router_until_ms =
                                  (if gateway \<noteq> None then dad_router_until_ms dad else None) \<rparr> \<rparr>
                  else s
          else s
      | None \<Rightarrow> s)"

definition expire_interface :: "u64 \<Rightarrow> bool \<Rightarrow> bool \<Rightarrow> NetStack \<Rightarrow> (bytes list \<times> NetStack) may_panic" where
  "expire_interface now_ms router_discovery_was_active lost_router_before s =
     (let slaac_valid_expired = (case ns_ipv6_slaac_lifetimes s of
              Some lifetimes \<Rightarrow> \<not> not_expired now_ms (sl_valid_until_ms lifetimes)
            | None \<Rightarrow> False)
      in if slaac_valid_expired then Some ([], clear_ipv6_interface s)
         else let (lost_last_router, s) = expire_ipv6_default_routers now_ms s
              in if (lost_last_router \<or> lost_router_before) \<and> \<not> router_discovery_was_active
                 then do { (frame, s) \<leftarrow> start_router_discovery s; Some ([frame], s) }
                 else Some ([], s))"

text \<open>The transport payloads of a pump, each with its addresses, sent one after the other.\<close>

fun transmit_all ::
  "(Ipv4Address \<times> Ipv4Address \<times> u8 \<times> bytes) list \<Rightarrow> NetStack \<Rightarrow> (bytes list \<times> NetStack) may_panic" where
  "transmit_all [] s = Some ([], s)"
| "transmit_all ((src_ip, dst_ip, protocol, payload) # rest) s =
     do { (frame, s) \<leftarrow> send_transport src_ip dst_ip protocol payload s;
          (frames, s) \<leftarrow> transmit_all rest s;
          Some ((case frame of Some f \<Rightarrow> [f] | None \<Rightarrow> []) @ frames, s) }"

text \<open>The first half of the pump, up to the sockets: router discovery, unreachability detection, learned
  routes and prefixes, duplicate address detection and lifetimes.\<close>

definition interface_timers :: "u64 \<Rightarrow> NetStack \<Rightarrow> (bytes list \<times> NetStack) may_panic" where
  "interface_timers now_ms s =
     (let router_discovery_was_active = (ns_ipv6_router_discovery s \<noteq> None)
      in do {
        (solicitations, s) \<leftarrow> step_router_discovery now_ms s;
        let active_router_before_nud = ns_ipv6_gateway s;
        let active_router_was_cached = (case active_router_before_nud of
              Some router \<Rightarrow> default_router_deadline s router \<noteq> None \<and> ndp_lookup (ns_ndp_table s) router \<noteq> None
            | None \<Rightarrow> False);
        let cached_rio_routers_before_nud = cached_rio_routers s;
        let (probes, ndp) = step_nud now_ms (ns_ndp_table s);
        let s = s\<lparr> ns_ndp_table := ndp \<rparr>;
        probe_frames \<leftarrow> nud_probe_frames s probes;
        let s = quarantine_rio_routers cached_rio_routers_before_nud s;
        let s = reselect_ipv6_ra_routes s;
        let (lost_last_router_to_nud, s) =
              drop_unreachable_router active_router_before_nud active_router_was_cached s;
        let s = expire_ra_prefixes now_ms s;
        let (lost_last_router_to_rio, s) = expire_ra_routes now_ms s;
        let s = complete_dad now_ms s;
        (discovery, s) \<leftarrow> expire_interface now_ms router_discovery_was_active
                            (lost_last_router_to_nud \<or> lost_last_router_to_rio) s;
        Some (solicitations @ probe_frames @ discovery, s)
      })"

definition stack_step_timers :: "u64 \<Rightarrow> NetStack \<Rightarrow> (bytes list \<times> NetStack) may_panic" where
  "stack_step_timers now_ms s =
     do { (interface_frames, s) \<leftarrow> interface_timers now_ms (s\<lparr> ns_current_time_ms := now_ms \<rparr>);
          (txs, rt) \<leftarrow> socket_step_timers now_ms (ns_sockets s);
          (socket_frames, s) \<leftarrow> transmit_all
             (map (\<lambda>tx. (sock_ip (tx_local tx), sock_ip (tx_remote tx), tx_protocol tx, tx_payload tx)) txs)
             (s\<lparr> ns_sockets := rt \<rparr>);
          (legacy_pkts, mgr) \<leftarrow> step_timers now_ms (ns_tcp_manager s);
          (legacy_frames, s) \<leftarrow> transmit_all
             (map (\<lambda>(local, remote, tcp_bytes). (sock_ip local, sock_ip remote, IP_PROTO_TCP, tcp_bytes)) legacy_pkts)
             (s\<lparr> ns_tcp_manager := mgr \<rparr>);
          Some (interface_frames @ socket_frames @ legacy_frames, s) }"

definition poll_transmit :: "NetStack \<Rightarrow> (bytes list \<times> NetStack) may_panic" where
  "poll_transmit s = stack_step_timers (ns_current_time_ms s) s"

section \<open>The socket interface\<close>

definition with_sockets :: "(SocketRuntime \<Rightarrow> 'a sock_result) \<Rightarrow> NetStack \<Rightarrow> (SocketError + 'a) \<times> NetStack" where
  "with_sockets f s = (let (r, rt) = f (ns_sockets s) in (r, s\<lparr> ns_sockets := rt \<rparr>))"

definition with_sockets_panic ::
  "(SocketRuntime \<Rightarrow> 'a sock_result may_panic) \<Rightarrow> NetStack \<Rightarrow> ((SocketError + 'a) \<times> NetStack) may_panic" where
  "with_sockets_panic f s = do { (r, rt) \<leftarrow> f (ns_sockets s); Some (r, s\<lparr> ns_sockets := rt \<rparr>) }"

definition stack_udp_bind :: "u16 \<Rightarrow> NetStack \<Rightarrow> ((SocketError + UdpSocketHandle) \<times> NetStack) may_panic" where
  "stack_udp_bind port s = with_sockets_panic (socket_udp_bind \<lparr> sock_ip = ns_ip s, sock_port = port \<rparr>) s"

definition stack_udp_send_to ::
  "UdpSocketHandle \<Rightarrow> bytes \<Rightarrow> SocketAddrV4 \<Rightarrow> NetStack \<Rightarrow> ((SocketError + nat) \<times> NetStack) may_panic" where
  "stack_udp_send_to handle data remote = with_sockets_panic (udp_send_to handle data remote)"

definition stack_udp_recv_from ::
  "UdpSocketHandle \<Rightarrow> NetStack \<Rightarrow> (SocketError + bytes \<times> SocketAddrV4) \<times> NetStack" where
  "stack_udp_recv_from handle = with_sockets (udp_recv_from handle)"

definition stack_udp_close :: "UdpSocketHandle \<Rightarrow> NetStack \<Rightarrow> (SocketError + unit) \<times> NetStack" where
  "stack_udp_close handle = with_sockets (udp_close handle)"

definition stack_tcp_listen :: "u16 \<Rightarrow> NetStack \<Rightarrow> ((SocketError + TcpListenerHandle) \<times> NetStack) may_panic" where
  "stack_tcp_listen port s = with_sockets_panic (tcp_listen \<lparr> sock_ip = ns_ip s, sock_port = port \<rparr>) s"

definition stack_tcp_listen_any :: "u16 \<Rightarrow> NetStack \<Rightarrow> (SocketError + TcpListenerHandle) \<times> NetStack" where
  "stack_tcp_listen_any port = with_sockets (tcp_listen_any port)"

definition stack_tcp_is_live :: "NetStack \<Rightarrow> TcpStreamHandle \<Rightarrow> bool" where
  "stack_tcp_is_live s handle = tcp_is_live (ns_sockets s) handle"

definition stack_tcp_accept ::
  "TcpListenerHandle \<Rightarrow> NetStack \<Rightarrow> (SocketError + TcpStreamHandle \<times> SocketAddrV4) \<times> NetStack" where
  "stack_tcp_accept listener = with_sockets (tcp_accept listener)"

definition stack_tcp_listener_close :: "TcpListenerHandle \<Rightarrow> NetStack \<Rightarrow> (SocketError + unit) \<times> NetStack" where
  "stack_tcp_listener_close listener = with_sockets (tcp_listener_close listener)"

definition stack_tcp_connect :: "SocketAddrV4 \<Rightarrow> NetStack \<Rightarrow> ((SocketError + TcpStreamHandle) \<times> NetStack) may_panic" where
  "stack_tcp_connect remote = with_sockets_panic (tcp_connect remote)"

definition stack_tcp_connect_from ::
  "u16 \<Rightarrow> SocketAddrV4 \<Rightarrow> u32 \<Rightarrow> NetStack \<Rightarrow> ((SocketError + TcpStreamHandle) \<times> NetStack) may_panic" where
  "stack_tcp_connect_from local_port remote isn s =
     with_sockets_panic (tcp_connect_from \<lparr> sock_ip = ns_ip s, sock_port = local_port \<rparr> remote isn) s"

definition stack_tcp_write :: "TcpStreamHandle \<Rightarrow> bytes \<Rightarrow> NetStack \<Rightarrow> (SocketError + nat) \<times> NetStack" where
  "stack_tcp_write handle data = with_sockets (socket_tcp_write handle data)"

definition stack_tcp_read :: "TcpStreamHandle \<Rightarrow> nat \<Rightarrow> NetStack \<Rightarrow> (SocketError + bytes) \<times> NetStack" where
  "stack_tcp_read handle len = with_sockets (socket_tcp_read handle len)"

definition stack_tcp_readable :: "NetStack \<Rightarrow> TcpStreamHandle \<Rightarrow> nat" where
  "stack_tcp_readable s handle = tcp_readable (ns_sockets s) handle"

definition stack_tcp_writable :: "NetStack \<Rightarrow> TcpStreamHandle \<Rightarrow> nat" where
  "stack_tcp_writable s handle = tcp_writable (ns_sockets s) handle"

definition stack_tcp_shutdown :: "TcpStreamHandle \<Rightarrow> NetStack \<Rightarrow> ((SocketError + unit) \<times> NetStack) may_panic" where
  "stack_tcp_shutdown handle = with_sockets_panic (tcp_shutdown handle)"

definition stack_tcp_close :: "TcpStreamHandle \<Rightarrow> NetStack \<Rightarrow> ((SocketError + unit) \<times> NetStack) may_panic" where
  "stack_tcp_close handle = with_sockets_panic (tcp_close handle)"

definition stack_tcp_state :: "NetStack \<Rightarrow> TcpStreamHandle \<Rightarrow> SocketError + TcpState" where
  "stack_tcp_state s handle = socket_tcp_state (ns_sockets s) handle"

definition stack_tcp_stats :: "NetStack \<Rightarrow> TcpStreamHandle \<Rightarrow> SocketError + TcpStats" where
  "stack_tcp_stats s handle = socket_tcp_stats (ns_sockets s) handle"

definition stack_tcp_diagnostics :: "NetStack \<Rightarrow> TcpStreamHandle \<Rightarrow> SocketError + TcpDiagnostics" where
  "stack_tcp_diagnostics s handle = tcp_diagnostics (ns_sockets s) handle"

definition stack_tcp_connections :: "NetStack \<Rightarrow> TcpDiagnostics list" where
  "stack_tcp_connections s = all_tcp_diagnostics (ns_sockets s)"

definition set_tcp_mss :: "u16 \<Rightarrow> NetStack \<Rightarrow> NetStack" where
  "set_tcp_mss mss s = s\<lparr> ns_sockets := set_default_mss mss (ns_sockets s) \<rparr>"

end
