(* ===== verification/StackFrames.thy ===== *)
theory StackFrames
  imports StackTimers
begin

text \<open>
  The receiving half of the host stack (\<open>process_frame\<close> of \<open>stack.rs\<close> and its wrapper
  \<open>process_frame_with_ipv4_errors\<close> of \<open>icmp.rs\<close>): the frame filter, then one definition per protocol
  branch.  Every branch returns the frames it emits and the new state; \<open>None\<close> is a panic of a
  serializer or of the TCP handlers.
\<close>

section \<open>ARP\<close>

definition process_arp :: "bytes \<Rightarrow> NetStack \<Rightarrow> bytes list \<times> NetStack" where
  "process_arp payload s =
     (case arp_parse payload of
        Inl _ \<Rightarrow> ([], s)
      | Inr arp \<Rightarrow>
          let s = s\<lparr> ns_arp_table := arp_insert (arp_sender_ip arp) (arp_sender_mac arp) (ns_arp_table s) \<rparr>;
              sender_ipv4 = arp_sender_ip arp;
              (drained, s) = (case hm_get (ns_pending_arp_packets s) sender_ipv4 of
                  Some queued_packets \<Rightarrow>
                    (map (ethernet_serialize (arp_sender_mac arp) (ns_mac s) ETHERTYPE_IPV4) queued_packets,
                     s\<lparr> ns_pending_arp_packets := hm_remove sender_ipv4 (ns_pending_arp_packets s) \<rparr>)
                | None \<Rightarrow> ([], s));
              answer = (if arp_opcode arp = ArpRequest \<and> arp_target_ip arp = ns_ip s
                then [ethernet_serialize (arp_sender_mac arp) (ns_mac s) ETHERTYPE_ARP
                        (arp_serialize (arp_build_reply (ns_mac s) (ns_ip s) (arp_sender_mac arp) (arp_sender_ip arp)))]
                else [])
          in (drained @ answer, s))"

section \<open>IPv4\<close>

text \<open>A reply: a new identification, an IPv4 header, a frame to the given hardware address.\<close>

definition reply4 ::
  "MacAddress \<Rightarrow> Ipv4Address \<Rightarrow> Ipv4Address \<Rightarrow> u8 \<Rightarrow> bytes \<Rightarrow> NetStack \<Rightarrow> (bytes \<times> NetStack) may_panic" where
  "reply4 dst_mac src_ip dst_ip protocol payload s =
     (let (ip_id, s) = next_ip_id s
      in do { ip_out \<leftarrow> ipv4_serialize src_ip dst_ip protocol ip_id 64 payload;
              Some (ethernet_serialize dst_mac (ns_mac s) ETHERTYPE_IPV4 ip_out, s) })"

fun reply4_all ::
  "MacAddress \<Rightarrow> Ipv4Address \<Rightarrow> u8 \<Rightarrow> bytes list \<Rightarrow> NetStack \<Rightarrow> (bytes list \<times> NetStack) may_panic" where
  "reply4_all dst_mac dst_ip protocol [] s = Some ([], s)"
| "reply4_all dst_mac dst_ip protocol (payload # rest) s =
     do { (frame, s) \<leftarrow> reply4 dst_mac (ns_ip s) dst_ip protocol payload s;
          (frames, s) \<leftarrow> reply4_all dst_mac dst_ip protocol rest s;
          Some (frame # frames, s) }"

definition process_icmp :: "MacAddress \<Rightarrow> Ipv4Packet \<Rightarrow> NetStack \<Rightarrow> (bytes list \<times> NetStack) may_panic" where
  "process_icmp src_mac ip_pkt s =
     (let src_ip = ip_src_ip (ipp_header ip_pkt)
      in case icmp_parse (ipp_payload ip_pkt) True of
           Inl _ \<Rightarrow> Some ([], s)
         | Inr icmp \<Rightarrow>
             (case icmp_icmp_type icmp of
                IcmpEchoRequest \<Rightarrow> reply4_all src_mac src_ip IP_PROTO_ICMP [build_echo_reply icmp] s
              | IcmpEchoReply \<Rightarrow> Some ([], s\<lparr> ns_received_icmp_replies := ns_received_icmp_replies s @
                    [(src_ip, icmp_identifier icmp, icmp_sequence_number icmp)] \<rparr>)
              | IcmpTimeExceeded \<Rightarrow> Some ([], s\<lparr> ns_received_icmp_time_exceeded :=
                    ns_received_icmp_time_exceeded s @ [(src_ip, icmp_code icmp)] \<rparr>)
              | IcmpDestinationUnreachable \<Rightarrow> Some ([], s\<lparr> ns_received_icmp_unreachable :=
                    ns_received_icmp_unreachable s @ [(src_ip, icmp_code icmp)] \<rparr>)
              | _ \<Rightarrow> Some ([], s)))"

definition dhcp_serve :: "UdpDatagram \<Rightarrow> NetStack \<Rightarrow> (bytes list \<times> NetStack) may_panic" where
  "dhcp_serve udp s =
     (if udp_dst_port udp = 67
      then case ns_dhcp_server s of
             None \<Rightarrow> Some ([], s)
           | Some srv \<Rightarrow>
               (case dhcp_parse (udp_payload udp) of
                  Inl _ \<Rightarrow> Some ([], s)
                | Inr dhcp_in \<Rightarrow>
                    let (reply, srv) = dhcp_handle_packet dhcp_in srv; s = s\<lparr> ns_dhcp_server := Some srv \<rparr>
                    in case reply of
                         None \<Rightarrow> Some ([], s)
                       | Some dhcp_reply \<Rightarrow>
                           do { udp_out \<leftarrow> udp_serialize (ds_server_ip srv) ip_BROADCAST 67 68 (dhcp_serialize dhcp_reply);
                                (frame, s) \<leftarrow> reply4 (dh_chaddr dhcp_reply) (ds_server_ip srv) ip_BROADCAST
                                                IP_PROTO_UDP udp_out s;
                                Some ([frame], s) })
      else Some ([], s))"

definition dhcp_learn :: "UdpDatagram \<Rightarrow> NetStack \<Rightarrow> NetStack" where
  "dhcp_learn udp s =
     (if udp_dst_port udp = 68
      then case dhcp_parse (udp_payload udp) of
             Inl _ \<Rightarrow> s
           | Inr dhcp_in \<Rightarrow>
               (case dh_msg_type dhcp_in of
                  Offer \<Rightarrow> s\<lparr> ns_received_dhcp_offers := ns_received_dhcp_offers s @ [dhcp_in] \<rparr>
                | Ack \<Rightarrow> s\<lparr> ns_received_dhcp_acks := ns_received_dhcp_acks s @ [dhcp_in] \<rparr>
                | _ \<Rightarrow> s)
      else s)"

definition process_udp :: "MacAddress \<Rightarrow> Ipv4Packet \<Rightarrow> NetStack \<Rightarrow> (bytes list \<times> NetStack) may_panic" where
  "process_udp src_mac ip_pkt s =
     (let src_ip = ip_src_ip (ipp_header ip_pkt); dst_ip = ip_dst_ip (ipp_header ip_pkt)
      in case udp_parse src_ip dst_ip (ipp_payload ip_pkt) True of
           Inl _ \<Rightarrow> Some ([], s)
         | Inr udp \<Rightarrow>
             do { let s = s\<lparr> ns_received_udp_payloads := ns_received_udp_payloads s @
                             [(src_ip, udp_src_port udp, udp_dst_port udp, udp_payload udp)] \<rparr>;
                  (served, s) \<leftarrow> dhcp_serve udp s;
                  let s = dhcp_learn udp s;
                  let (_, rt) = dispatch_udp \<lparr> sock_ip = src_ip, sock_port = udp_src_port udp \<rparr>
                                  \<lparr> sock_ip = dst_ip, sock_port = udp_dst_port udp \<rparr> (udp_payload udp) (ns_sockets s);
                  let s = s\<lparr> ns_sockets := rt \<rparr>;
                  case udp_dispatch (ns_udp_sockets s) src_ip (udp_src_port udp) (udp_dst_port udp) (udp_payload udp) of
                    None \<Rightarrow> Some (served, s)
                  | Some resp_payload \<Rightarrow>
                      do { udp_out \<leftarrow> udp_serialize (ns_ip s) src_ip (udp_dst_port udp) (udp_src_port udp) resp_payload;
                           (frames, s) \<leftarrow> reply4_all src_mac src_ip IP_PROTO_UDP [udp_out] s;
                           Some (served @ frames, s) } })"

text \<open>The reset for a segment without an endpoint is the one of the connection manager
  (\<open>refuse_segment\<close>), written a second time in the code.\<close>

definition process_tcp :: "MacAddress \<Rightarrow> Ipv4Packet \<Rightarrow> NetStack \<Rightarrow> (bytes list \<times> NetStack) may_panic" where
  "process_tcp src_mac ip_pkt s =
     (let src_ip = ip_src_ip (ipp_header ip_pkt); dst_ip = ip_dst_ip (ipp_header ip_pkt)
      in case tcp_parse src_ip dst_ip (ipp_payload ip_pkt) True of
           Inl _ \<Rightarrow> Some ([], s)
         | Inr seg \<Rightarrow>
             if socket_has_endpoint dst_ip (seg_dst_port seg) src_ip (seg_src_port seg) (ns_sockets s)
             then do { (resp_segs, rt) \<leftarrow> dispatch_tcp_segment src_ip dst_ip seg (ns_current_time_ms s) (ns_sockets s);
                       reply4_all src_mac src_ip IP_PROTO_TCP resp_segs (s\<lparr> ns_sockets := rt \<rparr>) }
             else if has_endpoint dst_ip (seg_dst_port seg) src_ip (seg_src_port seg) (ns_tcp_manager s)
             then do { (resp_seg, mgr) \<leftarrow> process_segment_at src_ip dst_ip seg (ns_current_time_ms s) (ns_tcp_manager s);
                       reply4_all src_mac src_ip IP_PROTO_TCP
                         (case resp_seg of Some p \<Rightarrow> [p] | None \<Rightarrow> []) (s\<lparr> ns_tcp_manager := mgr \<rparr>) }
             else do { rst_bytes \<leftarrow> refuse_segment src_ip dst_ip seg;
                       reply4_all src_mac src_ip IP_PROTO_TCP
                         (case rst_bytes of Some p \<Rightarrow> [p] | None \<Rightarrow> []) s })"

definition process_ipv4 :: "MacAddress \<Rightarrow> bytes \<Rightarrow> NetStack \<Rightarrow> (bytes list \<times> NetStack) may_panic" where
  "process_ipv4 src_mac payload s =
     (case ipv4_parse payload True of
        Inl _ \<Rightarrow> Some ([], s)
      | Inr ip_pkt \<Rightarrow>
          if fw_evaluate (ns_firewall s) ChainInput ip_pkt \<noteq> FwAccept then Some ([], s)
          else let s = s\<lparr> ns_arp_table := arp_insert (ip_src_ip (ipp_header ip_pkt)) src_mac (ns_arp_table s) \<rparr>;
                   dst = ip_dst_ip (ipp_header ip_pkt)
          in if dst \<noteq> ns_ip s \<and> \<not> ip_is_broadcast dst \<and> dst \<noteq> ip_BROADCAST then Some ([], s)
             else (case ip_protocol (ipp_header ip_pkt) of
                     IpIcmp \<Rightarrow> process_icmp src_mac ip_pkt s
                   | IpUdp \<Rightarrow> process_udp src_mac ip_pkt s
                   | IpTcp \<Rightarrow> process_tcp src_mac ip_pkt s
                   | _ \<Rightarrow> Some ([], s)))"

section \<open>IPv6\<close>

definition my_ipv6 :: "NetStack \<Rightarrow> Ipv6Address" where
  "my_ipv6 s = (case ns_ipv6 s of Some ip \<Rightarrow> ip | None \<Rightarrow> ip6_LOOPBACK)"

text \<open>The first look at an ICMPv6 packet: discovery messages that do not validate are dropped before
  anything else.\<close>

definition ndp_acceptable :: "Ipv6Packet \<Rightarrow> bool" where
  "ndp_acceptable pkt =
     (let h = ip6p_header pkt; src = ip6_src_ip h; dst = ip6_dst_ip h; hop_limit = ip6_hop_limit h
      in if ip6_next_header h \<noteq> NEXT_HEADER_ICMPV6 then True
         else case icmpv6_parse src dst (ip6p_payload pkt) True of
             Inr icmp6 \<Rightarrow>
               let t = ic6_msg_type icmp6
               in if t = ICMPV6_TYPE_NEIGHBOR_SOLICIT
                  then validated_neighbor_solicitation_target icmp6 src dst hop_limit \<noteq> None
                  else if t = ICMPV6_TYPE_NEIGHBOR_ADVERT
                  then validated_neighbor_advertisement_target icmp6 dst hop_limit \<noteq> None
                  else if t = ICMPV6_TYPE_ROUTER_SOLICIT then False
                  else if t = ICMPV6_TYPE_ROUTER_ADVERT
                  then validated_router_advertisement icmp6 src hop_limit \<noteq> None
                  else if t = ICMPV6_TYPE_REDIRECT
                  then validated_redirect icmp6 src dst hop_limit \<noteq> None
                  else True
           | Inl _ \<Rightarrow>
               (case ip6p_payload pkt of
                  [] \<Rightarrow> True
                | raw_type # _ \<Rightarrow>
                    raw_type \<notin> {ICMPV6_TYPE_NEIGHBOR_SOLICIT, ICMPV6_TYPE_NEIGHBOR_ADVERT,
                      ICMPV6_TYPE_ROUTER_SOLICIT, ICMPV6_TYPE_ROUTER_ADVERT, ICMPV6_TYPE_REDIRECT}))"

definition process_packet_too_big :: "Icmpv6Packet \<Rightarrow> NetStack \<Rightarrow> NetStack" where
  "process_packet_too_big icmp6 s =
     (if ic6_code icmp6 = 0 \<and> length (ic6_payload icmp6) \<ge> 44
      then let advertised_mtu = read_u32 0 (ic6_payload icmp6);
               quoted = drop 4 (ic6_payload icmp6)
      in if drop_bit 4 (quoted ! 0) = 6
         then let quoted_src = read16 8 quoted; quoted_dst = read16 24 quoted
              in if ns_ipv6 s = Some quoted_src \<and> \<not> ip6_is_multicast quoted_dst
                 then let learned = max advertised_mtu 1280
                      in s\<lparr> ns_ipv6_path_mtu_cache := hm_insert quoted_dst
                             (case hm_get (ns_ipv6_path_mtu_cache s) quoted_dst of
                                Some current \<Rightarrow> min current learned | None \<Rightarrow> learned)
                             (ns_ipv6_path_mtu_cache s) \<rparr>
                 else s
         else s
      else s)"

definition process_redirect :: "Ipv6Header \<Rightarrow> Icmpv6Packet \<Rightarrow> NetStack \<Rightarrow> NetStack" where
  "process_redirect h icmp6 s =
     (case validated_redirect icmp6 (ip6_src_ip h) (ip6_dst_ip h) (ip6_hop_limit h) of
        None \<Rightarrow> s
      | Some redirect \<Rightarrow>
          let route_next_hop = route_next_hop6 s (rm_destination redirect);
              quote_matches = (rm_redirected_source redirect = ns_ipv6 s \<and>
                               rm_redirected_destination redirect = Some (rm_destination redirect))
          in if route_next_hop = ip6_src_ip h \<and> quote_matches
             then let s = (case rm_target_link_layer_address redirect of
                         Some target_mac \<Rightarrow>
                           s\<lparr> ns_ndp_table := learn_stale (rm_target redirect) target_mac (ns_ndp_table s) \<rparr>
                       | None \<Rightarrow> s)
                  in s\<lparr> ns_ipv6_redirect_cache := hm_insert (rm_destination redirect)
                         \<lparr> red_router = ip6_src_ip h, red_target = rm_target redirect \<rparr>
                         (ns_ipv6_redirect_cache s) \<rparr>
             else s)"

text \<open>A router advertisement: interface parameters, the router's own address, the default router list,
  routes, on-link prefixes, and the autoconfigured address.\<close>

definition ra_parameters :: "RouterAdvertisement \<Rightarrow> NetStack \<Rightarrow> NetStack" where
  "ra_parameters ra s =
     (let s = s\<lparr> ns_ndp_table := apply_router_advertisement_timers (ra_reachable_time ra) (ra_retrans_timer ra)
                  (ns_ndp_table s) \<rparr>;
          s = (if ra_current_hop_limit ra \<noteq> 0
               then s\<lparr> ns_ipv6_default_hop_limit := ra_current_hop_limit ra \<rparr> else s)
      in case ra_mtu ra of
           Some mtu \<Rightarrow>
             if 1280 \<le> mtu \<and> mtu \<le> IPV6_ETHERNET_LINK_MTU
             then s\<lparr> ns_ipv6_link_mtu := mtu,
                     ns_pending_ndp_packets := filter (\<lambda>(_, queued). queued \<noteq> [])
                       (map (\<lambda>(ip, queued). (ip, filter (\<lambda>packet. length packet \<le> unat mtu) queued))
                         (ns_pending_ndp_packets s)) \<rparr>
             else s
         | None \<Rightarrow> s)"

definition ra_source :: "Ipv6Address \<Rightarrow> Icmpv6Packet \<Rightarrow> NetStack \<Rightarrow> NetStack" where
  "ra_source router icmp6 s =
     (case ndp_source_link_layer_address icmp6 of
        None \<Rightarrow> s
      | Some source_mac \<Rightarrow>
          let s = s\<lparr> ns_ndp_table := learn_stale router source_mac (ns_ndp_table s) \<rparr>
          in if router \<in> ns_ipv6_failed_rio_routers s
             then s\<lparr> ns_ndp_table := snd (lookup_for_transmit router (ns_current_time_ms s) (ns_ndp_table s)) \<rparr>
             else s)"

definition ra_default_router :: "Ipv6Address \<Rightarrow> RouterAdvertisement \<Rightarrow> NetStack \<Rightarrow> NetStack" where
  "ra_default_router router ra s =
     (let has_default_rio = list_ex (\<lambda>route. rio_prefix_length route = 0) (ra_routes ra)
      in if has_default_rio
         then select_ipv6_default_router
                (s\<lparr> ns_ipv6_default_routers := filter (\<lambda>(r, _). r \<noteq> router) (ns_ipv6_default_routers s) \<rparr>)
         else refresh_slaac_default_router router (ra_router_lifetime ra) (ra_preference ra) s)"

definition ra_learn_routes :: "Ipv6Address \<Rightarrow> RouterAdvertisement \<Rightarrow> NetStack \<Rightarrow> NetStack" where
  "ra_learn_routes router ra s =
     fold (\<lambda>route. refresh_ipv6_ra_route router (rio_prefix route) (rio_prefix_length route)
             (rio_preference route) (rio_route_lifetime route)) (ra_routes ra) s"

definition ra_learn_prefixes :: "RouterAdvertisement \<Rightarrow> NetStack \<Rightarrow> NetStack" where
  "ra_learn_prefixes ra s =
     fold (\<lambda>prefix. refresh_ipv6_ra_on_link_prefix (pio_prefix prefix) (pio_prefix_length prefix)
             (pio_valid_lifetime prefix))
       (filter (\<lambda>prefix. pio_on_link prefix \<and> \<not> ip6_is_link_local (pio_prefix prefix)) (ra_prefixes ra)) s"

definition ra_autoconfigure :: "RouterAdvertisement \<Rightarrow> NetStack \<Rightarrow> (bytes list \<times> NetStack) may_panic" where
  "ra_autoconfigure ra s =
     (case List.find (\<lambda>prefix. pio_autonomous prefix \<and> pio_prefix_length prefix = 64) (ra_prefixes ra) of
        None \<Rightarrow> Some ([], s)
      | Some prefix \<Rightarrow>
          (case slaac_address (pio_prefix prefix) (pio_prefix_length prefix) (ns_mac s) of
             None \<Rightarrow> Some ([], s)
           | Some address \<Rightarrow>
               let gateway = ns_ipv6_gateway s; now_ms = ns_current_time_ms s
               in if ns_ipv6 s = Some address
                  then let old_valid = (case ns_ipv6_slaac_lifetimes s of
                               Some lifetimes \<Rightarrow>
                                 if sl_address lifetimes = address then Some (sl_valid_until_ms lifetimes) else None
                             | None \<Rightarrow> None);
                           valid_until_ms = (case old_valid of
                               None \<Rightarrow> ipv6_lifetime_deadline now_ms (pio_valid_lifetime prefix)
                             | Some current \<Rightarrow>
                                 refreshed_ipv6_valid_deadline now_ms current (pio_valid_lifetime prefix));
                           preferred_until_ms = ipv6_lifetime_deadline now_ms (pio_preferred_lifetime prefix);
                           router = ns_ipv6_gateway s;
                           router_until_ms = (case router of
                               Some router \<Rightarrow> Option.bind (default_router_deadline s router) id
                             | None \<Rightarrow> None)
                       in Some ([], s\<lparr> ns_ipv6_slaac_lifetimes := Some
                            \<lparr> sl_address = address, sl_preferred_until_ms = preferred_until_ms,
                              sl_valid_until_ms = valid_until_ms, sl_router = router,
                              sl_router_until_ms = router_until_ms \<rparr> \<rparr>)
                  else do { (dad_probe, s) \<leftarrow> start_ipv6_dad address (pio_prefix_length prefix) gateway
                              (pio_preferred_lifetime prefix) (pio_valid_lifetime prefix) (ra_router_lifetime ra) s;
                            Some ((case dad_probe of Some f \<Rightarrow> [f] | None \<Rightarrow> []), s) }))"

definition process_router_advertisement ::
  "Ipv6Header \<Rightarrow> Icmpv6Packet \<Rightarrow> NetStack \<Rightarrow> (bytes list \<times> NetStack) may_panic" where
  "process_router_advertisement h icmp6 s =
     (let router = ip6_src_ip h
      in case validated_router_advertisement icmp6 router (ip6_hop_limit h) of
           None \<Rightarrow> Some ([], s)
         | Some ra \<Rightarrow>
             let s = ra_parameters ra s;
                 s = ra_source router icmp6 s;
                 s = cancel_router_discovery s;
                 s = ra_default_router router ra s;
                 s = ra_learn_routes router ra s;
                 s = ra_learn_prefixes ra s
             in ra_autoconfigure ra s)"

definition process_echo_request6 ::
  "MacAddress \<Rightarrow> Ipv6Header \<Rightarrow> Icmpv6Packet \<Rightarrow> NetStack \<Rightarrow> (bytes list \<times> NetStack) may_panic" where
  "process_echo_request6 src_mac h icmp6 s =
     (if length (ic6_payload icmp6) \<ge> 4
      then let ident = read_u16 0 (ic6_payload icmp6); seq = read_u16 2 (ic6_payload icmp6);
               echo_reply = build_echo_reply6 (my_ipv6 s) (ip6_src_ip h) ident seq (drop 4 (ic6_payload icmp6))
           in do { frame \<leftarrow> icmpv6_frame src_mac (ns_mac s) (my_ipv6 s) (ip6_src_ip h)
                              (ns_ipv6_default_hop_limit s) echo_reply;
                   Some ([frame], s) }
      else Some ([], s))"

definition process_echo_reply6 :: "Ipv6Header \<Rightarrow> Icmpv6Packet \<Rightarrow> NetStack \<Rightarrow> NetStack" where
  "process_echo_reply6 h icmp6 s =
     (if length (ic6_payload icmp6) \<ge> 4
      then s\<lparr> ns_received_icmpv6_replies := ns_received_icmpv6_replies s @
             [(ip6_src_ip h, read_u16 0 (ic6_payload icmp6), read_u16 2 (ic6_payload icmp6))] \<rparr>
      else s)"

text \<open>A solicitation or an advertisement for the tentative address, from another station, ends
  duplicate address detection.\<close>

definition detect_duplicate :: "MacAddress \<Rightarrow> Ipv6Address \<Rightarrow> NetStack \<Rightarrow> NetStack" where
  "detect_duplicate src_mac target s =
     (if src_mac \<noteq> ns_mac s \<and> (case ns_ipv6_dad s of Some dad \<Rightarrow> dad_address dad = target | None \<Rightarrow> False)
      then mark_ipv6_dad_duplicate target s else s)"

definition process_neighbor_solicitation ::
  "MacAddress \<Rightarrow> Ipv6Header \<Rightarrow> Icmpv6Packet \<Rightarrow> NetStack \<Rightarrow> (bytes list \<times> NetStack) may_panic" where
  "process_neighbor_solicitation src_mac h icmp6 s =
     (let src = ip6_src_ip h; my_ip6 = my_ipv6 s
      in case validated_neighbor_solicitation_target icmp6 src (ip6_dst_ip h) (ip6_hop_limit h) of
           None \<Rightarrow> Some ([], s)
         | Some target_ip6 \<Rightarrow>
             let s = (if \<not> ip6_is_unspecified src
                      then case ndp_source_link_layer_address icmp6 of
                             Some source_mac \<Rightarrow> s\<lparr> ns_ndp_table := learn_stale src source_mac (ns_ndp_table s) \<rparr>
                           | None \<Rightarrow> s
                      else s);
                 s = detect_duplicate src_mac target_ip6 s
             in if target_ip6 = my_ip6
                then let dad_probe = ip6_is_unspecified src;
                         reply_dst = (if dad_probe then LINK_LOCAL_ALL_NODES else src);
                         na = build_neighbor_advertisement my_ip6 reply_dst my_ip6 (ns_mac s) False (\<not> dad_probe) True;
                         dst_mac = (if dad_probe then multicast_mac_or_broadcast reply_dst else src_mac)
                     in do { frame \<leftarrow> icmpv6_frame dst_mac (ns_mac s) my_ip6 reply_dst 255 na;
                             Some ([frame], s) }
                else Some ([], s))"

text \<open>The neighbor cache after an advertisement for a known neighbor.\<close>

definition na_update_cached ::
  "Ipv6Address \<Rightarrow> MacAddress \<Rightarrow> MacAddress option \<Rightarrow> bool \<Rightarrow> bool \<Rightarrow> u64 \<Rightarrow> NdpTable \<Rightarrow> NdpTable" where
  "na_update_cached target current_mac advertised_mac solicited override_flag now_ms t =
     (if (case advertised_mac of Some mac \<Rightarrow> mac \<noteq> current_mac | None \<Rightarrow> False) \<and> \<not> override_flag
      then snd (demote_reachable_preserving_mac target t)
      else let selected_mac = (case advertised_mac of Some mac \<Rightarrow> mac | None \<Rightarrow> current_mac);
               address_changed = (selected_mac \<noteq> current_mac)
           in if solicited then confirm_reachable target selected_mac now_ms t
              else if address_changed then mark_stale target selected_mac t
              else t)"

definition na_finish :: "Ipv6Address \<Rightarrow> bool \<Rightarrow> NetStack \<Rightarrow> NetStack" where
  "na_finish target solicited s =
     (let s = (if solicited \<and> ndp_state (ns_ndp_table s) target = Some NsReachable
               then s\<lparr> ns_ipv6_failed_rio_routers := ns_ipv6_failed_rio_routers s - {target} \<rparr> else s)
      in reselect_ipv6_ra_routes s)"

definition na_known ::
  "Ipv6Address \<Rightarrow> MacAddress \<Rightarrow> MacAddress option \<Rightarrow> u8 \<Rightarrow> NetStack \<Rightarrow> NetStack" where
  "na_known target current_mac advertised_mac flags s =
     (let s = s\<lparr> ns_ndp_table := na_update_cached target current_mac advertised_mac (flags AND 0x40 \<noteq> 0)
                  (flags AND 0x20 \<noteq> 0) (ns_current_time_ms s) (ns_ndp_table s) \<rparr>
      in if flags AND 0x80 = 0 then refresh_slaac_default_router target 0 RpMedium s
         else if default_router_deadline s target \<noteq> None then select_ipv6_default_router s
         else s)"

definition na_resolves :: "Ipv6Address \<Rightarrow> MacAddress \<Rightarrow> u8 \<Rightarrow> NetStack \<Rightarrow> bytes list \<times> NetStack" where
  "na_resolves target target_mac flags s =
     (let s = s\<lparr> ns_ndp_table := (if flags AND 0x40 \<noteq> 0
                  then confirm_reachable target target_mac (ns_current_time_ms s) (ns_ndp_table s)
                  else mark_stale target target_mac (ns_ndp_table s)) \<rparr>;
          s = (if flags AND 0x80 \<noteq> 0 \<and> default_router_deadline s target \<noteq> None
               then select_ipv6_default_router s else s)
      in case hm_get (ns_pending_ndp_packets s) target of
           Some queued_packets \<Rightarrow>
             (map (ethernet_serialize target_mac (ns_mac s) ETHERTYPE_IPV6) queued_packets,
              s\<lparr> ns_pending_ndp_packets := hm_remove target (ns_pending_ndp_packets s) \<rparr>)
         | None \<Rightarrow> ([], s))"

definition process_neighbor_advertisement ::
  "MacAddress \<Rightarrow> Ipv6Header \<Rightarrow> Icmpv6Packet \<Rightarrow> NetStack \<Rightarrow> bytes list \<times> NetStack" where
  "process_neighbor_advertisement src_mac h icmp6 s =
     (case validated_neighbor_advertisement_target icmp6 (ip6_dst_ip h) (ip6_hop_limit h) of
        None \<Rightarrow> ([], s)
      | Some target_ip6 \<Rightarrow>
          let s = detect_duplicate src_mac target_ip6 s;
              cached_mac = ndp_lookup (ns_ndp_table s) target_ip6;
              resolving = hm_contains (ns_pending_ndp_packets s) target_ip6;
              advertised_mac = neighbor_advertisement_target_link_layer_address icmp6;
              flags = ic6_payload icmp6 ! 0;
              solicited = (flags AND 0x40 \<noteq> 0)
          in case cached_mac of
               Some current_mac \<Rightarrow>
                 ([], na_finish target_ip6 solicited (na_known target_ip6 current_mac advertised_mac flags s))
             | None \<Rightarrow>
                 if resolving
                 then (case advertised_mac of
                         None \<Rightarrow> ([], s)
                       | Some target_mac \<Rightarrow>
                           let (frames, s) = na_resolves target_ip6 target_mac flags s
                           in (frames, na_finish target_ip6 solicited s))
                 else ([], na_finish target_ip6 solicited s))"

definition process_icmpv6 ::
  "MacAddress \<Rightarrow> Ipv6Packet \<Rightarrow> Icmpv6Packet \<Rightarrow> NetStack \<Rightarrow> (bytes list \<times> NetStack) may_panic" where
  "process_icmpv6 src_mac pkt icmp6 s =
     (let h = ip6p_header pkt; t = ic6_msg_type icmp6
      in if t = ICMPV6_TYPE_PACKET_TOO_BIG then Some ([], process_packet_too_big icmp6 s)
         else if t = ICMPV6_TYPE_REDIRECT then Some ([], process_redirect h icmp6 s)
         else if t = ICMPV6_TYPE_ROUTER_ADVERT then process_router_advertisement h icmp6 s
         else if t = ICMPV6_TYPE_ECHO_REQUEST then process_echo_request6 src_mac h icmp6 s
         else if t = ICMPV6_TYPE_ECHO_REPLY then Some ([], process_echo_reply6 h icmp6 s)
         else if t = ICMPV6_TYPE_NEIGHBOR_SOLICIT then process_neighbor_solicitation src_mac h icmp6 s
         else if t = ICMPV6_TYPE_NEIGHBOR_ADVERT then Some (process_neighbor_advertisement src_mac h icmp6 s)
         else Some ([], s))"

definition process_ipv6 :: "MacAddress \<Rightarrow> bytes \<Rightarrow> NetStack \<Rightarrow> (bytes list \<times> NetStack) may_panic" where
  "process_ipv6 src_mac payload s =
     (case ipv6_parse payload of
        Inl _ \<Rightarrow> Some ([], s)
      | Inr pkt \<Rightarrow>
          let h = ip6p_header pkt; dst6 = ip6_dst_ip h
          in if \<not> ndp_acceptable pkt then Some ([], s)
             else if \<not> (dst6 = my_ipv6 s \<or> ip6_is_multicast dst6 \<or> dst6 = LINK_LOCAL_ALL_NODES) then Some ([], s)
             else if ip6_next_header h = NEXT_HEADER_ICMPV6
             then (case icmpv6_parse (ip6_src_ip h) (ip6_dst_ip h) (ip6p_payload pkt) True of
                     Inr icmp6 \<Rightarrow> process_icmpv6 src_mac pkt icmp6 s
                   | Inl _ \<Rightarrow> Some ([], s))
             else Some ([], s))"

section \<open>Frames\<close>

definition process_frame :: "bytes \<Rightarrow> NetStack \<Rightarrow> (bytes list \<times> NetStack) may_panic" where
  "process_frame raw_frame s =
     (case ethernet_parse raw_frame of
        Inl _ \<Rightarrow> Some ([], s)
      | Inr eth \<Rightarrow>
          if \<not> mac_is_broadcast (eth_dst_mac eth) \<and> \<not> mac_is_multicast (eth_dst_mac eth) \<and>
             eth_dst_mac eth \<noteq> ns_mac s then Some ([], s)
          else (case eth_ethertype eth of
                  EtArp \<Rightarrow> Some (process_arp (eth_payload eth) s)
                | EtIPv4 \<Rightarrow> process_ipv4 (eth_src_mac eth) (eth_payload eth) s
                | EtIPv6 \<Rightarrow> process_ipv6 (eth_src_mac eth) (eth_payload eth) s
                | _ \<Rightarrow> Some ([], s)))"

definition process_frame_with_ipv4_errors :: "bytes \<Rightarrow> NetStack \<Rightarrow> (bytes list \<times> NetStack) may_panic" where
  "process_frame_with_ipv4_errors raw_frame s =
     do { reply \<leftarrow> build_ipv4_parameter_problem_reply (ns_mac s) (ns_ip s) raw_frame;
          case reply of
            Some reply \<Rightarrow> Some ([reply], s)
          | None \<Rightarrow> process_frame raw_frame s }"

end
