(* ===== verification/StackViews.thy ===== *)
theory StackViews
  imports StackFrames
begin

text \<open>
  What the operations of the host stack leave alone.  \<open>host_view\<close> forgets the part of the state that
  belongs to the IPv6 interface (neighbor cache, IPv6 routes, autoconfiguration, router discovery and
  the caches); the functions that maintain this part keep everything else.
\<close>

definition host_view :: "NetStack \<Rightarrow> NetStack" where
  "host_view s = s\<lparr> ns_ndp_table := ndp_new, ns_ipv6_routing_table := table6_new,
     ns_ipv6_prefix_len := None, ns_ipv6_gateway := None, ns_ipv6_default_routers := [],
     ns_ipv6_dad := None, ns_ipv6_dad_duplicate := None, ns_ipv6_slaac_lifetimes := None,
     ns_ipv6_ra_on_link_prefixes := [], ns_ipv6_ra_routes := [], ns_ipv6_failed_rio_routers := {},
     ns_ipv6_router_discovery := None, ns_ipv6_router_discovery_exhausted := False,
     ns_ipv6_default_hop_limit := 0, ns_ipv6_link_mtu := 0, ns_ipv6_path_mtu_cache := [],
     ns_ipv6_redirect_cache := [], ns_pending_ndp_packets := [] \<rparr>"

lemma host_view_updates [simp]:
  "host_view (s\<lparr> ns_ndp_table := x1 \<rparr>) = host_view s"
  "host_view (s\<lparr> ns_ipv6_routing_table := x2 \<rparr>) = host_view s"
  "host_view (s\<lparr> ns_ipv6_prefix_len := x3 \<rparr>) = host_view s"
  "host_view (s\<lparr> ns_ipv6_gateway := x4 \<rparr>) = host_view s"
  "host_view (s\<lparr> ns_ipv6_default_routers := x5 \<rparr>) = host_view s"
  "host_view (s\<lparr> ns_ipv6_dad := x6 \<rparr>) = host_view s"
  "host_view (s\<lparr> ns_ipv6_dad_duplicate := x7 \<rparr>) = host_view s"
  "host_view (s\<lparr> ns_ipv6_slaac_lifetimes := x8 \<rparr>) = host_view s"
  "host_view (s\<lparr> ns_ipv6_ra_on_link_prefixes := x9 \<rparr>) = host_view s"
  "host_view (s\<lparr> ns_ipv6_ra_routes := x10 \<rparr>) = host_view s"
  "host_view (s\<lparr> ns_ipv6_failed_rio_routers := x11 \<rparr>) = host_view s"
  "host_view (s\<lparr> ns_ipv6_router_discovery := x12 \<rparr>) = host_view s"
  "host_view (s\<lparr> ns_ipv6_router_discovery_exhausted := x13 \<rparr>) = host_view s"
  "host_view (s\<lparr> ns_ipv6_default_hop_limit := x14 \<rparr>) = host_view s"
  "host_view (s\<lparr> ns_ipv6_link_mtu := x15 \<rparr>) = host_view s"
  "host_view (s\<lparr> ns_ipv6_path_mtu_cache := x16 \<rparr>) = host_view s"
  "host_view (s\<lparr> ns_ipv6_redirect_cache := x17 \<rparr>) = host_view s"
  "host_view (s\<lparr> ns_pending_ndp_packets := x18 \<rparr>) = host_view s"
  by (simp_all add: host_view_def)

text \<open>What equal views share.\<close>

lemma host_view_fields:
  assumes "host_view s' = host_view s"
  shows "ns_config s' = ns_config s" "ns_arp_table s' = ns_arp_table s"
    "ns_routing_table s' = ns_routing_table s" "ns_firewall s' = ns_firewall s" "ns_nat s' = ns_nat s"
    "ns_udp_sockets s' = ns_udp_sockets s" "ns_tcp_manager s' = ns_tcp_manager s"
    "ns_sockets s' = ns_sockets s" "ns_ip_id_counter s' = ns_ip_id_counter s"
    "ns_current_time_ms s' = ns_current_time_ms s" "ns_pending_arp_packets s' = ns_pending_arp_packets s"
    "ns_dhcp_server s' = ns_dhcp_server s" "ns_received_icmpv6_replies s' = ns_received_icmpv6_replies s"
  using arg_cong [OF assms, of ns_config] arg_cong [OF assms, of ns_arp_table]
    arg_cong [OF assms, of ns_routing_table] arg_cong [OF assms, of ns_firewall]
    arg_cong [OF assms, of ns_nat] arg_cong [OF assms, of ns_udp_sockets]
    arg_cong [OF assms, of ns_tcp_manager] arg_cong [OF assms, of ns_sockets]
    arg_cong [OF assms, of ns_ip_id_counter] arg_cong [OF assms, of ns_current_time_ms]
    arg_cong [OF assms, of ns_pending_arp_packets] arg_cong [OF assms, of ns_dhcp_server]
    arg_cong [OF assms, of ns_received_icmpv6_replies]
  by (simp_all add: host_view_def)

lemma host_view_fold:
  "(\<And>x s. host_view (f x s) = host_view s) \<Longrightarrow> host_view (fold f xs s) = host_view s"
  by (induction xs arbitrary: s) simp_all

section \<open>The IPv6 interface\<close>

lemma host_view_routes6 [simp]:
  "host_view (add_route6_to p l g src s) = host_view s"
  "host_view (remove_route6_of p l src s) = host_view s"
  by (simp_all add: add_route6_to_def remove_route6_of_def)

lemma host_view_set_gateway [simp]: "host_view (set_ipv6_default_gateway g s) = host_view s"
  by (simp add: set_ipv6_default_gateway_def Let_def split: option.split)

lemma host_view_select [simp]: "host_view (select_ipv6_default_router s) = host_view s"
  by (simp add: select_ipv6_default_router_def Let_def split: prod.split)

lemma host_view_routers [simp]:
  "host_view (refresh_slaac_default_router r l p s) = host_view s"
  "host_view (snd (expire_ipv6_default_routers now s)) = host_view s"
  by (simp_all add: refresh_slaac_default_router_def expire_ipv6_default_routers_def Let_def)

lemma host_view_ra [simp]:
  "host_view (refresh_ipv6_ra_on_link_prefix p l v s) = host_view s"
  "host_view (select_ipv6_ra_route p l s) = host_view s"
  by (simp_all add: refresh_ipv6_ra_on_link_prefix_def select_ipv6_ra_route_def Let_def split: option.split)

lemma host_view_ra_routes [simp]:
  "host_view (reselect_ipv6_ra_routes s) = host_view s"
  "host_view (refresh_ipv6_ra_route r p l pr lt s) = host_view s"
  by (simp_all add: reselect_ipv6_ra_routes_def refresh_ipv6_ra_route_def Let_def host_view_fold case_prod_beta)

lemma host_view_dad [simp]:
  "host_view (mark_ipv6_dad_duplicate a s) = host_view s"
  "host_view (detect_duplicate m a s) = host_view s"
  "host_view (cancel_router_discovery s) = host_view s"
  by (simp_all add: mark_ipv6_dad_duplicate_def detect_duplicate_def cancel_router_discovery_def
      split: option.split)

lemma host_view_start_dad:
  "start_ipv6_dad a l g pl vl rl s = Some (f, s') \<Longrightarrow> host_view s' = host_view s"
  by (auto simp: start_ipv6_dad_def Let_def bind_eq_Some_conv split: if_splits option.splits)

lemma host_view_discovery:
  "start_router_discovery s = Some (f, s') \<Longrightarrow> host_view s' = host_view s"
  "step_router_discovery now s = Some (fs, s') \<Longrightarrow> host_view s' = host_view s"
  by (auto simp: start_router_discovery_def step_router_discovery_def Let_def bind_eq_Some_conv
      split: if_splits option.splits)

lemma host_view_send6:
  "send_ip6_packet dst p s = Some (f, s') \<Longrightarrow> host_view s' = host_view s"
  by (auto simp: send_ip6_packet_def Let_def bind_eq_Some_conv split: if_splits option.splits prod.splits)

section \<open>Received ICMPv6 messages\<close>

lemma host_view_ra_parts [simp]:
  "host_view (ra_parameters ra s) = host_view s"
  "host_view (ra_source r i s) = host_view s"
  "host_view (ra_default_router r ra s) = host_view s"
  "host_view (ra_learn_routes r ra s) = host_view s"
  "host_view (ra_learn_prefixes ra s) = host_view s"
  by (simp_all add: ra_parameters_def ra_source_def ra_default_router_def ra_learn_routes_def
      ra_learn_prefixes_def Let_def host_view_fold split: option.split)

lemma host_view_autoconfigure:
  "ra_autoconfigure ra s = Some (fs, s') \<Longrightarrow> host_view s' = host_view s"
  by (auto simp: ra_autoconfigure_def Let_def bind_eq_Some_conv dest!: host_view_start_dad
      split: if_splits option.splits)

lemma host_view_na [simp]:
  "host_view (na_finish t sol s) = host_view s"
  "host_view (na_known t m a fl s) = host_view s"
  "host_view (snd (na_resolves t m fl s)) = host_view s"
  by (simp_all add: na_finish_def na_known_def na_resolves_def Let_def split: option.split)

lemma host_view_advertisement [simp]:
  "host_view (snd (process_neighbor_advertisement m h i s)) = host_view s"
  by (simp add: process_neighbor_advertisement_def Let_def case_prod_beta split: option.split)

lemma host_view_advertisement_eq:
  "process_neighbor_advertisement m h i s = (fs, s') \<Longrightarrow> host_view s' = host_view s"
  using host_view_advertisement [of m h i s] by simp

text \<open>An IPv6 packet changes nothing outside the IPv6 interface but the list of echo replies.\<close>

lemma host_view_icmpv6_silent:
  "process_icmpv6 m pkt i s = Some (fs, s') \<Longrightarrow> ic6_msg_type i \<noteq> ICMPV6_TYPE_ECHO_REPLY \<Longrightarrow>
   host_view s' = host_view s"
  unfolding process_icmpv6_def Let_def process_router_advertisement_def process_neighbor_solicitation_def
    process_echo_request6_def process_packet_too_big_def process_redirect_def
  by (auto simp: bind_eq_Some_conv dest!: host_view_autoconfigure host_view_advertisement_eq
      split: if_splits option.splits)

lemma host_view_icmpv6:
  assumes "process_icmpv6 m pkt i s = Some (fs, s')"
  shows "host_view s' = host_view (s\<lparr> ns_received_icmpv6_replies := ns_received_icmpv6_replies s' \<rparr>)"
proof (cases "ic6_msg_type i = ICMPV6_TYPE_ECHO_REPLY")
  case True
  then show ?thesis
    using assms by (auto simp: process_icmpv6_def process_echo_reply6_def ICMPV6_TYPE_PACKET_TOO_BIG_def
      ICMPV6_TYPE_REDIRECT_def ICMPV6_TYPE_ROUTER_ADVERT_def ICMPV6_TYPE_ECHO_REQUEST_def ICMPV6_TYPE_ECHO_REPLY_def)
next
  case False
  note v = host_view_icmpv6_silent [OF assms False]
  show ?thesis using v host_view_fields(13) [OF v] by simp
qed

lemma host_view_ipv6:
  "process_ipv6 m p s = Some (fs, s') \<Longrightarrow>
   host_view s' = host_view (s\<lparr> ns_received_icmpv6_replies := ns_received_icmpv6_replies s' \<rparr>)"
  by (auto simp: process_ipv6_def Let_def dest: host_view_icmpv6 split: if_splits sum.splits)

section \<open>Received IPv4 packets\<close>

text \<open>\<open>main_view\<close> forgets the bookkeeping of received messages, the identification counter and the
  address pool of the DHCP server.\<close>

definition main_view :: "NetStack \<Rightarrow> NetStack" where
  "main_view s = s\<lparr> ns_ip_id_counter := 0, ns_dhcp_server := None, ns_received_dhcp_offers := [],
     ns_received_dhcp_acks := [], ns_received_icmp_replies := [], ns_received_icmp_time_exceeded := [],
     ns_received_icmp_unreachable := [], ns_received_udp_payloads := [] \<rparr>"

lemma main_view_updates [simp]:
  "main_view (s\<lparr> ns_ip_id_counter := n \<rparr>) = main_view s"
  "main_view (s\<lparr> ns_dhcp_server := ds \<rparr>) = main_view s"
  "main_view (s\<lparr> ns_received_dhcp_offers := ro \<rparr>) = main_view s"
  "main_view (s\<lparr> ns_received_dhcp_acks := rk \<rparr>) = main_view s"
  "main_view (s\<lparr> ns_received_icmp_replies := ri \<rparr>) = main_view s"
  "main_view (s\<lparr> ns_received_icmp_time_exceeded := rx \<rparr>) = main_view s"
  "main_view (s\<lparr> ns_received_icmp_unreachable := ru \<rparr>) = main_view s"
  "main_view (s\<lparr> ns_received_udp_payloads := rp \<rparr>) = main_view s"
  by (simp_all add: main_view_def)

lemma main_view_fields:
  assumes "main_view s' = main_view s"
  shows "ns_config s' = ns_config s" "ns_arp_table s' = ns_arp_table s"
    "ns_routing_table s' = ns_routing_table s" "ns_firewall s' = ns_firewall s" "ns_nat s' = ns_nat s"
    "ns_udp_sockets s' = ns_udp_sockets s" "ns_tcp_manager s' = ns_tcp_manager s"
    "ns_sockets s' = ns_sockets s" "ns_current_time_ms s' = ns_current_time_ms s"
    "ns_pending_arp_packets s' = ns_pending_arp_packets s"
  using arg_cong [OF assms, of ns_config] arg_cong [OF assms, of ns_arp_table]
    arg_cong [OF assms, of ns_routing_table] arg_cong [OF assms, of ns_firewall]
    arg_cong [OF assms, of ns_nat] arg_cong [OF assms, of ns_udp_sockets]
    arg_cong [OF assms, of ns_tcp_manager] arg_cong [OF assms, of ns_sockets]
    arg_cong [OF assms, of ns_current_time_ms] arg_cong [OF assms, of ns_pending_arp_packets]
  by (simp_all add: main_view_def)

lemma main_view_reply4:
  "reply4 m src dst p x s = Some (f, s') \<Longrightarrow> main_view s' = main_view s"
  by (auto simp: reply4_def next_ip_id_def Let_def bind_eq_Some_conv)

lemma main_view_reply4_all:
  "reply4_all m dst p xs s = Some (fs, s') \<Longrightarrow> main_view s' = main_view s"
proof (induction xs arbitrary: s fs)
  case (Cons x xs)
  then show ?case by (force simp: bind_eq_Some_conv dest!: main_view_reply4)
qed simp

lemma main_view_icmp:
  "process_icmp m pkt s = Some (fs, s') \<Longrightarrow> main_view s' = main_view s"
  unfolding process_icmp_def Let_def
  by (auto simp: bind_eq_Some_conv dest!: main_view_reply4 split: sum.splits IcmpType.splits)

lemma main_view_dhcp_serve:
  "dhcp_serve u s = Some (fs, s') \<Longrightarrow> main_view s' = main_view s"
  unfolding dhcp_serve_def Let_def
  by (auto simp: bind_eq_Some_conv dest!: main_view_reply4 split: if_splits option.splits sum.splits prod.splits)

lemma main_view_dhcp_learn [simp]: "main_view (dhcp_learn u s) = main_view s"
  unfolding dhcp_learn_def by (auto split: sum.split DhcpMessageType.split)

text \<open>What an IPv4 packet does to the sockets and to the connection manager.\<close>

lemma main_view_sockets:
  assumes "main_view s' = main_view s"
  shows "main_view (s'\<lparr> ns_sockets := rt \<rparr>) = main_view (s\<lparr> ns_sockets := rt \<rparr>)"
proof -
  have "main_view (x\<lparr> ns_sockets := rt \<rparr>) = (main_view x)\<lparr> ns_sockets := rt \<rparr>" for x
    by (cases x) (simp add: main_view_def)
  then show ?thesis by (simp add: assms)
qed

lemma process_udp_state:
  assumes "process_udp m pkt s = Some (fs, s')"
    and "udp_parse (ip_src_ip (ipp_header pkt)) (ip_dst_ip (ipp_header pkt)) (ipp_payload pkt) True = Inr u"
  shows "main_view s' = main_view (s\<lparr> ns_sockets := snd (dispatch_udp
      \<lparr> sock_ip = ip_src_ip (ipp_header pkt), sock_port = udp_src_port u \<rparr>
      \<lparr> sock_ip = ip_dst_ip (ipp_header pkt), sock_port = udp_dst_port u \<rparr> (udp_payload u) (ns_sockets s)) \<rparr>)"
proof -
  let ?src = "ip_src_ip (ipp_header pkt)" and ?dst = "ip_dst_ip (ipp_header pkt)"
  let ?s0 = "s\<lparr> ns_received_udp_payloads := ns_received_udp_payloads s @
    [(?src, udp_src_port u, udp_dst_port u, udp_payload u)] \<rparr>"
  let ?D = "dispatch_udp \<lparr> sock_ip = ?src, sock_port = udp_src_port u \<rparr>
    \<lparr> sock_ip = ?dst, sock_port = udp_dst_port u \<rparr> (udp_payload u)"
  obtain served s1 where serve: "dhcp_serve u ?s0 = Some (served, s1)"
    using assms by (auto simp: process_udp_def Let_def bind_eq_Some_conv)
  let ?s2 = "dhcp_learn u s1"
  have v: "main_view ?s2 = main_view s" using main_view_dhcp_serve [OF serve] by simp
  let ?s3 = "?s2\<lparr> ns_sockets := snd (?D (ns_sockets ?s2)) \<rparr>"
  have "main_view s' = main_view ?s3"
    using assms serve
    by (auto simp: process_udp_def Let_def bind_eq_Some_conv case_prod_beta dest!: main_view_reply4
        split: option.splits)
  also have "\<dots> = main_view (s\<lparr> ns_sockets := snd (?D (ns_sockets s)) \<rparr>)"
    using main_view_sockets [OF v] main_view_fields(8) [OF v] by simp
  finally show ?thesis .
qed

lemma process_udp_dropped:
  assumes "process_udp m pkt s = Some (fs, s')"
    and "udp_parse (ip_src_ip (ipp_header pkt)) (ip_dst_ip (ipp_header pkt)) (ipp_payload pkt) True = Inl e"
  shows "s' = s"
  using assms by (simp add: process_udp_def)

lemma process_tcp_cases:
  assumes "process_tcp m pkt s = Some (fs, s')"
  defines "src \<equiv> ip_src_ip (ipp_header pkt)" and "dst \<equiv> ip_dst_ip (ipp_header pkt)"
  obtains (invalid) e where "tcp_parse src dst (ipp_payload pkt) True = Inl e" "s' = s"
  | (socket) seg resp rt where "tcp_parse src dst (ipp_payload pkt) True = Inr seg"
      "socket_has_endpoint dst (seg_dst_port seg) src (seg_src_port seg) (ns_sockets s)"
      "dispatch_tcp_segment src dst seg (ns_current_time_ms s) (ns_sockets s) = Some (resp, rt)"
      "main_view s' = main_view (s\<lparr> ns_sockets := rt \<rparr>)"
  | (manager) seg resp mgr where "tcp_parse src dst (ipp_payload pkt) True = Inr seg"
      "\<not> socket_has_endpoint dst (seg_dst_port seg) src (seg_src_port seg) (ns_sockets s)"
      "has_endpoint dst (seg_dst_port seg) src (seg_src_port seg) (ns_tcp_manager s)"
      "process_segment_at src dst seg (ns_current_time_ms s) (ns_tcp_manager s) = Some (resp, mgr)"
      "main_view s' = main_view (s\<lparr> ns_tcp_manager := mgr \<rparr>)"
  | (refused) seg where "tcp_parse src dst (ipp_payload pkt) True = Inr seg"
      "\<not> socket_has_endpoint dst (seg_dst_port seg) src (seg_src_port seg) (ns_sockets s)"
      "\<not> has_endpoint dst (seg_dst_port seg) src (seg_src_port seg) (ns_tcp_manager s)"
      "main_view s' = main_view s"
  using assms(1) unfolding process_tcp_def Let_def src_def [symmetric] dst_def [symmetric]
  by (auto simp: bind_eq_Some_conv dest!: main_view_reply4_all split: sum.splits if_splits)

end
