(* ===== verification/StackLink.thy ===== *)
theory StackLink
  imports StackViews NdpWire
begin

text \<open>
  Two hosts on one link: what one host sends is what the other one processes.  From cold caches, an
  echo request reaches the other host and its answer comes back.
\<close>

section \<open>Frames of a host at its peer\<close>

lemma ethertype_of [simp]:
  "ethertype_from_u16 ETHERTYPE_IPV4 = EtIPv4" "ethertype_from_u16 ETHERTYPE_ARP = EtArp"
  "ethertype_from_u16 ETHERTYPE_IPV6 = EtIPv6"
  by (simp_all add: ethertype_from_u16_def ETHERTYPE_IPV4_def ETHERTYPE_ARP_def ETHERTYPE_IPV6_def)

definition accepts_mac :: "MacAddress \<Rightarrow> NetStack \<Rightarrow> bool" where
  "accepts_mac d s \<longleftrightarrow> mac_is_broadcast d \<or> mac_is_multicast d \<or> d = ns_mac s"

lemma accepts_mac_simps [simp]: "accepts_mac (ns_mac s) s" "accepts_mac mac_BROADCAST s"
  by (simp_all add: accepts_mac_def mac_is_broadcast_def mac_BROADCAST_def)

lemma process_frame_to:
  assumes "accepts_mac d s"
  shows "process_frame (ethernet_serialize d m ETHERTYPE_IPV4 p) s = process_ipv4 m p s"
    "process_frame (ethernet_serialize d m ETHERTYPE_ARP p) s = Some (process_arp p s)"
    "process_frame (ethernet_serialize d m ETHERTYPE_IPV6 p) s = process_ipv6 m p s"
  using assms by (auto simp: process_frame_def ethernet_parse_serialize accepts_mac_def)

text \<open>A packet a host serializes, at the host it is addressed to, when the firewall accepts it.\<close>

definition open_to :: "NetStack \<Rightarrow> Ipv4Address \<Rightarrow> bool" where
  "open_to s src \<longleftrightarrow>
     (\<forall>pkt. ip_src_ip (ipp_header pkt) = src \<longrightarrow> fw_evaluate (ns_firewall s) ChainInput pkt = FwAccept)"

definition knows :: "Ipv4Address \<Rightarrow> MacAddress \<Rightarrow> NetStack \<Rightarrow> NetStack" where
  "knows ip m s = s\<lparr> ns_arp_table := arp_insert ip m (ns_arp_table s) \<rparr>"

lemma process_ipv4_sent:
  assumes "length payload \<le> 65515" "ipv4_serialize src dst proto ident ttl payload = Some buf"
    and "open_to s src" "dst = ns_ip s \<or> dst = ip_BROADCAST"
  obtains pkt where "ip_src_ip (ipp_header pkt) = src" "ip_dst_ip (ipp_header pkt) = dst"
    "ipp_payload pkt = payload"
    "process_ipv4 m buf s =
       (case ip_protocol_from_u8 proto of
          IpIcmp \<Rightarrow> process_icmp m pkt (knows src m s)
        | IpUdp \<Rightarrow> process_udp m pkt (knows src m s)
        | IpTcp \<Rightarrow> process_tcp m pkt (knows src m s)
        | _ \<Rightarrow> Some ([], knows src m s))"
proof -
  obtain pkt where p: "ipv4_parse buf True = Inr pkt" "ip_src_ip (ipp_header pkt) = src"
      "ip_dst_ip (ipp_header pkt) = dst" "ipp_payload pkt = payload"
      "ip_protocol (ipp_header pkt) = ip_protocol_from_u8 proto"
    using ipv4_parse_serialize [OF assms(1), of src dst proto ident ttl] assms(2) by auto
  moreover have "fw_evaluate (ns_firewall s) ChainInput pkt = FwAccept"
    using assms(3) p by (simp add: open_to_def)
  ultimately have "process_ipv4 m buf s =
       (case ip_protocol_from_u8 proto of
          IpIcmp \<Rightarrow> process_icmp m pkt (knows src m s)
        | IpUdp \<Rightarrow> process_udp m pkt (knows src m s)
        | IpTcp \<Rightarrow> process_tcp m pkt (knows src m s)
        | _ \<Rightarrow> Some ([], knows src m s))"
    using assms(4) unfolding process_ipv4_def Let_def ip_is_broadcast_def ip_BROADCAST_def knows_def
    by (auto split: IpProtocol.split)
  with p show ?thesis by (intro that [of pkt]) simp_all
qed

lemma knows_simps [simp]:
  "ns_config (knows ip m s) = ns_config s" "ns_firewall (knows ip m s) = ns_firewall s"
  "ns_pending_arp_packets (knows ip m s) = ns_pending_arp_packets s"
  "arp_lookup (ns_arp_table (knows ip m s)) x = (if x = ip then Some m else arp_lookup (ns_arp_table s) x)"
  by (simp_all add: knows_def arp_lookup_def arp_insert_def)

section \<open>Address resolution\<close>

lemma process_arp_request:
  assumes "hm_get (ns_pending_arp_packets s) ip = None"
  shows "process_arp (arp_serialize (arp_build_request m ip (ns_ip s))) s =
    ([ethernet_serialize m (ns_mac s) ETHERTYPE_ARP
        (arp_serialize (arp_build_reply (ns_mac s) (ns_ip s) m ip))], knows ip m s)"
proof -
  have "arp_parse (arp_serialize (arp_build_request m ip (ns_ip s))) = Inr (arp_build_request m ip (ns_ip s))"
    by (rule arp_parse_serialize) (auto simp: arp_build_request_def arp_is_ethernet_ipv4_def
        intro: image_eqI [of _ _ ARP_OP_REQUEST] simp: arp_opcode_from_u16_def)
  then show ?thesis
    using assms by (simp add: process_arp_def Let_def arp_build_request_def knows_def)
qed

lemma process_arp_reply:
  assumes "hm_get (ns_pending_arp_packets s) ip = Some q"
  shows "process_arp (arp_serialize (arp_build_reply m ip (ns_mac s) (ns_ip s))) s =
    (map (ethernet_serialize m (ns_mac s) ETHERTYPE_IPV4) q,
     (knows ip m s)\<lparr> ns_pending_arp_packets := hm_remove ip (ns_pending_arp_packets s) \<rparr>)"
proof -
  have "arp_parse (arp_serialize (arp_build_reply m ip (ns_mac s) (ns_ip s))) = Inr (arp_build_reply m ip (ns_mac s) (ns_ip s))"
    by (rule arp_parse_serialize) (auto simp: arp_build_reply_def arp_is_ethernet_ipv4_def
        intro: image_eqI [of _ _ ARP_OP_REPLY] simp: arp_opcode_from_u16_def arp_consts)
  then show ?thesis
    using assms by (simp add: process_arp_def Let_def arp_build_reply_def knows_def)
qed

section \<open>Echo over IPv4\<close>

lemma icmp_echo_parse:
  assumes "length p \<le> 65507"
  obtains req rep where "icmp_parse (build_echo_request i n p) True = Inr req"
    "icmp_icmp_type req = IcmpEchoRequest" "icmp_parse (build_echo_reply req) True = Inr rep"
    "icmp_icmp_type rep = IcmpEchoReply" "icmp_identifier rep = i" "icmp_sequence_number rep = n"
    "length (build_echo_request i n p) = 8 + length p" "length (build_echo_reply req) = 8 + length p"
proof -
  have len: "length (icmp_serialize ty c i n p) = 8 + length p" for ty c
    by (simp add: icmp_serialize_def Let_def length_write_at)
  have le: "length p \<le> 65527" using assms by simp
  obtain c1 where 1: "icmp_parse (build_echo_request i n p) True =
    Inr \<lparr> icmp_icmp_type = IcmpEchoRequest, icmp_code = 0, icmp_checksum = c1,
          icmp_identifier = i, icmp_sequence_number = n, icmp_payload = p \<rparr>" (is "_ = Inr ?req")
    using icmp_parse_serialize [OF le, of ICMP_TYPE_ECHO_REQUEST 0 i n]
    by (auto simp: build_echo_request_def icmp_type_from_u8_def icmp_type_defs)
  obtain c2 where 2: "icmp_parse (build_echo_reply ?req) True =
    Inr \<lparr> icmp_icmp_type = IcmpEchoReply, icmp_code = 0, icmp_checksum = c2,
          icmp_identifier = i, icmp_sequence_number = n, icmp_payload = p \<rparr>" (is "_ = Inr ?rep")
    using icmp_parse_serialize [OF le, of ICMP_TYPE_ECHO_REPLY 0 i n]
    by (auto simp: build_echo_reply_def icmp_type_from_u8_def icmp_type_defs)
  show ?thesis
    by (rule that [OF 1 _ 2]) (simp_all add: build_echo_request_def build_echo_reply_def len)
qed

text \<open>The stack's own packets are serialized when they fit a datagram.\<close>

lemma ipv4_serialize_fits:
  "length payload \<le> 65515 \<Longrightarrow> \<exists>buf. ipv4_serialize src dst proto ident ttl payload = Some buf"
  using ipv4_parse_serialize by blast

lemma hm_remove_insert: "hm_get m k = None \<Longrightarrow> hm_remove k (hm_insert k v m) = m"
  by (simp add: delete_update_same delete_id map_of_eq_None_iff)

lemma process_icmp_sent:
  assumes "icmp_parse msg True = Inr icmp" "length msg \<le> 65515"
    and "ipv4_serialize src (ns_ip s) IP_PROTO_ICMP ident 64 msg = Some p" "open_to s src"
  obtains pkt where "ip_src_ip (ipp_header pkt) = src" "ipp_payload pkt = msg"
    "process_frame (ethernet_serialize (ns_mac s) m ETHERTYPE_IPV4 p) s = process_icmp m pkt (knows src m s)"
  by (rule process_ipv4_sent [OF assms(2-4), of m]) (auto simp: process_frame_to ip_protocol_from_u8_def intro: that)

lemma echo_request_answered:
  assumes "icmp_parse msg True = Inr req" "icmp_icmp_type req = IcmpEchoRequest" "length msg \<le> 65515"
    and "ipv4_serialize src (ns_ip s) IP_PROTO_ICMP ident 64 msg = Some p" "open_to s src"
    and "ipv4_serialize (ns_ip s) src IP_PROTO_ICMP (ns_ip_id_counter s) 64 (build_echo_reply req) = Some p'"
  shows "process_frame (ethernet_serialize (ns_mac s) m ETHERTYPE_IPV4 p) s =
    Some ([ethernet_serialize m (ns_mac s) ETHERTYPE_IPV4 p'],
          (knows src m s)\<lparr> ns_ip_id_counter := ns_ip_id_counter s + 1 \<rparr>)"
  by (rule process_icmp_sent [OF assms(1,3-5), of m])
    (use assms in \<open>simp add: process_icmp_def reply4_def next_ip_id_def knows_def\<close>)

lemma echo_reply_recorded:
  assumes "icmp_parse msg True = Inr rep" "icmp_icmp_type rep = IcmpEchoReply" "length msg \<le> 65515"
    and "ipv4_serialize src (ns_ip s) IP_PROTO_ICMP ident 64 msg = Some p" "open_to s src"
  shows "process_frame (ethernet_serialize (ns_mac s) m ETHERTYPE_IPV4 p) s =
    Some ([], (knows src m s)\<lparr> ns_received_icmp_replies :=
      ns_received_icmp_replies s @ [(src, icmp_identifier rep, icmp_sequence_number rep)] \<rparr>)"
  by (rule process_icmp_sent [OF assms(1,3-5), of m]) (use assms in \<open>simp add: process_icmp_def knows_def\<close>)

text \<open>C2: an echo request between two hosts on a link that do not know each other's hardware addresses
  is answered: the sender asks for the address and keeps the packet, the other host answers and learns
  the sender's address, the answer releases the packet, the other host replies to it, and the reply is
  recorded with its identifier and sequence number.  Neither host sends any other frame.\<close>
theorem ping_resolves_and_answers:
  assumes "\<And>p. egress_next_hop (ns_routing_table a) (ns_ip b) p = ns_ip b"
    and "arp_lookup (ns_arp_table a) (ns_ip b) = None"
    and "hm_get (ns_pending_arp_packets a) (ns_ip b) = None" "hm_get (ns_pending_arp_packets b) (ns_ip a) = None"
    and "open_to a (ns_ip b)" "open_to b (ns_ip a)" "length payload \<le> 65507"
  shows "\<exists>f1 a1 f2 b1 f3 a2 f4 b2 a3.
    ping4 (ns_ip b) i n payload a = Some (Some f1, a1) \<and>
    process_frame f1 b = Some ([f2], b1) \<and> process_frame f2 a1 = Some ([f3], a2) \<and>
    process_frame f3 b1 = Some ([f4], b2) \<and> process_frame f4 a2 = Some ([], a3) \<and>
    ns_received_icmp_replies a3 = ns_received_icmp_replies a @ [(ns_ip b, i, n)] \<and>
    arp_lookup (ns_arp_table a3) (ns_ip b) = Some (ns_mac b) \<and>
    arp_lookup (ns_arp_table b2) (ns_ip a) = Some (ns_mac a) \<and>
    ns_pending_arp_packets a3 = ns_pending_arp_packets a"
proof -
  let ?req = "build_echo_request i n payload"
  obtain req rep where icmp: "icmp_parse ?req True = Inr req"
    "icmp_icmp_type req = IcmpEchoRequest" "icmp_parse (build_echo_reply req) True = Inr rep"
    "icmp_icmp_type rep = IcmpEchoReply" "icmp_identifier rep = i" "icmp_sequence_number rep = n"
    "length ?req = 8 + length payload" "length (build_echo_reply req) = 8 + length payload"
    by (rule icmp_echo_parse [OF assms(7)])
  have len: "length ?req \<le> 65515" "length (build_echo_reply req) \<le> 65515" using icmp assms(7) by simp_all
  obtain p1 p2 where p1: "ipv4_serialize (ns_ip a) (ns_ip b) IP_PROTO_ICMP (ns_ip_id_counter a) 64 ?req = Some p1"
    and p2: "ipv4_serialize (ns_ip b) (ns_ip a) IP_PROTO_ICMP (ns_ip_id_counter b) 64 (build_echo_reply req) = Some p2"
    using ipv4_serialize_fits [OF len(1)] ipv4_serialize_fits [OF len(2)] by blast
  define a1 where "a1 = a\<lparr> ns_ip_id_counter := ns_ip_id_counter a + 1,
    ns_pending_arp_packets := hm_push (ns_ip b) p1 (ns_pending_arp_packets a) \<rparr>"
  define a2 where "a2 = (knows (ns_ip b) (ns_mac b) a1)\<lparr> ns_pending_arp_packets :=
    hm_remove (ns_ip b) (ns_pending_arp_packets a1) \<rparr>"
  define b1 where "b1 = knows (ns_ip a) (ns_mac a) b"
  define f2 where "f2 = ethernet_serialize (ns_mac a) (ns_mac b) ETHERTYPE_ARP
    (arp_serialize (arp_build_reply (ns_mac b) (ns_ip b) (ns_mac a) (ns_ip a)))"
  have conf: "ns_config a2 = ns_config a" "ns_config a1 = ns_config a" "ns_config b1 = ns_config b"
    by (simp_all add: a1_def a2_def b1_def)
  obtain f1 where 1: "ping4 (ns_ip b) i n payload a = Some (Some f1, a1)" and 2: "process_frame f1 b = Some ([f2], b1)"
    using assms(1,2) p1 process_arp_request [OF assms(4), of "ns_mac a"]
    by (simp add: ping4_def send_transport_def next_ip_id_def send_ip_packet_def Let_def a1_def f2_def b1_def process_frame_to)
  have pend: "hm_get (ns_pending_arp_packets a1) (ns_ip b) = Some [p1]"
    using assms(3) by (simp add: a1_def hm_push_def hm_get_insert)
  have 3: "process_frame f2 a1 = Some ([ethernet_serialize (ns_mac b) (ns_mac a) ETHERTYPE_IPV4 p1], a2)"
    using process_arp_reply [OF pend, of "ns_mac b"] process_frame_to(2) [of "ns_mac a" a1]
    by (simp add: f2_def a2_def conf accepts_mac_def)
  have "open_to b1 (ns_ip a)" "open_to a2 (ns_ip b)"
    using assms(5,6) by (simp_all add: open_to_def b1_def a2_def a1_def)
  with echo_request_answered [OF icmp(1,2) len(1), of "ns_ip a" b1 "ns_ip_id_counter a" p1 p2 "ns_mac a"]
    echo_reply_recorded [OF icmp(3,4) len(2), of "ns_ip b" a2 "ns_ip_id_counter b" p2 "ns_mac b"] p1 p2
  have 4: "\<exists>b2. process_frame (ethernet_serialize (ns_mac b) (ns_mac a) ETHERTYPE_IPV4 p1) b1 =
      Some ([ethernet_serialize (ns_mac a) (ns_mac b) ETHERTYPE_IPV4 p2], b2) \<and>
      arp_lookup (ns_arp_table b2) (ns_ip a) = Some (ns_mac a)"
    and 5: "process_frame (ethernet_serialize (ns_mac a) (ns_mac b) ETHERTYPE_IPV4 p2) a2 = Some ([],
      (knows (ns_ip b) (ns_mac b) a2)\<lparr> ns_received_icmp_replies := ns_received_icmp_replies a2 @ [(ns_ip b, i, n)] \<rparr>)"
    by (simp_all add: conf icmp(5,6) b1_def knows_def arp_lookup_def arp_insert_def)
  have "ns_pending_arp_packets a2 = ns_pending_arp_packets a" "ns_received_icmp_replies a2 = ns_received_icmp_replies a"
    using assms(3) by (simp_all add: a2_def a1_def hm_push_def hm_remove_insert knows_def)
  with 1 2 3 4 5 show ?thesis by fastforce
qed

text \<open>New hosts without a gateway reach every address directly and filter nothing.\<close>

lemma egress_direct:
  assumes "\<And>r. r \<in> set (rt_routes t) \<Longrightarrow> re_gateway r = None"
  shows "egress_next_hop t dst p = dst"
proof -
  have hop: "route_next_hop r dst = dst" if "r \<in> set (rt_routes t)" for r
    using assms [OF that] by (simp add: route_next_hop_def)
  have res: "r \<in> set (rt_routes t)" if "lookup_resilient_route_by_hash t dst h = Some r" for h r
    using that resilient.max_by_Some [of h "lookup_best_routes t dst" r]
    by (auto simp: lookup_resilient_route_by_hash_def lookup_best_routes_def split: option.splits)
  have "r \<in> set (rt_routes t)" if "packet_route t dst pkt = Some r" for pkt r
    using that by (auto simp: packet_route_def lookup_resilient_route_for_fragment_def
        lookup_resilient_route_for_flow_def Let_def case_prod_beta dest: res split: if_splits)
  moreover have "r \<in> set (rt_routes t)" if "route_lookup t dst = Some r" for r
    using that by (auto simp: route_lookup_def find_Some_iff)
  ultimately show ?thesis
    using hop by (auto simp: egress_next_hop_def Let_def split: option.split sum.split)
qed

definition demo_config :: "u8 \<Rightarrow> NetStackConfig" where
  "demo_config k = \<lparr> cfg_mac = O6 2 0 0 0 0 k, cfg_ip = O4 10 0 0 k,
     cfg_ipv6 = Some (O16 0xfe 0x80 0 0 0 0 0 0 0 0 0 0 0 0 0 k), cfg_subnet_mask = 24, cfg_gateway = None \<rparr>"

lemma demo_host:
  "egress_next_hop (ns_routing_table (netstack_new (demo_config k))) dst p = dst"
  "open_to (netstack_new (demo_config k)) src"
  by (auto simp: open_to_def netstack_new_def Let_def demo_config_def add_route_def add_route_from_def table_new_def
      table_sort_def route_with_source_def fw_evaluate_def firewall_new_def intro!: egress_direct)

theorem ping_resolves_and_answers_witness:
  "\<exists>f1 a1 f2 b1 f3 a2 f4 b2 a3.
    ping4 (O4 10 0 0 2) 7 1 [65] (netstack_new (demo_config 1)) = Some (Some f1, a1) \<and>
    process_frame f1 (netstack_new (demo_config 2)) = Some ([f2], b1) \<and> process_frame f2 a1 = Some ([f3], a2) \<and>
    process_frame f3 b1 = Some ([f4], b2) \<and> process_frame f4 a2 = Some ([], a3) \<and>
    ns_received_icmp_replies a3 = [(O4 10 0 0 2, 7, 1)]"
proof -
  let ?a = "netstack_new (demo_config 1)" and ?b = "netstack_new (demo_config 2)"
  have "ns_ip ?b = O4 10 0 0 2" "ns_received_icmp_replies ?a = []" "ns_pending_arp_packets ?a = []"
    "ns_pending_arp_packets ?b = []" "arp_lookup (ns_arp_table ?a) x = None" for x
    by (simp_all add: netstack_new_def Let_def demo_config_def arp_lookup_def arp_new_def)
  with ping_resolves_and_answers [of ?a ?b "[65]" 7 1] show ?thesis
    by (simp add: demo_host) blast
qed

end
