(* ===== verification/StackDhcp.thy ===== *)
theory StackDhcp
  imports StackLink
begin

text \<open>
  The DHCP exchange between two hosts: the client's broadcasts reach the server of the other host, its
  answers reach the client, and the acknowledgement configures the client with the address the server
  has recorded for it.
\<close>

lemma length_udp_serialize: "udp_serialize src dst sp dp p = Some u \<Longrightarrow> length u = 8 + length p"
  by (auto simp: udp_serialize_def udp_try_serialize_def Let_def length_write_at split: sum.splits if_splits)

lemma length_dhcp_serialize: "length (dhcp_serialize pkt) \<le> 300"
proof -
  have "length (dhcp_addr_option opt a) \<le> 6" for opt a
    by (simp add: dhcp_addr_option_def split: option.split)
  from this [of DHCP_OPT_SERVER_ID "dh_server_id pkt"] this [of DHCP_OPT_SUBNET_MASK "dh_subnet_mask pkt"]
    this [of DHCP_OPT_ROUTER "dh_router pkt"] this [of DHCP_OPT_DNS "dh_dns pkt"]
  show ?thesis
    by (simp add: dhcp_serialize_def Let_def length_write_at DHCP_MAGIC_COOKIE_def split: option.split)
qed

text \<open>A frame with a broadcast datagram, and what the host that receives it parses.\<close>

definition udp_frame :: "MacAddress \<Rightarrow> MacAddress \<Rightarrow> Ipv4Address \<Rightarrow> u16 \<Rightarrow> u16 \<Rightarrow> u16 \<Rightarrow> bytes \<Rightarrow> bytes may_panic" where
  "udp_frame dst_mac src_mac src sp dp ident payload =
     do { u \<leftarrow> udp_serialize src ip_BROADCAST sp dp payload;
          p \<leftarrow> ipv4_serialize src ip_BROADCAST IP_PROTO_UDP ident 64 u;
          Some (ethernet_serialize dst_mac src_mac ETHERTYPE_IPV4 p) }"

lemma udp_frame_total:
  assumes "length payload \<le> 65507"
  shows "\<exists>f. udp_frame d m src sp dp ident payload = Some f"
proof -
  have le: "length payload \<le> 65527" using assms by simp
  obtain u where u: "udp_serialize src ip_BROADCAST sp dp payload = Some u"
    using udp_parse_serialize [OF le] by blast
  then show ?thesis
    using ipv4_serialize_fits [of u src ip_BROADCAST IP_PROTO_UDP ident 64] length_udp_serialize [OF u] assms
    by (auto simp: udp_frame_def)
qed

lemma udp_frame_received:
  assumes "udp_frame d m src sp dp ident payload = Some f" "length payload \<le> 65507"
    and "open_to s src" "accepts_mac d s"
  obtains pkt ud where "process_frame f s = process_udp m pkt (knows src m s)"
    "udp_parse (ip_src_ip (ipp_header pkt)) (ip_dst_ip (ipp_header pkt)) (ipp_payload pkt) True = Inr ud"
    "udp_src_port ud = sp" "udp_dst_port ud = dp" "udp_payload ud = payload"
proof -
  obtain u p where u: "udp_serialize src ip_BROADCAST sp dp payload = Some u"
    and p: "ipv4_serialize src ip_BROADCAST IP_PROTO_UDP ident 64 u = Some p"
    and f: "f = ethernet_serialize d m ETHERTYPE_IPV4 p"
    using assms(1) by (auto simp: udp_frame_def bind_eq_Some_conv)
  have le: "length u \<le> 65515" "length payload \<le> 65527" using length_udp_serialize [OF u] assms(2) by simp_all
  obtain ud where ud: "udp_parse src ip_BROADCAST u True = Inr ud" "udp_src_port ud = sp"
      "udp_dst_port ud = dp" "udp_payload ud = payload"
    using udp_parse_serialize [OF le(2), of src ip_BROADCAST sp dp] u by auto
  show ?thesis
    by (rule process_ipv4_sent [OF le(1) p assms(3), of m])
      (use ud f assms(4) in \<open>auto simp: process_frame_to ip_protocol_from_u8_def IP_PROTO_UDP_def IP_PROTO_ICMP_def
        IP_PROTO_TCP_def intro: that\<close>)
qed

text \<open>Configuration, filter and handlers stay as they are.\<close>

definition same_host :: "NetStack \<Rightarrow> NetStack \<Rightarrow> bool" where
  "same_host s s' \<longleftrightarrow> ns_config s' = ns_config s \<and> ns_firewall s' = ns_firewall s \<and> ns_udp_sockets s' = ns_udp_sockets s"

lemma same_host_udp:
  assumes "process_udp m pkt (knows src m s) = Some (fs, s')"
    and "udp_parse (ip_src_ip (ipp_header pkt)) (ip_dst_ip (ipp_header pkt)) (ipp_payload pkt) True = Inr u"
  shows "same_host s s'"
  using main_view_fields(1,4,6) [OF process_udp_state [OF assms]] by (simp add: same_host_def knows_def)

lemma server_answers:
  assumes "udp_frame d m src sp 67 ident (dhcp_serialize msg) = Some f" "open_to s src" "accepts_mac d s"
    and "dhcp_type_from_u8 (dhcp_type_to_u8 (dh_msg_type msg)) = dh_msg_type msg"
    and "ns_dhcp_server s = Some srv" "dhcp_handle_packet msg srv = (Some reply, srv')"
    and "hm_get (udp_listeners (ns_udp_sockets s)) 67 = None"
    and "udp_frame (dh_chaddr reply) (ns_mac s) (ds_server_ip srv') 67 68 (ns_ip_id_counter s)
           (dhcp_serialize reply) = Some f'"
  shows "\<exists>s'. process_frame f s = Some ([f'], s') \<and> ns_dhcp_server s' = Some srv' \<and> same_host s s'"
proof -
  have len: "length (dhcp_serialize msg) \<le> 65507" using length_dhcp_serialize [of msg] by simp
  obtain pkt ud where pkt: "process_frame f s = process_udp m pkt (knows src m s)"
    "udp_parse (ip_src_ip (ipp_header pkt)) (ip_dst_ip (ipp_header pkt)) (ipp_payload pkt) True = Inr ud"
    "udp_dst_port ud = 67" "udp_payload ud = dhcp_serialize msg"
    by (rule udp_frame_received [OF assms(1) len assms(2,3)])
  let ?s0 = "(knows src m s)\<lparr> ns_received_udp_payloads := ns_received_udp_payloads (knows src m s) @
    [(ip_src_ip (ipp_header pkt), udp_src_port ud, 67, dhcp_serialize msg)] \<rparr>"
  let ?s1 = "?s0\<lparr> ns_dhcp_server := Some srv', ns_ip_id_counter := ns_ip_id_counter s + 1 \<rparr>"
  obtain u' p' where u': "udp_serialize (ds_server_ip srv') ip_BROADCAST 67 68 (dhcp_serialize reply) = Some u'"
    and p': "ipv4_serialize (ds_server_ip srv') ip_BROADCAST IP_PROTO_UDP (ns_ip_id_counter s) 64 u' = Some p'"
    and f': "f' = ethernet_serialize (dh_chaddr reply) (ns_mac s) ETHERTYPE_IPV4 p'"
    using assms(8) by (auto simp: udp_frame_def bind_eq_Some_conv)
  have serve: "dhcp_serve ud ?s0 = Some ([f'], ?s1)"
    using pkt(3,4) assms(5,6) dhcp_parse_serialize [OF assms(4)] u' p' f'
    by (simp add: dhcp_serve_def knows_def reply4_def next_ip_id_def Let_def)
  have learn: "dhcp_learn ud ?s1 = ?s1" using pkt(3) by (simp add: dhcp_learn_def)
  let ?s2 = "?s1\<lparr> ns_sockets := snd (dispatch_udp \<lparr> sock_ip = ip_src_ip (ipp_header pkt), sock_port = udp_src_port ud \<rparr>
      \<lparr> sock_ip = ip_dst_ip (ipp_header pkt), sock_port = 67 \<rparr> (dhcp_serialize msg) (ns_sockets s)) \<rparr>"
  have "process_udp m pkt (knows src m s) = Some ([f'], ?s2)"
    using pkt(2-4) serve learn assms(7)
    by (simp add: process_udp_def Let_def case_prod_beta udp_dispatch_def knows_def)
  then show ?thesis
    using pkt(1) same_host_udp [OF _ pkt(2)] by auto
qed

lemma client_learns:
  assumes "udp_frame d m src sp 68 ident (dhcp_serialize msg) = Some f" "open_to s src" "accepts_mac d s"
    and "dhcp_type_from_u8 (dhcp_type_to_u8 (dh_msg_type msg)) = dh_msg_type msg"
    and "hm_get (udp_listeners (ns_udp_sockets s)) 68 = None"
  shows "\<exists>s'. process_frame f s = Some ([], s') \<and> same_host s s' \<and>
    ns_received_dhcp_offers s' = ns_received_dhcp_offers s @ (if dh_msg_type msg = Offer then [msg] else []) \<and>
    ns_received_dhcp_acks s' = ns_received_dhcp_acks s @ (if dh_msg_type msg = Ack then [msg] else [])"
proof -
  have len: "length (dhcp_serialize msg) \<le> 65507" using length_dhcp_serialize [of msg] by simp
  obtain pkt ud where pkt: "process_frame f s = process_udp m pkt (knows src m s)"
    "udp_parse (ip_src_ip (ipp_header pkt)) (ip_dst_ip (ipp_header pkt)) (ipp_payload pkt) True = Inr ud"
    "udp_dst_port ud = 68" "udp_payload ud = dhcp_serialize msg"
    by (rule udp_frame_received [OF assms(1) len assms(2,3)])
  let ?s0 = "(knows src m s)\<lparr> ns_received_udp_payloads := ns_received_udp_payloads (knows src m s) @
    [(ip_src_ip (ipp_header pkt), udp_src_port ud, 68, dhcp_serialize msg)] \<rparr>"
  let ?s1 = "dhcp_learn ud ?s0"
  have learn: "ns_received_dhcp_offers ?s1 = ns_received_dhcp_offers s @ (if dh_msg_type msg = Offer then [msg] else [])"
    "ns_received_dhcp_acks ?s1 = ns_received_dhcp_acks s @ (if dh_msg_type msg = Ack then [msg] else [])"
    "ns_udp_sockets ?s1 = ns_udp_sockets s"
    using pkt(3,4) dhcp_parse_serialize [OF assms(4)]
    by (simp_all add: dhcp_learn_def knows_def split: DhcpMessageType.split)
  let ?s2 = "?s1\<lparr> ns_sockets := snd (dispatch_udp \<lparr> sock_ip = ip_src_ip (ipp_header pkt), sock_port = udp_src_port ud \<rparr>
      \<lparr> sock_ip = ip_dst_ip (ipp_header pkt), sock_port = 68 \<rparr> (dhcp_serialize msg) (ns_sockets ?s1)) \<rparr>"
  have "process_udp m pkt (knows src m s) = Some ([], ?s2)"
    using pkt(2-4) learn(3) assms(5)
    by (simp add: process_udp_def Let_def case_prod_beta udp_dispatch_def dhcp_serve_def)
  then show ?thesis
    using pkt(1) same_host_udp [OF _ pkt(2)] learn(1,2) by auto
qed

text \<open>The two answers of the server.\<close>

lemma server_offers:
  obtains ip srv1 where
    "dhcp_handle_packet (build_discover m xid) srv = (Some (build_offer m xid ip (ds_server_ip srv)
       (ds_subnet_mask srv) (ds_router srv) (ds_dns srv) (ds_lease_time_secs srv)), srv1)"
    "hm_get (ds_leases srv1) = (hm_get (ds_leases srv))(m \<mapsto> ip)" "ds_server_ip srv1 = ds_server_ip srv"
    "ds_subnet_mask srv1 = ds_subnet_mask srv" "ds_router srv1 = ds_router srv"
  by (rule that [of "fst (allocate_ip m srv)" "snd (allocate_ip m srv)"])
    (auto simp: dhcp_handle_packet_def build_discover_def allocate_ip_def Let_def hm_get_insert fun_upd_idem
      split: option.split)

lemma server_acknowledges:
  assumes "hm_get (ds_leases srv) m = Some ip"
  obtains srv1 where
    "dhcp_handle_packet (build_dhcp_request m xid ip sid) srv = (Some (build_dhcp_ack m xid ip (ds_server_ip srv)
       (ds_subnet_mask srv) (ds_router srv) (ds_dns srv) (ds_lease_time_secs srv)), srv1)"
    "hm_get (ds_leases srv1) = hm_get (ds_leases srv)" "ds_server_ip srv1 = ds_server_ip srv"
  by (rule that [of "srv\<lparr> ds_leases := hm_insert m ip (ds_leases srv) \<rparr>"])
    (use assms in \<open>auto simp: dhcp_handle_packet_def build_dhcp_request_def allocate_ip_def Let_def hm_get_insert
      fun_upd_idem\<close>)

lemma dhcp_broadcast_frame:
  "dhcp_broadcast pkt s = map_option (\<lambda>f. (f, s\<lparr> ns_ip_id_counter := ns_ip_id_counter s + 1 \<rparr>))
     (udp_frame mac_BROADCAST (ns_mac s) ip_UNSPECIFIED 68 67 (ns_ip_id_counter s) (dhcp_serialize pkt))"
  by (auto simp: dhcp_broadcast_def udp_frame_def next_ip_id_def Let_def map_option_case split: option.split bind_splits)

lemma dhcp_types:
  "dhcp_type_from_u8 (dhcp_type_to_u8 t) = t" if "t \<in> {Discover, Offer, Request, Ack}"
  using that by (auto simp: dhcp_type_from_u8_def)

text \<open>One round: a client message, the server's answer, and the client that reads it.\<close>

lemma dhcp_round:
  assumes "ns_dhcp_server h = Some srv" "open_to h ip_UNSPECIFIED" "open_to c (ds_server_ip srv)"
    and "hm_get (udp_listeners (ns_udp_sockets h)) 67 = None" "hm_get (udp_listeners (ns_udp_sockets c)) 68 = None"
    and "dhcp_handle_packet msg srv = (Some reply, srv')" "ds_server_ip srv' = ds_server_ip srv"
    and "dh_chaddr reply = ns_mac c" "dh_msg_type msg \<in> {Discover, Request}" "dh_msg_type reply \<in> {Offer, Ack}"
  obtains f c1 f' h' c' where "dhcp_broadcast msg c = Some (f, c1)" "process_frame f h = Some ([f'], h')"
    "process_frame f' c1 = Some ([], c')" "ns_dhcp_server h' = Some srv'" "same_host h h'" "same_host c c'"
    "ns_received_dhcp_offers c' = ns_received_dhcp_offers c @ (if dh_msg_type reply = Offer then [reply] else [])"
    "ns_received_dhcp_acks c' = ns_received_dhcp_acks c @ (if dh_msg_type reply = Ack then [reply] else [])"
proof -
  have len: "length (dhcp_serialize p) \<le> 65507" for p using length_dhcp_serialize [of p] by simp
  obtain f where f: "udp_frame mac_BROADCAST (ns_mac c) ip_UNSPECIFIED 68 67 (ns_ip_id_counter c) (dhcp_serialize msg) = Some f"
    using udp_frame_total [OF len] by blast
  obtain f' where f': "udp_frame (ns_mac c) (ns_mac h) (ds_server_ip srv) 67 68 (ns_ip_id_counter h) (dhcp_serialize reply) = Some f'"
    using udp_frame_total [OF len] by blast
  let ?c1 = "c\<lparr> ns_ip_id_counter := ns_ip_id_counter c + 1 \<rparr>"
  have types: "dhcp_type_from_u8 (dhcp_type_to_u8 (dh_msg_type msg)) = dh_msg_type msg"
    "dhcp_type_from_u8 (dhcp_type_to_u8 (dh_msg_type reply)) = dh_msg_type reply"
    using assms(9,10) by (auto intro!: dhcp_types)
  obtain h' where h': "process_frame f h = Some ([f'], h')" "ns_dhcp_server h' = Some srv'" "same_host h h'"
    using server_answers [OF f assms(2) _ types(1) assms(1,6,4)] f' assms(7,8) by auto
  have o: "open_to ?c1 (ds_server_ip srv)" "accepts_mac (ns_mac c) ?c1"
    "hm_get (udp_listeners (ns_udp_sockets ?c1)) 68 = None"
    using assms(3,5) by (simp_all add: open_to_def accepts_mac_def)
  obtain c' where "process_frame f' ?c1 = Some ([], c')" "same_host c c'"
    "ns_received_dhcp_offers c' = ns_received_dhcp_offers c @ (if dh_msg_type reply = Offer then [reply] else [])"
    "ns_received_dhcp_acks c' = ns_received_dhcp_acks c @ (if dh_msg_type reply = Ack then [reply] else [])"
    using client_learns [OF f' o(1,2) types(2) o(3)] by (auto simp: same_host_def)
  with h' show ?thesis by (intro that [of f ?c1 f' h' c']) (simp_all add: dhcp_broadcast_frame f)
qed

text \<open>C4: the DHCP exchange configures a client: its discovery is answered by the server of the other
  host with an offer, its request for the offered address with an acknowledgement, and applying the
  acknowledgement gives the client the offered address, the mask and the gateway of the server, which
  has recorded exactly this address for the client and has not touched the leases of others.\<close>
theorem dhcp_configures_client:
  assumes "ns_dhcp_server h = Some srv" "open_to h ip_UNSPECIFIED" "open_to c (ds_server_ip srv)"
    and "hm_get (udp_listeners (ns_udp_sockets h)) 67 = None" "hm_get (udp_listeners (ns_udp_sockets c)) 68 = None"
  shows "\<exists>f1 c1 f2 h1 c2 offer f3 c3 f4 h2 c4 ack srv'.
    dhcp_discover xid c = Some (f1, c1) \<and> process_frame f1 h = Some ([f2], h1) \<and>
    process_frame f2 c1 = Some ([], c2) \<and> ns_received_dhcp_offers c2 = ns_received_dhcp_offers c @ [offer] \<and>
    dhcp_request (dh_yiaddr offer) (ds_server_ip srv) xid c2 = Some (f3, c3) \<and>
    process_frame f3 h1 = Some ([f4], h2) \<and> process_frame f4 c3 = Some ([], c4) \<and>
    ns_received_dhcp_acks c4 = ns_received_dhcp_acks c @ [ack] \<and> ns_dhcp_server h2 = Some srv' \<and>
    (let config = ns_config (apply_dhcp_ack ack c4)
     in config = (ns_config c)\<lparr> cfg_ip := dh_yiaddr offer, cfg_gateway := Some (ds_router srv),
          cfg_subnet_mask := of_nat (count_ones (ip_to_u32 (ds_subnet_mask srv))) \<rparr>) \<and>
    hm_get (ds_leases srv') = (hm_get (ds_leases srv))(ns_mac c \<mapsto> dh_yiaddr offer)"
proof -
  obtain ip srv1 where 1: "dhcp_handle_packet (build_discover (ns_mac c) xid) srv =
      (Some (build_offer (ns_mac c) xid ip (ds_server_ip srv) (ds_subnet_mask srv) (ds_router srv) (ds_dns srv)
        (ds_lease_time_secs srv)), srv1)" (is "_ = (Some ?offer, _)")
    and l1: "hm_get (ds_leases srv1) = (hm_get (ds_leases srv))(ns_mac c \<mapsto> ip)"
    and same1: "ds_server_ip srv1 = ds_server_ip srv" "ds_subnet_mask srv1 = ds_subnet_mask srv" "ds_router srv1 = ds_router srv"
    by (rule server_offers)
  have "hm_get (ds_leases srv1) (ns_mac c) = Some ip" using l1 by simp
  then obtain srv2 where 2: "dhcp_handle_packet (build_dhcp_request (ns_mac c) xid ip (ds_server_ip srv)) srv1 =
      (Some (build_dhcp_ack (ns_mac c) xid ip (ds_server_ip srv1) (ds_subnet_mask srv1) (ds_router srv1) (ds_dns srv1)
        (ds_lease_time_secs srv1)), srv2)" (is "_ = (Some ?ack, _)")
    and l2: "hm_get (ds_leases srv2) = hm_get (ds_leases srv1)" and same2: "ds_server_ip srv2 = ds_server_ip srv1"
    by (rule server_acknowledges)
  obtain f1 c1 f2 h1 c2 where r1: "dhcp_broadcast (build_discover (ns_mac c) xid) c = Some (f1, c1)"
    "process_frame f1 h = Some ([f2], h1)" "process_frame f2 c1 = Some ([], c2)" "ns_dhcp_server h1 = Some srv1"
    "same_host h h1" "same_host c c2" "ns_received_dhcp_offers c2 = ns_received_dhcp_offers c @ [?offer]"
    "ns_received_dhcp_acks c2 = ns_received_dhcp_acks c"
    by (rule dhcp_round [OF assms 1 same1(1)]) (simp_all add: build_offer_def build_discover_def)
  have o: "open_to h1 ip_UNSPECIFIED" "open_to c2 (ds_server_ip srv1)"
    "hm_get (udp_listeners (ns_udp_sockets h1)) 67 = None" "hm_get (udp_listeners (ns_udp_sockets c2)) 68 = None"
    "ns_config c2 = ns_config c"
    using r1(5,6) assms(2-5) same1(1) by (simp_all add: same_host_def open_to_def)
  obtain f3 c3 f4 h2 c4 where r2: "dhcp_broadcast (build_dhcp_request (ns_mac c) xid ip (ds_server_ip srv)) c2 = Some (f3, c3)"
    "process_frame f3 h1 = Some ([f4], h2)" "process_frame f4 c3 = Some ([], c4)" "ns_dhcp_server h2 = Some srv2"
    "same_host c2 c4" "ns_received_dhcp_acks c4 = ns_received_dhcp_acks c2 @ [?ack]"
    by (rule dhcp_round [OF r1(4) o(1-4) 2 same2]) (simp_all add: build_dhcp_ack_def build_dhcp_request_def o(5))
  have conf: "ns_config (apply_dhcp_ack ?ack c4) = (ns_config c)\<lparr> cfg_ip := ip, cfg_gateway := Some (ds_router srv),
      cfg_subnet_mask := of_nat (count_ones (ip_to_u32 (ds_subnet_mask srv))) \<rparr>"
    using r2(5) o(5) same1 by (simp add: apply_dhcp_ack_def build_dhcp_ack_def Let_def same_host_def)
  have offered: "dh_yiaddr ?offer = ip" by (simp add: build_offer_def)
  have sent: "dhcp_discover xid c = Some (f1, c1)" "dhcp_request ip (ds_server_ip srv) xid c2 = Some (f3, c3)"
    using r1(1) r2(1) o(5) by (simp_all only: dhcp_discover_def dhcp_request_def)
  have acks: "ns_received_dhcp_acks c4 = ns_received_dhcp_acks c @ [?ack]"
    and leases: "hm_get (ds_leases srv2) = (hm_get (ds_leases srv))(ns_mac c \<mapsto> ip)"
    using r1(8) r2(6) l1 l2 by (simp_all only:)
  show ?thesis
    unfolding Let_def
    by (rule exI [of _ f1], rule exI [of _ c1], rule exI [of _ f2], rule exI [of _ h1], rule exI [of _ c2],
        rule exI [of _ ?offer], rule exI [of _ f3], rule exI [of _ c3], rule exI [of _ f4], rule exI [of _ h2],
        rule exI [of _ c4], rule exI [of _ ?ack], rule exI [of _ srv2],
        simp only: offered sent r1(2,3,7) r2(2-4) acks conf leases simp_thms)
qed

text \<open>A host with a server that has leased nothing yet, and a new client.\<close>

theorem dhcp_configures_client_witness:
  "let srv = dhcp_server_new (O4 10 0 0 1) (O4 255 255 255 0) (O4 10 0 0 254) (O4 8 8 8 8) (O4 10 0 0 100) (O4 10 0 0 200) 3600;
       h = (netstack_new (demo_config 1))\<lparr> ns_dhcp_server := Some srv \<rparr>; c = netstack_new (demo_config 9)
   in \<exists>f1 c1 f2 h1 c2 offer f3 c3 f4 h2 c4 ack.
     dhcp_discover 77 c = Some (f1, c1) \<and> process_frame f1 h = Some ([f2], h1) \<and>
     process_frame f2 c1 = Some ([], c2) \<and> ns_received_dhcp_offers c2 = [offer] \<and>
     dhcp_request (dh_yiaddr offer) (O4 10 0 0 1) 77 c2 = Some (f3, c3) \<and>
     process_frame f3 h1 = Some ([f4], h2) \<and> process_frame f4 c3 = Some ([], c4) \<and>
     ns_received_dhcp_acks c4 = [ack] \<and> cfg_gateway (ns_config (apply_dhcp_ack ack c4)) = Some (O4 10 0 0 254)"
proof -
  let ?srv = "dhcp_server_new (O4 10 0 0 1) (O4 255 255 255 0) (O4 10 0 0 254) (O4 8 8 8 8) (O4 10 0 0 100) (O4 10 0 0 200) 3600"
  let ?h = "(netstack_new (demo_config 1))\<lparr> ns_dhcp_server := Some ?srv \<rparr>" and ?c = "netstack_new (demo_config 9)"
  have h: "ns_dhcp_server ?h = Some ?srv" "open_to ?h x" "open_to ?c x"
    "hm_get (udp_listeners (ns_udp_sockets ?h)) 67 = None" "hm_get (udp_listeners (ns_udp_sockets ?c)) 68 = None" for x
    using demo_host(2) [of 1 x] demo_host(2) [of 9 x]
    by (simp_all add: open_to_def netstack_new_def Let_def udp_table_new_def)
  have srv: "ds_server_ip ?srv = O4 10 0 0 1" "ds_router ?srv = O4 10 0 0 254"
    and new: "ns_received_dhcp_offers ?c = []" "ns_received_dhcp_acks ?c = []"
    by (simp_all add: dhcp_server_new_def netstack_new_def Let_def)
  obtain f1 c1 f2 h1 c2 offer f3 c3 f4 h2 c4 ack where
    "dhcp_discover 77 ?c = Some (f1, c1)" "process_frame f1 ?h = Some ([f2], h1)"
    "process_frame f2 c1 = Some ([], c2)" "ns_received_dhcp_offers c2 = [offer]"
    "dhcp_request (dh_yiaddr offer) (O4 10 0 0 1) 77 c2 = Some (f3, c3)"
    "process_frame f3 h1 = Some ([f4], h2)" "process_frame f4 c3 = Some ([], c4)"
    "ns_received_dhcp_acks c4 = [ack]" "cfg_gateway (ns_config (apply_dhcp_ack ack c4)) = Some (O4 10 0 0 254)"
    using dhcp_configures_client [OF h(1,2,3,4,5), of 77] by (auto simp: srv new Let_def)
  then show ?thesis unfolding Let_def by blast
qed

end
