(* ===== verification/StackRun.thy ===== *)
theory StackRun
  imports StackViews SocketDelivery
begin

text \<open>
  Runs of a host: any sequence of received frames, clock ticks and calls of the public methods of the
  stack.  The socket runtime inside the stack goes through exactly the events that the admitted
  packets, the clock and the applications give it, so the theorems about the runtime hold for hosts.
\<close>

section \<open>Events\<close>

datatype stack_event =
    EvFrame bytes
  | EvFrameErrors bytes
  | EvTick u64
  | EvPoll
  | EvPing4 Ipv4Address u16 u16 bytes
  | EvPing6 Ipv6Address u16 u16 bytes
  | EvSendUdp Ipv4Address u16 u16 bytes
  | EvSendIp Ipv4Address bytes
  | EvSendIp6 Ipv6Address bytes
  | EvConnectRaw Ipv4Address u16 u16 u32
  | EvSendRaw Ipv4Address u16 u16 bytes
  | EvCloseRaw Ipv4Address u16 u16
  | EvDhcpDiscover u32
  | EvDhcpRequest Ipv4Address Ipv4Address u32
  | EvDhcpAck DhcpPacket
  | EvConfigure6 Ipv6Address u8 "Ipv6Address option"
  | EvClear6
  | EvClearPathMtu Ipv6Address
  | EvStartDiscovery
  | EvCancelDiscovery
  | EvEnableNat Ipv4Address
  | EvUdpBind u16
  | EvUdpSend UdpSocketHandle bytes SocketAddrV4
  | EvUdpRecv UdpSocketHandle
  | EvUdpClose UdpSocketHandle
  | EvListen u16
  | EvListenAny u16
  | EvAccept TcpListenerHandle
  | EvListenerClose TcpListenerHandle
  | EvConnect SocketAddrV4
  | EvConnectFrom u16 SocketAddrV4 u32
  | EvWrite TcpStreamHandle bytes
  | EvRead TcpStreamHandle nat
  | EvShutdown TcpStreamHandle
  | EvClose TcpStreamHandle
  | EvMss u16

fun stack_step :: "stack_event \<Rightarrow> NetStack \<Rightarrow> NetStack may_panic" where
  "stack_step (EvFrame raw) s = map_option snd (process_frame raw s)"
| "stack_step (EvFrameErrors raw) s = map_option snd (process_frame_with_ipv4_errors raw s)"
| "stack_step (EvTick now) s = map_option snd (stack_step_timers now s)"
| "stack_step EvPoll s = map_option snd (poll_transmit s)"
| "stack_step (EvPing4 dst i n p) s = map_option snd (ping4 dst i n p s)"
| "stack_step (EvPing6 dst i n p) s = map_option snd (ping6 dst i n p s)"
| "stack_step (EvSendUdp dst sp dp p) s = map_option snd (send_udp dst sp dp p s)"
| "stack_step (EvSendIp dst p) s = Some (snd (send_ip_packet dst p s))"
| "stack_step (EvSendIp6 dst p) s = map_option snd (send_ip6_packet dst p s)"
| "stack_step (EvConnectRaw dst sp dp isn) s = map_option snd (tcp_connect_raw dst sp dp isn s)"
| "stack_step (EvSendRaw dst sp dp p) s = map_option snd (tcp_send_data_raw dst sp dp p s)"
| "stack_step (EvCloseRaw dst sp dp) s = map_option snd (tcp_close_raw dst sp dp s)"
| "stack_step (EvDhcpDiscover xid) s = map_option snd (dhcp_discover xid s)"
| "stack_step (EvDhcpRequest ip sid xid) s = map_option snd (dhcp_request ip sid xid s)"
| "stack_step (EvDhcpAck ack) s = Some (apply_dhcp_ack ack s)"
| "stack_step (EvConfigure6 a l g) s = Some (configure_ipv6_interface a l g s)"
| "stack_step EvClear6 s = Some (clear_ipv6_interface s)"
| "stack_step (EvClearPathMtu d) s = Some (clear_ipv6_path_mtu d s)"
| "stack_step EvStartDiscovery s = map_option snd (start_router_discovery s)"
| "stack_step EvCancelDiscovery s = Some (cancel_router_discovery s)"
| "stack_step (EvEnableNat ip) s = Some (enable_nat ip s)"
| "stack_step (EvUdpBind port) s = map_option snd (stack_udp_bind port s)"
| "stack_step (EvUdpSend h p r) s = map_option snd (stack_udp_send_to h p r s)"
| "stack_step (EvUdpRecv h) s = Some (snd (stack_udp_recv_from h s))"
| "stack_step (EvUdpClose h) s = Some (snd (stack_udp_close h s))"
| "stack_step (EvListen port) s = map_option snd (stack_tcp_listen port s)"
| "stack_step (EvListenAny port) s = Some (snd (stack_tcp_listen_any port s))"
| "stack_step (EvAccept h) s = Some (snd (stack_tcp_accept h s))"
| "stack_step (EvListenerClose h) s = Some (snd (stack_tcp_listener_close h s))"
| "stack_step (EvConnect r) s = map_option snd (stack_tcp_connect r s)"
| "stack_step (EvConnectFrom p r isn) s = map_option snd (stack_tcp_connect_from p r isn s)"
| "stack_step (EvWrite h p) s = Some (snd (stack_tcp_write h p s))"
| "stack_step (EvRead h n) s = Some (snd (stack_tcp_read h n s))"
| "stack_step (EvShutdown h) s = map_option snd (stack_tcp_shutdown h s)"
| "stack_step (EvClose h) s = map_option snd (stack_tcp_close h s)"
| "stack_step (EvMss mss) s = Some (set_tcp_mss mss s)"

fun stack_run :: "stack_event list \<Rightarrow> NetStack \<Rightarrow> NetStack may_panic" where
  "stack_run [] s = Some s"
| "stack_run (ev # evs) s = do { s \<leftarrow> stack_step ev s; stack_run evs s }"

section \<open>The packets a host admits\<close>

text \<open>The IPv4 packet in a frame that passes the hardware address filter, the parser, the firewall and
  the destination check.\<close>

definition admitted :: "bytes \<Rightarrow> NetStack \<Rightarrow> Ipv4Packet option" where
  "admitted raw s =
     (case ethernet_parse raw of
        Inl _ \<Rightarrow> None
      | Inr eth \<Rightarrow>
          if (mac_is_broadcast (eth_dst_mac eth) \<or> mac_is_multicast (eth_dst_mac eth) \<or> eth_dst_mac eth = ns_mac s) \<and>
             eth_ethertype eth = EtIPv4
          then (case ipv4_parse (eth_payload eth) True of
                  Inl _ \<Rightarrow> None
                | Inr pkt \<Rightarrow>
                    if fw_evaluate (ns_firewall s) ChainInput pkt = FwAccept \<and>
                       (ip_dst_ip (ipp_header pkt) = ns_ip s \<or> ip_dst_ip (ipp_header pkt) = ip_BROADCAST)
                    then Some pkt else None)
          else None)"

definition packet_sock_events :: "Ipv4Packet \<Rightarrow> NetStack \<Rightarrow> sock_event list" where
  "packet_sock_events pkt s =
     (let src = ip_src_ip (ipp_header pkt); dst = ip_dst_ip (ipp_header pkt)
      in case ip_protocol (ipp_header pkt) of
           IpUdp \<Rightarrow>
             (case udp_parse src dst (ipp_payload pkt) True of
                Inl _ \<Rightarrow> []
              | Inr u \<Rightarrow> [SUdpDatagram \<lparr> sock_ip = src, sock_port = udp_src_port u \<rparr>
                            \<lparr> sock_ip = dst, sock_port = udp_dst_port u \<rparr> (udp_payload u)])
         | IpTcp \<Rightarrow>
             (case tcp_parse src dst (ipp_payload pkt) True of
                Inl _ \<Rightarrow> []
              | Inr seg \<Rightarrow>
                  if socket_has_endpoint dst (seg_dst_port seg) src (seg_src_port seg) (ns_sockets s)
                  then [SSegment src dst seg (ns_current_time_ms s)] else [])
         | _ \<Rightarrow> [])"

definition frame_sock_events :: "bytes \<Rightarrow> NetStack \<Rightarrow> sock_event list" where
  "frame_sock_events raw s = (case admitted raw s of None \<Rightarrow> [] | Some pkt \<Rightarrow> packet_sock_events pkt s)"

fun event_sock_events :: "stack_event \<Rightarrow> NetStack \<Rightarrow> sock_event list" where
  "event_sock_events (EvFrame raw) s = frame_sock_events raw s"
| "event_sock_events (EvFrameErrors raw) s =
     (if build_ipv4_parameter_problem_reply (ns_mac s) (ns_ip s) raw = Some None then frame_sock_events raw s else [])"
| "event_sock_events (EvTick now) s = [STimers now]"
| "event_sock_events EvPoll s = [STimers (ns_current_time_ms s)]"
| "event_sock_events (EvUdpBind port) s = [SUdpBind \<lparr> sock_ip = ns_ip s, sock_port = port \<rparr>]"
| "event_sock_events (EvUdpSend h p r) s = [SUdpSend h p r]"
| "event_sock_events (EvUdpRecv h) s = [SUdpRecv h]"
| "event_sock_events (EvUdpClose h) s = [SUdpClose h]"
| "event_sock_events (EvListen port) s = [SListen \<lparr> sock_ip = ns_ip s, sock_port = port \<rparr>]"
| "event_sock_events (EvListenAny port) s = [SListenAny port]"
| "event_sock_events (EvAccept h) s = [SAccept h]"
| "event_sock_events (EvListenerClose h) s = [SListenerClose h]"
| "event_sock_events (EvConnect r) s = [SConnect r]"
| "event_sock_events (EvConnectFrom p r isn) s = [SConnectFrom \<lparr> sock_ip = ns_ip s, sock_port = p \<rparr> r isn]"
| "event_sock_events (EvWrite h p) s = [SWrite h p]"
| "event_sock_events (EvRead h n) s = [SRead h n]"
| "event_sock_events (EvShutdown h) s = [SShutdown h]"
| "event_sock_events (EvClose h) s = [SShutdown h]"
| "event_sock_events (EvMss mss) s = [SDefaultMss mss]"
| "event_sock_events _ s = []"

section \<open>One event\<close>

lemma send_ip_packet_state:
  "\<exists>q. snd (send_ip_packet dst p s) = s\<lparr> ns_pending_arp_packets := q \<rparr>"
  by (auto simp: send_ip_packet_def Let_def split: option.split intro: exI [of _ "ns_pending_arp_packets s"])

lemma send_transport_sockets:
  "send_transport src dst pr p s = Some (f, s') \<Longrightarrow> ns_sockets s' = ns_sockets s"
  by (auto simp: send_transport_def next_ip_id_def Let_def bind_eq_Some_conv send_ip_packet_def split: option.splits)

lemma packet_sock_events_arp [simp]:
  "packet_sock_events pkt (s\<lparr> ns_arp_table := a \<rparr>) = packet_sock_events pkt s"
  by (simp add: packet_sock_events_def Let_def split: sum.split IpProtocol.split)

lemma process_udp_sockets:
  assumes "process_udp m pkt s = Some (fs, s')" "ip_protocol (ipp_header pkt) = IpUdp"
  shows "sock_exec (packet_sock_events pkt s) (ns_sockets s) = Some (ns_sockets s')"
proof (cases "udp_parse (ip_src_ip (ipp_header pkt)) (ip_dst_ip (ipp_header pkt)) (ipp_payload pkt) True")
  case (Inl e)
  then show ?thesis
    using process_udp_dropped [OF assms(1) Inl] assms(2) by (simp add: packet_sock_events_def)
next
  case (Inr u)
  then show ?thesis
    using main_view_fields(8) [OF process_udp_state [OF assms(1) Inr]] assms(2)
    by (simp add: packet_sock_events_def)
qed

lemma process_tcp_sockets:
  assumes "process_tcp m pkt s = Some (fs, s')" "ip_protocol (ipp_header pkt) = IpTcp"
  shows "sock_exec (packet_sock_events pkt s) (ns_sockets s) = Some (ns_sockets s')"
  using assms(1)
proof (cases rule: process_tcp_cases)
  case (socket seg resp rt)
  then show ?thesis
    using main_view_fields(8) [OF socket(4)] assms(2) by (simp add: packet_sock_events_def)
next
  case (manager seg resp mgr)
  then show ?thesis
    using main_view_fields(8) [OF manager(5)] assms(2) by (simp add: packet_sock_events_def)
next
  case (refused seg)
  then show ?thesis
    using main_view_fields(8) [OF refused(4)] assms(2) by (simp add: packet_sock_events_def)
qed (use assms(2) in \<open>simp add: packet_sock_events_def\<close>)

lemma process_icmp_sockets:
  assumes "process_icmp m pkt s = Some (fs, s')" "ip_protocol (ipp_header pkt) = IpIcmp"
  shows "sock_exec (packet_sock_events pkt s) (ns_sockets s) = Some (ns_sockets s')"
  using main_view_fields(8) [OF main_view_icmp [OF assms(1)]] assms(2) by (simp add: packet_sock_events_def)

lemma process_frame_sockets:
  assumes "process_frame raw s = Some (fs, s')"
  shows "sock_exec (frame_sock_events raw s) (ns_sockets s) = Some (ns_sockets s')"
proof (cases "admitted raw s")
  case None
  have "ns_sockets s' = ns_sockets s"
    using assms None unfolding process_frame_def process_ipv4_def process_arp_def admitted_def
    by (auto simp: Let_def ip_BROADCAST_def ip_is_broadcast_def dest!: host_view_ipv6 [THEN host_view_fields(8)]
        split: sum.splits if_splits EtherType.splits option.splits prod.splits)
  with None show ?thesis by (simp add: frame_sock_events_def)
next
  case (Some pkt)
  let ?s = "\<lambda>m. s\<lparr> ns_arp_table := arp_insert (ip_src_ip (ipp_header pkt)) m (ns_arp_table s) \<rparr>"
  obtain m where "(case ip_protocol (ipp_header pkt) of
        IpIcmp \<Rightarrow> process_icmp m pkt (?s m) | IpUdp \<Rightarrow> process_udp m pkt (?s m)
      | IpTcp \<Rightarrow> process_tcp m pkt (?s m) | _ \<Rightarrow> Some ([], ?s m)) = Some (fs, s')"
    using assms Some unfolding process_frame_def process_ipv4_def admitted_def
    by (auto simp: Let_def ip_BROADCAST_def ip_is_broadcast_def split: sum.splits if_splits)
  then have "sock_exec (packet_sock_events pkt (?s m)) (ns_sockets (?s m)) = Some (ns_sockets s')"
    by (cases "ip_protocol (ipp_header pkt)")
      (auto dest: process_icmp_sockets process_udp_sockets process_tcp_sockets simp: packet_sock_events_def)
  with Some show ?thesis by (simp add: frame_sock_events_def)
qed

lemma transmit_all_sockets:
  "transmit_all ps s = Some (fs, s') \<Longrightarrow> ns_sockets s' = ns_sockets s"
proof (induction ps s arbitrary: fs s' rule: transmit_all.induct)
  case (2 src dst pr p rest s)
  then show ?case by (fastforce simp: bind_eq_Some_conv dest: send_transport_sockets)
qed simp

lemma configure_sockets [simp]:
  "ns_sockets (configure_ipv6_interface a l g s) = ns_sockets s"
  "ns_sockets (clear_ipv6_interface s) = ns_sockets s"
  by (simp_all add: configure_ipv6_interface_def clear_ipv6_interface_def remove_interface_routes_def
      remove_ra_routes_def add_route6_to_def remove_route6_of_def Let_def split: option.split)

text \<open>The phases of the timer pump before the sockets.\<close>

lemma complete_dad_sockets [simp]: "ns_sockets (complete_dad now s) = ns_sockets s"
  by (simp add: complete_dad_def Let_def remove_route6_of_def split: option.split)

lemma expire_interface_sockets:
  "expire_interface now a l s = Some (fs, s') \<Longrightarrow> ns_sockets s' = ns_sockets s"
  unfolding expire_interface_def Let_def
  by (auto simp: case_prod_beta bind_eq_Some_conv host_view_fields(8) [OF host_view_routers(2)]
      dest!: host_view_discovery(1) [THEN host_view_fields(8)] split: if_splits)

lemma host_view_pump [simp]:
  "host_view (quarantine_rio_routers rs s) = host_view s"
  "host_view (snd (drop_unreachable_router a c s)) = host_view s"
  "host_view (expire_ra_prefixes now s) = host_view s"
  "host_view (snd (expire_ra_routes now s)) = host_view s"
  by (simp_all add: quarantine_rio_routers_def drop_unreachable_router_def expire_ra_prefixes_def
      expire_ra_routes_def Let_def case_prod_beta host_view_fold split: option.split)

lemma interface_timers_rule:
  assumes "interface_timers now s = Some (fs, s')" "P s"
    and "\<And>s fs s'. P s \<Longrightarrow> step_router_discovery now s = Some (fs, s') \<Longrightarrow> P s'"
    and "\<And>s. P s \<Longrightarrow> P (s\<lparr> ns_ndp_table := snd (step_nud now (ns_ndp_table s)) \<rparr>)"
    and "\<And>s rs. P s \<Longrightarrow> P (quarantine_rio_routers rs s)"
    and "\<And>s. P s \<Longrightarrow> P (reselect_ipv6_ra_routes s)"
    and "\<And>s a c. P s \<Longrightarrow> P (snd (drop_unreachable_router a c s))"
    and "\<And>s. P s \<Longrightarrow> P (expire_ra_prefixes now s)"
    and "\<And>s. P s \<Longrightarrow> P (snd (expire_ra_routes now s))"
    and "\<And>s. P s \<Longrightarrow> P (complete_dad now s)"
    and "\<And>s a l fs s'. P s \<Longrightarrow> expire_interface now a l s = Some (fs, s') \<Longrightarrow> P s'"
  shows "P s'"
proof -
  obtain fs1 s1 where s1: "step_router_discovery now s = Some (fs1, s1)"
    using assms(1) by (auto simp: interface_timers_def Let_def bind_eq_Some_conv)
  let ?s2 = "s1\<lparr> ns_ndp_table := snd (step_nud now (ns_ndp_table s1)) \<rparr>"
  let ?s3 = "reselect_ipv6_ra_routes (quarantine_rio_routers (cached_rio_routers s1) ?s2)"
  obtain a c where s': "\<exists>x l fs. expire_interface now x l (complete_dad now (snd (expire_ra_routes now
      (expire_ra_prefixes now (snd (drop_unreachable_router a c ?s3)))))) = Some (fs, s')"
    using assms(1) s1 by (auto simp: interface_timers_def Let_def bind_eq_Some_conv case_prod_beta) blast
  have "P ?s3" using assms(2-6) s1 by blast
  then show ?thesis using assms(7-11) s' by blast
qed

lemma interface_timers_sockets:
  assumes "interface_timers now s = Some (fs, s')"
  shows "ns_sockets s' = ns_sockets s"
  by (rule interface_timers_rule [OF assms, of "\<lambda>x. ns_sockets x = ns_sockets s"])
    (auto simp: host_view_fields(8) [OF host_view_pump(1)] host_view_fields(8) [OF host_view_pump(2)]
      host_view_fields(8) [OF host_view_pump(3)] host_view_fields(8) [OF host_view_pump(4)]
      host_view_fields(8) [OF host_view_ra_routes(1)]
      dest: host_view_discovery(2) [THEN host_view_fields(8)] expire_interface_sockets)

lemma step_timers_sockets:
  assumes "stack_step_timers now s = Some (fs, s')"
  shows "sock_step (STimers now) (ns_sockets s) = Some (ns_sockets s')"
  using assms
  by (auto simp: stack_step_timers_def bind_eq_Some_conv dest!: interface_timers_sockets transmit_all_sockets)

section \<open>Runs\<close>

lemma transport_calls_sockets:
  "ping4 dst i n p s = Some (f, s') \<Longrightarrow> ns_sockets s' = ns_sockets s"
  "ping6 dst6 i n p s = Some (f, s') \<Longrightarrow> ns_sockets s' = ns_sockets s"
  "send_udp dst sp dp p s = Some (f, s') \<Longrightarrow> ns_sockets s' = ns_sockets s"
  "tcp_connect_raw dst sp dp isn s = Some (f, s') \<Longrightarrow> ns_sockets s' = ns_sockets s"
  "tcp_send_data_raw dst sp dp p s = Some (f, s') \<Longrightarrow> ns_sockets s' = ns_sockets s"
  "tcp_close_raw dst sp dp s = Some (f, s') \<Longrightarrow> ns_sockets s' = ns_sockets s"
  by (auto simp: ping4_def ping6_def send_udp_def tcp_connect_raw_def tcp_send_data_raw_def tcp_close_raw_def
      Let_def bind_eq_Some_conv dest!: send_transport_sockets host_view_send6 [THEN host_view_fields(8)]
      split: option.splits)

lemma dhcp_calls_sockets:
  "dhcp_discover xid s = Some (f, s') \<Longrightarrow> ns_sockets s' = ns_sockets s"
  "dhcp_request ip sid xid s = Some (f, s') \<Longrightarrow> ns_sockets s' = ns_sockets s"
  "ns_sockets (apply_dhcp_ack ack s) = ns_sockets s"
  by (auto simp: dhcp_discover_def dhcp_request_def dhcp_broadcast_def next_ip_id_def apply_dhcp_ack_def
      Let_def bind_eq_Some_conv)

lemma socket_calls:
  "ns_sockets (snd (with_sockets g s)) = snd (g (ns_sockets s))"
  "map_option (\<lambda>x. ns_sockets (snd x)) (with_sockets_panic h s) = map_option snd (h (ns_sockets s))"
  by (auto simp: with_sockets_def with_sockets_panic_def case_prod_beta split: option.splits bind_splits)

lemma socket_calls_panic:
  "with_sockets_panic h s = Some (r, s') \<Longrightarrow> map_option snd (h (ns_sockets s)) = Some (ns_sockets s')"
  using socket_calls(2) [of h s] by simp

lemmas stack_calls = stack_udp_bind_def stack_udp_send_to_def stack_udp_recv_from_def stack_udp_close_def
  stack_tcp_listen_def stack_tcp_listen_any_def stack_tcp_accept_def stack_tcp_listener_close_def
  stack_tcp_connect_def stack_tcp_connect_from_def stack_tcp_write_def stack_tcp_read_def
  stack_tcp_shutdown_def stack_tcp_close_def set_tcp_mss_def tcp_close_def

lemma stack_step_sockets:
  assumes "stack_step ev s = Some s'"
  shows "sock_exec (event_sock_events ev s) (ns_sockets s) = Some (ns_sockets s')"
proof (cases ev)
  case (EvFrame raw)
  then show ?thesis using assms by (auto dest: process_frame_sockets)
next
  case (EvFrameErrors raw)
  then show ?thesis using assms
    by (auto simp: process_frame_with_ipv4_errors_def bind_eq_Some_conv dest: process_frame_sockets
        split: option.splits)
next
  case (EvTick now)
  then show ?thesis using assms step_timers_sockets [of now s] by (auto simp del: sock_step.simps)
next
  case EvPoll
  then show ?thesis using assms step_timers_sockets [of "ns_current_time_ms s" s]
    by (auto simp: poll_transmit_def simp del: sock_step.simps)
next
  case (EvSendIp dst p)
  then show ?thesis using assms send_ip_packet_state [of dst p s] by auto
qed (use assms in \<open>auto simp: stack_calls socket_calls dhcp_calls_sockets(3)
      clear_ipv6_path_mtu_def cancel_router_discovery_def enable_nat_def
      dest!: socket_calls_panic transport_calls_sockets dhcp_calls_sockets(1,2) host_view_send6 [THEN host_view_fields(8)]
        host_view_discovery(1) [THEN host_view_fields(8)]\<close>)

fun run_sock_events :: "stack_event list \<Rightarrow> NetStack \<Rightarrow> sock_event list" where
  "run_sock_events [] s = []"
| "run_sock_events (ev # evs) s =
     event_sock_events ev s @ (case stack_step ev s of Some s' \<Rightarrow> run_sock_events evs s' | None \<Rightarrow> [])"

lemma sock_exec_append:
  "sock_exec (xs @ ys) rt = do { rt \<leftarrow> sock_exec xs rt; sock_exec ys rt }"
  by (induction xs arbitrary: rt) (auto simp: bind_assoc split: bind_splits)

text \<open>C3: the socket runtime of a host goes through exactly the events that the host gives it: in any run
  of received frames, clock ticks and calls, its state is the one the runtime alone reaches from the
  datagrams and segments of the admitted packets (those that pass the hardware address filter, the
  checksum, the firewall and the destination check), the ticks and the applications' calls.\<close>
theorem stack_refines_sockets:
  assumes "stack_run evs s = Some s'"
  shows "sock_exec (run_sock_events evs s) (ns_sockets s) = Some (ns_sockets s')"
  using assms
proof (induction evs arbitrary: s)
  case (Cons ev evs)
  then obtain s1 where "stack_step ev s = Some s1" "stack_run evs s1 = Some s'"
    by (auto simp: bind_eq_Some_conv)
  then show ?case using Cons.IH [of s1] stack_step_sockets [of ev s s1] by (simp add: sock_exec_append)
qed simp

theorem stack_refines_sockets_witness:
  "let s = netstack_new \<lparr> cfg_mac = O6 2 0 0 0 0 1, cfg_ip = O4 10 0 0 1, cfg_ipv6 = None, cfg_subnet_mask = 24,
         cfg_gateway = None \<rparr>;
       evs = [EvUdpBind 53, EvListen 80, EvFrame [0xff, 0xff], EvWrite (TcpStreamHandle 7) [65]]
   in \<exists>s'. stack_run evs s = Some s' \<and> length (run_sock_events evs s) = 3 \<and>
        sock_exec (run_sock_events evs s) (ns_sockets s) = Some (ns_sockets s')"
proof -
  let ?s = "netstack_new \<lparr> cfg_mac = O6 2 0 0 0 0 1, cfg_ip = O4 10 0 0 1, cfg_ipv6 = None, cfg_subnet_mask = 24,
         cfg_gateway = None \<rparr>"
  let ?evs = "[EvUdpBind 53, EvListen 80, EvFrame [0xff, 0xff], EvWrite (TcpStreamHandle 7) [65]]"
  have len: "length (run_sock_events ?evs ?s) = 3" by code_simp
  have "stack_run ?evs ?s \<noteq> None" by code_simp
  then obtain s' where "stack_run ?evs ?s = Some s'" by blast
  with stack_refines_sockets [OF this] len show ?thesis unfolding Let_def by blast
qed

end
