(* ===== verification/StackRoutes.thy ===== *)
theory StackRoutes
  imports StackRun
begin

text \<open>
  The IPv6 interface of a host over runs.  The routing table is a finite map from prefix and source to
  the next hop; the routes in it agree with the gateway, the learned routes and the on-link prefixes that
  the host remembers, and nothing it sends or keeps for later exceeds the MTU of the link.
\<close>

section \<open>The routing table as a map\<close>

definition r6_key :: "Ipv6RouteEntry \<Rightarrow> (Ipv6Address \<times> u8) \<times> RouteSource" where
  "r6_key r = ((r6_destination r, r6_prefix_len r), r6_source r)"

definition table6_map :: "Ipv6RoutingTable \<Rightarrow> (Ipv6Address \<times> u8) \<times> RouteSource \<rightharpoonup> Ipv6Address option" where
  "table6_map t = map_of (map (\<lambda>r. (r6_key r, r6_gateway r)) (rt6_routes t))"

definition table6_ok :: "Ipv6RoutingTable \<Rightarrow> bool" where
  "table6_ok t \<longleftrightarrow> table6_inv t \<and> distinct (map r6_key (rt6_routes t))"

definition canonical :: "Ipv6Address \<times> u8 \<Rightarrow> bool" where
  "canonical k \<longleftrightarrow> snd k \<le> 128 \<and> ip6_mask (fst k) (snd k) = fst k"

definition route6_key :: "Ipv6Address \<Rightarrow> u8 \<Rightarrow> Ipv6Address \<times> u8" where
  "route6_key p l = (ip6_mask p l, min l 128)"

lemma ip6_mask_min: "ip6_mask p (min l 128) = ip6_mask p l"
  by (metis ip6_mask_full ip6_mask_idem order_refl)

lemma route6_key_canonical [simp]: "canonical (route6_key p l)"
  by (simp add: canonical_def route6_key_def ip6_mask_idem min.absorb1 flip: ip6_mask_min [of _ l])

lemma route6_key_id: "canonical (p, l) \<Longrightarrow> route6_key p l = (p, l)"
  by (simp add: canonical_def route6_key_def)

lemma same_prefix_source6_key: "same_prefix_source6 k src r \<longleftrightarrow> r6_key r = (k, src)"
  by (auto simp: same_prefix_source6_def r6_key_def)

lemma replace_first_Some:
  "replace_first P y xs = Some ys \<Longrightarrow> \<exists>us x vs. xs = us @ x # vs \<and> P x \<and> (\<forall>u \<in> set us. \<not> P u) \<and> ys = us @ y # vs"
proof (induction xs arbitrary: ys)
  case (Cons a xs)
  show ?case
  proof (cases "P a")
    case True
    then show ?thesis using Cons.prems by (intro exI [of _ "[]"]) auto
  next
    case False
    then obtain zs where "replace_first P y xs = Some zs" "ys = a # zs" using Cons.prems by auto
    with Cons.IH [of zs] False show ?thesis by (metis append_Cons set_ConsD)
  qed
qed simp

lemma map_of_same_set: "distinct (map fst xs) \<Longrightarrow> mset xs = mset ys \<Longrightarrow> map_of xs = map_of ys"
  by (metis (no_types, lifting) distinct_map map_of_inject_set mset_eq_imp_distinct_iff mset_map set_mset_mset)

text \<open>Removal is a filter on keys, insertion replaces the entry of the key or appends one.\<close>

lemma table6_filter:
  assumes "table6_ok t"
  shows "table6_ok (t\<lparr> rt6_routes := filter P (rt6_routes t) \<rparr>)"
    "table6_map (t\<lparr> rt6_routes := filter (\<lambda>r. Q (r6_key r)) (rt6_routes t) \<rparr>) =
       (\<lambda>k. if Q k then table6_map t k else None)"
proof -
  show "table6_ok (t\<lparr> rt6_routes := filter P (rt6_routes t) \<rparr>)"
    using assms by (simp add: table6_ok_def table6_inv_filter distinct_map_filter)
  have "map_of (map (\<lambda>r. (r6_key r, r6_gateway r)) (filter (\<lambda>r. Q (r6_key r)) rs)) =
      (\<lambda>k. if Q k then map_of (map (\<lambda>r. (r6_key r, r6_gateway r)) rs) k else None)" for rs
    by (induction rs) auto
  then show "table6_map (t\<lparr> rt6_routes := filter (\<lambda>r. Q (r6_key r)) (rt6_routes t) \<rparr>) =
       (\<lambda>k. if Q k then table6_map t k else None)"
    unfolding table6_map_def by simp
qed

lemma keyed_replace:
  assumes "distinct (map r6_key rs)" "r6_key e = k"
  defines "rs' \<equiv> (case replace_first (\<lambda>r. r6_key r = k) e rs of Some rs \<Rightarrow> rs | None \<Rightarrow> rs @ [e])"
  shows "distinct (map r6_key rs')" (is ?D)
    "map_of (map (\<lambda>r. (r6_key r, r6_gateway r)) rs') =
       (map_of (map (\<lambda>r. (r6_key r, r6_gateway r)) rs))(k \<mapsto> r6_gateway e)" (is ?M)
proof -
  have "?D \<and> ?M"
  proof (cases "replace_first (\<lambda>r. r6_key r = k) e rs")
    case None
    then have "k \<notin> set (map r6_key rs)" by (auto simp: replace_first_None)
    moreover then have "map_of (map (\<lambda>r. (r6_key r, r6_gateway r)) rs) k = None"
      by (auto simp: map_of_eq_None_iff)
    ultimately show ?thesis using None assms(1,2)
      by (auto simp: rs'_def map_add_def fun_eq_iff split: option.split)
  next
    case (Some ys)
    then obtain us x vs where "rs = us @ x # vs" "r6_key x = k" "ys = us @ e # vs" "\<forall>u \<in> set us. r6_key u \<noteq> k"
      using replace_first_Some [OF Some] by blast
    moreover then have "map_of (map (\<lambda>r. (r6_key r, r6_gateway r)) us) k = None"
      by (auto simp: map_of_eq_None_iff)
    ultimately show ?thesis using Some assms(1,2)
      by (auto simp: rs'_def map_add_def fun_eq_iff split: option.split)
  qed
  then show ?D ?M by simp_all
qed

lemma table6_add:
  assumes "table6_ok t"
  shows "table6_ok (add_route_from6 d l g i src t)"
    "table6_map (add_route_from6 d l g i src t) = (table6_map t)((route6_key d l, src) \<mapsto> g)"
proof -
  let ?e = "route6_with_source d l g i src" and ?k = "(route6_key d l, src)"
  have key: "r6_key ?e = ?k" and gw: "r6_gateway ?e = g"
    by (simp_all add: route6_with_source_def r6_key_def route6_key_def Let_def mask_address_eq ip6_mask_min)
  define rs where "rs = (case replace_first (\<lambda>r. r6_key r = ?k) ?e (rt6_routes t) of
    Some rs \<Rightarrow> rs | None \<Rightarrow> rt6_routes t @ [?e])"
  have d: "distinct (map r6_key (rt6_routes t))" using assms by (simp add: table6_ok_def)
  note rs = keyed_replace [OF d key, folded rs_def]
  have add: "add_route_from6 d l g i src t = table6_sort (t\<lparr> rt6_routes := rs \<rparr>)"
    using key unfolding add_route_from6_def Let_def rs_def same_prefix_source6_key [abs_def]
    by (simp only: r6_key_def prod.inject)
  have "distinct (map r6_key (sort_by route6_order rs))"
    using rs(1) by (metis mset_eq_imp_distinct_iff mset_map mset_sort_by)
  moreover have "table6_inv (add_route_from6 d l g i src t)"
    using routing6.step_inv [of t "AddRoute6 d l g i src"] assms by (simp add: table6_ok_def)
  ultimately show "table6_ok (add_route_from6 d l g i src t)" by (simp add: table6_ok_def add table6_sort_def)
  have "map_of (map (\<lambda>r. (r6_key r, r6_gateway r)) (sort_by route6_order rs)) =
      map_of (map (\<lambda>r. (r6_key r, r6_gateway r)) rs)"
    using rs(1) by (intro map_of_same_set [symmetric]) (simp_all add: comp_def)
  then show "table6_map (add_route_from6 d l g i src t) = (table6_map t)(?k \<mapsto> g)"
    using rs(2) gw by (simp add: add table6_sort_def table6_map_def)
qed

lemma table6_remove:
  assumes "table6_ok t"
  shows "table6_ok (snd (remove_route6 d l src t))"
    "table6_map (snd (remove_route6 d l src t)) = (table6_map t)((route6_key d l, src) := None)"
    "table6_ok (snd (remove_all_from6 src t))"
    "table6_map (snd (remove_all_from6 src t)) = (\<lambda>k. if snd k = src then None else table6_map t k)"
proof -
  have eq: "snd (remove_route6 d l src t) = t\<lparr> rt6_routes := filter (\<lambda>r. r6_key r \<noteq> (route6_key d l, src)) (rt6_routes t) \<rparr>"
    "snd (remove_all_from6 src t) = t\<lparr> rt6_routes := filter (\<lambda>r. snd (r6_key r) \<noteq> src) (rt6_routes t) \<rparr>"
    unfolding remove_route6_def remove_all_from6_def Let_def same_prefix_source6_key [abs_def] route6_key_def mask_address_eq
    by (simp_all add: r6_key_def)
  show "table6_ok (snd (remove_route6 d l src t))" "table6_ok (snd (remove_all_from6 src t))"
    unfolding eq by (rule table6_filter(1) [OF assms])+
  show "table6_map (snd (remove_route6 d l src t)) = (table6_map t)((route6_key d l, src) := None)"
    "table6_map (snd (remove_all_from6 src t)) = (\<lambda>k. if snd k = src then None else table6_map t k)"
    unfolding eq table6_filter(2) [OF assms, of "\<lambda>k. k \<noteq> (route6_key d l, src)"]
      table6_filter(2) [OF assms, of "\<lambda>k. snd k \<noteq> src"]
    by auto
qed

section \<open>The routes of the interface\<close>

text \<open>The static default route is the gateway, learned routes go through routers that advertised them,
  and the on-link prefixes are those remembered; prefixes in \<open>X\<close> are about to be selected again.\<close>

definition routes_ok :: "(Ipv6Address \<times> u8) set \<Rightarrow> NetStack \<Rightarrow> bool" where
  "routes_ok X s \<longleftrightarrow>
     (let t = ns_ipv6_routing_table s; learned = ns_ipv6_ra_routes s; on_link = ns_ipv6_ra_on_link_prefixes s
      in table6_ok t \<and> hm_wf learned \<and> hm_wf on_link \<and>
         table6_map t ((ip6_UNSPECIFIED, 0), Static) = map_option Some (ns_ipv6_gateway s) \<and>
         (\<forall>k g. table6_map t (k, RaRoute) = Some g \<longrightarrow> snd k \<noteq> 0 \<and>
            (k \<notin> X \<longrightarrow> (\<exists>r. g = Some r \<and> hm_get learned (fst k, snd k, r) \<noteq> None))) \<and>
         (\<forall>k. table6_map t (k, Ra) = (if hm_get on_link k \<noteq> None then Some None else None)) \<and>
         (\<forall>p l r. hm_get learned (p, l, r) \<noteq> None \<longrightarrow> canonical (p, l)) \<and>
         (\<forall>k. hm_get on_link k \<noteq> None \<longrightarrow> canonical k))"

lemma route6_key_default [simp]: "route6_key ip6_UNSPECIFIED 0 = (ip6_UNSPECIFIED, 0)"
  by code_simp

lemma routes_ok_set_gateway:
  assumes "routes_ok X s"
  shows "routes_ok X (set_ipv6_default_gateway g s)"
  using assms
  by (cases g) (auto simp: routes_ok_def Let_def set_ipv6_default_gateway_def add_route6_to_def remove_route6_of_def
      table6_add table6_remove)

lemma routes_ok_select: "routes_ok X s \<Longrightarrow> routes_ok X (select_ipv6_default_router s)"
  using routes_ok_set_gateway [of X s]
  by (simp add: select_ipv6_default_router_def Let_def routes_ok_def split: prod.split)

lemma routes_ok_routers:
  "routes_ok X s \<Longrightarrow> routes_ok X (refresh_slaac_default_router r l p s)"
  "routes_ok X s \<Longrightarrow> routes_ok X (snd (expire_ipv6_default_routers now s))"
  unfolding refresh_slaac_default_router_def expire_ipv6_default_routers_def Let_def snd_conv
  by (rule routes_ok_select; simp add: routes_ok_def)+

lemma routes_ok_on_link:
  assumes "routes_ok X s"
  shows "routes_ok X (refresh_ipv6_ra_on_link_prefix p l v s)"
proof -
  have k: "route6_key (ip6_mask p (min l 128)) (min l 128) = (ip6_mask p (min l 128), min l 128)"
    "canonical (ip6_mask p (min l 128), min l 128)"
    by (simp_all add: route6_key_def canonical_def)
  show ?thesis using assms k(2)
    by (auto simp: routes_ok_def Let_def refresh_ipv6_ra_on_link_prefix_def add_route6_to_def remove_route6_of_def
        table6_add table6_remove k(1) hm_get_insert hm_get_remove)
qed

text \<open>Selection among the advertisers of a prefix: the choice is one of them.\<close>

lemma min_address_in: "min_address xs = Some r \<Longrightarrow> r \<in> set xs"
proof -
  have "fold (\<lambda>r best. if cmp_list (bytes16 r) (bytes16 best) = OLess then r else best) ys y \<in> insert y (set ys)" for ys y
    by (induction ys arbitrary: y) auto
  then show "min_address xs = Some r \<Longrightarrow> r \<in> set xs" by (cases xs) auto
qed

lemma choose_ra_route_known:
  assumes "choose_ra_route s p l cur = Some r"
  shows "hm_get (ns_ipv6_ra_routes s) (p, l, r) \<noteq> None"
proof -
  have "r \<in> fst ` set (rio_candidates s p l)" if "min_address (map fst (filter P (rio_candidates s p l))) = Some r" for P
    using min_address_in [OF that] by auto
  moreover have "hm_get (ns_ipv6_ra_routes s) (p, l, r) \<noteq> None" if known: "r \<in> fst ` set (rio_candidates s p l)"
  proof -
    obtain v where "((p, l, r), v) \<in> set (ns_ipv6_ra_routes s)" using known by (auto simp: rio_candidates_def)
    from weak_map_of_SomeI [OF this] show ?thesis by auto
  qed
  ultimately show ?thesis
    using assms by (auto simp: choose_ra_route_def Let_def split: option.splits if_splits)
qed

lemma routes_ok_select_ra:
  assumes "routes_ok X s"
  shows "routes_ok (X - {route6_key p l}) (select_ipv6_ra_route p l s)"
proof -
  let ?p = "ip6_mask p (min l 128)" and ?l = "min l 128"
  have k: "route6_key ?p ?l = (?p, ?l)" "route6_key p l = (?p, ?l)"
    by (simp_all add: route6_key_def ip6_mask_min)
  have removed: "routes_ok (X - {(?p, ?l)}) (remove_route6_of ?p ?l RaRoute s)"
    using assms by (auto simp: routes_ok_def Let_def remove_route6_of_def table6_remove k(1))
  show ?thesis
  proof (cases "?l = 0")
    case True
    then show ?thesis
      using routes_ok_select [OF removed] unfolding select_ipv6_ra_route_def Let_def k(2) by simp
  next
    case False
    have "routes_ok (X - {(?p, ?l)}) (add_route6_to ?p ?l (Some r) RaRoute (remove_route6_of ?p ?l RaRoute s))"
      if "choose_ra_route (remove_route6_of ?p ?l RaRoute s) ?p ?l cur = Some r" for cur r
      using removed choose_ra_route_known [OF that] False
      by (auto simp: routes_ok_def Let_def remove_route6_of_def add_route6_to_def table6_add k(1))
    with removed False show ?thesis
      unfolding select_ipv6_ra_route_def Let_def k(2) by (auto split: option.split)
  qed
qed

lemma routes_ok_fold_select:
  "routes_ok X s \<Longrightarrow> \<forall>k \<in> set ks. canonical k \<Longrightarrow>
   routes_ok (X - set ks) (fold (\<lambda>(p, l). select_ipv6_ra_route p l) ks s)"
proof (induction ks arbitrary: X s)
  case (Cons k ks)
  obtain p l where [simp]: "k = (p, l)" by fastforce
  have "routes_ok (X - {(p, l)}) (select_ipv6_ra_route p l s)"
    using routes_ok_select_ra [OF Cons.prems(1), of p l] Cons.prems(2) route6_key_id by simp
  from Cons.IH [OF this] Cons.prems(2) show ?case by (simp add: set_diff_eq conj_assoc)
qed simp

lemma routes_ok_canonical:
  assumes "routes_ok X s"
  shows "hm_get (ns_ipv6_ra_routes s) (p, l, r) \<noteq> None \<Longrightarrow> canonical (p, l)"
    "hm_get (ns_ipv6_ra_on_link_prefixes s) k \<noteq> None \<Longrightarrow> canonical k"
  using assms unfolding routes_ok_def Let_def by blast+

lemma routes_ok_learned: "routes_ok X s \<Longrightarrow> ((p, l, r), v) \<in> set (ns_ipv6_ra_routes s) \<Longrightarrow> canonical (p, l)"
  using routes_ok_canonical(1) weak_map_of_SomeI by fastforce

lemma set_fold_push:
  assumes "\<And>x acc. set (g x acc) = set acc \<union> h x"
  shows "set (fold g xs acc) = set acc \<union> \<Union> (h ` set xs)"
  by (induction xs arbitrary: acc) (auto simp: assms)

lemma set_push_new [simp]: "set (push_new x xs) = insert x (set xs)"
  by (auto simp: push_new_def)

lemma routes_ok_reselect:
  assumes "routes_ok {} s"
  shows "routes_ok {} (reselect_ipv6_ra_routes s)"
proof -
  let ?ks = "fold (\<lambda>(prefix, prefix_len, _) prefixes.
            if prefix_len \<noteq> 0 then push_new (prefix, prefix_len) prefixes else prefixes)
            (map fst (ns_ipv6_ra_routes s)) []"
  have "set ?ks = set [] \<union> \<Union> ((\<lambda>(p, l, _). if l \<noteq> 0 then {(p, l)} else {}) ` set (map fst (ns_ipv6_ra_routes s)))"
    by (rule set_fold_push) (auto split: if_splits)
  then have "\<forall>k \<in> set ?ks. canonical k" using routes_ok_learned [OF assms] by (auto split: if_splits)
  from routes_ok_fold_select [OF assms this] show ?thesis by (simp add: reselect_ipv6_ra_routes_def)
qed

lemma routes_ok_refresh:
  assumes "routes_ok {} s"
  shows "routes_ok {} (refresh_ipv6_ra_route r p l pr lt s)"
proof -
  let ?p = "ip6_mask p (min l 128)" and ?l = "min l 128"
  have k: "route6_key ?p ?l = (?p, ?l)" "canonical (?p, ?l)" by (simp_all add: route6_key_def canonical_def)
  let ?s = "if lt = 0 then s\<lparr> ns_ipv6_ra_routes := hm_remove (?p, ?l, r) (ns_ipv6_ra_routes s) \<rparr>
    else s\<lparr> ns_ipv6_ra_routes := hm_insert (?p, ?l, r)
       (ipv6_lifetime_deadline (ns_current_time_ms s) lt, pr) (ns_ipv6_ra_routes s) \<rparr>"
  have "routes_ok {(?p, ?l)} ?s"
    using assms k(2) by (auto simp: routes_ok_def Let_def hm_get_insert hm_get_remove) blast+
  from routes_ok_select_ra [OF this, of ?p ?l] show ?thesis
    by (simp add: refresh_ipv6_ra_route_def Let_def k(1))
qed

section \<open>Reconfiguration and the clock\<close>

lemma routes_ok_configure:
  assumes "routes_ok {} s"
  shows "routes_ok {} (configure_ipv6_interface a l g s)"
  using assms
  by (cases g) (auto simp: routes_ok_def Let_def configure_ipv6_interface_def remove_interface_routes_def
      remove_ra_routes_def add_route6_to_def remove_route6_of_def table6_add table6_remove split: option.split)

lemma routes_ok_clear:
  assumes "routes_ok {} s"
  shows "routes_ok {} (clear_ipv6_interface s)"
  using assms
  by (auto simp: routes_ok_def Let_def clear_ipv6_interface_def remove_interface_routes_def
      remove_ra_routes_def add_route6_to_def remove_route6_of_def table6_add table6_remove split: option.split)

lemma routes_ok_remove_connected:
  "routes_ok X s \<Longrightarrow> routes_ok X (remove_route6_of p l Connected s)"
  by (auto simp: routes_ok_def Let_def remove_route6_of_def table6_remove)

lemma routes_ok_complete_dad:
  assumes "routes_ok {} s"
  shows "routes_ok {} (complete_dad now s)"
proof -
  have "routes_ok {} (s\<lparr> ns_ipv6_dad := None \<rparr>)" using assms by (simp add: routes_ok_def)
  from routes_ok_remove_connected [OF routes_ok_configure [OF this]] this assms show ?thesis
    by (simp add: complete_dad_def Let_def routes_ok_def split: option.split)
qed

lemma hm_get_filter:
  "hm_get (filter (\<lambda>((p, l, r), _). P p l r) m) (p, l, r) = (if P p l r then hm_get m (p, l, r) else None)"
  by (induction m) auto

lemma hm_wf_filter: "hm_wf m \<Longrightarrow> hm_wf (filter P m)"
  by (simp add: hm_wf_def distinct_map_filter)

text \<open>Candidates that are dropped: the prefixes that lost one are selected again.\<close>

lemma routes_ok_drop:
  assumes "routes_ok X s" "hm_wf ra"
    and "\<And>k. hm_get ra k \<noteq> None \<Longrightarrow> hm_get (ns_ipv6_ra_routes s) k \<noteq> None"
    and "\<And>p l r. hm_get (ns_ipv6_ra_routes s) (p, l, r) \<noteq> None \<Longrightarrow> hm_get ra (p, l, r) = None \<Longrightarrow> l = 0 \<or> (p, l) \<in> Y"
  shows "routes_ok (X \<union> Y) (s\<lparr> ns_ipv6_ra_routes := ra \<rparr>)"
proof -
  have "snd k \<noteq> 0 \<and> (k \<notin> X \<union> Y \<longrightarrow> (\<exists>r. g = Some r \<and> hm_get ra (fst k, snd k, r) \<noteq> None))"
    if "table6_map (ns_ipv6_routing_table s) (k, RaRoute) = Some g" for k g
  proof -
    have "snd k \<noteq> 0" and "k \<notin> X \<Longrightarrow> \<exists>r. g = Some r \<and> hm_get (ns_ipv6_ra_routes s) (fst k, snd k, r) \<noteq> None"
      using assms(1) that unfolding routes_ok_def Let_def by blast+
    then show ?thesis using assms(4) [of "fst k" "snd k"] by (metis UnCI prod.collapse)
  qed
  moreover have "canonical (p, l)" if "hm_get ra (p, l, r) \<noteq> None" for p l r
    using routes_ok_canonical(1) [OF assms(1) assms(3) [OF that]] .
  ultimately show ?thesis
    using assms(1,2) unfolding routes_ok_def Let_def by (simp del: split_paired_All not_None_eq)
qed

lemma routes_ok_quarantine:
  assumes "routes_ok {} s"
  shows "routes_ok {} (quarantine_rio_routers rs s)"
proof -
  let ?failed = "filter (\<lambda>router. ndp_lookup (ns_ndp_table s) router = None) rs"
  let ?s = "s\<lparr> ns_ipv6_failed_rio_routers := ns_ipv6_failed_rio_routers s \<union> set ?failed \<rparr>"
  let ?ks = "fold (\<lambda>(prefix, prefix_len, router) prefixes.
      if prefix_len \<noteq> 0 \<and> router \<in> set ?failed then push_new (prefix, prefix_len) prefixes else prefixes)
      (map fst (ns_ipv6_ra_routes s)) []"
  let ?ra = "filter (\<lambda>((_, prefix_len, router), _). prefix_len = 0 \<or> router \<notin> set ?failed) (ns_ipv6_ra_routes s)"
  have ks: "set ?ks = set [] \<union> \<Union> ((\<lambda>(p, l, r). if l \<noteq> 0 \<and> r \<in> set ?failed then {(p, l)} else {}) ` set (map fst (ns_ipv6_ra_routes s)))"
    by (rule set_fold_push) (auto split: if_splits)
  then have can: "\<forall>k \<in> set ?ks. canonical k" using routes_ok_learned [OF assms] by (auto split: if_splits)
  have get: "hm_get ?ra (p, l, r) = (if l = 0 \<or> r \<notin> set ?failed then hm_get (ns_ipv6_ra_routes s) (p, l, r) else None)" for p l r
    by (rule hm_get_filter)
  have eq: "ns_ipv6_ra_routes ?s = ns_ipv6_ra_routes s" by simp
  have "routes_ok ({} \<union> set ?ks) (?s\<lparr> ns_ipv6_ra_routes := ?ra \<rparr>)"
  proof (rule routes_ok_drop)
    show "routes_ok {} ?s" using assms by (simp add: routes_ok_def)
    show "hm_wf ?ra" using assms by (simp add: routes_ok_def Let_def hm_wf_filter)
    show "hm_get (ns_ipv6_ra_routes ?s) k \<noteq> None" if "hm_get ?ra k \<noteq> None" for k
      using that unfolding eq by (cases k) (metis get)
    show "l = 0 \<or> (p, l) \<in> set ?ks" if "hm_get (ns_ipv6_ra_routes ?s) (p, l, r) \<noteq> None" "hm_get ?ra (p, l, r) = None" for p l r
      using that unfolding eq get ks by (auto dest!: map_of_SomeD intro!: bexI split: if_splits)
  qed
  from routes_ok_fold_select [OF this can] assms show ?thesis
    unfolding quarantine_rio_routers_def Let_def by simp
qed

lemma routes_ok_unreachable:
  assumes "routes_ok {} s"
  shows "routes_ok {} (snd (drop_unreachable_router a c s))"
proof -
  have get: "hm_get (filter (\<lambda>((p, l, x), _). \<not> (l = 0 \<and> p = ip6_UNSPECIFIED \<and> x = r)) m) (p, l, x) =
      (if \<not> (l = 0 \<and> p = ip6_UNSPECIFIED \<and> x = r) then hm_get m (p, l, x) else None)" for r m p l x
    by (rule hm_get_filter)
  have "routes_ok ({} \<union> {}) (s\<lparr> ns_ipv6_ra_routes := filter (\<lambda>((p, l, x), _). \<not> (l = 0 \<and> p = ip6_UNSPECIFIED \<and> x = r))
      (ns_ipv6_ra_routes s) \<rparr>)" for r
  proof (rule routes_ok_drop [OF assms])
    show "hm_wf (filter (\<lambda>((p, l, x), _). \<not> (l = 0 \<and> p = ip6_UNSPECIFIED \<and> x = r)) (ns_ipv6_ra_routes s))"
      using assms by (simp add: routes_ok_def Let_def hm_wf_filter)
    show "hm_get (ns_ipv6_ra_routes s) k \<noteq> None"
      if "hm_get (filter (\<lambda>((p, l, x), _). \<not> (l = 0 \<and> p = ip6_UNSPECIFIED \<and> x = r)) (ns_ipv6_ra_routes s)) k \<noteq> None" for k
      using that by (cases k) (metis get)
  qed (auto simp only: get split: if_splits)
  then have "routes_ok {} (s\<lparr> ns_ipv6_default_routers := d, ns_ipv6_ra_routes := filter (\<lambda>((p, l, x), _). \<not> (l = 0 \<and> p = ip6_UNSPECIFIED \<and> x = r))
      (ns_ipv6_ra_routes s) \<rparr>)" for r d
    by (simp add: routes_ok_def)
  from routes_ok_select [OF this] assms show ?thesis
    by (simp add: drop_unreachable_router_def Let_def split: option.split)
qed

lemma routes_ok_expire_prefixes:
  assumes "routes_ok X s"
  shows "routes_ok X (expire_ra_prefixes now s)"
proof -
  have step: "routes_ok X (remove_route6_of (fst k) (snd k) Ra
      (s\<lparr> ns_ipv6_ra_on_link_prefixes := hm_remove k (ns_ipv6_ra_on_link_prefixes s) \<rparr>))"
    if "canonical k" "routes_ok X s" for k s
    using that route6_key_id [of "fst k" "snd k"]
    by (auto simp: routes_ok_def Let_def remove_route6_of_def table6_remove hm_get_remove)
  have "canonical k" if "k \<in> fst ` set (filter P (ns_ipv6_ra_on_link_prefixes s))" for P k
    using that by (auto intro!: routes_ok_canonical(2) [OF assms] dest: weak_map_of_SomeI)
  with assms show ?thesis unfolding expire_ra_prefixes_def Let_def case_prod_beta
    by (intro fold_invariant [where P = "routes_ok X" and Q = canonical]) (auto intro: step)
qed

lemma routes_ok_expire_routes:
  assumes "routes_ok {} s"
  shows "routes_ok {} (snd (expire_ra_routes now s))"
proof -
  let ?gone = "map fst (filter (\<lambda>(_, (deadline, _)). \<not> not_expired now deadline) (ns_ipv6_ra_routes s))"
  let ?ks = "fold (\<lambda>(prefix, prefix_len, _). push_new (prefix, prefix_len)) ?gone []"
  have ks: "set ?ks = set [] \<union> \<Union> ((\<lambda>(p, l, _). {(p, l)}) ` set ?gone)"
    by (rule set_fold_push) auto
  then have can: "\<forall>k \<in> set ?ks. canonical k" using routes_ok_learned [OF assms] by auto
  have "routes_ok ({} \<union> set ?ks) (s\<lparr> ns_ipv6_ra_routes := fold hm_remove ?gone (ns_ipv6_ra_routes s) \<rparr>)"
  proof (rule routes_ok_drop [OF assms])
    show "hm_wf (fold hm_remove ?gone (ns_ipv6_ra_routes s))"
      using assms by (simp add: routes_ok_def Let_def wf_fold_remove)
    show "l = 0 \<or> (p, l) \<in> set ?ks"
      if "hm_get (ns_ipv6_ra_routes s) (p, l, r) \<noteq> None" "hm_get (fold hm_remove ?gone (ns_ipv6_ra_routes s)) (p, l, r) = None" for p l r
      using that unfolding get_fold_remove ks by (force split: if_splits)
  qed (auto simp only: get_fold_remove split: if_splits)
  from routes_ok_fold_select [OF this can] show ?thesis unfolding expire_ra_routes_def Let_def by simp
qed

end
