(* ===== verification/StackIface.thy ===== *)
theory StackIface
  imports StackRoutes NdpWire
begin

text \<open>
  The IPv6 interface of a host in any run: the routes agree with what the host has learned, the neighbor
  cache is consistent, the MTU of the link and of every path stay in their ranges, no queued packet is
  longer than the link allows, and router discovery sends at most three solicitations.
\<close>

section \<open>The link\<close>

definition link_ok :: "NetStack \<Rightarrow> bool" where
  "link_ok s \<longleftrightarrow> ndp_inv (ns_ndp_table s) \<and> 1280 \<le> ns_ipv6_link_mtu s \<and> ns_ipv6_link_mtu s \<le> IPV6_ETHERNET_LINK_MTU \<and>
     (\<forall>d mtu. hm_get (ns_ipv6_path_mtu_cache s) d = Some mtu \<longrightarrow> 1280 \<le> mtu) \<and>
     hm_wf (ns_pending_ndp_packets s) \<and>
     (\<forall>ip q. hm_get (ns_pending_ndp_packets s) ip = Some q \<longrightarrow>
        q \<noteq> [] \<and> (\<forall>packet \<in> set q. length packet \<le> unat (ns_ipv6_link_mtu s))) \<and>
     (\<forall>d. ns_ipv6_router_discovery s = Some d \<longrightarrow>
        1 \<le> rd_solicitations_sent d \<and> rd_solicitations_sent d < IPV6_MAX_RTR_SOLICITATIONS)"

definition link_view ::
  "NetStack \<Rightarrow> NdpTable \<times> u32 \<times> (Ipv6Address, u32) hash_map \<times> (Ipv6Address, bytes list) hash_map \<times>
     Ipv6RouterDiscovery option" where
  "link_view s = (ns_ndp_table s, ns_ipv6_link_mtu s, ns_ipv6_path_mtu_cache s, ns_pending_ndp_packets s,
     ns_ipv6_router_discovery s)"

lemma link_ok_view: "link_view s' = link_view s \<Longrightarrow> link_ok s' = link_ok s"
  by (simp add: link_view_def link_ok_def)

lemma link_view_routes [simp]:
  "link_view (add_route6_to p l g src s) = link_view s"
  "link_view (remove_route6_of p l src s) = link_view s"
  "link_view (set_ipv6_default_gateway gw s) = link_view s"
  "link_view (select_ipv6_default_router s) = link_view s"
  by (simp_all add: link_view_def add_route6_to_def remove_route6_of_def set_ipv6_default_gateway_def
      select_ipv6_default_router_def Let_def split: option.split prod.split)

lemma link_view_fold: "(\<And>x s. link_view (f x s) = link_view s) \<Longrightarrow> link_view (fold f xs s) = link_view s"
  by (induction xs arbitrary: s) simp_all

lemma link_view_updates [simp]:
  "link_view (s\<lparr> ns_ipv6_default_routers := x1 \<rparr>) = link_view s"
  "link_view (s\<lparr> ns_ipv6_ra_routes := x2 \<rparr>) = link_view s"
  "link_view (s\<lparr> ns_ipv6_ra_on_link_prefixes := x3 \<rparr>) = link_view s"
  "link_view (s\<lparr> ns_ipv6_failed_rio_routers := x4 \<rparr>) = link_view s"
  "link_view (s\<lparr> ns_ipv6_dad := x5 \<rparr>) = link_view s"
  "link_view (s\<lparr> ns_ipv6_dad_duplicate := x6 \<rparr>) = link_view s"
  "link_view (s\<lparr> ns_ipv6_slaac_lifetimes := x7 \<rparr>) = link_view s"
  by (simp_all add: link_view_def)

lemma link_view_learned [simp]:
  "link_view (refresh_slaac_default_router r lt pr s) = link_view s"
  "link_view (snd (expire_ipv6_default_routers now s)) = link_view s"
  "link_view (refresh_ipv6_ra_on_link_prefix p l v s) = link_view s"
  "link_view (select_ipv6_ra_route p l s) = link_view s"
  "link_view (reselect_ipv6_ra_routes s) = link_view s"
  "link_view (refresh_ipv6_ra_route r p l pr v s) = link_view s"
  by (simp_all add: refresh_slaac_default_router_def expire_ipv6_default_routers_def link_view_fold case_prod_beta
      refresh_ipv6_ra_on_link_prefix_def select_ipv6_ra_route_def reselect_ipv6_ra_routes_def refresh_ipv6_ra_route_def
      Let_def split: option.split)

lemma link_view_pump [simp]:
  "link_view (quarantine_rio_routers rs s) = link_view s"
  "link_view (snd (drop_unreachable_router a c s)) = link_view s"
  "link_view (expire_ra_prefixes now s) = link_view s"
  "link_view (snd (expire_ra_routes now s)) = link_view s"
  "link_view (mark_ipv6_dad_duplicate x s) = link_view s"
  "link_view (detect_duplicate m x s) = link_view s"
  by (simp_all add: quarantine_rio_routers_def drop_unreachable_router_def expire_ra_prefixes_def
      expire_ra_routes_def mark_ipv6_dad_duplicate_def detect_duplicate_def Let_def link_view_fold case_prod_beta
      split: option.split)

section \<open>The interface\<close>

definition iface_ok :: "NetStack \<Rightarrow> bool" where
  "iface_ok s \<longleftrightarrow> routes_ok {} s \<and> link_ok s"

lemma iface_ok_learned:
  assumes "iface_ok s"
  shows "iface_ok (select_ipv6_default_router s)" "iface_ok (refresh_slaac_default_router r lt pr s)"
    "iface_ok (refresh_ipv6_ra_on_link_prefix p l v s)" "iface_ok (reselect_ipv6_ra_routes s)"
    "iface_ok (refresh_ipv6_ra_route r p l pr v s)" "iface_ok (set_ipv6_default_gateway g s)"
    "iface_ok (quarantine_rio_routers rs s)" "iface_ok (snd (drop_unreachable_router a c s))"
    "iface_ok (expire_ra_prefixes now s)" "iface_ok (snd (expire_ra_routes now s))"
    "iface_ok (snd (expire_ipv6_default_routers now s))"
  using assms
  by (simp_all add: iface_ok_def link_ok_view [OF link_view_routes(3)] link_ok_view [OF link_view_routes(4)]
      link_ok_view [OF link_view_learned(1)] link_ok_view [OF link_view_learned(2)] link_ok_view [OF link_view_learned(3)]
      link_ok_view [OF link_view_learned(5)] link_ok_view [OF link_view_learned(6)] link_ok_view [OF link_view_pump(1)]
      link_ok_view [OF link_view_pump(2)] link_ok_view [OF link_view_pump(3)] link_ok_view [OF link_view_pump(4)]
      routes_ok_select routes_ok_routers routes_ok_on_link routes_ok_reselect routes_ok_refresh routes_ok_set_gateway
      routes_ok_quarantine routes_ok_unreachable routes_ok_expire_prefixes routes_ok_expire_routes)

lemma iface_ok_configure: "iface_ok s \<Longrightarrow> iface_ok (configure_ipv6_interface a l g s)"
  using routes_ok_configure [of s a l g]
  by (simp add: iface_ok_def link_ok_def configure_ipv6_interface_def remove_ra_routes_def remove_interface_routes_def
      add_route6_to_def remove_route6_of_def Let_def split: option.split)

lemma iface_ok_clear: "iface_ok s \<Longrightarrow> iface_ok (clear_ipv6_interface s)"
  using routes_ok_clear [of s]
  by (simp add: iface_ok_def link_ok_def clear_ipv6_interface_def remove_ra_routes_def remove_interface_routes_def
      add_route6_to_def remove_route6_of_def Let_def IPV6_ETHERNET_LINK_MTU_def split: option.split)

lemma iface_ok_remove_connected: "iface_ok s \<Longrightarrow> iface_ok (remove_route6_of p l Connected s)"
  by (simp add: iface_ok_def routes_ok_remove_connected link_ok_view [OF link_view_routes(2)])

lemma iface_ok_updates [simp]:
  "iface_ok (s\<lparr> ns_ipv6_dad := x5 \<rparr>) = iface_ok s"
  "iface_ok (s\<lparr> ns_ipv6_dad_duplicate := x6 \<rparr>) = iface_ok s"
  "iface_ok (s\<lparr> ns_ipv6_slaac_lifetimes := x7 \<rparr>) = iface_ok s"
  "iface_ok (s\<lparr> ns_ipv6_default_routers := x1 \<rparr>) = iface_ok s"
  "iface_ok (s\<lparr> ns_ipv6_failed_rio_routers := x2 \<rparr>) = iface_ok s"
  "iface_ok (s\<lparr> ns_ipv6_default_hop_limit := x3 \<rparr>) = iface_ok s"
  "iface_ok (s\<lparr> ns_ipv6_redirect_cache := x4 \<rparr>) = iface_ok s"
  "iface_ok (s\<lparr> ns_received_icmpv6_replies := x8 \<rparr>) = iface_ok s"
  "iface_ok (s\<lparr> ns_ipv6_router_discovery_exhausted := x9 \<rparr>) = iface_ok s"
  "iface_ok (s\<lparr> ns_current_time_ms := x10 \<rparr>) = iface_ok s"
  by (simp_all add: iface_ok_def routes_ok_def link_ok_def)

lemma iface_ok_ndp:
  "iface_ok s \<Longrightarrow> ndp_inv t \<Longrightarrow> iface_ok (s\<lparr> ns_ndp_table := t \<rparr>)"
  by (simp add: iface_ok_def routes_ok_def link_ok_def)

lemma iface_ok_discovery:
  "iface_ok s \<Longrightarrow> (\<And>d. r = Some d \<Longrightarrow> 1 \<le> rd_solicitations_sent d \<and> rd_solicitations_sent d < IPV6_MAX_RTR_SOLICITATIONS) \<Longrightarrow>
   iface_ok (s\<lparr> ns_ipv6_router_discovery := r \<rparr>)"
  by (simp add: iface_ok_def routes_ok_def link_ok_def)

lemma iface_ok_complete_dad: "iface_ok s \<Longrightarrow> iface_ok (complete_dad now s)"
  by (simp add: complete_dad_def Let_def iface_ok_remove_connected iface_ok_configure split: option.split)

lemma iface_ok_start_discovery:
  "start_router_discovery s = Some (f, s') \<Longrightarrow> iface_ok s \<Longrightarrow> iface_ok s'"
  by (auto simp: start_router_discovery_def Let_def bind_eq_Some_conv IPV6_MAX_RTR_SOLICITATIONS_def
      intro!: iface_ok_discovery)

lemma sat_add_one: "1 \<le> sat_add x (1 :: u8)"
proof (cases "unat x < 255")
  case True
  then show ?thesis by (simp add: sat_add_def word_le_nat_alt unat_word_ariths)
qed (simp add: sat_add_def)

lemma iface_ok_step_discovery:
  "step_router_discovery now s = Some (fs, s') \<Longrightarrow> iface_ok s \<Longrightarrow> iface_ok s'"
  by (auto simp: step_router_discovery_def Let_def bind_eq_Some_conv sat_add_one intro!: iface_ok_discovery
      split: option.splits if_splits)

lemma iface_ok_ndp_step: "iface_ok s \<Longrightarrow> iface_ok (s\<lparr> ns_ndp_table := ndp_step (ns_ndp_table s) ev \<rparr>)"
  by (rule iface_ok_ndp) (simp_all add: iface_ok_def link_ok_def ndp_cache.step_inv)

lemmas iface_ok_cache = iface_ok_ndp_step [where ev = "NdpLearn ip m" for ip m, simplified]
  iface_ok_ndp_step [where ev = "NdpStale ip m" for ip m, simplified]
  iface_ok_ndp_step [where ev = "NdpDemote ip" for ip, simplified]
  iface_ok_ndp_step [where ev = "NdpConfirm ip m now" for ip m now, simplified]
  iface_ok_ndp_step [where ev = "NdpTransmit ip now" for ip now, simplified]
  iface_ok_ndp_step [where ev = "NdpTick now" for now, simplified]

lemma iface_ok_expire_interface:
  "expire_interface now a l s = Some (fs, s') \<Longrightarrow> iface_ok s \<Longrightarrow> iface_ok s'"
  unfolding expire_interface_def Let_def case_prod_beta
  by (auto simp: bind_eq_Some_conv iface_ok_clear iface_ok_learned(11)
      dest!: iface_ok_start_discovery split: if_splits)

lemma iface_ok_timers:
  assumes "interface_timers now s = Some (fs, s')" "iface_ok s"
  shows "iface_ok s'"
  by (rule interface_timers_rule [of now s fs s' iface_ok, OF assms])
    (blast intro: iface_ok_learned iface_ok_complete_dad iface_ok_cache(6) iface_ok_step_discovery
      iface_ok_expire_interface)+

section \<open>Received messages\<close>

lemma iface_ok_packet_too_big: "iface_ok s \<Longrightarrow> iface_ok (process_packet_too_big i s)"
  by (auto simp: process_packet_too_big_def Let_def iface_ok_def routes_ok_def link_ok_def hm_get_insert
      split: option.splits if_splits)

lemma iface_ok_redirect: "iface_ok s \<Longrightarrow> iface_ok (process_redirect h i s)"
  by (auto simp: process_redirect_def Let_def iface_ok_cache(1) split: option.split)

lemma hm_get_requeue:
  assumes "hm_wf m"
  shows "hm_wf (filter (\<lambda>(_, q). q \<noteq> []) (map (\<lambda>(ip, q). (ip, filter P q)) m))"
    "hm_get (filter (\<lambda>(_, q). q \<noteq> []) (map (\<lambda>(ip, q). (ip, filter P q)) m)) ip = Some q \<Longrightarrow>
       q \<noteq> [] \<and> (\<exists>r. hm_get m ip = Some r \<and> q = filter P r)"
proof -
  have "map fst (map (\<lambda>(ip, q). (ip, filter P q)) m) = map fst m" by (simp add: comp_def case_prod_beta)
  then show wf: "hm_wf (filter (\<lambda>(_, q). q \<noteq> []) (map (\<lambda>(ip, q). (ip, filter P q)) m))"
    using assms unfolding hm_wf_def by (metis distinct_map_filter)
  show "q \<noteq> [] \<and> (\<exists>r. hm_get m ip = Some r \<and> q = filter P r)"
    if "hm_get (filter (\<lambda>(_, q). q \<noteq> []) (map (\<lambda>(ip, q). (ip, filter P q)) m)) ip = Some q"
    using that assms wf by (auto simp: hm_get_eq_Some)
qed

lemma iface_ok_queue:
  assumes "iface_ok s" "1280 \<le> mtu" "mtu \<le> IPV6_ETHERNET_LINK_MTU" "hm_wf q"
    and "\<And>ip ps. hm_get q ip = Some ps \<Longrightarrow> ps \<noteq> [] \<and> (\<forall>packet \<in> set ps. length packet \<le> unat mtu)"
  shows "iface_ok (s\<lparr> ns_ipv6_link_mtu := mtu, ns_pending_ndp_packets := q \<rparr>)"
  using assms by (simp add: iface_ok_def routes_ok_def link_ok_def)

lemma iface_ok_mtu:
  assumes "iface_ok s" "1280 \<le> mtu" "mtu \<le> IPV6_ETHERNET_LINK_MTU"
  shows "iface_ok (s\<lparr> ns_ipv6_link_mtu := mtu, ns_pending_ndp_packets := filter (\<lambda>(_, queued). queued \<noteq> [])
        (map (\<lambda>(ip, queued). (ip, filter (\<lambda>packet. length packet \<le> unat mtu) queued)) (ns_pending_ndp_packets s)) \<rparr>)"
proof -
  let ?q = "filter (\<lambda>(_, queued). queued \<noteq> [])
        (map (\<lambda>(ip, queued). (ip, filter (\<lambda>packet. length packet \<le> unat mtu) queued)) (ns_pending_ndp_packets s))"
  have wf: "hm_wf (ns_pending_ndp_packets s)" using assms(1) by (simp add: iface_ok_def link_ok_def)
  have "q \<noteq> [] \<and> (\<forall>packet \<in> set q. length packet \<le> unat mtu)" if "hm_get ?q ip = Some q" for ip q
    using hm_get_requeue(2) [OF wf that] by auto
  with iface_ok_queue [OF assms hm_get_requeue(1) [OF wf]] show ?thesis by blast
qed

lemma iface_ok_ra_parameters:
  assumes "iface_ok s"
  shows "iface_ok (ra_parameters ra s)"
proof -
  let ?s = "s\<lparr> ns_ndp_table := apply_router_advertisement_timers (ra_reachable_time ra) (ra_retrans_timer ra) (ns_ndp_table s) \<rparr>"
  define x where "x = (if ra_current_hop_limit ra \<noteq> 0 then ?s\<lparr> ns_ipv6_default_hop_limit := ra_current_hop_limit ra \<rparr> else ?s)"
  have "iface_ok ?s"
    using assms by (intro iface_ok_ndp) (auto simp: iface_ok_def link_ok_def apply_router_advertisement_timers_def Let_def
        intro: ndp_inv_fields)
  then have "iface_ok x" by (simp add: x_def)
  then show ?thesis
    unfolding ra_parameters_def Let_def x_def [symmetric] by (simp add: iface_ok_mtu split: option.split)
qed

lemma iface_ok_fold: "(\<And>x s. iface_ok s \<Longrightarrow> iface_ok (f x s)) \<Longrightarrow> iface_ok s \<Longrightarrow> iface_ok (fold f xs s)"
  by (induction xs arbitrary: s) simp_all

lemma iface_ok_ra_parts:
  assumes "iface_ok s"
  shows "iface_ok (ra_source r i s)" "iface_ok (ra_default_router r ra s)" "iface_ok (ra_learn_routes r ra s)"
    "iface_ok (ra_learn_prefixes ra s)" "iface_ok (cancel_router_discovery s)"
  using assms iface_ok_cache(1) [OF assms] iface_ok_cache(5) [OF iface_ok_cache(1) [OF assms]]
  by (auto simp: ra_source_def ra_default_router_def ra_learn_routes_def ra_learn_prefixes_def
      cancel_router_discovery_def Let_def intro!: iface_ok_fold iface_ok_learned iface_ok_discovery
      split: option.split)

lemma iface_ok_start_dad:
  "start_ipv6_dad a l g pl vl rl s = Some (f, s') \<Longrightarrow> iface_ok s \<Longrightarrow> iface_ok s'"
  by (auto simp: start_ipv6_dad_def Let_def bind_eq_Some_conv iface_ok_learned(6) split: if_splits option.splits)

lemma iface_ok_router_advertisement:
  assumes "process_router_advertisement h i s = Some (fs, s')" "iface_ok s"
  shows "iface_ok s'"
proof -
  have "iface_ok y" if "ra_autoconfigure ra x = Some (gs, y)" "iface_ok x" for ra x gs y
    using that by (auto simp: ra_autoconfigure_def Let_def bind_eq_Some_conv dest!: iface_ok_start_dad
        split: option.splits if_splits)
  with assms show ?thesis
    by (auto simp: process_router_advertisement_def Let_def split: option.splits
        intro!: iface_ok_ra_parts iface_ok_ra_parameters)
qed

lemma iface_ok_duplicate: "iface_ok s \<Longrightarrow> iface_ok (detect_duplicate m x s)"
  by (simp add: detect_duplicate_def mark_ipv6_dad_duplicate_def split: option.split)

lemma iface_ok_solicitation:
  "process_neighbor_solicitation m h i s = Some (fs, s') \<Longrightarrow> iface_ok s \<Longrightarrow> iface_ok s'"
  by (auto simp: process_neighbor_solicitation_def Let_def bind_eq_Some_conv
      intro!: iface_ok_duplicate iface_ok_cache(1) split: option.splits if_splits)

lemma iface_ok_pending_remove:
  "iface_ok s \<Longrightarrow> iface_ok (s\<lparr> ns_pending_ndp_packets := hm_remove ip (ns_pending_ndp_packets s) \<rparr>)"
  by (simp add: iface_ok_def routes_ok_def link_ok_def hm_get_remove)

lemma iface_ok_na:
  assumes "iface_ok s"
  shows "iface_ok (na_finish t sol s)" "iface_ok (na_known t m a fl s)" "iface_ok (snd (na_resolves t m fl s))"
proof -
  show "iface_ok (na_finish t sol s)" using assms by (simp add: na_finish_def iface_ok_learned(4))
  have "iface_ok (s\<lparr> ns_ndp_table := na_update_cached t m a sol ov now (ns_ndp_table s) \<rparr>)" for sol ov now
    using assms by (simp add: na_update_cached_def Let_def iface_ok_cache)
  then show "iface_ok (na_known t m a fl s)"
    by (simp add: na_known_def Let_def iface_ok_learned(1,2))
  let ?s = "s\<lparr> ns_ndp_table := (if fl AND 0x40 \<noteq> 0 then confirm_reachable t m (ns_current_time_ms s) (ns_ndp_table s)
      else mark_stale t m (ns_ndp_table s)) \<rparr>"
  define x where "x = (if fl AND 0x80 \<noteq> 0 \<and> default_router_deadline ?s t \<noteq> None then select_ipv6_default_router ?s else ?s)"
  have "iface_ok ?s" using assms by (simp add: iface_ok_cache)
  then have "iface_ok x" by (simp add: x_def iface_ok_learned(1) del: if_image_distrib)
  then show "iface_ok (snd (na_resolves t m fl s))"
    unfolding na_resolves_def Let_def x_def [symmetric] by (simp add: iface_ok_pending_remove split: option.split)
qed

lemma iface_ok_advertisement:
  assumes "process_neighbor_advertisement m h i s = (fs, s')" "iface_ok s"
  shows "iface_ok s'"
proof -
  have "iface_ok (snd (process_neighbor_advertisement m h i s))"
    using assms(2) by (simp add: process_neighbor_advertisement_def Let_def case_prod_beta iface_ok_duplicate
        iface_ok_na split: option.split)
  then show ?thesis by (simp add: assms(1))
qed

lemma iface_ok_icmpv6:
  assumes "process_icmpv6 m pkt i s = Some (fs, s')" "iface_ok s"
  shows "iface_ok s'"
  using assms unfolding process_icmpv6_def Let_def process_echo_request6_def process_echo_reply6_def
  by (auto simp: bind_eq_Some_conv iface_ok_packet_too_big iface_ok_redirect
      dest!: iface_ok_router_advertisement iface_ok_solicitation iface_ok_advertisement split: if_splits)

lemma iface_ok_ipv6: "process_ipv6 m p s = Some (fs, s') \<Longrightarrow> iface_ok s \<Longrightarrow> iface_ok s'"
  by (auto simp: process_ipv6_def Let_def dest: iface_ok_icmpv6 split: if_splits sum.splits)

section \<open>Events of the host\<close>

text \<open>What IPv4 and the sockets do leaves the interface alone.\<close>

definition iface_view :: "NetStack \<Rightarrow> NetStack" where
  "iface_view s = main_view (s\<lparr> ns_arp_table := arp_new, ns_tcp_manager := manager_new,
     ns_sockets := runtime_new ip_UNSPECIFIED, ns_udp_sockets := udp_table_new, ns_pending_arp_packets := [] \<rparr>)"

lemma iface_ok_view: "iface_view s' = iface_view s \<Longrightarrow> iface_ok s' = iface_ok s"
proof -
  have "iface_ok (iface_view s) = iface_ok s" for s
    by (simp add: iface_ok_def routes_ok_def link_ok_def iface_view_def main_view_def)
  then show "iface_view s' = iface_view s \<Longrightarrow> iface_ok s' = iface_ok s" by metis
qed

lemma iface_view_main: "main_view s' = main_view s \<Longrightarrow> iface_view s' = iface_view s"
proof -
  have "iface_view s = (main_view s)\<lparr> ns_arp_table := arp_new, ns_tcp_manager := manager_new,
     ns_sockets := runtime_new ip_UNSPECIFIED, ns_udp_sockets := udp_table_new, ns_pending_arp_packets := [] \<rparr>" for s
    by (simp add: iface_view_def main_view_def)
  then show "main_view s' = main_view s \<Longrightarrow> iface_view s' = iface_view s" by simp
qed

lemma iface_view_updates [simp]:
  "iface_view (s\<lparr> ns_arp_table := x1 \<rparr>) = iface_view s"
  "iface_view (s\<lparr> ns_tcp_manager := x2 \<rparr>) = iface_view s"
  "iface_view (s\<lparr> ns_sockets := x3 \<rparr>) = iface_view s"
  "iface_view (s\<lparr> ns_udp_sockets := x4 \<rparr>) = iface_view s"
  "iface_view (s\<lparr> ns_pending_arp_packets := x5 \<rparr>) = iface_view s"
  "iface_view (s\<lparr> ns_ip_id_counter := x6 \<rparr>) = iface_view s"
  by (simp_all add: iface_view_def main_view_def)

lemma iface_view_arp: "process_arp p s = (fs, s') \<Longrightarrow> iface_view s' = iface_view s"
  by (auto simp: process_arp_def Let_def split: sum.splits option.splits)

lemma iface_view_transport:
  "process_icmp m pkt s = Some (fs, s') \<Longrightarrow> iface_view s' = iface_view s"
  "process_udp m pkt s = Some (fs, s') \<Longrightarrow> iface_view s' = iface_view s"
  "process_tcp m pkt s = Some (fs, s') \<Longrightarrow> iface_view s' = iface_view s"
proof -
  show "process_icmp m pkt s = Some (fs, s') \<Longrightarrow> iface_view s' = iface_view s"
    by (rule iface_view_main [OF main_view_icmp])
  show "iface_view s' = iface_view s" if "process_udp m pkt s = Some (fs, s')"
    using iface_view_main [OF process_udp_state [OF that]] process_udp_dropped [OF that]
    by (cases "udp_parse (ip_src_ip (ipp_header pkt)) (ip_dst_ip (ipp_header pkt)) (ipp_payload pkt) True") simp_all
  show "iface_view s' = iface_view s" if "process_tcp m pkt s = Some (fs, s')"
    using that by (cases rule: process_tcp_cases) (metis iface_view_main iface_view_updates)+
qed

lemma iface_view_ipv4:
  assumes "process_ipv4 m p s = Some (fs, s')"
  shows "iface_view s' = iface_view s"
proof (cases "ipv4_parse p True")
  case (Inr pkt)
  let ?s = "s\<lparr> ns_arp_table := arp_insert (ip_src_ip (ipp_header pkt)) m (ns_arp_table s) \<rparr>"
  have "s' = s \<or> s' = ?s \<or> process_icmp m pkt ?s = Some (fs, s') \<or> process_udp m pkt ?s = Some (fs, s') \<or>
      process_tcp m pkt ?s = Some (fs, s')"
    using assms Inr unfolding process_ipv4_def Let_def by (auto split: if_splits IpProtocol.splits)
  then show ?thesis using iface_view_transport [of m pkt ?s fs s'] by auto
qed (use assms in \<open>simp add: process_ipv4_def\<close>)

lemma iface_ok_frame: "process_frame raw s = Some (fs, s') \<Longrightarrow> iface_ok s \<Longrightarrow> iface_ok s'"
  using iface_ok_view [OF iface_view_arp] iface_ok_view [OF iface_view_ipv4] iface_ok_ipv6
  unfolding process_frame_def by (simp split: sum.splits if_splits EtherType.splits; blast)

lemma iface_ok_push:
  assumes "iface_ok s" "length p \<le> unat (ns_ipv6_link_mtu s)"
  shows "iface_ok (s\<lparr> ns_pending_ndp_packets := hm_push ip p (ns_pending_ndp_packets s) \<rparr>)"
proof -
  let ?q = "hm_push ip p (ns_pending_ndp_packets s)"
  have q: "ps \<noteq> [] \<and> (\<forall>packet \<in> set ps. length packet \<le> unat (ns_ipv6_link_mtu s))"
    if "hm_get (ns_pending_ndp_packets s) k = Some ps" for k ps
    using assms(1) that by (simp add: iface_ok_def link_ok_def)
  have "ps \<noteq> [] \<and> (\<forall>packet \<in> set ps. length packet \<le> unat (ns_ipv6_link_mtu s))" if "hm_get ?q k = Some ps" for k ps
    using that assms(2) q [of k ps] q [of ip]
    by (auto simp: hm_push_def hm_get_insert split: if_splits option.splits)
  then have "iface_ok (s\<lparr> ns_ipv6_link_mtu := ns_ipv6_link_mtu s, ns_pending_ndp_packets := ?q \<rparr>)"
    using assms(1) by (intro iface_ok_queue) (simp_all add: iface_ok_def link_ok_def hm_push_def)
  then show ?thesis by simp
qed

lemma iface_ok_sent:
  assumes "iface_ok s"
  shows "iface_ok (s\<lparr> ns_ndp_table := snd (lookup_for_transmit ip now (ns_ndp_table s)) \<rparr>)"
    "iface_ok (s\<lparr> ns_ipv6_redirect_cache := c, ns_ndp_table := snd (lookup_for_transmit ip now (ns_ndp_table s)) \<rparr>)"
    "length p \<le> unat (ns_ipv6_link_mtu s) \<Longrightarrow>
      iface_ok (s\<lparr> ns_ndp_table := snd (lookup_for_transmit ip now (ns_ndp_table s)),
        ns_pending_ndp_packets := hm_push k p (ns_pending_ndp_packets s) \<rparr>)"
    "length p \<le> unat (ns_ipv6_link_mtu s) \<Longrightarrow>
      iface_ok (s\<lparr> ns_ipv6_redirect_cache := c, ns_ndp_table := snd (lookup_for_transmit ip now (ns_ndp_table s)),
        ns_pending_ndp_packets := hm_push k p (ns_pending_ndp_packets s) \<rparr>)"
proof -
  have c: "iface_ok (s\<lparr> ns_ipv6_redirect_cache := c \<rparr>)" using assms by simp
  note t = iface_ok_cache(5) [OF assms, of ip now] iface_ok_cache(5) [OF c, of ip now, simplified]
  show "iface_ok (s\<lparr> ns_ndp_table := snd (lookup_for_transmit ip now (ns_ndp_table s)) \<rparr>)"
    "iface_ok (s\<lparr> ns_ipv6_redirect_cache := c, ns_ndp_table := snd (lookup_for_transmit ip now (ns_ndp_table s)) \<rparr>)"
    by (rule t)+
  show "length p \<le> unat (ns_ipv6_link_mtu s) \<Longrightarrow>
      iface_ok (s\<lparr> ns_ndp_table := snd (lookup_for_transmit ip now (ns_ndp_table s)),
        ns_pending_ndp_packets := hm_push k p (ns_pending_ndp_packets s) \<rparr>)"
    "length p \<le> unat (ns_ipv6_link_mtu s) \<Longrightarrow>
      iface_ok (s\<lparr> ns_ipv6_redirect_cache := c, ns_ndp_table := snd (lookup_for_transmit ip now (ns_ndp_table s)),
        ns_pending_ndp_packets := hm_push k p (ns_pending_ndp_packets s) \<rparr>)"
    using iface_ok_push [OF t(1), of p k] iface_ok_push [OF t(2), of p k] by simp_all
qed

lemma iface_ok_send6:
  assumes "send_ip6_packet dst p s = Some (f, s')" "iface_ok s"
  shows "iface_ok s'"
proof (cases "f = None \<and> s' = s")
  case False
  then have "length p \<le> unat (ns_ipv6_link_mtu s)"
    using assms(1) by (auto simp: send_ip6_packet_def Let_def word_le_nat_alt unat_min_word split: if_splits)
  with assms show ?thesis
    unfolding send_ip6_packet_def Let_def case_prod_beta
    by (auto simp: bind_eq_Some_conv iface_ok_sent split: if_splits option.splits)
qed (use assms in simp)

lemma iface_view_send: "iface_view (snd (send_ip_packet dst p s)) = iface_view s"
  using send_ip_packet_state [of dst p s] by auto

lemma iface_view_transmit:
  "send_transport src dst pr p s = Some (f, s') \<Longrightarrow> iface_view s' = iface_view s"
  "transmit_all ps s = Some (fs, s') \<Longrightarrow> iface_view s' = iface_view s"
proof -
  show one: "iface_view s' = iface_view s" if "send_transport src dst pr p s = Some (f, s')" for src dst pr p s f s'
    using that iface_view_send
    by (auto simp: send_transport_def next_ip_id_def bind_eq_Some_conv) (metis iface_view_updates(6) snd_conv)
  show "transmit_all ps s = Some (fs, s') \<Longrightarrow> iface_view s' = iface_view s"
  proof (induction ps s arbitrary: fs s' rule: transmit_all.induct)
    case (2 src dst pr p rest s)
    then obtain f s1 gs where "send_transport src dst pr p s = Some (f, s1)" "transmit_all rest s1 = Some (gs, s')"
      by (auto simp: bind_eq_Some_conv)
    then show ?case using 2 one by (metis (no_types))
  qed simp
qed

lemma step_timers_interface:
  assumes "stack_step_timers now s = Some (fs, s')"
  obtains fs1 s1 where "interface_timers now (s\<lparr> ns_current_time_ms := now \<rparr>) = Some (fs1, s1)"
    "iface_view s' = iface_view s1"
proof -
  obtain s1 fs1 where s1: "interface_timers now (s\<lparr> ns_current_time_ms := now \<rparr>) = Some (fs1, s1)"
    using assms by (auto simp: stack_step_timers_def bind_eq_Some_conv)
  then obtain rt ps2 fs2 s2 mgr ps3 fs3 where "transmit_all ps2 (s1\<lparr> ns_sockets := rt \<rparr>) = Some (fs2, s2)"
    "transmit_all ps3 (s2\<lparr> ns_tcp_manager := mgr \<rparr>) = Some (fs3, s')"
    using assms by (auto simp: stack_step_timers_def bind_eq_Some_conv)
  then have "iface_view s' = iface_view s1"
    using iface_view_transmit(2) iface_view_updates(2,3) by (metis (no_types))
  with s1 show ?thesis by (rule that)
qed

lemma iface_ok_step_timers:
  assumes "stack_step_timers now s = Some (fs, s')" "iface_ok s"
  shows "iface_ok s'"
proof (rule step_timers_interface [OF assms(1)])
  fix fs1 s1 assume s1: "interface_timers now (s\<lparr> ns_current_time_ms := now \<rparr>) = Some (fs1, s1)"
    and v: "iface_view s' = iface_view s1"
  show "iface_ok s'" using iface_ok_timers [OF s1] assms(2) by (simp add: iface_ok_view [OF v])
qed

lemma iface_view_calls:
  "iface_view (snd (with_sockets g s)) = iface_view s"
  "with_sockets_panic h s = Some (r, s') \<Longrightarrow> iface_view s' = iface_view s"
  "ping4 dst i n p s = Some (f, s') \<Longrightarrow> iface_view s' = iface_view s"
  "send_udp dst sp dp p s = Some (f, s') \<Longrightarrow> iface_view s' = iface_view s"
  "tcp_connect_raw dst sp dp isn s = Some (f, s') \<Longrightarrow> iface_view s' = iface_view s"
  "tcp_send_data_raw dst sp dp p s = Some (f, s') \<Longrightarrow> iface_view s' = iface_view s"
  "tcp_close_raw dst sp dp s = Some (f, s') \<Longrightarrow> iface_view s' = iface_view s"
  "dhcp_discover xid s = Some (g', s') \<Longrightarrow> iface_view s' = iface_view s"
  "dhcp_request ip sid xid s = Some (g', s') \<Longrightarrow> iface_view s' = iface_view s"
  by (auto simp: with_sockets_def with_sockets_panic_def ping4_def send_udp_def tcp_connect_raw_def
      tcp_send_data_raw_def tcp_close_raw_def dhcp_discover_def dhcp_request_def dhcp_broadcast_def next_ip_id_def
      Let_def bind_eq_Some_conv case_prod_beta dest!: iface_view_transmit(1) split: option.splits)

lemmas iface_ok_calls = iface_ok_view [OF iface_view_calls(2), THEN iffD2] iface_ok_view [OF iface_view_calls(3), THEN iffD2]
  iface_ok_view [OF iface_view_calls(4), THEN iffD2] iface_ok_view [OF iface_view_calls(5), THEN iffD2]
  iface_ok_view [OF iface_view_calls(6), THEN iffD2] iface_ok_view [OF iface_view_calls(7), THEN iffD2]
  iface_ok_view [OF iface_view_calls(8), THEN iffD2] iface_ok_view [OF iface_view_calls(9), THEN iffD2]

lemma iface_ok_others:
  "iface_ok s \<Longrightarrow> iface_ok (clear_ipv6_path_mtu d s)"
  "iface_ok (apply_dhcp_ack ack s) = iface_ok s" "iface_ok (enable_nat ip s) = iface_ok s"
  "iface_ok (snd (with_sockets g s)) = iface_ok s" "iface_ok (s\<lparr> ns_sockets := rt \<rparr>) = iface_ok s"
proof -
  show "iface_ok (snd (with_sockets g s)) = iface_ok s" by (rule iface_ok_view [OF iface_view_calls(1)])
  show "iface_ok s \<Longrightarrow> iface_ok (clear_ipv6_path_mtu d s)"
    by (simp add: clear_ipv6_path_mtu_def iface_ok_def routes_ok_def link_ok_def hm_get_remove)
qed (simp_all add: apply_dhcp_ack_def enable_nat_def iface_ok_def routes_ok_def link_ok_def Let_def split: option.split)

lemma iface_ok_step:
  assumes "stack_step ev s = Some s'" "iface_ok s"
  shows "iface_ok s'"
proof (cases ev)
  case (EvFrame raw)
  then show ?thesis using assms by (auto dest: iface_ok_frame)
next
  case (EvFrameErrors raw)
  then show ?thesis using assms
    by (auto simp: process_frame_with_ipv4_errors_def bind_eq_Some_conv dest: iface_ok_frame split: option.splits)
next
  case (EvTick now)
  then show ?thesis using assms by (auto dest: iface_ok_step_timers)
next
  case EvPoll
  then show ?thesis using assms by (auto simp: poll_transmit_def dest: iface_ok_step_timers)
next
  case (EvSendIp dst p)
  then show ?thesis using assms iface_ok_view [OF iface_view_send [of dst p s]] by simp
next
  case (EvPing6 dst i n p)
  then show ?thesis using assms by (auto simp: ping6_def Let_def bind_eq_Some_conv dest: iface_ok_send6)
next
  case EvCancelDiscovery
  then show ?thesis using assms by (auto simp: iface_ok_ra_parts(5))
qed (use assms in \<open>auto simp: stack_calls iface_ok_configure iface_ok_clear iface_ok_others
      dest: iface_ok_calls iface_ok_send6 iface_ok_start_discovery\<close>)

lemma iface_ok_new: "iface_ok (netstack_new config)"
  by (simp add: iface_ok_def routes_ok_def link_ok_def netstack_new_def Let_def table6_ok_def table6_inv_def
      table6_new_def table6_map_def ndp_inv_def ndp_new_def IPV6_ETHERNET_LINK_MTU_def)

lemma iface_ok_run: "stack_run evs s = Some s' \<Longrightarrow> iface_ok s \<Longrightarrow> iface_ok s'"
  by (induction evs arbitrary: s) (auto simp: bind_eq_Some_conv dest: iface_ok_step)

lemma table6_map_iff:
  "table6_ok t \<Longrightarrow> table6_map t k = Some g \<longleftrightarrow> (\<exists>r \<in> set (rt6_routes t). r6_key r = k \<and> r6_gateway r = g)"
proof -
  assume "table6_ok t"
  then have "distinct (map fst (map (\<lambda>r. (r6_key r, r6_gateway r)) (rt6_routes t)))"
    by (simp add: table6_ok_def comp_def)
  from map_of_eq_Some_iff [OF this] show ?thesis unfolding table6_map_def by auto
qed

section \<open>Runs\<close>

text \<open>C5: in every state that a host reaches by received frames, clock ticks and calls, its IPv6 routing table
  agrees with what it has learned: the static default route is the one through the selected gateway,
  every route learned from an advertisement leads to a router whose advertisement of exactly this
  prefix is still remembered, the on-link routes are those of the remembered prefixes, and no prefix
  has two routes of the same origin.\<close>
theorem host_routes_consistent:
  assumes "stack_run evs (netstack_new config) = Some s"
  defines "routes \<equiv> rt6_routes (ns_ipv6_routing_table s)"
  shows "(ns_ipv6_gateway s = Some g \<longleftrightarrow> (\<exists>r \<in> set routes. r6_source r = Static \<and> r6_destination r = ip6_UNSPECIFIED \<and>
       r6_prefix_len r = 0 \<and> r6_gateway r = Some g)) \<and>
     (\<forall>r \<in> set routes. r6_source r = RaRoute \<longrightarrow> r6_prefix_len r \<noteq> 0 \<and> (\<exists>router. r6_gateway r = Some router \<and>
       hm_get (ns_ipv6_ra_routes s) (r6_destination r, r6_prefix_len r, router) \<noteq> None)) \<and>
     (hm_get (ns_ipv6_ra_on_link_prefixes s) (p, l) \<noteq> None \<longleftrightarrow>
       (\<exists>r \<in> set routes. r6_source r = Ra \<and> r6_destination r = p \<and> r6_prefix_len r = l)) \<and>
     distinct (map (\<lambda>r. (r6_destination r, r6_prefix_len r, r6_source r)) routes)"
proof -
  let ?t = "ns_ipv6_routing_table s"
  have ok: "routes_ok {} s" using iface_ok_run [OF assms(1) iface_ok_new] by (simp add: iface_ok_def)
  then have t: "table6_ok ?t" by (simp add: routes_ok_def Let_def)
  note get = table6_map_iff [OF t, folded routes_def]
  have "ns_ipv6_gateway s = Some g \<longleftrightarrow> table6_map ?t ((ip6_UNSPECIFIED, 0), Static) = Some (Some g)"
    using ok by (auto simp: routes_ok_def Let_def)
  then have gateway: "ns_ipv6_gateway s = Some g \<longleftrightarrow> (\<exists>r \<in> set routes. r6_source r = Static \<and>
      r6_destination r = ip6_UNSPECIFIED \<and> r6_prefix_len r = 0 \<and> r6_gateway r = Some g)"
    unfolding get by (auto simp: r6_key_def)
  have learned: "r6_prefix_len r \<noteq> 0 \<and> (\<exists>router. r6_gateway r = Some router \<and>
      hm_get (ns_ipv6_ra_routes s) (r6_destination r, r6_prefix_len r, router) \<noteq> None)"
    if "r \<in> set routes" "r6_source r = RaRoute" for r
  proof -
    have "table6_map ?t ((r6_destination r, r6_prefix_len r), RaRoute) = Some (r6_gateway r)"
      unfolding get using that by (auto simp: r6_key_def)
    with ok show ?thesis unfolding routes_ok_def Let_def by fastforce
  qed
  have "hm_get (ns_ipv6_ra_on_link_prefixes s) (p, l) \<noteq> None \<longleftrightarrow> (\<exists>g. table6_map ?t ((p, l), Ra) = Some g)"
    using ok by (auto simp: routes_ok_def Let_def)
  then have on_link: "hm_get (ns_ipv6_ra_on_link_prefixes s) (p, l) \<noteq> None \<longleftrightarrow>
      (\<exists>r \<in> set routes. r6_source r = Ra \<and> r6_destination r = p \<and> r6_prefix_len r = l)"
    unfolding get by (auto simp: r6_key_def)
  have "distinct (map (\<lambda>r. (r6_destination r, r6_prefix_len r, r6_source r)) routes)"
    using t by (simp add: table6_ok_def routes_def distinct_map inj_on_def r6_key_def)
  with gateway learned on_link show ?thesis by blast
qed

theorem host_routes_consistent_witness:
  "let g = O16 0xfe 0x80 0 0 0 0 0 0 0 0 0 0 0 0 0 1; a = O16 0x20 1 0x0d 0xb8 0 0 0 0 0 0 0 0 0 0 0 9;
       config = \<lparr> cfg_mac = O6 2 0 0 0 0 9, cfg_ip = O4 10 0 0 9, cfg_ipv6 = None, cfg_subnet_mask = 24, cfg_gateway = None \<rparr>
   in \<exists>s. stack_run [EvConfigure6 a 64 (Some g), EvFrame [1, 2, 3]] (netstack_new config) = Some s \<and>
        ns_ipv6_gateway s = Some g \<and> (\<exists>r \<in> set (rt6_routes (ns_ipv6_routing_table s)). r6_source r = Static \<and>
          r6_destination r = ip6_UNSPECIFIED \<and> r6_prefix_len r = 0 \<and> r6_gateway r = Some g)"
proof -
  let ?g = "O16 0xfe 0x80 0 0 0 0 0 0 0 0 0 0 0 0 0 1" and ?a = "O16 0x20 1 0x0d 0xb8 0 0 0 0 0 0 0 0 0 0 0 9"
  let ?config = "\<lparr> cfg_mac = O6 2 0 0 0 0 9, cfg_ip = O4 10 0 0 9, cfg_ipv6 = None, cfg_subnet_mask = 24, cfg_gateway = None \<rparr>"
  have "(case stack_run [EvConfigure6 ?a 64 (Some ?g), EvFrame [1, 2, 3]] (netstack_new ?config) of
      Some s \<Rightarrow> ns_ipv6_gateway s = Some ?g | None \<Rightarrow> False)"
    by code_simp
  then obtain s where s: "stack_run [EvConfigure6 ?a 64 (Some ?g), EvFrame [1, 2, 3]] (netstack_new ?config) = Some s"
    and g: "ns_ipv6_gateway s = Some ?g" by (auto split: option.splits)
  from host_routes_consistent [OF s, of ?g] g s show ?thesis unfolding Let_def by blast
qed


text \<open>The frames of Neighbor Discovery can always be built.\<close>

lemma icmpv6_frame_total: "length msg \<le> 65535 \<Longrightarrow> \<exists>f. icmpv6_frame dm sm src dst hop msg = Some f"
  using ipv6_parse_serialize [of msg src dst NEXT_HEADER_ICMPV6 hop] by (auto simp: icmpv6_frame_def)

lemma router_solicitation_total: "\<exists>f. router_solicitation s = Some f"
  unfolding router_solicitation_def Let_def
  by (rule icmpv6_frame_total) (simp add: build_router_solicitation_def split: option.split)


end
