(* ===== verification/StackGateway.thy ===== *)
theory StackGateway
  imports StackIface
begin

text \<open>
  The timer pump of a host selects its default router among learned routers: a gateway that was
  configured by hand is forgotten at the first tick.
\<close>

section \<open>A configured gateway and the clock\<close>

lemma no_candidates:
  assumes "ns_ipv6_default_routers s = []" "ns_ipv6_ra_routes s = []"
  shows "ns_ipv6_gateway (select_ipv6_default_router s) = None"
proof -
  have "choose_default_router s = (None, None)"
    using assms by (simp add: choose_default_router_def ipv6_default_route_candidates_def Let_def split: option.split)
  then show ?thesis
    by (simp add: select_ipv6_default_router_def set_ipv6_default_gateway_def Let_def remove_route6_of_def)
qed

definition unlearned :: "NetStack \<Rightarrow> bool" where
  "unlearned s \<longleftrightarrow> ns_ipv6_default_routers s = [] \<and> ns_ipv6_ra_routes s = [] \<and> ns_ipv6_dad s = None \<and>
     ns_ipv6_slaac_lifetimes s = None"

lemma unlearned_select: "unlearned s \<Longrightarrow> unlearned (select_ipv6_default_router s)"
  by (simp add: unlearned_def select_ipv6_default_router_def set_ipv6_default_gateway_def add_route6_to_def
      remove_route6_of_def Let_def split: prod.split option.split)

lemma unlearned_drop:
  assumes "unlearned s"
  shows "unlearned (snd (drop_unreachable_router a c s))"
proof -
  have "unlearned (s\<lparr> ns_ipv6_default_routers := filter P (ns_ipv6_default_routers s), ns_ipv6_ra_routes := filter Q (ns_ipv6_ra_routes s) \<rparr>)" for P Q
    using assms by (simp add: unlearned_def)
  from unlearned_select [OF this] assms show ?thesis
    by (simp add: drop_unreachable_router_def Let_def split: option.split)
qed

lemma interface_timers_last:
  assumes "interface_timers now s = Some (fs, s')" "unlearned s"
  obtains x a l gs where "unlearned x" "expire_interface now a l x = Some (gs, s')"
proof -
  obtain fs1 s1 where s1: "step_router_discovery now s = Some (fs1, s1)"
    using assms(1) by (auto simp: interface_timers_def Let_def bind_eq_Some_conv)
  let ?s2 = "s1\<lparr> ns_ndp_table := snd (step_nud now (ns_ndp_table s1)) \<rparr>"
  let ?s3 = "reselect_ipv6_ra_routes (quarantine_rio_routers (cached_rio_routers s1) ?s2)"
  obtain a c x l gs where last: "expire_interface now x l (complete_dad now (snd (expire_ra_routes now
      (expire_ra_prefixes now (snd (drop_unreachable_router a c ?s3)))))) = Some (gs, s')"
    using assms(1) s1 by (auto simp: interface_timers_def Let_def bind_eq_Some_conv case_prod_beta)
  have u2: "unlearned ?s2"
    using s1 assms(2) by (auto simp: step_router_discovery_def unlearned_def Let_def bind_eq_Some_conv split: option.splits if_splits)
  have "cached_rio_routers s1 = []" using u2 by (simp add: cached_rio_routers_def unlearned_def)
  then have "?s3 = ?s2"
    using u2 by (simp add: quarantine_rio_routers_def reselect_ipv6_ra_routes_def unlearned_def)
  with u2 have "unlearned (snd (drop_unreachable_router a c ?s3))" using unlearned_drop by simp
  moreover have "unlearned (complete_dad now (snd (expire_ra_routes now (expire_ra_prefixes now y))))" if "unlearned y" for y
  proof -
    have "unlearned (expire_ra_prefixes now y)" unfolding expire_ra_prefixes_def Let_def
      by (rule fold_invariant [where Q = "\<lambda>_. True"]) (use that in \<open>auto simp: unlearned_def remove_route6_of_def\<close>)
    then show ?thesis by (simp add: expire_ra_routes_def complete_dad_def unlearned_def Let_def)
  qed
  ultimately show ?thesis using that last by blast
qed

text \<open>C7: a default gateway that was configured by hand does not survive the next tick: on a host that has
  learned no router, the timer pump selects among learned routers only, so the gateway is forgotten
  and the routing table has no default route any more.\<close>
theorem manual_gateway_lost:
  assumes "stack_run evs (netstack_new config) = Some s" "ns_ipv6_default_routers s = []"
    and "stack_step_timers now (configure_ipv6_interface a l (Some g) s) = Some (fs, s')"
  shows "ns_ipv6_gateway (configure_ipv6_interface a l (Some g) s) = Some g \<and> ns_ipv6_gateway s' = None \<and>
    (\<forall>r \<in> set (rt6_routes (ns_ipv6_routing_table s')).
       \<not> (r6_source r = Static \<and> r6_destination r = ip6_UNSPECIFIED \<and> r6_prefix_len r = 0))"
proof -
  let ?s = "configure_ipv6_interface a l (Some g) s"
  have ok: "iface_ok s'"
    using iface_ok_step_timers [OF assms(3)] iface_ok_configure [OF iface_ok_run [OF assms(1) iface_ok_new]] .
  have un: "unlearned (?s\<lparr> ns_current_time_ms := now \<rparr>)" and before: "ns_ipv6_gateway ?s = Some g"
    using assms(2) by (simp_all add: unlearned_def configure_ipv6_interface_def remove_ra_routes_def
        remove_interface_routes_def add_route6_to_def remove_route6_of_def Let_def split: option.split)
  obtain s1 fs1 where s1: "interface_timers now (?s\<lparr> ns_current_time_ms := now \<rparr>) = Some (fs1, s1)"
    and v: "iface_view s' = iface_view s1"
    by (rule step_timers_interface [OF assms(3)])
  obtain x b c gs where x: "unlearned x" "expire_interface now b c x = Some (gs, s1)"
    by (rule interface_timers_last [OF s1 un])
  let ?x = "x\<lparr> ns_ipv6_default_routers := filter (\<lambda>(_, deadline, _). not_expired now deadline) (ns_ipv6_default_routers x) \<rparr>"
  have "ns_ipv6_gateway (select_ipv6_default_router ?x) = None"
    using x(1) by (intro no_candidates) (simp_all add: unlearned_def)
  then have "ns_ipv6_gateway s1 = None"
    using x by (auto simp: expire_interface_def expire_ipv6_default_routers_def start_router_discovery_def unlearned_def
        Let_def bind_eq_Some_conv split: if_splits)
  moreover have "ns_ipv6_gateway s' = ns_ipv6_gateway s1"
    using arg_cong [OF v, of ns_ipv6_gateway] by (simp add: iface_view_def main_view_def)
  ultimately have none: "ns_ipv6_gateway s' = None" by simp
  with ok have "table6_map (ns_ipv6_routing_table s') ((ip6_UNSPECIFIED, 0), Static) = None" and "table6_ok (ns_ipv6_routing_table s')"
    by (simp_all add: iface_ok_def routes_ok_def Let_def)
  with table6_map_iff have "\<not> (\<exists>r \<in> set (rt6_routes (ns_ipv6_routing_table s')). r6_key r = ((ip6_UNSPECIFIED, 0), Static))"
    by (metis option.distinct(1))
  with before none show ?thesis by (auto simp: r6_key_def)
qed

text \<open>The first half of the pump never panics.\<close>

lemma bind_total: "x \<noteq> None \<Longrightarrow> (\<And>y. f y \<noteq> None) \<Longrightarrow> Option.bind x f \<noteq> None"
  by (cases x) simp_all

lemma nud_probe_frames_total: "nud_probe_frames s probes \<noteq> None"
proof (induction probes)
  case (Cons probe probes)
  obtain target dst_mac where [simp]: "probe = (target, dst_mac)" by fastforce
  have "icmpv6_frame dst_mac (ns_mac s) ip target 255 (build_neighbor_solicitation ip target target (ns_mac s)) \<noteq> None" for ip
    using icmpv6_frame_total [of "build_neighbor_solicitation ip target target (ns_mac s)"]
    by (simp add: build_neighbor_solicitation_def)
  with Cons show ?case by (cases "ns_ipv6 s") (simp_all only: nud_probe_frames.simps option.case \<open>probe = _\<close> bind_total not_False_eq_True option.distinct)
qed simp

lemma interface_timers_total: "interface_timers now s \<noteq> None"
proof -
  have rd: "step_router_discovery now x \<noteq> None" for x
    using router_solicitation_total [of x] by (auto simp: step_router_discovery_def Let_def split: option.split)
  have sd: "start_router_discovery x \<noteq> None" for x
    using router_solicitation_total unfolding start_router_discovery_def Let_def by (intro bind_total) auto
  have "start_router_discovery x \<bind> (\<lambda>p. Some ([fst p], snd p)) \<noteq> None" for x
    by (intro bind_total sd) simp
  then have ei: "expire_interface now a l x \<noteq> None" for a l x
    unfolding expire_interface_def Let_def case_prod_beta by (simp only: split: if_split) simp
  show ?thesis unfolding interface_timers_def Let_def case_prod_beta
    by (intro bind_total rd nud_probe_frames_total ei) simp
qed

lemma interface_timers_manager:
  assumes "interface_timers now s = Some (fs, s')"
  shows "ns_tcp_manager s' = ns_tcp_manager s"
proof (rule interface_timers_rule [OF assms, of "\<lambda>x. ns_tcp_manager x = ns_tcp_manager s"])
  have configure: "ns_tcp_manager (configure_ipv6_interface a l g x) = ns_tcp_manager x"
    "ns_tcp_manager (clear_ipv6_interface x) = ns_tcp_manager x" for a l g x
    by (simp_all add: configure_ipv6_interface_def clear_ipv6_interface_def remove_interface_routes_def
      remove_ra_routes_def add_route6_to_def remove_route6_of_def Let_def split: option.split)
  show "ns_tcp_manager (complete_dad now x) = ns_tcp_manager s" if "ns_tcp_manager x = ns_tcp_manager s" for x
    using that by (simp add: complete_dad_def Let_def remove_route6_of_def configure split: option.split)
  show "ns_tcp_manager y = ns_tcp_manager s"
    if "ns_tcp_manager x = ns_tcp_manager s" "expire_interface now a l x = Some (gs, y)" for x a l gs y
    using that unfolding expire_interface_def Let_def
    by (auto simp: case_prod_beta bind_eq_Some_conv configure host_view_fields(7) [OF host_view_routers(2)]
        dest!: host_view_discovery(1) [THEN host_view_fields(7)] split: if_splits)
qed (auto simp: host_view_fields(7) [OF host_view_pump(1)] host_view_fields(7) [OF host_view_pump(2)]
      host_view_fields(7) [OF host_view_pump(3)] host_view_fields(7) [OF host_view_pump(4)]
      host_view_fields(7) [OF host_view_ra_routes(1)] dest: host_view_discovery(2) [THEN host_view_fields(7)])

theorem manual_gateway_lost_witness:
  "let g = O16 0xfe 0x80 0 0 0 0 0 0 0 0 0 0 0 0 0 1; a = O16 0x20 1 0x0d 0xb8 0 0 0 0 0 0 0 0 0 0 0 9;
       config = \<lparr> cfg_mac = O6 2 0 0 0 0 9, cfg_ip = O4 10 0 0 9, cfg_ipv6 = None, cfg_subnet_mask = 24, cfg_gateway = None \<rparr>;
       s = configure_ipv6_interface a 64 (Some g) (netstack_new config)
   in ns_ipv6_gateway s = Some g \<and> (\<exists>fs s'. stack_step_timers 10 s = Some (fs, s') \<and> ns_ipv6_gateway s' = None)"
proof -
  let ?g = "O16 0xfe 0x80 0 0 0 0 0 0 0 0 0 0 0 0 0 1" and ?a = "O16 0x20 1 0x0d 0xb8 0 0 0 0 0 0 0 0 0 0 0 9"
  let ?config = "\<lparr> cfg_mac = O6 2 0 0 0 0 9, cfg_ip = O4 10 0 0 9, cfg_ipv6 = None, cfg_subnet_mask = 24, cfg_gateway = None \<rparr>"
  have run: "stack_run [] (netstack_new ?config) = Some (netstack_new ?config)"
    and none: "ns_ipv6_default_routers (netstack_new ?config) = []" by (simp_all add: netstack_new_def Let_def)
  let ?s = "configure_ipv6_interface ?a 64 (Some ?g) (netstack_new ?config)"
  obtain fs1 s1 where s1: "interface_timers 10 (?s\<lparr> ns_current_time_ms := 10 \<rparr>) = Some (fs1, s1)"
    using interface_timers_total [of 10 "?s\<lparr> ns_current_time_ms := 10 \<rparr>"] by auto
  have "ns_sockets s1 = runtime_new (O4 10 0 0 9)" "ns_tcp_manager s1 = manager_new"
    using interface_timers_sockets [OF s1] interface_timers_manager [OF s1]
    by (simp_all add: configure_ipv6_interface_def remove_interface_routes_def remove_ra_routes_def add_route6_to_def
        remove_route6_of_def netstack_new_def Let_def)
  moreover obtain rt where "socket_step_timers 10 (runtime_new (O4 10 0 0 9)) = Some ([], rt)"
    by (simp add: socket_step_timers_def runtime_new_def queued_tx_def Let_def)
  moreover obtain mgr where "step_timers 10 manager_new = Some ([], mgr)"
    by (simp add: step_timers_def manager_new_def)
  ultimately obtain fs s' where t: "stack_step_timers 10 ?s = Some (fs, s')"
    using s1 by (auto simp: stack_step_timers_def)
  from manual_gateway_lost [OF run none t] t show ?thesis unfolding Let_def by blast
qed

end
