(* ===== verification/Spec2Isabelle.thy ===== *)
theory Spec2Isabelle
  imports Vlan Arp Udp Icmp Reassembly TcpLink SocketDelivery Dhcp Router Firewall NatTable
    RouterV6 NdpWire Ndp StackDhcp StackGateway
begin

text \<open>
  A verification development for a userspace TCP/IP stack written in Rust (\<open>src/src/\<close>).

  \<^bold>\<open>The program.\<close>  Frames enter at the Ethernet layer (\<open>ethernet.rs\<close>, \<open>vlan.rs\<close>); addresses are
  resolved by ARP (\<open>arp.rs\<close>); IPv4 packets (\<open>ipv4.rs\<close>, checksums in \<open>checksum.rs\<close>) are filtered
  (\<open>firewall.rs\<close>), translated (\<open>nat.rs\<close>), routed (\<open>router.rs\<close>), reassembled and fragmented
  (\<open>fragment.rs\<close>) and handed to ICMP (\<open>icmp.rs\<close>), UDP (\<open>udp.rs\<close>) and TCP (\<open>tcp.rs\<close>, \<open>tcp_seq.rs\<close>,
  \<open>congestion.rs\<close>).  A TCP connection is a state machine fed by segments, by a clock and by its
  application; the manager of \<open>tcp.rs\<close> holds the connections under their four-tuples.  IPv6
  (\<open>ipv6.rs\<close>, \<open>router_ipv6.rs\<close>) resolves addresses and learns routers and prefixes by Neighbor Discovery
  (\<open>icmpv6.rs\<close>).  The host (\<open>stack.rs\<close>) owns one instance of each of these parts: it dispatches received
  frames to them, sends their packets through the routing tables and the caches of hardware addresses,
  drives their clocks, and keeps the learned routers, prefixes and addresses of IPv6.

  \<^bold>\<open>Conventions.\<close>  Machine integers are words of their width (\<open>u8\<close> to \<open>u64\<close>), byte buffers are
  lists of \<open>u8\<close>, lengths and \<open>usize\<close> are \<open>nat\<close>.  A \<open>Result\<close> is a sum with the error on the left; a
  function that may panic returns an option whose \<open>None\<close> is the panic (\<open>may_panic\<close>).  An operation on
  \<open>&mut self\<close> takes the state last and returns the new one.  A \<open>HashMap\<close> is an association list with
  distinct keys, in the order of its iteration; no theorem depends on that order, except that the choice
  among default routers of equal rank takes the first of the list, as the code does.  The \<open>f64\<close> of the
  round-trip estimator is a rational with the rounding to double precision written out.  Loops are
  total functions with a termination proof, except the search for an ephemeral port, which is a partial
  function shown to return; no fuel is used.

  \<^bold>\<open>Theories.\<close>
  \<^item> \<open>Prelude\<close>: types, saturating arithmetic, byte order, slices, hash maps.  \<open>Interfaces\<close>: the
    contracts shared by the components as locales (tag codecs, wire codecs, sealed checksums, keyed
    tables, invariants over operation sequences), interpreted where each component is defined.
    \<open>TextNum\<close>: decimal and hexadecimal parsing.  \<open>Comparators\<close>: comparator-driven stable sorting and
    selection (\<open>sort_by\<close>, \<open>max_by\<close>) with a locale for lawful comparators.
  \<^item> \<open>Checksum\<close> (\<open>checksum.rs\<close>): the one's-complement sum, its verification as arithmetic modulo
    65535, sealing, detection of single-byte corruption.
  \<^item> \<open>Ethernet\<close>, \<open>Vlan\<close>, \<open>Arp\<close>, \<open>Ipv4\<close>, \<open>Udp\<close>, \<open>Icmp\<close>: parsers and serializers with their round trips
    and geometry, the ARP cache (static entries are never replaced by packets, dynamic ones expire),
    the UDP socket table, the TTL decrement of a router, the ICMP error messages.
  \<^item> \<open>Fragment\<close>, \<open>Reassembly\<close> (\<open>fragment.rs\<close>): fragmentation, and reassembly under resource limits: it
    never produces wrong bytes, undoes fragmentation in any arrival order, and stays within its bounds.
  \<^item> \<open>Router\<close>, \<open>Firewall\<close>, \<open>NatTable\<close>: longest-prefix lookup, affinity of resilient ECMP, withdrawal;
    first-match filtering; address translation and its inverse.
  \<^item> \<open>TcpSeq\<close>, \<open>Congestion\<close>: sequence arithmetic modulo \<open>2 ^ 32\<close>, congestion window and retransmission
    timeout.
  \<^item> \<open>TcpSegment\<close>: segments and options on the wire.  \<open>TcpConnection\<close>: the connection, one definition per
    operation and per state handler of \<open>handle_segment_at\<close> and per phase of \<open>poll_output\<close>.
  \<^item> \<open>TcpReceive\<close>, \<open>TcpRun\<close>, \<open>TcpPanic\<close>, \<open>TcpDelivery\<close>: runs of a connection under all events; the
    receiver delivers a prefix of the peer's stream whatever the network does, within bounded memory;
    which runs can panic.
  \<^item> \<open>TcpSend\<close>, \<open>TcpSender\<close>: the sender's invariant (send buffer, retransmission queue, counters) kept by
    every operation against any peer, and the packets it emits.
  \<^item> \<open>TcpManager\<close>, \<open>TcpHandshake\<close>: the connection manager refines independent connections; the three-way
    handshake and the refusal of segments for closed ports, both over serialized bytes.
  \<^item> \<open>TcpLink\<close>: a client and a server over an arbitrary network of bytes; what one application writes is
    what the other reads.

  \<^item> \<open>Sockets\<close>, \<open>SocketTables\<close>, \<open>SocketDelivery\<close> (\<open>socket.rs\<close>): the socket runtime with one definition per
    method; its tables of handles, ports and connections stay consistent, the search for an ephemeral
    port ends and finds a free one, datagrams and streams reach the application that owns the socket.
  \<^item> \<open>Dhcp\<close> (\<open>dhcp.rs\<close>): messages and the server; its clients hold distinct leases as long as they
    request what they were offered.
  \<^item> \<open>Ipv6\<close> (\<open>ipv6.rs\<close>), \<open>RouterV6\<close> (\<open>router_ipv6.rs\<close>): addresses and their compressed text form, packets,
    the transport checksum; longest-prefix lookup with multipath routes.
  \<^item> \<open>Icmpv6\<close>, \<open>NdpWire\<close>, \<open>Ndp\<close> (\<open>icmpv6.rs\<close>): messages, options and validators; what the builders send is
    accepted and read back by the validators; the neighbor cache stays consistent and a neighbor that
    does not answer is probed and removed.
  \<^item> \<open>NetStack\<close>, \<open>StackTimers\<close>, \<open>StackFrames\<close> (\<open>stack.rs\<close>): the host, one definition per method; the timer
    pump has one definition per phase and \<open>process_frame\<close> one per protocol and message, in the order of
    the code.  \<open>StackViews\<close>: which part of the state each of them leaves alone.
  \<^item> \<open>StackRun\<close>: in any run of frames, ticks and calls the socket runtime sees exactly the datagrams and
    segments of admitted packets.  \<open>StackLink\<close>, \<open>StackDhcp\<close>: two hosts on a link; resolution and echo from
    cold caches, and the configuration of a client by DHCP.
  \<^item> \<open>StackRoutes\<close>, \<open>StackIface\<close>: the IPv6 routing table as a map from prefix and origin to the next hop, and
    the invariant of the IPv6 interface over all runs: routes agree with the gateway, the advertised routes
    and the on-link prefixes the host remembers; MTUs and queued packets stay in range.
    \<open>StackGateway\<close>: the timer pump forgets a gateway that was configured by hand.

  \<^bold>\<open>Bounds.\<close>  Streams of the end-to-end theorem are below \<open>2 ^ 30\<close> bytes, so that no packet on the
  network is older than half the sequence space; the theorems about one receiver allow streams of any
  length whose segments are less than \<open>2 ^ 30\<close> bytes old.  Segment payloads are at most 65475 bytes where
  a checksum has to verify, so that segment and pseudo-header lengths fit 16 bits.

  \<^bold>\<open>Not modelled.\<close>  The shell and the laboratory scripts, DHCPv6, the application protocols, and the routing, tunnelling, mobile-core, radio
  and time-sensitive-networking modules, which do not take part in the IP and TCP path.  Display
  texts of errors are left out.
\<close>

end
